(* ===== verification/Gitcask_Prelude.thy ===== *)
theory Gitcask_Prelude
  imports Complex_Main "HOL-Library.Char_ord" "HOL-Library.List_Lexorder" "HOL-Library.Sublist"
begin

text \<open>
  The shared base of the development: strings as the programs see them (byte lists; a character
  outside ASCII is its UTF-8 encoding), the string functions of the JavaScript and Rust standard
  libraries that the sources call, the result type for code that can fail, and the generic
  lemmas on lists that the component theories use.
\<close>

section \<open>Collections of facts\<close>

named_theorems dom_simps \<open>evaluation of element trees\<close>
named_theorems store_simps \<open>evaluation of object-store operations\<close>

section \<open>Characters outside ASCII\<close>

text \<open>A line feed and a backslash, and the UTF-8 bytes of the characters the site's texts use.\<close>

abbreviation nl :: string where "nl \<equiv> [CHR 0x0A]"
abbreviation bslash :: string where "bslash \<equiv> [CHR 0x5C]"
abbreviation u_parallel :: string where "u_parallel \<equiv> [CHR 0xE2, CHR 0x88, CHR 0xA5]"
abbreviation u_ellipsis :: string where "u_ellipsis \<equiv> [CHR 0xE2, CHR 0x80, CHR 0xA6]"
abbreviation u_rsquo :: string where "u_rsquo \<equiv> [CHR 0xE2, CHR 0x80, CHR 0x99]"
abbreviation u_ndash :: string where "u_ndash \<equiv> [CHR 0xE2, CHR 0x80, CHR 0x93]"
abbreviation u_mdash :: string where "u_mdash \<equiv> [CHR 0xE2, CHR 0x80, CHR 0x94]"
abbreviation u_rarr :: string where "u_rarr \<equiv> [CHR 0xE2, CHR 0x86, CHR 0x92]"
abbreviation u_le :: string where "u_le \<equiv> [CHR 0xE2, CHR 0x89, CHR 0xA4]"
abbreviation u_ge :: string where "u_ge \<equiv> [CHR 0xE2, CHR 0x89, CHR 0xA5]"
abbreviation u_approx :: string where "u_approx \<equiv> [CHR 0xE2, CHR 0x89, CHR 0x88]"
abbreviation u_times :: string where "u_times \<equiv> [CHR 0xC3, CHR 0x97]"
abbreviation u_middot :: string where "u_middot \<equiv> [CHR 0xC2, CHR 0xB7]"

section \<open>Results and defaults\<close>

text \<open>A computation that may throw: \<open>Inl\<close> the error, \<open>Inr\<close> the value.\<close>

type_synonym ('e, 'a) result = "'e + 'a"

text \<open>The default of a destructured property: used exactly when the property is undefined.\<close>

definition or_default :: "'a \<Rightarrow> 'a option \<Rightarrow> 'a" where
  [dom_simps]: "or_default d x = (case x of None \<Rightarrow> d | Some v \<Rightarrow> v)"

section \<open>String functions of the standard libraries\<close>

text \<open>\<open>s.startsWith(p)\<close>, \<open>s.endsWith(p)\<close>.\<close>

fun starts_with :: "string \<Rightarrow> string \<Rightarrow> bool" where
  "starts_with [] s = True"
| "starts_with (p # ps) [] = False"
| "starts_with (p # ps) (c # cs) = (p = c \<and> starts_with ps cs)"

definition ends_with :: "string \<Rightarrow> string \<Rightarrow> bool" where
  "ends_with p s = starts_with (rev p) (rev s)"

text \<open>\<open>s.split(c)\<close> at every occurrence of one character: never empty.\<close>

fun split_on :: "char \<Rightarrow> string \<Rightarrow> string list" where
  "split_on c [] = [[]]"
| "split_on c (x # xs) =
     (if x = c then [] # split_on c xs
      else (case split_on c xs of [] \<Rightarrow> [[x]] | w # ws \<Rightarrow> (x # w) # ws))"

text \<open>\<open>xs.join(sep)\<close>.\<close>

fun join_with :: "string \<Rightarrow> string list \<Rightarrow> string" where
  "join_with sep [] = []"
| "join_with sep [x] = x"
| "join_with sep (x # y # zs) = x @ sep @ join_with sep (y # zs)"

text \<open>The decimal rendering of a natural number.\<close>

definition digit_char :: "nat \<Rightarrow> char" where
  "digit_char d = char_of (48 + d)"

fun nat_str :: "nat \<Rightarrow> string" where
  "nat_str n = (if n < 10 then [digit_char n] else nat_str (n div 10) @ [digit_char (n mod 10)])"

declare nat_str.simps [simp del]

text \<open>Decimal digits.\<close>

definition is_digit :: "char \<Rightarrow> bool" where
  "is_digit c = (48 \<le> (of_char c :: nat) \<and> (of_char c :: nat) \<le> 57)"

text \<open>The number a string of decimal digits stands for; the empty string is zero.\<close>

definition digits_value :: "string \<Rightarrow> nat" where
  "digits_value s = foldl (\<lambda>n c. 10 * n + (of_char c - 48)) 0 s"

section \<open>Lemmas on strings\<close>

lemma starts_with_iff: "starts_with p s \<longleftrightarrow> (\<exists>t. s = p @ t)"
  by (induction p s rule: starts_with.induct) auto

lemma starts_with_append [simp]: "starts_with p (p @ s)"
  by (simp add: starts_with_iff)

lemma ends_with_iff: "ends_with p s \<longleftrightarrow> (\<exists>t. s = t @ p)"
proof -
  have "(\<exists>t. rev s = rev p @ t) \<longleftrightarrow> (\<exists>t. s = t @ p)"
    by (metis rev_append rev_rev_ident)
  then show ?thesis by (simp add: ends_with_def starts_with_iff)
qed

lemma split_on_nonempty [simp]: "split_on c s \<noteq> []"
  by (induction s) (auto split: list.splits)

lemma split_on_pieces: "w \<in> set (split_on c s) \<Longrightarrow> c \<notin> set w"
proof (induction s arbitrary: w)
  case (Cons x xs)
  obtain v vs where v: "split_on c xs = v # vs"
    by (cases "split_on c xs") auto
  show ?case
  proof (cases "x = c")
    case True
    with Cons show ?thesis by auto
  next
    case False
    with Cons v show ?thesis by auto
  qed
qed simp

lemma join_with_Cons:
  "xs \<noteq> [] \<Longrightarrow> join_with sep (x # xs) = x @ sep @ join_with sep xs"
  by (cases xs) simp_all

lemma join_split_on: "join_with [c] (split_on c s) = s"
proof (induction s)
  case (Cons x xs)
  obtain v vs where v: "split_on c xs = v # vs"
    by (cases "split_on c xs") auto
  show ?case
  proof (cases "x = c")
    case True
    with Cons show ?thesis by (simp add: join_with_Cons)
  next
    case False
    from v Cons have "join_with [c] (v # vs) = xs" by simp
    with False v show ?thesis by (cases vs) auto
  qed
qed simp

lemma split_on_no_sep [simp]: "c \<notin> set s \<Longrightarrow> split_on c s = [s]"
  by (induction s) auto

lemma split_on_append:
  "c \<notin> set x \<Longrightarrow> split_on c (x @ c # s) = x # split_on c s"
  by (induction x) auto

lemma split_join_with:
  "xs \<noteq> [] \<Longrightarrow> \<forall>x \<in> set xs. c \<notin> set x \<Longrightarrow> split_on c (join_with [c] xs) = xs"
  by (induction "[c]" xs rule: join_with.induct) (auto simp: split_on_append)

text \<open>The decimal rendering determines the number.\<close>

lemma nat_str_nonempty [simp]: "nat_str n \<noteq> []" "[] \<noteq> nat_str n"
proof -
  show "nat_str n \<noteq> []" by (subst nat_str.simps) simp
  then show "[] \<noteq> nat_str n" by (rule not_sym)
qed

lemma digit_char_inject: "a < 10 \<Longrightarrow> b < 10 \<Longrightarrow> digit_char a = digit_char b \<Longrightarrow> a = b"
proof -
  assume "a < 10" "b < 10" "digit_char a = digit_char b"
  then have "(of_char (char_of (48 + a)) :: nat) = of_char (char_of (48 + b))"
    unfolding digit_char_def by simp
  with \<open>a < 10\<close> \<open>b < 10\<close> show ?thesis by simp
qed

lemma nat_str_step: "nat_str n = (if n < 10 then [] else nat_str (n div 10)) @ [digit_char (n mod 10)]"
  by (subst nat_str.simps) simp

lemma nat_str_inject: "nat_str n = nat_str m \<longleftrightarrow> n = m"
proof
  show "nat_str n = nat_str m \<Longrightarrow> n = m"
  proof (induction n arbitrary: m rule: less_induct)
    case (less n)
    let ?p = "\<lambda>n. if n < 10 then [] else nat_str (n div 10)"
    have "?p n @ [digit_char (n mod 10)] = ?p m @ [digit_char (m mod 10)]"
      using less.prems nat_str_step by metis
    then have p: "?p n = ?p m" and "digit_char (n mod 10) = digit_char (m mod 10)" by simp_all
    then have d: "n mod 10 = m mod 10" using digit_char_inject by simp
    show ?case
    proof (cases "n < 10")
      case True
      then have "m < 10" using p by (auto split: if_splits)
      with True d show ?thesis by simp
    next
      case False
      then have m: "\<not> m < 10" using p by (auto split: if_splits)
      then have "n div 10 = m div 10" using False p less.IH by simp
      with d show ?thesis by (metis div_mult_mod_eq)
    qed
  qed
qed simp

lemma of_char_digit: "d < 10 \<Longrightarrow> of_char (digit_char d) = 48 + d"
  by (simp add: digit_char_def)

lemma is_digit_digit_char [simp]: "d < 10 \<Longrightarrow> is_digit (digit_char d)"
  by (simp add: is_digit_def of_char_digit)

lemma nat_str_digits: "c \<in> set (nat_str n) \<Longrightarrow> is_digit c"
proof (induction n rule: nat_str.induct)
  case (1 n)
  then show ?case by (subst (asm) (2) nat_str.simps) (auto split: if_splits)
qed

lemma digits_value_snoc: "digits_value (s @ [c]) = 10 * digits_value s + (of_char c - 48)"
  by (simp add: digits_value_def)

lemma digits_value_nat_str: "digits_value (nat_str n) = n"
proof (induction n rule: nat_str.induct)
  case (1 n)
  show ?case
  proof (cases "n < 10")
    case True
    then show ?thesis by (subst nat_str.simps) (simp add: digits_value_def of_char_digit)
  next
    case False
    then show ?thesis using 1 by (subst nat_str.simps) (simp add: digits_value_snoc of_char_digit)
  qed
qed

text \<open>Strings with a common prefix are together in a sorted list.\<close>

lemma starts_with_le: "starts_with p k \<Longrightarrow> p \<le> k"
  by (induction p k rule: starts_with.induct) auto

lemma past_prefix: "p \<le> k \<Longrightarrow> \<not> starts_with p k \<Longrightarrow> k < k' \<Longrightarrow> \<not> starts_with p k'"
proof (induction p k' arbitrary: k rule: starts_with.induct)
  case (3 p ps c cs)
  then show ?case by (cases k) auto
qed simp_all

section \<open>Lemmas on loops\<close>

text \<open>What every turn of a loop keeps, the loop keeps.\<close>

lemma foldl_invariant:
  "P s \<Longrightarrow> (\<And>s x. x \<in> set xs \<Longrightarrow> P s \<Longrightarrow> P (f s x)) \<Longrightarrow> P (foldl f s xs)"
  by (induction xs arbitrary: s) auto

text \<open>In a sorted list the elements a prefix test rejects are a suffix.\<close>

lemma dropWhile_sorted_filter:
  fixes xs :: "'a :: linorder list"
  assumes "sorted xs" and "\<And>x y. x \<le> y \<Longrightarrow> P y \<Longrightarrow> P x"
  shows "dropWhile P xs = filter (\<lambda>x. \<not> P x) xs"
  using assms
proof (induction xs)
  case (Cons x xs)
  show ?case
  proof (cases "P x")
    case False
    with Cons.prems have "\<forall>y \<in> set xs. \<not> P y" by auto
    with False show ?thesis by simp
  qed (use Cons in simp)
qed simp

end
