(* ===== verification/Site_Dom.thy ===== *)
theory Site_Dom
  imports Gitcask_Prelude
begin

text \<open>
  The value a React component of \<^verbatim>\<open>site/\<close> returns. A JSX expression is an element with a
  type, properties and children; an element whose type is a component of a package that is not
  part of the repository (\<open>Link\<close>, \<open>ButtonPrimitive\<close>, \<open>NextThemesProvider\<close>) stays an element of
  that name, and an element whose type is a component of \<^verbatim>\<open>site/src\<close> is the tree that
  component returns. A value of type \<open>React.ReactNode\<close> is a list of nodes: a string is one text
  node, a fragment the list of its children, and \<open>null\<close>, \<open>undefined\<close> and \<open>false\<close> are the empty list.

  The packages' functions the site calls are fields of the record \<open>ui\<close>, an argument of every
  component that uses one.
\<close>

section \<open>Elements\<close>

datatype aval =
    Str string
  | Num rat
  | Bool bool
  | Fn string                              \<comment> \<open>an event handler, by the name of the function\<close>
  | Obj "(string \<times> aval) list"
  | Tpl "aval list"                        \<comment> \<open>a template literal; a number in it stays a number\<close>
  | Undef

type_synonym attr = "string \<times> aval"

datatype node =
    Text string
  | El string "attr list" "node list"

text \<open>A property whose value may be undefined.\<close>

definition opt_str :: "string option \<Rightarrow> aval" where
  [dom_simps]: "opt_str x = (case x of None \<Rightarrow> Undef | Some s \<Rightarrow> Str s)"

section \<open>The packages' functions\<close>

text \<open>
  \<open>clsx\<close> joins class values, of which a falsy one is \<open>None\<close>; \<open>tw_merge c\<close> is the function
  \<open>extendTailwindMerge\<close> returns for the configuration \<open>c\<close>; \<open>cva base variants defaults\<close> is the function that
  class-variance-authority returns, given the chosen variants and the caller's class;
  \<open>code_to_html\<close> is shiki's highlighter; \<open>pathname\<close> is what \<open>usePathname\<close> answers;
  \<open>locale_count\<close> is \<open>toLocaleString()\<close> in the reader's own locale.
\<close>

type_synonym variant_table = "(string \<times> (string \<times> string) list) list"

record tw_config =
  tw_theme :: "(string \<times> string list) list"
  tw_class_groups :: "(string \<times> (string \<times> string list)) list"

record ui =
  clsx :: "string option list \<Rightarrow> string"
  tw_merge :: "tw_config \<Rightarrow> string \<Rightarrow> string"
  cva :: "string \<Rightarrow> variant_table \<Rightarrow> (string \<times> string) list \<Rightarrow>
          (string \<times> string option) list \<Rightarrow> string option \<Rightarrow> string"
  code_to_html :: "string \<Rightarrow> string \<Rightarrow> (string \<times> string) list \<Rightarrow> string"
  pathname :: string
  locale_count :: "nat \<Rightarrow> string"

section \<open>Walking a tree\<close>

text \<open>
  A property given twice has the value given last, as when a spread follows a property. A key
  on a component's element is the key of the element it renders.
\<close>

fun attr_of :: "string \<Rightarrow> node \<Rightarrow> aval option" where
  "attr_of a (Text s) = None"
| "attr_of a (El t as cs) = map_of (rev as) a"

definition with_key :: "aval \<Rightarrow> node \<Rightarrow> node" where
  [dom_simps]: "with_key k n = (case n of Text s \<Rightarrow> Text s | El t as cs \<Rightarrow> El t ((''key'', k) # as) cs)"

text \<open>All elements of a tree, in document order.\<close>

fun elements :: "node \<Rightarrow> node list" where
  "elements (Text s) = []"
| "elements (El t as cs) = El t as cs # concat (map elements cs)"

text \<open>
  \<open>select p f n\<close> collects \<open>f\<close> of tag and properties at every element of the tree, in document
  order, where \<open>f\<close> answers.
\<close>

fun select :: "(string \<Rightarrow> attr list \<Rightarrow> 'a option) \<Rightarrow> node \<Rightarrow> 'a list" where
  "select f (Text s) = []"
| "select f (El t as cs) =
     (case f t as of None \<Rightarrow> [] | Some x \<Rightarrow> [x]) @ concat (map (select f) cs)"

definition str_attr :: "string \<Rightarrow> attr list \<Rightarrow> string option" where
  [dom_simps]: "str_attr a as = (case map_of (rev as) a of Some (Str s) \<Rightarrow> Some s | _ \<Rightarrow> None)"

definition hrefs :: "node \<Rightarrow> string list" where
  "hrefs = select (\<lambda>t as. str_attr ''href'' as)"

definition anchor_ids :: "node \<Rightarrow> string list" where
  "anchor_ids = select (\<lambda>t as. str_attr ''id'' as)"

definition section_ids :: "node \<Rightarrow> string list" where
  "section_ids = select (\<lambda>t as. if t = ''section'' then str_attr ''id'' as else None)"

text \<open>The text a reader sees: the text nodes of the tree, joined.\<close>

fun text_of :: "node \<Rightarrow> string" where
  "text_of (Text s) = s"
| "text_of (El t as cs) = concat (map text_of cs)"

text \<open>
  React requires the keys of siblings to be distinct. A key is a string or a number; the
  children of an element without a key take no part.
\<close>

definition node_key :: "node \<Rightarrow> aval list" where
  "node_key n = (case attr_of ''key'' n of None \<Rightarrow> [] | Some Undef \<Rightarrow> [] | Some v \<Rightarrow> [v])"

fun keys_ok :: "node \<Rightarrow> bool" where
  "keys_ok (Text s) = True"
| "keys_ok (El t as cs) = (distinct (concat (map node_key cs)) \<and> list_all keys_ok cs)"

section \<open>Lemmas\<close>

lemma select_El_append:
  "concat (map (select f) (xs @ ys)) = concat (map (select f) xs) @ concat (map (select f) ys)"
  by simp

lemma set_select: "x \<in> set (select f n) \<longleftrightarrow> (\<exists>t as cs. El t as cs \<in> set (elements n) \<and> f t as = Some x)"
proof (induction n)
  case (El t as cs)
  have "x \<in> set (select f (El t as cs)) \<longleftrightarrow> f t as = Some x \<or> (\<exists>c \<in> set cs. x \<in> set (select f c))"
    by (auto split: option.splits)
  with El show ?case by (auto; blast)
qed simp

lemma keys_ok_elements:
  "keys_ok n \<Longrightarrow> El t as cs \<in> set (elements n) \<Longrightarrow> distinct (concat (map node_key cs))"
  by (induction n) (auto simp: list_all_iff)

end
