(* ===== verification/Site_Ui.thy ===== *)
theory Site_Ui
  imports Site_Dom
begin

text \<open>
  The shared visual vocabulary of the site: \<^verbatim>\<open>site/src/lib/utils/cn.ts\<close> (class merging),
  \<^verbatim>\<open>site/src/lib/interaction.ts\<close> (interaction classes), the components of
  \<^verbatim>\<open>site/src/lib/components/ui\<close> (button, segmented control, table) and
  \<^verbatim>\<open>site/src/lib/components/diagram.tsx\<close>. Each component is a function from its properties
  to the element it returns; \<open>props\<close> is the list a rest pattern collects.
\<close>

section \<open>Class merging (utils/cn.ts)\<close>

definition merge_config :: tw_config where
  "merge_config = \<lparr>
     tw_theme =
      [(''text'',
        [''display-xl'', ''display-lg'', ''display-md'', ''display-sm'', ''title-lg'', ''title-md'',
         ''title-sm'', ''body'', ''body-sm'', ''label'', ''caption'', ''micro'', ''hero'',
         ''statement'', ''lede'']),
       (''radius'', [''control'', ''card'', ''sheet'', ''pill'']),
       (''shadow'', [''card'', ''card-hover'', ''message'', ''panel'', ''raised'']),
       (''ease'', [''standard'', ''emphasized''])],
     tw_class_groups =
      [(''ring-w'', (''ring'', [''focus'', ''field''])),
       (''ring-offset-w'', (''ring-offset'', [''focus''])),
       (''opacity'', (''opacity'', [''disabled'', ''disabled-content''])),
       (''duration'', (''duration'', [''instant'', ''fast'', ''base'', ''slow'', ''slower''])),
       (''z'', (''z'', [''raised'', ''sticky'', ''appbar'', ''overlay'', ''modal'', ''dropdown'',
                      ''toast''])),
       (''scale'', (''scale'', [''press'', ''press-thumb''])),
       (''min-w'', (''min-w'', [''menu''])),
       (''w'', (''w'', [''picker''])),
       (''max-w'', (''max-w'', [''picker''])),
       (''h'', (''h'', [''appbar'', ''bottom-nav'']))] \<rparr>"

definition cn :: "ui \<Rightarrow> string option list \<Rightarrow> string" where
  "cn L inputs = tw_merge L merge_config (clsx L inputs)"

section \<open>Interaction classes (interaction.ts)\<close>

definition focusRing :: string where
  "focusRing =
     ''outline-none focus-visible:ring-focus focus-visible:ring-ring focus-visible:ring-offset-focus focus-visible:ring-offset-background''"

definition focusField :: string where
  "focusField =
     ''outline-none focus-visible:border-ring focus-visible:ring-field focus-visible:ring-ring/20''"

definition focusWithinField :: string where
  "focusWithinField =
     ''focus-within:border-ring focus-within:ring-field focus-within:ring-ring/20''"

definition pressable :: string where
  "pressable =
     ''transition-[background-color,border-color,color,box-shadow,transform] duration-fast active:scale-press''"

definition disabledStyle :: string where
  "disabledStyle = ''disabled:pointer-events-none disabled:opacity-disabled''"

definition invalidField :: string where
  "invalidField = ''aria-invalid:border-destructive aria-invalid:ring-destructive/20''"

definition rippleItemClassName :: string where
  "rippleItemClassName = ''animate-ripple rounded-full bg-current opacity-0''"

section \<open>Button (ui/button.tsx)\<close>

definition controlBox :: string where
  "controlBox = ''rounded-pill text-label font-semibold''"

definition buttonVariantTable :: variant_table where
  "buttonVariantTable =
     [(''variant'',
       [(''default'', controlBox @ '' bg-primary text-primary-foreground hover:bg-primary-strong''),
        (''destructive'',
         controlBox @ '' bg-destructive text-destructive-foreground hover:bg-destructive-strong''),
        (''outline'',
         controlBox @ '' border border-input bg-background hover:bg-accent hover:text-accent-foreground''),
        (''secondary'', controlBox @ '' bg-secondary text-secondary-foreground hover:bg-accent''),
        (''ghost'', controlBox @ '' hover:bg-accent hover:text-accent-foreground''),
        (''link'', controlBox @ '' text-primary underline-offset-4 hover:underline''),
        (''plain'', '''')]),
      (''size'',
       [(''sm'', ''h-8 px-3''), (''default'', ''h-9 px-4''), (''lg'', ''h-10 px-6''),
        (''icon'', ''size-9''), (''none'', '''')])]"

definition buttonDefaultVariants :: "(string \<times> string) list" where
  "buttonDefaultVariants = [(''variant'', ''default''), (''size'', ''default'')]"

definition buttonVariants :: "ui \<Rightarrow> string option \<Rightarrow> string option \<Rightarrow> string option \<Rightarrow> string" where
  "buttonVariants L variant sz className =
     cva L
       (cn L
          [Some ''inline-flex items-center justify-center gap-2 whitespace-nowrap select-none shrink-0'',
           Some (''[&_svg]:pointer-events-none [&_svg]:shrink-0 [&_svg:not([class*='' @ [CHR 0x27] @
                 ''size-'' @ [CHR 0x27] @ ''])]:size-4''),
           Some focusRing, Some pressable, Some disabledStyle])
       buttonVariantTable buttonDefaultVariants
       [(''variant'', variant), (''size'', sz)] className"

text \<open>
  \<open>className.split(/\s+/)\<close>: a run of white space separates, so a leading or trailing run leaves
  an empty first or last piece.
\<close>

definition js_space :: "char \<Rightarrow> bool" where
  "js_space c = (c \<in> {CHR 0x20, CHR 0x09, CHR 0x0A, CHR 0x0B, CHR 0x0C, CHR 0x0D})"

lemma ws_rest_shorter:
  assumes "dropWhile (\<lambda>c. \<not> js_space c) s \<noteq> []"
  shows "length (dropWhile js_space (dropWhile (\<lambda>c. \<not> js_space c) s)) < length s"
proof -
  obtain c r where r: "dropWhile (\<lambda>c. \<not> js_space c) s = c # r"
    using assms by (cases "dropWhile (\<lambda>c. \<not> js_space c) s") auto
  then have "js_space c" using hd_dropWhile [of "\<lambda>c. \<not> js_space c" s] assms by simp
  then have "length (dropWhile js_space (c # r)) \<le> length r" by (simp add: length_dropWhile_le)
  moreover have "length (c # r) \<le> length s" using length_dropWhile_le [of "\<lambda>c. \<not> js_space c" s] r by simp
  ultimately show ?thesis using r by simp
qed

function split_ws :: "string \<Rightarrow> string list" where
  "split_ws s =
     (let w = takeWhile (\<lambda>c. \<not> js_space c) s; r = dropWhile (\<lambda>c. \<not> js_space c) s
      in if r = [] then [w] else w # split_ws (dropWhile js_space r))"
  by pat_completeness auto
termination
  by (relation "measure length") (use ws_rest_shorter in \<open>simp_all del: dropWhile_eq_Nil_conv\<close>)

declare split_ws.simps [simp del]

text \<open>\<open>token.slice(token.lastIndexOf(':') + 1)\<close>.\<close>

definition after_last_colon :: "string \<Rightarrow> string" where
  "after_last_colon s = rev (takeWhile (\<lambda>c. c \<noteq> CHR '':'') (rev s))"

definition is_transition :: "string \<Rightarrow> bool" where
  "is_transition token = starts_with ''transition'' (after_last_colon token)"

definition stripTransition :: "string option \<Rightarrow> string option" where
  "stripTransition className =
     (case className of
        None \<Rightarrow> None
      | Some s \<Rightarrow>
          if s = '''' then Some ''''
          else Some (join_with '' '' (filter (\<lambda>token. \<not> is_transition token) (split_ws s))))"

definition Button ::
  "ui \<Rightarrow> string option \<Rightarrow> string option \<Rightarrow> string option \<Rightarrow> bool option \<Rightarrow> attr list \<Rightarrow> node list \<Rightarrow> node" where
  "Button L className variant sz asChild props children =
     El ''ButtonPrimitive''
       ([(''asChild'', Bool (or_default False asChild)), (''disableRipple'', Bool True),
         (''className'', Str (cn L [Some (buttonVariants L variant sz (stripTransition className))]))] @
        props)
       children"

section \<open>Segmented control (ui/segmented-control.tsx)\<close>

record segmented_option =
  opt_label :: "node list"
  opt_value :: "string option"          \<comment> \<open>\<open>None\<close> is \<open>null\<close>\<close>
  opt_count :: "nat option"

definition segmentVariantTable :: variant_table where
  "segmentVariantTable =
     [(''size'', [(''sm'', ''px-3 py-1.5''), (''md'', ''px-4 py-2'')]),
      (''active'',
       [(''true'', ''bg-card font-semibold text-foreground shadow-card''),
        (''false'', ''font-medium text-muted-foreground hover:text-foreground'')])]"

definition segmentVariants :: "ui \<Rightarrow> string \<Rightarrow> bool \<Rightarrow> string" where
  "segmentVariants L sz active =
     cva L
       (cn L [Some ''inline-flex items-center gap-1.5 rounded-control border-0 text-label'',
              Some focusRing, Some pressable, Some disabledStyle])
       segmentVariantTable [(''size'', ''sm''), (''active'', ''false'')]
       [(''size'', Some sz), (''active'', Some (if active then ''true'' else ''false''))] None"

definition segment :: "ui \<Rightarrow> string option \<Rightarrow> string option \<Rightarrow> aval \<Rightarrow> segmented_option \<Rightarrow> node" where
  "segment L sz value disabled option =
     El ''button''
       [(''key'', Str (or_default ''__null__'' (opt_value option))), (''type'', Str ''button''),
        (''aria-pressed'', Bool (opt_value option = value)), (''disabled'', disabled),
        (''onClick'', Fn ''onValueChange(option.value)''),
        (''className'', Str (segmentVariants L (or_default ''sm'' sz) (opt_value option = value)))]
     (opt_label option @
        (if opt_count option \<noteq> None then
           [El ''span''
              [(''className'',
                Str (cn L
                       [(Some
                           ''min-w-4 rounded-pill px-1 text-center text-micro font-semibold tabular-nums''),
                        (if opt_value option = value then (Some ''bg-primary/10 text-primary'') else
                         (Some ''bg-foreground/10 text-muted-foreground''))]))]
              [Text (locale_count L (the (opt_count option)))]] else []))"

definition SegmentedControl ::
  "ui \<Rightarrow> segmented_option list \<Rightarrow> string option \<Rightarrow> aval \<Rightarrow> string option \<Rightarrow> string option \<Rightarrow>
   string option \<Rightarrow> node" where
  "SegmentedControl L options value disabled sz className ariaLabel =
     El ''div''
       [(''role'', Str ''group''), (''aria-label'', opt_str ariaLabel),
        (''data-slot'', Str ''segmented-control''),
        (''className'',
         Str (cn L [Some ''inline-flex flex-wrap items-center gap-1 rounded-xl bg-muted p-1'', className]))]
       (map (segment L sz value disabled) options)"

section \<open>Table (ui/table.tsx)\<close>

definition Table :: "ui \<Rightarrow> string option \<Rightarrow> attr list \<Rightarrow> node list \<Rightarrow> node" where
  "Table L className props children =
     El ''div''
       [(''data-slot'', Str ''table-container''),
        (''className'', Str ''relative w-full overflow-x-auto'')]
       [El ''table''
          ([(''data-slot'', Str ''table''),
            (''className'', Str (cn L [(Some ''w-full caption-bottom text-body-sm''), className]))]
             @ props) children]"

definition TableHeader :: "ui \<Rightarrow> string option \<Rightarrow> attr list \<Rightarrow> node list \<Rightarrow> node" where
  "TableHeader L className props children =
     El ''thead''
       ([(''data-slot'', Str ''table-header''),
         (''className'', Str (cn L [(Some ''border-b border-border bg-muted''), className]))] @
          props) children"

definition TableBody :: "ui \<Rightarrow> string option \<Rightarrow> attr list \<Rightarrow> node list \<Rightarrow> node" where
  "TableBody L className props children =
     El ''tbody''
       ([(''data-slot'', Str ''table-body''),
         (''className'',
          Str (cn L
                 [(Some
                     ''[&>tr]:border-b [&>tr]:border-border [&>tr:last-child]:border-0 [&>tr:hover]:bg-accent''),
                  className]))] @ props) children"

definition TableFooter :: "ui \<Rightarrow> string option \<Rightarrow> attr list \<Rightarrow> node list \<Rightarrow> node" where
  "TableFooter L className props children =
     El ''tfoot''
       ([(''data-slot'', Str ''table-footer''),
         (''className'', Str (cn L [(Some ''bg-muted font-semibold''), className]))] @ props)
       children"

definition TableRow :: "ui \<Rightarrow> string option \<Rightarrow> attr list \<Rightarrow> node list \<Rightarrow> node" where
  "TableRow L className props children =
     El ''tr''
       ([(''data-slot'', Str ''table-row''),
         (''className'',
          Str (cn L
                 [(Some ''transition-colors data-[state=selected]:bg-primary-surface''), className]))]
        @ props) children"

definition TableHead :: "ui \<Rightarrow> string option \<Rightarrow> attr list \<Rightarrow> node list \<Rightarrow> node" where
  "TableHead L className props children =
     El ''th''
       ([(''data-slot'', Str ''table-head''),
         (''className'',
          Str (cn L
                 [(Some
                     ''h-11 px-4 text-left align-middle text-caption font-semibold whitespace-nowrap text-muted-foreground [&:has([role=checkbox])]:pr-0 [&>[role=checkbox]]:translate-y-[2px]''),
                  className]))] @ props) children"

definition TableCell :: "ui \<Rightarrow> string option \<Rightarrow> attr list \<Rightarrow> node list \<Rightarrow> node" where
  "TableCell L className props children =
     El ''td''
       ([(''data-slot'', Str ''table-cell''),
         (''className'',
          Str (cn L
                 [(Some
                     ''px-4 py-3 align-middle whitespace-nowrap [&:has([role=checkbox])]:pr-0 [&>[role=checkbox]]:translate-y-[2px]''),
                  className]))] @ props) children"

definition TableCaption :: "ui \<Rightarrow> string option \<Rightarrow> attr list \<Rightarrow> node list \<Rightarrow> node" where
  "TableCaption L className props children =
     El ''caption''
       ([(''data-slot'', Str ''table-caption''),
         (''className'', Str (cn L [(Some ''mt-4 text-body-sm text-soft-foreground''), className]))]
        @ props) children"

section \<open>Diagrams (diagram.tsx)\<close>

datatype tone = Plain | Brand | Quiet | Good | Gone

fun toneClass :: "tone \<Rightarrow> string" where
  "toneClass Plain = ''border-border-strong/60 bg-card text-foreground''"
| "toneClass Brand = ''border-primary bg-primary-surface text-primary-ink font-semibold''"
| "toneClass Quiet = ''border-dashed border-border-strong text-soft-foreground''"
| "toneClass Good = ''border-success-border bg-success-surface text-success-surface-foreground''"
| "toneClass Gone =
     ''border-dashed border-border-strong text-subtle-foreground line-through decoration-1''"

record step_of_flow =
  step_label :: "node list"
  step_tone :: "tone option"
  step_code :: "bool option"

definition flow_step :: "node list \<Rightarrow> tone option \<Rightarrow> bool option \<Rightarrow> step_of_flow" where
  [dom_simps]: "flow_step label tone code = \<lparr>step_label = label, step_tone = tone, step_code = code\<rparr>"

definition Chip :: "ui \<Rightarrow> tone option \<Rightarrow> bool option \<Rightarrow> string option \<Rightarrow> node list \<Rightarrow> node" where
  "Chip L tone code className children =
     El ''span''
       [(''className'',
         Str (cn L
                [(Some
                    ''inline-flex items-center justify-center gap-2 rounded-control border px-3.5 py-2.5 text-label whitespace-nowrap''),
                 (if or_default False code then Some ''font-mono'' else None),
                 Some (toneClass (or_default Plain tone)), className]))] children"

definition Arrow :: "ui \<Rightarrow> string option \<Rightarrow> bool option \<Rightarrow> node" where
  "Arrow L className responsive =
     El ''svg''
       [(''viewBox'', Str ''0 0 24 24''), (''fill'', Str ''none''),
        (''stroke'', Str ''currentColor''), (''strokeWidth'', Num (16 / 10)),
        (''strokeLinecap'', Str ''round''), (''strokeLinejoin'', Str ''round''),
        (''aria-hidden'', Str ''true''),
        (''className'',
         Str (cn L
                [(Some ''size-5 shrink-0 text-subtle-foreground''),
                 (if or_default True responsive then Some ''rotate-90 md:rotate-0'' else None),
                 className]))] [El ''path'' [(''d'', Str ''M4 12h15M14 7l5 5-5 5'')] []]"

definition Flow :: "ui \<Rightarrow> step_of_flow list \<Rightarrow> string option \<Rightarrow> node" where
  "Flow L steps className =
     El ''div''
       [(''className'',
         Str (cn L
                [(Some
                    ''flex flex-col items-start gap-2 md:flex-row md:flex-wrap md:items-center md:gap-3''),
                 className]))]
       (map (\<lambda>(index, step). El ''div''
               [(''key'', Num (of_nat index)),
                (''className'',
                 Str ''flex flex-col items-start gap-2 md:flex-row md:items-center md:gap-3'')]
               ((if 0 < index then [Arrow L (Some ''ml-4 md:ml-0'') None] else []) @
                  [Chip L (step_tone step) (step_code step) None (step_label step)]))
          (List.enumerate 0 steps))"

definition Figure :: "string \<Rightarrow> string option \<Rightarrow> node list \<Rightarrow> node" where
  "Figure label className children =
     El ''figure'' [(''className'', (opt_str className))]
       (children @ [El ''figcaption'' [(''className'', Str ''sr-only'')] [Text label]])"

definition ServerGlyph :: "ui \<Rightarrow> string option \<Rightarrow> node" where
  "ServerGlyph L className =
     El ''svg''
       [(''viewBox'', Str ''0 0 20 20''), (''fill'', Str ''none''),
        (''stroke'', Str ''currentColor''), (''strokeWidth'', Num (15 / 10)),
        (''aria-hidden'', Str ''true''), (''className'', Str (cn L [(Some ''size-4''), className]))]
     [El ''rect''
        [(''x'', Str ''3''), (''y'', Str ''3.5''), (''width'', Str ''14''), (''height'', Str ''5''),
         (''rx'', Str ''1.5'')] [],
      El ''rect''
        [(''x'', Str ''3''), (''y'', Str ''11.5''), (''width'', Str ''14''),
         (''height'', Str ''5''), (''rx'', Str ''1.5'')] [],
      El ''path''
        [(''d'', Str ''M6 6h.01M6 14h.01''), (''strokeLinecap'', Str ''round''),
         (''strokeWidth'', Num (22 / 10))] []]"

definition BucketGlyph :: "ui \<Rightarrow> string option \<Rightarrow> node" where
  "BucketGlyph L className =
     El ''svg''
       [(''viewBox'', Str ''0 0 20 20''), (''fill'', Str ''none''),
        (''stroke'', Str ''currentColor''), (''strokeWidth'', Num (15 / 10)),
        (''aria-hidden'', Str ''true''), (''className'', Str (cn L [(Some ''size-4''), className]))]
     [El ''ellipse''
        [(''cx'', Str ''10''), (''cy'', Str ''5''), (''rx'', Str ''7''), (''ry'', Str ''2.5'')] [],
      El ''path'' [(''d'', Str ''M3 5l1.6 10.2c.2 1.3 2.6 2.3 5.4 2.3s5.2-1 5.4-2.3L17 5'')] []]"

lemmas ui_defs [dom_simps] =
  Chip_def Arrow_def Flow_def Figure_def ServerGlyph_def BucketGlyph_def Table_def TableHeader_def
  TableBody_def TableFooter_def TableRow_def TableHead_def TableCell_def TableCaption_def
  Button_def SegmentedControl_def segment_def


section \<open>Stripping transition classes\<close>

definition words_of :: "string \<Rightarrow> string list" where
  "words_of s = filter (\<lambda>w. w \<noteq> '''') (split_ws s)"

lemma split_ws_word: "\<forall>c \<in> set w. \<not> js_space c \<Longrightarrow> split_ws w = [w]"
  by (subst split_ws.simps) (simp add: takeWhile_eq_all_conv [THEN iffD2] dropWhile_eq_Nil_conv [THEN iffD2])

lemma split_ws_space:
  assumes "\<forall>c \<in> set w. \<not> js_space c" "js_space b"
  shows "split_ws (w @ b # s) = w # split_ws (dropWhile js_space s)"
proof -
  have "takeWhile (\<lambda>c. \<not> js_space c) (w @ b # s) = w" "dropWhile (\<lambda>c. \<not> js_space c) (w @ b # s) = b # s"
    using assms by (auto simp: takeWhile_append dropWhile_append)
  then show ?thesis using assms(2) by (subst split_ws.simps) simp
qed

lemma words_of_space: "js_space b \<Longrightarrow> words_of (b # s) = words_of (dropWhile js_space s)"
  using split_ws_space [of "[]" b s] by (simp add: words_of_def)

lemma words_of_dropWhile: "words_of (dropWhile js_space s) = words_of s"
proof (induction s)
  case (Cons b s)
  then show ?case by (cases "js_space b") (simp_all add: words_of_space)
qed simp

lemma words_of_append:
  assumes "\<forall>c \<in> set w. \<not> js_space c"
  shows "words_of (w @ '' '' @ s) = filter (\<lambda>w. w \<noteq> '''') [w] @ words_of s"
  using split_ws_space [OF assms, of "CHR '' ''" s] words_of_dropWhile [of s]
  by (simp add: words_of_def js_space_def)

lemma words_of_join:
  "\<forall>w \<in> set ws. \<forall>c \<in> set w. \<not> js_space c \<Longrightarrow> words_of (join_with '' '' ws) = filter (\<lambda>w. w \<noteq> '''') ws"
proof (induction "'' ''" ws rule: join_with.induct)
  case 1
  then show ?case by (simp add: words_of_def split_ws_word)
next
  case (2 x)
  then show ?case by (simp add: words_of_def split_ws_word)
next
  case (3 x y zs)
  then show ?case using words_of_append [of x "join_with '' '' (y # zs)"] by (simp del: append.simps)
qed

lemma split_ws_pieces: "w \<in> set (split_ws s) \<Longrightarrow> c \<in> set w \<Longrightarrow> \<not> js_space c"
proof (induction s arbitrary: w rule: split_ws.induct)
  case (1 s)
  then show ?case
    by (subst (asm) (2) split_ws.simps) (auto simp: Let_def dest: set_takeWhileD split: if_splits)
qed

text \<open>
  Stripping transitions from a caller's classes is exact. The classes that remain are those of
  the caller that are not transition utilities (after their variant prefixes), all of them and in
  their order; a missing class list stays missing.
\<close>

theorem stripTransition_exact:
  "map_option words_of (stripTransition className) =
   map_option (\<lambda>s. filter (\<lambda>token. \<not> is_transition token) (words_of s)) className"
proof (cases className)
  case (Some s)
  have "\<forall>w \<in> set (filter (\<lambda>token. \<not> is_transition token) (split_ws s)). \<forall>c \<in> set w. \<not> js_space c"
    using split_ws_pieces by auto
  from words_of_join [OF this]
  have eq: "words_of (join_with '' '' (filter (\<lambda>token. \<not> is_transition token) (split_ws s))) =
      filter (\<lambda>token. \<not> is_transition token) (words_of s)"
    unfolding words_of_def by (simp only: filter_filter conj_commute)
  have "words_of '''' = []" by (simp add: words_of_def split_ws_word)
  with Some eq show ?thesis by (cases "s = ''''") (simp_all add: stripTransition_def)

qed (simp add: stripTransition_def)

section \<open>The segmented control\<close>

definition pressed :: "node \<Rightarrow> bool" where
  "pressed n = (attr_of ''aria-pressed'' n = Some (Bool True))"

lemma pressed_segment: "pressed (segment L sz v d opt) = (opt_value opt = v)"
  by (simp add: pressed_def segment_def)

text \<open>
  A segmented control shows one choice. When the options have distinct values and the current
  value is one of them, exactly one rendered segment is pressed, and it is the one of that option.
\<close>

theorem one_segment_pressed:
  assumes "distinct (map opt_value options)" "opt \<in> set options"
  shows "\<exists>as cs. SegmentedControl L options (opt_value opt) d sz c a = El ''div'' as cs \<and>
           filter pressed cs = [segment L sz (opt_value opt) d opt]"
proof -
  have "filter (\<lambda>x. opt_value x = opt_value opt) options = [opt]"
    using assms
  proof (induction options)
    case (Cons x xs)
    then show ?case by (cases "x = opt") (auto simp: filter_empty_conv, metis image_eqI)
  qed simp
  then have "filter pressed (map (segment L sz (opt_value opt) d) options) = [segment L sz (opt_value opt) d opt]"
    by (simp add: filter_map comp_def pressed_segment)
  then show ?thesis by (simp add: SegmentedControl_def)
qed

theorem one_segment_pressed_witness:
  "\<forall>L. \<exists>as cs. SegmentedControl L [\<lparr>opt_label = [], opt_value = Some ''5'', opt_count = None\<rparr>,
       \<lparr>opt_label = [], opt_value = None, opt_count = Some 2\<rparr>] (Some ''5'') Undef None None None = El ''div'' as cs \<and>
     length (filter pressed cs) = 1"
proof
  fix L
  let ?a = "\<lparr>opt_label = [], opt_value = Some ''5'', opt_count = None\<rparr>"
    and ?b = "\<lparr>opt_label = [], opt_value = None, opt_count = Some 2\<rparr>"
  show "\<exists>as cs. SegmentedControl L [?a, ?b] (Some ''5'') Undef None None None = El ''div'' as cs \<and>
     length (filter pressed cs) = 1"
    using one_segment_pressed [of "[?a, ?b]" ?a L Undef None None None] by auto
qed

end
