(* ===== verification/Site_Docs.thy ===== *)
theory Site_Docs
  imports Site_Ui Site_Content
begin

text \<open>
  The components of the documentation pages (\<^verbatim>\<open>site/src/lib/components/docs\<close>) and the
  site's frame (\<^verbatim>\<open>site/src/lib/components/site\<close>, the layouts and the not-found page of
  \<^verbatim>\<open>site/src/app\<close>). A component's own state is an argument: \<open>opened\<close> of the folding
  navigation, the \<open>theme_state\<close> of the theme toggle.
\<close>

section \<open>Docs components\<close>

datatype callout_tone = Note | Warning

definition Callout :: "ui \<Rightarrow> callout_tone option \<Rightarrow> string \<Rightarrow> node list \<Rightarrow> node" where
  "Callout L ctone title children =
     El ''aside''
       [(''className'',
         Str (cn L
                [(Some ''not-prose rounded-control border-l-[3px] px-5 py-4''),
                 (if or_default Note ctone = Note then (Some ''border-primary bg-primary-surface'')
                    else (Some ''border-warning bg-warning-surface''))]))]
       [El ''p''
          [(''className'',
            Str (cn L
                   [(Some ''text-title-md''),
                    (if or_default Note ctone = Note then (Some ''text-primary-ink'') else
                       (Some ''text-warning-surface-foreground''))]))] [Text title],
        El ''div'' [(''className'', Str ''doc mt-1.5 text-foreground'')] children]"

datatype language = Sh | Json | Rust | Toml | PlainText

text \<open>The name passed to shiki: \<open>lang === 'text' ? 'plaintext' : lang\<close>.\<close>

fun shiki_lang :: "language \<Rightarrow> string" where
  "shiki_lang Sh = ''sh''"
| "shiki_lang Json = ''json''"
| "shiki_lang Rust = ''rust''"
| "shiki_lang Toml = ''toml''"
| "shiki_lang PlainText = ''plaintext''"

text \<open>\<open>String.prototype.trim\<close>, and the truth value of an optional string.\<close>

definition js_trim :: "string \<Rightarrow> string" where
  "js_trim s = rev (dropWhile js_space (rev (dropWhile js_space s)))"

definition truthy :: "string option \<Rightarrow> bool" where
  [dom_simps]: "truthy s = (case s of None \<Rightarrow> False | Some t \<Rightarrow> t \<noteq> '''')"

definition CodeBlock :: "ui \<Rightarrow> string \<Rightarrow> language option \<Rightarrow> string option \<Rightarrow> string option \<Rightarrow> node" where
  "CodeBlock L code lang title className =
     El ''figure'' [(''className'', Str (cn L [(Some ''code-block''), className]))]
       ((if truthy title then
           [El ''figcaption'' [(''className'', Str ''code-block-title'')] [Text (the title)]] else
           []) @
          [El ''div''
             [(''dangerouslySetInnerHTML'',
               Obj
                 [(''__html'',
                   Str (code_to_html L (js_trim code) (shiki_lang (or_default Sh lang)) THEMES))])]
             []])"

definition Definitions :: "(node list \<times> node list) list \<Rightarrow> bool option \<Rightarrow> node" where
  "Definitions items code =
     El ''dl'' [(''className'', Str ''not-prose divide-y divide-border border-y border-border'')]
       (map (\<lambda>(index, item). El ''div''
               [(''key'', Num (of_nat index)),
                (''className'',
                 Str ''grid min-w-0 gap-1 py-4 md:grid-cols-[minmax(10rem,14rem)_1fr] md:gap-6'')]
               [El ''dt''
                  [(''className'',
                    (if or_default False code then Str
                       ''font-mono text-label leading-relaxed font-semibold break-all text-foreground''
                     else Str ''text-title-md text-foreground''))] (fst item),
                El ''dd'' [(''className'', Str ''doc min-w-0 text-soft-foreground'')] (snd item)])
          (List.enumerate 0 items))"

definition Section :: "ui \<Rightarrow> string \<Rightarrow> string \<Rightarrow> string option \<Rightarrow> node list \<Rightarrow> node" where
  "Section L sid title className children =
     El ''section''
       [(''id'', Str sid), (''className'', Str (cn L [(Some ''scroll-mt-24''), className]))]
       [El ''h2'' [(''className'', Str ''text-display-sm text-balance text-foreground'')]
          [El ''a'' [(''href'', Str (''#'' @ sid)), (''className'', Str ''hover:text-primary'')]
             [Text title]], El ''div'' [(''className'', Str ''doc mt-5'')] children]"

definition SubSection :: "string \<Rightarrow> node list \<Rightarrow> node" where
  "SubSection title children =
     El ''div'' [(''className'', Str ''pt-4'')]
       [El ''h3'' [(''className'', Str ''text-title-lg text-foreground'')] [Text title],
        El ''div'' [(''className'', Str ''doc mt-3'')] children]"

definition SpecTable :: "ui \<Rightarrow> string list \<Rightarrow> node list list list \<Rightarrow> string option \<Rightarrow> node" where
  "SpecTable L columns rows className =
     El ''div''
       [(''className'', Str (cn L [(Some ''not-prose border-y border-border''), className]))]
       [Table L (Some ''text-body'') []
          [TableHeader L None []
             [TableRow L None []
                (map (\<lambda>column. with_key (Str column)
                        (TableHead L (Some ''align-bottom text-label text-foreground'') []
                           [Text column])) columns)],
           TableBody L None []
             (map (\<lambda>(rowIndex, row). with_key (Num (of_nat rowIndex))
                     (TableRow L None []
                        (map (\<lambda>(cellIndex, cell). with_key (Num (of_nat cellIndex))
                                (TableCell L
                                   (Some (cn L
                                            [(Some ''min-w-32 align-top whitespace-normal''),
                                             (if cellIndex = 0 then
                                                (Some ''font-medium text-foreground'') else
                                                (Some ''text-soft-foreground''))])) [] cell))
                           (List.enumerate 0 row)))) (List.enumerate 0 rows))]]"

definition Steps :: "node list \<Rightarrow> node" where
  "Steps children =
     El ''ol''
       [(''className'', Str ''not-prose relative space-y-12 border-l border-border pl-8 md:pl-10'')]
     children"

definition Step :: "nat \<Rightarrow> string \<Rightarrow> node list \<Rightarrow> node" where
  "Step n title children =
     El ''li'' [(''className'', Str ''relative'')]
       [El ''span''
          [(''aria-hidden'', Str ''true''),
           (''className'',
            Str
              ''absolute top-0 -left-[calc(2rem+0.875rem)] grid size-7 place-items-center rounded-pill bg-primary text-label font-semibold text-primary-foreground md:-left-[calc(2.5rem+0.875rem)]'')]
        [Text (nat_str n)],
        El ''h3'' [(''className'', Str ''text-title-lg text-foreground'')] [Text title],
        El ''div'' [(''className'', Str ''doc mt-3'')] children]"

section \<open>The site's frame\<close>

definition BrandMark :: "string option \<Rightarrow> node" where
  "BrandMark className =
     El ''svg''
       [(''viewBox'', Str ''0 0 24 24''), (''fill'', Str ''none''), (''aria-hidden'', Str ''true''),
        (''className'', (opt_str className))]
       [El ''path''
          [(''d'',
            Str
              ''M6.5 3h11c1.6 2.6 2.4 5.6 2.4 9s-.8 6.4-2.4 9h-11C4.9 18.4 4.1 15.4 4.1 12S4.9 5.6 6.5 3Z''),
           (''fill'', Str ''currentColor''), (''opacity'', Str ''0.16'')] [],
        El ''path''
          [(''d'',
            Str
              ''M6.5 3h11c1.6 2.6 2.4 5.6 2.4 9s-.8 6.4-2.4 9h-11C4.9 18.4 4.1 15.4 4.1 12S4.9 5.6 6.5 3Z''),
           (''stroke'', Str ''currentColor''), (''strokeWidth'', Str ''1.6''),
           (''strokeLinejoin'', Str ''round'')] [],
        El ''path''
          [(''d'', Str ''M5 7.5h14M5 16.5h14''), (''stroke'', Str ''currentColor''),
           (''strokeWidth'', Str ''1.6'')] [],
        El ''path''
          [(''d'', Str ''M12 3v18''), (''stroke'', Str ''currentColor''),
           (''strokeWidth'', Str ''1.6'')] [],
        El ''circle''
          [(''cx'', Str ''12''), (''cy'', Str ''12''), (''r'', Str ''2.1''),
           (''fill'', Str ''var(--background)''), (''stroke'', Str ''currentColor''),
           (''strokeWidth'', Str ''1.6'')] []]"

definition docs_nav_item :: "ui \<Rightarrow> aval \<Rightarrow> doc_entry \<Rightarrow> node" where
  "docs_nav_item L onNavigate entry =
     El ''li'' [(''key'', Str (docHref entry))]
       [El ''Link''
          [(''href'', Str (docHref entry)), (''onClick'', onNavigate),
           (''aria-current'', (if pathname L = docHref entry then Str ''page'' else Undef)),
           (''className'',
            Str (cn L
                   [(Some
                       ''block rounded-control px-3 py-1.5 text-label transition-colors duration-fast''),
                    (if pathname L = docHref entry then
                       (Some ''bg-primary-surface font-semibold text-primary-ink'') else
                       (Some ''text-soft-foreground hover:bg-accent hover:text-foreground''))]))]
          [Text (entry_label entry)]]"

definition DocsNav :: "ui \<Rightarrow> aval \<Rightarrow> node" where
  "DocsNav L onNavigate =
     El ''nav'' [(''aria-label'', Str ''Documentation''), (''className'', Str ''space-y-8'')]
       ((map (\<lambda>group. El ''div'' [(''key'', Str (group_title group))]
                [El ''p'' [(''className'', Str ''text-title-sm text-foreground'')]
                   [Text (group_title group)],
                 El ''ul'' [(''className'', Str ''mt-2 space-y-0.5'')]
                   (map (docs_nav_item L onNavigate) (entries group))]) DOC_GROUPS) @
          [El ''div'' []
             [El ''p'' [(''className'', Str ''text-title-sm text-foreground'')]
                [Text ''For agents''],
              El ''ul'' [(''className'', Str ''mt-2 space-y-0.5'')]
                (map (\<lambda>href. El ''li'' [(''key'', Str href)]
                        [El ''a''
                           [(''href'', Str href),
                            (''className'',
                             Str
                               ''block rounded-control px-3 py-1.5 font-mono text-label text-soft-foreground hover:bg-accent hover:text-foreground'')]
                         [Text href]]) [''/llms.txt'', ''/llms-full.txt''])]])"

definition DocsMobileNav :: "ui \<Rightarrow> bool \<Rightarrow> string \<Rightarrow> node" where
  "DocsMobileNav L opened current =
     El ''div'' [(''className'', Str ''lg:hidden'')]
       ([Button L (Some ''w-full justify-between'') (Some ''outline'') None None
           [(''aria-expanded'', Bool opened), (''onClick'', Fn ''setOpen((value) => !value)'')]
           ((case findDoc current of None \<Rightarrow> [] | Some e \<Rightarrow>
               [Text (entry_label e)]) @
              [El ''svg''
                 [(''viewBox'', Str ''0 0 16 16''), (''fill'', Str ''none''),
                  (''stroke'', Str ''currentColor''), (''strokeWidth'', Num (16 / 10)),
                  (''aria-hidden'', Str ''true''),
                  (''className'', (if opened then Str ''rotate-180'' else Undef))]
                 [El ''path''
                    [(''d'', Str ''m4 6 4 4 4-4''), (''strokeLinecap'', Str ''round''),
                     (''strokeLinejoin'', Str ''round'')] []]])] @
          (if opened then
             [El ''div'' [(''className'', Str ''mt-4 border-b border-border pb-6'')]
                [DocsNav L (Fn ''setOpen(false)'')]] else []))"

record theme_state =
  mounted :: bool
  resolvedTheme :: string

definition is_dark :: "theme_state \<Rightarrow> bool" where
  "is_dark theme = (mounted theme \<and> resolvedTheme theme = ''dark'')"

text \<open>\<open>useEffect(() => setMounted(true), [])\<close> and the toggle's click.\<close>

definition mount_toggle :: "theme_state \<Rightarrow> theme_state" where
  "mount_toggle theme = theme\<lparr>mounted := True\<rparr>"

definition click_toggle :: "theme_state \<Rightarrow> theme_state" where
  "click_toggle theme = theme\<lparr>resolvedTheme := (if is_dark theme then ''light'' else ''dark'')\<rparr>"

definition SunIcon :: "node" where
  "SunIcon =
     El ''svg''
       [(''viewBox'', Str ''0 0 24 24''), (''fill'', Str ''none''),
        (''stroke'', Str ''currentColor''), (''strokeWidth'', Num (18 / 10)),
        (''strokeLinecap'', Str ''round''), (''aria-hidden'', Str ''true'')]
       [El ''circle'' [(''cx'', Str ''12''), (''cy'', Str ''12''), (''r'', Str ''4'')] [],
        El ''path''
          [(''d'',
            Str
              ''M12 2.5v2M12 19.5v2M4.6 4.6l1.4 1.4M18 18l1.4 1.4M2.5 12h2M19.5 12h2M4.6 19.4 6 18M18 6l1.4-1.4'')]
        []]"

definition MoonIcon :: "node" where
  "MoonIcon =
     El ''svg''
       [(''viewBox'', Str ''0 0 24 24''), (''fill'', Str ''none''),
        (''stroke'', Str ''currentColor''), (''strokeWidth'', Num (18 / 10)),
        (''strokeLinejoin'', Str ''round''), (''aria-hidden'', Str ''true'')]
       [El ''path'' [(''d'', Str ''M20 14.5A8 8 0 0 1 9.5 4a8 8 0 1 0 10.5 10.5Z'')] []]"

definition ThemeToggle :: "ui \<Rightarrow> theme_state \<Rightarrow> node" where
  "ThemeToggle L theme =
     Button L (Some ''text-soft-foreground hover:text-foreground'') (Some ''ghost'') (Some ''icon'')
     None
       [(''aria-label'',
         (if is_dark theme then Str ''Switch to light theme'' else Str ''Switch to dark theme'')),
        (''onClick'', (if is_dark theme then Fn ''setTheme(light)'' else Fn ''setTheme(dark)''))]
       (if is_dark theme then [SunIcon] else [MoonIcon])"

definition SiteHeader :: "ui \<Rightarrow> theme_state \<Rightarrow> node" where
  "SiteHeader L theme =
     El ''header''
       [(''className'',
         Str ''sticky top-0 z-appbar border-b border-border bg-background/85 backdrop-blur-md'')]
       [El ''div''
          [(''className'', Str ''mx-auto flex h-appbar max-w-content items-center gap-2 px-gutter'')]
        [El ''Link''
           [(''href'', Str ''/''),
            (''className'', Str ''mr-auto flex items-center gap-2 text-title-lg text-foreground'')]
           [BrandMark (Some ''size-7 text-primary''), Text ''gitcask''],
         Button L None (Some ''ghost'') None (Some True) []
           [El ''Link'' [(''href'', Str ''/docs'')] [Text ''Docs'']],
         Button L None (Some ''ghost'') None (Some True) []
           [El ''a'' [(''href'', Str REPOSITORY_URL), (''rel'', Str ''noreferrer'')]
              [Text ''GitHub'']], ThemeToggle L theme]]"

definition ThemeProvider :: "node list \<Rightarrow> node" where
  "ThemeProvider children =
     El ''NextThemesProvider''
       [(''attribute'', Str ''class''), (''defaultTheme'', Str ''system''),
        (''enableSystem'', Bool True), (''disableTransitionOnChange'', Bool True)] children"

definition RootLayout :: "ui \<Rightarrow> theme_state \<Rightarrow> string \<Rightarrow> string \<Rightarrow> node list \<Rightarrow> node" where
  "RootLayout L theme pretendard notoSansMono children =
     El ''html'' [(''lang'', Str ''en''), (''suppressHydrationWarning'', Bool True)]
       [El ''body'' [(''className'', Str (pretendard @ '' '' @ notoSansMono @ '' antialiased''))]
          [ThemeProvider ([SiteHeader L theme] @ children)]]"

definition DocsLayout :: "ui \<Rightarrow> node list \<Rightarrow> node" where
  "DocsLayout L children =
     El ''div'' [(''className'', Str ''mx-auto flex max-w-content gap-12 px-gutter'')]
       [El ''aside''
          [(''className'',
            Str
              ''sticky top-appbar hidden h-[calc(100dvh-var(--appbar-height))] w-56 shrink-0 overflow-y-auto py-10 lg:block'')]
        [DocsNav L Undef], El ''div'' [(''className'', Str ''min-w-0 flex-1'')] children]"

definition NotFound :: "ui \<Rightarrow> node" where
  "NotFound L =
     El ''main'' [(''className'', Str ''mx-auto max-w-content px-gutter py-32'')]
       [El ''h1'' [(''className'', Str ''text-statement text-foreground'')]
          [Text ''Nothing at this path.''],
        Button L (Some ''mt-10'') None (Some ''lg'') (Some True) []
          [El ''Link'' [(''href'', Str ''/'')] [Text ''Back to gitcask'']]]"

section \<open>The frame of a documentation page (docs/doc-article.tsx)\<close>

datatype js_error = Error string

definition doc_article ::
  "ui \<Rightarrow> bool \<Rightarrow> string \<Rightarrow> string \<Rightarrow> node list \<Rightarrow> (string \<times> string) list \<Rightarrow> string list \<Rightarrow> node list \<Rightarrow>
   doc_entry option \<Rightarrow> doc_entry option \<Rightarrow> node" where
  "doc_article L opened current title lede sections sources children previous following =
     El ''div'' [(''className'', Str ''flex gap-12 pt-6 pb-24 lg:pt-12'')]
       ([El ''article'' [(''className'', Str ''min-w-0 max-w-doc flex-1'')]
           [DocsMobileNav L opened current,
            El ''header'' [(''className'', Str ''mt-8 lg:mt-0'')]
              [El ''h1'' [(''className'', Str ''text-display-lg text-balance text-foreground'')]
                 [Text title],
               El ''p'' [(''className'', Str ''mt-4 max-w-[52ch] text-lede text-soft-foreground'')]
                 lede], El ''div'' [(''className'', Str ''mt-14 space-y-20'')] children,
            El ''footer'' [(''className'', Str ''mt-24 space-y-10 border-t border-border pt-8'')]
              [El ''div''
                 [(''className'', Str ''flex flex-wrap items-baseline gap-x-4 gap-y-2 text-label'')]
               ([El ''span'' [(''className'', Str ''text-foreground font-semibold'')]
                   [Text ''Sources'']] @
                  (map (\<lambda>path. El ''a''
                          [(''key'', Str path), (''href'', Str (sourceUrl path)),
                           (''rel'', Str ''noreferrer''),
                           (''className'',
                            Str
                              ''font-mono text-soft-foreground underline-offset-4 hover:text-foreground hover:underline'')]
                        [Text path]) sources)),
               El ''nav''
                 [(''aria-label'', Str ''Pager''), (''className'', Str ''grid grid-cols-2 gap-4'')]
                 ((if previous \<noteq> None then
                     [El ''Link''
                        [(''href'', Str (docHref (the previous))),
                         (''className'', Str ''group rounded-card p-4 -m-4 hover:bg-accent'')]
                        [El ''span''
                           [(''className'', Str ''block text-label text-soft-foreground'')]
                           [Text ''Previous''],
                         El ''span''
                           [(''className'', Str ''mt-1 block text-title-lg text-foreground'')]
                           [Text (entry_label (the previous))]]] else [El ''span'' [] []]) @
                    (if following \<noteq> None then
                       [El ''Link''
                          [(''href'', Str (docHref (the following))),
                           (''className'',
                            Str ''group rounded-card p-4 -m-4 text-right hover:bg-accent'')]
                          [El ''span''
                             [(''className'', Str ''block text-label text-soft-foreground'')]
                             [Text ''Next''],
                           El ''span''
                             [(''className'', Str ''mt-1 block text-title-lg text-foreground'')]
                             [Text (entry_label (the following))]]] else []))]]] @
          (if 1 < length sections then
             [El ''nav''
                [(''aria-label'', Str ''On this page''),
                 (''className'',
                  Str
                    ''sticky top-[calc(var(--appbar-height)+3rem)] hidden max-h-[calc(100dvh-var(--appbar-height)-6rem)] w-52 shrink-0 self-start overflow-y-auto xl:block'')]
              [El ''p'' [(''className'', Str ''text-title-sm text-foreground'')]
                 [Text ''On this page''],
               El ''ul'' [(''className'', Str ''mt-3 space-y-2 border-l border-border'')]
                 (map (\<lambda>section. El ''li'' [(''key'', Str (fst section))]
                         [El ''a''
                            [(''href'', Str (''#'' @ fst section)),
                             (''className'',
                              Str
                                ''-ml-px block border-l border-transparent pl-3 text-label text-soft-foreground hover:border-foreground hover:text-foreground'')]
                          [Text (snd section)]]) sections)]] else []))"

text \<open>\<open>DOCS.findIndex\<close>: the index of the first match, or \<open>-1\<close>.\<close>

definition find_index :: "string \<Rightarrow> int" where
  "find_index current =
     (let n = length (takeWhile (\<lambda>e. slug e \<noteq> current) DOCS)
      in if n < length DOCS then int n else -1)"

definition previous_doc :: "string \<Rightarrow> doc_entry option" where
  "previous_doc current =
     (let index = find_index current in if 0 < index then Some (DOCS ! nat (index - 1)) else None)"

definition next_doc :: "string \<Rightarrow> doc_entry option" where
  "next_doc current =
     (let index = find_index current
      in if index < int (length DOCS) - 1 then Some (DOCS ! nat (index + 1)) else None)"

definition DocArticle ::
  "ui \<Rightarrow> bool \<Rightarrow> string \<Rightarrow> string \<Rightarrow> node list \<Rightarrow> (string \<times> string) list \<Rightarrow> string list \<Rightarrow> node list \<Rightarrow>
   (js_error, node) result" where
  "DocArticle L opened current title lede sections sources children =
     (if findDoc current = None
      then Inl (Error (''docs page '' @ [CHR 0x22] @ current @ [CHR 0x22] @ '' is missing from DOC_GROUPS''))
      else Inr (doc_article L opened current title lede sections sources children
                  (previous_doc current) (next_doc current)))"

lemmas docs_defs [dom_simps] =
  Callout_def CodeBlock_def Definitions_def Section_def SubSection_def SpecTable_def Steps_def
  Step_def BrandMark_def docs_nav_item_def DocsNav_def DocsMobileNav_def SunIcon_def MoonIcon_def
  ThemeToggle_def SiteHeader_def ThemeProvider_def RootLayout_def DocsLayout_def NotFound_def
  doc_article_def

end
