(* ===== verification/Pages_Start.thy ===== *)
theory Pages_Start
  imports Site_Docs
begin

text \<open>
  The pages of the group \<open>Start\<close> of the documentation (\<^verbatim>\<open>site/src/app/docs\<close>): the overview and the quickstart.
  A page is its list of sections for the outline, its constants, one definition per section it
  renders, and the article that composes them.
\<close>

section \<open>OverviewPage (docs/page.tsx)\<close>

definition overview_SECTIONS :: "(string \<times> string) list" where
  "overview_SECTIONS =
     [(''shape'', ''The shape''), (''requests'', ''What a request does''),
      (''boundary'', ''Who owns what''), (''pages'', ''Where to go next'')]"

definition PAGE_SUMMARIES :: "(string \<times> string) list" where
  "PAGE_SUMMARIES =
     [(''quickstart'', ''Push to a local gitcask in five minutes.''),
      (''architecture'', ''The bucket layout, the write and read paths, and maintenance.''),
      (''cost-model'', ''Round trips per operation and the bars gitcask is held to.''),
      (''authentication'', ''JWT, introspection and trusted proxies, and the exact errors.''),
      (''api'', ''Git over HTTP, LFS and the JSON API for reads and commits.''),
      (''events'', ''Ref events delivered to your webhook from a durable cursor.''),
      (''initialize-import'', ''Start a repository from a pinned tree or a full history.''),
      (''operations'', ''Roles, configuration, metrics and recovery.''),
      (''migration'', ''Move repositories from Gitea and cut over.'')]"

definition overview_shape_section :: "ui \<Rightarrow> node" where
  "overview_shape_section L =
     Section L ''shape'' ''The shape'' None
       [El ''p'' []
          [Text
             ''Any number of identical instances serve any repository. Each repository is a write-ahead log in the bucket: immutable packs, a log entry per push, and a small manifest that changes only by compare-and-swap. There is no database and no leader.''],
        Figure ''Instances with roles serve, serve and maintain, all pointed at one bucket.''
          (Some ''not-prose grid gap-3 rounded-card bg-muted p-6 md:p-8'')
          [El ''div'' [(''className'', Str ''flex flex-wrap gap-2'')]
             (map (\<lambda>(index, role). with_key (Num (of_nat index))
                     (Chip L None None None
                        ([ServerGlyph L (Some ''text-soft-foreground'')] @ [Text role])))
                (List.enumerate 0 [''serve'', ''serve'', ''maintain'', ''events''])),
           El ''div''
             [(''className'', Str ''ml-6 h-6 w-px bg-border-strong''),
              (''aria-hidden'', Str ''true'')] [],
           El ''div''
             [(''className'',
               Str
                 ''flex items-center gap-3 rounded-control border border-primary bg-primary-surface px-4 py-3 text-primary-ink'')]
           [BucketGlyph L (Some ''size-5''),
            El ''span'' [(''className'', Str ''font-mono text-label font-semibold'')]
              [Text ''repos/<owner>/<repo>/'']]],
        El ''p'' []
          [Text ''Roles are configuration, not separate programs: '',
           El ''code'' [] [Text ''serve''], Text '' answers git, LFS and the API,'', Text '' '',
           El ''code'' [] [Text ''maintain''],
           Text '' folds the log into checkpoints and compacts packs, and '',
           El ''code'' [] [Text ''events''],
           Text '' delivers webhooks. An empty role list runs all three.'']]"

definition overview_requests_section :: "ui \<Rightarrow> node" where
  "overview_requests_section L =
     Section L ''requests'' ''What a request does'' None
       [El ''p'' []
          [Text
             ''A read revalidates the manifest first, so every instance answers with the latest push.''],
        El ''div'' [(''className'', Str ''not-prose'')]
          [Flow L
             [flow_step [Text ''GET manifest.pb, If-None-Match''] None (Some True),
              flow_step [Text ''304: serve from cache''] None None] None],
        El ''p'' [] [Text ''A push is acknowledged only after the bucket accepted it.''],
        El ''div'' [(''className'', Str ''not-prose'')]
          [Flow L
             [flow_step [Text ''index the pack''] None None,
              flow_step [Text (''PUT pack '' @ u_parallel @ '' idx '' @ u_parallel @ '' log'')] None
              (Some True), flow_step [Text ''CAS manifest.pb''] (Some Brand) (Some True),
              flow_step [Text ''ok''] (Some Good) None] None]]"

definition overview_boundary_section :: "ui \<Rightarrow> node" where
  "overview_boundary_section L =
     Section L ''boundary'' ''Who owns what'' None
       [El ''p'' []
          [Text
             ''gitcask owns the bytes. Everything that differs from one organisation to the next belongs to the platform built on it.''],
        SpecTable L ['''', ''gitcask'', ''Your platform'']
          [[[Text ''Git''], [Text ''Smart HTTP v0 and v2, LFS, the JSON API''],
            [Text ''The UI people use'']],
           [[Text ''Identity''], [Text ''Verifies a signed token and its repository scopes''],
            [Text ''Users, sign-in, teams, revocation'']],
           [[Text ''Repositories''], [Text ''Create, delete, read, commit, merge''],
            [Text ''The list of repositories and their metadata'']],
           [[Text ''Automation''], [Text ''One webhook per ref change, replayable''],
            [Text ''CI, reviews, issues, branch policy'']]] None]"

definition overview_pages_section :: "ui \<Rightarrow> node" where
  "overview_pages_section L =
     Section L ''pages'' ''Where to go next'' None
       [El ''ul'' [(''className'', Str ''not-prose grid gap-x-8 gap-y-6 md:grid-cols-2'')]
          (map (\<lambda>entry. El ''li'' [(''key'', Str (slug entry))]
                  [El ''Link''
                     [(''href'', Str (docHref entry)), (''className'', Str ''group block'')]
                     [El ''span''
                        [(''className'',
                          Str ''text-title-lg text-foreground group-hover:text-primary'')]
                        [Text (entry_label entry)],
                      El ''span''
                        [(''className'', Str ''mt-1 block text-body text-soft-foreground'')]
                        (case map_of PAGE_SUMMARIES (slug entry) of None \<Rightarrow> [] | Some s
                           \<Rightarrow> [Text s])]])
             (filter (\<lambda>entry. slug entry \<noteq> '''') (concat (map entries DOC_GROUPS))))]"

definition OverviewPage :: "ui \<Rightarrow> bool \<Rightarrow> (js_error, node) result" where
  "OverviewPage L opened =
     DocArticle L opened '''' ''gitcask''
       [Text
          ''An open-source git server that keeps every repository in your S3 bucket, so servers are disposable and cost follows pushes rather than repository count.'']
     overview_SECTIONS [''README.md'', ''GOAL.md'', ''docs/PRODUCT.md'']
       [overview_shape_section L, overview_requests_section L, overview_boundary_section L,
        overview_pages_section L]"

section \<open>QuickstartPage (docs/quickstart/page.tsx)\<close>

definition quickstart_SECTIONS :: "(string \<times> string) list" where
  "quickstart_SECTIONS =
     [(''run-it'', ''Run it locally''), (''what-happened'', ''What the push did''),
      (''production'', ''Before production'')]"

definition quickstart_run_it_section :: "ui \<Rightarrow> node" where
  "quickstart_run_it_section L =
     Section L ''run-it'' ''Run it locally'' None
       [El ''p'' []
          [Text ''You need Docker with Compose and git. Everything else runs in containers.''],
        Steps
          [Step 1 ''Start the store and the server''
             [El ''p'' []
                [Text
                   ''This starts rustfs, a local S3-compatible store, and one gitcask process on port 8080 using'',
                 Text '' '', El ''code'' [] [Text ''gitcask.standalone.toml''], Text ''.''],
              CodeBlock L QUICKSTART_start None None None],
           Step 2 ''Mint a token''
             [El ''p'' []
                [Text ''A demo JWT signed with a throwaway key, allowed to administer '',
                 El ''code'' [] [Text ''local/demo''], Text '' for one hour.''],
              CodeBlock L QUICKSTART_mint None None None],
           Step 3 ''Create the repository''
             [El ''p'' []
                [Text ''Creating a repository is one '', El ''code'' [] [Text ''PUT''],
                 Text ''. gitcask keeps no repository list; your platform does.''],
              CodeBlock L QUICKSTART_create None None None],
           Step 4 ''Clone and push''
             [El ''p'' []
                [Text ''Git sends the token as the Basic-auth password. The username is ignored.''],
              CodeBlock L QUICKSTART_push None None None]]]"

definition quickstart_what_happened_section :: "ui \<Rightarrow> node" where
  "quickstart_what_happened_section L =
     Section L ''what-happened'' ''What the push did'' None
       [El ''p'' []
          [Text
             ''gitcask indexed your pack, uploaded it with its index and a log entry, then made it visible with one compare-and-swap of the repository manifest. Only then did git report the new branch.''],
        Figure
          ''git push, then pack, index and log uploaded, then the manifest compare-and-swap, then ok returned to git.''
        (Some ''not-prose rounded-card bg-muted p-6 md:p-8'')
          [Flow L
             [flow_step [Text ''git push''] (Some Quiet) None,
              flow_step [Text (''PUT pack '' @ u_parallel @ '' idx '' @ u_parallel @ '' log'')] None
              (Some True), flow_step [Text ''CAS manifest.pb''] (Some Brand) (Some True),
              flow_step [Text ''ok''] (Some Good) None] None],
        El ''p'' []
          [Text
             ''Stop the server, delete its cache directory and start it again: the repository clones exactly as before, because the bucket is the repository. '',
           El ''Link'' [(''href'', Str ''/docs/architecture'')] [Text ''Architecture''],
           Text '' walks through every object it wrote.'']]"

definition quickstart_production_section :: "ui \<Rightarrow> node" where
  "quickstart_production_section L =
     Section L ''production'' ''Before production'' None
       [El ''ul'' []
          [El ''li'' []
             [Text
                ''Your platform signs tokens with its own Ed25519 key; gitcask holds only the public key or a JWKS URL. Opaque tokens work through introspection instead. See '',
              El ''Link'' [(''href'', Str ''/docs/authentication'')] [Text ''Authentication''],
              Text ''.''],
           El ''li'' []
             [Text ''Point '', El ''code'' [] [Text ''[store]''],
              Text '' at your S3 bucket and run the published image. See'', Text '' '',
              El ''Link'' [(''href'', Str ''/docs/operations'')] [Text ''Operations''], Text ''.'']],
        Callout L None ''Token lifetimes''
          [El ''p'' []
             [Text
                ''A token pasted into git is saved by the OS credential helper and reused. If it must live for weeks, scope it to one repository with the least permission. Backend tokens minted per request can expire in minutes.'']]]"

definition QuickstartPage :: "ui \<Rightarrow> bool \<Rightarrow> (js_error, node) result" where
  "QuickstartPage L opened =
     DocArticle L opened ''quickstart'' ''Quickstart''
       [Text
          ''One S3-compatible store, one gitcask process, and a push from your own git client in five minutes.'']
     quickstart_SECTIONS [''README.md'', ''compose.yaml'', ''gitcask.standalone.toml'']
       [quickstart_run_it_section L, quickstart_what_happened_section L,
        quickstart_production_section L]"

end
