(* ===== verification/Pages_Concepts.thy ===== *)
theory Pages_Concepts
  imports Site_Docs
begin

text \<open>
  The pages of the group \<open>Concepts\<close> of the documentation (\<^verbatim>\<open>site/src/app/docs\<close>): architecture and the cost model.
  A page is its list of sections for the outline, its constants, one definition per section it
  renders, and the article that composes them.
\<close>

section \<open>ArchitecturePage (docs/architecture/page.tsx)\<close>

definition architecture_SECTIONS :: "(string \<times> string) list" where
  "architecture_SECTIONS =
     [(''bucket-layout'', ''The bucket layout''), (''write-path'', ''Write path''),
      (''read-path'', ''Read path''), (''checkpoints-compaction'', ''Checkpoints and compaction''),
      (''maintainer'', ''The maintainer''), (''recovery'', ''Recovery'')]"

definition architecture_FIGURE :: string where
  "architecture_FIGURE =
     ''not-prose rounded-card bg-muted p-6 md:p-8''"

definition architecture_bucket_layout_section :: "ui \<Rightarrow> node" where
  "architecture_bucket_layout_section L =
     Section L ''bucket-layout'' ''The bucket layout'' None
       [El ''p'' []
          [Text
             ''Logs, packs and checkpoints are immutable. Nothing is visible before the manifest's compare-and-swap.''],
        Figure
          ''The repository prefix in the bucket holds manifest.pb, the commit point, beside log, wal, checkpoints, leases, cache and lfs.''
        (Some (architecture_FIGURE @ '' grid gap-4''))
          [El ''span''
             [(''className'', Str ''flex items-center gap-2 font-mono text-label text-foreground'')]
           [BucketGlyph L (Some ''text-soft-foreground''), Text ''repos/<owner>/<repo>/''],
           El ''div''
             [(''className'', Str ''flex flex-wrap gap-2 border-l border-border-strong pl-4'')]
             ([Chip L (Some Brand) (Some True) None [Text ''manifest.pb'']] @
                (map (\<lambda>name. with_key (Str name) (Chip L None (Some True) None [Text name]))
                 [''log/'', ''wal/'', ''checkpoints/'', ''leases/'', ''cache/'', ''lfs/'']))],
        Definitions
          [([Text ''manifest.pb''],
            [El ''p'' []
               [Text ''Tiny, CAS-rewritten: '', El ''code'' [] [Text ''head_seq''],
                Text
                  '', the live pack set, log segments, the checkpoint pointer. The linearization point.'']]),
           ([Text ''log/<first_seq>.pb''],
            [El ''p'' []
               [Text
                  ''Immutable PUSH, REF_UPDATE and COMPACT entries. One small object per publish batch.'']]),
           ([Text ''wal/<checksum>.pack/.idx/.rev/.bitmap/.commit-graph''],
            [El ''p'' []
               [Text
                  ''Immutable packs, content-addressed by pack checksum, plus the side-files a reader needs.'']]),
           ([Text ''checkpoints/<seq>/''],
            [El ''p'' []
               [Text ''Folded state at '', El ''code'' [] [Text ''seq''],
                Text '': live pack set and full '', El ''code'' [] [Text ''RefSnapshot''],
                Text ''.'']]),
           ([Text ''leases/<name>.pb''],
            [El ''p'' [] [Text ''CAS lease with TTL heartbeat. The only cross-instance mutex.'']]),
           ([Text ''cache/api/v1/, cache/archive/v1/''],
            [El ''p'' [] [Text ''Shared cache of immutable API answers and archives.'']]),
           ([Text ''lfs/objects/<aa>/<bb>/<oid>''],
            [El ''p'' [] [Text ''LFS objects, sha256-addressed and immutable.'']])] (Some True)]"

definition architecture_write_path_section :: "ui \<Rightarrow> node" where
  "architecture_write_path_section L =
     Section L ''write-path'' ''Write path'' None
       [El ''p'' []
          [Text
             ''A push is acknowledged only after the bucket acknowledged it. Concurrent writers race on one CAS.''],
        Figure
          ''A push is indexed, its pack, index and log entry are uploaded in parallel, the manifest is swapped, then ok is returned and a pending marker written. On a 412 the writer refetches, revalidates and retries.''
        (Some (architecture_FIGURE @ '' grid gap-6''))
          [Flow L
             [flow_step [Text ''git push''] (Some Quiet) None,
              flow_step [Text ''index-pack''] None None,
              flow_step [Text (''PUT pack '' @ u_parallel @ '' idx '' @ u_parallel @ '' log'')] None
              (Some True), flow_step [Text ''CAS manifest.pb''] (Some Brand) (Some True),
              flow_step [Text ''ok''] (Some Good) None,
              flow_step [Text ''PUT pending/<o>/<r>''] None (Some True)] None,
           Flow L
             [flow_step [Text ''412''] None (Some True),
              flow_step [Text ''refetch the manifest''] None None,
              flow_step [Text ''revalidate old values''] None None,
              flow_step [Text ''retry with jittered backoff''] None None] None],
        El ''p'' []
          [Text ''A ref that moved meanwhile is answered '', El ''code'' [] [Text ''ng''],
           Text ''. Concurrent pushes on one instance share one CAS within'', Text '' '',
           El ''code'' [] [Text ''wal.batch_window''], Text '' (default '',
           El ''code'' [] [Text ''5ms''], Text '') per repository.'']]"

definition architecture_read_path_section :: "ui \<Rightarrow> node" where
  "architecture_read_path_section L =
     Section L ''read-path'' ''Read path'' None
       [El ''p'' []
          [Text
             ''Every read starts with a conditional GET of the manifest, so every instance is as fresh as a fetch.''],
        Figure
          ''A conditional GET of manifest.pb answers 304 and the local copy is served, or 200 and new entries are applied first.''
        (Some (architecture_FIGURE @ '' grid gap-3''))
          [Flow L
             [flow_step [Text ''GET manifest.pb, If-None-Match''] None (Some True),
              flow_step [Text ''304: serve the local copy''] (Some Good) None] None,
           Flow L
             [flow_step [Text ''GET manifest.pb, If-None-Match''] None (Some True),
              flow_step [Text ''200: apply new entries, then serve''] None None] None],
        SpecTable L [''Sync level'', ''Brings'', ''Used by'']
          [[[Text ''Refs''],
            [Text ''Checkpoint '', El ''code'' [] [Text ''RefSnapshot''],
             Text '' and every log entry's ref transaction. No packs.''],
            [El ''code'' [] [Text ''info/refs''], Text '', '', El ''code'' [] [Text ''ls-refs''],
             Text '', API refs, resolve and overview'']],
           [[Text ''Full''],
            [Text ''Refs and every live pack, downloaded locally in parallel stripes''],
            [Text ''upload-pack, receive-pack, API object endpoints, compaction'']]] None]"

definition architecture_checkpoints_compaction_section :: "ui \<Rightarrow> node" where
  "architecture_checkpoints_compaction_section L =
     Section L ''checkpoints-compaction'' ''Checkpoints and compaction'' None
       [El ''p'' []
          [Text
             ''A checkpoint folds the log, so a cold start reads a snapshot and the tail, never the whole log. Compaction folds fresh packs geometrically under a lease, and needs at least two of them.''],
        SpecTable L [''Key'', ''Fires when'', ''Default'']
          [[[El ''code'' [(''key'', Str ''k'')] [Text ''wal.snapshot_every_entries'']],
            [Text ''This many log entries since the last checkpoint''],
            [El ''code'' [(''key'', Str ''v'')] [Text ''256'']]],
           [[El ''code'' [(''key'', Str ''k'')] [Text ''wal.checkpoint_interval'']],
            [Text ''The last checkpoint is this old''],
            [El ''code'' [(''key'', Str ''v'')] [Text ''1h'']]],
           [[El ''code'' [(''key'', Str ''k'')] [Text ''wal.checkpoint_tail_bytes'']],
            [Text ''The log tail after it exceeds this''],
            [El ''code'' [(''key'', Str ''v'')] [Text ''8MiB'']]],
           [[El ''code'' [(''key'', Str ''k'')] [Text ''compaction.trigger_packs'']],
            [Text ''This many tier-0 packs exist''],
            [El ''code'' [(''key'', Str ''v'')] [Text ''16'']]],
           [[El ''code'' [(''key'', Str ''k'')] [Text ''compaction.trigger_bytes'']],
            [Text ''Tier-0 pack bytes exceed this''],
            [El ''code'' [(''key'', Str ''v'')] [Text ''1GiB'']]],
           [[El ''code'' [(''key'', Str ''k'')] [Text ''compaction.retention_superseded'']],
            [Text
               ''Superseded packs, folded logs and old checkpoints are kept this long before bucket GC''],
            [El ''code'' [(''key'', Str ''v'')] [Text ''7d'']]]] None]"

definition architecture_maintainer_section :: "ui \<Rightarrow> node" where
  "architecture_maintainer_section L =
     Section L ''maintainer'' ''The maintainer'' None
       [El ''p'' []
          [Text
             ''A push leaves a marker; the maintainer visits only marked repositories and does one bounded unit of the most important missing work at a time.''],
        Figure
          ''A push writes a pending marker, the maintainer lists pending markers, runs units for each marked repository, and deletes the marker conditionally. Units run in priority order: checkpoint, compaction, rev-index, fsck audit, bucket GC.''
        (Some (architecture_FIGURE @ '' grid gap-6''))
          [Flow L
             [flow_step [Text ''PUT pending/<o>/<r>''] None (Some True),
              flow_step [Text ''LIST pending/''] (Some Brand) (Some True),
              flow_step [Text ''run units''] None None,
              flow_step [Text ''conditional DELETE of the marker''] None None] None,
           Flow L
             [flow_step [Text ''checkpoint''] None None, flow_step [Text ''compaction''] None None,
              flow_step [Text ''rev-index''] None None, flow_step [Text ''fsck audit''] None None,
              flow_step [Text ''bucket GC''] None None] None],
        El ''p'' []
          [Text
             ''Everything it produces is a pure function of config and WAL state, so a deleted artefact is rebuilt identically. A repository nobody pushes to is never visited; '',
           El ''Link'' [(''href'', Str ''/docs/cost-model'')] [Text ''Cost model''], Text '' '',
           Text ''has the numbers.'']]"

definition architecture_recovery_section :: "ui \<Rightarrow> node" where
  "architecture_recovery_section L =
     Section L ''recovery'' ''Recovery'' None
       [El ''p'' []
          [Text ''Disk and memory are caches. Wipe every instance and you lose only warmth.''],
        Figure
          ''Every instance is wiped; a new instance reads the manifest, checkpoint and log tail and serves refs in under a second.''
        (Some architecture_FIGURE)
          [Flow L
             [flow_step [Text ''every instance wiped''] (Some Gone) None,
              flow_step [Text ''new instance''] None None,
              flow_step [Text ''manifest + checkpoint + tail''] (Some Brand) None,
              flow_step [Text ''refs in < 1 s''] (Some Good) None] None],
        El ''p'' [] [Text ''Packs download on the first object request.'']]"

definition ArchitecturePage :: "ui \<Rightarrow> bool \<Rightarrow> (js_error, node) result" where
  "ArchitecturePage L opened =
     DocArticle L opened ''architecture'' ''Architecture''
       [Text
          ''Each repository is a write-ahead log in the bucket; every instance is a cache or a reader of that log.'']
     architecture_SECTIONS [''AGENTS.md'', ''README.md'', ''gitcask.example.toml'']
       [architecture_bucket_layout_section L, architecture_write_path_section L,
        architecture_read_path_section L, architecture_checkpoints_compaction_section L,
        architecture_maintainer_section L, architecture_recovery_section L]"

section \<open>CostModelPage (docs/cost-model/page.tsx)\<close>

definition cost_model_SECTIONS :: "(string \<times> string) list" where
  "cost_model_SECTIONS =
     [(''primitives'', ''The latency primitives''), (''depth'', ''Depth before count''),
      (''budgets'', ''Budgets per operation''), (''pushes'', ''Cost follows pushes''),
      (''rules'', ''Rules of thumb''), (''acceptance'', ''Acceptance bars'')]"

definition PUSH_ROUNDS :: "(string \<times> (string \<times> bool option) list) list" where
  "PUSH_ROUNDS =
     [(''Round 1'', [(''GET manifest.pb'', None)]),
      (''Round 2'', [(''PUT pack'', None), (''PUT idx'', None), (''PUT log'', None)]),
      (''Round 3'', [(''CAS manifest.pb'', Some True)]),
      (''Round 4'', [(''PUT pending/<o>/<r>'', None)])]"

definition cost_model_primitives_section :: "ui \<Rightarrow> node" where
  "cost_model_primitives_section L =
     Section L ''primitives'' ''The latency primitives'' None
       [El ''p'' []
          [Text
             ''The bucket is the only durable primitive. Single-object CAS is its only transaction.''],
        SpecTable L [''Primitive'', ''Cost'', ''Notes'']
          [[[Text ''GET or PUT of a small object''], [Text (''60'' @ u_ndash @ ''80 ms p50/p99'')],
            [Text ''One request is one round trip'']],
           [[Text ''Conditional GET ('', El ''code'' [] [Text ''If-None-Match''],
             Text '') answering 304''], [Text (''15'' @ u_ndash @ ''18 ms'')],
            [Text ''The cheapest \"is anything new?\"'']],
           [[Text ''HEAD''], [Text (u_approx @ '' GET'')], [Text ''Never added on a happy path'']],
           [[Text ''404''], [Text ''Free''], [Text (''Probe, don'' @ u_rsquo @ ''t list'')]],
           [[Text ''LIST''], [Text ''Slow, paged, eventually-ish''], [Text ''Never on a hot path'']],
           [[Text ''CAS overwrite of one object''], [Text ''Serialized, ~1 write/s''],
            [Text ''A throughput cap; 412 is the normal contention signal'']],
           [[Text ''Range read of a big object''], [Text ''~100 MB/s per connection''],
            [Text ''Stripe for more; bulk bytes on their own pool'']]] None]"

definition cost_model_depth_section :: "ui \<Rightarrow> node" where
  "cost_model_depth_section L =
     Section L ''depth'' ''Depth before count'' None
       [El ''p'' []
          [Text
             ''Two PUTs in parallel cost one round trip. A healthy push is 6 requests in 4 rounds.''],
        Figure
          ''A healthy push: round 1 a manifest freshness GET, round 2 the pack, index and log PUTs in parallel, round 3 the manifest CAS, round 4 the pending-marker PUT.''
        (Some ''not-prose flex flex-wrap gap-x-8 gap-y-6 rounded-card bg-muted p-6 md:p-8'')
          (map (\<lambda>round. El ''div''
                  [(''key'', Str (fst round)), (''className'', Str ''grid content-start gap-2'')]
                  ([El ''span'' [(''className'', Str ''text-label text-soft-foreground'')]
                      [Text (fst round)]] @
                     (map (\<lambda>request. with_key (Str (fst request))
                             (Chip L (if or_default False (snd request) then (Some Brand) else
                                        (Some Plain)) (Some True) (Some ''justify-start'')
                                [Text (fst request)])) (snd round)))) PUSH_ROUNDS),
        El ''p'' []
          [Text
             ''The pending marker follows the CAS so an uncommitted push cannot wake maintenance. Its failure never changes the committed push.'']]"

definition cost_model_budgets_section :: "ui \<Rightarrow> node" where
  "cost_model_budgets_section L =
     Section L ''budgets'' ''Budgets per operation'' None
       [El ''p'' [] [Text ''Happy path: sequential depth, then total store requests.''],
        SpecTable L [''Operation'', ''Depth'', ''Requests'']
          [[[Text ''Any read ('', El ''code'' [] [Text ''info/refs''], Text '', '',
             El ''code'' [] [Text ''ls-refs''], Text '', API refs and resolve)''],
            [Text ''1 conditional GET (or 0 within '', El ''code'' [] [Text ''wal.freshness_ttl''],
             Text '')''], [Text ''1'']],
           [[Text ''Cold refs sync''],
            [Text (''1 manifest GET, then 1 round of checkpoint refs '' @ u_parallel @
                     '' log tail segments'')],
            [Text ''No checkpoint: 1 + tail (2 with one segment); checkpoint: 2 + tail'']],
           [[Text ''Push''],
            [Text (''Freshness GET '' @ u_rarr @ '' pack PUT '' @ u_parallel @ '' idx PUT '' @
                     u_parallel @ '' log PUT '' @ u_rarr @ '' manifest CAS '' @ u_rarr @
                     '' best-effort pending-marker PUT'')],
            [Text ''Request: 6; already-synced publish: 5'']],
           [[Text ''Ref write API''],
            [Text (''Freshness GET '' @ u_rarr @ '' optional tag pack PUT '' @ u_parallel @
                     '' idx PUT '' @ u_parallel @ '' log PUT '' @ u_rarr @ '' manifest CAS '' @
                     u_rarr @ '' pending-marker PUT'')], [Text ''Ref-only: 4; annotated tag: 6'']],
           [[Text ''Commit or merge write API''],
            [Text (''Freshness GET '' @ u_rarr @ '' new-object pack PUT '' @ u_parallel @
                     '' idx PUT '' @ u_parallel @ '' log PUT '' @ u_rarr @ '' manifest CAS '' @
                     u_rarr @ '' pending-marker PUT'')],
            [Text ''Commit or merge commit: 6; fast-forward: 4; already merged: 1'']],
           [[Text ''Checkpoint''],
            [Text (''Conditional GET '' @ u_rarr @ '' refs PUT '' @ u_parallel @
                     '' checkpoint PUT '' @ u_rarr @ '' manifest CAS'')],
            [Text ''3 rounds, 4 requests'']],
           [[Text ''Lease acquire''],
            [Text (''1 GET '' @ u_rarr @ '' 1 CAS put (or 1 Create when absent)'')], [Text ''2'']],
           [[Text ''Maintainer pending pass''],
            [Text ''1 bounded LIST, then each repository keeps its existing unit depth''],
            [Text ''Existing requests per repository; up to '',
             El ''code'' [] [Text ''maintenance.workers''], Text '' repositories overlap'']],
           [[Text ''Authentication (introspect mode)''],
            [Text ''0 on a cache hit; 1 HTTP request to the introspection URL per miss''],
            [Text ''0 store requests'']]] None]"

definition cost_model_pushes_section :: "ui \<Rightarrow> node" where
  "cost_model_pushes_section L =
     Section L ''pushes'' ''Cost follows pushes'' None
       [El ''p'' []
          [Text ''A push writes a '', El ''code'' [] [Text ''pending/''],
           Text '' marker and the maintainer lists only those. Nothing lists'', Text '' '',
           El ''code'' [] [Text ''repos/''],
           Text '', so idle cost does not grow with repository count.''],
        SpecTable L [''Repositories'', ''Store requests over 5 idle minutes'']
          [[[Text ''100''], [Text ''118'']], [[Text ''1,000''], [Text ''118'']],
           [[Text ''50,000''], [Text ''120'']]] None,
        El ''p'' []
          [El ''Link'' [(''href'', Str ''/docs/architecture#maintainer'')] [Text ''Architecture''],
           Text '' shows the marker's path through the maintainer.'']]"

definition cost_model_rules_section :: "ui \<Rightarrow> node" where
  "cost_model_rules_section L =
     Section L ''rules'' ''Rules of thumb'' None
       [Definitions
          [([Text ''Let the conditional write be the read''],
            [El ''p'' []
               [Text
                  ''A 412 on Create means it exists; a 412 on Update means someone moved it. Don't GET first.'']]),
           ([Text ''Verify on the failure path''],
            [El ''p'' []
               [Text
                  ''Probes run only after a failed Create or CAS. The happy path never pays for rare cases.'']]),
           ([Text ''Batch at the CAS''],
            [El ''p'' []
               [Text ''Group commit ('', El ''code'' [] [Text ''wal.batch_window''],
                Text '') turns N concurrent pushes into one log PUT and one CAS.'']]),
           ([Text ''Carry state in the manifest''],
            [El ''p'' []
               [Text
                  ''Every request fetches it anyway, so a reader never needs a second request to know what to fetch.'']]),
           ([Text ''Jitter every retry''],
            [El ''p'' []
               [Text ''A synchronized retry storm serializes itself on a 1 write/s object.'']])]
          None]"

definition cost_model_acceptance_section :: "ui \<Rightarrow> node" where
  "cost_model_acceptance_section L =
     Section L ''acceptance'' ''Acceptance bars'' None
       [SpecTable L [''Claim'', ''Bar'']
          [[[Text ''Cold instance is useful in seconds''],
            [El ''code'' [] [Text ''ls-remote''],
             Text '' of any repository < 1 s on a fresh instance'']],
           [[Text ''Cache is a cache''],
            [Text ''Stop the server, delete '', El ''code'' [] [Text ''cache.dir''],
             Text '', start it: every repository clones again from the bucket'']],
           [[Text ''Push''], [Text ''Acknowledged only after the bucket ACKs; one CAS per batch'']],
           [[Text ''Consistency''],
            [Text ''Push then fetch anywhere sees it; concurrent pushers: exactly one winner'']],
           [[Text ''Cost model''],
            [Text
               ''A maintainer pass touches only repositories with a pending marker; no periodic LIST of'',
             Text '' '', El ''code'' [] [Text ''repos/''], Text '' anywhere'']],
           [[Text ''Transient store errors''],
            [Text
               ''5xx or throttling on any store operation is retried with backoff and never surfaces as a failed push on its own'']]]
        None]"

definition CostModelPage :: "ui \<Rightarrow> bool \<Rightarrow> (js_error, node) result" where
  "CostModelPage L opened =
     DocArticle L opened ''cost-model'' ''Cost model''
       [Text
          ''Every user-visible latency is a sum of sequential bucket requests, so round trips are the performance design.'']
     cost_model_SECTIONS
       [''docs/ROUNDTRIPS.md'', ''GOAL.md'', ''docs/DIRECTION.md'', ''docs/PRODUCT.md'']
       [cost_model_primitives_section L, cost_model_depth_section L, cost_model_budgets_section L,
        cost_model_pushes_section L, cost_model_rules_section L, cost_model_acceptance_section L]"

end
