(* ===== verification/Pages_Reference.thy ===== *)
theory Pages_Reference
  imports Site_Docs
begin

text \<open>
  The pages of the group \<open>Reference\<close> of the documentation (\<^verbatim>\<open>site/src/app/docs\<close>): authentication, the API, events, and initialize and import.
  A page is its list of sections for the outline, its constants, one definition per section it
  renders, and the article that composes them.
\<close>

section \<open>AuthenticationPage (docs/authentication/page.tsx)\<close>

definition authentication_SECTIONS :: "(string \<times> string) list" where
  "authentication_SECTIONS =
     [(''modes'', ''Five modes''), (''tokens'', ''Tokens and scopes''),
      (''introspection'', ''Introspection''), (''proxy'', ''Trusted proxies''),
      (''errors'', ''Errors and open paths''), (''self-hosting'', ''Keys for self-hosters'')]"

definition authentication_JWT_CONFIG :: string where
  "authentication_JWT_CONFIG =
     (''[server]'' @ nl @ ''auth_mode = \"jwt\"'' @ nl @ nl @ ''[auth.jwt]'' @ nl @
        ''public_key = \"/etc/gitcask/public.pem\"   # or jwks_url = \"https://issuer.example/.well-known/jwks.json\"''
      @ nl @ ''issuer = \"https://issuer.example\"        # exact iss; required in jwt mode'' @ nl @
      ''# audience = \"gitcask\"                   # optional exact member of aud'' @ nl @
        ''leeway = \"60s\"                           # exp/iat/nbf clock skew'')"

definition authentication_INTROSPECT_ANSWER :: string where
  "authentication_INTROSPECT_ANSWER =
     ''{\"active\":true,\"principal\":\"user:42\",\"scopes\":[\"acme/*:read\"],\"ttl\":30}''"

definition authentication_TOKEN_COMMANDS :: string where
  "authentication_TOKEN_COMMANDS =
     (''# once: an Ed25519 key pair (never overwrites existing files)'' @ nl @
        ''gitcask --config gitcask.toml token keygen '' @ bslash @ nl @
        ''  --private-key gitcask-private.pem --public-key gitcask-public.pem'' @ nl @ nl @
        ''# per token: issuer and audience come from [auth.jwt] in the config'' @ nl @
        ''gitcask --config gitcask.toml token mint '' @ bslash @ nl @
        ''  --key gitcask-private.pem --principal ci --scope acme/web:write --ttl 1h'')"

definition authentication_modes_section :: "ui \<Rightarrow> node" where
  "authentication_modes_section L =
     Section L ''modes'' ''Five modes'' None
       [El ''p'' []
          [Text ''Pick one with '', El ''code'' [] [Text ''server.auth_mode''],
           Text ''. Startup fails closed when a mode's settings are missing.''],
        SpecTable L [''Mode'', ''Needs'', ''Caller'']
          [[[El ''code'' [(''key'', Str ''m'')] [Text ''none'']],
            [El ''code'' [] [Text ''server.listen''], Text '' on loopback; refused otherwise''],
            [Text ''Everyone is '', El ''code'' [] [Text ''anon''], Text '' with write and admin'']],
           [[El ''code'' [(''key'', Str ''m'')] [Text ''jwt'']],
            [El ''code'' [] [Text ''[auth.jwt]''], Text '': one of '',
             El ''code'' [] [Text ''public_key''], Text '' or '',
             El ''code'' [] [Text ''jwks_url''], Text '', plus'', Text '' '',
             El ''code'' [] [Text ''issuer'']],
            [Text ''The token's '', El ''code'' [] [Text ''sub''], Text '' and '',
             El ''code'' [] [Text ''scopes'']]],
           [[El ''code'' [(''key'', Str ''m'')] [Text ''introspect'']],
            [El ''code'' [] [Text ''[auth.introspect]''], Text '': '',
             El ''code'' [] [Text ''url''], Text '' and '', El ''code'' [] [Text ''secret_env'']],
            [Text ''The issuer's '', El ''code'' [] [Text ''principal''], Text '' and '',
             El ''code'' [] [Text ''scopes'']]],
           [[El ''code'' [(''key'', Str ''m'')] [Text ''forwarded'']],
            [Text ''A trusted proxy; '', El ''code'' [] [Text ''GITCASK_FORWARD_SECRET''],
             Text '' is optional and must match when set''],
            [El ''code'' [] [Text ''X-Gitcask-Principal''], Text '', with '',
             El ''code'' [] [Text ''X-Gitcask-Write: 1''], Text '' and'', Text '' '',
             El ''code'' [] [Text ''X-Gitcask-Admin: 1''], Text '' as grants'']],
           [[El ''code'' [(''key'', Str ''m'')] [Text ''introspect_forwarded'']],
            [El ''code'' [] [Text ''[auth.introspect]''], Text '' and '',
             El ''code'' [] [Text ''GITCASK_FORWARD_SECRET''], Text '', both required at startup''],
            [Text ''One identity per request: proxy or token, never both'']]] None,
        CodeBlock L authentication_JWT_CONFIG (Some Toml) (Some ''gitcask.toml'') None]"

definition authentication_tokens_section :: "ui \<Rightarrow> node" where
  "authentication_tokens_section L =
     Section L ''tokens'' ''Tokens and scopes'' None
       [El ''p'' []
          [Text
             ''Git sends the token as the Basic-auth password and ignores the username. The API takes the same token as a Bearer header.''],
        Figure
          ''git sends the token in the Basic password; API clients send it as Authorization: Bearer.''
        (Some ''not-prose grid gap-3 rounded-card bg-muted p-6 md:p-8'')
          [Flow L
             [flow_step [Text ''git''] (Some Quiet) None,
              flow_step [Text ''Basic, password = $TOKEN''] None (Some True)] None,
           Flow L
             [flow_step [Text ''API client''] (Some Quiet) None,
              flow_step [Text ''Bearer $TOKEN''] None (Some True)] None],
        El ''p'' []
          [Text
             ''JWTs are EdDSA (Ed25519) only. gitcask holds the public key; the issuer keeps the private key.''],
        Definitions
          [([Text ''sub''],
            [Text ''Opaque principal. gitcask stores nothing else about the caller.'']),
           ([Text ''scopes''],
            [El ''code'' [] [Text ''<owner>/<repo>:read|write|admin''], Text ''. '',
             El ''code'' [] [Text ''*''],
             Text '' is allowed only in the repository segment; admin implies write implies read.'']),
           ([Text ''exp, iat, jti''], [Text ''Required.'']),
           ([Text ''iss''],
            [Text ''Must equal '', El ''code'' [] [Text ''auth.jwt.issuer''], Text ''.'']),
           ([Text ''aud''],
            [Text ''Checked when '', El ''code'' [] [Text ''auth.jwt.audience''], Text '' is set.'']),
           ([Text ''nbf''], [Text ''Honoured when present.''])] (Some True)]"

definition authentication_introspection_section :: "ui \<Rightarrow> node" where
  "authentication_introspection_section L =
     Section L ''introspection'' ''Introspection'' None
       [El ''p'' []
          [Text ''For opaque tokens, gitcask asks your issuer and caches the answer per instance.''],
        El ''div'' [(''className'', Str ''not-prose'')]
          [Flow L
             [flow_step [Text ''Basic password or Bearer''] (Some Quiet) None,
              flow_step [Text (''POST url {\"token\":\"'' @ u_ellipsis @ ''\"}'')] (Some Brand)
                (Some True), flow_step [Text ''active, principal, scopes, ttl''] None (Some True)]
             None],
        CodeBlock L authentication_INTROSPECT_ANSWER (Some Json) (Some ''200 answer'') None,
        SpecTable L [''Key or limit'', ''Default'', ''Bound'']
          [[[El ''code'' [(''key'', Str ''k'')] [Text ''cache_ttl'']],
            [El ''code'' [(''key'', Str ''v'')] [Text ''30s'']],
            [Text (u_le @ '' 10m; ''), El ''code'' [] [Text ''0s''],
             Text '' disables positive caching'']],
           [[El ''code'' [(''key'', Str ''k'')] [Text ''negative_cache_ttl'']],
            [El ''code'' [(''key'', Str ''v'')] [Text ''3s'']],
            [El ''code'' [] [Text ''0s''], Text '' disables negative caching'']],
           [[El ''code'' [(''key'', Str ''k'')] [Text ''timeout'']],
            [El ''code'' [(''key'', Str ''v'')] [Text ''2s'']],
            [Text (''> 0s and '' @ u_le @ '' 10s'')]],
           [[Text ''Cached answers''], [Text ''10,000 per instance, FIFO''],
            [Text ''Keyed by SHA-256, never raw tokens'']],
           [[Text ''Answer body''], [Text ''64 KiB''],
            [Text ''Larger answers are a service failure: 503'']]] None,
        El ''p'' []
          [Text ''A positive answer lives '', El ''code'' [] [Text ''min(ttl, cache_ttl)''],
           Text '', which is also the longest a revocation can take to reach an instance.'']]"

definition authentication_proxy_section :: "ui \<Rightarrow> node" where
  "authentication_proxy_section L =
     Section L ''proxy'' ''Trusted proxies'' None
       [El ''p'' []
          [Text ''In '', El ''code'' [] [Text ''introspect_forwarded''], Text '', the '',
           El ''code'' [] [Text ''X-Gitcask-Forward-Secret''],
           Text '' header decides who the caller is.''],
        SpecTable L [''X-Gitcask-Forward-Secret'', ''Authentication and precedence'']
          [[[Text ''Absent''],
            [Text
               ''Introspect the Basic password or Bearer token using the existing bounded client/cache. Ignore all forwarded identity/write/admin headers.'']],
           [[Text ''Present but empty, malformed, repeated, or wrong''],
            [Text ''Return 401; never retry with '', El ''code'' [] [Text ''Authorization''],
             Text '', even if it contains a valid token.'']],
           [[Text ''Present once and valid''],
            [Text ''Compare in constant time, then require a non-empty '',
             El ''code'' [] [Text ''X-Gitcask-Principal''],
             Text ''. Use only forwarded identity/grants; ignore '',
             El ''code'' [] [Text ''Authorization''],
             Text
               '', even if valid, invalid or more privileged. A missing/empty principal returns 401.'']]]
        None,
        Callout L (Some Warning) ''Strip client headers at the proxy''
          [El ''p'' []
             [Text ''The proxy must remove every client-supplied '',
              El ''code'' [] [Text ''X-Gitcask-Principal''], Text '', '',
              El ''code'' [] [Text ''X-Gitcask-Write''], Text '','', Text '' '',
              El ''code'' [] [Text ''X-Gitcask-Admin''], Text '' and '',
              El ''code'' [] [Text ''X-Gitcask-Forward-Secret''],
              Text
                '', including duplicates, before adding its own. Forwarded grants are not repository scopes: the proxy authorizes the repository.'']]]"

definition authentication_errors_section :: "ui \<Rightarrow> node" where
  "authentication_errors_section L =
     Section L ''errors'' ''Errors and open paths'' None
       [SpecTable L [''Situation'', ''Answer'']
          [[[Text ''Missing or invalid credentials''],
            [Text ''401 with '',
             El ''code'' [] [Text ''WWW-Authenticate: Basic realm=\"gitcask\"'']]],
           [[Text ''Token lacks a scope for the repository''], [Text ''404'']],
           [[Text ''Forwarded principal missing or empty''], [Text ''401'']],
           [[Text ''Forwarded request without '', El ''code'' [] [Text ''X-Gitcask-Write: 1''],
             Text '' or '', El ''code'' [] [Text ''X-Gitcask-Admin: 1''], Text '' it needs''],
            [Text ''403'']],
           [[Text ''Introspection service failure''],
            [Text ''503 with '', El ''code'' [] [Text ''Retry-After: 5''], Text '', no challenge'']]]
        None,
        SpecTable L [''Path'', ''Credentials'']
          [[[El ''code'' [] [Text ''/healthz''], Text '', '', El ''code'' [] [Text ''/readyz'']],
            [Text ''Open'']],
           [[El ''code'' [] [Text ''/docs''], Text '', '', El ''code'' [] [Text ''/openapi.json''],
             Text '', '', El ''code'' [] [Text ''/api/v1/docs''], Text '', '',
             El ''code'' [] [Text ''/api/v1/openapi.json'']],
            [Text ''Open while '', El ''code'' [] [Text ''server.public_docs = true''],
             Text '' (default); required when '', El ''code'' [] [Text ''false'']]],
           [[El ''code'' [(''key'', Str ''p'')] [Text ''/metrics'']], [Text ''Always required'']],
           [[Text ''Everything else''], [Text ''Required'']]] None]"

definition authentication_self_hosting_section :: "ui \<Rightarrow> node" where
  "authentication_self_hosting_section L =
     Section L ''self-hosting'' ''Keys for self-hosters'' None
       [El ''p'' []
          [Text
             ''Without an issuer, generate a key pair and mint tokens offline. gitcask has no endpoint that issues tokens.''],
        CodeBlock L authentication_TOKEN_COMMANDS None None None]"

definition AuthenticationPage :: "ui \<Rightarrow> bool \<Rightarrow> (js_error, node) result" where
  "AuthenticationPage L opened =
     DocArticle L opened ''authentication'' ''Authentication''
       [Text
          ''gitcask verifies a credential on every request and checks repository scopes; issuing tokens and storing users stay with your platform.'']
     authentication_SECTIONS
       [''AGENTS.md'', ''SECURITY.md'', ''docs/PRODUCT.md'', ''gitcask.example.toml'']
       [authentication_modes_section L, authentication_tokens_section L,
        authentication_introspection_section L, authentication_proxy_section L,
        authentication_errors_section L, authentication_self_hosting_section L]"

section \<open>ApiPage (docs/api/page.tsx)\<close>

definition api_SECTIONS :: "(string \<times> string) list" where
  "api_SECTIONS =
     [(''routing'', ''One prefix per repository''), (''git'', ''Git and LFS''),
      (''reads'', ''Reads''), (''writes'', ''Writes''), (''commit'', ''Commit without a clone''),
      (''repository'', ''Repository and tasks'')]"

definition api_COMMIT_REQUEST :: string where
  "api_COMMIT_REQUEST =
     (''curl -fsS -X POST http://127.0.0.1:8080/acme/web/api/commits '' @ bslash @ nl @
        ''  -H \"Authorization: Bearer $TOKEN\" '' @ bslash @ nl @
        ''  -H 'Content-Type: application/json' '' @ bslash @ nl @ ''  -d @- <<'JSON'' @ [CHR 0x27]
        @ nl @ ''{'' @ nl @ ''  \"branch\": \"main\",'' @ nl @
        ''  \"message\": \"Update the readme\",'' @ nl @
        ''  \"expected_head_oid\": \"<current oid of main>\",'' @ nl @
        ''  \"committer\": { \"name\": \"CI\", \"email\": \"ci@example.com\", \"when\": \"2026-10-07T09:00:00Z\" },''
      @ nl @ ''  \"changes\": ['' @ nl @
        ''    { \"op\": \"upsert\", \"path\": \"README.md\", \"content\": \"IyBXZWIK\", \"mode\": \"100644\" },''
      @ nl @ ''    { \"op\": \"rename\", \"from\": \"docs/old.md\", \"to\": \"docs/new.md\" },'' @
        nl @ ''    { \"op\": \"delete\", \"path\": \"tmp/scratch.txt\" }'' @ nl @ ''  ]'' @ nl @
        ''}'' @ nl @ ''JSON'')"

definition Route :: "string \<Rightarrow> string \<Rightarrow> node" where
  "Route method path =
     El ''code'' [(''className'', Str ''whitespace-nowrap'')]
       ([Text method] @ [Text '' ''] @ [Text path])"

definition api_routing_section :: "ui \<Rightarrow> node" where
  "api_routing_section L =
     Section L ''routing'' ''One prefix per repository'' None
       [El ''p'' []
          [Text ''Everything for a repository starts with '',
           El ''code'' [] [Text ''/'', Text ''{owner}'', Text ''/'', Text ''{repo}''],
           Text '', so a proxy routes on the first two path segments alone.''],
        Figure
          ''The repository prefix /{owner}/{repo} leads to git smart HTTP, LFS, the api lane and the api-browser lane.''
        (Some ''not-prose grid gap-3 rounded-card bg-muted p-6 md:p-8'')
          [El ''div'' []
             [Chip L (Some Brand) (Some True) None
                [Text ''/'', Text ''{owner}'', Text ''/'', Text ''{repo}'']],
           El ''div''
             [(''className'', Str ''ml-6 h-6 w-px bg-border-strong''),
              (''aria-hidden'', Str ''true'')] [],
           El ''div'' [(''className'', Str ''flex flex-wrap gap-2'')]
             (map (\<lambda>path. with_key (Str path) (Chip L None (Some True) None [Text path]))
                [''/info/refs'', ''/git-upload-pack'', ''/git-receive-pack'',
                 (''/info/lfs/'' @ u_ellipsis), (''/api/'' @ u_ellipsis),
                 (''/api-browser/'' @ u_ellipsis)])],
        SpecTable L [''Lane'', ''Prefix'', ''For'']
          [[[Text ''Direct''],
            [El ''code'' [(''key'', Str ''p'')]
               [Text ''/'', Text ''{owner}'', Text ''/'', Text ''{repo}'', Text ''/api'']],
            [Text ''Servers and CLIs'']],
           [[Text ''Browser''],
            [El ''code'' [(''key'', Str ''p'')]
               [Text ''/'', Text ''{owner}'', Text ''/'', Text ''{repo}'', Text ''/api-browser'']],
            [Text ''Same handlers; CORS only for '', El ''code'' [] [Text ''server.cors_origins'']]],
           [[Text ''Reference''], [El ''code'' [(''key'', Str ''p'')] [Text ''/docs'']],
            [Text ''Scalar UI over '', El ''code'' [] [Text ''/openapi.json'']]],
           [[Text ''Discovery''], [El ''code'' [(''key'', Str ''p'')] [Text ''/api/v1'']],
            [Text ''Not tied to a repository'']]] None]"

definition api_git_section :: "ui \<Rightarrow> node" where
  "api_git_section L =
     Section L ''git'' ''Git and LFS'' None
       [El ''p'' []
          [Text
             ''Standard git and git-lfs clients work unchanged. Paths are relative to the repository prefix.''],
        SpecTable L [''Route'', ''Purpose'']
          [[[with_key (Str ''r'') (Route ''GET'' ''/info/refs'')], [Text ''Ref advertisement'']],
           [[with_key (Str ''r'') (Route ''POST'' ''/git-upload-pack'')],
            [Text ''Clone and fetch'']],
           [[with_key (Str ''r'') (Route ''POST'' ''/git-receive-pack'')], [Text ''Push'']],
           [[with_key (Str ''r'') (Route ''POST'' ''/info/lfs/objects/batch'')],
            [Text ''LFS batch'']],
           [[with_key (Str ''r'') (Route ''GET HEAD PUT'' ''/info/lfs/objects/{oid}'')],
            [Text ''LFS basic transfer'']],
           [[with_key (Str ''r'') (Route ''POST'' ''/info/lfs/verify'')], [Text ''LFS verify'']]]
          None,
        SpecTable L [''Surface'', ''Supported'']
          [[[Text ''Protocol''], [Text ''Smart HTTP v0 and v2'']],
           [[Text ''Fetch''],
            [Text ''ls-refs with prefixes, filter, shallow, deepen, sideband-all'']],
           [[Text ''Push''], [Text ''atomic, delete, tags, push options, report-status-v2'']]] None]"

definition api_reads_section :: "ui \<Rightarrow> node" where
  "api_reads_section L =
     Section L ''reads'' ''Reads'' None
       [El ''p'' []
          [Text ''Reads need the '', El ''code'' [] [Text ''read''],
           Text '' scope. Paths are relative to the repository prefix.''],
        SpecTable L [''Route'', ''Purpose'']
          [[[with_key (Str ''r'') (Route ''GET'' ''/api'')], [Text ''Repository summary'']],
           [[with_key (Str ''r'') (Route ''GET'' ''/api/refs'')], [Text ''Get the default ref'']],
           [[with_key (Str ''r'') (Route ''GET'' ''/api/refs/{kind}'')],
            [Text ''List '', El ''code'' [] [Text ''branches''], Text '' or '',
             El ''code'' [] [Text ''tags''], Text ''; query '', El ''code'' [] [Text ''prefix''],
             Text '', '', El ''code'' [] [Text ''q''], Text '','', Text '' '',
             El ''code'' [] [Text ''after''], Text '', '', El ''code'' [] [Text ''n'']]],
           [[with_key (Str ''r'') (Route ''GET'' ''/api/resolve'')],
            [Text ''Resolve the default ref'']],
           [[with_key (Str ''r'') (Route ''GET'' ''/api/resolve/{rest}'')],
            [Text ''Resolve a revision and optional path'']],
           [[with_key (Str ''r'') (Route ''GET'' ''/api/tree/{rest}'')], [Text ''Browse a tree'']],
           [[with_key (Str ''r'') (Route ''GET'' ''/api/blob/{rest}'')],
            [Text ''Read a blob; inline up to 2 MiB, '', El ''code'' [] [Text ''raw''],
             Text '' for '', El ''code'' [] [Text ''text/plain'']]],
           [[with_key (Str ''r'') (Route ''GET'' ''/api/commits'')], [Text ''List commits'']],
           [[with_key (Str ''r'') (Route ''GET'' ''/api/commit/{sha}'')],
            [Text ''Get commit details'']],
           [[with_key (Str ''r'') (Route ''GET'' ''/api/compare/{base}...{head}'')],
            [Text ''Compare two revisions'']],
           [[with_key (Str ''r'') (Route ''GET HEAD'' ''/api/archive/{archive_ref}'')],
            [Text ''Download an immutable repository archive'']]] None]"

definition api_writes_section :: "ui \<Rightarrow> node" where
  "api_writes_section L =
     Section L ''writes'' ''Writes'' None
       [El ''p'' []
          [Text ''Writes need the '', El ''code'' [] [Text ''write''], Text '' scope. A stale '',
           El ''code'' [] [Text ''expected_old_oid''], Text '', '',
           El ''code'' [] [Text ''expected_head_oid''], Text '' '', Text ''or '',
           El ''code'' [] [Text ''expected_base_oid''], Text '' returns 409.''],
        SpecTable L [''Route'', ''Purpose'']
          [[[with_key (Str ''r'') (Route ''PUT'' ''/api/refs/heads/{name}'')],
            [Text ''Create or move a branch; body '', El ''code'' [] [Text ''target''],
             Text '', optional '', El ''code'' [] [Text ''expected_old_oid'']]],
           [[with_key (Str ''r'') (Route ''DELETE'' ''/api/refs/heads/{name}'')],
            [Text ''Delete a branch; optional '', El ''code'' [] [Text ''?expected_old_oid='']]],
           [[with_key (Str ''r'') (Route ''PUT'' ''/api/refs/tags/{name}'')],
            [Text ''Create or move a lightweight tag'']],
           [[with_key (Str ''r'') (Route ''DELETE'' ''/api/refs/tags/{name}'')],
            [Text ''Delete a tag'']],
           [[with_key (Str ''r'') (Route ''POST'' ''/api/tags'')],
            [Text ''Create an annotated tag'']],
           [[with_key (Str ''r'') (Route ''POST'' ''/api/commits'')],
            [Text ''Commit a batch of file changes'']],
           [[with_key (Str ''r'') (Route ''POST'' ''/api/merges'')],
            [Text ''Merge one revision into a branch: '', El ''code'' [] [Text ''merge''],
             Text '', '', El ''code'' [] [Text ''squash''], Text '' or'', Text '' '',
             El ''code'' [] [Text ''fast-forward-only''], Text ''; '',
             El ''code'' [] [Text ''expected_base_oid''], Text '' required'']],
           [[with_key (Str ''r'') (Route ''POST'' ''/api/initialize'')],
            [Text ''Initialize a pristine repository from a pinned Gitcask tree'']],
           [[with_key (Str ''r'') (Route ''POST'' ''/api/import/resolve'')],
            [Text ''Pin a full-history import source'']],
           [[with_key (Str ''r'') (Route ''POST'' ''/api/import'')],
            [Text ''Import pinned complete history into a pristine repository'']],
           [[with_key (Str ''r'') (Route ''GET'' ''/api/import/receipt'')],
            [Text ''Read a committed import receipt'']]] None]"

definition api_commit_section :: "ui \<Rightarrow> node" where
  "api_commit_section L =
     Section L ''commit'' ''Commit without a clone'' None
       [El ''p'' []
          [Text
             ''One request writes blobs, trees and a commit, then moves the branch through the WAL. Replace'',
           Text '' '', El ''code'' [] [Text ''expected_head_oid''],
           Text '' with the branch's current oid; '', El ''code'' [] [Text ''content''],
           Text '' is standard base64.''], CodeBlock L api_COMMIT_REQUEST None None None,
        SpecTable L [''Field'', ''Value'']
          [[[El ''code'' [(''key'', Str ''f'')] [Text ''changes[].op'']],
            [El ''code'' [] [Text ''upsert''], Text '' ('', El ''code'' [] [Text ''path''],
             Text '', '', El ''code'' [] [Text ''content''], Text '', '',
             El ''code'' [] [Text ''mode''], Text ''), '', El ''code'' [] [Text ''delete''],
             Text '' ('', El ''code'' [] [Text ''path''], Text ''), '',
             El ''code'' [] [Text ''rename''], Text '' ('', El ''code'' [] [Text ''from''],
             Text '', '', El ''code'' [] [Text ''to''], Text '')'']],
           [[El ''code'' [(''key'', Str ''f'')] [Text ''mode'']],
            [El ''code'' [] [Text ''100644''], Text '', '', El ''code'' [] [Text ''100755''],
             Text '' or '', El ''code'' [] [Text ''120000'']]],
           [[El ''code'' [(''key'', Str ''f'')] [Text ''when'']],
            [Text ''RFC 3339 with an explicit offset or '', El ''code'' [] [Text ''Z'']]],
           [[El ''code'' [(''key'', Str ''f'')] [Text ''author'']],
            [Text ''Optional; defaults to '', El ''code'' [] [Text ''committer'']]],
           [[El ''code'' [(''key'', Str ''f'')] [Text ''expected_head_oid'']],
            [Text ''Optional; omitted means the branch is force-updated'']],
           [[El ''code'' [(''key'', Str ''f'')] [Text ''allow_empty'']],
            [Text ''Optional; defaults to '', El ''code'' [] [Text ''false'']]]] None,
        El ''p'' [] [Text ''A 201 answer names what moved.''],
        Definitions
          [([Text ''ref''],
            [Text ''The full ref name, such as '', El ''code'' [] [Text ''refs/heads/main''],
             Text ''.'']), ([Text ''oid, commit_oid''], [Text ''The new commit.'']),
           ([Text ''seq''], [Text ''The WAL sequence that published it.''])] (Some True)]"

definition api_repository_section :: "ui \<Rightarrow> node" where
  "api_repository_section L =
     Section L ''repository'' ''Repository and tasks'' None
       [El ''p'' []
          [Text ''Long work runs as a task. Send '',
           El ''code'' [] [Text ''Accept: text/event-stream''], Text '' to follow it live.''],
        SpecTable L [''Route'', ''Purpose'']
          [[[with_key (Str ''r'') (Route ''PUT'' ''/{owner}/{repo}'')],
            [Text ''Create a repository'']],
           [[with_key (Str ''r'') (Route ''DELETE'' ''/{owner}/{repo}'')],
            [Text ''Delete a repository'']],
           [[with_key (Str ''r'') (Route ''GET'' ''/api/overview'')],
            [Text ''Repository operational status'']],
           [[with_key (Str ''r'') (Route ''GET'' ''/api/ops'')],
            [Text ''List repository operations'']],
           [[with_key (Str ''r'') (Route ''POST'' ''/api/ops/{op}'')],
            [Text ''Run an operation as a task; needs write'']],
           [[with_key (Str ''r'') (Route ''GET'' ''/api/tasks'')], [Text ''List repository tasks'']],
           [[with_key (Str ''r'') (Route ''GET'' ''/api/tasks/{id}'')],
            [Text ''Get or attach to a task'']]] None]"

definition ApiPage :: "ui \<Rightarrow> bool \<Rightarrow> (js_error, node) result" where
  "ApiPage L opened =
     DocArticle L opened ''api'' ''API''
       [Text
          ''Every gitcask instance serves git, LFS and a JSON API for every repository under that repository's own path.'']
     api_SECTIONS [''README.md'', ''AGENTS.md'', ''crates/gitcask-server/src/web/api/commit.rs'']
       [api_routing_section L, api_git_section L, api_reads_section L, api_writes_section L,
        api_commit_section L, api_repository_section L]"

section \<open>EventsPage (docs/events/page.tsx)\<close>

definition events_SECTIONS :: "(string \<times> string) list" where
  "events_SECTIONS =
     [(''flow'', ''From the log, not the push''), (''event'', ''The ref event''),
      (''delivery'', ''Delivery''), (''guarantees'', ''Guarantees''),
      (''configure'', ''Run the bridge''), (''consumer'', ''Consumer checklist'')]"

definition events_REF_EVENT :: string where
  "events_REF_EVENT =
     (''{'' @ nl @ ''  \"action\": \"update\",'' @ nl @ ''  \"ref_type\": \"branch\",'' @ nl @
        ''  \"ref_name\": \"refs/heads/main\",'' @ nl @ ''  \"old\": \"48a0637'' @ u_ellipsis @
        ''\",'' @ nl @ ''  \"new\": \"cb38da1'' @ u_ellipsis @ ''\",'' @ nl @
        ''  \"pusher\": \"alice@example.com\",'' @ nl @ ''  \"correlation_id\": \"d1f916f7-'' @
        u_ellipsis @ ''\",'' @ nl @ ''  \"repo\": \"acme/monorepo\",'' @ nl @
        ''  \"_gitcask\": { \"schema_version\": 1, \"seq\": \"42\", \"entry_kind\": \"push\", \"request_id\": \"d1f916f7-''
      @ u_ellipsis @ ''\" }'' @ nl @ ''}'')"

definition events_DELIVERY_HEADERS :: string where
  "events_DELIVERY_HEADERS =
     (''Content-Type:        application/json'' @ nl @
        ''X-Gitcask-Delivery:  <sha1 hex of the body>'' @ nl @
        ''X-Gitcask-Signature: sha256=<hex HMAC-SHA256(body, events.webhook_secret)>'')"

definition events_BRIDGE_CONFIG :: string where
  "events_BRIDGE_CONFIG =
     (''[server]'' @ nl @
        ''roles = [\"events\"]            # or leave roles empty on a one-box install: every role, bridge included''
      @ nl @ ''[events]'' @ nl @ ''webhook_url = \"https://hooks.example.com/gitcask\"'' @ nl @
        ''webhook_secret = \"'' @ u_ellipsis @
        ''\"          # env: GITCASK__EVENTS__WEBHOOK_SECRET'' @ nl @ ''sweep_interval = \"5m\"'')"

definition events_flow_section :: "ui \<Rightarrow> node" where
  "events_flow_section L =
     Section L ''flow'' ''From the log, not the push'' None
       [El ''p'' []
          [Text ''No writer contains event code. A down webhook adds lag, never latency to a push.''],
        Figure
          ''A writer commits with a manifest compare-and-swap. The bridge, woken by a notification or a sweep, reads the log from its cursor, posts the events to the webhook, then advances the cursor.''
        (Some ''not-prose grid gap-3 rounded-card bg-muted p-6 md:p-8'')
          [Flow L
             [flow_step [Text ''any writer''] (Some Quiet) None,
              flow_step [Text ''CAS manifest.pb''] None (Some True),
              flow_step [Text ''POST /_events/notify''] None (Some True)] None,
           El ''div''
             [(''className'', Str ''ml-6 h-6 w-px bg-border-strong''),
              (''aria-hidden'', Str ''true'')] [],
           Flow L
             [flow_step [Text ''log (cursor, head_seq]''] None (Some True),
              flow_step [Text ''POST webhook''] None None,
              flow_step [Text ''2xx''] (Some Good) None,
              flow_step [Text ''CAS events/cursor.json''] (Some Brand) (Some True)] None],
        El ''p'' []
          [Text ''The cursor lives in the bucket at '',
           El ''code'' [] [Text ''repos/<o>/<r>/events/cursor.json''],
           Text '' and advances only after your webhook answers 2xx.'']]"

definition events_event_section :: "ui \<Rightarrow> node" where
  "events_event_section L =
     Section L ''event'' ''The ref event'' None
       [El ''p'' []
          [Text ''One event per ref update in the transaction. Only '',
           El ''code'' [] [Text ''ref''], Text '' events exist.''],
        CodeBlock L events_REF_EVENT (Some Json) None None,
        Definitions
          [([Text ''action''],
            [El ''code'' [] [Text ''create''], Text '', '', El ''code'' [] [Text ''update''],
             Text '' or '', El ''code'' [] [Text ''delete''],
             Text ''. Force is not an action; derive it.'']),
           ([Text ''ref_type''],
            [El ''code'' [] [Text ''branch''], Text '' for '',
             El ''code'' [] [Text ''refs/heads/''], Text '', '', El ''code'' [] [Text ''tag''],
             Text '' for '', El ''code'' [] [Text ''refs/tags/''], Text '','', Text '' '',
             El ''code'' [] [Text ''\"\"''], Text '' otherwise.'']),
           ([Text ''old, new''],
            [Text ''Always the full zero OID on create and delete, never '',
             El ''code'' [] [Text ''\"\"''], Text ''.'']),
           ([Text ''pusher''],
            [Text ''The opaque principal: the JWT '', El ''code'' [] [Text ''sub''],
             Text '' or the trusted forwarded principal. See'', Text '' '',
             El ''Link'' [(''href'', Str ''/docs/authentication'')] [Text ''Authentication''],
             Text ''.'']),
           ([Text ''correlation_id''],
            [Text ''The push's request id, also in '',
             El ''code'' [] [Text ''_gitcask.request_id''], Text ''. An incoming'', Text '' '',
             El ''code'' [] [Text ''x-request-id''], Text '' is honoured.'']),
           ([Text ''_gitcask.seq''], [Text ''The WAL sequence, as a JSON string.'']),
           ([Text ''_gitcask.entry_kind''],
            [El ''code'' [] [Text ''push''], Text '' or '', El ''code'' [] [Text ''ref_update''],
             Text ''; consumers must not care.''])] (Some True)]"

definition events_delivery_section :: "ui \<Rightarrow> node" where
  "events_delivery_section L =
     Section L ''delivery'' ''Delivery'' None
       [El ''p'' []
          [Text ''Each catch-up posts one JSON array of events to '',
           El ''code'' [] [Text ''events.webhook_url''], Text ''.''],
        CodeBlock L events_DELIVERY_HEADERS (Some PlainText) (Some ''Request headers'') None,
        SpecTable L [''Webhook answers'', ''Bridge does'']
          [[[Text ''2xx''], [Text ''Advances the cursor'']],
           [[Text ''Anything else, or no answer in 10 s''],
            [Text ''Keeps the cursor and retries the same range on the next wake-up'']]] None]"

definition events_guarantees_section :: "ui \<Rightarrow> node" where
  "events_guarantees_section L =
     Section L ''guarantees'' ''Guarantees'' None
       [Definitions
          [([Text ''At least once''],
            [Text ''The cursor advances only after a 2xx, so whole batches can repeat.'']),
           ([Text ''Dedup key''],
            [El ''code'' [] [Text ''(repo, _gitcask.seq, ref_name)''], Text '', or '',
             El ''code'' [] [Text ''X-Gitcask-Delivery''], Text '' per batch.'']),
           ([Text ''Order''],
            [Text ''By '', El ''code'' [] [Text ''seq''],
             Text '' within a repository. Nothing across repositories.'']),
           ([Text ''No no-ops''],
            [El ''code'' [] [Text ''old == new''],
             Text '' emits nothing; so do HEAD retargets, compactions and checkpoints.'']),
           ([Text ''Gaps''],
            [Text ''Only when the bridge lags behind log retention. Counted in '',
             El ''code'' [] [Text ''events_bridge_gap_total''], Text '', never repaired silently.''])]
        None]"

definition events_configure_section :: "ui \<Rightarrow> node" where
  "events_configure_section L =
     Section L ''configure'' ''Run the bridge'' None
       [El ''p'' []
          [Text ''Run one instance with the '', El ''code'' [] [Text ''events''], Text '' role.''],
        CodeBlock L events_BRIDGE_CONFIG (Some Toml) (Some ''gitcask.toml'') None,
        SpecTable L [''Wake-up'', ''Role'']
          [[[El ''code'' [(''key'', Str ''w'')] [Text ''POST /_events/notify'']],
            [Text ''Bucket notification for a '',
             El ''code'' [] [Text (u_ellipsis @ ''/manifest.pb'')], Text '': S3 '',
             El ''code'' [] [Text ''Records[]''], Text '','', Text '' '',
             El ''code'' [] [Text (''{\"key\": '' @ u_ellipsis @ ''}'')], Text '' or '',
             El ''code'' [] [Text ''{\"repo\": \"o/r\"}''],
             Text ''. Authenticated like every route.'']],
           [[El ''code'' [(''key'', Str ''w'')] [Text ''sweep_interval'']],
            [Text ''Backstop and health check, default '', El ''code'' [] [Text ''5m''],
             Text ''. A sweep that publishes anything raises'', Text '' '',
             El ''code'' [] [Text ''events_bridge_sweep_found_total''], Text ''.'']]] None]"

definition events_consumer_section :: "ui \<Rightarrow> node" where
  "events_consumer_section L =
     Section L ''consumer'' ''Consumer checklist'' None
       [Steps
          [Step 1 ''Verify the signature''
             [El ''p'' []
                [Text ''Check '', El ''code'' [] [Text ''X-Gitcask-Signature''],
                 Text '' with a constant-time compare before parsing, if you set a secret.'']],
           Step 2 ''Dedup''
             [El ''p'' []
                [Text ''On '', El ''code'' [] [Text ''(repo, _gitcask.seq, ref_name)''],
                 Text '', or on '', El ''code'' [] [Text ''X-Gitcask-Delivery''],
                 Text '' per batch.'']],
           Step 3 ''Order within a repository''
             [El ''p'' []
                [Text ''Sort by '', El ''code'' [] [Text ''_gitcask.seq''],
                 Text ''. Do not assume order across repositories.'']],
           Step 4 ''Backfill on a gap''
             [El ''p'' [] [Text ''Read the missed entries from the WAL.''],
              CodeBlock L ''gitcask wal ls <repo> --from <seq>'' None None None]]]"

definition EventsPage :: "ui \<Rightarrow> bool \<Rightarrow> (js_error, node) result" where
  "EventsPage L opened =
     DocArticle L opened ''events'' ''Events''
       [Text
          ''One small bridge reads each repository's WAL and posts every committed ref change to your webhook.'']
     events_SECTIONS [''docs/EVENTS.md'', ''AGENTS.md'']
       [events_flow_section L, events_event_section L, events_delivery_section L,
        events_guarantees_section L, events_configure_section L, events_consumer_section L]"

section \<open>InitializeImportPage (docs/initialize-import/page.tsx)\<close>

definition initialize_import_SECTIONS :: "(string \<times> string) list" where
  "initialize_import_SECTIONS =
     [(''which'', ''Which one''), (''initialize'', ''Initialize from a pinned tree''),
      (''import'', ''Import a full history''), (''endpoints'', ''Endpoints and retries''),
      (''boundaries'', ''Boundaries and bounds''), (''errors'', ''Errors'')]"

definition initialize_import_INITIALIZE_REQUEST :: string where
  "initialize_import_INITIALIZE_REQUEST =
     (''{'' @ nl @
        ''  \"source\": {\"owner\": \"templates\", \"repo\": \"starter\", \"commit_oid\": \"0123456789012345678901234567890123456789\"},''
      @ nl @ ''  \"branch\": \"main\",'' @ nl @ ''  \"operation_key\": \"project-creation-7\",'' @
        nl @ ''  \"message\": \"Initial project\",'' @ nl @
        ''  \"committer\": {\"name\": \"Project Builder\", \"email\": \"builder@example.test\", \"when\": \"2026-09-28T00:00:00Z\"}''
      @ nl @ ''}'')"

definition initialize_import_INITIALIZE_RESPONSE :: string where
  "initialize_import_INITIALIZE_RESPONSE =
     ''{\"ref\":\"refs/heads/main\",\"commit_oid\":\"<new root oid>\",\"tree_oid\":\"<source tree oid>\",\"seq\":1,\"replayed\":false}''"

definition initialize_import_RESOLVE_REQUEST :: string where
  "initialize_import_RESOLVE_REQUEST =
     ''{\"source\":\"templates/starter\"}''"

definition initialize_import_RESOLVE_RESPONSE :: string where
  "initialize_import_RESOLVE_RESPONSE =
     ''{\"source\":\"templates/starter\",\"object_format\":\"sha1\",\"refs\":[{\"name\":\"refs/heads/develop\",\"oid\":\"<full lower-case oid>\",\"peeled\":\"\"}],\"head\":{\"symbolic_target\":\"refs/heads/develop\",\"oid\":\"<full lower-case oid>\"},\"snapshot_hash\":\"<sha256>\"}''"

definition initialize_import_IMPORT_REQUEST :: string where
  "initialize_import_IMPORT_REQUEST =
     ''{\"operation_key\":\"creation-123\",\"snapshot\":{\"source\":\"templates/starter\",\"object_format\":\"sha1\",\"refs\":[{\"name\":\"refs/heads/develop\",\"oid\":\"<full lower-case oid>\",\"peeled\":\"\"}],\"head\":{\"symbolic_target\":\"refs/heads/develop\",\"oid\":\"<full lower-case oid>\"},\"snapshot_hash\":\"<sha256>\"}}''"

definition initialize_import_IMPORT_RESPONSE :: string where
  "initialize_import_IMPORT_RESPONSE =
     ''{\"operation_key\":\"creation-123\",\"request_hash\":\"<sha256>\",\"snapshot_hash\":\"<sha256>\",\"seq\":1,\"refs_count\":1,\"head\":{\"symbolic_target\":\"refs/heads/develop\",\"oid\":\"<original oid>\"},\"replayed\":false}''"

definition initialize_import_which_section :: "ui \<Rightarrow> node" where
  "initialize_import_which_section L =
     Section L ''which'' ''Which one'' None
       [El ''p'' []
          [Text
             ''Both write into an existing, pristine destination and copy every object into its own packs.''],
        SpecTable L ['''', ''Initialize'', ''Import'']
          [[[Text ''Creates''],
            [Text ''One new parentless commit on one branch, with HEAD pointing at it''],
            [Text
               ''Every head and tag, and HEAD (symbolic or detached), with their full reachable history'']],
           [[Text ''Source''], [Text ''A full commit OID in another gitcask repository''],
            [Text ''A gitcask repository, or a public HTTPS Git URL'']],
           [[Text ''History''], [Text ''None: only the source tree is copied''],
            [Text ''All of it, unchanged'']],
           [[Text ''Commit content''],
            [Text ''Message, author and committer supplied by the caller''],
            [Text ''The source objects as they are'']]] None]"

definition initialize_import_initialize_section :: "ui \<Rightarrow> node" where
  "initialize_import_initialize_section L =
     Section L ''initialize'' ''Initialize from a pinned tree'' None
       [El ''p'' []
          [Text
             ''The caller pins a full commit OID, not a branch. Its tree is uploaded into the destination's'',
           Text '' '', El ''code'' [] [Text ''wal/''],
           Text '' before the manifest CAS publishes the new commit.''],
        Figure
          ''Pinned source commit, then its tree closure uploaded to the destination wal, then the manifest compare-and-swap, then 201.''
        (Some ''not-prose rounded-card bg-muted p-6 md:p-8'')
          [Flow L
             [flow_step [Text ''pinned commit_oid''] (Some Quiet) (Some True),
              flow_step [Text ''upload tree closure to wal/''] None None,
              flow_step [Text ''CAS manifest.pb''] (Some Brand) (Some True),
              flow_step [Text ''201''] (Some Good) None] None],
        CodeBlock L initialize_import_INITIALIZE_REQUEST (Some Json)
          (Some ''POST /{owner}/{repo}/api/initialize'') None,
        CodeBlock L initialize_import_INITIALIZE_RESPONSE (Some Json) (Some ''201 Created'') None]"

definition initialize_import_import_section :: "ui \<Rightarrow> node" where
  "initialize_import_import_section L =
     Section L ''import'' ''Import a full history'' None
       [El ''p'' []
          [Text
             ''Resolve pins the source refs into a snapshot. Your platform persists it, then imports exactly that snapshot.''],
        Figure
          ''Resolve, then the platform persists the snapshot, then import, then the manifest compare-and-swap, then 201.''
        (Some ''not-prose rounded-card bg-muted p-6 md:p-8'')
          [Flow L
             [flow_step [Text ''POST api/import/resolve''] None (Some True),
              flow_step [Text ''persist the snapshot''] (Some Quiet) None,
              flow_step [Text ''POST api/import''] None (Some True),
              flow_step [Text ''CAS manifest.pb''] (Some Brand) (Some True),
              flow_step [Text ''201''] (Some Good) None] None],
        SubSection ''Resolve''
          [CodeBlock L initialize_import_RESOLVE_REQUEST (Some Json)
             (Some ''POST /{owner}/{repo}/api/import/resolve'') None,
           CodeBlock L initialize_import_RESOLVE_RESPONSE (Some Json) (Some ''200 OK'') None],
        SubSection ''Import''
          [CodeBlock L initialize_import_IMPORT_REQUEST (Some Json)
             (Some ''POST /{owner}/{repo}/api/import'') None,
           CodeBlock L initialize_import_IMPORT_RESPONSE (Some Json) (Some ''201 Created'') None]]"

definition initialize_import_endpoints_section :: "ui \<Rightarrow> node" where
  "initialize_import_endpoints_section L =
     Section L ''endpoints'' ''Endpoints and retries'' None
       [El ''p'' []
          [Text
             ''Repeat the identical request to retry. An exact replay returns the original result with'',
           Text '' '', El ''code'' [] [Text ''replayed:true''],
           Text '' and never opens the source or moves a ref.''],
        SpecTable L [''Endpoint'', ''Body limit'', ''Answers'']
          [[[El ''code'' [(''key'', Str ''p'')]
               [Text ''POST /'', Text ''{owner}'', Text ''/'', Text ''{repo}'',
                Text ''/api/initialize'']], [Text ''64 KiB''],
            [Text ''201 first, 200 exact replay'']],
           [[El ''code'' [(''key'', Str ''p'')]
               [Text ''POST /'', Text ''{owner}'', Text ''/'', Text ''{repo}'',
                Text ''/api/import/resolve'']], [Text ''4 KiB''],
            [Text ''200 snapshot; resolve again if lost before persisting'']],
           [[El ''code'' [(''key'', Str ''p'')]
               [Text ''POST /'', Text ''{owner}'', Text ''/'', Text ''{repo}'',
                Text ''/api/import'']], [Text ''1 MiB''], [Text ''201 first, 200 exact replay'']],
           [[El ''code'' [(''key'', Str ''p'')]
               [Text ''GET /'', Text ''{owner}'', Text ''/'', Text ''{repo}'',
                Text (''/api/import/receipt?operation_key='' @ u_ellipsis @ ''&request_hash='' @
                        u_ellipsis)]], [Text ''No body''],
            [Text ''200 with replayed:true, 404 absent, 409 key or hash mismatch'']]] None,
        Definitions
          [([El ''code'' [] [Text ''operation_key'']],
            [Text (''1'' @ u_ndash @ ''128 printable ASCII characters without whitespace.'')]),
           ([Text ''Receipt''],
            [Text
               ''One bounded receipt, committed in the same manifest CAS, records the operation key, the request fingerprint and the original result.'']),
           ([Text ''Permissions''],
            [Text
               ''Every attempt, replays included, needs destination write and source read. The receipt GET needs only target read.'']),
           ([Text ''Pristine''],
            [Text
               ''No committed WAL work, packs, checkpoint or receipt. A repository whose refs were all deleted is not pristine.'']),
           ([Text ''Streaming''],
            [Text
               ''With Accept: text/event-stream, work streams as a task with progress; the HTTP status is 200 and the terminal packet carries the result or error.''])]
        None,
        Callout L (Some Warning) ''Upgrade every manifest writer first''
          [El ''p'' []
             [Text ''The receipt lives in '', El ''code'' [] [Text ''manifest.pb''],
              Text
                ''. Older binaries, maintainers included, drop unknown fields when they rewrite it.'']]]"

definition initialize_import_boundaries_section :: "ui \<Rightarrow> node" where
  "initialize_import_boundaries_section L =
     Section L ''boundaries'' ''Boundaries and bounds'' None
       [Definitions
          [([Text ''Object format''],
            [Text
               ''SHA-1 and SHA-256 between gitcask repositories; source and target must match (400 otherwise).'']),
           ([Text ''Git LFS''],
            [Text
               ''Any recognized LFS pointer is rejected with 422 before publication. Import checks every historical small blob, not only the tip.'']),
           ([Text ''Gitlinks''],
            [Text ''Copied unchanged; submodules are never fetched or recursed.'']),
           ([Text ''External import''],
            [Text
               ''Public HTTPS on port 443, SHA-1 only, no credentials, query or fragment. DNS is pinned to public addresses and every redirect is refused.''])]
        None,
        SpecTable L [''[import] key'', ''Default'', ''Bounds'']
          [[[El ''code'' [(''key'', Str ''k'')] [Text ''max_refs'']],
            [El ''code'' [(''key'', Str ''v'')] [Text ''1024'']],
            [Text ''Heads and tags per snapshot'']],
           [[El ''code'' [(''key'', Str ''k'')] [Text ''max_objects'']],
            [El ''code'' [(''key'', Str ''v'')] [Text ''1000000'']],
            [Text ''Acquired historical objects'']],
           [[El ''code'' [(''key'', Str ''k'')] [Text ''max_bytes'']],
            [El ''code'' [(''key'', Str ''v'')] [Text ''\"1 GiB\"'']],
            [Text ''External response bytes and output pack; also server.max_push_bytes'']],
           [[El ''code'' [(''key'', Str ''k'')] [Text ''resolve_timeout'']],
            [El ''code'' [(''key'', Str ''v'')] [Text ''\"30s\"'']],
            [Text ''Refs and HEAD acquisition'']],
           [[El ''code'' [(''key'', Str ''k'')] [Text ''timeout'']],
            [El ''code'' [(''key'', Str ''v'')] [Text ''\"15m\"'']],
            [Text ''Bulk acquisition and validation, before the CAS'']]] None]"

definition initialize_import_errors_section :: "ui \<Rightarrow> node" where
  "initialize_import_errors_section L =
     Section L ''errors'' ''Errors'' None
       [El ''p'' []
          [Text ''Non-503 errors are plain text. A 503 is retryable JSON with '',
           El ''code'' [] [Text ''Retry-After''], Text '': retry the identical request.''],
        SubSection ''Initialize''
          [SpecTable L [''Status'', ''Meaning'']
             [[[Text ''400''],
               [Text
                  ''Invalid request/identity/branch/full commit ID, non-commit source object, or different object formats'']],
              [[Text ''401''], [Text ''Missing or invalid credentials'']],
              [[Text ''403''], [Text ''Write denied by the existing forwarded-identity contract'']],
              [[Text ''404''],
               [Text ''Missing or unauthorized repository, or unavailable pinned source commit'']],
              [[Text ''409''],
               [Text
                  ''Destination is not pristine, or a committed initializer has a different operation key or fingerprint'']],
              [[Text ''413''],
               [Text ''Request body or configured '',
                El ''code'' [] [Text ''server.max_push_bytes''], Text '' pack limit exceeded'']],
              [[Text ''422''],
               [Text
                  ''Source tree contains a Git LFS pointer; this operation does not copy LFS payloads'']],
              [[Text ''503''],
               [Text
                  ''Temporary object-store/authentication-service failure; retry the identical request'']]]
           None],
        SubSection ''Import''
          [SpecTable L [''Status'', ''Meaning'']
             [[[Text ''400''],
               [Text ''Invalid snapshot/hash/format/source URL or unsafe DNS result'']],
              [[Text ''401 / 403 / 404''],
               [Text ''Existing auth/permission/missing-repository contract'']],
              [[Text ''409''],
               [Text ''Nonpristine, operation conflict, or pinned source unavailable'']],
              [[Text ''413''],
               [Text ''JSON, refs, transfer, output pack or object bound exceeded'']],
              [[Text ''422''],
               [Text
                  ''Empty/unborn source, LFS pointer history, or source requiring auth/redirect/dumb HTTP'']],
              [[Text ''503''],
               [Text
                  ''Resolve busy, deadline, source DNS/transport, store/auth failure or drain; retry fixed request'']]]
           None]]"

definition InitializeImportPage :: "ui \<Rightarrow> bool \<Rightarrow> (js_error, node) result" where
  "InitializeImportPage L opened =
     DocArticle L opened ''initialize-import'' ''Initialize and import''
       [Text
          ''Start a pristine repository from one pinned tree, or from another repository's full history, committed by the same manifest compare-and-swap as a push.'']
     initialize_import_SECTIONS [''docs/INITIALIZE.md'', ''docs/IMPORT.md'', ''AGENTS.md'']
       [initialize_import_which_section L, initialize_import_initialize_section L,
        initialize_import_import_section L, initialize_import_endpoints_section L,
        initialize_import_boundaries_section L, initialize_import_errors_section L]"

end
