(* ===== verification/Pages_Operate.thy ===== *)
theory Pages_Operate
  imports Site_Docs
begin

text \<open>
  The pages of the group \<open>Operate\<close> of the documentation (\<^verbatim>\<open>site/src/app/docs\<close>): operations and the migration from Gitea.
  A page is its list of sections for the outline, its constants, one definition per section it
  renders, and the article that composes them.
\<close>

section \<open>OperationsPage (docs/operations/page.tsx)\<close>

definition operations_SECTIONS :: "(string \<times> string) list" where
  "operations_SECTIONS =
     [(''run'', ''Run it''), (''first-look'', ''First look''),
      (''metrics'', ''Metrics and alerts''), (''symptoms'', ''From symptom to cause''),
      (''capacity'', ''Capacity''), (''recovery'', ''Deploys and recovery'')]"

definition operations_DOCKER_RUN :: string where
  "operations_DOCKER_RUN =
     (''docker pull ghcr.io/burrr-ai/gitcask:0.0.7'' @ nl @ ''docker run --rm -p 8080:8080 '' @
        bslash @ nl @ ''  -e AWS_ACCESS_KEY_ID -e AWS_SECRET_ACCESS_KEY '' @ bslash @ nl @
        ''  -v \"$PWD/gitcask.toml:/etc/gitcask/gitcask.toml:ro\" '' @ bslash @ nl @
        ''  ghcr.io/burrr-ai/gitcask:0.0.7'')"

definition operations_STORE_TOML :: string where
  "operations_STORE_TOML =
     (''[store]'' @ nl @ ''bucket = \"your-bucket\"'' @ nl @ nl @ ''[store.s3]'' @ nl @
        ''credentials = \"default\"'' @ nl @ ''region = \"us-east-1\"'' @ nl @
        ''endpoint = \"\"                 # use AWS S3 rather than the local rustfs default'' @ nl @
      ''force_path_style = false'')"

definition operations_FIRST_LOOK :: string where
  "operations_FIRST_LOOK =
     (''curl -si \"$BASE/healthz\"'' @ nl @ ''curl -si \"$BASE/readyz\"'' @ nl @
        ''curl -s \"$BASE/metrics\"'' @ nl @ nl @ ''gitcask --config gitcask.toml wal pending'' @ nl
      @ ''gitcask --config gitcask.toml repo info owner/repo'' @ nl @
        ''curl -s \"$BASE/owner/repo/api/overview\"'' @ nl @
        ''curl -s \"$BASE/owner/repo/api/tasks\"'')"

definition operations_REWIND :: string where
  "operations_REWIND =
     (''gitcask --config gitcask.toml wal ls owner/repo'' @ nl @
        ''gitcask --config gitcask.toml wal show owner/repo 42'' @ nl @
        ''gitcask --config gitcask.toml wal materialize owner/repo --at-seq 41 --out /tmp/repo-restore''
      @ nl @ ''git -C /tmp/repo-restore fsck --full'' @ nl @
        ''git -C /tmp/repo-restore push --force \"$REPO_URL\" '' @ bslash @ nl @
        ''  <old_oid>:refs/heads/<branch>'')"

definition metric :: "string \<Rightarrow> node" where
  "metric name = El ''code'' [(''key'', Str name)] [Text name]"

definition operations_run_section :: "ui \<Rightarrow> node" where
  "operations_run_section L =
     Section L ''run'' ''Run it'' None
       [El ''p'' []
          [Text
             ''Images are published for linux/amd64 and linux/arm64. Pin the patch tag; there is no latest tag.''],
        CodeBlock L operations_DOCKER_RUN None None None,
        El ''p'' []
          [Text ''S3 keys are read from the environment at startup by default. Set '',
           El ''code'' [] [Text ''credentials = \"default\"''], Text '' '',
           Text
             ''to use the refreshing AWS SDK chain: environment, profile, ECS task role, then instance metadata.''],
        CodeBlock L operations_STORE_TOML (Some Toml) (Some ''gitcask.toml'') None,
        Definitions
          [([Text ''serve''], [Text ''Git, the JSON API and LFS.'']),
           ([Text ''maintain''],
            [Text ''Checkpoints, compaction and fsck, driven by pending markers.'']),
           ([Text ''events''], [Text ''The webhook bridge.'']),
           ([Text ''roles = []''], [Text ''All three. Any number of hosts can share one bucket.''])]
        (Some True),
        Callout L None ''The cache is disposable''
          [El ''p'' []
             [Text ''The image keeps its cache at '', El ''code'' [] [Text ''/var/lib/gitcask''],
              Text
                '' and runs as UID 1000; a mounted cache directory must be writable by that user. Never restore it from backup.'']]]"

definition operations_first_look_section :: "ui \<Rightarrow> node" where
  "operations_first_look_section L =
     Section L ''first-look'' ''First look'' None
       [El ''p'' []
          [El ''code'' [] [Text ''/healthz''], Text '' and '', El ''code'' [] [Text ''/readyz''],
           Text '' never touch S3. A 200 does not mean the bucket is fine.''],
        CodeBlock L operations_FIRST_LOOK None None None,
        Definitions
          [([Text ''wal pending''],
            [Text ''LISTs pending/. A manual check, never on a request path.'']),
           ([Text ''repo info''],
            [Text ''Runs a full sync and pulls packs local. Read api/overview first.'']),
           ([Text ''api/tasks''],
            [Text ''Per instance. Keep its hostname with the log request_id.''])] (Some True)]"

definition operations_metrics_section :: "ui \<Rightarrow> node" where
  "operations_metrics_section L =
     Section L ''metrics'' ''Metrics and alerts'' None
       [El ''p'' []
          [Text
             ''Starting points; tune durations to your baseline. Sum counters across instances of a role.''],
        SpecTable L [''Metric'', ''Normal'', ''Alert on'']
          [[[metric ''gitcask_push_refused_total{reason}''], [Text ''Flat outside deploys''],
            [Text
               ''One connectivity or unpack immediately; body only as a sustained rate; one draining outside a deploy window'']],
           [[metric ''gitcask_store_requests_total{op,outcome}''],
            [Text ''ok, ordinary not_found / precondition_failed''],
            [Text ''One retryable_error or error immediately'']],
           [[metric ''gitcask_store_retries_total{op}''], [Text ''Usually flat''],
            [Text ''Still climbing after 5 minutes'']],
           [[metric ''gitcask_publish_local_apply_failed_total''], [Text ''0''],
            [Text ''Any increase'']],
           [[metric ''gitcask_pending_marker_put_failures_total''], [Text ''0''],
            [Text ''Any increase; check that repository by hand'']],
           [[metric ''gitcask_pending_markers''], [Text ''0 when idle''],
            [Text ''> 0 for two whole maintenance intervals; page if pinned at the page limit'']],
           [[metric ''gitcask_maintainer_heartbeat_timestamp{host}''],
            [Text ''Within two intervals of now''],
            [El ''code'' [(''key'', Str ''e'')]
               [Text ''time() - value > max(2 * maintenance.interval, 5m)'']]],
           [[metric ''events_bridge_lag_entries{repo}''], [Text ''0 after catch-up''],
            [Text ''> 0 for longer than '', El ''code'' [] [Text ''events.sweep_interval'']]],
           [[metric ''gitcask_cache_disk_used_fraction''],
            [Text ''Below '', El ''code'' [] [Text ''cache.disk_high_watermark'']],
            [Text (''Above the watermark for '' @ u_ge @ '' 2 '' @ u_times @ '' ''),
             El ''code'' [] [Text ''cache.evict_interval'']]],
           [[metric ''gitcask_runtime_stall_total''], [Text ''Flat''],
            [Text ''Any increase; urgent when the log line shows inflight > 0'']],
           [[metric ''gitcask_repo_missing_objects{repo}''], [Text ''0''],
            [Text ''> 0 is a data-integrity incident, immediately'']]] None,
        Callout L None ''No latency metrics''
          [El ''p'' []
             [Text
                ''There is no store-latency or HTTP-duration metric. Derive percentiles from JSON logs:'',
              Text '' '',
              El ''code'' [] [Text ''span.name = store.get|store.head|store.put|store.delete''],
              Text '' with '', El ''code'' [] [Text ''elapsed_ms''], Text ''.'']]]"

definition operations_symptoms_section :: "ui \<Rightarrow> node" where
  "operations_symptoms_section L =
     Section L ''symptoms'' ''From symptom to cause'' None
       [SpecTable L [''Symptom'', ''Look at first'']
          [[[Text ''Clone or push is slow''],
            [Text ''Band-2 '', El ''code'' [] [Text ''local copy is missing packs''], Text '' / '',
             El ''code'' [] [Text ''local copy ready''], Text '', then'', Text '' '',
             El ''code'' [] [Text ''wal.materialize''], Text '', '',
             El ''code'' [] [Text ''wal.download_pack''], Text '' and the push's'', Text '' '',
             El ''code'' [] [Text ''receive.body''], Text '' span'']],
           [[Text ''A push gets 503''],
            [El ''code'' [] [Text ''/readyz''],
             Text '' first: 503 is drain. Otherwise store retries and'', Text '' '',
             El ''code'' [] [Text ''{\"error\":\"store_unavailable\",\"retryable\":true}'']]],
           [[Text ''A pushed ref is missing on another instance''],
            [Text ''Same bucket and prefix, '',
             El ''code'' [] [Text ''wal.freshness_ttl = \"0s\"''],
             Text ''. If both hold, it is a bug: keep the evidence'']],
           [[Text ''The disk is full''],
            [El ''code'' [] [Text ''df -h''], Text '' on '', El ''code'' [] [Text ''cache.dir''],
             Text '', the watermark, and pack-using work in'', Text '' '',
             El ''code'' [] [Text ''api/tasks'']]],
           [[Text ''Webhooks are not arriving''],
            [El ''code'' [] [Text ''events_bridge_lag_entries''], Text '', then '',
             El ''code'' [] [Text ''events_bridge_gap_total''], Text '' and'', Text '' '',
             El ''code'' [] [Text ''events_bridge_sweep_found_total'']]],
           [[Text ''A fresh instance is slow''],
            [Text ''One materialize task, then fast requests, is a normal cold cache'']]] None,
        El ''p'' []
          [Text ''Each symptom has a step-by-step check in '',
           El ''a'' [(''href'', Str (sourceUrl ''docs/OPERATIONS.md''))]
             [Text ''docs/OPERATIONS.md''], Text ''.'']]"

definition operations_capacity_section :: "ui \<Rightarrow> node" where
  "operations_capacity_section L =
     Section L ''capacity'' ''Capacity'' None
       [El ''p'' []
          [Text
             ''The default size is 2 vCPU. Scale by adding instances of the same role, not by raising worker counts.''],
        SpecTable L [''Signal'', ''Action'']
          [[[Text ''Store, disk and locks healthy; latency and '',
             El ''code'' [] [Text ''gitcask_http_inflight''], Text '' high on several instances''],
            [Text ''Add serving instances'']],
           [[El ''code'' [] [Text ''gitcask_pending_markers''],
             Text '' does not converge and every maintainer's workers stay busy''],
            [Text ''Add maintainers'']],
           [[Text ''Store retries and '', El ''code'' [] [Text ''store.*''], Text '' '',
             El ''code'' [] [Text ''elapsed_ms''], Text '' worsen as instances are added''],
            [Text ''Investigate the store; more serving multiplies S3 requests'']]] None,
        Callout L None ''Disk floor''
          [El ''p'' []
             [Text
                ''The full live pack set of your largest repository plus its working scratch must fit on one instance, below'',
              Text '' '', El ''code'' [] [Text ''cache.disk_high_watermark''], Text ''.'']]]"

definition operations_recovery_section :: "ui \<Rightarrow> node" where
  "operations_recovery_section L =
     Section L ''recovery'' ''Deploys and recovery'' None
       [SubSection ''Draining''
          [El ''p'' []
             [Text
                ''SIGTERM drains in two phases. Route deploys on /readyz; /healthz stays 200 while the process lives.''],
           SpecTable L [''Phase'', ''/readyz'', ''What changes'', ''Bound'']
             [[[Text ''1. Maintenance drain''], [Text ''200''],
               [Text ''No new maintenance unit; the running unit is interrupted. Serving is normal''],
               [Text ''30 s'']],
              [[Text ''2. Serving drain''],
               [Text ''503 + '', El ''code'' [] [Text ''Retry-After: 15'']],
               [Text ''New fetch, push and LFS object work refused; in-flight requests finish''],
               [El ''code'' [] [Text ''server.drain_timeout''], Text '' ('',
                El ''code'' [] [Text ''\"20s\"''], Text ''), then 2 s more for the load balancer'']]]
           None],
        SubSection ''Incidents''
          [SpecTable L [''Incident'', ''Do'']
             [[[Text ''S3 outage''],
               [Text
                  ''Reduce write load and restore S3. Verify with a real refs read, then a small push read back from another instance'']],
              [[Text ''All instances lost''],
               [Text ''Start new instances with the same config and bucket: '',
                El ''code'' [] [Text ''gitcask-server --config gitcask.toml'']]],
              [[Text ''Bucket corruption or deletion''],
               [Text
                  ''Stop writes and restore the original keys from S3 versions or replicas. Never hand-craft a manifest'']],
              [[Text ''A force push moved a ref''],
               [Text ''Do not roll the bucket back; push the old OID as a new ref update'']]] None],
        SubSection ''Rewind a ref'' [CodeBlock L operations_REWIND None None None]]"

definition OperationsPage :: "ui \<Rightarrow> bool \<Rightarrow> (js_error, node) result" where
  "OperationsPage L opened =
     DocArticle L opened ''operations'' ''Operations''
       [Text
          ''Run the published image against your bucket, watch a handful of metrics, and recover by starting new instances.'']
     operations_SECTIONS
       [''docs/OPERATIONS.md'', ''README.md'', ''gitcask.example.toml'', ''AGENTS.md'']
       [operations_run_section L, operations_first_look_section L, operations_metrics_section L,
        operations_symptoms_section L, operations_capacity_section L, operations_recovery_section L]"

section \<open>MigrationPage (docs/migration/page.tsx)\<close>

definition migration_SECTIONS :: "(string \<times> string) list" where
  "migration_SECTIONS =
     [(''what-moves'', ''What moves''), (''prerequisites'', ''Prerequisites''),
      (''procedure'', ''Procedure''), (''limitations'', ''What is not migrated'')]"

definition migration_PREVIEW :: string where
  "migration_PREVIEW =
     (''export GITEA_TOKEN='<token>'' @ [CHR 0x27] @ nl @
        ''gitcask --config gitcask.toml migrate gitea '' @ bslash @ nl @
        ''  --url https://git.example.com '' @ bslash @ nl @ ''  --owner acme '' @ bslash @ nl @
        ''  --to-owner acme '' @ bslash @ nl @ ''  --dry-run'')"

definition migration_PREVIEW_SELECTED :: string where
  "migration_PREVIEW_SELECTED =
     (''gitcask --config gitcask.toml migrate gitea '' @ bslash @ nl @
        ''  --url https://git.example.com '' @ bslash @ nl @ ''  --owner acme '' @ bslash @ nl @
        ''  --repo api --repo web '' @ bslash @ nl @ ''  --dry-run'')"

definition migration_RUN :: string where
  "migration_RUN =
     (''gitcask --config gitcask.toml migrate gitea '' @ bslash @ nl @
        ''  --url https://git.example.com '' @ bslash @ nl @ ''  --owner acme '' @ bslash @ nl @
        ''  --to-owner imported-acme '' @ bslash @ nl @ ''  --concurrency 2 '' @ bslash @ nl @
        ''  --state /var/lib/gitcask-migration/acme.json'')"

definition migration_VERIFY :: string where
  "migration_VERIFY =
     (''git clone --mirror https://git.example.com/acme/api.git gitea-api.git'' @ nl @
        ''git clone --mirror https://gitcask.example.com/imported-acme/api.git gitcask-api.git'' @
        nl @ nl @ ''git -C gitea-api.git show-ref | sort > /tmp/gitea-api.refs'' @ nl @
        ''git -C gitcask-api.git show-ref | sort > /tmp/gitcask-api.refs'' @ nl @
        ''diff -u /tmp/gitea-api.refs /tmp/gitcask-api.refs'' @ nl @ nl @
        ''git -C gitea-api.git rev-list --all --count'' @ nl @
        ''git -C gitcask-api.git rev-list --all --count'' @ nl @
        ''git -C gitcask-api.git fsck --full'')"

definition migration_what_moves_section :: "ui \<Rightarrow> node" where
  "migration_what_moves_section L =
     Section L ''what-moves'' ''What moves'' None
       [El ''p'' []
          [Text ''The migrator writes straight to the bucket through the same WAL import path as '',
           El ''code'' [] [Text ''gitcask import''],
           Text ''. No gitcask server needs to be running.''],
        Figure
          ''Gitea, then a mirror clone on the migration host, then the WAL import into the bucket, then LFS objects.''
        (Some ''not-prose rounded-card bg-muted p-6 md:p-8'')
          [Flow L
             [flow_step [Text ''Gitea''] (Some Quiet) None,
              flow_step [Text ''mirror clone''] None None,
              flow_step [Text ''WAL import into the bucket''] (Some Brand) None,
              flow_step [Text ''LFS objects''] None None,
              flow_step [Text ''recorded complete''] (Some Good) None] None]]"

definition migration_prerequisites_section :: "ui \<Rightarrow> node" where
  "migration_prerequisites_section L =
     Section L ''prerequisites'' ''Prerequisites'' None
       [Definitions
          [([Text ''Gitea token''],
            [El ''code'' [] [Text ''read:repository''], Text '' and '',
             El ''code'' [] [Text ''read:user''], Text '', plus '',
             El ''code'' [] [Text ''read:organization''],
             Text '' for an organization owner. Test it against private repositories first.'']),
           ([Text ''Tools''],
            [El ''code'' [] [Text ''git''], Text '' on '', El ''code'' [] [Text ''PATH''],
             Text '', and '', El ''code'' [] [Text ''git-lfs''],
             Text '' when any source repository uses LFS.'']),
           ([Text ''gitcask config''],
            [Text ''A config file with access to the destination S3 bucket.'']),
           ([Text ''Disk''],
            [Text
               ''Room for about the largest repositories processed at once: each worker holds one mirror clone plus its pack cache. Default concurrency is 2.'']),
           ([Text ''Network and state''],
            [Text ''Access to both Gitea and S3, and durable local storage for the state file.''])]
          None]"

definition migration_procedure_section :: "ui \<Rightarrow> node" where
  "migration_procedure_section L =
     Section L ''procedure'' ''Procedure'' None
       [Steps
          [Step 1 ''Preview''
             [El ''p'' []
                [Text
                   ''Lists destination names and Gitea-reported sizes. Nothing is cloned or written.''],
              CodeBlock L migration_PREVIEW None None None,
              El ''p'' []
                [Text ''Repeat '', El ''code'' [] [Text ''--repo''],
                 Text '' to select repositories.''],
              CodeBlock L migration_PREVIEW_SELECTED None None None],
           Step 2 ''Run''
             [El ''p'' []
                [Text ''Without '', El ''code'' [] [Text ''--to-owner''],
                 Text '', the destination owner is the Gitea owner. Without '',
                 El ''code'' [] [Text ''--state''], Text '', the state file is '',
                 El ''code'' [] [Text ''./gitcask-migrate-state.json''],
                 Text
                   ''. One failed repository does not stop the others; any failure exits nonzero with a list of reasons.''],
              CodeBlock L migration_RUN None None None],
           Step 3 ''Resume''
             [El ''p'' []
                [Text
                   ''Run the exact same command with the same state path. Completed repositories are skipped; do not edit the state file by hand.'']],
           Step 4 ''Verify''
             [El ''p'' []
                [Text ''Keep Gitea read-only. The '', El ''code'' [] [Text ''show-ref''],
                 Text '' diff must be empty and the commit counts must match.''],
              CodeBlock L migration_VERIFY None None None],
           Step 5 ''Cut over''
             [El ''p'' []
                [Text
                   ''Change client or platform routing only after verification. To roll back, route clients back to Gitea; no reverse conversion is needed.'']]],
        Callout L None ''An existing destination is never overwritten''
          [El ''p'' []
             [Text ''Rerunning without the state file is safe. Use a new '',
              El ''code'' [] [Text ''--to-owner''],
              Text '' if unrelated repositories already hold the target names.'']]]"

definition migration_limitations_section :: "ui \<Rightarrow> node" where
  "migration_limitations_section L =
     Section L ''limitations'' ''What is not migrated'' None
       [Definitions
          [([Text ''Platform data''],
            [Text
               ''Issues, pull requests, reviews, releases, packages, wiki, Actions, users, teams, permissions, hooks and repository settings.'']),
           ([Text ''Other refs''],
            [Text ''Only '', El ''code'' [] [Text ''refs/heads/*''], Text '', '',
             El ''code'' [] [Text ''refs/tags/*''], Text '' and the symbolic '',
             El ''code'' [] [Text ''HEAD''],
             Text '' target. Pull-request refs, notes and remote-tracking refs stay behind.'']),
           ([Text ''Large LFS objects''],
            [Text ''An object above '', El ''code'' [] [Text ''lfs.max_object_bytes''],
             Text '' fails that repository.'']),
           ([Text ''Names''],
            [Text (''Must satisfy gitcask'' @ u_rsquo @ ''s ASCII naming rules; no rewriting.'')]),
           ([Text ''SSH''], [Text ''Only the Gitea HTTP clone URL is used.'']),
           ([Text ''Submodules''],
            [Text ''Copied as Git content; referenced repositories and URLs are not migrated.'']),
           ([Text ''One migrator''],
            [Text ''Never run two migrators with the same state file or overlapping destinations.''])]
        None]"

definition MigrationPage :: "ui \<Rightarrow> bool \<Rightarrow> (js_error, node) result" where
  "MigrationPage L opened =
     DocArticle L opened ''migration'' ''Migrating from Gitea''
       [Text
          ''Copy the Git history, branches, tags and LFS objects of every repository of one Gitea owner into gitcask, without touching Gitea.'']
     migration_SECTIONS [''docs/MIGRATION.md'']
       [migration_what_moves_section L, migration_prerequisites_section L,
        migration_procedure_section L, migration_limitations_section L]"

end
