(* ===== verification/Landing_Cost.thy ===== *)
theory Landing_Cost
  imports Site_Docs
begin

text \<open>
  The storage comparison of the landing page
  (\<^verbatim>\<open>site/src/lib/components/landing/storage-cost.tsx\<close>) and the eased numbers it shows
  (\<^verbatim>\<open>use-tween.ts\<close>). Numbers are exact rationals. The state of a tween is the shown value and the value the
  next run starts from; the animation frames of one run are the list of their times.
\<close>

section \<open>Numbers in English (\<open>Number.prototype.toLocaleString\<close>)\<close>

text \<open>Commas between groups of three digits, counted from the right.\<close>

fun group_rev :: "string \<Rightarrow> string" where
  "group_rev (a # b # c # d # ds) = a # b # c # CHR '','' # group_rev (d # ds)"
| "group_rev ds = ds"

definition group_digits :: "string \<Rightarrow> string" where
  "group_digits s = rev (group_rev (rev s))"

text \<open>Rounding to \<open>digits\<close> decimals, halves away from zero, of a number that is not negative.\<close>

definition scaled :: "nat \<Rightarrow> rat \<Rightarrow> nat" where
  "scaled digits x = nat \<lfloor>x * 10 ^ digits + 1 / 2\<rfloor>"

definition pad_left :: "nat \<Rightarrow> string \<Rightarrow> string" where
  "pad_left n s = replicate (n - length s) (CHR ''0'') @ s"

definition fraction_digits :: "nat \<Rightarrow> nat \<Rightarrow> string" where
  "fraction_digits digits n =
     rev (dropWhile (\<lambda>c. c = CHR ''0'') (rev (if digits = 0 then [] else pad_left digits (nat_str (n mod 10 ^ digits)))))"

text \<open>\<open>en_us digits x\<close> is \<open>x.toLocaleString('en-US', { maximumFractionDigits: digits })\<close>; the default is 3.\<close>

definition en_abs :: "nat \<Rightarrow> rat \<Rightarrow> string" where
  "en_abs digits x =
     (let n = scaled digits x; f = fraction_digits digits n
      in group_digits (nat_str (n div 10 ^ digits)) @ (if f = '''' then '''' else ''.'' @ f))"

definition en_us :: "nat \<Rightarrow> rat \<Rightarrow> string" where
  "en_us digits x = (if x < 0 then ''-'' @ en_abs digits (- x) else en_abs digits x)"

section \<open>Eased numbers (use-tween.ts)\<close>

record tween =
  shown :: rat
  from_value :: rat

definition start_tween :: "rat \<Rightarrow> tween" where
  "start_tween target = \<lparr>shown = target, from_value = target\<rparr>"

definition eased :: "rat \<Rightarrow> rat" where
  "eased t = 1 - (1 - t) ^ 4"

definition tween_time :: "rat \<Rightarrow> rat \<Rightarrow> rat \<Rightarrow> rat" where
  "tween_time start duration now = min 1 ((now - start) / duration)"

text \<open>One animation frame, and whether it requests another.\<close>

definition tween_frame :: "rat \<Rightarrow> rat \<Rightarrow> rat \<Rightarrow> rat \<Rightarrow> rat \<Rightarrow> tween \<Rightarrow> tween \<times> bool" where
  "tween_frame start duration origin target now tw =
     (let t = tween_time start duration now; next = origin + (target - origin) * eased t
      in (tw\<lparr>from_value := next, shown := next\<rparr>, t < 1))"

fun tween_frames :: "rat \<Rightarrow> rat \<Rightarrow> rat \<Rightarrow> rat \<Rightarrow> rat list \<Rightarrow> tween \<Rightarrow> tween \<times> bool" where
  "tween_frames start duration origin target [] tw = (tw, True)"
| "tween_frames start duration origin target (now # stamps) tw =
     (case tween_frame start duration origin target now tw of
        (tw', again) \<Rightarrow> if again then tween_frames start duration origin target stamps tw' else (tw', False))"

text \<open>
  The effect for a new target at time \<open>start\<close>: the frames at \<open>stamps\<close> ran before the effect was
  cleaned up. The second component tells whether a frame is still requested.
\<close>

definition useTween :: "bool \<Rightarrow> rat \<Rightarrow> rat \<Rightarrow> rat \<Rightarrow> rat list \<Rightarrow> tween \<Rightarrow> tween \<times> bool" where
  "useTween reducedMotion target duration start stamps tw =
     (if reducedMotion then (tw\<lparr>from_value := target, shown := target\<rparr>, False)
      else tween_frames start duration (from_value tw) target stamps tw)"

section \<open>Storage cost (storage-cost.tsx)\<close>

definition HOT_PER_GB :: rat where "HOT_PER_GB = 36 / 10"
definition BUCKET_PER_GB :: rat where "BUCKET_PER_GB = 23 / 1000"

definition USERS :: "string list" where "USERS = [''1,000'', ''10,000'', ''50,000'']"
definition PROJECTS :: "string list" where "PROJECTS = [''5'', ''20'', ''50'']"
definition SIZES :: "string list" where "SIZES = [''5 MB'', ''50 MB'', ''200 MB'']"

definition toNumber :: "string \<Rightarrow> nat" where
  "toNumber label = digits_value (filter is_digit label)"

definition dollars :: "rat \<Rightarrow> string" where
  "dollars value = (if value < 0 then ''-$'' @ en_abs 0 (- value) else ''$'' @ en_abs 0 value)"

record cost_state =
  users :: string
  projects :: string
  project_size :: string

definition start_cost :: cost_state where
  "start_cost = \<lparr>users = ''10,000'', projects = ''20'', project_size = ''50 MB''\<rparr>"

definition repositories :: "cost_state \<Rightarrow> nat" where
  "repositories st = toNumber (users st) * toNumber (projects st)"

definition gigabytes :: "cost_state \<Rightarrow> rat" where
  "gigabytes st = of_nat (repositories st * toNumber (project_size st)) / 1000"

text \<open>The targets of the two tweens, and the share of the second bar of the numbers shown.\<close>

definition hot_target :: "cost_state \<Rightarrow> rat" where
  "hot_target st = gigabytes st * HOT_PER_GB"

definition bucket_target :: "cost_state \<Rightarrow> rat" where
  "bucket_target st = gigabytes st * BUCKET_PER_GB"

definition bucketShare :: "rat \<Rightarrow> rat \<Rightarrow> rat" where
  "bucketShare hot bucket = max (bucket / max hot 1) 0"

definition plain_option :: "string \<Rightarrow> segmented_option" where
  [dom_simps]: "plain_option value = \<lparr>opt_label = [Text value], opt_value = Some value, opt_count = None\<rparr>"

datatype bar_tone = Muted | BrandBar

definition Control :: "string \<Rightarrow> node list \<Rightarrow> node" where
  "Control label children =
     El ''div'' []
       ([El ''p'' [(''className'', Str ''mb-2.5 text-title-sm text-foreground'')] [Text label]] @
          children)"

definition Bar :: "string \<Rightarrow> string \<Rightarrow> string \<Rightarrow> rat \<Rightarrow> bar_tone \<Rightarrow> node" where
  "Bar title detail amount share btone =
     El ''div'' []
       [El ''div''
          [(''className'', Str ''flex flex-wrap items-baseline justify-between gap-x-6 gap-y-1'')]
          [El ''div'' []
             [El ''p'' [(''className'', Str ''text-title-lg text-foreground'')] [Text title],
              El ''p'' [(''className'', Str ''text-body text-soft-foreground'')] [Text detail]],
           El ''p'' [(''className'', Str ''text-display-md text-foreground tabular-nums'')]
             [Text amount]],
        El ''div'' [(''className'', Str ''mt-4 h-4 overflow-hidden rounded-pill bg-muted'')]
          [El ''div''
             [(''className'',
               (if btone = BrandBar then Str ''h-full rounded-pill bg-primary'' else Str
                  ''h-full rounded-pill bg-border-strong'')),
              (''style'',
               Obj
                 [(''width'', Tpl [Str ''max(0.75rem, '', Num (share * 100), Str ''%)'']),
                  (''transition'', Str ''width var(--duration-slower) var(--ease-standard, ease)'')])]
           []]]"

definition StorageCost :: "ui \<Rightarrow> cost_state \<Rightarrow> rat \<Rightarrow> rat \<Rightarrow> node" where
  "StorageCost L st hot_shown bucket_shown =
     El ''div'' [(''className'', Str ''grid gap-12 lg:grid-cols-[minmax(0,20rem)_1fr] lg:gap-16'')]
       [El ''div'' [(''className'', Str ''space-y-7'')]
          [Control ''Users''
             [SegmentedControl L (map plain_option USERS) (Some (users st)) Undef (Some ''md'') None
              (Some ''Users'')],
           Control ''Projects per user''
             [SegmentedControl L (map plain_option PROJECTS) (Some (projects st)) Undef
                (Some ''md'') None (Some ''Projects per user'')],
           Control ''Size per project''
             [SegmentedControl L (map plain_option SIZES) (Some (project_size st)) Undef
                (Some ''md'') None (Some ''Size per project'')],
           El ''p'' [(''className'', Str ''text-body text-soft-foreground tabular-nums'')]
             ([Text (en_us 3 (of_nat (repositories st)))] @ [Text '' repositories,'', Text '' ''] @
                (if 1000 \<le> gigabytes st then [Text (en_us 1 (gigabytes st / 1000) @ '' TB'')]
                   else [Text (en_us 3 (gigabytes st) @ '' GB'')]))],
        El ''figure''
          [(''aria-label'', Str ''Monthly storage cost at list price''),
           (''className'', Str ''min-w-0'')]
          [El ''p'' [(''className'', Str ''text-title-md text-foreground'')]
             [Text ''Monthly storage, list price''],
           El ''div'' [(''className'', Str ''mt-8 space-y-9'')]
             [Bar ''Hosted git on replicated disks'' ''code.storage hot tier, $3.60 per GB''
                (dollars hot_shown) 1 Muted,
              Bar ''Your S3 bucket with gitcask'' ''S3 Standard, $0.023 per GB''
                (dollars bucket_shown) (bucketShare hot_shown bucket_shown) BrandBar],
           El ''figcaption'' [(''className'', Str ''mt-10 text-label text-soft-foreground'')]
             [Text
                ''Storage only on both sides; compute, requests and egress are not included. Prices from'',
              Text '' '',
              El ''Link''
                [(''href'', Str ''/llms/product.md''),
                 (''className'', Str ''text-primary underline-offset-4 hover:underline'')]
                [Text ''the product notes''], Text '' '', Text ''(2026-09) and AWS us-east-1.'']]]"

section \<open>Lemmas\<close>

lemma filter_group_rev: "list_all is_digit s \<Longrightarrow> filter is_digit (group_rev s) = s"
  by (induction s rule: group_rev.induct) (auto simp: is_digit_def)

lemma filter_group_digits: "list_all is_digit s \<Longrightarrow> filter is_digit (group_digits s) = s"
  by (simp add: group_digits_def rev_filter filter_group_rev list_all_rev flip: rev_filter)

lemma floor_half: "nat \<lfloor>(of_nat m :: rat) + 1 / 2\<rfloor> = m"
proof -
  have "\<lfloor>(of_nat m :: rat) + 1 / 2\<rfloor> = int m" by (rule floor_unique) simp_all
  then show ?thesis by simp
qed

lemma scaled_of_nat [simp]: "scaled d (of_nat n) = n * 10 ^ d"
  unfolding scaled_def using floor_half [of "n * 10 ^ d"]
  by (simp only: of_nat_mult of_nat_power of_nat_numeral)

lemma fraction_digits_0:
  "fraction_digits d 0 = []"
proof -
  have "nat_str 0 = [CHR ''0'']" by (subst nat_str.simps) (simp add: digit_char_def char_of_def bit_0)
  then have "set (pad_left d (nat_str 0)) \<subseteq> {CHR ''0''}" by (auto simp: pad_left_def)
  then show ?thesis by (auto simp: fraction_digits_def dropWhile_eq_Nil_conv)
qed

lemma en_us_of_nat: "en_us d (of_nat n) = group_digits (nat_str n)"
proof -
  have "fraction_digits d (n * 10 ^ d) = fraction_digits d 0" by (simp add: fraction_digits_def)
  then show ?thesis by (simp add: en_us_def en_abs_def Let_def fraction_digits_0)
qed

text \<open>
  Reading a label back. The number the page shows for a count, with its thousands separators,
  is read back by \<open>toNumber\<close> as that count, for every natural number.
\<close>

theorem toNumber_toLocaleString: "toNumber (en_us 3 (of_nat n)) = n"
proof -
  have "list_all is_digit (nat_str n)" by (auto simp: list_all_iff nat_str_digits)
  then show ?thesis by (simp add: toNumber_def en_us_of_nat filter_group_digits digits_value_nat_str)
qed

subsection \<open>The comparison\<close>

lemma toNumber_labels:
  "toNumber ''1,000'' = 1000" "toNumber ''10,000'' = 10000" "toNumber ''50,000'' = 50000"
  "toNumber ''5'' = 5" "toNumber ''20'' = 20" "toNumber ''50'' = 50"
  "toNumber ''5 MB'' = 5" "toNumber ''50 MB'' = 50" "toNumber ''200 MB'' = 200"
  by (simp_all add: toNumber_def digits_value_def is_digit_def)

lemma gigabytes_at_least:
  assumes "users st \<in> set USERS" "projects st \<in> set PROJECTS" "project_size st \<in> set SIZES"
  shows "25 \<le> gigabytes st"
  using assms by (auto simp: USERS_def PROJECTS_def SIZES_def gigabytes_def repositories_def toNumber_labels)

text \<open>
  The picture is to scale. For every choice the controls offer, once both numbers have settled,
  the second bar's share of the first is the ratio of the two list prices, 23/3600, which is below
  one percent, and the two amounts are in that ratio.
\<close>

theorem settled_share:
  assumes "users st \<in> set USERS" "projects st \<in> set PROJECTS" "project_size st \<in> set SIZES"
  shows "bucketShare (hot_target st) (bucket_target st) = 23 / 3600 \<and>
         bucket_target st = hot_target st * (23 / 3600)"
proof -
  from gigabytes_at_least [OF assms] have "1 \<le> hot_target st" "0 < gigabytes st"
    by (simp_all add: hot_target_def HOT_PER_GB_def)
  then show ?thesis
    by (simp add: bucketShare_def max_absorb1 hot_target_def bucket_target_def HOT_PER_GB_def BUCKET_PER_GB_def)
qed

theorem settled_share_witness:
  "bucketShare (hot_target start_cost) (bucket_target start_cost) = 23 / 3600"
  using settled_share [of start_cost] by (simp add: start_cost_def USERS_def PROJECTS_def SIZES_def)

subsection \<open>Easing\<close>

lemma eased_bounds: "0 \<le> t \<Longrightarrow> t \<le> 1 \<Longrightarrow> 0 \<le> eased t \<and> eased t \<le> 1"
  by (simp add: eased_def power_le_one)

lemma eased_mono: "s \<le> t \<Longrightarrow> t \<le> 1 \<Longrightarrow> eased s \<le> eased t"
  by (simp add: eased_def power_mono)

lemma tween_time_bounds: "0 < duration \<Longrightarrow> start \<le> now \<Longrightarrow> 0 \<le> tween_time start duration now \<and> tween_time start duration now \<le> 1"
  by (simp add: tween_time_def)

definition between :: "rat \<Rightarrow> rat \<Rightarrow> rat \<Rightarrow> bool" where
  "between a b x \<longleftrightarrow> min a b \<le> x \<and> x \<le> max a b"

lemma between_blend: "0 \<le> e \<Longrightarrow> e \<le> 1 \<Longrightarrow> between a b (a + (b - a) * e)"
proof (cases "a \<le> b")
  case True
  assume "0 \<le> e" "e \<le> 1"
  with True have "0 \<le> (b - a) * e" "(b - a) * e \<le> (b - a) * 1" by (simp, intro mult_left_mono) auto
  with True show ?thesis by (simp add: between_def)
next
  case False
  assume "0 \<le> e" "e \<le> 1"
  with False have "(b - a) * e \<le> 0" "(b - a) * 1 \<le> (b - a) * e"
    by (simp add: mult_nonpos_nonneg, intro mult_left_mono_neg) auto
  then have "a + (b - a) * e \<le> a" "b \<le> a + (b - a) * e" by simp_all
  with False show ?thesis unfolding between_def by simp
qed

lemma tween_frames_between:
  assumes "0 < duration" "\<forall>now \<in> set stamps. start \<le> now" "between origin target (shown tw)"
  shows "between origin target (shown (fst (tween_frames start duration origin target stamps tw)))"
  using assms(2,3)
proof (induction stamps arbitrary: tw)
  case (Cons now stamps)
  have "between origin target (shown (fst (tween_frame start duration origin target now tw)))"
    using tween_time_bounds [OF assms(1), of start now] Cons.prems(1) eased_bounds
    by (simp add: tween_frame_def Let_def between_blend)
  with Cons show ?case by (auto simp: split: prod.splits)
qed simp

lemma tween_frames_end:
  assumes "0 < duration" "\<exists>now \<in> set stamps. start + duration \<le> now"
  shows "tween_frames start duration origin target stamps tw = (tw\<lparr>from_value := target, shown := target\<rparr>, False)"
  using assms(2)
proof (induction stamps arbitrary: tw)
  case (Cons now stamps)
  show ?case
  proof (cases "start + duration \<le> now")
    case True
    then have "tween_time start duration now = 1" using assms(1) by (simp add: tween_time_def)
    then show ?thesis by (simp add: tween_frame_def Let_def eased_def)
  next
    case False
    then have "tween_time start duration now < 1" using assms(1) by (simp add: tween_time_def)
    with Cons False show ?thesis by (simp add: tween_frame_def Let_def)
  qed
qed simp

text \<open>
  An eased number arrives. Whatever frames the browser runs at times from the start on, the
  value shown always lies between the value the run started from and the target; as soon as one
  frame comes at or after the duration the value shown is exactly the target and no further frame
  is requested; with reduced motion it is the target at once.
\<close>

theorem useTween_arrives:
  assumes "0 < duration" "\<forall>now \<in> set stamps. start \<le> now" "shown tw = from_value tw"
  shows "between (from_value tw) target (shown (fst (useTween reduced target duration start stamps tw))) \<and>
    (reduced \<or> (\<exists>now \<in> set stamps. start + duration \<le> now) \<longrightarrow>
       useTween reduced target duration start stamps tw = (tw\<lparr>from_value := target, shown := target\<rparr>, False))"
proof -
  have "between (from_value tw) target target" "between (from_value tw) target (shown tw)"
    using assms(3) by (simp_all add: between_def)
  then show ?thesis
    using assms tween_frames_between [OF assms(1,2)] tween_frames_end [OF assms(1)]
    by (simp add: useTween_def)
qed

theorem useTween_arrives_witness:
  "useTween False 36000 700 100 [110, 500, 820] (start_tween 90) = (\<lparr>shown = 36000, from_value = 36000\<rparr>, False)"
  using useTween_arrives [of 700 "[110, 500, 820]" 100 "start_tween 90" 36000 False]
  by (simp add: start_tween_def)

end
