(* ===== verification/Landing_Field.thy ===== *)
theory Landing_Field
  imports Site_Docs "HOL-Library.AList"
begin

text \<open>
  The hero's field of repositories (\<^verbatim>\<open>site/src/lib/components/landing/repository-field.tsx\<close>).
  The variables the effect closes over are the x; what the effect draws and the
  callbacks it calls are appended to \<open>drawn\<close> and \<open>calls\<close>. Each handler takes what it reads from
  the browser as arguments: the frame time, the canvas rectangle, the pointer position, and the
  stream \<open>rng\<close> behind \<open>Math.random()\<close>, whose next position is \<open>rng_pos\<close>. Numbers are exact
  rationals: the rounding of double-precision arithmetic is not modelled.
\<close>

section \<open>Constants and data\<close>

definition PITCH :: rat where "PITCH = 9"
definition SIZE :: rat where "SIZE = 6"
definition RADIUS :: rat where "RADIUS = 15 / 10"
definition COOL_MS :: rat where "COOL_MS = 3200"
definition PUSHES_PER_SECOND :: rat where "PUSHES_PER_SECOND = 16"

text \<open>A map from indices to cells keeps its insertion order, and \<open>set\<close> on a present key keeps the key's place.\<close>

record lit_cell =
  index :: int
  born :: rat

record field_colors =
  idle :: string
  hot :: string
  background :: string

definition or_else :: "string \<Rightarrow> string \<Rightarrow> string" where
  "or_else s d = (if s = '''' then d else s)"

text \<open>\<open>property\<close> is \<open>getPropertyValue\<close> of the document's computed style.\<close>

definition readColors :: "(string \<Rightarrow> string) \<Rightarrow> field_colors" where
  "readColors property = \<lparr>
     idle = or_else (js_trim (property ''--fill-strong'')) ''#dfe2e7'',
     hot = or_else (js_trim (property ''--brand'')) ''#a65310'',
     background = or_else (js_trim (property ''--background'')) ''#ffffff''\<rparr>"

record push_sample =
  sample_x :: rat
  sample_y :: rat
  sample_id :: nat
  sample_width :: rat

datatype draw =
    SetTransform rat rat rat rat rat rat
  | ClearRect rat rat rat rat
  | GlobalAlpha rat
  | FillStyle string
  | BeginPath
  | RoundRect rat rat rat rat rat
  | Fill

datatype callback =
    OnPush nat
  | OnSample push_sample

record field_state =
  reduceMotion :: bool
  colors :: field_colors
  columns :: int
  rows :: int
  width :: rat
  height :: rat
  lit :: "(int \<times> lit_cell) list"
  lastSpawn :: rat
  reported :: int
  lastSample :: rat
  samples :: nat
  recent :: "rat list"
  lastPointer :: rat
  cells :: int                     \<comment> \<open>the component's state, set by \<open>setCells\<close>\<close>
  canvas_size :: "int \<times> int"
  rng_pos :: nat
  drawn :: "draw list"
  calls :: "callback list"

text \<open>The variables when the effect starts at time \<open>now\<close>.\<close>

definition start_field :: "bool \<Rightarrow> (string \<Rightarrow> string) \<Rightarrow> rat \<Rightarrow> field_state" where
  "start_field reduce property now = \<lparr>reduceMotion = reduce, colors = readColors property,
     columns = 0, rows = 0, width = 0, height = 0, lit = [], lastSpawn = now, reported = -1,
     lastSample = now, samples = 0, recent = [], lastPointer = 0, cells = 0,
     canvas_size = (0, 0), rng_pos = 0, drawn = [], calls = []\<rparr>"

text \<open>\<open>Math.random()\<close>: the fractional part keeps every value of the stream in the unit interval.\<close>

type_synonym rng = "nat \<Rightarrow> rat"

definition math_random :: "rng \<Rightarrow> nat \<Rightarrow> rat" where
  "math_random rng n = frac (rng n)"

section \<open>Painting\<close>

definition position :: "int \<Rightarrow> int \<Rightarrow> rat \<times> rat" where
  "position cols i = (of_int (i mod cols) * PITCH + 1, of_int (i div cols) * PITCH + 1)"

definition paint :: "field_state \<Rightarrow> int \<Rightarrow> rat \<Rightarrow> draw list" where
  "paint st i heat =
     (let (x, y) = position (columns st) i in
      [ClearRect (x - 1) (y - 1) (SIZE + 2) (SIZE + 2), GlobalAlpha 1, FillStyle (idle (colors st)),
       BeginPath, RoundRect x y SIZE SIZE RADIUS, Fill] @
      (if 0 < heat
       then [GlobalAlpha (heat * (18 / 100)), FillStyle (hot (colors st)), BeginPath,
             RoundRect (x - 1) (y - 1) (SIZE + 2) (SIZE + 2) (RADIUS + 1), Fill,
             GlobalAlpha heat, FillStyle (hot (colors st)), BeginPath,
             RoundRect x y SIZE SIZE RADIUS, Fill, GlobalAlpha 1]
       else []))"

definition emit :: "field_state \<Rightarrow> draw list \<Rightarrow> field_state" where
  "emit st ds = st\<lparr>drawn := drawn st @ ds\<rparr>"

definition paintAll :: "field_state \<Rightarrow> field_state" where
  "paintAll st =
     emit st (ClearRect 0 0 (width st) (height st) #
       concat (map (\<lambda>i. paint st i 0) [0..columns st * rows st - 1]) @
       concat (map (\<lambda>(k, cell). paint st (index cell) 1) (lit st)))"

section \<open>Handlers\<close>

text \<open>\<open>Math.floor(Math.random() * columns * rows)\<close>, consuming one value of the stream.\<close>

definition random_index :: "rng \<Rightarrow> field_state \<Rightarrow> int" where
  "random_index rng st =
     \<lfloor>math_random rng (rng_pos st) * of_int (columns st) * of_int (rows st)\<rfloor>"

text \<open>The loop of the still frame: \<open>for (let n = 0; n < columns * rows / 100; n++)\<close>.\<close>

fun still_frame :: "rng \<Rightarrow> nat \<Rightarrow> field_state \<Rightarrow> field_state" where
  "still_frame rng 0 st = st"
| "still_frame rng (Suc n) st =
     (let i = random_index rng st in
      still_frame rng n (st\<lparr>lit := AList.update i \<lparr>index = i, born = 0\<rparr> (lit st), rng_pos := rng_pos st + 1\<rparr>))"

definition js_round :: "rat \<Rightarrow> int" where
  "js_round x = \<lfloor>x + 1 / 2\<rfloor>"

text \<open>\<open>rw\<close> and \<open>rh\<close> are the canvas rectangle, \<open>dpr\<close> is \<open>window.devicePixelRatio\<close>.\<close>

definition resize :: "rng \<Rightarrow> rat \<Rightarrow> rat \<Rightarrow> rat \<Rightarrow> field_state \<Rightarrow> field_state" where
  "resize rng rw rh dpr st =
     (let ratio = min (if dpr = 0 then 1 else dpr) 2;
          st1 = emit (st\<lparr>width := rw, height := rh,
                  canvas_size := (js_round (rw * ratio), js_round (rh * ratio))\<rparr>)
                  [SetTransform ratio 0 0 ratio 0 0];
          st2 = st1\<lparr>columns := max 1 \<lfloor>rw / PITCH\<rfloor>, rows := max 1 \<lfloor>rh / PITCH\<rfloor>, lit := []\<rparr>;
          st3 = st2\<lparr>cells := columns st2 * rows st2\<rparr>;
          st4 = (if reduceMotion st3
                 then still_frame rng (nat \<lceil>of_int (columns st3 * rows st3) / (100 :: rat)\<rceil>) st3
                 else st3)
      in paintAll st4)"

definition push :: "int \<Rightarrow> rat \<Rightarrow> field_state \<Rightarrow> field_state" where
  "push i now st =
     (if i < 0 \<or> columns st * rows st \<le> i then st
      else st\<lparr>lit := AList.update i \<lparr>index = i, born = now\<rparr> (lit st), recent := recent st @ [now]\<rparr>)"

definition interval :: rat where
  "interval = 1000 / PUSHES_PER_SECOND"

text \<open>One turn of the spawning loop of \<open>tick\<close>.\<close>

definition spawn_one :: "rng \<Rightarrow> rat \<Rightarrow> field_state \<Rightarrow> field_state" where
  "spawn_one rng now st =
     (let st1 = st\<lparr>lastSpawn := lastSpawn st + interval * (4 / 10 + math_random rng (rng_pos st) * (12 / 10)),
                   rng_pos := rng_pos st + 1\<rparr>
      in push (random_index rng st1) now (st1\<lparr>rng_pos := rng_pos st1 + 1\<rparr>))"

lemma math_random_bounds: "0 \<le> math_random rng n" "math_random rng n < 1"
  by (simp_all add: math_random_def frac_lt_1)

lemma push_simps [simp]:
  "lastSpawn (push i now st) = lastSpawn st" "columns (push i now st) = columns st"
  "rows (push i now st) = rows st" "samples (push i now st) = samples st"
  "lastSample (push i now st) = lastSample st" "width (push i now st) = width st"
  "reported (push i now st) = reported st" "calls (push i now st) = calls st"
  "colors (push i now st) = colors st" "reduceMotion (push i now st) = reduceMotion st"
  by (simp_all add: push_def)

lemma spawn_one_lastSpawn:
  "lastSpawn (spawn_one rng now st) =
     lastSpawn st + interval * (4 / 10 + math_random rng (rng_pos st) * (12 / 10))"
  by (simp add: spawn_one_def Let_def)

lemma spawn_advances: "25 \<le> lastSpawn (spawn_one rng now st) - lastSpawn st"
  using math_random_bounds [of rng "rng_pos st"]
  by (simp add: spawn_one_lastSpawn interval_def PUSHES_PER_SECOND_def)

lemma spawn_advances_at_most: "lastSpawn (spawn_one rng now st) - lastSpawn st < 100"
  using math_random_bounds [of rng "rng_pos st"]
  by (simp add: spawn_one_lastSpawn interval_def PUSHES_PER_SECOND_def)

function spawn :: "rng \<Rightarrow> rat \<Rightarrow> field_state \<Rightarrow> field_state" where
  "spawn rng now st =
     (if now - lastSpawn st > interval then spawn rng now (spawn_one rng now st) else st)"
  by pat_completeness auto
termination
proof (relation "measure (\<lambda>(rng, now, st). nat \<lceil>(now - lastSpawn st) / 25\<rceil>)")
  fix rng :: rng and now :: rat and st :: field_state
  assume far: "interval < now - lastSpawn st"
  let ?d = "(now - lastSpawn st) / 25" and ?d' = "(now - lastSpawn (spawn_one rng now st)) / 25"
  have "?d' \<le> ?d - 1" using spawn_advances [where rng = rng and now = now and st = st] by (simp add: field_simps)
  then have "\<lceil>?d'\<rceil> \<le> \<lceil>?d\<rceil> - 1" by linarith
  moreover have "0 < \<lceil>?d\<rceil>" using far by (simp add: interval_def PUSHES_PER_SECOND_def)
  ultimately show "((rng, now, spawn_one rng now st), rng, now, st)
      \<in> measure (\<lambda>(rng, now, st). nat \<lceil>(now - lastSpawn st) / 25\<rceil>)"
    by simp
qed simp

declare spawn.simps [simp del]

text \<open>
  The cooling loop visits the cells in insertion order; deleting the visited cell does not
  disturb the iteration.
\<close>

definition cool_one :: "rat \<Rightarrow> field_state \<Rightarrow> int \<times> lit_cell \<Rightarrow> field_state" where
  "cool_one now st entry =
     (let cell = snd entry; heat = 1 - (now - born cell) / COOL_MS
      in if heat \<le> 0 then emit (st\<lparr>lit := AList.delete (index cell) (lit st)\<rparr>) (paint st (index cell) 0)
         else emit st (paint st (index cell) (heat * heat)))"

definition cool :: "rat \<Rightarrow> field_state \<Rightarrow> field_state" where
  "cool now st = foldl (cool_one now) st (lit st)"

definition sample_column :: "rng \<Rightarrow> field_state \<Rightarrow> int" where
  "sample_column rng st =
     (let r = math_random rng (rng_pos st) in
      \<lfloor>of_int (columns st) * (if 768 \<le> width st then 58 / 100 + r * (34 / 100) else 15 / 100 + r * (6 / 10))\<rfloor>)"

definition sample_row :: "rng \<Rightarrow> field_state \<Rightarrow> int" where
  "sample_row rng st =
     (let r = math_random rng (rng_pos st + 1) in
      \<lfloor>of_int (rows st) * (if 768 \<le> width st then 15 / 100 + r * (6 / 10) else 62 / 100 + r * (15 / 100))\<rfloor>)"

definition sample_index :: "rng \<Rightarrow> field_state \<Rightarrow> int" where
  "sample_index rng st = sample_row rng st * columns st + sample_column rng st"

definition take_sample :: "rng \<Rightarrow> rat \<Rightarrow> field_state \<Rightarrow> field_state" where
  "take_sample rng now st =
     (if now - lastSample st > 2400 \<and> columns st > 8
      then let i = sample_index rng st;
               st1 = push i now (st\<lparr>lastSample := now, rng_pos := rng_pos st + 2\<rparr>);
               (x, y) = position (columns st1) i
           in st1\<lparr>samples := samples st1 + 1,
                  calls := calls st1 @
                    [OnSample \<lparr>sample_x = x + SIZE / 2, sample_y = y + SIZE / 2,
                               sample_id = samples st1 + 1, sample_width = width st1\<rparr>]\<rparr>
      else st)"

definition report :: "rat \<Rightarrow> field_state \<Rightarrow> field_state" where
  "report now st =
     (let st1 = st\<lparr>recent := dropWhile (\<lambda>t. now - t > 5000) (recent st)\<rparr>
      in if int (length (recent st1)) \<noteq> reported st1
         then st1\<lparr>reported := int (length (recent st1)), calls := calls st1 @ [OnPush (length (recent st1))]\<rparr>
         else st1)"

definition tick :: "rng \<Rightarrow> rat \<Rightarrow> field_state \<Rightarrow> field_state" where
  "tick rng now st = report now (take_sample rng now (cool now (spawn rng now st)))"

text \<open>The offsets a pointer event visits, row by row.\<close>

definition offsets :: "int \<Rightarrow> (int \<times> int) list" where
  "offsets reach = [(dx, dy). dy \<leftarrow> [-reach..reach], dx \<leftarrow> [-reach..reach]]"

definition pointer_one :: "rng \<Rightarrow> rat \<Rightarrow> bool \<Rightarrow> int \<Rightarrow> int \<Rightarrow> int \<Rightarrow> field_state \<Rightarrow> int \<times> int \<Rightarrow> field_state" where
  "pointer_one rng now burst reach column row st off =
     (let (dx, dy) = off in
      if dx * dx + dy * dy > reach * reach then st
      else if \<not> burst \<and> math_random rng (rng_pos st) < 55 / 100 then st\<lparr>rng_pos := rng_pos st + 1\<rparr>
      else let st1 = (if burst then st else st\<lparr>rng_pos := rng_pos st + 1\<rparr>); c = column + dx; r = row + dy
           in if 0 \<le> c \<and> c < columns st1 \<and> 0 \<le> r \<and> r < rows st1
              then push (r * columns st1 + c) now st1 else st1)"

text \<open>\<open>dx0\<close> and \<open>dy0\<close> are the pointer's position relative to the canvas.\<close>

definition pointer :: "rng \<Rightarrow> rat \<Rightarrow> rat \<Rightarrow> rat \<Rightarrow> bool \<Rightarrow> field_state \<Rightarrow> field_state" where
  "pointer rng now dx0 dy0 burst st =
     (if reduceMotion st then st
      else if \<not> burst \<and> now - lastPointer st < 45 then st
      else let reach = (if burst then 3 else 1)
           in foldl (pointer_one rng now burst reach \<lfloor>dx0 / PITCH\<rfloor> \<lfloor>dy0 / PITCH\<rfloor>)
                (st\<lparr>lastPointer := now\<rparr>) (offsets reach))"

definition theme_changed :: "(string \<Rightarrow> string) \<Rightarrow> field_state \<Rightarrow> field_state" where
  "theme_changed property st = paintAll (st\<lparr>colors := readColors property\<rparr>)"

text \<open>
  The handlers the effect installs, one step each at the time \<open>now\<close>; without motion no frame is
  requested. A run starts when the effect does and its clock never goes back.
\<close>

inductive field_step :: "rng \<Rightarrow> rat \<Rightarrow> field_state \<Rightarrow> field_state \<Rightarrow> bool" for rng now where
  Resize: "field_step rng now st (resize rng rw rh dpr st)"
| Tick: "\<not> reduceMotion st \<Longrightarrow> field_step rng now st (tick rng now st)"
| Move: "field_step rng now st (pointer rng now x y False st)"
| Down: "field_step rng now st (pointer rng now x y True st)"
| Theme: "field_step rng now st (theme_changed property st)"

inductive field_run :: "rng \<Rightarrow> rat \<Rightarrow> field_state \<Rightarrow> bool" for rng where
  Start: "field_run rng now (start_field reduce property now)"
| Step: "field_run rng t st \<Longrightarrow> t \<le> now \<Longrightarrow> field_step rng now st st' \<Longrightarrow> field_run rng now st'"

section \<open>The field's invariant\<close>

text \<open>
  Every lit cell is stored under its own index, once, and its index names a square of the
  current grid.
\<close>

definition field_ok :: "field_state \<Rightarrow> bool" where
  "field_ok st \<longleftrightarrow> 0 \<le> columns st \<and> 0 \<le> rows st \<and> distinct (map fst (lit st)) \<and>
     (\<forall>(k, cell) \<in> set (lit st). index cell = k \<and> 0 \<le> k \<and> k < columns st * rows st)"

lemma set_AList_update: "set (AList.update k v al) \<subseteq> insert (k, v) (set al)"
  by (induction al) auto

lemma set_AList_delete: "set (AList.delete k al) \<subseteq> set al"
  by (auto simp: AList.delete_eq)

lemma field_ok_emit [simp]: "field_ok (emit st ds) = field_ok st"
  by (simp add: field_ok_def emit_def)

text \<open>The variables the invariant does not read.\<close>

lemma field_ok_other [simp]:
  "field_ok (st\<lparr>rng_pos := n\<rparr>) = field_ok st" "field_ok (st\<lparr>lastSpawn := t\<rparr>) = field_ok st"
  "field_ok (st\<lparr>lastSample := t\<rparr>) = field_ok st" "field_ok (st\<lparr>samples := n\<rparr>) = field_ok st"
  "field_ok (st\<lparr>recent := ts\<rparr>) = field_ok st" "field_ok (st\<lparr>reported := i\<rparr>) = field_ok st"
  "field_ok (st\<lparr>calls := cs\<rparr>) = field_ok st" "field_ok (st\<lparr>lastPointer := t\<rparr>) = field_ok st"
  "field_ok (st\<lparr>colors := c\<rparr>) = field_ok st"
  by (simp_all add: field_ok_def)

lemma field_ok_update:
  assumes "field_ok st" "0 \<le> i" "i < columns st * rows st"
  shows "field_ok (st\<lparr>lit := AList.update i \<lparr>index = i, born = t\<rparr> (lit st)\<rparr>)"
  using assms set_AList_update [of i "\<lparr>index = i, born = t\<rparr>" "lit st"]
  by (auto simp: field_ok_def distinct_update)

lemma push_lit: "field_ok st \<Longrightarrow> field_ok (push i now st)"
  using field_ok_update [of st i now] by (auto simp: push_def field_ok_def)

lemma random_index_bounds:
  assumes "0 < columns st * rows st"
  shows "0 \<le> random_index rng st \<and> random_index rng st < columns st * rows st"
proof -
  let ?r = "math_random rng (rng_pos st)" and ?n = "of_int (columns st * rows st) :: rat"
  have "0 < ?n" using assms by (simp only: of_int_0_less_iff)
  then have "0 \<le> ?r * ?n" "?r * ?n < 1 * ?n"
    using math_random_bounds [of rng "rng_pos st"] by (simp, intro mult_strict_right_mono) auto
  then show ?thesis
    unfolding random_index_def by (simp add: floor_less_iff mult.assoc)
qed

lemma still_frame_ok:
  "field_ok st \<Longrightarrow> 0 < columns st * rows st \<Longrightarrow> field_ok (still_frame rng n st)"
proof (induction n arbitrary: st)
  case (Suc n)
  then show ?case
    using field_ok_update [of st "random_index rng st" 0] random_index_bounds [of st rng]
    by (simp add: Let_def)
qed simp

lemma still_frame_simps [simp]:
  "columns (still_frame rng n st) = columns st" "rows (still_frame rng n st) = rows st"
  "recent (still_frame rng n st) = recent st"
  by (induction n arbitrary: st) (simp_all add: Let_def)

lemma resize_ok: "field_ok (resize rng rw rh dpr st)"
proof -
  have pos: "0 < max 1 \<lfloor>rw / PITCH\<rfloor> * max 1 \<lfloor>rh / PITCH\<rfloor>" by simp
  have empty: "field_ok (s\<lparr>columns := max 1 \<lfloor>rw / PITCH\<rfloor>, rows := max 1 \<lfloor>rh / PITCH\<rfloor>, lit := [], cells := c\<rparr>)" for s c
    by (simp add: field_ok_def le_max_iff_disj)
  show ?thesis
    using pos by (auto simp: resize_def Let_def paintAll_def intro!: still_frame_ok empty)
qed

lemma spawn_one_ok: "field_ok st \<Longrightarrow> field_ok (spawn_one rng now st)"
  by (simp add: spawn_one_def Let_def push_lit)

lemma spawn_ok: "field_ok st \<Longrightarrow> field_ok (spawn rng now st)"
  by (induction rng now st rule: spawn.induct) (subst spawn.simps, simp add: spawn_one_ok)

lemma cool_one_ok: "field_ok st \<Longrightarrow> field_ok (cool_one now st e)"
proof -
  assume ok: "field_ok st"
  then have "field_ok (st\<lparr>lit := AList.delete k (lit st)\<rparr>)" for k
    using set_AList_delete [of k "lit st"] by (auto simp: field_ok_def distinct_delete)
  with ok show ?thesis by (simp add: cool_one_def Let_def)
qed

lemma cool_ok: "field_ok st \<Longrightarrow> field_ok (cool now st)"
  unfolding cool_def by (rule foldl_invariant) (simp_all add: cool_one_ok)

lemma take_sample_ok: "field_ok st \<Longrightarrow> field_ok (take_sample rng now st)"
  by (simp add: take_sample_def Let_def push_lit split: prod.split)

lemma report_ok: "field_ok st \<Longrightarrow> field_ok (report now st)"
  by (simp add: report_def Let_def)

lemma pointer_one_ok: "field_ok st \<Longrightarrow> field_ok (pointer_one rng now burst reach col row st off)"
  by (auto simp: pointer_one_def Let_def push_lit split: prod.splits)

lemma pointer_ok: "field_ok st \<Longrightarrow> field_ok (pointer rng now x y burst st)"
  by (auto simp: pointer_def Let_def intro!: foldl_invariant [where P = field_ok] pointer_one_ok)

lemma field_step_ok: "field_step rng now st st' \<Longrightarrow> field_ok st \<Longrightarrow> field_ok st'"
  by (erule field_step.cases) (simp_all add: resize_ok tick_def report_ok take_sample_ok cool_ok
    spawn_ok pointer_ok theme_changed_def paintAll_def)

text \<open>
  C38: the field's bookkeeping survives every handler. From the start of the effect, whatever the
  order of resizes, animation frames, pointer events and theme changes, each lit cell is stored
  once, under its own index, and lies inside the current grid.
\<close>

theorem field_run_ok: "field_run rng now st \<Longrightarrow> field_ok st"
proof (induction rule: field_run.induct)
  case (Start now reduce property)
  show ?case by (simp add: start_field_def field_ok_def)
qed (rule field_step_ok)

theorem field_run_ok_witness:
  "field_ok (tick (\<lambda>n. 1 / 2) 100 (resize (\<lambda>n. 1 / 2) 90 45 1 (start_field False (\<lambda>p. '''') 0)))"
proof -
  let ?rng = "\<lambda>n :: nat. 1 / 2 :: rat" and ?s = "start_field False (\<lambda>p. '''') 0"
  have "field_run ?rng 50 (resize ?rng 90 45 1 ?s)"
    by (rule field_run.Step [OF field_run.Start _ field_step.Resize]) simp
  then have "field_run ?rng 100 (tick ?rng 100 (resize ?rng 90 45 1 ?s))"
    by (rule field_run.Step) (auto intro: field_step.Tick simp: resize_def Let_def paintAll_def emit_def start_field_def)
  then show ?thesis by (rule field_run_ok)
qed

section \<open>The push counter\<close>

text \<open>Only pushes lengthen the list of recent pushes, each by the time of the handler.\<close>

definition pushes_at :: "rat \<Rightarrow> field_state \<Rightarrow> field_state \<Rightarrow> bool" where
  "pushes_at now st st' \<longleftrightarrow> (\<exists>k. recent st' = recent st @ replicate k now)"

lemma pushes_at_refl: "recent st' = recent st \<Longrightarrow> pushes_at now st st'"
  unfolding pushes_at_def by (rule exI [of _ 0]) simp

lemma pushes_at_trans: "pushes_at now a b \<Longrightarrow> pushes_at now b c \<Longrightarrow> pushes_at now a c"
  by (auto simp: pushes_at_def simp flip: replicate_add)

lemma pushes_at_push: "recent st = recent st0 \<Longrightarrow> pushes_at now st0 (push i now st)"
  unfolding pushes_at_def push_def
  by (cases "i < 0 \<or> columns st * rows st \<le> i") (auto intro: exI [of _ 0] exI [of _ 1])

lemma pushes_at_spawn: "pushes_at now st (spawn rng now st)"
proof (induction rng now st rule: spawn.induct)
  case (1 rng now st)
  have "pushes_at now st (spawn_one rng now st)"
    by (simp add: spawn_one_def Let_def pushes_at_push)
  with 1 show ?case
    by (subst spawn.simps) (auto intro: pushes_at_trans pushes_at_refl)
qed

lemma recent_cool [simp]: "recent (cool now st) = recent st"
  unfolding cool_def
  by (rule foldl_invariant [where P = "\<lambda>s. recent s = recent st"]) (simp_all add: cool_one_def Let_def emit_def)

lemma pushes_at_sample: "pushes_at now st (take_sample rng now st)"
  using pushes_at_push [of "st\<lparr>lastSample := now, rng_pos := rng_pos st + 2\<rparr>" st now "sample_index rng st"]
  by (auto simp: take_sample_def Let_def pushes_at_def split: prod.split intro: exI [of _ 0])

lemma pushes_at_pointer: "pushes_at now st (pointer rng now x y burst st)"
proof -
  have one: "pushes_at now s (pointer_one rng now burst reach c r s off)" for reach c r s off
    by (auto simp: pointer_one_def Let_def pushes_at_push intro: pushes_at_refl split: prod.splits)
  have "pushes_at now st (foldl (pointer_one rng now burst reach c r) (st\<lparr>lastPointer := now\<rparr>) offs)"
    for reach c r offs
    by (rule foldl_invariant [where P = "pushes_at now st"])
      (auto intro: pushes_at_refl pushes_at_trans [OF _ one])
  then show ?thesis by (simp add: pointer_def Let_def pushes_at_refl)
qed

lemma frame_pushes: "pushes_at now st (take_sample rng now (cool now (spawn rng now st)))"
  by (rule pushes_at_trans [OF pushes_at_spawn pushes_at_trans [OF pushes_at_refl pushes_at_sample]]) simp

text \<open>The list of recent pushes is in order of time and holds none from the future.\<close>

definition recent_ok :: "rat \<Rightarrow> field_state \<Rightarrow> bool" where
  "recent_ok t st \<longleftrightarrow> sorted (recent st) \<and> (\<forall>x \<in> set (recent st). x \<le> t)"

lemma recent_ok_later: "recent_ok t st \<Longrightarrow> t \<le> now \<Longrightarrow> recent_ok now st"
  by (force simp: recent_ok_def)

lemma recent_ok_pushes: "pushes_at now st st' \<Longrightarrow> recent_ok now st \<Longrightarrow> recent_ok now st'"
  by (auto simp: pushes_at_def recent_ok_def sorted_append sorted_replicate)

lemma recent_report: "recent (report now st) = dropWhile (\<lambda>t. now - t > 5000) (recent st)"
  by (simp add: report_def Let_def)

lemma report_filter:
  "recent_ok now st \<Longrightarrow> recent (report now st) = filter (\<lambda>t. now - t \<le> 5000) (recent st)"
  unfolding recent_report
  by (subst dropWhile_sorted_filter) (auto simp: recent_ok_def not_less)

lemma recent_resize [simp]: "recent (resize rng rw rh dpr st) = recent st"
  by (simp add: resize_def Let_def paintAll_def emit_def)

lemma recent_theme [simp]: "recent (theme_changed property st) = recent st"
  by (simp add: theme_changed_def paintAll_def emit_def)

lemma recent_ok_same: "recent st' = recent st \<Longrightarrow> recent_ok now st' = recent_ok now st"
  by (simp add: recent_ok_def)

lemma recent_ok_report: "recent_ok now st \<Longrightarrow> recent_ok now (report now st)"
  using report_filter [of now st] by (simp add: recent_ok_def sorted_wrt_filter)

lemma field_step_recent: "field_step rng now st st' \<Longrightarrow> recent_ok now st \<Longrightarrow> recent_ok now st'"
proof (induction rule: field_step.induct)
  case (Tick st)
  then show ?case by (simp add: tick_def recent_ok_report recent_ok_pushes [OF frame_pushes])
qed (auto simp: recent_ok_same [OF recent_resize] recent_ok_same [OF recent_theme]
  intro: recent_ok_pushes [OF pushes_at_pointer])

lemma field_run_recent: "field_run rng now st \<Longrightarrow> recent_ok now st"
proof (induction rule: field_run.induct)
  case (Start now reduce property)
  show ?case by (simp add: start_field_def recent_ok_def)
qed (blast intro: field_step_recent recent_ok_later)

text \<open>
  The counter under the field is what its label says. In any run, an animation frame at time
  \<open>now\<close> leaves exactly the pushes of the last five seconds, those made before the frame and those
  the frame itself made, and reports their number.
\<close>

theorem counter_last_five_seconds:
  assumes "field_run rng t st" "t \<le> now" "\<not> reduceMotion st"
  shows "\<exists>k. recent (tick rng now st) = filter (\<lambda>x. now - x \<le> 5000) (recent st) @ replicate k now \<and>
             reported (tick rng now st) = int (length (recent (tick rng now st)))"
proof -
  let ?f = "take_sample rng now (cool now (spawn rng now st))"
  obtain k where k: "recent ?f = recent st @ replicate k now"
    using frame_pushes [of now st rng] by (auto simp: pushes_at_def)
  have "recent_ok now st" using assms(1,2) field_run_recent recent_ok_later by blast
  then have "recent_ok now ?f" by (rule recent_ok_pushes [OF frame_pushes])
  with k have "recent (report now ?f) = filter (\<lambda>x. now - x \<le> 5000) (recent st) @ replicate k now"
    by (simp add: report_filter)
  then show ?thesis unfolding tick_def by (auto simp: report_def Let_def)
qed

theorem counter_last_five_seconds_witness:
  "\<exists>k. recent (tick (\<lambda>n. 1 / 2) 70 (start_field False (\<lambda>p. '''') 0)) = replicate k 70 \<and>
       reported (tick (\<lambda>n. 1 / 2) 70 (start_field False (\<lambda>p. '''') 0)) =
         int (length (recent (tick (\<lambda>n. 1 / 2) 70 (start_field False (\<lambda>p. '''') 0))))"
proof -
  have "recent (start_field False (\<lambda>p. '''') 0) = []" "\<not> reduceMotion (start_field False (\<lambda>p. '''') 0)"
    by (simp_all add: start_field_def)
  then show ?thesis
    using counter_last_five_seconds [OF field_run.Start [of "\<lambda>n. 1 / 2" 0 False "\<lambda>p. ''''"], of 70] by simp
qed

section \<open>Pushes per second\<close>

lemma spawn_one_recent:
  "0 < columns st * rows st \<Longrightarrow> recent (spawn_one rng now st) = recent st @ [now]"
  using random_index_bounds [of "st\<lparr>lastSpawn := l, rng_pos := n\<rparr>" rng for l n]
  by (simp add: spawn_one_def Let_def push_def not_less not_le)

lemma spawn_one_grid [simp]:
  "columns (spawn_one rng now st) = columns st" "rows (spawn_one rng now st) = rows st"
  by (simp_all add: spawn_one_def Let_def)

lemma spawn_count:
  assumes "0 < columns st * rows st"
  shows "\<exists>k. recent (spawn rng now st) = recent st @ replicate k now \<and>
     25 * of_nat k \<le> lastSpawn (spawn rng now st) - lastSpawn st \<and>
     lastSpawn (spawn rng now st) - lastSpawn st \<le> 100 * of_nat k"
  using assms
proof (induction rng now st rule: spawn.induct)
  case (1 rng now st)
  show ?case
  proof (cases "now - lastSpawn st > interval")
    case True
    let ?s = "spawn_one rng now st"
    from 1 True obtain k where k: "recent (spawn rng now ?s) = recent ?s @ replicate k now"
      "25 * of_nat k \<le> lastSpawn (spawn rng now ?s) - lastSpawn ?s"
      "lastSpawn (spawn rng now ?s) - lastSpawn ?s \<le> 100 * of_nat k" by auto
    have eq: "spawn rng now st = spawn rng now ?s" using True by (subst spawn.simps) simp
    have "recent (spawn rng now st) = recent st @ replicate (Suc k) now"
      using k(1) eq spawn_one_recent [OF 1(2)] by (simp add: replicate_append_same)
    moreover have "25 * of_nat (Suc k) \<le> lastSpawn (spawn rng now st) - lastSpawn st"
      "lastSpawn (spawn rng now st) - lastSpawn st \<le> 100 * of_nat (Suc k)"
      using k eq spawn_advances [where rng = rng and now = now and st = st]
        spawn_advances_at_most [where rng = rng and now = now and st = st] by (simp_all add: algebra_simps)
    ultimately show ?thesis by blast
  next
    case False
    then have "spawn rng now st = st" by (subst spawn.simps) simp
    then show ?thesis by (intro exI [of _ 0]) simp
  qed
qed

lemma spawn_catches_up: "now - lastSpawn (spawn rng now st) \<le> interval"
  by (induction rng now st rule: spawn.induct) (subst spawn.simps, simp)

text \<open>The loop never overtakes the clock by more than one step.\<close>

lemma spawn_not_ahead: "lastSpawn st \<le> now + 75 / 2 \<Longrightarrow> lastSpawn (spawn rng now st) \<le> now + 75 / 2"
proof (induction rng now st rule: spawn.induct)
  case (1 rng now st)
  show ?case
    using 1 spawn_advances_at_most [where rng = rng and now = now and st = st]
    by (subst spawn.simps) (simp add: interval_def PUSHES_PER_SECOND_def)
qed

text \<open>
  Pacing of the simulated pushes. The spawning loop of a frame ends, and on a grid with at
  least one square every turn of it pushes to a square; the number of pushes lies between one per
  100 ms and one per 25 ms of the time since the last spawn, up to one interval of 62.5 ms (the
  mean step, hence \<open>PUSHES_PER_SECOND\<close>) and a step's length at the ends.
\<close>

theorem spawn_rate:
  assumes "0 < columns st * rows st" "lastSpawn st \<le> now"
  shows "\<exists>k. recent (spawn rng now st) = recent st @ replicate k now \<and>
     now - lastSpawn st - 125 / 2 \<le> 100 * of_nat k \<and> 25 * of_nat k \<le> now - lastSpawn st + 75 / 2"
proof -
  have "lastSpawn (spawn rng now st) \<le> now + 75 / 2" "now - lastSpawn (spawn rng now st) \<le> 125 / 2"
    using assms(2) spawn_not_ahead [of st now rng] spawn_catches_up [of now rng st]
    by (simp_all add: interval_def PUSHES_PER_SECOND_def)
  then show ?thesis using spawn_count [OF assms(1), of rng now] by (force simp: algebra_simps)
qed

theorem spawn_rate_witness:
  "\<exists>k. recent (spawn (\<lambda>n. 0) 1000 (resize (\<lambda>n. 0) 90 45 1 (start_field False (\<lambda>p. '''') 0))) = replicate k 1000 \<and>
     1000 - 125 / 2 \<le> 100 * (of_nat k :: rat) \<and> 25 * of_nat k \<le> (1000 + 75 / 2 :: rat)"
proof -
  let ?s = "resize (\<lambda>n. 0) 90 45 1 (start_field False (\<lambda>p. '''') 0)"
  have "columns ?s = 10" "rows ?s = 5" "lastSpawn ?s = 0" "recent ?s = []"
    by (simp_all add: resize_def Let_def paintAll_def emit_def start_field_def PITCH_def)
  then show ?thesis using spawn_rate [of ?s 1000 "\<lambda>n. 0"] by simp
qed

section \<open>The squares\<close>

text \<open>The rectangle a drawing command touches, and when a point lies strictly inside one.\<close>

fun draw_rect :: "draw \<Rightarrow> (rat \<times> rat \<times> rat \<times> rat) option" where
  "draw_rect (ClearRect x y w h) = Some (x, y, w, h)"
| "draw_rect (RoundRect x y w h r) = Some (x, y, w, h)"
| "draw_rect _ = None"

definition in_rect :: "rat \<times> rat \<Rightarrow> rat \<times> rat \<times> rat \<times> rat \<Rightarrow> bool" where
  "in_rect p rect = (case (p, rect) of ((px, py), (x, y, w, h)) \<Rightarrow> x \<le> px \<and> px \<le> x + w \<and> y \<le> py \<and> py \<le> y + h)"

definition square :: "int \<Rightarrow> int \<Rightarrow> rat \<times> rat \<times> rat \<times> rat" where
  "square cols i = (case position cols i of (x, y) \<Rightarrow> (x - 1, y - 1, SIZE + 2, SIZE + 2))"

lemma paint_in_square:
  "d \<in> set (paint st i heat) \<Longrightarrow> draw_rect d = Some r \<Longrightarrow> in_rect p r \<Longrightarrow> in_rect p (square (columns st) i)"
  by (cases p) (auto simp: paint_def square_def in_rect_def SIZE_def Let_def split: prod.splits if_splits)

lemma squares_apart:
  assumes "i \<noteq> j" "in_rect p (square cols i)"
  shows "\<not> in_rect p (square cols j)"
proof
  assume j: "in_rect p (square cols j)"
  have close: "a = b" if "of_int a * 9 \<le> z" "z \<le> of_int a * 9 + 8" "of_int b * 9 \<le> z" "z \<le> of_int b * 9 + (8 :: rat)"
    for a b :: int and z
  proof -
    have "(of_int (a * 9) :: rat) \<le> of_int (b * 9 + 8)" "(of_int (b * 9) :: rat) \<le> of_int (a * 9 + 8)"
      using that by simp_all
    then have "a * 9 \<le> b * 9 + 8" "b * 9 \<le> a * 9 + 8" by (simp_all only: of_int_le_iff)
    then show ?thesis by linarith
  qed
  obtain px py where p: "p = (px, py)" by (cases p)
  have "i mod cols = j mod cols" "i div cols = j div cols"
    using assms(2) j close [of "i mod cols" px "j mod cols"] close [of "i div cols" py "j div cols"]
    by (simp_all add: p in_rect_def square_def position_def SIZE_def PITCH_def)
  then have "i = j" by (metis div_mult_mod_eq)
  with assms show False by simp
qed

text \<open>
  Painting one square never touches another. Whatever the grid, a point that a paint of square
  \<open>i\<close> clears or fills, glow included, lies in no other square's rectangle, so a frame that repaints
  only the cooling squares leaves the rest of the picture as it was.
\<close>

theorem paint_touches_only_its_square:
  assumes "i \<noteq> j" "d \<in> set (paint st i heat)" "draw_rect d = Some r" "in_rect p r"
  shows "\<not> in_rect p (square (columns st) j)"
  using squares_apart [OF assms(1) paint_in_square [OF assms(2-4)]] .

theorem paint_touches_only_its_square_witness:
  "\<not> in_rect (10, 1) (square (columns (resize (\<lambda>n. 0) 90 45 1 (start_field False (\<lambda>p. '''') 0))) 0)"
proof (rule paint_touches_only_its_square [of 1 0 "ClearRect 9 0 8 8" _ 0 "(9, 0, 8, 8)"])
  let ?s = "resize (\<lambda>n. 0) 90 45 1 (start_field False (\<lambda>p. '''') 0)"
  have "columns ?s = 10"
    by (simp add: resize_def Let_def paintAll_def emit_def start_field_def PITCH_def)
  then show "ClearRect 9 0 8 8 \<in> set (paint ?s 1 0)"
    by (simp add: paint_def position_def PITCH_def SIZE_def)
qed (simp_all add: in_rect_def)

text \<open>A proportion strictly below one of the grid names a line of the grid.\<close>

lemma floor_share:
  fixes a b r :: rat
  assumes "0 < n" "0 \<le> a" "0 \<le> b" "a + b \<le> 1" "0 < b" "0 \<le> r" "r < 1"
  shows "0 \<le> \<lfloor>of_int n * (a + r * b)\<rfloor> \<and> \<lfloor>of_int n * (a + r * b)\<rfloor> < n"
proof -
  have "r * b < 1 * b" using assms by (intro mult_strict_right_mono) auto
  then have "a + r * b < 1" using assms(4) by linarith
  then have "of_int n * (a + r * b) < of_int n * 1" using assms(1) by (intro mult_strict_left_mono) auto
  moreover have "0 \<le> of_int n * (a + r * b)" using assms by simp
  ultimately show ?thesis by (simp add: floor_less_iff)
qed

lemma sample_column_bounds:
  "0 < columns st \<Longrightarrow> 0 \<le> sample_column rng st \<and> sample_column rng st < columns st"
  unfolding sample_column_def Let_def if_distrib [of "\<lambda>x. \<lfloor>_ * x\<rfloor>"]
  by (cases "768 \<le> width st") (simp only: if_True if_False, rule floor_share; simp add: math_random_bounds)+

lemma sample_row_bounds:
  "0 < rows st \<Longrightarrow> 0 \<le> sample_row rng st \<and> sample_row rng st < rows st"
  unfolding sample_row_def Let_def
  by (cases "768 \<le> width st") (simp only: if_True if_False, rule floor_share; simp add: math_random_bounds)+

lemma sample_column_wide:
  assumes "0 < columns st" "768 \<le> width st"
  shows "\<lfloor>of_int (columns st) * (58 / 100 :: rat)\<rfloor> \<le> sample_column rng st"
proof -
  let ?r = "math_random rng (rng_pos st)"
  have "of_int (columns st) * (58 / 100) \<le> of_int (columns st) * (58 / 100 + ?r * (34 / 100))"
    using assms(1) math_random_bounds(1) [of rng "rng_pos st"] by (intro mult_left_mono) auto
  then show ?thesis using assms(2) unfolding sample_column_def Let_def by (simp only: if_True floor_mono)
qed

text \<open>
  A sampled push is a real one. When a frame samples (a grid more than eight columns wide and
  2.4 s since the last sample), the sampled square lies in the grid, is lit at the time of the
  frame, and on a wide canvas lies in the right-hand part (from 58 percent of the columns on).
\<close>

theorem sample_lights_its_square:
  assumes "8 < columns st" "0 < rows st" "2400 < now - lastSample st"
  shows "0 \<le> sample_index rng st \<and> sample_index rng st < columns st * rows st \<and>
    map_of (lit (take_sample rng now st)) (sample_index rng st) =
       Some \<lparr>index = sample_index rng st, born = now\<rparr> \<and>
    (768 \<le> width st \<longrightarrow>
       \<lfloor>of_int (columns st) * (58 / 100 :: rat)\<rfloor> \<le> sample_index rng st mod columns st)"
proof -
  have col: "0 \<le> sample_column rng st \<and> sample_column rng st < columns st"
    using assms by (intro sample_column_bounds) simp
  have row: "0 \<le> sample_row rng st \<and> sample_row rng st < rows st"
    using assms by (intro sample_row_bounds) simp
  have "sample_row rng st * columns st + sample_column rng st < (sample_row rng st + 1) * columns st"
    using col by (simp add: algebra_simps)
  also have "\<dots> \<le> rows st * columns st" using row assms(1) by (intro mult_right_mono) auto
  finally have hi: "sample_index rng st < columns st * rows st"
    by (simp add: sample_index_def mult.commute)
  have lo: "0 \<le> sample_index rng st" using col row assms(1) by (simp add: sample_index_def)
  have "map_of (lit (take_sample rng now st)) (sample_index rng st) =
       Some \<lparr>index = sample_index rng st, born = now\<rparr>"
    using lo hi assms by (simp add: take_sample_def Let_def push_def update_conv split: prod.split)
  moreover have "sample_index rng st mod columns st = sample_column rng st"
    using col by (simp add: sample_index_def)
  moreover have "768 \<le> width st \<Longrightarrow> \<lfloor>of_int (columns st) * (58 / 100 :: rat)\<rfloor> \<le> sample_column rng st"
    using sample_column_wide [of st rng] assms by simp
  ultimately show ?thesis using lo hi by simp
qed

theorem sample_lights_its_square_witness:
  "map_of (lit (take_sample (\<lambda>n. 0) 3000 (resize (\<lambda>n. 0) 90 45 1 (start_field False (\<lambda>p. '''') 0)))) 31 =
     Some \<lparr>index = 31, born = 3000\<rparr>"
proof -
  let ?s = "resize (\<lambda>n. 0) 90 45 1 (start_field False (\<lambda>p. '''') 0)"
  have s: "columns ?s = 10" "rows ?s = 5" "lastSample ?s = 0" "width ?s = 90"
    by (simp_all add: resize_def Let_def paintAll_def emit_def start_field_def PITCH_def)
  then have "sample_index (\<lambda>n. 0) ?s = 31"
    by (simp add: sample_index_def sample_row_def sample_column_def math_random_def Let_def floor_divide_of_int_eq [of 31 10, simplified] floor_divide_of_int_eq [of 3 2, simplified])
  then show ?thesis using sample_lights_its_square [of ?s 3000 "\<lambda>n. 0"] s by simp
qed

end
