(* ===== verification/Landing_Demos.thy ===== *)
theory Landing_Demos
  imports Landing_Cost Landing_Field
begin

text \<open>
  The landing page's demonstrations: disposable servers, the user mirror and the commit request
  (\<^verbatim>\<open>disposable-servers.tsx\<close>, \<^verbatim>\<open>user-sync.tsx\<close> and \<^verbatim>\<open>commit-demo.tsx\<close> under
  \<^verbatim>\<open>site/src/lib/components/landing\<close>). A component's state is a record. A timer the browser
  still holds is an entry of \<open>pending\<close>: its id, its due time and what its callback does; the ids
  a component remembers in its ref are \<open>timers\<close>. The step relations allow exactly the clicks the
  rendered buttons allow, and the firing of a pending timer that no other pending timer precedes.
\<close>

section \<open>Disposable servers (disposable-servers.tsx)\<close>

datatype phase = Serving | Wiped | Booting | Restored

definition COLD_START :: "string list" where
  "COLD_START = [''GET manifest.pb'', ''checkpoint refs '' @ u_parallel @ '' log tail'', ''serving refs'']"

datatype action = SetStep int | SetPhase phase

record servers_state =
  phase :: phase
  step :: int
  timers :: "nat list"
  pending :: "(nat \<times> rat \<times> action) list"
  next_id :: nat

definition start_servers :: servers_state where
  "start_servers = \<lparr>phase = Serving, step = -1, timers = [], pending = [], next_id = 0\<rparr>"

text \<open>\<open>later(ms, run)\<close> at the time \<open>now\<close>.\<close>

definition later :: "rat \<Rightarrow> rat \<Rightarrow> action \<Rightarrow> servers_state \<Rightarrow> servers_state" where
  "later now ms run st =
     st\<lparr>timers := timers st @ [next_id st], pending := pending st @ [(next_id st, now + ms, run)],
        next_id := next_id st + 1\<rparr>"

definition clear_timers :: "servers_state \<Rightarrow> servers_state" where
  "clear_timers st = st\<lparr>pending := filter (\<lambda>(i, due, run). i \<notin> set (timers st)) (pending st)\<rparr>"

definition wipe :: "servers_state \<Rightarrow> servers_state" where
  "wipe st = st\<lparr>phase := Wiped, step := -1\<rparr>"

definition boot :: "rat \<Rightarrow> servers_state \<Rightarrow> servers_state" where
  "boot now st =
     later now 800 (SetPhase Restored) (later now 560 (SetStep 2) (later now 260 (SetStep 1)
       (st\<lparr>phase := Booting, step := 0\<rparr>)))"

definition reset :: "servers_state \<Rightarrow> servers_state" where
  "reset st = (clear_timers st)\<lparr>phase := Serving, step := -1\<rparr>"

fun run_action :: "action \<Rightarrow> servers_state \<Rightarrow> servers_state" where
  "run_action (SetStep n) st = st\<lparr>step := n\<rparr>"
| "run_action (SetPhase p) st = st\<lparr>phase := p\<rparr>"

definition servers :: "servers_state \<Rightarrow> nat" where
  "servers st = (if phase st = Serving then 3 else if phase st = Wiped then 0 else 1)"

definition DisposableServers :: "ui \<Rightarrow> servers_state \<Rightarrow> node" where
  "DisposableServers L st =
     El ''div''
       [(''className'',
         Str ''grid gap-10 lg:grid-cols-[1fr_minmax(0,22rem)] lg:items-center lg:gap-16'')]
       [El ''div''
          [(''role'', Str ''img''),
           (''aria-label'',
            (if phase st = Wiped then Str
               ''No servers are running. The bucket still holds every repository.'' else
               (if phase st = Serving then Str ''Three servers serve from one bucket.'' else Str
                  ''A new server reads the manifest, then checkpoint refs and the log tail, then serves.''))),
           (''className'', Str ''relative rounded-card bg-muted px-6 pt-8 pb-6 md:px-10 md:pt-10'')]
        [El ''div'' [(''className'', Str ''grid h-24 grid-cols-3 gap-3 md:gap-5'')]
           (map (\<lambda>slot. El ''div''
                   [(''key'', Num (of_nat slot)),
                    (''className'',
                     Str (cn L
                            [(Some
                                ''flex items-center justify-center gap-2 rounded-control border bg-card text-label transition-all duration-slower ease-out''),
                             (if slot < servers st then
                                (Some ''translate-y-0 border-border-strong/60 opacity-100'') else
                                (Some
                                   ''translate-y-6 scale-95 border-dashed border-border-strong opacity-0'')),
                             (if phase st = Restored \<and> slot = 0 then Some
                                ''border-primary text-primary-ink'' else None)]))]
                   [ServerGlyph L (Some ''size-5 text-soft-foreground''),
                    El ''span'' [(''className'', Str ''hidden text-foreground sm:inline'')]
                      (if slot = 0 \<and> phase st \<noteq> Serving then [Text ''new server''] else
                         [Text ''server''])]) [0, 1, 2]),
         El ''div'' [(''className'', Str ''relative my-4 h-10''), (''aria-hidden'', Str ''true'')]
           (map (\<lambda>(slot, left). El ''span''
                   [(''key'', left),
                    (''className'',
                     Str (cn L
                            [(Some
                                ''absolute top-0 h-full w-px bg-border-strong transition-opacity duration-slow''),
                             (if slot < servers st then (Some ''opacity-100'') else
                                (Some ''opacity-0''))])),
                    (''style'', Obj [(''left'', Tpl [left, Str ''%''])])] [])
              (List.enumerate 0 [Num (166 / 10), Num 50, Num (833 / 10)])),
         El ''div''
           [(''className'',
             Str (cn L
                    [(Some
                        ''flex items-center gap-4 rounded-card border border-primary bg-primary-surface px-5 py-5 transition-shadow duration-slower''),
                     (if phase st = Wiped then Some
                        ''shadow-[0_0_0_6px_color-mix(in_srgb,var(--primary)_18%,transparent)]''
                        else None)]))]
           [BucketGlyph L (Some ''size-7 shrink-0 text-primary''),
            El ''div'' [(''className'', Str ''min-w-0'')]
              [El ''p'' [(''className'', Str ''text-title-lg text-primary-ink'')]
                 [Text ''Your bucket''],
               El ''p'' [(''className'', Str ''text-body text-primary-ink/80'')]
                 [Text ''Every repository, every push, intact'']]],
         El ''ol''
           [(''className'', Str ''mt-6 flex flex-col gap-2 md:flex-row md:items-center md:gap-3''),
            (''aria-hidden'', Bool (step st < 0))]
           (map (\<lambda>(index, label). El ''li''
                   [(''key'', Str label),
                    (''className'',
                     Str (cn L
                            [(Some
                                ''rounded-control border px-3.5 py-2 font-mono text-label transition-all duration-base''),
                             (if int index \<le> step st then
                                (if index = length COLD_START - 1 then
                                   (Some
                                      ''border-success-border bg-success-surface text-success-surface-foreground'')
                                 else (Some ''border-border-strong/60 bg-card text-foreground''))
                                else (Some ''border-transparent text-transparent''))]))]
                   [Text label]) (List.enumerate 0 COLD_START))],
        El ''div'' []
          [El ''p'' [(''className'', Str ''text-lede text-soft-foreground'')]
             ((if phase st = Serving then
                 [Text
                    ''Three servers, one bucket. None of them holds anything the bucket does not.'']
               else []) @
                (if phase st = Wiped then
                   [Text ''Every server is gone. Nothing was lost: the bucket is the repository.'']
                   else []) @
                (if phase st = Booting then
                   [Text
                      ''A new server reads one small manifest, then the refs. No replay, no sync.'']
                 else []) @
                (if phase st = Restored then
                   [Text
                      ''Serving refs in under a second, on a server that did not exist a moment ago.'']
                 else [])),
           El ''div'' [(''className'', Str ''mt-8'')]
             ((if phase st = Serving then
                 [Button L None (Some ''outline'') (Some ''lg'') None [(''onClick'', Fn ''wipe'')]
                    [Text ''Remove every server'']] else []) @
                (if phase st = Wiped then
                   [Button L None None (Some ''lg'') None [(''onClick'', Fn ''boot'')]
                      [Text ''Start a new server'']] else []) @
                (if phase st = Booting \<or> phase st = Restored then
                   [Button L None (Some ''outline'') (Some ''lg'') None
                      [(''onClick'', Fn ''reset''), (''disabled'', Bool (phase st = Booting))]
                      [Text ''Run it again'']] else []))]]"

inductive servers_step :: "servers_state \<Rightarrow> servers_state \<Rightarrow> bool" where
  Wipe: "phase st = Serving \<Longrightarrow> servers_step st (wipe st)"
| Boot: "phase st = Wiped \<Longrightarrow> servers_step st (boot now st)"
| Reset: "phase st = Restored \<Longrightarrow> servers_step st (reset st)"
| Fire: "(i, due, run) \<in> set (pending st) \<Longrightarrow> \<forall>(j, due', run') \<in> set (pending st). due \<le> due' \<Longrightarrow>
    servers_step st (run_action run (st\<lparr>pending := filter (\<lambda>(j, due', run'). j \<noteq> i) (pending st)\<rparr>))"

section \<open>User sync (user-sync.tsx)\<close>

datatype view = Accounts | Gitcask

fun view_value :: "view \<Rightarrow> string" where
  "view_value Accounts = ''accounts''"
| "view_value Gitcask = ''gitcask''"

record mirrored_row =
  event :: string
  yours :: string
  theirs :: string
  broken :: "bool option"

definition MIRRORED :: "mirrored_row list" where
  "MIRRORED =
     [\<lparr>event = ''Sign-up'', yours = ''mina'', theirs = ''mina'', broken = None\<rparr>,
      \<lparr>event = ''Rename'', yours = ''jun '' @ u_rarr @ '' junho'', theirs = ''jun'', broken = Some True\<rparr>,
      \<lparr>event = ''Deletion'', yours = ''sora (deleted)'', theirs = ''sora'', broken = Some True\<rparr>,
      \<lparr>event = ''Suspension'', yours = ''kai (suspended)'', theirs = ''kai'', broken = Some True\<rparr>]"

definition segment_option :: "string \<Rightarrow> string \<Rightarrow> segmented_option" where
  [dom_simps]: "segment_option label value = \<lparr>opt_label = [Text label], opt_value = Some value, opt_count = None\<rparr>"

definition Claim :: "string \<Rightarrow> string \<Rightarrow> string \<Rightarrow> node" where
  "Claim name value note =
     El ''div'' [(''className'', Str ''grid gap-1 sm:grid-cols-[6rem_1fr] sm:items-baseline'')]
       [El ''dt'' [(''className'', Str ''text-primary'')] [Text name],
        El ''dd'' [(''className'', Str ''min-w-0'')]
          [El ''span'' [(''className'', Str ''break-all text-foreground'')] [Text value],
           El ''span''
             [(''className'', Str ''mt-0.5 block font-sans text-label text-soft-foreground'')]
             [Text note]]]"

definition Mirrored :: "ui \<Rightarrow> node" where
  "Mirrored L =
     El ''div''
       [(''className'',
         Str
           ''animate-in fade-in grid gap-8 duration-base lg:grid-cols-[1fr_minmax(0,20rem)] lg:items-start'')]
     [El ''div'' [(''className'', Str ''overflow-hidden rounded-card border border-border'')]
        ([El ''div''
            [(''className'',
              Str
                ''grid grid-cols-[7rem_1fr_1fr] bg-muted px-5 py-3 text-label font-semibold text-foreground md:grid-cols-[9rem_1fr_1fr]'')]
          [El ''span'' [] [Text ''Event''], El ''span'' [] [Text ''Your database''],
           El ''span'' [] [Text ''Git server copy'']]] @
           (map (\<lambda>row. El ''div''
                   [(''key'', Str (event row)),
                    (''className'',
                     Str (cn L
                            [(Some
                                ''grid grid-cols-[7rem_1fr_1fr] items-center border-t border-border px-5 py-4 text-body md:grid-cols-[9rem_1fr_1fr]''),
                             (if or_default False (broken row) then Some
                                ''bg-destructive-surface/60'' else None)]))]
                   [El ''span'' [(''className'', Str ''text-foreground'')] [Text (event row)],
                    El ''span'' [(''className'', Str ''text-soft-foreground'')] [Text (yours row)],
                    El ''span''
                      [(''className'',
                        (if or_default False (broken row) then Str
                           ''font-semibold text-destructive-surface-foreground'' else Str
                           ''text-soft-foreground''))] [Text (theirs row)]]) MIRRORED)),
      El ''p'' [(''className'', Str ''text-lede text-soft-foreground'')]
        [Text
           ''Every account lives twice. Each rename, deletion and suspension must be copied across, and every miss orphans a repository.'']]"

text \<open>
  The card tilts with a mouse, not with touch, and not when motion is reduced. The card's rectangle
  is given by its left and top edges and its size.
\<close>

record rect =
  rect_left :: rat
  rect_top :: rat
  rect_width :: rat
  rect_height :: rat

definition onMove :: "string \<Rightarrow> rat \<Rightarrow> rat \<Rightarrow> rect option \<Rightarrow> bool \<Rightarrow> rat \<times> rat \<Rightarrow> rat \<times> rat" where
  "onMove pointerType clientX clientY shown_card reducedMotion tilt =
     (if pointerType \<noteq> ''mouse'' \<or> shown_card = None then tilt
      else if reducedMotion then tilt
      else let r = the shown_card;
               x = (clientX - rect_left r) / rect_width r - 5 / 10;
               y = (clientY - rect_top r) / rect_height r - 5 / 10
           in (- y * 8, x * 10))"

definition onLeave :: "rat \<times> rat" where
  "onLeave = (0, 0)"

definition SignedToken :: "rat \<times> rat \<Rightarrow> node" where
  "SignedToken tilt =
     El ''div''
       [(''className'',
         Str
           ''animate-in fade-in grid gap-8 duration-base lg:grid-cols-[1fr_minmax(0,20rem)] lg:items-center'')]
     [El ''div''
        [(''className'', Str ''[perspective:1200px]''), (''onPointerMove'', Fn ''onMove''),
         (''onPointerLeave'', Fn ''setTilt({ x: 0, y: 0 })'')]
        [El ''div''
           [(''ref'', Fn ''card''),
            (''className'',
             Str
               ''relative mx-auto max-w-xl overflow-hidden rounded-sheet border border-primary/50 bg-card p-7 shadow-lg transition-transform duration-base ease-out md:p-9''),
            (''style'',
             Obj
               [(''transform'',
                 Tpl
                   [Str ''rotateX('', Num (fst tilt), Str ''deg) rotateY('', Num (snd tilt),
                    Str ''deg)''])])]
           [El ''div''
              [(''aria-hidden'', Str ''true''),
               (''className'',
                Str
                  ''pointer-events-none absolute -top-24 -right-24 size-64 rounded-full bg-primary/15 blur-3xl'')]
            [],
            El ''div'' [(''className'', Str ''flex items-center justify-between gap-4'')]
              [El ''p'' [(''className'', Str ''text-title-lg text-foreground'')]
                 [Text ''Signed by your platform''],
               El ''span''
                 [(''className'',
                   Str
                     ''rounded-pill bg-primary-surface px-3 py-1 text-label font-semibold text-primary-ink'')]
               [Text ''EdDSA'']],
            El ''dl'' [(''className'', Str ''mt-7 space-y-4 font-mono text-body'')]
              [Claim ''sub'' ''\"u_8f2c41\"'' ''an opaque principal'',
               Claim ''scopes'' ''[\"acme/site:write\"]'' ''repository and permission'',
               Claim ''exp'' ''1791676800'' ''when it stops working''],
            El ''p''
              [(''className'',
                Str ''mt-7 border-t border-border pt-5 text-body text-soft-foreground'')]
              [Text ''gitcask checks the signature with your public key and keeps nothing.'']]],
      El ''p'' [(''className'', Str ''text-lede text-soft-foreground'')]
        [Text
           ''Users, teams and revocation stay in your database. gitcask sees an opaque principal and a scope, verifies, and forgets.'']]"

definition UserSync :: "ui \<Rightarrow> view \<Rightarrow> rat \<times> rat \<Rightarrow> node" where
  "UserSync L view tilt =
     El ''div'' []
       [SegmentedControl L
          [segment_option ''Git server with its own accounts'' ''accounts'',
           segment_option ''gitcask'' ''gitcask''] (Some (view_value view)) Undef (Some ''md'') None
        (Some ''Compare''),
        El ''div'' [(''className'', Str ''mt-10 min-h-[26rem]'')]
          (if view = Accounts then [Mirrored L] else [SignedToken tilt])]"

section \<open>Commit demo (commit-demo.tsx)\<close>

record demo_change =
  change_message :: string
  change_path :: string
  change_content :: string

definition CHANGES :: "demo_change list" where
  "CHANGES =
     [\<lparr>change_message = ''Add pricing page'', change_path = ''app/pricing/page.tsx'', change_content = ''ZXhwb3J0IGRlZmF1bHQg''\<rparr>,
      \<lparr>change_message = ''Tighten mobile nav'', change_path = ''app/nav.tsx'', change_content = ''aW1wb3J0IHsgdXNlU3Rh''\<rparr>,
      \<lparr>change_message = ''Fix checkout total'', change_path = ''lib/cart.ts'', change_content = ''Y29uc3QgdG90YWwgPSAo''\<rparr>,
      \<lparr>change_message = ''Add dark theme'', change_path = ''app/theme.css'', change_content = ''OnJvb3QgeyAtLWJyYW5k''\<rparr>]"

record commit =
  oid :: string
  message :: string
  fresh :: "bool option"

definition hex_digits :: string where
  "hex_digits = ''0123456789abcdef''"

text \<open>\<open>oid()\<close> draws forty values from position \<open>n\<close> of the stream on.\<close>

definition random_oid :: "rng \<Rightarrow> nat \<Rightarrow> string" where
  "random_oid rng n = map (\<lambda>i. hex_digits ! nat \<lfloor>math_random rng (n + i) * 16\<rfloor>) [0..<40]"

definition short :: "string \<Rightarrow> string" where
  "short value = take 7 value @ u_ellipsis"

text \<open>The callback of the timer \<open>send\<close> starts keeps the new id, the change and the sequence number of the render it closes over.\<close>

record sent =
  sent_oid :: string
  sent_message :: string
  sent_seq :: nat

record demo_state =
  commits :: "commit list"
  seq :: nat
  turn :: nat
  sending :: bool
  response :: "(string \<times> nat) option"
  sent_timers :: "sent list"
  demo_rng_pos :: nat

definition start_demo :: demo_state where
  "start_demo = \<lparr>
     commits = [\<lparr>oid = ''c41f9e2a7b3d58e0f1a2b3c4d5e6f708192a3b4c'', message = ''Initial project'', fresh = None\<rparr>],
     seq = 41, turn = 0, sending = False, response = None, sent_timers = [], demo_rng_pos = 0\<rparr>"

definition current_change :: "demo_state \<Rightarrow> demo_change" where
  "current_change st = CHANGES ! (turn st mod length CHANGES)"

definition send :: "rng \<Rightarrow> demo_state \<Rightarrow> demo_state" where
  "send rng st =
     (if sending st then st
      else st\<lparr>sending := True, response := None, demo_rng_pos := demo_rng_pos st + 40,
              sent_timers := sent_timers st @
                [\<lparr>sent_oid = random_oid rng (demo_rng_pos st),
                  sent_message = change_message (current_change st), sent_seq = seq st\<rparr>]\<rparr>)"

definition sent_fires :: "sent \<Rightarrow> demo_state \<Rightarrow> demo_state" where
  "sent_fires s st =
     st\<lparr>commits := take 5 (\<lparr>oid = sent_oid s, message = sent_message s, fresh = Some True\<rparr> #
                            map (\<lambda>c. c\<lparr>fresh := Some False\<rparr>) (commits st)),
        seq := seq st + 1, response := Some (sent_oid s, sent_seq s + 1), sending := False,
        turn := turn st + 1\<rparr>"

definition request_text :: "demo_state \<Rightarrow> string" where
  "request_text st =
     (let change = current_change st; head = hd (commits st) in
      join_with nl
       [''POST /acme/site/api/commits'', ''{'', ''  \"branch\": \"main\",'',
        ''  \"message\": \"'' @ change_message change @ ''\",'',
        ''  \"expected_head_oid\": \"'' @ short (oid head) @ ''\",'',
        ''  \"committer\": {'', ''    \"name\": \"agent\",'', ''    \"email\": \"agent@acme.dev\",'',
        ''    \"when\": \"2026-10-07T09:12:00Z\"'', ''  },'', ''  \"changes\": [{'',
        ''    \"op\": \"upsert\",'', ''    \"path\": \"'' @ change_path change @ ''\",'',
        ''    \"content\": \"'' @ change_content change @ u_ellipsis @ ''\",'',
        ''    \"mode\": \"100644\"'', ''  }]'', ''}''])"

definition response_text :: "string \<times> nat \<Rightarrow> string" where
  "response_text r =
     join_with nl
       [''201 Created'', ''{ \"ref\": \"refs/heads/main\",'', ''  \"oid\": \"'' @ short (fst r) @ ''\",'',
        ''  \"commit_oid\": \"'' @ short (fst r) @ ''\",'', ''  \"seq\": '' @ nat_str (snd r) @ '' }'']"

definition CommitDemo :: "ui \<Rightarrow> demo_state \<Rightarrow> node" where
  "CommitDemo L st =
     El ''div''
       [(''className'', Str ''grid gap-8 lg:grid-cols-[minmax(0,1.15fr)_minmax(0,1fr)] lg:gap-12'')]
     [El ''div''
        [(''className'',
          Str (cn L
                 [(Some
                     ''overflow-hidden rounded-card border bg-card transition-[border-color,box-shadow] duration-base''),
                  (if sending st then
                     (Some
                        ''border-primary shadow-[0_0_0_4px_color-mix(in_srgb,var(--primary)_16%,transparent)]'')
                   else (Some ''border-border''))]))]
        [El ''div''
           [(''className'',
             Str ''flex items-center justify-between gap-4 border-b border-border px-5 py-3'')]
           [El ''p'' [(''className'', Str ''text-title-sm text-foreground'')]
              [Text ''Request from your agent''],
            Button L None None (Some ''sm'') None
              [(''onClick'', Fn ''send''), (''disabled'', Bool (sending st))]
              (if sending st then [Text ''Committing''] else [Text ''Send''])],
         El ''pre''
           [(''className'',
             Str
               ''overflow-x-auto px-5 py-4 font-mono text-body-sm leading-relaxed text-foreground'')]
         [Text (request_text st)]],
      El ''div'' [(''className'', Str ''flex flex-col gap-6'')]
        [El ''div'' [(''className'', Str ''rounded-card bg-muted p-5 md:p-6'')]
           [El ''p'' [(''className'', Str ''text-title-sm text-foreground'')]
              [El ''span'' [(''className'', Str ''font-mono'')] [Text ''main'']],
            El ''ol''
              [(''className'',
                Str
                  ''relative mt-4 space-y-3 before:absolute before:top-2 before:bottom-2 before:left-[7px] before:w-px before:bg-border-strong'')]
            (map (\<lambda>(position, commit). El ''li''
                    [(''key'', Str (oid commit)),
                     (''className'',
                      Str (cn L
                             [(Some ''relative flex items-center gap-4 pl-7''),
                              (if or_default False (fresh commit) then Some
                                 ''animate-in fade-in slide-in-from-top-2 duration-slow'' else None)]))]
                  [El ''span''
                     [(''aria-hidden'', Str ''true''),
                      (''className'',
                       Str (cn L
                              [(Some ''absolute left-0 size-[15px] rounded-full border-2''),
                               (if position = 0 then (Some ''border-primary bg-primary'') else
                                  (Some ''border-border-strong bg-background''))]))] [],
                   El ''span'' [(''className'', Str ''font-mono text-label text-soft-foreground'')]
                     [Text (take 7 (oid commit))],
                   El ''span''
                     [(''className'',
                       Str (cn L
                              [(Some ''truncate text-body''),
                               (if position = 0 then (Some ''font-semibold text-foreground'') else
                                  (Some ''text-soft-foreground''))]))] [Text (message commit)]])
               (List.enumerate 0 (commits st)))],
         El ''div''
           [(''aria-live'', Str ''polite''),
            (''className'',
             Str (cn L
                    [(Some ''rounded-card border px-5 py-4 transition-opacity duration-base''),
                     (if response st \<noteq> None then
                        (Some ''border-success-border bg-success-surface opacity-100'') else
                        (Some ''border-dashed border-border-strong opacity-60''))]))]
           (if response st \<noteq> None then
              [El ''pre''
                 [(''className'',
                   Str
                     ''overflow-x-auto font-mono text-body-sm leading-relaxed text-success-surface-foreground'')]
               [Text (response_text (the (response st)))]] else
              [El ''p'' [(''className'', Str ''text-body text-soft-foreground'')]
                 [Text ''Press Send. One request becomes one commit on main.'']])]]"

inductive demo_step :: "rng \<Rightarrow> demo_state \<Rightarrow> demo_state \<Rightarrow> bool" for rng where
  Send: "\<not> sending st \<Longrightarrow> demo_step rng st (send rng st)"
| Fire: "sent_timers st = s # rest \<Longrightarrow> demo_step rng st (sent_fires s (st\<lparr>sent_timers := rest\<rparr>))"

section \<open>The servers demonstration never shows a stale step\<close>

text \<open>What the remaining timers are, by phase: nothing outside the boot, and in the boot the rest of its three.\<close>

definition actions :: "servers_state \<Rightarrow> action list" where
  "actions st = map (\<lambda>(i, due, run). run) (pending st)"

definition servers_ok :: "servers_state \<Rightarrow> bool" where
  "servers_ok st \<longleftrightarrow>
     sorted_wrt (\<lambda>(i, d, r) (i', d', r'). d < d' \<and> i \<noteq> i') (pending st) \<and>
     (\<forall>(i, d, r) \<in> set (pending st). i < next_id st \<and> i \<in> set (timers st)) \<and>
     (case phase st of
        Serving \<Rightarrow> pending st = [] \<and> step st = -1
      | Wiped \<Rightarrow> pending st = [] \<and> step st = -1
      | Booting \<Rightarrow>
          step st = 0 \<and> actions st = [SetStep 1, SetStep 2, SetPhase Restored] \<or>
          step st = 1 \<and> actions st = [SetStep 2, SetPhase Restored] \<or>
          step st = 2 \<and> actions st = [SetPhase Restored]
      | Restored \<Rightarrow> pending st = [] \<and> step st = 2)"

lemma fire_first:
  assumes sorted: "sorted_wrt (\<lambda>(i, d, r) (i', d', r'). d < (d' :: rat) \<and> i \<noteq> i') ps"
    and mem: "(i, due, run) \<in> set ps" and first: "\<forall>(j, due', run') \<in> set ps. due \<le> due'"
  obtains rest where "ps = (i, due, run) # rest" "filter (\<lambda>(j, due', run'). j \<noteq> i) ps = rest"
proof (cases ps)
  case (Cons p rest)
  obtain j d r where p: "p = (j, d, r)" by (cases p)
  have "(i, due, run) = p"
  proof (rule ccontr)
    assume "(i, due, run) \<noteq> p"
    with mem Cons have "(i, due, run) \<in> set rest" by auto
    with sorted Cons p have "d < due" by auto
    with first Cons p show False by auto
  qed
  moreover have "filter (\<lambda>(j, due', run'). j \<noteq> i) rest = rest"
    using sorted Cons p \<open>(i, due, run) = p\<close> by (auto simp: filter_id_conv)
  ultimately show ?thesis using that Cons by auto
qed (use mem in simp)

lemma servers_step_ok: "servers_step st st' \<Longrightarrow> servers_ok st \<Longrightarrow> servers_ok st'"
proof (induction rule: servers_step.induct)
  case (Fire i due run st)
  then obtain rest where rest: "pending st = (i, due, run) # rest"
      "filter (\<lambda>(j, due', run'). j \<noteq> i) (pending st) = rest"
    by (auto simp: servers_ok_def elim: fire_first)
  with Fire.prems show ?case
    by (cases "phase st") (auto simp: servers_ok_def actions_def)
qed (auto simp: servers_ok_def wipe_def boot_def reset_def later_def clear_timers_def actions_def)

text \<open>
  The demonstration of disposable servers. From its first render, after any clicks the rendered
  buttons allow and any firing of its timers in due order, no timer is left over in a phase other
  than booting (so none can change a later run), the cold-start steps light up in order, and
  \<open>restored\<close> is shown only with all three steps lit.
\<close>

lemma servers_start_ok: "servers_step\<^sup>*\<^sup>* start_servers st \<Longrightarrow> servers_ok st"
proof (induction rule: rtranclp_induct)
  case base
  show ?case by (simp add: servers_ok_def start_servers_def)
qed (rule servers_step_ok)

lemma booting_pending: "servers_ok st \<Longrightarrow> phase st = Booting \<Longrightarrow> pending st \<noteq> [] \<and> length (pending st) \<le> 3"
  by (auto simp: servers_ok_def actions_def dest!: arg_cong [of _ _ length])

text \<open>While booting, the one possible step is the firing of the first timer.\<close>

lemma booting_step:
  assumes "servers_ok st" "phase st = Booting" "servers_step st st'"
  shows "length (pending st) = Suc (length (pending st'))"
    "if pending st' = [] then phase st' = Restored \<and> step st' = 2 else phase st' = Booting"
proof -
  obtain i due run where fire: "(i, due, run) \<in> set (pending st)" "\<forall>(j, due', run') \<in> set (pending st). due \<le> due'"
      "st' = run_action run (st\<lparr>pending := filter (\<lambda>(j, due', run'). j \<noteq> i) (pending st)\<rparr>)"
    using assms(2,3) by (auto elim: servers_step.cases)
  then obtain rest where rest: "pending st = (i, due, run) # rest" "filter (\<lambda>(j, due', run'). j \<noteq> i) (pending st) = rest"
    using assms(1) by (auto simp: servers_ok_def elim: fire_first)
  then have "pending st' = rest" using fire(3) by (cases run) auto
  then show "length (pending st) = Suc (length (pending st'))"
    "if pending st' = [] then phase st' = Restored \<and> step st' = 2 else phase st' = Booting"
    using assms(1,2) rest fire(3) by (auto simp: servers_ok_def actions_def)
qed

lemma booting_steps:
  assumes "servers_ok st" "phase st = Booting"
  shows "\<exists>st'. (servers_step ^^ length (pending st)) st st'"
    "(servers_step ^^ length (pending st)) st st' \<Longrightarrow> phase st' = Restored \<and> step st' = 2 \<and> pending st' = []"
  using assms
proof (induction "length (pending st)" arbitrary: st)
  case 0
  { case 1 then show ?case using 0 booting_pending by fastforce next case 2 then show ?case using 0 booting_pending by fastforce }
next
  case (Suc n)
  { case 1
    then obtain i due run rest where p: "pending st = (i, due, run) # rest" using Suc.hyps(3) by (cases "pending st") auto
    then have "\<forall>(j, due', run') \<in> set (pending st). due \<le> due'" using 1 by (auto simp: servers_ok_def)
    then obtain st1 where one: "servers_step st st1" using servers_step.Fire [of i due run st] p by auto
    note b = booting_step [OF 1 one]
    have "\<exists>st'. (servers_step ^^ n) st1 st'"
    proof (cases "pending st1 = []")
      case True
      then show ?thesis using b Suc.hyps(3) by auto
    next
      case False
      then show ?thesis using Suc.hyps(1) [of st1] b Suc.hyps(3) servers_step_ok [OF one 1(1)] by simp
    qed
    then show ?case using one Suc.hyps(3) relpowp_Suc_I2 by metis
  next
    case 2
    then obtain st1 where one: "servers_step st st1" "(servers_step ^^ n) st1 st'" using Suc.hyps(3) relpowp_Suc_D2 by metis
    note b = booting_step [OF 2(2,3) one(1)]
    then show ?case
      using Suc.hyps(2) [of st1] one Suc.hyps(3) servers_step_ok [OF one(1) 2(2)] by (cases "pending st1 = []") auto }
qed

text \<open>
  C39: a boot always completes. However the demonstration got to booting from its first render, by
  clicks the rendered buttons allow and timers firing in due order, one to three timers are
  pending; it can take that many further steps, and whichever steps it takes, after that many it shows
  \<open>restored\<close> with all three cold-start steps lit and no timer left.
\<close>

theorem boot_completes:
  assumes "servers_step\<^sup>*\<^sup>* start_servers st" "phase st = Booting" "n = length (pending st)"
  shows "0 < n \<and> n \<le> 3 \<and> (\<exists>st'. (servers_step ^^ n) st st') \<and>
    (\<forall>st'. (servers_step ^^ n) st st' \<longrightarrow> phase st' = Restored \<and> step st' = 2 \<and> pending st' = [])"
  using booting_pending [OF servers_start_ok [OF assms(1)] assms(2)] booting_steps [OF servers_start_ok [OF assms(1)] assms(2)] assms(3) by simp

theorem boot_completes_witness:
  "\<exists>st'. (servers_step ^^ 3) (boot 0 (wipe start_servers)) st' \<and> phase st' = Restored \<and> pending st' = []"
proof -
  have "servers_step start_servers (wipe start_servers)" by (rule Wipe) (simp add: start_servers_def)
  moreover have "servers_step (wipe start_servers) (boot 0 (wipe start_servers))" by (rule Boot) (simp add: wipe_def)
  ultimately have "servers_step\<^sup>*\<^sup>* start_servers (boot 0 (wipe start_servers))" by auto
  moreover have "length (pending (boot 0 (wipe start_servers))) = 3" "phase (boot 0 (wipe start_servers)) = Booting"
    by (simp_all add: boot_def wipe_def later_def start_servers_def)
  ultimately show ?thesis using boot_completes [of "boot 0 (wipe start_servers)" 3] by auto
qed

section \<open>The commit demonstration is a compare-and-swap chain\<close>

definition is_oid :: "string \<Rightarrow> bool" where
  "is_oid s \<longleftrightarrow> length s = 40 \<and> list_all (\<lambda>c. c \<in> set hex_digits) s"

text \<open>
  The list shows at most five commits with the head first; the sequence number counts the turns;
  while a request is out exactly one timer is pending, it carries the current change and sequence
  number, and no response is shown; a response names the head and the current sequence number; and
  after the first turn exactly the head is marked fresh and bears the message of the previous change.
\<close>

definition demo_ok :: "demo_state \<Rightarrow> bool" where
  "demo_ok st \<longleftrightarrow>
     commits st \<noteq> [] \<and> length (commits st) = min 5 (turn st + 1) \<and> seq st = 41 + turn st \<and>
     list_all (\<lambda>c. is_oid (oid c)) (commits st) \<and>
     (if sending st
      then response st = None \<and>
        (\<exists>o'. is_oid o' \<and> sent_timers st =
           [\<lparr>sent_oid = o', sent_message = change_message (current_change st), sent_seq = seq st\<rparr>])
      else sent_timers st = []) \<and>
     (case response st of None \<Rightarrow> True | Some (o', s) \<Rightarrow> o' = oid (hd (commits st)) \<and> s = seq st) \<and>
     (0 < turn st \<longrightarrow>
        fresh (hd (commits st)) = Some True \<and>
        list_all (\<lambda>c. fresh c = Some False) (tl (commits st)) \<and>
        message (hd (commits st)) = change_message (CHANGES ! ((turn st - 1) mod length CHANGES)))"

lemma random_oid_ok: "is_oid (random_oid rng n)"
proof -
  have "nat \<lfloor>math_random rng m * 16\<rfloor> < length hex_digits" for m
  proof -
    have "math_random rng m * 16 < 16" using math_random_bounds [of rng m] by simp
    then have "\<lfloor>math_random rng m * 16\<rfloor> < 16" by (simp only: floor_less_iff of_int_numeral)
    moreover have "length hex_digits = 16" by (simp add: hex_digits_def)
    ultimately show ?thesis by linarith
  qed
  then show ?thesis by (simp add: is_oid_def random_oid_def list_all_iff)
qed

lemma demo_step_ok: "demo_step rng st st' \<Longrightarrow> demo_ok st \<Longrightarrow> demo_ok st'"
proof (induction rule: demo_step.induct)
  case (Send st)
  then show ?case
    by (auto simp: demo_ok_def send_def current_change_def random_oid_ok)
next
  case (Fire st s rest)
  then have s: "sending st" "is_oid (sent_oid s)" "rest = []" "sent_seq s = seq st"
      "sent_message s = change_message (current_change st)"
    by (auto simp: demo_ok_def split: if_splits)
  with Fire show ?case
    by (auto simp: demo_ok_def sent_fires_def current_change_def list_all_iff take_map dest: in_set_takeD)
qed

text \<open>
  The commit demonstration tells the API's story truthfully. After any clicks and timer firings
  it shows at most five commits, head first; a request is in flight exactly while one timer is
  pending; every id is forty hexadecimal digits; the request's \<open>expected_head_oid\<close> abbreviates the
  head; and a shown \<open>201\<close> names the head and the sequence number of the commit it created.
\<close>

theorem demo_reachable_ok:
  "(demo_step rng)\<^sup>*\<^sup>* start_demo st \<Longrightarrow> demo_ok st"
proof (induction rule: rtranclp_induct)
  case base
  show ?case by (simp add: demo_ok_def start_demo_def is_oid_def hex_digits_def)
qed (rule demo_step_ok)

theorem demo_reachable_ok_witness: "demo_ok (send (\<lambda>n. 0) start_demo)"
proof (rule demo_reachable_ok)
  show "(demo_step (\<lambda>n. 0))\<^sup>*\<^sup>* start_demo (send (\<lambda>n. 0) start_demo)"
    by (rule r_into_rtranclp, rule demo_step.Send) (simp add: start_demo_def)
qed

section \<open>The tilting card\<close>

text \<open>
  The card's tilt is bounded. A pointer inside the card, whose rectangle has an area, tilts it
  by at most four degrees about the horizontal and five about the vertical axis.
\<close>

theorem tilt_bounded:
  assumes "0 < rect_width r" "0 < rect_height r"
    and "rect_left r \<le> x" "x \<le> rect_left r + rect_width r"
    and "rect_top r \<le> y" "y \<le> rect_top r + rect_height r"
  shows "case onMove ''mouse'' x y (Some r) False tilt of (a, b) \<Rightarrow> \<bar>a\<bar> \<le> 4 \<and> \<bar>b\<bar> \<le> 5"
proof -
  define u v where "u = (x - rect_left r) / rect_width r" and "v = (y - rect_top r) / rect_height r"
  have "0 \<le> u" "u \<le> 1" "0 \<le> v" "v \<le> 1" using assms by (simp_all add: divide_le_eq u_def v_def)
  moreover have "onMove ''mouse'' x y (Some r) False tilt = (- (v - 5 / 10) * 8, (u - 5 / 10) * 10)"
    by (simp add: onMove_def u_def v_def Let_def)
  ultimately show ?thesis by (simp add: abs_le_iff)
qed

theorem tilt_bounded_witness:
  "case onMove ''mouse'' 30 20 (Some \<lparr>rect_left = 0, rect_top = 0, rect_width = 100, rect_height = 40\<rparr>) False (0, 0)
   of (a, b) \<Rightarrow> \<bar>a\<bar> \<le> 4 \<and> \<bar>b\<bar> \<le> 5"
  by (rule tilt_bounded) simp_all

end
