(* ===== verification/Landing.thy ===== *)
theory Landing
  imports Landing_Demos
begin

text \<open>
  The landing page: the hero (\<^verbatim>\<open>site/src/lib/components/landing/hero.tsx\<close>) over the field of
  repositories, and the page that composes the scenes (\<^verbatim>\<open>site/src/app/page.tsx\<close>).
\<close>

section \<open>The hero (hero.tsx)\<close>

definition SAMPLE_NAMES :: "string list" where
  "SAMPLE_NAMES = [''mina/landing-page'', ''u_8f2c41/todo-app'', ''kai/portfolio'', ''acme/site'', ''junho/game-jam'',
     ''sora/recipes'', ''team-42/dashboard'']"

definition hex :: "nat \<Rightarrow> nat \<Rightarrow> string" where
  "hex seed salt = map (\<lambda>i. hex_digits ! ((seed * 7919 + salt * 104729 + i * 31337) mod 16)) [0..<7]"

definition sample_name :: "nat \<Rightarrow> string" where
  "sample_name i = SAMPLE_NAMES ! (i mod length SAMPLE_NAMES)"

definition log_id :: "push_sample option \<Rightarrow> nat" where
  "log_id s = (case s of None \<Rightarrow> 0 | Some smp \<Rightarrow> sample_id smp)"

definition RepositoryField :: "field_state \<Rightarrow> node" where
  "RepositoryField fld =
     El ''canvas''
       [(''ref'', Fn ''canvasRef''), (''role'', Str ''img''),
        (''aria-label'',
         Str (''A field of '' @ en_us 3 (of_int (cells fld)) @
                '' repositories. Most are idle; the few being pushed to light up and cool down.'')),
        (''className'', Str ''absolute inset-0 size-full touch-pan-y'')] []"

definition PushLog :: "push_sample option \<Rightarrow> node" where
  "PushLog sample =
     El ''div''
       [(''aria-hidden'', Str ''true''),
        (''className'',
         Str
           ''w-fit max-w-full overflow-hidden rounded-control border border-border bg-background/85 px-4 py-3 font-mono text-body-sm leading-relaxed shadow-md backdrop-blur md:text-label'')]
     [El ''p'' [(''className'', Str ''text-foreground'')]
        [El ''span'' [(''className'', Str ''text-primary'')] [Text ''$''],
         Text '' git push origin main''],
      El ''div''
        [(''key'', Num (of_nat (log_id sample))),
         (''className'', Str ''animate-in fade-in slide-in-from-bottom-1 duration-base'')]
        [El ''p'' [(''className'', Str ''truncate text-soft-foreground'')]
           ([Text ''To git.your-platform.dev/''] @ [Text (sample_name (log_id sample))] @
              [Text ''.git'']),
         El ''p'' [(''className'', Str ''whitespace-pre text-soft-foreground'')]
           ([Text ''   ''] @ [Text (hex (log_id sample) 1)] @ [Text ''..''] @
              [Text (hex (log_id sample) 2)] @ [Text ''  main -> main''])]]"

definition Hero :: "ui \<Rightarrow> field_state \<Rightarrow> nat \<Rightarrow> push_sample option \<Rightarrow> node" where
  "Hero L fld pushes sample =
     El ''section''
       [(''className'', Str ''relative isolate overflow-hidden border-b border-border'')]
       [El ''div'' [(''className'', Str ''absolute inset-0 -z-10'')]
          ([RepositoryField fld,
            El ''div''
              [(''className'',
                Str
                  ''pointer-events-none absolute inset-0 bg-gradient-to-b from-background/85 via-background/70 to-background/30 md:bg-gradient-to-r md:from-background md:from-30% md:via-background/70 md:via-50% md:to-transparent md:to-75%'')]
            [],
            El ''div''
              [(''className'',
                Str
                  ''pointer-events-none absolute inset-x-0 bottom-0 h-24 bg-gradient-to-t from-background to-transparent'')]
            []] @ (if sample \<noteq> None then
                     [El ''div''
                        [(''key'', Num (of_nat (sample_id (the sample)))),
                         (''aria-hidden'', Str ''true''),
                         (''className'',
                          Str
                            ''pointer-events-none absolute animate-out fade-out fill-mode-forwards delay-1500 duration-500''),
                         (''style'',
                          Obj
                            [(''left'', Num (sample_x (the sample))),
                             (''top'', Num (sample_y (the sample)))])]
                        [El ''span''
                           [(''className'',
                             Str
                               ''absolute -top-px -left-px size-2 -translate-x-1/2 -translate-y-1/2 animate-ping rounded-full bg-primary'')]
                         [],
                         El ''span''
                           [(''className'',
                             Str (''absolute -translate-y-1/2 animate-in fade-in '' @
                                    (if sample_width (the sample) - 280 < sample_x (the sample) then
                                     ''right-3 slide-in-from-right-1'' else
                                       ''left-3 slide-in-from-left-1'')))]
                           [El ''span''
                              [(''className'',
                                Str
                                  ''block rounded-control border border-primary/40 bg-background/90 px-2.5 py-1 font-mono text-label whitespace-nowrap text-foreground shadow-md backdrop-blur'')]
                            ([Text (sample_name (sample_id (the sample)))] @
                               [Text '' '',
                                El ''span'' [(''className'', Str ''text-primary'')]
                                  [Text ''pushed'']])]]] else [])),
        El ''div''
          [(''className'',
            Str
              ''pointer-events-none mx-auto flex min-h-[min(46rem,calc(100svh-var(--appbar-height)))] max-w-content flex-col justify-between gap-16 px-gutter pt-20 pb-10 md:pt-28'')]
        [El ''div'' [(''className'', Str ''max-w-2xl'')]
           [El ''h1'' [(''className'', Str ''text-hero text-balance text-foreground'')]
              [Text ''Pay for pushes, not repositories.''],
            El ''p'' [(''className'', Str ''mt-6 max-w-[38ch] text-lede text-soft-foreground'')]
              [Text
                 ''Open-source git hosting that keeps every repository in your own S3 bucket. An idle one costs its bytes and nothing else.''],
            El ''div'' [(''className'', Str ''pointer-events-auto mt-10 flex flex-wrap gap-3'')]
              [Button L None None (Some ''lg'') (Some True) []
                 [El ''Link'' [(''href'', Str ''/docs'')] [Text ''Read the docs'']],
               Button L (Some ''bg-background/70 backdrop-blur'') (Some ''outline'') (Some ''lg'')
                 (Some True) []
                 [El ''a'' [(''href'', Str REPOSITORY_URL), (''rel'', Str ''noreferrer'')]
                    [Text ''Source on GitHub'']]]],
         El ''div'' [(''className'', Str ''space-y-6'')]
           [PushLog sample,
            El ''dl'' [(''className'', Str ''flex flex-wrap items-end gap-x-10 gap-y-4'')]
              [El ''div'' [(''className'', Str ''flex items-center gap-3'')]
                 [El ''span''
                    [(''aria-hidden'', Str ''true''),
                     (''className'',
                      Str ''size-3 rounded-[3px] bg-accent ring-1 ring-border-strong/60'')] [],
                  El ''dt'' [(''className'', Str ''text-label text-soft-foreground'')]
                    [Text ''Idle repository''],
                  El ''dd'' [(''className'', Str ''sr-only'')]
                    [Text ''costs its bytes in the bucket'']],
               El ''div'' [(''className'', Str ''flex items-center gap-3'')]
                 [El ''span''
                    [(''aria-hidden'', Str ''true''),
                     (''className'', Str ''size-3 rounded-[3px] bg-primary'')] [],
                  El ''dt'' [(''className'', Str ''text-label text-soft-foreground'')]
                    [Text ''Being pushed to''],
                  El ''dd'' [(''className'', Str ''sr-only'')]
                    [Text ''the only repositories gitcask does work for'']],
               El ''div'' [(''className'', Str ''flex items-baseline gap-2'')]
                 [El ''dd''
                    [(''className'', Str ''text-display-sm text-foreground tabular-nums''),
                     (''aria-live'', Str ''off'')] [Text (nat_str pushes)],
                  El ''dt'' [(''className'', Str ''text-label text-soft-foreground'')]
                    [Text ''pushes in the last five seconds'']]]]]]"

text \<open>The hero's state follows the callbacks of the field: \<open>onPush\<close> and \<open>onSample\<close>.\<close>

record hero_state =
  pushes :: nat
  sample :: "push_sample option"

definition start_hero :: hero_state where
  "start_hero = \<lparr>pushes = 0, sample = None\<rparr>"

fun hero_callback :: "callback \<Rightarrow> hero_state \<Rightarrow> hero_state" where
  "hero_callback (OnPush count) st = st\<lparr>pushes := count\<rparr>"
| "hero_callback (OnSample next) st = st\<lparr>sample := Some next\<rparr>"

definition hero_after :: "callback list \<Rightarrow> hero_state" where
  "hero_after cs = foldl (\<lambda>st c. hero_callback c st) start_hero cs"

section \<open>The page (app/page.tsx)\<close>

record landing_state =
  fld :: field_state
  hero :: hero_state
  cost :: cost_state
  hot_shown :: rat
  bucket_shown :: rat
  servers_st :: servers_state
  view :: view
  tilt :: "rat \<times> rat"
  demo :: demo_state

definition Scene :: "ui \<Rightarrow> string \<Rightarrow> bool option \<Rightarrow> node list \<Rightarrow> node" where
  "Scene L statement tinted children =
     El ''section''
       [(''className'',
         Str (cn L
                [(Some ''py-24 md:py-32''),
                 (if or_default False tinted then Some ''bg-muted/60'' else None)]))]
       [El ''div'' [(''className'', Str ''mx-auto max-w-content px-gutter'')]
          [El ''h2''
             [(''className'', Str ''max-w-[18ch] text-statement text-balance text-foreground'')]
             [Text statement], El ''div'' [(''className'', Str ''mt-12 md:mt-16'')] children]]"

definition LandingPage :: "ui \<Rightarrow> landing_state \<Rightarrow> node" where
  "LandingPage L st =
     El ''main'' []
       [Hero L (fld st) (pushes (hero st)) (sample (hero st)),
        Scene L ''Storage at bucket prices.'' None
          [StorageCost L (cost st) (hot_shown st) (bucket_shown st)],
        Scene L ''Lose every server. Lose nothing.'' (Some True)
          [DisposableServers L (servers_st st)],
        Scene L ''Your users stay in your database.'' None [UserSync L (view st) (tilt st)],
        Scene L ''Agents commit without a clone.'' (Some True) [CommitDemo L (demo st)],
        Scene L ''Yours to run.'' None
          [El ''div''
             [(''className'', Str ''grid gap-12 lg:grid-cols-[minmax(0,22rem)_1fr] lg:gap-16'')]
             [El ''div'' []
                [El ''p'' [(''className'', Str ''text-lede text-soft-foreground'')]
                   [Text
                      ''Apache-2.0, one binary, your bucket. Any S3-compatible store works, and any number of servers can share it.''],
                 El ''div'' [(''className'', Str ''mt-8 flex flex-wrap gap-3'')]
                   [Button L None None (Some ''lg'') (Some True) []
                      [El ''Link'' [(''href'', Str ''/docs/quickstart'')]
                         [Text ''Run the quickstart'']],
                    Button L None (Some ''outline'') (Some ''lg'') (Some True) []
                      [El ''a'' [(''href'', Str REPOSITORY_URL), (''rel'', Str ''noreferrer'')]
                         [Text ''GitHub'']]],
                 El ''p'' [(''className'', Str ''mt-10 text-body text-soft-foreground'')]
                   [Text ''Building with an agent? Point it at'', Text '' '',
                    El ''a''
                      [(''href'', Str ''/llms.txt''),
                       (''className'',
                        Str ''font-mono text-primary underline-offset-4 hover:underline'')]
                      [Text ''/llms.txt''], Text ''.'']],
              CodeBlock L QUICKSTART_SCRIPT None (Some ''Push to a local gitcask in five minutes'')
                (Some ''min-w-0 bg-card'')]],
        El ''footer''
          [(''className'',
            Str
              ''mx-auto flex max-w-content flex-col gap-6 px-gutter py-16 md:flex-row md:items-center md:justify-between'')]
        [El ''Link''
           [(''href'', Str ''/''),
            (''className'', Str ''flex items-center gap-2 text-title-md text-foreground'')]
           [BrandMark (Some ''size-6 text-primary''), Text ''gitcask''],
         El ''p'' [(''className'', Str ''text-label text-soft-foreground'')]
           [Text (''The design of Cursor'' @ u_rsquo @ ''s''), Text '' '',
            El ''a''
              [(''href'', Str ''https://cursor.com/blog/git-at-any-scale''),
               (''rel'', Str ''noreferrer''),
               (''className'', Str ''text-foreground underline-offset-4 hover:underline'')]
              [Text ''Git at any scale''], Text '', forked from'', Text '' '',
            El ''a''
              [(''href'', Str ''https://github.com/tobi/walgit''), (''rel'', Str ''noreferrer''),
               (''className'', Str ''text-foreground underline-offset-4 hover:underline'')]
              [Text ''walgit''], Text ''. Apache-2.0.'']]]"

section \<open>What the hero shows\<close>

lemma hex_digit_at: "i < 7 \<Longrightarrow> hex seed salt ! i = hex_digits ! ((seed * 7919 + salt * 104729 + i * 31337) mod 16)"
  by (simp add: hex_def)

lemma distinct_hex_digits: "distinct hex_digits"
  by (simp add: hex_digits_def)

text \<open>
  The push log never shows an empty push. For every sample the abbreviated ids before and after
  the push that the log prints are seven hexadecimal digits and differ in every digit.
\<close>

theorem push_log_ids_differ:
  "length (hex seed 1) = 7 \<and> length (hex seed 2) = 7 \<and> list_all2 (\<noteq>) (hex seed 1) (hex seed 2)"
proof -
  have "hex seed 1 ! i \<noteq> hex seed 2 ! i" if "i < 7" for i
  proof -
    let ?a = "seed * 7919 + 1 * 104729 + i * 31337" and ?b = "seed * 7919 + 2 * 104729 + i * 31337"
    have "?b mod 16 \<noteq> ?a mod 16" using mod_eq_dvd_iff_nat [of ?a ?b 16] by simp
    moreover have "length hex_digits = 16" by (simp add: hex_digits_def)
    ultimately have "hex_digits ! (?a mod 16) \<noteq> hex_digits ! (?b mod 16)"
      by (simp add: nth_eq_iff_index_eq [OF distinct_hex_digits])
    then show ?thesis using that by (simp add: hex_digit_at)
  qed
  then show ?thesis by (auto simp: list_all2_conv_all_nth hex_def)
qed

text \<open>The number under the field is the last number the field reported.\<close>

lemma hero_pushes:
  "pushes (hero_after (cs @ [OnPush n])) = n" "pushes (hero_after (cs @ [OnSample s])) = pushes (hero_after cs)"
  by (simp_all add: hero_after_def)

end
