(* ===== verification/Site_Llms.thy ===== *)
theory Site_Llms
  imports Site_Content Site_Docs
begin

text \<open>
  The generator of the agent-facing documentation (\<^verbatim>\<open>site/scripts/llms.mjs\<close>) with the functions of
  Node's \<^verbatim>\<open>path.posix\<close> it calls. The files under \<^verbatim>\<open>public/\<close> are a map from paths
  relative to it; reading a repository file is the argument \<open>read\<close>, \<open>None\<close> where
  \<open>readFile\<close> rejects. Documents are byte strings, white space is that of ASCII.
\<close>

section \<open>Documents\<close>

record doc =
  source :: string
  doc_name :: string
  description :: string
  fence :: "string option"

definition llms_doc :: "string \<Rightarrow> string \<Rightarrow> string \<Rightarrow> string option \<Rightarrow> doc" where
  "llms_doc s n d f = \<lparr>source = s, doc_name = n, description = d, fence = f\<rparr>"

definition GROUPS :: "(string \<times> doc list) list" where
  "GROUPS =
     [(''Start'',
       [llms_doc ''README.md'' ''readme''
          ''What gitcask is, a five-minute local run, how it works, running it in production'' None,
        llms_doc ''GOAL.md'' ''goal''
          ''The target, the acceptance table, and what gitcask does not optimise for'' None,
        llms_doc ''docs/PRODUCT.md'' ''product''
          ''Core versus platform, open source versus cloud, and what is out of scope'' None]),
      (''Design'',
       [llms_doc ''AGENTS.md'' ''architecture''
          ''Constraints, the WAL, principles and every design decision in force'' None,
        llms_doc ''docs/ROUNDTRIPS.md'' ''roundtrips''
          ''Round trips as the cost model, with the per-operation budgets'' None,
        llms_doc ''docs/CONTRACT.md'' ''contract'' ''The cross-crate contract'' None,
        llms_doc ''docs/DIRECTION.md'' ''direction''
          ''How this fork differs from walgit, and the operating decisions'' None]),
      (''Reference'',
       [llms_doc ''SECURITY.md'' ''security''
          ''Vulnerability reporting and the mixed direct and trusted-proxy authentication contract''
        None,
        llms_doc ''docs/INITIALIZE.md'' ''initialize''
          ''Initializing a pristine repository from a pinned tree'' None,
        llms_doc ''docs/IMPORT.md'' ''import''
          ''Full-history pristine import: pinning, receipts and bounds'' None,
        llms_doc ''docs/EVENTS.md'' ''events'' ''WAL-derived ref events and the webhook bridge''
          None, llms_doc ''docs/LFS.md'' ''lfs'' ''LFS objects in the store'' None,
        llms_doc ''docs/INTEGRITY.md'' ''integrity''
          ''The object-integrity invariant and the fsck audit'' None]),
      (''Operate'',
       [llms_doc ''docs/OPERATIONS.md'' ''operations''
          ''Metrics, symptom-first diagnosis, capacity, incidents and recovery'' None,
        llms_doc ''docs/MIGRATION.md'' ''migration'' ''Migrating repositories from Gitea'' None,
        llms_doc ''gitcask.example.toml'' ''config''
          ''Every configuration key with its default and a comment'' (Some ''toml'')]),
      (''Optional'',
       [llms_doc ''docs/RELEASING.md'' ''releasing'' ''How releases are prepared and published''
          None,
        llms_doc ''CONTRIBUTING.md'' ''contributing'' ''Development, tests and DCO requirements''
          None])]"

definition SUMMARY :: string where
  "SUMMARY =
     (''An open-source (Apache-2.0), stateless git server that keeps every repository as a write-ahead log in S3-compatible object storage. ''
      @
        ''No database and no leader; any instance serves any repository, and cost scales with pushes rather than with ''
      @ ''the number of repositories.'')"

definition NAMES :: "(string \<times> string) list" where
  "NAMES = concat (map (\<lambda>(title, docs). map (\<lambda>d. (source d, doc_name d)) docs) GROUPS)"

section \<open>\<open>path.posix\<close>\<close>

text \<open>
  \<open>resolve_segments\<close> folds the segments of a relative path: empty segments and \<open>.\<close> vanish, \<open>..\<close>
  removes the segment before it, and stays when there is none to remove.
\<close>

definition segment_step :: "string list \<Rightarrow> string \<Rightarrow> string list" where
  "segment_step acc seg =
     (if seg = '''' \<or> seg = ''.'' then acc
      else if seg = ''..'' then (if acc \<noteq> [] \<and> last acc \<noteq> ''..'' then butlast acc else acc @ [seg])
      else acc @ [seg])"

text \<open>In an absolute path \<open>..\<close> at the root vanishes.\<close>

definition segment_step_abs :: "string list \<Rightarrow> string \<Rightarrow> string list" where
  "segment_step_abs acc seg =
     (if seg = '''' \<or> seg = ''.'' then acc
      else if seg = ''..'' then butlast acc
      else acc @ [seg])"

definition normalize :: "string \<Rightarrow> string" where
  "normalize p =
     (if p = '''' then ''.''
      else let absolute = starts_with ''/'' p; trailing = ends_with ''/'' p;
               body = join_with ''/'' (foldl (if absolute then segment_step_abs else segment_step) []
                        (split_on (CHR ''/'') p))
           in if body = ''''
              then (if absolute then ''/'' else if trailing then ''./'' else ''.'')
              else (if absolute then ''/'' else '''') @ body @ (if trailing then ''/'' else ''''))"

definition join_paths :: "string \<Rightarrow> string \<Rightarrow> string" where
  "join_paths a b =
     (case filter (\<lambda>s. s \<noteq> '''') [a, b] of [] \<Rightarrow> ''.'' | ps \<Rightarrow> normalize (join_with ''/'' ps))"

text \<open>\<open>dirname\<close> of a relative path without a trailing slash.\<close>

definition dirname :: "string \<Rightarrow> string" where
  "dirname p = (case butlast (split_on (CHR ''/'') p) of [] \<Rightarrow> ''.'' | ds \<Rightarrow> join_with ''/'' ds)"

text \<open>\<open>extname\<close>: from the last dot of the last segment, unless that dot is its first character or the segment is \<open>..\<close>.\<close>

definition base_segment :: "string \<Rightarrow> string" where
  "base_segment p = (case filter (\<lambda>s. s \<noteq> '''') (split_on (CHR ''/'') p) of [] \<Rightarrow> '''' | ss \<Rightarrow> last ss)"

definition extname :: "string \<Rightarrow> string" where
  "extname p =
     (let b = base_segment p; ext = rev (takeWhile (\<lambda>c. c \<noteq> CHR ''.'') (rev b))
      in if CHR ''.'' \<notin> set b \<or> length ext + 1 = length b \<or> b = ''..'' then '''' else ''.'' @ ext)"

section \<open>Rewriting links\<close>

text \<open>
  The expression \<^verbatim>\<open>/\]\((?!https?:|mailto:|#)([^)\s]+)\)/g\<close>: at a closing bracket and an opening
  parenthesis, unless one of the excluded prefixes follows, the longest non-empty run without white
  space and closing parenthesis, then a closing parenthesis.
\<close>

definition excluded :: "string \<Rightarrow> bool" where
  "excluded s = (starts_with ''http:'' s \<or> starts_with ''https:'' s \<or> starts_with ''mailto:'' s \<or> starts_with ''#'' s)"

definition target_char :: "char \<Rightarrow> bool" where
  "target_char c = (c \<noteq> CHR '')'' \<and> \<not> js_space c)"

definition match_link :: "string \<Rightarrow> string option" where
  "match_link s =
     (if starts_with ''](''  s \<and> \<not> excluded (drop 2 s)
      then let t = takeWhile target_char (drop 2 s); r = dropWhile target_char (drop 2 s)
           in if t \<noteq> '''' \<and> r \<noteq> '''' \<and> hd r = CHR '')'' then Some t else None
      else None)"

text \<open>The replacement: the piece before the first \<open>#\<close> is the file, the piece after it the anchor.\<close>

definition link_file :: "string \<Rightarrow> string" where
  "link_file t = hd (split_on (CHR ''#'') t)"

definition link_anchor :: "string \<Rightarrow> string" where
  "link_anchor t =
     (case split_on (CHR ''#'') t of
        f # h # rest \<Rightarrow> if h \<noteq> '''' then ''#'' @ h else ''''
      | _ \<Rightarrow> '''')"

definition resolve_link :: "string \<Rightarrow> string \<Rightarrow> string" where
  "resolve_link src t =
     (let resolved = normalize (join_paths (dirname src) (link_file t)); anchor = link_anchor t in
      case map_of NAMES resolved of
        Some name \<Rightarrow> ''/llms/'' @ name @ ''.md'' @ anchor
      | None \<Rightarrow> REPOSITORY_URL @ ''/'' @ (if extname resolved \<noteq> '''' then ''blob'' else ''tree'') @
                  ''/main/'' @ resolved @ anchor)"

function rewriteLinks :: "string \<Rightarrow> string \<Rightarrow> string" where
  "rewriteLinks src [] = []"
| "rewriteLinks src (c # s) =
     (case match_link (c # s) of
        Some t \<Rightarrow> ''](''  @ resolve_link src t @ '')'' @ rewriteLinks src (drop (length t + 3) (c # s))
      | None \<Rightarrow> c # rewriteLinks src s)"
  by pat_completeness auto
termination by (relation "measure (\<lambda>(src, s). length s)") auto

section \<open>Writing the files\<close>

definition trim_end :: "string \<Rightarrow> string" where
  "trim_end s = rev (dropWhile js_space (rev s))"

abbreviation backticks :: string where
  "backticks \<equiv> [CHR 0x60, CHR 0x60, CHR 0x60]"

definition doc_body :: "doc \<Rightarrow> string \<Rightarrow> string" where
  "doc_body d raw =
     (case fence d of
        Some f \<Rightarrow> ''# '' @ source d @ nl @ nl @ backticks @ f @ nl @ trim_end raw @ nl @ backticks @ nl
      | None \<Rightarrow> rewriteLinks (source d) raw)"

definition doc_path :: "doc \<Rightarrow> string" where
  "doc_path d = ''llms/'' @ doc_name d @ ''.md''"

record llms_state =
  files :: "string \<rightharpoonup> string"
  index_lines :: "string list"
  full_lines :: "string list"

text \<open>A file \<open>readFile\<close> cannot read ends the run; the files written before stay.\<close>

datatype llms_error = Missing string "string \<rightharpoonup> string"

definition head_lines :: "string list" where
  "head_lines = [''# gitcask'', '''', ''> '' @ SUMMARY, '''']"

definition start_llms :: "(string \<rightharpoonup> string) \<Rightarrow> llms_state" where
  "start_llms public = \<lparr>
     files = (\<lambda>p. if starts_with ''llms/'' p then None else public p),
     index_lines = head_lines @
       [''Each link below is the canonical document, verbatim. '' @ [CHR 0x60] @ ''/llms-full.txt'' @ [CHR 0x60] @
          '' has all of them in one file.'',
        ''Source repository: '' @ REPOSITORY_URL, ''''],
     full_lines = head_lines\<rparr>"

definition index_line :: "doc \<Rightarrow> string" where
  "index_line d = ''- ['' @ source d @ ''](/llms/'' @ doc_name d @ ''.md): '' @ description d"

definition write_doc :: "(string \<Rightarrow> string option) \<Rightarrow> doc \<Rightarrow> llms_state \<Rightarrow> (llms_error, llms_state) result" where
  "write_doc read d st =
     (case read (source d) of
        None \<Rightarrow> Inl (Missing (source d) (files st))
      | Some raw \<Rightarrow>
          let body = doc_body d raw in
          Inr (st\<lparr>files := (files st)(doc_path d \<mapsto> body), index_lines := index_lines st @ [index_line d],
                  full_lines := full_lines st @ [''<!-- '' @ source d @ '' -->'', '''', trim_end body, '''']\<rparr>))"

fun write_docs :: "(string \<Rightarrow> string option) \<Rightarrow> doc list \<Rightarrow> llms_state \<Rightarrow> (llms_error, llms_state) result" where
  "write_docs read [] st = Inr st"
| "write_docs read (d # ds) st =
     (case write_doc read d st of Inl e \<Rightarrow> Inl e | Inr st' \<Rightarrow> write_docs read ds st')"

definition add_index :: "string list \<Rightarrow> llms_state \<Rightarrow> llms_state" where
  "add_index ls st = st\<lparr>index_lines := index_lines st @ ls\<rparr>"

fun write_groups ::
  "(string \<Rightarrow> string option) \<Rightarrow> (string \<times> doc list) list \<Rightarrow> llms_state \<Rightarrow> (llms_error, llms_state) result" where
  "write_groups read [] st = Inr st"
| "write_groups read ((title, docs) # gs) st =
     (case write_docs read docs (add_index [''## '' @ title, ''''] st) of
        Inl e \<Rightarrow> Inl e
      | Inr st' \<Rightarrow> write_groups read gs (add_index [''''] st'))"

definition main :: "(string \<Rightarrow> string option) \<Rightarrow> (string \<rightharpoonup> string) \<Rightarrow> (llms_error, string \<rightharpoonup> string) result" where
  "main read public =
     (case write_groups read GROUPS (start_llms public) of
        Inl e \<Rightarrow> Inl e
      | Inr st \<Rightarrow>
          Inr ((files st)(''llms.txt'' \<mapsto> join_with nl (index_lines st),
                          ''llms-full.txt'' \<mapsto> join_with nl (full_lines st))))"

section \<open>What a run writes\<close>

definition all_docs :: "doc list" where
  "all_docs = concat (map snd GROUPS)"

definition body_of :: "(string \<Rightarrow> string option) \<Rightarrow> doc \<Rightarrow> string" where
  "body_of read d = doc_body d (the (read (source d)))"

definition doc_files :: "(string \<Rightarrow> string option) \<Rightarrow> doc list \<Rightarrow> (string \<times> string) list" where
  "doc_files read ds = rev (map (\<lambda>d. (doc_path d, body_of read d)) ds)"

definition full_part :: "(string \<Rightarrow> string option) \<Rightarrow> doc \<Rightarrow> string list" where
  "full_part read d = [''<!-- '' @ source d @ '' -->'', '''', trim_end (body_of read d), '''']"

definition group_lines :: "string \<times> doc list \<Rightarrow> string list" where
  "group_lines g = [''## '' @ fst g, ''''] @ map index_line (snd g) @ ['''']"

definition readable :: "(string \<Rightarrow> string option) \<Rightarrow> doc list \<Rightarrow> bool" where
  "readable read ds = list_all (\<lambda>d. read (source d) \<noteq> None) ds"

lemma doc_files_Cons: "doc_files read (d # ds) = doc_files read ds @ [(doc_path d, body_of read d)]"
  by (simp add: doc_files_def)

lemma write_docs_eq:
  "readable read ds \<Longrightarrow> write_docs read ds st = Inr (st\<lparr>
     files := files st ++ map_of (doc_files read ds), index_lines := index_lines st @ map index_line ds,
     full_lines := full_lines st @ concat (map (full_part read) ds)\<rparr>)"
proof (induction ds arbitrary: st)
  case (Cons d ds)
  then obtain raw where "read (source d) = Some raw" by (auto simp: readable_def)
  with Cons show ?case
    by (simp add: write_doc_def readable_def body_of_def doc_files_Cons full_part_def Let_def)
qed (simp add: doc_files_def)

lemma write_groups_eq:
  "readable read (concat (map snd gs)) \<Longrightarrow> write_groups read gs st = Inr (st\<lparr>
     files := files st ++ map_of (doc_files read (concat (map snd gs))),
     index_lines := index_lines st @ concat (map group_lines gs),
     full_lines := full_lines st @ concat (map (full_part read) (concat (map snd gs)))\<rparr>)"
proof (induction gs arbitrary: st)
  case (Cons g gs)
  obtain title docs where g: "g = (title, docs)" by (cases g)
  with Cons have "readable read docs" "readable read (concat (map snd gs))"
    by (simp_all add: readable_def)
  with Cons g show ?case
    by (simp add: write_docs_eq add_index_def group_lines_def doc_files_def map_add_assoc)
qed (simp add: doc_files_def)

lemma all_docs_eq: "all_docs = concat (map snd GROUPS)" "length all_docs = 18"
  by (simp_all add: all_docs_def GROUPS_def)

lemma distinct_docs: "distinct (map source all_docs)" "distinct (map doc_path all_docs)"
  by (simp_all add: all_docs_def GROUPS_def llms_doc_def doc_path_def)

lemma map_of_doc_files:
  assumes "distinct (map doc_path ds)" "d \<in> set ds"
  shows "map_of (doc_files read ds) (doc_path d) = Some (body_of read d)"
  using assms unfolding doc_files_def
  by (intro map_of_is_SomeI) (auto simp: distinct_map rev_map [symmetric] comp_def inj_on_def)

lemma dom_doc_files: "map_of (doc_files read ds) p = None \<longleftrightarrow> p \<notin> doc_path ` set ds"
  by (force simp: map_of_eq_None_iff doc_files_def)

lemma doc_path_llms: "starts_with ''llms/'' (doc_path d)" "doc_path d \<noteq> ''llms.txt''" "doc_path d \<noteq> ''llms-full.txt''"
  by (simp_all add: doc_path_def)

text \<open>
  C37: what a run of the generator leaves under \<^verbatim>\<open>public/\<close>. When every listed source can be read the
  run succeeds; each document has its own file with its own body, none overwritten by another; no
  other file is left under \<^verbatim>\<open>llms/\<close>; the index lists every document exactly once, in order,
  under its group; the full text holds every body in the same order; and all other files are
  untouched.
\<close>

theorem llms_main_writes:
  assumes "readable read all_docs"
  shows "\<exists>fs. main read public = Inr fs \<and>
     (\<forall>d \<in> set all_docs. fs (doc_path d) = Some (doc_body d (the (read (source d))))) \<and>
     (\<forall>p. starts_with ''llms/'' p \<and> p \<notin> doc_path ` set all_docs \<longrightarrow> fs p = None) \<and>
     fs ''llms.txt'' = Some (join_with nl (index_lines (start_llms public) @ concat (map group_lines GROUPS))) \<and>
     fs ''llms-full.txt'' = Some (join_with nl (head_lines @ concat (map (full_part read) all_docs))) \<and>
     (\<forall>p. \<not> starts_with ''llms'' p \<longrightarrow> fs p = public p)"
proof -
  let ?m = "map_of (doc_files read all_docs)"
  let ?fs = "(files (start_llms public) ++ ?m)
    (''llms.txt'' \<mapsto> join_with nl (index_lines (start_llms public) @ concat (map group_lines GROUPS)),
     ''llms-full.txt'' \<mapsto> join_with nl (head_lines @ concat (map (full_part read) all_docs)))"
  have run: "main read public = Inr ?fs"
    using assms by (simp add: main_def write_groups_eq all_docs_def start_llms_def)
  have own: "?fs (doc_path d) = Some (doc_body d (the (read (source d))))" if "d \<in> set all_docs" for d
    using map_of_doc_files [OF distinct_docs(2) that, of read] doc_path_llms
    by (simp add: body_of_def map_add_Some_iff)
  have stale: "?fs p = None" if "starts_with ''llms/'' p" "p \<notin> doc_path ` set all_docs" for p
    using that dom_doc_files [of read all_docs p] by (auto simp: start_llms_def map_add_def)
  have other: "?fs p = public p" if "\<not> starts_with ''llms'' p" for p
  proof -
    have "\<not> starts_with ''llms/'' p" using that by (auto simp: starts_with_iff)
    moreover have "?m p = None" using that by (auto simp: dom_doc_files doc_path_def)
    ultimately show ?thesis using that by (auto simp: start_llms_def map_add_def)
  qed
  show ?thesis using run own stale other by (intro exI [of _ ?fs] conjI) simp_all
qed

theorem llms_main_writes_witness:
  "\<exists>fs. main (\<lambda>s. Some ''text'') Map.empty = Inr fs \<and> fs ''llms/goal.md'' = Some ''text''"
proof -
  have "llms_doc ''GOAL.md'' ''goal''
          ''The target, the acceptance table, and what gitcask does not optimise for'' None \<in> set all_docs"
    by (simp add: all_docs_def GROUPS_def)
  moreover have "rewriteLinks ''GOAL.md'' ''text'' = ''text''"
    by (simp add: match_link_def)
  ultimately show ?thesis
    using llms_main_writes [of "\<lambda>s. Some ''text''" Map.empty]
    by (force simp: readable_def list_all_iff doc_path_def doc_body_def llms_doc_def)
qed

section \<open>What rewriting changes\<close>

text \<open>
  A document is text and the links the expression finds in it, left to right; \<open>plain\<close> puts the
  source back together, \<open>rendered\<close> writes each link's target as \<open>f\<close> says.
\<close>

datatype token = Lit char | Link string

function tokenize :: "string \<Rightarrow> token list" where
  "tokenize [] = []"
| "tokenize (c # s) =
     (case match_link (c # s) of
        Some t \<Rightarrow> Link t # tokenize (drop (length t + 3) (c # s))
      | None \<Rightarrow> Lit c # tokenize s)"
  by pat_completeness auto
termination by (relation "measure length") auto

fun rendered :: "(string \<Rightarrow> string) \<Rightarrow> token list \<Rightarrow> string" where
  "rendered f [] = []"
| "rendered f (Lit c # ts) = c # rendered f ts"
| "rendered f (Link t # ts) = ''](''  @ f t @ '')'' @ rendered f ts"

lemma match_link_split:
  assumes "match_link s = Some t"
  shows "s = ''](''  @ t @ '')'' @ drop (length t + 3) s"
proof -
  from assms have sw: "starts_with ''](''  s" and t: "t = takeWhile target_char (drop 2 s)"
    and r: "dropWhile target_char (drop 2 s) \<noteq> ''''" "hd (dropWhile target_char (drop 2 s)) = CHR '')''"
    by (auto simp: match_link_def Let_def split: if_splits)
  from r obtain rest where rest: "dropWhile target_char (drop 2 s) = CHR '')'' # rest"
    by (cases "dropWhile target_char (drop 2 s)") auto
  have d: "drop 2 s = t @ CHR '')'' # rest" using takeWhile_dropWhile_id [of target_char "drop 2 s"] t rest by simp
  obtain u where u: "s = ''](''  @ u" using sw by (auto simp: starts_with_iff)
  with d show ?thesis by (simp add: numeral_3_eq_3)
qed

lemma match_link_target:
  assumes "match_link s = Some t"
  shows "t \<noteq> ''''" "\<not> excluded t" "list_all target_char t"
proof -
  show "t \<noteq> ''''" using assms by (auto simp: match_link_def Let_def split: if_splits)
  show "list_all target_char t"
    using assms by (auto simp: match_link_def Let_def list_all_iff dest: set_takeWhileD split: if_splits)
  have "\<not> excluded (drop 2 s)" using assms by (auto simp: match_link_def split: if_splits)
  moreover have "drop 2 s = t @ '')'' @ drop (length t + 3) s"
    using match_link_split [OF assms] by (metis append_Cons append_Nil drop_Suc_Cons drop0 numeral_2_eq_2)
  ultimately show "\<not> excluded t" by (auto simp: excluded_def starts_with_iff)
qed

lemma rendered_tokenize: "rendered (\<lambda>t. t) (tokenize s) = s"
proof (induction s rule: tokenize.induct)
  case (2 c s)
  then show ?case using match_link_split [of "c # s"] by (auto split: option.split)
qed simp

lemma tokenize_links: "Link t \<in> set (tokenize s) \<Longrightarrow> t \<noteq> '''' \<and> \<not> excluded t \<and> list_all target_char t"
proof (induction s rule: tokenize.induct)
  case (2 c s)
  then show ?case using match_link_target [of "c # s"] by (auto split: option.splits)
qed simp

lemma rewriteLinks_tokens: "rewriteLinks src s = rendered (resolve_link src) (tokenize s)"
  by (induction src s rule: rewriteLinks.induct) (auto split: option.split)

definition published :: "string \<Rightarrow> bool" where
  "published url \<longleftrightarrow> (\<exists>d \<in> set all_docs. \<exists>anchor. url = ''/'' @ doc_path d @ anchor)"

lemma NAMES_eq: "NAMES = map (\<lambda>d. (source d, doc_name d)) all_docs"
  by (simp add: NAMES_def all_docs_def GROUPS_def)

lemma map_of_NAMES:
  "map_of NAMES p = Some n \<Longrightarrow> \<exists>d \<in> set all_docs. source d = p \<and> doc_name d = n"
  by (auto simp: NAMES_eq dest!: map_of_SomeD)

lemma resolve_link_cases:
  "published (resolve_link src t) \<or> starts_with (REPOSITORY_URL @ ''/'') (resolve_link src t)"
proof (cases "map_of NAMES (normalize (join_paths (dirname src) (link_file t)))")
  case None
  then have "resolve_link src t = REPOSITORY_URL @ ''/'' @ drop (length REPOSITORY_URL + 1) (resolve_link src t)"
    by (simp add: resolve_link_def Let_def)
  then show ?thesis by (metis append.assoc starts_with_append)
next
  case (Some n)
  then obtain d where "d \<in> set all_docs" "doc_name d = n" using map_of_NAMES by blast
  with Some show ?thesis
    by (auto simp: resolve_link_def published_def doc_path_def Let_def)
qed

text \<open>
  Rewriting changes link targets and nothing else. A document is cut into text and relative
  links so that nothing is lost; the rewritten document is the same text with each relative link's
  target replaced; and each replacement is the \<^verbatim>\<open>/llms\<close> address of a published document or a
  URL of the source repository, so no relative target survives.
\<close>

theorem rewriteLinks_correct:
  "rendered (\<lambda>t. t) (tokenize md) = md \<and>
   rewriteLinks src md = rendered (resolve_link src) (tokenize md) \<and>
   (\<forall>t. Link t \<in> set (tokenize md) \<longrightarrow>
      published (resolve_link src t) \<or> starts_with (REPOSITORY_URL @ ''/'') (resolve_link src t))"
  using rendered_tokenize rewriteLinks_tokens resolve_link_cases by blast

theorem rewriteLinks_correct_witness:
  "rewriteLinks ''docs/LFS.md'' ''see [goal](../GOAL.md#x)'' = ''see [goal](/llms/goal.md#x)''"
proof -
  have "tokenize ''see [goal](../GOAL.md#x)'' =
      map Lit ''see [goal'' @ [Link ''../GOAL.md#x'']"
    by (simp add: match_link_def excluded_def target_char_def js_space_def Let_def)
  moreover have "resolve_link ''docs/LFS.md'' ''../GOAL.md#x'' = ''/llms/goal.md#x''"
    by (simp add: resolve_link_def link_file_def link_anchor_def dirname_def join_paths_def normalize_def
        ends_with_def segment_step_def NAMES_def GROUPS_def llms_doc_def Let_def)
  ultimately show ?thesis
    using rewriteLinks_correct [of "''see [goal](../GOAL.md#x)''" "''docs/LFS.md''"] by simp
qed

text \<open>A source lies at the root or in one directory; the prefix that climbs out of it.\<close>

definition climb :: "string \<Rightarrow> string" where
  "climb src = (if dirname src = ''.'' then '''' else ''../'')"

lemma source_dirs: "a \<in> set all_docs \<Longrightarrow> dirname (source a) = ''.'' \<or> dirname (source a) = ''docs''"
proof -
  have "list_all (\<lambda>a. dirname (source a) \<in> {''.'', ''docs''}) all_docs" by code_simp
  then show "a \<in> set all_docs \<Longrightarrow> ?thesis" by (auto simp: list_all_iff)
qed

lemma climb_resolves:
  "b \<in> set all_docs \<Longrightarrow> normalize (join_paths ''.'' (source b)) = source b \<and>
     normalize (join_paths ''docs'' (''../'' @ source b)) = source b \<and> CHR ''#'' \<notin> set (source b)"
proof -
  have "list_all (\<lambda>b. normalize (join_paths ''.'' (source b)) = source b \<and>
     normalize (join_paths ''docs'' (''../'' @ source b)) = source b \<and> CHR ''#'' \<notin> set (source b)) all_docs"
    by code_simp
  then show "b \<in> set all_docs \<Longrightarrow> ?thesis" by (auto simp: list_all_iff)
qed

lemma NAMES_of_doc: "b \<in> set all_docs \<Longrightarrow> map_of NAMES (source b) = Some (doc_name b)"
  using distinct_docs(1) by (auto intro!: map_of_is_SomeI simp: NAMES_eq comp_def)

lemma split_anchor:
  "CHR ''#'' \<notin> set f \<Longrightarrow> CHR ''#'' \<notin> set h \<Longrightarrow> split_on (CHR ''#'') (f @ CHR ''#'' # h) = [f, h]"
  by (simp add: split_on_append)

text \<open>
  An agent stays inside the published hierarchy. From any published document, the relative link
  to any other published document, with or without an anchor, is rewritten to that document's
  \<^verbatim>\<open>/llms\<close> address with the same anchor.
\<close>

theorem links_between_documents:
  assumes "a \<in> set all_docs" "b \<in> set all_docs" "CHR ''#'' \<notin> set h" "h \<noteq> ''''"
  shows "resolve_link (source a) (climb (source a) @ source b) = ''/'' @ doc_path b \<and>
         resolve_link (source a) (climb (source a) @ source b @ ''#'' @ h) = ''/'' @ doc_path b @ ''#'' @ h"
proof -
  let ?f = "climb (source a) @ source b"
  have no: "CHR ''#'' \<notin> set ?f" using climb_resolves [OF assms(2)] by (simp add: climb_def)
  have "normalize (join_paths (dirname (source a)) ?f) = source b"
    using source_dirs [OF assms(1)] climb_resolves [OF assms(2)] by (auto simp: climb_def)
  with no NAMES_of_doc [OF assms(2)] show ?thesis
    using split_anchor [OF no assms(3)] assms(4)
    by (simp add: resolve_link_def link_file_def link_anchor_def doc_path_def Let_def)
qed

theorem links_between_documents_witness:
  "resolve_link ''docs/LFS.md'' ''../GOAL.md'' = ''/llms/goal.md''"
proof -
  let ?a = "llms_doc ''docs/LFS.md'' ''lfs'' ''LFS objects in the store'' None"
  let ?b = "llms_doc ''GOAL.md'' ''goal''
      ''The target, the acceptance table, and what gitcask does not optimise for'' None"
  have "?a \<in> set all_docs" "?b \<in> set all_docs" by (simp_all add: all_docs_def GROUPS_def)
  then show ?thesis
    using links_between_documents [of ?a ?b "''x''"] by (simp add: llms_doc_def doc_path_def climb_def dirname_def)
qed

end
