(* ===== verification/Site_Checks.thy ===== *)
theory Site_Checks
  imports Pages_Start Pages_Concepts Pages_Reference Pages_Operate Landing Site_Llms
begin

text \<open>
  Properties that hold of every page of the site: the outline beside a page lists exactly the
  sections the page renders, every link leads somewhere, sibling keys are distinct, tables are
  rectangular, and the pager is consistent. \<open>routes\<close> is the router's view of
  \<^verbatim>\<open>site/src/app\<close>: the pages, each with the anchors it offers.
\<close>

section \<open>What is checked of a tree\<close>

text \<open>The id and the heading of every section, in document order.\<close>

fun children_of :: "node \<Rightarrow> node list" where
  "children_of (Text s) = []"
| "children_of (El t as cs) = cs"

fun outline :: "node \<Rightarrow> (string \<times> string) list" where
  "outline (Text s) = []"
| "outline (El t as cs) =
     (if t = ''section'' then (case str_attr ''id'' as of None \<Rightarrow> [] | Some i \<Rightarrow> [(i, text_of (hd cs))]) else []) @
     concat (map outline cs)"

text \<open>The number of cells of every row below a node; a table is rectangular when they agree.\<close>

fun row_widths :: "node \<Rightarrow> nat list" where
  "row_widths (Text s) = []"
| "row_widths (El t as cs) = (if t = ''tr'' then [length cs] else concat (map row_widths cs))"

fun tables_ok :: "node \<Rightarrow> bool" where
  "tables_ok (Text s) = True"
| "tables_ok (El t as cs) =
     ((t = ''table'' \<longrightarrow> (let ws = concat (map row_widths cs) in list_all (\<lambda>w. w = hd ws) ws)) \<and> list_all tables_ok cs)"

definition routes :: "(string \<times> string list) list" where
  "routes = [(''/'', []),
     (''/docs'', map fst overview_SECTIONS),
     (''/docs/quickstart'', map fst quickstart_SECTIONS),
     (''/docs/architecture'', map fst architecture_SECTIONS),
     (''/docs/cost-model'', map fst cost_model_SECTIONS),
     (''/docs/authentication'', map fst authentication_SECTIONS),
     (''/docs/api'', map fst api_SECTIONS),
     (''/docs/events'', map fst events_SECTIONS),
     (''/docs/initialize-import'', map fst initialize_import_SECTIONS),
     (''/docs/operations'', map fst operations_SECTIONS),
     (''/docs/migration'', map fst migration_SECTIONS)]"

definition generated_files :: "string list" where
  "generated_files = [''/llms.txt'', ''/llms-full.txt''] @ map (\<lambda>d. ''/'' @ doc_path d) all_docs"

text \<open>
  A link is good when it names an anchor of its own page, a page of the site and an anchor that
  page offers, a file the generator writes, or an absolute address.
\<close>

definition href_ok :: "string list \<Rightarrow> string \<Rightarrow> bool" where
  "href_ok own h =
     (if starts_with ''#'' h then tl h \<in> set own
      else if starts_with ''/'' h
      then (case split_on (CHR ''#'') h of
              [p] \<Rightarrow> p \<in> fst ` set routes \<or> p \<in> set generated_files
            | [p, a] \<Rightarrow> (case map_of routes p of None \<Rightarrow> False | Some ids \<Rightarrow> a \<in> set ids)
            | _ \<Rightarrow> False)
      else starts_with ''https://'' h)"

section \<open>Evaluation\<close>

lemmas section_lists =
  overview_SECTIONS_def quickstart_SECTIONS_def architecture_SECTIONS_def cost_model_SECTIONS_def authentication_SECTIONS_def api_SECTIONS_def events_SECTIONS_def initialize_import_SECTIONS_def operations_SECTIONS_def migration_SECTIONS_def

lemma generated_eq: "generated_files = [''/llms.txt'', ''/llms-full.txt''] @
     map (\<lambda>n. ''/llms/'' @ n @ ''.md'') (map snd NAMES)"
  by (simp add: generated_files_def NAMES_eq doc_path_def)

lemma hrefs_simps [simp]:
  "hrefs (Text s) = []"
  "hrefs (El t as cs) = (case str_attr ''href'' as of None \<Rightarrow> [] | Some x \<Rightarrow> [x]) @ concat (map hrefs cs)"
  by (simp_all add: hrefs_def)

lemmas page_simps =
  node_key_def href_ok_def routes_def generated_eq NAMES_def GROUPS_def llms_doc_def metric_def
  Route_def DOCS_eq docHref_def sourceUrl_def REPOSITORY_URL_def PUSH_ROUNDS_def

lemma concat_map_Nil: "concat (map (\<lambda>x. []) xs) = []"
  by (induction xs) simp_all

lemma distinct_str_map: "distinct (concat (map (\<lambda>x. [Str (f x)]) xs)) = distinct (map f xs)"
  by (induction xs) auto

text \<open>Texts, property values and class lists are not looked into unless a check asks for them.\<close>

lemma Text_opaque: "Text s = Text s" by (rule refl)
lemma Str_opaque: "Str s = Str s" by (rule refl)
lemma cn_opaque: "cn L cs = cn L cs" by (rule refl)

lemmas opaque = Text_opaque Str_opaque cn_opaque

named_theorems section_ok \<open>the checks of the sections\<close>

subsection \<open>OverviewPage\<close>

lemma overview_shape_section_ok [section_ok]:
  "outline (overview_shape_section L) = [overview_SECTIONS ! 0]"
  "list_all (href_ok (map fst overview_SECTIONS)) (hrefs (overview_shape_section L))"
  "keys_ok (overview_shape_section L)" "tables_ok (overview_shape_section L)" "node_key (overview_shape_section L) = []"
  by (simp_all add: overview_shape_section_def section_lists dom_simps page_simps cong: opaque)

lemma overview_requests_section_ok [section_ok]:
  "outline (overview_requests_section L) = [overview_SECTIONS ! 1]"
  "list_all (href_ok (map fst overview_SECTIONS)) (hrefs (overview_requests_section L))"
  "keys_ok (overview_requests_section L)" "tables_ok (overview_requests_section L)" "node_key (overview_requests_section L) = []"
  by (simp_all add: overview_requests_section_def section_lists dom_simps page_simps cong: opaque)

lemma overview_boundary_section_ok [section_ok]:
  "outline (overview_boundary_section L) = [overview_SECTIONS ! 2]"
  "list_all (href_ok (map fst overview_SECTIONS)) (hrefs (overview_boundary_section L))"
  "keys_ok (overview_boundary_section L)" "tables_ok (overview_boundary_section L)" "node_key (overview_boundary_section L) = []"
  by (simp_all add: overview_boundary_section_def section_lists dom_simps page_simps cong: opaque)

lemma overview_pages_section_ok [section_ok]:
  "outline (overview_pages_section L) = [overview_SECTIONS ! 3]"
  "list_all (href_ok (map fst overview_SECTIONS)) (hrefs (overview_pages_section L))"
  "keys_ok (overview_pages_section L)" "tables_ok (overview_pages_section L)" "node_key (overview_pages_section L) = []"
  by (simp_all add: overview_pages_section_def section_lists dom_simps page_simps DOC_GROUPS_def PAGE_SUMMARIES_def docHref_def cong: opaque)

subsection \<open>QuickstartPage\<close>

lemma quickstart_run_it_section_ok [section_ok]:
  "outline (quickstart_run_it_section L) = [quickstart_SECTIONS ! 0]"
  "list_all (href_ok (map fst quickstart_SECTIONS)) (hrefs (quickstart_run_it_section L))"
  "keys_ok (quickstart_run_it_section L)" "tables_ok (quickstart_run_it_section L)" "node_key (quickstart_run_it_section L) = []"
  by (simp_all add: quickstart_run_it_section_def section_lists dom_simps page_simps cong: opaque)

lemma quickstart_what_happened_section_ok [section_ok]:
  "outline (quickstart_what_happened_section L) = [quickstart_SECTIONS ! 1]"
  "list_all (href_ok (map fst quickstart_SECTIONS)) (hrefs (quickstart_what_happened_section L))"
  "keys_ok (quickstart_what_happened_section L)" "tables_ok (quickstart_what_happened_section L)" "node_key (quickstart_what_happened_section L) = []"
  by (simp_all add: quickstart_what_happened_section_def section_lists dom_simps page_simps cong: opaque)

lemma quickstart_production_section_ok [section_ok]:
  "outline (quickstart_production_section L) = [quickstart_SECTIONS ! 2]"
  "list_all (href_ok (map fst quickstart_SECTIONS)) (hrefs (quickstart_production_section L))"
  "keys_ok (quickstart_production_section L)" "tables_ok (quickstart_production_section L)" "node_key (quickstart_production_section L) = []"
  by (simp_all add: quickstart_production_section_def section_lists dom_simps page_simps cong: opaque)

subsection \<open>ArchitecturePage\<close>

lemma architecture_bucket_layout_section_ok [section_ok]:
  "outline (architecture_bucket_layout_section L) = [architecture_SECTIONS ! 0]"
  "list_all (href_ok (map fst architecture_SECTIONS)) (hrefs (architecture_bucket_layout_section L))"
  "keys_ok (architecture_bucket_layout_section L)" "tables_ok (architecture_bucket_layout_section L)" "node_key (architecture_bucket_layout_section L) = []"
  by (simp_all add: architecture_bucket_layout_section_def section_lists dom_simps page_simps cong: opaque)

lemma architecture_write_path_section_ok [section_ok]:
  "outline (architecture_write_path_section L) = [architecture_SECTIONS ! 1]"
  "list_all (href_ok (map fst architecture_SECTIONS)) (hrefs (architecture_write_path_section L))"
  "keys_ok (architecture_write_path_section L)" "tables_ok (architecture_write_path_section L)" "node_key (architecture_write_path_section L) = []"
  by (simp_all add: architecture_write_path_section_def section_lists dom_simps page_simps cong: opaque)

lemma architecture_read_path_section_ok [section_ok]:
  "outline (architecture_read_path_section L) = [architecture_SECTIONS ! 2]"
  "list_all (href_ok (map fst architecture_SECTIONS)) (hrefs (architecture_read_path_section L))"
  "keys_ok (architecture_read_path_section L)" "tables_ok (architecture_read_path_section L)" "node_key (architecture_read_path_section L) = []"
  by (simp_all add: architecture_read_path_section_def section_lists dom_simps page_simps cong: opaque)

lemma architecture_checkpoints_compaction_section_ok [section_ok]:
  "outline (architecture_checkpoints_compaction_section L) = [architecture_SECTIONS ! 3]"
  "list_all (href_ok (map fst architecture_SECTIONS)) (hrefs (architecture_checkpoints_compaction_section L))"
  "keys_ok (architecture_checkpoints_compaction_section L)" "tables_ok (architecture_checkpoints_compaction_section L)" "node_key (architecture_checkpoints_compaction_section L) = []"
  by (simp_all add: architecture_checkpoints_compaction_section_def section_lists dom_simps page_simps cong: opaque)

lemma architecture_maintainer_section_ok [section_ok]:
  "outline (architecture_maintainer_section L) = [architecture_SECTIONS ! 4]"
  "list_all (href_ok (map fst architecture_SECTIONS)) (hrefs (architecture_maintainer_section L))"
  "keys_ok (architecture_maintainer_section L)" "tables_ok (architecture_maintainer_section L)" "node_key (architecture_maintainer_section L) = []"
  by (simp_all add: architecture_maintainer_section_def section_lists dom_simps page_simps cong: opaque)

lemma architecture_recovery_section_ok [section_ok]:
  "outline (architecture_recovery_section L) = [architecture_SECTIONS ! 5]"
  "list_all (href_ok (map fst architecture_SECTIONS)) (hrefs (architecture_recovery_section L))"
  "keys_ok (architecture_recovery_section L)" "tables_ok (architecture_recovery_section L)" "node_key (architecture_recovery_section L) = []"
  by (simp_all add: architecture_recovery_section_def section_lists dom_simps page_simps cong: opaque)

subsection \<open>CostModelPage\<close>

lemma cost_model_primitives_section_ok [section_ok]:
  "outline (cost_model_primitives_section L) = [cost_model_SECTIONS ! 0]"
  "list_all (href_ok (map fst cost_model_SECTIONS)) (hrefs (cost_model_primitives_section L))"
  "keys_ok (cost_model_primitives_section L)" "tables_ok (cost_model_primitives_section L)" "node_key (cost_model_primitives_section L) = []"
  by (simp_all add: cost_model_primitives_section_def section_lists dom_simps page_simps cong: opaque)

lemma cost_model_depth_section_ok [section_ok]:
  "outline (cost_model_depth_section L) = [cost_model_SECTIONS ! 1]"
  "list_all (href_ok (map fst cost_model_SECTIONS)) (hrefs (cost_model_depth_section L))"
  "keys_ok (cost_model_depth_section L)" "tables_ok (cost_model_depth_section L)" "node_key (cost_model_depth_section L) = []"
  by (simp_all add: cost_model_depth_section_def section_lists dom_simps page_simps cong: opaque)

lemma cost_model_budgets_section_ok [section_ok]:
  "outline (cost_model_budgets_section L) = [cost_model_SECTIONS ! 2]"
  "list_all (href_ok (map fst cost_model_SECTIONS)) (hrefs (cost_model_budgets_section L))"
  "keys_ok (cost_model_budgets_section L)" "tables_ok (cost_model_budgets_section L)" "node_key (cost_model_budgets_section L) = []"
  by (simp_all add: cost_model_budgets_section_def section_lists dom_simps page_simps cong: opaque)

lemma cost_model_pushes_section_ok [section_ok]:
  "outline (cost_model_pushes_section L) = [cost_model_SECTIONS ! 3]"
  "list_all (href_ok (map fst cost_model_SECTIONS)) (hrefs (cost_model_pushes_section L))"
  "keys_ok (cost_model_pushes_section L)" "tables_ok (cost_model_pushes_section L)" "node_key (cost_model_pushes_section L) = []"
  by (simp_all add: cost_model_pushes_section_def section_lists dom_simps page_simps cong: opaque)

lemma cost_model_rules_section_ok [section_ok]:
  "outline (cost_model_rules_section L) = [cost_model_SECTIONS ! 4]"
  "list_all (href_ok (map fst cost_model_SECTIONS)) (hrefs (cost_model_rules_section L))"
  "keys_ok (cost_model_rules_section L)" "tables_ok (cost_model_rules_section L)" "node_key (cost_model_rules_section L) = []"
  by (simp_all add: cost_model_rules_section_def section_lists dom_simps page_simps cong: opaque)

lemma cost_model_acceptance_section_ok [section_ok]:
  "outline (cost_model_acceptance_section L) = [cost_model_SECTIONS ! 5]"
  "list_all (href_ok (map fst cost_model_SECTIONS)) (hrefs (cost_model_acceptance_section L))"
  "keys_ok (cost_model_acceptance_section L)" "tables_ok (cost_model_acceptance_section L)" "node_key (cost_model_acceptance_section L) = []"
  by (simp_all add: cost_model_acceptance_section_def section_lists dom_simps page_simps cong: opaque)

subsection \<open>AuthenticationPage\<close>

lemma authentication_modes_section_ok [section_ok]:
  "outline (authentication_modes_section L) = [authentication_SECTIONS ! 0]"
  "list_all (href_ok (map fst authentication_SECTIONS)) (hrefs (authentication_modes_section L))"
  "keys_ok (authentication_modes_section L)" "tables_ok (authentication_modes_section L)" "node_key (authentication_modes_section L) = []"
  by (simp_all add: authentication_modes_section_def section_lists dom_simps page_simps cong: opaque)

lemma authentication_tokens_section_ok [section_ok]:
  "outline (authentication_tokens_section L) = [authentication_SECTIONS ! 1]"
  "list_all (href_ok (map fst authentication_SECTIONS)) (hrefs (authentication_tokens_section L))"
  "keys_ok (authentication_tokens_section L)" "tables_ok (authentication_tokens_section L)" "node_key (authentication_tokens_section L) = []"
  by (simp_all add: authentication_tokens_section_def section_lists dom_simps page_simps cong: opaque)

lemma authentication_introspection_section_ok [section_ok]:
  "outline (authentication_introspection_section L) = [authentication_SECTIONS ! 2]"
  "list_all (href_ok (map fst authentication_SECTIONS)) (hrefs (authentication_introspection_section L))"
  "keys_ok (authentication_introspection_section L)" "tables_ok (authentication_introspection_section L)" "node_key (authentication_introspection_section L) = []"
  by (simp_all add: authentication_introspection_section_def section_lists dom_simps page_simps cong: opaque)

lemma authentication_proxy_section_ok [section_ok]:
  "outline (authentication_proxy_section L) = [authentication_SECTIONS ! 3]"
  "list_all (href_ok (map fst authentication_SECTIONS)) (hrefs (authentication_proxy_section L))"
  "keys_ok (authentication_proxy_section L)" "tables_ok (authentication_proxy_section L)" "node_key (authentication_proxy_section L) = []"
  by (simp_all add: authentication_proxy_section_def section_lists dom_simps page_simps cong: opaque)

lemma authentication_errors_section_ok [section_ok]:
  "outline (authentication_errors_section L) = [authentication_SECTIONS ! 4]"
  "list_all (href_ok (map fst authentication_SECTIONS)) (hrefs (authentication_errors_section L))"
  "keys_ok (authentication_errors_section L)" "tables_ok (authentication_errors_section L)" "node_key (authentication_errors_section L) = []"
  by (simp_all add: authentication_errors_section_def section_lists dom_simps page_simps cong: opaque)

lemma authentication_self_hosting_section_ok [section_ok]:
  "outline (authentication_self_hosting_section L) = [authentication_SECTIONS ! 5]"
  "list_all (href_ok (map fst authentication_SECTIONS)) (hrefs (authentication_self_hosting_section L))"
  "keys_ok (authentication_self_hosting_section L)" "tables_ok (authentication_self_hosting_section L)" "node_key (authentication_self_hosting_section L) = []"
  by (simp_all add: authentication_self_hosting_section_def section_lists dom_simps page_simps cong: opaque)

subsection \<open>ApiPage\<close>

lemma api_routing_section_ok [section_ok]:
  "outline (api_routing_section L) = [api_SECTIONS ! 0]"
  "list_all (href_ok (map fst api_SECTIONS)) (hrefs (api_routing_section L))"
  "keys_ok (api_routing_section L)" "tables_ok (api_routing_section L)" "node_key (api_routing_section L) = []"
  by (simp_all add: api_routing_section_def section_lists dom_simps page_simps cong: opaque)

lemma api_git_section_ok [section_ok]:
  "outline (api_git_section L) = [api_SECTIONS ! 1]"
  "list_all (href_ok (map fst api_SECTIONS)) (hrefs (api_git_section L))"
  "keys_ok (api_git_section L)" "tables_ok (api_git_section L)" "node_key (api_git_section L) = []"
  by (simp_all add: api_git_section_def section_lists dom_simps page_simps cong: opaque)

lemma api_reads_section_ok [section_ok]:
  "outline (api_reads_section L) = [api_SECTIONS ! 2]"
  "list_all (href_ok (map fst api_SECTIONS)) (hrefs (api_reads_section L))"
  "keys_ok (api_reads_section L)" "tables_ok (api_reads_section L)" "node_key (api_reads_section L) = []"
  by (simp_all add: api_reads_section_def section_lists dom_simps page_simps cong: opaque)

lemma api_writes_section_ok [section_ok]:
  "outline (api_writes_section L) = [api_SECTIONS ! 3]"
  "list_all (href_ok (map fst api_SECTIONS)) (hrefs (api_writes_section L))"
  "keys_ok (api_writes_section L)" "tables_ok (api_writes_section L)" "node_key (api_writes_section L) = []"
  by (simp_all add: api_writes_section_def section_lists dom_simps page_simps cong: opaque)

lemma api_commit_section_ok [section_ok]:
  "outline (api_commit_section L) = [api_SECTIONS ! 4]"
  "list_all (href_ok (map fst api_SECTIONS)) (hrefs (api_commit_section L))"
  "keys_ok (api_commit_section L)" "tables_ok (api_commit_section L)" "node_key (api_commit_section L) = []"
  by (simp_all add: api_commit_section_def section_lists dom_simps page_simps cong: opaque)

lemma api_repository_section_ok [section_ok]:
  "outline (api_repository_section L) = [api_SECTIONS ! 5]"
  "list_all (href_ok (map fst api_SECTIONS)) (hrefs (api_repository_section L))"
  "keys_ok (api_repository_section L)" "tables_ok (api_repository_section L)" "node_key (api_repository_section L) = []"
  by (simp_all add: api_repository_section_def section_lists dom_simps page_simps cong: opaque)

subsection \<open>EventsPage\<close>

lemma events_flow_section_ok [section_ok]:
  "outline (events_flow_section L) = [events_SECTIONS ! 0]"
  "list_all (href_ok (map fst events_SECTIONS)) (hrefs (events_flow_section L))"
  "keys_ok (events_flow_section L)" "tables_ok (events_flow_section L)" "node_key (events_flow_section L) = []"
  by (simp_all add: events_flow_section_def section_lists dom_simps page_simps cong: opaque)

lemma events_event_section_ok [section_ok]:
  "outline (events_event_section L) = [events_SECTIONS ! 1]"
  "list_all (href_ok (map fst events_SECTIONS)) (hrefs (events_event_section L))"
  "keys_ok (events_event_section L)" "tables_ok (events_event_section L)" "node_key (events_event_section L) = []"
  by (simp_all add: events_event_section_def section_lists dom_simps page_simps cong: opaque)

lemma events_delivery_section_ok [section_ok]:
  "outline (events_delivery_section L) = [events_SECTIONS ! 2]"
  "list_all (href_ok (map fst events_SECTIONS)) (hrefs (events_delivery_section L))"
  "keys_ok (events_delivery_section L)" "tables_ok (events_delivery_section L)" "node_key (events_delivery_section L) = []"
  by (simp_all add: events_delivery_section_def section_lists dom_simps page_simps cong: opaque)

lemma events_guarantees_section_ok [section_ok]:
  "outline (events_guarantees_section L) = [events_SECTIONS ! 3]"
  "list_all (href_ok (map fst events_SECTIONS)) (hrefs (events_guarantees_section L))"
  "keys_ok (events_guarantees_section L)" "tables_ok (events_guarantees_section L)" "node_key (events_guarantees_section L) = []"
  by (simp_all add: events_guarantees_section_def section_lists dom_simps page_simps cong: opaque)

lemma events_configure_section_ok [section_ok]:
  "outline (events_configure_section L) = [events_SECTIONS ! 4]"
  "list_all (href_ok (map fst events_SECTIONS)) (hrefs (events_configure_section L))"
  "keys_ok (events_configure_section L)" "tables_ok (events_configure_section L)" "node_key (events_configure_section L) = []"
  by (simp_all add: events_configure_section_def section_lists dom_simps page_simps cong: opaque)

lemma events_consumer_section_ok [section_ok]:
  "outline (events_consumer_section L) = [events_SECTIONS ! 5]"
  "list_all (href_ok (map fst events_SECTIONS)) (hrefs (events_consumer_section L))"
  "keys_ok (events_consumer_section L)" "tables_ok (events_consumer_section L)" "node_key (events_consumer_section L) = []"
  by (simp_all add: events_consumer_section_def section_lists dom_simps page_simps cong: opaque)

subsection \<open>InitializeImportPage\<close>

lemma initialize_import_which_section_ok [section_ok]:
  "outline (initialize_import_which_section L) = [initialize_import_SECTIONS ! 0]"
  "list_all (href_ok (map fst initialize_import_SECTIONS)) (hrefs (initialize_import_which_section L))"
  "keys_ok (initialize_import_which_section L)" "tables_ok (initialize_import_which_section L)" "node_key (initialize_import_which_section L) = []"
  by (simp_all add: initialize_import_which_section_def section_lists dom_simps page_simps cong: opaque)

lemma initialize_import_initialize_section_ok [section_ok]:
  "outline (initialize_import_initialize_section L) = [initialize_import_SECTIONS ! 1]"
  "list_all (href_ok (map fst initialize_import_SECTIONS)) (hrefs (initialize_import_initialize_section L))"
  "keys_ok (initialize_import_initialize_section L)" "tables_ok (initialize_import_initialize_section L)" "node_key (initialize_import_initialize_section L) = []"
  by (simp_all add: initialize_import_initialize_section_def section_lists dom_simps page_simps cong: opaque)

lemma initialize_import_import_section_ok [section_ok]:
  "outline (initialize_import_import_section L) = [initialize_import_SECTIONS ! 2]"
  "list_all (href_ok (map fst initialize_import_SECTIONS)) (hrefs (initialize_import_import_section L))"
  "keys_ok (initialize_import_import_section L)" "tables_ok (initialize_import_import_section L)" "node_key (initialize_import_import_section L) = []"
  by (simp_all add: initialize_import_import_section_def section_lists dom_simps page_simps cong: opaque)

lemma initialize_import_endpoints_section_ok [section_ok]:
  "outline (initialize_import_endpoints_section L) = [initialize_import_SECTIONS ! 3]"
  "list_all (href_ok (map fst initialize_import_SECTIONS)) (hrefs (initialize_import_endpoints_section L))"
  "keys_ok (initialize_import_endpoints_section L)" "tables_ok (initialize_import_endpoints_section L)" "node_key (initialize_import_endpoints_section L) = []"
  by (simp_all add: initialize_import_endpoints_section_def section_lists dom_simps page_simps cong: opaque)

lemma initialize_import_boundaries_section_ok [section_ok]:
  "outline (initialize_import_boundaries_section L) = [initialize_import_SECTIONS ! 4]"
  "list_all (href_ok (map fst initialize_import_SECTIONS)) (hrefs (initialize_import_boundaries_section L))"
  "keys_ok (initialize_import_boundaries_section L)" "tables_ok (initialize_import_boundaries_section L)" "node_key (initialize_import_boundaries_section L) = []"
  by (simp_all add: initialize_import_boundaries_section_def section_lists dom_simps page_simps cong: opaque)

lemma initialize_import_errors_section_ok [section_ok]:
  "outline (initialize_import_errors_section L) = [initialize_import_SECTIONS ! 5]"
  "list_all (href_ok (map fst initialize_import_SECTIONS)) (hrefs (initialize_import_errors_section L))"
  "keys_ok (initialize_import_errors_section L)" "tables_ok (initialize_import_errors_section L)" "node_key (initialize_import_errors_section L) = []"
  by (simp_all add: initialize_import_errors_section_def section_lists dom_simps page_simps cong: opaque)

subsection \<open>OperationsPage\<close>

lemma operations_run_section_ok [section_ok]:
  "outline (operations_run_section L) = [operations_SECTIONS ! 0]"
  "list_all (href_ok (map fst operations_SECTIONS)) (hrefs (operations_run_section L))"
  "keys_ok (operations_run_section L)" "tables_ok (operations_run_section L)" "node_key (operations_run_section L) = []"
  by (simp_all add: operations_run_section_def section_lists dom_simps page_simps cong: opaque)

lemma operations_first_look_section_ok [section_ok]:
  "outline (operations_first_look_section L) = [operations_SECTIONS ! 1]"
  "list_all (href_ok (map fst operations_SECTIONS)) (hrefs (operations_first_look_section L))"
  "keys_ok (operations_first_look_section L)" "tables_ok (operations_first_look_section L)" "node_key (operations_first_look_section L) = []"
  by (simp_all add: operations_first_look_section_def section_lists dom_simps page_simps cong: opaque)

lemma operations_metrics_section_ok [section_ok]:
  "outline (operations_metrics_section L) = [operations_SECTIONS ! 2]"
  "list_all (href_ok (map fst operations_SECTIONS)) (hrefs (operations_metrics_section L))"
  "keys_ok (operations_metrics_section L)" "tables_ok (operations_metrics_section L)" "node_key (operations_metrics_section L) = []"
  by (simp_all add: operations_metrics_section_def section_lists dom_simps page_simps cong: opaque)

lemma operations_symptoms_section_ok [section_ok]:
  "outline (operations_symptoms_section L) = [operations_SECTIONS ! 3]"
  "list_all (href_ok (map fst operations_SECTIONS)) (hrefs (operations_symptoms_section L))"
  "keys_ok (operations_symptoms_section L)" "tables_ok (operations_symptoms_section L)" "node_key (operations_symptoms_section L) = []"
  by (simp_all add: operations_symptoms_section_def section_lists dom_simps page_simps cong: opaque)

lemma operations_capacity_section_ok [section_ok]:
  "outline (operations_capacity_section L) = [operations_SECTIONS ! 4]"
  "list_all (href_ok (map fst operations_SECTIONS)) (hrefs (operations_capacity_section L))"
  "keys_ok (operations_capacity_section L)" "tables_ok (operations_capacity_section L)" "node_key (operations_capacity_section L) = []"
  by (simp_all add: operations_capacity_section_def section_lists dom_simps page_simps cong: opaque)

lemma operations_recovery_section_ok [section_ok]:
  "outline (operations_recovery_section L) = [operations_SECTIONS ! 5]"
  "list_all (href_ok (map fst operations_SECTIONS)) (hrefs (operations_recovery_section L))"
  "keys_ok (operations_recovery_section L)" "tables_ok (operations_recovery_section L)" "node_key (operations_recovery_section L) = []"
  by (simp_all add: operations_recovery_section_def section_lists dom_simps page_simps cong: opaque)

subsection \<open>MigrationPage\<close>

lemma migration_what_moves_section_ok [section_ok]:
  "outline (migration_what_moves_section L) = [migration_SECTIONS ! 0]"
  "list_all (href_ok (map fst migration_SECTIONS)) (hrefs (migration_what_moves_section L))"
  "keys_ok (migration_what_moves_section L)" "tables_ok (migration_what_moves_section L)" "node_key (migration_what_moves_section L) = []"
  by (simp_all add: migration_what_moves_section_def section_lists dom_simps page_simps cong: opaque)

lemma migration_prerequisites_section_ok [section_ok]:
  "outline (migration_prerequisites_section L) = [migration_SECTIONS ! 1]"
  "list_all (href_ok (map fst migration_SECTIONS)) (hrefs (migration_prerequisites_section L))"
  "keys_ok (migration_prerequisites_section L)" "tables_ok (migration_prerequisites_section L)" "node_key (migration_prerequisites_section L) = []"
  by (simp_all add: migration_prerequisites_section_def section_lists dom_simps page_simps cong: opaque)

lemma migration_procedure_section_ok [section_ok]:
  "outline (migration_procedure_section L) = [migration_SECTIONS ! 2]"
  "list_all (href_ok (map fst migration_SECTIONS)) (hrefs (migration_procedure_section L))"
  "keys_ok (migration_procedure_section L)" "tables_ok (migration_procedure_section L)" "node_key (migration_procedure_section L) = []"
  by (simp_all add: migration_procedure_section_def section_lists dom_simps page_simps cong: opaque)

lemma migration_limitations_section_ok [section_ok]:
  "outline (migration_limitations_section L) = [migration_SECTIONS ! 3]"
  "list_all (href_ok (map fst migration_SECTIONS)) (hrefs (migration_limitations_section L))"
  "keys_ok (migration_limitations_section L)" "tables_ok (migration_limitations_section L)" "node_key (migration_limitations_section L) = []"
  by (simp_all add: migration_limitations_section_def section_lists dom_simps page_simps cong: opaque)

section \<open>The frame of a page\<close>

lemma nav_ok [simp]:
  "outline (DocsNav L f) = []" "list_all (href_ok ids) (hrefs (DocsNav L f))" "keys_ok (DocsNav L f)"
  "tables_ok (DocsNav L f)" "node_key (DocsNav L f) = []"
  by (simp_all add: dom_simps DOC_GROUPS_def page_simps cong: opaque)

lemma mobile_nav_ok [simp]:
  "outline (DocsMobileNav L opened cur) = []" "list_all (href_ok ids) (hrefs (DocsMobileNav L opened cur))"
  "keys_ok (DocsMobileNav L opened cur)" "tables_ok (DocsMobileNav L opened cur)"
  "node_key (DocsMobileNav L opened cur) = []"
  by (cases "findDoc cur"; cases opened;
      simp add: DocsMobileNav_def Button_def str_attr_def node_key_def [of "El _ _ _"] node_key_def [of "Text _"] cong: opaque)+

lemma article_outline [simp]:
  "outline (doc_article L opened cur title [Text s] secs srcs children p n) = concat (map outline children)"
  by (simp add: doc_article_def comp_def concat_map_Nil cong: opaque)

lemma article_hrefs:
  assumes "\<forall>c \<in> set children. list_all (href_ok ids) (hrefs c)" "set (map fst secs) \<subseteq> set ids"
    and "case p of None \<Rightarrow> True | Some e \<Rightarrow> e \<in> set DOCS" "case n of None \<Rightarrow> True | Some e \<Rightarrow> e \<in> set DOCS"
  shows "list_all (href_ok ids) (hrefs (doc_article L opened cur title [Text s] secs srcs children p n))"
proof -
  have doc: "href_ok ids (docHref e)" if "e \<in> set DOCS" for e
    using that by (auto simp: DOCS_eq docHref_def href_ok_def routes_def)
  have src: "href_ok ids (sourceUrl path)" for path
    by (simp add: href_ok_def sourceUrl_def REPOSITORY_URL_def)
  have own: "href_ok ids (CHR ''#'' # i)" if "i \<in> set ids" for i using that by (simp add: href_ok_def)
  have kids: "list_all (href_ok ids) (concat (map hrefs children))" using assms(1) by (auto simp: list_all_iff)
  have outl: "list_all (href_ok ids) (concat (map (\<lambda>x. [CHR ''#'' # fst x]) secs))"
    using assms(2) own by (auto simp: list_all_iff)
  have srcs': "list_all (href_ok ids) (concat (map (\<lambda>x. [sourceUrl x]) srcs))"
    using src by (auto simp: list_all_iff)
  show ?thesis
    using assms(3,4) doc kids outl srcs'
    by (simp add: doc_article_def str_attr_def comp_def cong: opaque split: option.splits)
qed

lemma article_keys:
  assumes "\<forall>c \<in> set children. keys_ok c \<and> node_key c = []" "distinct (map fst secs)" "distinct srcs"
  shows "keys_ok (doc_article L opened cur title [Text s] secs srcs children p n)"
proof -
  have "concat (map node_key children) = []" using assms(1) by auto
  then have kids: "distinct (concat (map node_key children))" "list_all keys_ok children"
    using assms(1) by (simp_all add: list_all_iff del: concat_eq_Nil_conv)
  have strs: "distinct (map Str srcs)" "distinct (map (\<lambda>x. Str (fst x)) secs)"
    using assms(2,3) by (auto simp: distinct_map inj_on_def)
  show ?thesis
    using kids strs
    by (simp add: doc_article_def node_key_def [of "El _ _ _"] node_key_def [of "Text _"] comp_def distinct_str_map list_all_iff cong: opaque)
qed

lemma article_tables:
  "\<forall>c \<in> set children. tables_ok c \<Longrightarrow>
   tables_ok (doc_article L opened cur title [Text s] secs srcs children p n)"
  by (simp add: doc_article_def list_all_iff cong: opaque)

lemma neighbours_in_DOCS:
  "case previous_doc s of None \<Rightarrow> True | Some e \<Rightarrow> e \<in> set DOCS"
  "case next_doc s of None \<Rightarrow> True | Some e \<Rightarrow> e \<in> set DOCS"
  by (auto simp: previous_doc_def next_doc_def find_index_def Let_def intro!: nth_mem split: if_splits)

lemma article_ok:
  assumes "\<exists>e. findDoc cur = Some e" "concat (map outline children) = secs" "distinct (map fst secs)" "distinct srcs"
    "list_all (\<lambda>c. list_all (href_ok (map fst secs)) (hrefs c) \<and> keys_ok c \<and> tables_ok c \<and> node_key c = []) children"
  shows "\<exists>n. (if findDoc cur = None then Inl e
      else Inr (doc_article L opened cur title [Text s] secs srcs children (previous_doc cur) (next_doc cur))) = Inr n \<and>
     outline n = secs \<and> distinct (map fst secs) \<and> list_all (href_ok (map fst secs)) (hrefs n) \<and> keys_ok n \<and> tables_ok n"
  using assms article_hrefs [of children "map fst secs" secs] article_keys [of children secs srcs] article_tables [of children]
    neighbours_in_DOCS [of cur] by (auto simp: list_all_iff)

lemma OverviewPage_ok:
  "\<exists>n. OverviewPage L opened = Inr n \<and> outline n = overview_SECTIONS \<and> distinct (map fst overview_SECTIONS) \<and>
     list_all (href_ok (map fst overview_SECTIONS)) (hrefs n) \<and> keys_ok n \<and> tables_ok n"
  unfolding OverviewPage_def DocArticle_def
  by (rule article_ok) (simp_all add: section_ok findDoc_def DOCS_eq, simp_all add: overview_SECTIONS_def)

lemma QuickstartPage_ok:
  "\<exists>n. QuickstartPage L opened = Inr n \<and> outline n = quickstart_SECTIONS \<and> distinct (map fst quickstart_SECTIONS) \<and>
     list_all (href_ok (map fst quickstart_SECTIONS)) (hrefs n) \<and> keys_ok n \<and> tables_ok n"
  unfolding QuickstartPage_def DocArticle_def
  by (rule article_ok) (simp_all add: section_ok findDoc_def DOCS_eq, simp_all add: quickstart_SECTIONS_def)

lemma ArchitecturePage_ok:
  "\<exists>n. ArchitecturePage L opened = Inr n \<and> outline n = architecture_SECTIONS \<and> distinct (map fst architecture_SECTIONS) \<and>
     list_all (href_ok (map fst architecture_SECTIONS)) (hrefs n) \<and> keys_ok n \<and> tables_ok n"
  unfolding ArchitecturePage_def DocArticle_def
  by (rule article_ok) (simp_all add: section_ok findDoc_def DOCS_eq, simp_all add: architecture_SECTIONS_def)

lemma CostModelPage_ok:
  "\<exists>n. CostModelPage L opened = Inr n \<and> outline n = cost_model_SECTIONS \<and> distinct (map fst cost_model_SECTIONS) \<and>
     list_all (href_ok (map fst cost_model_SECTIONS)) (hrefs n) \<and> keys_ok n \<and> tables_ok n"
  unfolding CostModelPage_def DocArticle_def
  by (rule article_ok) (simp_all add: section_ok findDoc_def DOCS_eq, simp_all add: cost_model_SECTIONS_def)

lemma AuthenticationPage_ok:
  "\<exists>n. AuthenticationPage L opened = Inr n \<and> outline n = authentication_SECTIONS \<and> distinct (map fst authentication_SECTIONS) \<and>
     list_all (href_ok (map fst authentication_SECTIONS)) (hrefs n) \<and> keys_ok n \<and> tables_ok n"
  unfolding AuthenticationPage_def DocArticle_def
  by (rule article_ok) (simp_all add: section_ok findDoc_def DOCS_eq, simp_all add: authentication_SECTIONS_def)

lemma ApiPage_ok:
  "\<exists>n. ApiPage L opened = Inr n \<and> outline n = api_SECTIONS \<and> distinct (map fst api_SECTIONS) \<and>
     list_all (href_ok (map fst api_SECTIONS)) (hrefs n) \<and> keys_ok n \<and> tables_ok n"
  unfolding ApiPage_def DocArticle_def
  by (rule article_ok) (simp_all add: section_ok findDoc_def DOCS_eq, simp_all add: api_SECTIONS_def)

lemma EventsPage_ok:
  "\<exists>n. EventsPage L opened = Inr n \<and> outline n = events_SECTIONS \<and> distinct (map fst events_SECTIONS) \<and>
     list_all (href_ok (map fst events_SECTIONS)) (hrefs n) \<and> keys_ok n \<and> tables_ok n"
  unfolding EventsPage_def DocArticle_def
  by (rule article_ok) (simp_all add: section_ok findDoc_def DOCS_eq, simp_all add: events_SECTIONS_def)

lemma InitializeImportPage_ok:
  "\<exists>n. InitializeImportPage L opened = Inr n \<and> outline n = initialize_import_SECTIONS \<and> distinct (map fst initialize_import_SECTIONS) \<and>
     list_all (href_ok (map fst initialize_import_SECTIONS)) (hrefs n) \<and> keys_ok n \<and> tables_ok n"
  unfolding InitializeImportPage_def DocArticle_def
  by (rule article_ok) (simp_all add: section_ok findDoc_def DOCS_eq, simp_all add: initialize_import_SECTIONS_def)

lemma OperationsPage_ok:
  "\<exists>n. OperationsPage L opened = Inr n \<and> outline n = operations_SECTIONS \<and> distinct (map fst operations_SECTIONS) \<and>
     list_all (href_ok (map fst operations_SECTIONS)) (hrefs n) \<and> keys_ok n \<and> tables_ok n"
  unfolding OperationsPage_def DocArticle_def
  by (rule article_ok) (simp_all add: section_ok findDoc_def DOCS_eq, simp_all add: operations_SECTIONS_def)

lemma MigrationPage_ok:
  "\<exists>n. MigrationPage L opened = Inr n \<and> outline n = migration_SECTIONS \<and> distinct (map fst migration_SECTIONS) \<and>
     list_all (href_ok (map fst migration_SECTIONS)) (hrefs n) \<and> keys_ok n \<and> tables_ok n"
  unfolding MigrationPage_def DocArticle_def
  by (rule article_ok) (simp_all add: section_ok findDoc_def DOCS_eq, simp_all add: migration_SECTIONS_def)

section \<open>The site\<close>

text \<open>The pages of the documentation: address, component and outline.\<close>

definition doc_pages ::
  "(string \<times> (ui \<Rightarrow> bool \<Rightarrow> (js_error, node) result) \<times> (string \<times> string) list) list" where
  "doc_pages =
    [('''', OverviewPage, overview_SECTIONS),
     (''quickstart'', QuickstartPage, quickstart_SECTIONS),
     (''architecture'', ArchitecturePage, architecture_SECTIONS),
     (''cost-model'', CostModelPage, cost_model_SECTIONS),
     (''authentication'', AuthenticationPage, authentication_SECTIONS),
     (''api'', ApiPage, api_SECTIONS),
     (''events'', EventsPage, events_SECTIONS),
     (''initialize-import'', InitializeImportPage, initialize_import_SECTIONS),
     (''operations'', OperationsPage, operations_SECTIONS),
     (''migration'', MigrationPage, migration_SECTIONS)]"

lemmas page_checks =
  OverviewPage_ok QuickstartPage_ok ArchitecturePage_ok CostModelPage_ok AuthenticationPage_ok ApiPage_ok EventsPage_ok InitializeImportPage_ok OperationsPage_ok MigrationPage_ok

text \<open>A page renders, and a check holds of what it renders.\<close>

definition renders :: "(node \<Rightarrow> bool) \<Rightarrow> (js_error, node) result \<Rightarrow> bool" where
  "renders P r = (case r of Inl e \<Rightarrow> False | Inr n \<Rightarrow> P n)"

lemma doc_pages_checked:
  "list_all (\<lambda>(s, page, secs). renders (\<lambda>n. outline n = secs \<and> distinct (map fst secs) \<and>
     list_all (href_ok (map fst secs)) (hrefs n) \<and> keys_ok n \<and> tables_ok n) (page L opened)) doc_pages"
proof -
  have r: "\<exists>n. r = Inr n \<and> P n \<Longrightarrow> renders P r" for r P by (auto simp: renders_def)
  show ?thesis unfolding doc_pages_def by (simp add: r [OF page_checks(1)] r [OF page_checks(2)] r [OF page_checks(3)]
    r [OF page_checks(4)] r [OF page_checks(5)] r [OF page_checks(6)] r [OF page_checks(7)] r [OF page_checks(8)]
    r [OF page_checks(9)] r [OF page_checks(10)])
qed

lemma renders_mono: "renders P r \<Longrightarrow> (\<And>n. P n \<Longrightarrow> Q n) \<Longrightarrow> renders Q r"
  by (auto simp: renders_def split: sum.splits)

text \<open>
  C35: the outline beside every documentation page is true. Every page renders (its slug is listed,
  so the article does not throw), the section ids and titles it renders are exactly its
  \<open>SECTIONS\<close>, in the same order, and the ids are distinct; the pages are exactly the entries of
  the navigation, in order.
\<close>

theorem outlines_match:
  "map fst doc_pages = map slug DOCS \<and>
   list_all (\<lambda>(s, page, secs). renders (\<lambda>n. outline n = secs \<and> distinct (map fst secs)) (page L opened)) doc_pages"
proof
  show "map fst doc_pages = map slug DOCS" by (simp add: doc_pages_def DOCS_eq)
  show "list_all (\<lambda>(s, page, secs). renders (\<lambda>n. outline n = secs \<and> distinct (map fst secs)) (page L opened)) doc_pages"
    by (rule list.pred_mono_strong [OF doc_pages_checked]) (auto elim!: renders_mono)
qed

text \<open>
  C36: no dead links in the documentation. Every link of every page leads to an anchor of the same
  page, to a page of the site (and to an anchor that page offers, when one is named), to a file
  the generator writes, or to an absolute address.
\<close>

theorem docs_links_resolve:
  "list_all (\<lambda>(s, page, secs). renders (\<lambda>n. list_all (href_ok (map fst (outline n))) (hrefs n)) (page L opened)) doc_pages"
  by (rule list.pred_mono_strong [OF doc_pages_checked]) (auto elim!: renders_mono)

text \<open>
  C40: sibling keys are distinct on every documentation page, and every table is rectangular: each
  row has as many cells as the header has columns.
\<close>

theorem docs_keys_and_tables:
  "list_all (\<lambda>(s, page, secs). renders (\<lambda>n. keys_ok n \<and> tables_ok n) (page L opened)) doc_pages"
  by (rule list.pred_mono_strong [OF doc_pages_checked]) (auto elim!: renders_mono)

section \<open>The pager\<close>

lemma find_index_nth: "i < length DOCS \<Longrightarrow> find_index (slug (DOCS ! i)) = int i"
proof -
  assume i: "i < length DOCS"
  have "takeWhile (\<lambda>e. slug e \<noteq> slug (DOCS ! i)) DOCS = take i DOCS"
    by (rule takeWhile_eq_take_P_nth) (use i nth_eq_iff_index_eq [OF distinct_slugs] in auto)
  with i show ?thesis by (simp add: find_index_def)
qed

text \<open>
  The pager is a walk through the navigation. From every entry, \<open>Next\<close> leads to the entry
  after it and \<open>Previous\<close> to the one before it, so the two undo each other; only the first entry
  has no previous page and only the last no next one.
\<close>

theorem pager_walks_DOCS:
  assumes "i < length DOCS"
  shows "next_doc (slug (DOCS ! i)) = (if Suc i < length DOCS then Some (DOCS ! Suc i) else None) \<and>
         previous_doc (slug (DOCS ! i)) = (if i = 0 then None else Some (DOCS ! (i - 1)))"
  using assms by (auto simp: next_doc_def previous_doc_def find_index_nth nat_diff_distrib nat_add_distrib)

theorem pager_walks_DOCS_witness:
  "next_doc ''quickstart'' = Some \<lparr>slug = ''architecture'', entry_label = ''Architecture''\<rparr>"
  using pager_walks_DOCS [of 1] by (simp add: DOCS_eq)

lemma page_links [simp]:
  "href_ok ids ''/''" "href_ok ids ''/docs''" "href_ok ids ''/docs/quickstart''" "href_ok ids ''/llms.txt''"
  "href_ok ids ''/llms/product.md''" "href_ok ids REPOSITORY_URL"
  "href_ok ids ''https://cursor.com/blog/git-at-any-scale''" "href_ok ids ''https://github.com/tobi/walgit''"
  by (simp_all add: page_simps)

lemma segmented_links [simp]:
  "list_all (\<lambda>opt. concat (map hrefs (opt_label opt)) = []) os \<Longrightarrow> hrefs (SegmentedControl L os v d sz c a) = []"
  by (auto simp: SegmentedControl_def segment_def str_attr_def comp_def list_all_iff cong: opaque)

lemma scenes_links:
  "list_all (href_ok ids) (hrefs (Hero L f n s))" "list_all (href_ok ids) (hrefs (StorageCost L c x y))"
  "list_all (href_ok ids) (hrefs (DisposableServers L sv))" "list_all (href_ok ids) (hrefs (UserSync L v tt))"
  "list_all (href_ok ids) (hrefs (CommitDemo L dm))"
proof -
  show "list_all (href_ok ids) (hrefs (Hero L f n s))"
    by (simp add: Hero_def RepositoryField_def PushLog_def Button_def str_attr_def cong: opaque)
  show "list_all (href_ok ids) (hrefs (StorageCost L c x y))"
    by (simp add: StorageCost_def Control_def Bar_def str_attr_def plain_option_def list_all_iff cong: opaque)
  show "list_all (href_ok ids) (hrefs (DisposableServers L sv))"
    by (simp add: DisposableServers_def Button_def ServerGlyph_def BucketGlyph_def COLD_START_def str_attr_def cong: opaque)
  show "list_all (href_ok ids) (hrefs (UserSync L v tt))"
    by (simp add: UserSync_def Mirrored_def SignedToken_def Claim_def MIRRORED_def str_attr_def segment_option_def cong: opaque)
  show "list_all (href_ok ids) (hrefs (CommitDemo L dm))"
    by (simp add: CommitDemo_def Button_def str_attr_def comp_def concat_map_Nil case_prod_beta cong: opaque)
qed

text \<open>
  No dead links outside the documentation. The landing page in every state, the site's header,
  the navigation and the not-found page link only to pages of the site, to files the generator
  writes, and to absolute addresses.
\<close>

theorem landing_links_resolve:
  "list_all (href_ok []) (hrefs (LandingPage L st)) \<and> list_all (href_ok []) (hrefs (SiteHeader L theme)) \<and>
   list_all (href_ok []) (hrefs (DocsNav L f)) \<and> list_all (href_ok []) (hrefs (NotFound L))"
proof (intro conjI)
  show "list_all (href_ok []) (hrefs (LandingPage L st))"
    unfolding LandingPage_def using scenes_links by (simp add: Scene_def Button_def BrandMark_def CodeBlock_def str_attr_def page_links cong: opaque)
qed (simp_all add: SiteHeader_def NotFound_def ThemeToggle_def SunIcon_def MoonIcon_def Button_def BrandMark_def
  str_attr_def cong: opaque)

end
