(* ===== verification/Btree.thy ===== *)
theory Btree
  imports Gitcask_Prelude
begin

text \<open>
  Ordered maps of the Rust library (\<open>BTreeMap\<close> with string keys), as the object store and the ref
  files use them: insertion, removal and ranges over the list of entries in key order, with their
  lookup laws.
\<close>

section \<open>Operations\<close>

text \<open>A \<open>BTreeMap\<close> is the list of its entries in key order.\<close>

type_synonym 'v btree = "(string \<times> 'v) list"

fun bt_insert :: "string \<Rightarrow> 'v \<Rightarrow> 'v btree \<Rightarrow> 'v btree" where
  "bt_insert k v [] = [(k, v)]"
| "bt_insert k v ((k', v') # es) =
     (if k < k' then (k, v) # (k', v') # es
      else if k = k' then (k, v) # es
      else (k', v') # bt_insert k v es)"

definition bt_remove :: "string \<Rightarrow> 'v btree \<Rightarrow> 'v btree" where
  "bt_remove k es = filter (\<lambda>(k', v). k' \<noteq> k) es"

text \<open>\<open>range(from..)\<close>.\<close>

definition bt_from :: "string \<Rightarrow> 'v btree \<Rightarrow> 'v btree" where
  "bt_from from_key es = dropWhile (\<lambda>(k, v). k < from_key) es"

definition bt_ordered :: "'v btree \<Rightarrow> bool" where
  "bt_ordered es = sorted_wrt (<) (map fst es)"

section \<open>The laws\<close>

lemma map_of_bt_insert:
  "sorted_wrt (<) (map fst es) \<Longrightarrow> map_of (bt_insert k v es) = (map_of es)(k \<mapsto> v)"
proof (induction k v es rule: bt_insert.induct)
  case (2 k v k' v' es)
  then show ?case by (auto simp: fun_eq_iff)
qed simp

lemma set_bt_insert_keys: "fst ` set (bt_insert k v es) = insert k (fst ` set es)"
  by (induction k v es rule: bt_insert.induct) auto

lemma sorted_bt_insert: "sorted_wrt (<) (map fst es) \<Longrightarrow> sorted_wrt (<) (map fst (bt_insert k v es))"
proof (induction k v es rule: bt_insert.induct)
  case (2 k v k' v' es)
  consider "k < k'" | "k = k'" | "k' < k" by fastforce
  then show ?case
  proof cases
    case 1
    then have "\<forall>x \<in> set es. k < fst x" using 2(2) by (auto intro: order.strict_trans)
    with 1 2(2) show ?thesis by simp
  next
    case 2
    with \<open>sorted_wrt (<) (map fst ((k', v') # es))\<close> show ?thesis by simp
  next
    case 3
    have "\<forall>x \<in> fst ` set (bt_insert k v es). k' < x"
      using 3 2(2) unfolding set_bt_insert_keys by auto
    moreover have "\<not> k < k'" "k \<noteq> k'" using 3 by auto
    ultimately show ?thesis using 2 by simp
  qed
qed simp

lemma map_of_bt_remove: "map_of (bt_remove k es) = (map_of es)(k := None)"
  by (induction es) (auto simp: bt_remove_def fun_eq_iff)

lemma sorted_bt_remove: "sorted_wrt (<) (map fst es) \<Longrightarrow> sorted_wrt (<) (map fst (bt_remove k es))"
  by (simp add: bt_remove_def sorted_wrt_map sorted_wrt_filter)

lemma in_set_bt_insert: "e \<in> set (bt_insert k v es) \<Longrightarrow> e = (k, v) \<or> e \<in> set es"
  by (induction k v es rule: bt_insert.induct) (auto split: if_splits)

section \<open>Lists in order\<close>

lemma remdups_adj_sorted_distinct: "sorted xs \<Longrightarrow> distinct (remdups_adj xs)"
proof (induction xs rule: remdups_adj.induct)
  case (3 x y xs)
  then show ?case by (cases "x = y") (use 3 in \<open>auto dest: antisym\<close>)
qed simp_all

lemma set_map_filter: "set (List.map_filter f xs) = {y. \<exists>x \<in> set xs. f x = Some y}"
  by (auto simp: List.map_filter_def image_iff) force

end
