(* ===== verification/Git_Refs.thy ===== *)
theory Git_Refs
  imports Btree
begin

text \<open>
  Refs of a repository (\<^verbatim>\<open>crates/gitcask-git/src\<close>): validation of ref updates (\<^verbatim>\<open>error.rs\<close>),
  the snapshot (\<^verbatim>\<open>types.rs\<close>), point lookups over a snapshot with an
  overlay (\<open>RefView\<close>), patching a snapshot, and the files on disk: writing and reading
  \<^verbatim>\<open>packed-refs\<close> and \<^verbatim>\<open>HEAD\<close> (\<^verbatim>\<open>refs.rs\<close>). File operations are taken to succeed. Peeling a tag reads
  git objects through a library and is the parameter \<open>peel\<close>: an object id to the id it peels to, if
  any.
\<close>

section \<open>Strings of the Rust library\<close>

text \<open>\<open>str::contains\<close>.\<close>

fun contains :: "string \<Rightarrow> string \<Rightarrow> bool" where
  "contains p [] = (p = [])"
| "contains p (c # cs) = (starts_with p (c # cs) \<or> contains p cs)"

text \<open>
  \<open>str::trim\<close> removes the characters with the Unicode property White\_Space, here their UTF-8
  encodings.
\<close>

definition white_space :: "string list" where
  "white_space = [[CHR 0x09], [CHR 0x0A], [CHR 0x0B], [CHR 0x0C], [CHR 0x0D], [CHR 0x20],
     [CHR 0xC2, CHR 0x85], [CHR 0xC2, CHR 0xA0], [CHR 0xE1, CHR 0x9A, CHR 0x80],
     [CHR 0xE2, CHR 0x80, CHR 0x80], [CHR 0xE2, CHR 0x80, CHR 0x81], [CHR 0xE2, CHR 0x80, CHR 0x82],
     [CHR 0xE2, CHR 0x80, CHR 0x83], [CHR 0xE2, CHR 0x80, CHR 0x84], [CHR 0xE2, CHR 0x80, CHR 0x85],
     [CHR 0xE2, CHR 0x80, CHR 0x86], [CHR 0xE2, CHR 0x80, CHR 0x87], [CHR 0xE2, CHR 0x80, CHR 0x88],
     [CHR 0xE2, CHR 0x80, CHR 0x89], [CHR 0xE2, CHR 0x80, CHR 0x8A], [CHR 0xE2, CHR 0x80, CHR 0xA8],
     [CHR 0xE2, CHR 0x80, CHR 0xA9], [CHR 0xE2, CHR 0x80, CHR 0xAF], [CHR 0xE2, CHR 0x81, CHR 0x9F],
     [CHR 0xE3, CHR 0x80, CHR 0x80]]"

fun strip_while :: "string list \<Rightarrow> nat \<Rightarrow> string \<Rightarrow> string" where
  "strip_while ws 0 s = s"
| "strip_while ws (Suc n) s =
     (case find (\<lambda>w. starts_with w s) ws of None \<Rightarrow> s | Some w \<Rightarrow> strip_while ws n (drop (length w) s))"

definition rust_trim_start :: "string \<Rightarrow> string" where
  "rust_trim_start s = strip_while white_space (length s) s"

definition rust_trim_end :: "string \<Rightarrow> string" where
  "rust_trim_end s = rev (strip_while (map rev white_space) (length s) (rev s))"

definition rust_trim :: "string \<Rightarrow> string" where
  "rust_trim s = rust_trim_end (rust_trim_start s)"

text \<open>\<open>str::lines\<close>: split at line feeds, a trailing empty piece and one carriage return per line dropped.\<close>

definition rust_lines :: "string \<Rightarrow> string list" where
  "rust_lines s =
     (let ps = split_on (CHR 0x0A) s;
          ls = (if last ps = [] then butlast ps else ps)
      in map (\<lambda>l. if l \<noteq> [] \<and> last l = CHR 0x0D then butlast l else l) ls)"

text \<open>\<open>splitn(n, ' ')\<close>: at most \<open>n\<close> pieces, the last one with the rest.\<close>

fun splitn :: "nat \<Rightarrow> char \<Rightarrow> string \<Rightarrow> string list" where
  "splitn 0 c s = []"
| "splitn (Suc 0) c s = [s]"
| "splitn (Suc (Suc n)) c s =
     (if c \<in> set s
      then takeWhile (\<lambda>x. x \<noteq> c) s # splitn (Suc n) c (tl (dropWhile (\<lambda>x. x \<noteq> c) s))
      else [s])"

section \<open>Data (types.rs, wal.proto)\<close>

record git_ref =
  ref_name :: string
  ref_oid :: string
  ref_peeled :: string

record ref_snapshot =
  snap_refs :: "git_ref list"
  snap_head_target :: string
  snap_head_oid :: string

record ref_update =
  upd_name :: string
  old_oid :: string
  new_oid :: string
  new_symbolic_target :: string
  new_peeled :: string

record ref_transaction =
  updates :: "ref_update list"
  push_options :: "string list"
  txn_atomic :: bool

datatype git_error =
    Io string
  | RefConflict string string string
  | InvalidInput string
  | Protocol string

abbreviation HEAD :: string where "HEAD \<equiv> ''HEAD''"

section \<open>Validation (error.rs)\<close>

definition bad_ref_byte :: "char \<Rightarrow> bool" where
  "bad_ref_byte c \<longleftrightarrow> c \<in> {CHR 0x00, CHR 0x0A, CHR 0x0D, CHR 0x20, CHR ''~'', CHR ''^'', CHR '':'', CHR ''?'',
     CHR ''*'', CHR ''['', CHR 0x5C}"

definition validate_ref_name :: "string \<Rightarrow> bool" where
  "validate_ref_name name \<longleftrightarrow> name = HEAD \<or>
     \<not> (name = [] \<or> \<not> starts_with ''refs/'' name \<or> list_ex bad_ref_byte name \<or> contains ''..'' name \<or>
        contains [CHR ''@'', CHR ''{''] name \<or> contains ''//'' name \<or> starts_with ''/'' name \<or> ends_with ''/'' name \<or>
        ends_with ''.'' name \<or> ends_with ''.lock'' name)"

definition all_zero :: "string \<Rightarrow> bool" where
  "all_zero s = list_all (\<lambda>c. c = CHR ''0'') s"

definition is_hexdigit :: "char \<Rightarrow> bool" where
  "is_hexdigit c \<longleftrightarrow> c \<in> set ''0123456789abcdefABCDEF''"

definition validate_oid :: "string \<Rightarrow> bool" where
  "validate_oid oid \<longleftrightarrow> oid = [] \<or> all_zero oid \<or> (length oid = 40 \<or> length oid = 64) \<and> list_all is_hexdigit oid"

definition validate_ref_update :: "ref_update \<Rightarrow> (git_error, unit) result" where
  "validate_ref_update u =
     (if new_symbolic_target u \<noteq> [] then
        (if upd_name u \<noteq> HEAD then Inl (InvalidInput (upd_name u))
         else if validate_ref_name (new_symbolic_target u) then Inr () else Inl (InvalidInput (new_symbolic_target u)))
      else if \<not> validate_ref_name (upd_name u) then Inl (InvalidInput (upd_name u))
      else if \<not> validate_oid (old_oid u) then Inl (InvalidInput (old_oid u))
      else if \<not> validate_oid (new_oid u) then Inl (InvalidInput (new_oid u))
      else Inr ())"

section \<open>Point lookups with an overlay (refs.rs, RefView)\<close>

text \<open>\<open>binary_search_by\<close> on a list sorted by name: the place of the ref, or where it would go.\<close>

definition search_ref :: "string \<Rightarrow> git_ref list \<Rightarrow> nat + nat" where
  "search_ref name rs =
     (let i = length (takeWhile (\<lambda>r. ref_name r < name) rs)
      in if i < length rs \<and> ref_name (rs ! i) = name then Inr i else Inl i)"

record ref_view =
  rv_base :: ref_snapshot
  rv_overlay :: "string \<Rightarrow> string option option"
  rv_head_target :: "string option"
  rv_detached :: "string option"

definition rv_new :: "ref_snapshot \<Rightarrow> ref_view" where
  "rv_new base = \<lparr>rv_base = base, rv_overlay = (\<lambda>n. None), rv_head_target = None, rv_detached = None\<rparr>"

definition head_target :: "ref_view \<Rightarrow> string" where
  "head_target v = or_default (snap_head_target (rv_base v)) (rv_head_target v)"

text \<open>
  \<open>get\<close> and \<open>head_oid\<close> call each other, so a HEAD that points at itself is looked up for ever; the
  outer option is \<open>None\<close> exactly for a lookup that does not return.
\<close>

partial_function (option) rv_get :: "ref_view \<Rightarrow> string \<Rightarrow> string option option" where
  "rv_get v name =
     (case rv_overlay v name of
        Some x \<Rightarrow> Some x
      | None \<Rightarrow>
          if name = HEAD then
            (if head_target v = [] then
               (let oid = or_default (snap_head_oid (rv_base v)) (rv_detached v)
                in Some (if oid = [] then None else Some oid))
             else rv_get v (head_target v))
          else Some (case search_ref name (snap_refs (rv_base v)) of
                       Inr i \<Rightarrow> Some (ref_oid (snap_refs (rv_base v) ! i)) | Inl _ \<Rightarrow> None))"

declare rv_get.simps [code]

definition set_head_target :: "string \<Rightarrow> ref_view \<Rightarrow> ref_view" where
  "set_head_target target v =
     v\<lparr>rv_head_target := Some target, rv_detached := Some [], rv_overlay := (rv_overlay v)(HEAD := None)\<rparr>"

definition rv_set :: "string \<Rightarrow> string \<Rightarrow> ref_view \<Rightarrow> ref_view" where
  "rv_set name val v =
     (let v' = (if name = HEAD then v\<lparr>rv_head_target := Some [], rv_detached := Some val\<rparr> else v)
      in v'\<lparr>rv_overlay := (rv_overlay v')(name := Some (Some val))\<rparr>)"

definition rv_remove :: "string \<Rightarrow> ref_view \<Rightarrow> ref_view" where
  "rv_remove name v = v\<lparr>rv_overlay := (rv_overlay v)(name := Some None)\<rparr>"

section \<open>Patching a snapshot (refs.rs)\<close>

definition is_delete :: "ref_update \<Rightarrow> bool" where
  "is_delete u \<longleftrightarrow> new_oid u = [] \<or> all_zero (new_oid u)"

text \<open>The peeled id of a new tag: recorded by the writer, or read from the objects.\<close>

definition peeled_of :: "(string \<Rightarrow> string option) \<Rightarrow> ref_update \<Rightarrow> string" where
  "peeled_of peel u =
     (if new_peeled u \<noteq> [] then new_peeled u
      else if starts_with ''refs/tags/'' (upd_name u) then or_default [] (peel (new_oid u)) else [])"

definition patch_update :: "(string \<Rightarrow> string option) \<Rightarrow> ref_snapshot \<Rightarrow> ref_update \<Rightarrow> ref_snapshot" where
  "patch_update peel s u =
     (if new_symbolic_target u \<noteq> [] then
        (if upd_name u = HEAD then s\<lparr>snap_head_target := new_symbolic_target u, snap_head_oid := []\<rparr> else s)
      else if upd_name u = HEAD then s\<lparr>snap_head_target := [], snap_head_oid := new_oid u\<rparr>
      else let rs = snap_refs s;
               entry = \<lparr>ref_name = upd_name u, ref_oid = new_oid u, ref_peeled = peeled_of peel u\<rparr>
           in case (search_ref (upd_name u) rs, is_delete u) of
                (Inr i, True) \<Rightarrow> s\<lparr>snap_refs := take i rs @ drop (Suc i) rs\<rparr>
              | (Inl i, True) \<Rightarrow> s
              | (Inr i, False) \<Rightarrow> s\<lparr>snap_refs := rs[i := entry]\<rparr>
              | (Inl i, False) \<Rightarrow> s\<lparr>snap_refs := take i rs @ entry # drop i rs\<rparr>)"

definition patch_snapshot :: "(string \<Rightarrow> string option) \<Rightarrow> ref_snapshot \<Rightarrow> ref_transaction list \<Rightarrow> ref_snapshot" where
  "patch_snapshot peel s txns = foldl (patch_update peel) s (concat (map updates txns))"

section \<open>The files on disk (refs.rs)\<close>

text \<open>
  The ref files of a bare repository: \<^verbatim>\<open>packed-refs\<close>, the loose refs in the order a walk of the
  directory meets them, and \<^verbatim>\<open>HEAD\<close>.
\<close>

record git_dir =
  packed_file :: "string option"
  loose_files :: "(string \<times> string) list"
  head_file :: "string option"

definition packed_header :: string where
  "packed_header = ''# pack-refs with: peeled fully-peeled sorted '' @ nl"

definition packed_line :: "git_ref \<Rightarrow> string" where
  "packed_line r =
     ref_oid r @ '' '' @ ref_name r @ nl @ (if ref_peeled r \<noteq> [] then ''^'' @ ref_peeled r @ nl else [])"

definition packed_content :: "git_ref list \<Rightarrow> string" where
  "packed_content rs = packed_header @ concat (map packed_line (sort_key ref_name rs))"

text \<open>
  \<open>load_ref_snapshot\<close>: the packed file is replaced and the loose refs are removed before the id of a
  detached HEAD is validated.
\<close>

definition load_ref_snapshot :: "ref_snapshot \<Rightarrow> git_dir \<Rightarrow> (git_error, unit) result \<times> git_dir" where
  "load_ref_snapshot snap d =
     (let d1 = d\<lparr>packed_file := Some (packed_content (snap_refs snap)), loose_files := []\<rparr>
      in if snap_head_target snap \<noteq> []
         then (Inr (), d1\<lparr>head_file := Some (''ref: '' @ snap_head_target snap @ nl)\<rparr>)
         else if snap_head_oid snap \<noteq> [] then
           (if validate_oid (snap_head_oid snap)
            then (Inr (), d1\<lparr>head_file := Some (snap_head_oid snap @ nl)\<rparr>)
            else (Inl (InvalidInput (snap_head_oid snap)), d1))
         else (Inr (), d1))"

text \<open>The parser of \<^verbatim>\<open>packed-refs\<close>: the entries read so far and the name the next peel line belongs to.\<close>

type_synonym packed_map = "(string \<times> string) btree"

definition packed_parse_line :: "packed_map \<times> string option \<Rightarrow> string \<Rightarrow> packed_map \<times> string option" where
  "packed_parse_line st line =
     (case st of (m, prev) \<Rightarrow>
        if line = [] \<or> starts_with ''#'' line then (m, prev)
        else if starts_with ''^'' line then
          (case prev of
             None \<Rightarrow> (m, prev)
           | Some name \<Rightarrow>
               (case map_of m name of
                  None \<Rightarrow> (m, prev)
                | Some (oid, p) \<Rightarrow> (bt_insert name (oid, rust_trim (tl line)) m, prev)))
        else let parts = splitn 2 (CHR 0x20) line;
                 oid = rust_trim (hd parts);
                 name = (case parts of [_, n] \<Rightarrow> rust_trim n | _ \<Rightarrow> [])
             in if name \<noteq> [] then (bt_insert name (oid, []) m, Some name) else (m, prev))"

definition parse_packed :: "string \<Rightarrow> packed_map" where
  "parse_packed content = fst (foldl packed_parse_line ([], None) (rust_lines content))"

definition walk_loose :: "packed_map \<Rightarrow> string \<times> string \<Rightarrow> packed_map" where
  "walk_loose m f =
     (case f of (name, content) \<Rightarrow>
        let s = rust_trim content
        in if starts_with ''ref: '' s then
             (case map_of m (rust_trim (drop 5 s)) of Some (oid, p) \<Rightarrow> bt_insert name (oid, []) m | None \<Rightarrow> m)
           else if s \<noteq> [] then bt_insert name (s, []) m else m)"

definition read_head :: "git_dir \<Rightarrow> string \<times> string" where
  "read_head d =
     (let target = (case head_file d of
                      None \<Rightarrow> []
                    | Some c \<Rightarrow> (let s = rust_trim c in if starts_with ''ref: '' s then rust_trim (drop 5 s) else []))
      in (target,
          if target = [] then
            (case head_file d of
               None \<Rightarrow> [] | Some c \<Rightarrow> (let s = rust_trim c in if validate_oid s then s else []))
          else []))"

text \<open>Tags without a recorded peel are peeled from the objects.\<close>

definition fill_peel :: "(string \<Rightarrow> string option) \<Rightarrow> git_ref \<Rightarrow> git_ref" where
  "fill_peel peel r =
     (if ref_peeled r \<noteq> [] \<or> \<not> starts_with ''refs/tags/'' (ref_name r) then r
      else case peel (ref_oid r) of Some p \<Rightarrow> r\<lparr>ref_peeled := p\<rparr> | None \<Rightarrow> r)"

definition read_refs :: "(string \<Rightarrow> string option) \<Rightarrow> git_dir \<Rightarrow> ref_snapshot" where
  "read_refs peel d =
     (let m = (case packed_file d of None \<Rightarrow> [] | Some c \<Rightarrow> parse_packed c);
          m' = foldl walk_loose m (loose_files d)
      in \<lparr>snap_refs = map (\<lambda>(n, oid, p). fill_peel peel \<lparr>ref_name = n, ref_oid = oid, ref_peeled = p\<rparr>) m',
          snap_head_target = fst (read_head d), snap_head_oid = snd (read_head d)\<rparr>)"

text \<open>
  Replaying committed transactions without git: the first invalid update stops the replay before
  anything is written.
\<close>

fun offline_updates ::
  "(string \<Rightarrow> string option) \<Rightarrow> ref_update list \<Rightarrow> packed_map \<times> string \<times> string \<Rightarrow>
   (git_error, packed_map \<times> string \<times> string) result" where
  "offline_updates peel [] st = Inr st"
| "offline_updates peel (u # us) (m, ht, ho) =
     (case validate_ref_update u of
        Inl e \<Rightarrow> Inl e
      | Inr _ \<Rightarrow>
          offline_updates peel us
            (if new_symbolic_target u \<noteq> [] then
               (if upd_name u = HEAD then (m, new_symbolic_target u, []) else (m, ht, ho))
             else if upd_name u = HEAD then (m, [], new_oid u)
             else if is_delete u then (bt_remove (upd_name u) m, ht, ho)
             else (bt_insert (upd_name u) (new_oid u, peeled_of peel u) m, ht, ho)))"

definition snapshot_map :: "ref_snapshot \<Rightarrow> packed_map" where
  "snapshot_map s = foldl (\<lambda>m r. bt_insert (ref_name r) (ref_oid r, ref_peeled r) m) [] (snap_refs s)"

definition apply_ref_txns_offline ::
  "(string \<Rightarrow> string option) \<Rightarrow> ref_transaction list \<Rightarrow> git_dir \<Rightarrow> (git_error, unit) result \<times> git_dir" where
  "apply_ref_txns_offline peel txns d =
     (let snap = read_refs peel d
      in case offline_updates peel (concat (map updates txns))
                (snapshot_map snap, snap_head_target snap, snap_head_oid snap) of
           Inl e \<Rightarrow> (Inl e, d)
         | Inr (m, ht, ho) \<Rightarrow>
             load_ref_snapshot
               \<lparr>snap_refs = map (\<lambda>(n, oid, p). \<lparr>ref_name = n, ref_oid = oid, ref_peeled = p\<rparr>) m,
                snap_head_target = ht, snap_head_oid = ho\<rparr> d)"

section \<open>Lemmas on strings\<close>

definition trimmed :: "string \<Rightarrow> bool" where
  "trimmed s = list_all (\<lambda>w. \<not> starts_with w s \<and> \<not> ends_with w s) white_space"

lemma starts_with_append_short: "length w \<le> length t \<Longrightarrow> starts_with w (t @ x) = starts_with w t"
proof (induction w t rule: starts_with.induct)
  case (2 p ps)
  then show ?case by simp
qed auto

lemma strip_while_none: "\<forall>w \<in> set ws. \<not> starts_with w s \<Longrightarrow> strip_while ws n s = s"
  by (cases n) (auto simp: find_None_iff split: option.split dest!: find_Some_iff [THEN iffD1])

lemma ends_with_rev: "starts_with (rev w) (rev s) = ends_with w s"
  by (simp add: ends_with_def)

lemma trim_trimmed [simp]: "trimmed s \<Longrightarrow> rust_trim s = s"
  by (simp add: rust_trim_def rust_trim_start_def rust_trim_end_def trimmed_def list_all_iff strip_while_none ends_with_rev)

lemma white_space_facts:
  "w \<in> set white_space \<Longrightarrow> w \<noteq> [] \<and> length w \<le> 3 \<and> \<not> is_hexdigit (hd w) \<and> \<not> is_hexdigit (last w)"
proof -
  have "list_all (\<lambda>w. w \<noteq> [] \<and> length w \<le> 3 \<and> \<not> is_hexdigit (hd w) \<and> \<not> is_hexdigit (last w)) white_space"
    by code_simp
  then show "w \<in> set white_space \<Longrightarrow> w \<noteq> [] \<and> length w \<le> 3 \<and> \<not> is_hexdigit (hd w) \<and> \<not> is_hexdigit (last w)"
    by (simp add: list_all_iff)
qed

lemma hex_trimmed: "list_all is_hexdigit s \<Longrightarrow> trimmed s"
  unfolding trimmed_def list_all_iff
proof (intro ballI conjI notI)
  fix w assume hex: "\<forall>c \<in> set s. is_hexdigit c" and w: "w \<in> set white_space"
  note f = white_space_facts [OF w]
  { assume "starts_with w s"
    then have "hd w \<in> set s" using f by (auto simp: starts_with_iff)
    then show False using f hex by blast }
  { assume "ends_with w s"
    then have "last w \<in> set s" using f by (auto simp: ends_with_iff)
    then show False using f hex by blast }
qed

lemma trimmed_not_cr: "trimmed s \<Longrightarrow> s \<noteq> [] \<Longrightarrow> last s \<noteq> CHR 0x0D"
proof
  assume "trimmed s" "s \<noteq> []" "last s = CHR 0x0D"
  then have "ends_with [CHR 0x0D] s" by (auto simp: ends_with_iff) (metis append_butlast_last_id)
  moreover have "[CHR 0x0D] \<in> set white_space" by (simp add: white_space_def)
  ultimately show False using \<open>trimmed s\<close> by (auto simp: trimmed_def list_all_iff)
qed

text \<open>A tab or a line feed at the end is trimmed, and nothing else of a trimmed string.\<close>

lemma trim_one:
  assumes "trimmed s" "3 \<le> length s" "c \<in> {CHR 0x09, CHR 0x0A}"
  shows "rust_trim (s @ [c]) = s"
proof -
  have "\<not> starts_with w (s @ [c])" if "w \<in> set white_space" for w
    using assms white_space_facts [OF that] that
    by (simp add: starts_with_append_short trimmed_def list_all_iff)
  then have 1: "rust_trim_start (s @ [c]) = s @ [c]" unfolding rust_trim_start_def by (intro strip_while_none) blast
  have "find (\<lambda>w. starts_with w (c # rev s)) (map rev white_space) = Some [c]"
  proof -
    consider "c = CHR 0x09" | "c = CHR 0x0A" using assms(3) by blast
    then show ?thesis by cases (simp_all add: white_space_def)
  qed
  moreover have "\<forall>w \<in> set (map rev white_space). \<not> starts_with w (rev s)"
    using assms by (auto simp: trimmed_def list_all_iff ends_with_rev)
  ultimately have "strip_while (map rev white_space) (Suc (length s)) (c # rev s) = rev s"
    using strip_while_none [of "map rev white_space" "rev s"] by simp
  then show ?thesis unfolding rust_trim_def 1 by (simp add: rust_trim_end_def)
qed

lemma trim_nl: "trimmed s \<Longrightarrow> 3 \<le> length s \<Longrightarrow> rust_trim (s @ nl) = s"
  by (rule trim_one) simp_all

lemma cut_at:
  "c \<notin> set x \<Longrightarrow> takeWhile (\<lambda>z. z \<noteq> c) (x @ c # y) = x"
  "c \<notin> set x \<Longrightarrow> dropWhile (\<lambda>z. z \<noteq> c) (x @ c # y) = c # y"
  by (induction x) auto

lemma splitn_two: "c \<notin> set x \<Longrightarrow> splitn 2 c (x @ c # y) = [x, y]"
  by (simp add: numeral_2_eq_2 cut_at)

lemma rust_lines_cons:
  assumes "CHR 0x0A \<notin> set l" "l = [] \<or> last l \<noteq> CHR 0x0D"
  shows "rust_lines (l @ nl @ s) = l # rust_lines s"
proof -
  have "split_on (CHR 0x0A) (l @ nl @ s) = l # split_on (CHR 0x0A) s" using split_on_append [OF assms(1)] by simp
  then show ?thesis using assms(2) by (auto simp: rust_lines_def Let_def)
qed

lemma rust_lines_Nil [simp]: "rust_lines [] = []"
  by (simp add: rust_lines_def)

section \<open>Writing and reading packed refs\<close>

text \<open>A ref whose lines can be read back: ids in hexadecimal, a name without white space around it.\<close>

definition ref_clean :: "git_ref \<Rightarrow> bool" where
  "ref_clean r \<longleftrightarrow> list_all is_hexdigit (ref_oid r) \<and> ref_oid r \<noteq> [] \<and> list_all is_hexdigit (ref_peeled r) \<and>
     ref_name r \<noteq> [] \<and> CHR 0x0A \<notin> set (ref_name r) \<and> trimmed (ref_name r)"

definition packed_entry :: "git_ref \<Rightarrow> string \<times> string \<times> string" where
  "packed_entry r = (ref_name r, ref_oid r, ref_peeled r)"

lemma hex_not_special: "is_hexdigit c \<Longrightarrow> c \<noteq> CHR 0x0A \<and> c \<noteq> CHR 0x0D \<and> c \<noteq> CHR 0x20 \<and> c \<noteq> CHR ''#'' \<and> c \<noteq> CHR ''^''"
  by (auto simp: is_hexdigit_def)

lemma bt_insert_last: "\<forall>e \<in> set m. fst e < k \<Longrightarrow> bt_insert k v m = m @ [(k, v)]"
  by (induction m) (auto dest: order.strict_implies_not_eq order.asym)

lemma bt_insert_replace: "\<forall>e \<in> set m. fst e < k \<Longrightarrow> bt_insert k v (m @ [(k, w)]) = m @ [(k, v)]"
  by (induction m) (auto dest: order.strict_implies_not_eq order.asym)

lemma lines_of_ref:
  assumes "ref_clean r"
  shows "rust_lines (packed_line r @ s) =
    (ref_oid r @ '' '' @ ref_name r) # (if ref_peeled r \<noteq> [] then [''^'' @ ref_peeled r] else []) @ rust_lines s"
proof -
  have hex: "CHR 0x0A \<notin> set x \<and> CHR 0x0D \<notin> set x" if "list_all is_hexdigit x" for x
    using that hex_not_special by (auto simp: list_all_iff)
  have name: "ref_name r \<noteq> []" "last (ref_name r) \<noteq> CHR 0x0D" "CHR 0x0A \<notin> set (ref_name r)"
    using assms trimmed_not_cr by (auto simp: ref_clean_def)
  have "rust_lines (packed_line r @ s) =
      (ref_oid r @ '' '' @ ref_name r) # rust_lines ((if ref_peeled r \<noteq> [] then ''^'' @ ref_peeled r @ nl else []) @ s)"
    using name hex [of "ref_oid r"] assms rust_lines_cons [of "ref_oid r @ '' '' @ ref_name r"]
    by (auto simp: packed_line_def ref_clean_def)
  also have "rust_lines ((if ref_peeled r \<noteq> [] then ''^'' @ ref_peeled r @ nl else []) @ s) =
      (if ref_peeled r \<noteq> [] then [''^'' @ ref_peeled r] else []) @ rust_lines s"
    using hex [of "ref_peeled r"] assms rust_lines_cons [of "''^'' @ ref_peeled r" s]
    by (cases "ref_peeled r" rule: rev_cases) (auto simp: ref_clean_def)
  finally show ?thesis .
qed

lemma parse_ref_lines:
  assumes r: "ref_clean r" and m: "\<forall>e \<in> set m. fst e < ref_name r"
  shows "foldl packed_parse_line (m, prev) ((ref_oid r @ '' '' @ ref_name r) # (if ref_peeled r \<noteq> [] then [''^'' @ ref_peeled r] else [])) =
    (m @ [packed_entry r], Some (ref_name r))"
proof -
  have oid: "CHR 0x20 \<notin> set (ref_oid r)" "hd (ref_oid r) \<noteq> CHR ''#''" "hd (ref_oid r) \<noteq> CHR ''^''" "ref_oid r \<noteq> []"
    using r hex_not_special by (auto simp: ref_clean_def list_all_iff dest: hd_in_set)
  have first: "packed_parse_line (m, prev) (ref_oid r @ '' '' @ ref_name r) = (m @ [(ref_name r, ref_oid r, [])], Some (ref_name r))"
    using oid r splitn_two [of "CHR 0x20" "ref_oid r" "ref_name r"] m
    by (cases "ref_oid r") (auto simp: packed_parse_line_def Let_def ref_clean_def hex_trimmed bt_insert_last)
  show ?thesis
  proof (cases "ref_peeled r = []")
    case False
    have "map_of m (ref_name r) = None" using m by (force simp: map_of_eq_None_iff)
    then have "map_of (m @ [(ref_name r, ref_oid r, [])]) (ref_name r) = Some (ref_oid r, [])" by (simp add: map_add_def)
    then show ?thesis using False first r m
      by (auto simp: packed_parse_line_def ref_clean_def hex_trimmed bt_insert_replace packed_entry_def)
  qed (use first in \<open>simp add: packed_entry_def\<close>)
qed

lemma parse_refs_then:
  "sorted_wrt (<) (map ref_name rs) \<Longrightarrow> \<forall>r \<in> set rs. ref_clean r \<and> (\<forall>e \<in> set m. fst e < ref_name r) \<Longrightarrow>
   \<exists>prev'. foldl packed_parse_line (m, prev) (rust_lines (concat (map packed_line rs) @ s)) = foldl packed_parse_line (m @ map packed_entry rs, prev') (rust_lines s)"
proof (induction rs arbitrary: m prev)
  case (Cons r rs)
  have "foldl packed_parse_line (m, prev) (rust_lines (concat (map packed_line (r # rs)) @ s)) =
      foldl packed_parse_line (m @ [packed_entry r], Some (ref_name r)) (rust_lines (concat (map packed_line rs) @ s))"
    using Cons.prems parse_ref_lines [of r m prev] lines_of_ref [of r "concat (map packed_line rs) @ s"] by simp
  moreover have "\<forall>r' \<in> set rs. ref_clean r' \<and> (\<forall>e \<in> set (m @ [packed_entry r]). fst e < ref_name r')"
    using Cons.prems by (auto simp: packed_entry_def)
  ultimately show ?case using Cons.IH [of "m @ [packed_entry r]" "Some (ref_name r)"] Cons.prems by simp
qed auto

lemma parse_sorted_refs:
  assumes "sorted_wrt (<) (map ref_name rs)" "\<forall>r \<in> set rs. ref_clean r \<and> (\<forall>e \<in> set m. fst e < ref_name r)"
  shows "fst (foldl packed_parse_line (m, prev) (rust_lines (concat (map packed_line rs)))) = m @ map packed_entry rs"
  using parse_refs_then [OF assms, of prev "[]"] by auto

lemma parse_packed_lines: "parse_packed (packed_content rs) = fst (foldl packed_parse_line ([], None) (rust_lines (concat (map packed_line (sort_key ref_name rs)))))"
proof -
  have "rust_lines (packed_content rs) =
      ''# pack-refs with: peeled fully-peeled sorted '' # rust_lines (concat (map packed_line (sort_key ref_name rs)))"
    using rust_lines_cons [of "''# pack-refs with: peeled fully-peeled sorted ''"]
    by (simp add: packed_content_def packed_header_def)
  moreover have "packed_parse_line ([], None) ''# pack-refs with: peeled fully-peeled sorted '' = ([], None)"
    by (simp add: packed_parse_line_def)
  ultimately show ?thesis by (simp add: parse_packed_def)
qed

lemma sort_key_strict:
  "distinct (map f rs) \<Longrightarrow> sorted_wrt (<) (map (f :: 'a \<Rightarrow> 'b :: linorder) (sort_key f rs))"
  unfolding strict_sorted_iff by (simp add: distinct_map)

lemma parse_packed_content:
  assumes "distinct (map ref_name rs)" "\<forall>r \<in> set rs. ref_clean r"
  shows "parse_packed (packed_content rs) = map packed_entry (sort_key ref_name rs)"
  using parse_sorted_refs [of "sort_key ref_name rs" "[]" None] sort_key_strict [OF assms(1)] assms(2) by (simp add: parse_packed_lines)

lemma read_head_symbolic:
  "trimmed t \<Longrightarrow> 3 \<le> length t \<Longrightarrow> head_file d = Some (''ref: '' @ t @ nl) \<Longrightarrow> read_head d = (t, [])"
proof -
  assume t: "trimmed t" "3 \<le> length t" "head_file d = Some (''ref: '' @ t @ nl)"
  have "trimmed (''ref: '' @ t)"
    unfolding trimmed_def list_all_iff
  proof (intro ballI conjI notI)
    fix w assume w: "w \<in> set white_space"
    note f = white_space_facts [OF w]
    show False if "ends_with w (''ref: '' @ t)"
      using that t f starts_with_append_short [of "rev w" "rev t"] w
      by (auto simp: ends_with_def trimmed_def list_all_iff)
    have "list_all (\<lambda>w. hd w \<noteq> CHR ''r'') white_space" by code_simp
    then show False if "starts_with w (''ref: '' @ t)"
      using that f w by (cases w) (auto simp: list_all_iff)
  qed
  then have "rust_trim (''ref: '' @ t @ nl) = ''ref: '' @ t" using trim_nl [of "''ref: '' @ t"] by simp
  then show ?thesis using t by (auto simp: read_head_def Let_def)
qed

lemma read_head_detached:
  assumes "list_all is_hexdigit oid" "3 \<le> length oid" "validate_oid oid" "head_file d = Some (oid @ nl)"
  shows "read_head d = ([], oid)"
proof -
  have "rust_trim (oid @ nl) = oid" using trim_nl hex_trimmed assms by simp
  moreover have "\<not> starts_with ''ref: '' oid" using assms by (cases oid) (auto simp: is_hexdigit_def)
  ultimately show ?thesis using assms by (simp add: read_head_def)
qed

text \<open>HEAD names a ref (a name more than two characters long) or an object by its full id.\<close>

definition head_clean :: "ref_snapshot \<Rightarrow> bool" where
  "head_clean s \<longleftrightarrow>
     (if snap_head_target s \<noteq> [] then trimmed (snap_head_target s) \<and> 3 \<le> length (snap_head_target s) \<and> snap_head_oid s = []
      else list_all is_hexdigit (snap_head_oid s) \<and> (length (snap_head_oid s) = 40 \<or> length (snap_head_oid s) = 64))"

lemma git_ref_eta: "\<lparr>ref_name = ref_name r, ref_oid = ref_oid r, ref_peeled = ref_peeled r\<rparr> = (r :: git_ref)"
  by simp

lemma load_head_clean:
  assumes "head_clean s"
  shows "fst (load_ref_snapshot s d) = Inr ()"
    "packed_file (snd (load_ref_snapshot s d)) = Some (packed_content (snap_refs s))"
    "loose_files (snd (load_ref_snapshot s d)) = []"
    "read_head (snd (load_ref_snapshot s d)) = (snap_head_target s, snap_head_oid s)"
proof -
  let ?d = "snd (load_ref_snapshot s d)"
  have oid: "3 \<le> length (snap_head_oid s)" "validate_oid (snap_head_oid s)" "snap_head_oid s \<noteq> []"
    if "snap_head_target s = []"
    using assms that by (auto simp: head_clean_def validate_oid_def)
  have head: "head_file ?d = Some ((if snap_head_target s \<noteq> [] then ''ref: '' @ snap_head_target s else snap_head_oid s) @ nl)"
    using oid by (auto simp: load_ref_snapshot_def Let_def)
  show "fst (load_ref_snapshot s d) = Inr ()" "packed_file ?d = Some (packed_content (snap_refs s))" "loose_files ?d = []"
    using oid by (auto simp: load_ref_snapshot_def Let_def)
  show "read_head ?d = (snap_head_target s, snap_head_oid s)"
  proof (cases "snap_head_target s = []")
    case True
    then show ?thesis using oid head assms by (auto simp: head_clean_def intro!: read_head_detached)
  next
    case False
    then show ?thesis using head assms read_head_symbolic [of "snap_head_target s" ?d] by (simp add: head_clean_def)
  qed
qed

lemma load_then_read:
  assumes "distinct (map ref_name (snap_refs s))" "\<forall>r \<in> set (snap_refs s). ref_clean r" "head_clean s"
  shows "fst (load_ref_snapshot s d) = Inr ()"
    "read_refs peel (snd (load_ref_snapshot s d)) = s\<lparr>snap_refs := map (fill_peel peel) (sort_key ref_name (snap_refs s))\<rparr>"
proof -
  have "map (\<lambda>(n, oid, p). fill_peel peel \<lparr>ref_name = n, ref_oid = oid, ref_peeled = p\<rparr>) (map packed_entry rs) = map (fill_peel peel) rs" for rs
    by (simp add: packed_entry_def git_ref_eta)
  then show "read_refs peel (snd (load_ref_snapshot s d)) = s\<lparr>snap_refs := map (fill_peel peel) (sort_key ref_name (snap_refs s))\<rparr>"
    using load_head_clean [OF assms(3)] parse_packed_content [OF assms(1,2)] by (simp add: read_refs_def)
  show "fst (load_ref_snapshot s d) = Inr ()" by (rule load_head_clean [OF assms(3)])
qed

text \<open>
  What is written to the ref files is read back. Loading a snapshot whose names are distinct
  and carry no white space at either end, with hexadecimal ids, succeeds, and reading the files
  gives the same refs in name order, each with its peeled id, and the same HEAD, whatever the files
  held before.
\<close>

theorem packed_refs_roundtrip:
  assumes "distinct (map ref_name (snap_refs s))" "\<forall>r \<in> set (snap_refs s). ref_clean r" "head_clean s"
  shows "fst (load_ref_snapshot s d) = Inr () \<and>
    read_refs peel (snd (load_ref_snapshot s d)) = s\<lparr>snap_refs := map (fill_peel peel) (sort_key ref_name (snap_refs s))\<rparr>"
  using load_then_read [OF assms] by blast

theorem packed_refs_roundtrip_witness:
  "snap_refs (read_refs (\<lambda>_. None) (snd (load_ref_snapshot
     \<lparr>snap_refs = [\<lparr>ref_name = ''refs/tags/v1'', ref_oid = ''ab'', ref_peeled = ''cd''\<rparr>, \<lparr>ref_name = ''refs/heads/main'', ref_oid = ''ef'', ref_peeled = ''''\<rparr>],
      snap_head_target = ''refs/heads/main'', snap_head_oid = ''''\<rparr>
     \<lparr>packed_file = None, loose_files = [(''refs/heads/old'', ''12'')], head_file = None\<rparr>))) =
   [\<lparr>ref_name = ''refs/heads/main'', ref_oid = ''ef'', ref_peeled = ''''\<rparr>, \<lparr>ref_name = ''refs/tags/v1'', ref_oid = ''ab'', ref_peeled = ''cd''\<rparr>]"
proof -
  let ?a = "\<lparr>ref_name = ''refs/tags/v1'', ref_oid = ''ab'', ref_peeled = ''cd''\<rparr>"
  let ?b = "\<lparr>ref_name = ''refs/heads/main'', ref_oid = ''ef'', ref_peeled = ''''\<rparr>"
  let ?s = "\<lparr>snap_refs = [?a, ?b], snap_head_target = ''refs/heads/main'', snap_head_oid = ''''\<rparr>"
  have "\<forall>r \<in> set (snap_refs ?s). ref_clean r" "head_clean ?s" "distinct (map ref_name (snap_refs ?s))" by code_simp+
  moreover have "sort_key ref_name [?a, ?b] = [?b, ?a]" "fill_peel (\<lambda>_. None) ?a = ?a" "fill_peel (\<lambda>_. None) ?b = ?b" by code_simp+
  ultimately show ?thesis
    using packed_refs_roundtrip [of ?s "\<lparr>packed_file = None, loose_files = [(''refs/heads/old'', ''12'')], head_file = None\<rparr>" "\<lambda>_. None"] by simp
qed

section \<open>What the refs mean\<close>

text \<open>
  The specification of the ref operations: a map from names to ids and a HEAD, which is symbolic
  (a target) or detached (an id).
\<close>

record refs_spec =
  sp_refs :: "string \<Rightarrow> string option"
  sp_target :: string
  sp_detached :: string

definition spec_of :: "ref_snapshot \<Rightarrow> refs_spec" where
  "spec_of s = \<lparr>sp_refs = map_of (map (\<lambda>r. (ref_name r, ref_oid r)) (snap_refs s)),
     sp_target = snap_head_target s, sp_detached = snap_head_oid s\<rparr>"

definition spec_get :: "refs_spec \<Rightarrow> string \<Rightarrow> string option" where
  "spec_get a name =
     (if name = HEAD then
        (if sp_target a = [] then (if sp_detached a = [] then None else Some (sp_detached a)) else sp_refs a (sp_target a))
      else sp_refs a name)"

definition spec_update :: "refs_spec \<Rightarrow> ref_update \<Rightarrow> refs_spec" where
  "spec_update a u =
     (if new_symbolic_target u \<noteq> [] then
        (if upd_name u = HEAD then a\<lparr>sp_target := new_symbolic_target u, sp_detached := []\<rparr> else a)
      else if upd_name u = HEAD then a\<lparr>sp_target := [], sp_detached := new_oid u\<rparr>
      else a\<lparr>sp_refs := (sp_refs a)(upd_name u := if is_delete u then None else Some (new_oid u))\<rparr>)"

definition spec_txns :: "refs_spec \<Rightarrow> ref_transaction list \<Rightarrow> refs_spec" where
  "spec_txns a txns = foldl spec_update a (concat (map updates txns))"

lemma spec_txns_simps [simp]:
  "spec_txns a [] = a"
  "spec_txns a (t # ts) = spec_txns (foldl spec_update a (updates t)) ts"
  "spec_txns a (ts @ ts') = spec_txns (spec_txns a ts) ts'"
  by (simp_all add: spec_txns_def)

definition snap_ok :: "ref_snapshot \<Rightarrow> bool" where
  "snap_ok s = sorted_wrt (<) (map ref_name (snap_refs s))"

subsection \<open>Searching and patching a sorted list\<close>

lemma search_prefix:
  "sorted_wrt (<) (map ref_name rs) \<Longrightarrow>
   takeWhile (\<lambda>r. ref_name r < n) rs = filter (\<lambda>r. ref_name r < n) rs"
proof (induction rs)
  case (Cons r rs)
  show ?case
  proof (cases "ref_name r < n")
    case False
    then have "\<forall>r' \<in> set rs. \<not> ref_name r' < n" using Cons.prems by auto
    with False show ?thesis by simp
  qed (use Cons in simp)
qed simp

lemma search_split:
  assumes "sorted_wrt (<) (map ref_name rs)"
  obtains (found) xs r ys where "rs = xs @ r # ys" "ref_name r = n" "search_ref n rs = Inr (length xs)"
      "\<forall>x \<in> set xs. ref_name x < n" "\<forall>y \<in> set ys. n < ref_name y"
    | (absent) xs ys where "rs = xs @ ys" "search_ref n rs = Inl (length xs)"
      "\<forall>x \<in> set xs. ref_name x < n" "\<forall>y \<in> set ys. n < ref_name y"
proof -
  define xs ys where "xs = takeWhile (\<lambda>r. ref_name r < n) rs" and "ys = dropWhile (\<lambda>r. ref_name r < n) rs"
  note xy = this
  have rs: "rs = xs @ ys" unfolding xy by simp
  have xs: "\<forall>x \<in> set xs. ref_name x < n" unfolding xy by (auto dest: set_takeWhileD)
  have search: "search_ref n rs = (if ys \<noteq> [] \<and> ref_name (hd ys) = n then Inr (length xs) else Inl (length xs))"
    unfolding search_ref_def xy(1) [symmetric] unfolding rs by (cases ys) simp_all
  show ?thesis
  proof (cases ys)
    case Nil
    then show ?thesis using absent [of xs ys] rs xs search by simp
  next
    case (Cons y zs)
    then have "n \<le> ref_name y" using hd_dropWhile [of "\<lambda>r. ref_name r < n" rs] xy(2) by auto
    moreover have "\<forall>z \<in> set zs. ref_name y < ref_name z" using assms unfolding rs Cons by (simp add: sorted_wrt_append)
    ultimately show ?thesis
      using found [of xs y zs] absent [of xs ys] rs xs Cons search
      by (cases "ref_name y = n") (auto simp: le_less intro: order.strict_trans)
  qed
qed

lemma map_of_before: "\<forall>x \<in> set xs. f x < n \<Longrightarrow> map_of (map (\<lambda>r. (f r, g r)) xs) (n :: string) = None"
  by (induction xs) auto

lemma map_of_after: "\<forall>x \<in> set xs. n < f x \<Longrightarrow> map_of (map (\<lambda>r. (f r, g r)) xs) (n :: string) = None"
  by (induction xs) auto

lemma search_lookup:
  assumes "snap_ok s"
  shows "(case search_ref n (snap_refs s) of Inr i \<Rightarrow> Some (ref_oid (snap_refs s ! i)) | Inl _ \<Rightarrow> None) = sp_refs (spec_of s) n"
  using assms unfolding snap_ok_def
proof (cases rule: search_split [where n = n])
  case (found xs r ys)
  then show ?thesis by (simp add: spec_of_def map_of_before map_add_def)
next
  case (absent xs ys)
  then show ?thesis by (simp add: spec_of_def map_of_before map_of_after map_add_def)
qed

text \<open>Patching keeps the list in order and does what the specification says.\<close>

lemma patch_update_ok:
  assumes "snap_ok s"
  shows "snap_ok (patch_update peel s u) \<and> spec_of (patch_update peel s u) = spec_update (spec_of s) u"
proof (cases "new_symbolic_target u \<noteq> [] \<or> upd_name u = HEAD")
  case True
  then show ?thesis using assms by (auto simp: patch_update_def spec_update_def spec_of_def snap_ok_def)
next
  case False
  have "sorted_wrt (<) (map ref_name (snap_refs s))" using assms by (simp add: snap_ok_def)
  then show ?thesis
  proof (cases rule: search_split [where n = "upd_name u"])
    case (found xs r ys)
    then show ?thesis using False assms
      by (auto simp: patch_update_def spec_update_def spec_of_def snap_ok_def sorted_wrt_append map_add_def
          map_of_before map_of_after fun_eq_iff split: option.split)
  next
    case (absent xs ys)
    then show ?thesis using False assms
      by (auto simp: patch_update_def spec_update_def spec_of_def snap_ok_def sorted_wrt_append map_add_def
          map_of_before map_of_after fun_eq_iff split: option.split)
  qed
qed

lemma patch_updates_ok:
  "snap_ok s \<Longrightarrow> snap_ok (foldl (patch_update peel) s us) \<and> spec_of (foldl (patch_update peel) s us) = foldl spec_update (spec_of s) us"
  by (induction us arbitrary: s) (auto simp: patch_update_ok)

lemma patch_snapshot_ok:
  "snap_ok s \<Longrightarrow> snap_ok (patch_snapshot peel s txns) \<and> spec_of (patch_snapshot peel s txns) = spec_txns (spec_of s) txns"
  by (simp add: patch_snapshot_def spec_txns_def patch_updates_ok)

subsection \<open>Lookups with an overlay\<close>

text \<open>Closed forms of a lookup: it returns unless HEAD points at itself.\<close>

lemma rv_get_overlay: "rv_overlay v name = Some x \<Longrightarrow> rv_get v name = Some x"
  by (subst rv_get.simps) simp

lemma rv_get_plain:
  "rv_overlay v name = None \<Longrightarrow> name \<noteq> HEAD \<Longrightarrow> snap_ok (rv_base v) \<Longrightarrow>
   rv_get v name = Some (sp_refs (spec_of (rv_base v)) name)"
  by (subst rv_get.simps) (simp add: search_lookup)

lemma rv_get_head:
  "rv_overlay v HEAD = None \<Longrightarrow>
   rv_get v HEAD = (if head_target v = [] then
       (let oid = or_default (snap_head_oid (rv_base v)) (rv_detached v) in Some (if oid = [] then None else Some oid))
     else rv_get v (head_target v))"
  by (subst rv_get.simps) simp

lemma rv_get_loops: "rv_overlay v HEAD = None \<Longrightarrow> head_target v = HEAD \<Longrightarrow> rv_get v HEAD = None"
proof (rule ccontr)
  assume v: "rv_overlay v HEAD = None" "head_target v = HEAD" and "rv_get v HEAD \<noteq> None"
  then obtain y where "rv_get v HEAD = Some y" by blast
  then have "\<not> (HEAD = HEAD \<and> rv_overlay v HEAD = None \<and> head_target v = HEAD)"
  proof (rule rv_get.raw_induct [where P = "\<lambda>v n y. \<not> (n = HEAD \<and> rv_overlay v HEAD = None \<and> head_target v = HEAD)", rotated])
    fix f v' n y'
    assume IH: "\<And>v n y. f v n = Some y \<Longrightarrow> \<not> (n = HEAD \<and> rv_overlay v HEAD = None \<and> head_target v = HEAD)"
      and step: "(case rv_overlay v' n of
        None \<Rightarrow> if n = HEAD then if head_target v' = [] then
              (let oid = or_default (snap_head_oid (rv_base v')) (rv_detached v') in Some (if oid = [] then None else Some oid))
            else f v' (head_target v')
          else Some (case search_ref n (snap_refs (rv_base v')) of Inl _ \<Rightarrow> None | Inr i \<Rightarrow> Some (ref_oid (snap_refs (rv_base v') ! i)))
      | Some x \<Rightarrow> Some x) = Some y'"
    show "\<not> (n = HEAD \<and> rv_overlay v' HEAD = None \<and> head_target v' = HEAD)"
    proof
      assume h: "n = HEAD \<and> rv_overlay v' HEAD = None \<and> head_target v' = HEAD"
      then have "f v' HEAD = Some y'" using step by simp
      then show False using IH [of v' HEAD y'] h by blast
    qed
  qed
  with v show False by simp
qed

text \<open>What a view stands for: the base with the overlay on top, HEAD resolved last.\<close>

definition view_spec :: "ref_view \<Rightarrow> refs_spec" where
  "view_spec v = \<lparr>sp_refs = (\<lambda>n. case rv_overlay v n of
       Some x \<Rightarrow> if n = HEAD then sp_refs (spec_of (rv_base v)) n else x
     | None \<Rightarrow> sp_refs (spec_of (rv_base v)) n),
     sp_target = head_target v, sp_detached = or_default (snap_head_oid (rv_base v)) (rv_detached v)\<rparr>"

text \<open>Views the code builds: a detached HEAD is in the overlay too, and no symbolic one is.\<close>

definition view_ok :: "ref_view \<Rightarrow> bool" where
  "view_ok v \<longleftrightarrow> snap_ok (rv_base v) \<and>
     (rv_overlay v HEAD \<noteq> None \<longrightarrow>
        head_target v = [] \<and> rv_detached v \<noteq> None \<and> the (rv_detached v) \<noteq> [] \<and> rv_overlay v HEAD = Some (rv_detached v))"

lemma rv_get_spec:
  assumes "view_ok v" "head_target v \<noteq> HEAD"
  shows "rv_get v name = Some (spec_get (view_spec v) name)"
proof -
  have plain: "rv_get v n = Some (sp_refs (view_spec v) n)" if "n \<noteq> HEAD" for n
    using that assms by (cases "rv_overlay v n") (auto simp: rv_get_overlay rv_get_plain view_spec_def view_ok_def)
  show ?thesis
  proof (cases "name = HEAD")
    case True
    show ?thesis
    proof (cases "rv_overlay v HEAD")
      case None
      then show ?thesis using True plain assms(2) by (auto simp: rv_get_head spec_get_def view_spec_def Let_def)
    next
      case (Some x)
      then show ?thesis using True assms(1) by (auto simp: rv_get_overlay spec_get_def view_spec_def view_ok_def or_default_def)
    qed
  qed (simp add: plain spec_get_def)
qed

lemma rv_new_ok: "snap_ok s \<Longrightarrow> view_ok (rv_new s) \<and> view_spec (rv_new s) = spec_of s"
  by (simp add: view_ok_def rv_new_def view_spec_def spec_of_def head_target_def or_default_def)

lemma sp_target_of [simp]: "sp_target (view_spec v) = head_target v" "sp_target (spec_of s) = snap_head_target s"
  by (simp_all add: view_spec_def spec_of_def)

lemma set_head_target_spec:
  "view_ok v \<Longrightarrow> view_ok (set_head_target t v) \<and>
   view_spec (set_head_target t v) = (view_spec v)\<lparr>sp_target := t, sp_detached := []\<rparr>"
  by (auto simp: set_head_target_def view_ok_def view_spec_def head_target_def or_default_def fun_eq_iff split: option.splits)

lemma rv_set_spec:
  "view_ok v \<Longrightarrow> val \<noteq> [] \<Longrightarrow> view_ok (rv_set n val v) \<and>
   view_spec (rv_set n val v) =
     (if n = HEAD then (view_spec v)\<lparr>sp_target := [], sp_detached := val\<rparr>
      else (view_spec v)\<lparr>sp_refs := (sp_refs (view_spec v))(n \<mapsto> val)\<rparr>)"
  by (auto simp: rv_set_def Let_def view_ok_def view_spec_def head_target_def or_default_def fun_eq_iff split: option.splits)

lemma rv_remove_spec:
  "view_ok v \<Longrightarrow> n \<noteq> HEAD \<Longrightarrow> view_ok (rv_remove n v) \<and>
   view_spec (rv_remove n v) = (view_spec v)\<lparr>sp_refs := (sp_refs (view_spec v))(n := None)\<rparr>"
  by (auto simp: rv_remove_def view_ok_def view_spec_def head_target_def fun_eq_iff split: option.splits)

section \<open>The cached refs (refs.rs, RefsCached)\<close>

text \<open>The parsed snapshot and the transactions applied since, not yet folded in.\<close>

record refs_cached =
  cache_data :: ref_snapshot
  cache_pending :: "ref_transaction list"

definition pending_update :: "ref_view \<Rightarrow> ref_update \<Rightarrow> ref_view" where
  "pending_update v u =
     (if new_symbolic_target u \<noteq> [] then (if upd_name u = HEAD then set_head_target (new_symbolic_target u) v else v)
      else if is_delete u then rv_remove (upd_name u) v
      else rv_set (upd_name u) (new_oid u) v)"

text \<open>\<open>ref_view\<close>: lookups without materializing; \<open>refs_arc\<close>: the pending transactions folded in.\<close>

definition cached_view :: "refs_cached \<Rightarrow> ref_view" where
  "cached_view c = foldl pending_update (rv_new (cache_data c)) (concat (map updates (cache_pending c)))"

definition refs_arc :: "(string \<Rightarrow> string option) \<Rightarrow> refs_cached \<Rightarrow> ref_snapshot \<times> refs_cached" where
  "refs_arc peel c =
     (if cache_pending c \<noteq> []
      then (let patched = patch_snapshot peel (cache_data c) (cache_pending c)
            in (patched, c\<lparr>cache_data := patched, cache_pending := []\<rparr>))
      else (cache_data c, c))"

text \<open>
  Updates on which the view and the files agree: HEAD is not made to point at itself and is not
  deleted (both pass the validation).
\<close>

definition upd_head_ok :: "ref_update \<Rightarrow> bool" where
  "upd_head_ok u \<longleftrightarrow> new_symbolic_target u \<noteq> HEAD \<and> \<not> (new_symbolic_target u = [] \<and> upd_name u = HEAD \<and> is_delete u)"

definition txn_ok :: "ref_transaction \<Rightarrow> bool" where
  "txn_ok t = list_all upd_head_ok (updates t)"

lemma pending_update_spec:
  assumes "view_ok v" "upd_head_ok u"
  shows "view_ok (pending_update v u) \<and> view_spec (pending_update v u) = spec_update (view_spec v) u"
  using assms set_head_target_spec [OF assms(1)] rv_set_spec [OF assms(1)] rv_remove_spec [OF assms(1)]
  by (auto simp: pending_update_def spec_update_def upd_head_ok_def is_delete_def)

lemma pending_updates_spec:
  "view_ok v \<Longrightarrow> list_all upd_head_ok us \<Longrightarrow>
   view_ok (foldl pending_update v us) \<and> view_spec (foldl pending_update v us) = foldl spec_update (view_spec v) us"
  by (induction us arbitrary: v) (auto simp: pending_update_spec)

lemma spec_updates_target:
  "sp_target a \<noteq> HEAD \<Longrightarrow> list_all upd_head_ok us \<Longrightarrow> sp_target (foldl spec_update a us) \<noteq> HEAD"
  by (induction us arbitrary: a) (auto simp: spec_update_def upd_head_ok_def)

lemma list_all_concat: "list_all P (concat xss) = list_all (list_all P) xss"
  by (auto simp: list_all_iff)

lemma cached_view_facts:
  assumes "snap_ok (cache_data c)" "snap_head_target (cache_data c) \<noteq> HEAD" "list_all txn_ok (cache_pending c)"
  shows "view_ok (cached_view c)" "head_target (cached_view c) \<noteq> HEAD" "snap_ok (fst (refs_arc peel c))"
    "view_spec (cached_view c) = spec_of (fst (refs_arc peel c))"
proof -
  let ?us = "concat (map updates (cache_pending c))"
  have us: "list_all upd_head_ok ?us" using assms(3) by (simp add: list_all_concat list.pred_map o_def txn_ok_def [abs_def])
  have view: "view_ok (cached_view c)" "view_spec (cached_view c) = spec_txns (spec_of (cache_data c)) (cache_pending c)"
    using pending_updates_spec [of "rv_new (cache_data c)" ?us] rv_new_ok [OF assms(1)] us
    by (simp_all add: cached_view_def spec_txns_def)
  have patched: "snap_ok (fst (refs_arc peel c))" "spec_of (fst (refs_arc peel c)) = view_spec (cached_view c)"
    using patch_snapshot_ok [OF assms(1)] assms(1) by (simp_all add: refs_arc_def Let_def view(2))
  show "head_target (cached_view c) \<noteq> HEAD"
    using spec_updates_target [of "spec_of (cache_data c)", OF _ us] assms(2) arg_cong [OF view(2), of sp_target]
    by (simp add: spec_txns_def)
  show "view_ok (cached_view c)" "snap_ok (fst (refs_arc peel c))" "view_spec (cached_view c) = spec_of (fst (refs_arc peel c))"
    using view(1) patched by simp_all
qed

text \<open>
  Lookups without materializing are exact. Over a sorted snapshot and any pending transactions
  that leave HEAD sound, every point lookup of the cached view returns, and returns what the lookup
  in the materialized snapshot gives, HEAD's resolution included; materializing folds all pending
  transactions in and keeps the list sorted.
\<close>

theorem cached_view_exact:
  assumes "snap_ok (cache_data c)" "snap_head_target (cache_data c) \<noteq> HEAD" "list_all txn_ok (cache_pending c)"
  shows "rv_get (cached_view c) name = Some (spec_get (spec_of (fst (refs_arc peel c))) name) \<and>
    snap_ok (fst (refs_arc peel c)) \<and> cache_pending (snd (refs_arc peel c)) = [] \<and>
    cache_data (snd (refs_arc peel c)) = fst (refs_arc peel c)"
  using rv_get_spec [OF cached_view_facts(1,2) [OF assms]] cached_view_facts(3,4) [OF assms, of peel]
  by (simp add: refs_arc_def Let_def)

theorem cached_view_exact_witness:
  "rv_get (cached_view \<lparr>cache_data = \<lparr>snap_refs = [\<lparr>ref_name = ''refs/heads/a'', ref_oid = ''1'', ref_peeled = ''''\<rparr>],
       snap_head_target = ''refs/heads/a'', snap_head_oid = ''''\<rparr>,
     cache_pending = [\<lparr>updates = [\<lparr>upd_name = ''refs/heads/a'', old_oid = ''1'', new_oid = ''2'', new_symbolic_target = '''', new_peeled = ''''\<rparr>],
       push_options = [], txn_atomic = True\<rparr>]\<rparr>) HEAD = Some (Some ''2'')"
proof -
  let ?c = "\<lparr>cache_data = \<lparr>snap_refs = [\<lparr>ref_name = ''refs/heads/a'', ref_oid = ''1'', ref_peeled = ''''\<rparr>],
       snap_head_target = ''refs/heads/a'', snap_head_oid = ''''\<rparr>,
     cache_pending = [\<lparr>updates = [\<lparr>upd_name = ''refs/heads/a'', old_oid = ''1'', new_oid = ''2'', new_symbolic_target = '''', new_peeled = ''''\<rparr>],
       push_options = [], txn_atomic = True\<rparr>]\<rparr>"
  have "snap_ok (cache_data ?c)" "snap_head_target (cache_data ?c) \<noteq> HEAD" "list_all txn_ok (cache_pending ?c)"
    "spec_get (spec_of (fst (refs_arc (\<lambda>_. None) ?c))) HEAD = Some ''2''" by code_simp+
  then show ?thesis using cached_view_exact [of ?c HEAD "\<lambda>_. None"] by simp
qed

text \<open>
  C34: a HEAD that points at itself is accepted and never resolves. The symbolic update of HEAD to
  HEAD passes the validation, and in the view after it the lookup of HEAD does not return.
\<close>

theorem self_pointing_head_diverges:
  "let u = \<lparr>upd_name = HEAD, old_oid = [], new_oid = [], new_symbolic_target = HEAD, new_peeled = []\<rparr>
   in validate_ref_update u = Inr () \<and> rv_get (pending_update (rv_new s) u) HEAD = None"
  by (simp add: validate_ref_update_def validate_ref_name_def pending_update_def)
     (rule rv_get_loops, simp_all add: set_head_target_def head_target_def or_default_def)


section \<open>Replay without git\<close>

text \<open>Names and ids that survive the files.\<close>

definition refs_clean :: "ref_snapshot \<Rightarrow> bool" where
  "refs_clean s \<longleftrightarrow> snap_ok s \<and> (\<forall>r \<in> set (snap_refs s). ref_clean r) \<and> head_clean s"

definition upd_clean :: "ref_update \<Rightarrow> bool" where
  "upd_clean u \<longleftrightarrow> validate_ref_update u = Inr () \<and> upd_head_ok u \<and> list_all is_hexdigit (new_peeled u) \<and>
     trimmed (upd_name u) \<and> trimmed (new_symbolic_target u)"

definition peel_hex :: "(string \<Rightarrow> string option) \<Rightarrow> bool" where
  "peel_hex peel \<longleftrightarrow> (\<forall>o' p. peel o' = Some p \<longrightarrow> list_all is_hexdigit p)"

definition entry_clean :: "string \<times> string \<times> string \<Rightarrow> bool" where
  "entry_clean e = (case e of (n, oid, p) \<Rightarrow> ref_clean \<lparr>ref_name = n, ref_oid = oid, ref_peeled = p\<rparr>)"

definition map_snap :: "packed_map \<times> string \<times> string \<Rightarrow> ref_snapshot" where
  "map_snap st = (case st of (m, ht, ho) \<Rightarrow>
     \<lparr>snap_refs = map (\<lambda>(n, oid, p). \<lparr>ref_name = n, ref_oid = oid, ref_peeled = p\<rparr>) m, snap_head_target = ht, snap_head_oid = ho\<rparr>)"

lemma snap_ok_map: "snap_ok (map_snap (m, ht, ho)) = sorted_wrt (<) (map fst m)"
proof -
  have "map ref_name (snap_refs (map_snap (m, ht, ho))) = map fst m" by (induction m) (auto simp: map_snap_def)
  then show ?thesis by (simp add: snap_ok_def)
qed

lemma entries_map: "(\<forall>r \<in> set (snap_refs (map_snap (m, ht, ho))). ref_clean r) = (\<forall>e \<in> set m. entry_clean e)"
  by (induction m) (auto simp: map_snap_def entry_clean_def)

lemma spec_of_map_snap:
  "spec_of (map_snap (m, ht, ho)) = \<lparr>sp_refs = (\<lambda>n. map_option fst (map_of m n)), sp_target = ht, sp_detached = ho\<rparr>"
proof -
  have "map_of (map (\<lambda>r. (ref_name r, ref_oid r)) (map (\<lambda>(n, oid, p). \<lparr>ref_name = n, ref_oid = oid, ref_peeled = p\<rparr>) m)) n =
     map_option fst (map_of m n)" for n
    by (induction m) auto
  then show ?thesis by (simp add: spec_of_def map_snap_def fun_eq_iff)
qed

lemma head_clean_map:
  "head_clean (map_snap (m, ht, ho)) =
     (if ht \<noteq> [] then trimmed ht \<and> 3 \<le> length ht \<and> ho = []
      else list_all is_hexdigit ho \<and> (length ho = 40 \<or> length ho = 64))"
  by (simp add: head_clean_def map_snap_def)

lemma snapshot_map_eq: "snap_ok s \<Longrightarrow> snapshot_map s = map packed_entry (snap_refs s)"
proof -
  have "sorted_wrt (<) (map ref_name rs) \<Longrightarrow> \<forall>r \<in> set rs. \<forall>e \<in> set m. fst e < ref_name r \<Longrightarrow>
      foldl (\<lambda>m r. bt_insert (ref_name r) (ref_oid r, ref_peeled r) m) m rs = m @ map packed_entry rs" for m rs
  proof (induction rs arbitrary: m)
    case (Cons r rs)
    then have "bt_insert (ref_name r) (ref_oid r, ref_peeled r) m = m @ [packed_entry r]"
      by (simp add: bt_insert_last packed_entry_def)
    moreover have "\<forall>r' \<in> set rs. \<forall>e \<in> set (m @ [packed_entry r]). fst e < ref_name r'"
      using Cons.prems by (auto simp: packed_entry_def)
    ultimately show ?case using Cons by simp
  qed simp
  then show "snap_ok s \<Longrightarrow> snapshot_map s = map packed_entry (snap_refs s)" by (simp add: snapshot_map_def snap_ok_def)
qed

lemma validated_new_oid:
  assumes "upd_clean u" "new_symbolic_target u = []" "\<not> is_delete u"
  shows "list_all is_hexdigit (new_oid u)" "length (new_oid u) = 40 \<or> length (new_oid u) = 64" "new_oid u \<noteq> []"
  using assms by (auto simp: upd_clean_def validate_ref_update_def validate_oid_def is_delete_def split: if_splits)

lemma validated_name:
  assumes "validate_ref_name n" "n \<noteq> HEAD"
  shows "n \<noteq> []" "CHR 0x0A \<notin> set n" "3 \<le> length n"
proof -
  obtain t where t: "n = ''refs/'' @ t" and "\<not> list_ex bad_ref_byte n"
    using assms by (auto simp: validate_ref_name_def starts_with_iff)
  moreover have "bad_ref_byte (CHR 0x0A)" by (simp add: bad_ref_byte_def)
  ultimately show "CHR 0x0A \<notin> set n" by (auto simp: list_ex_iff)
  show "n \<noteq> []" "3 \<le> length n" unfolding t by simp_all
qed

lemma peeled_of_hex: "upd_clean u \<Longrightarrow> peel_hex peel \<Longrightarrow> list_all is_hexdigit (peeled_of peel u)"
  by (auto simp: peeled_of_def upd_clean_def peel_hex_def or_default_def split: option.split)

definition off_ok :: "packed_map \<times> string \<times> string \<Rightarrow> bool" where
  "off_ok st = (case st of (m, ht, ho) \<Rightarrow> sorted_wrt (<) (map fst m) \<and> (\<forall>e \<in> set m. entry_clean e) \<and> head_clean (map_snap st))"

lemma offline_step:
  assumes "off_ok (m, ht, ho)" "upd_clean u" "peel_hex peel"
  shows "\<exists>st'. offline_updates peel (u # us) (m, ht, ho) = offline_updates peel us st' \<and> off_ok st' \<and>
    spec_of (map_snap st') = spec_update (spec_of (map_snap (m, ht, ho))) u"
proof -
  have v: "validate_ref_update u = Inr ()" using assms(2) by (simp add: upd_clean_def)
  consider (sym) "new_symbolic_target u \<noteq> []" "upd_name u = HEAD"
    | (head) "new_symbolic_target u = []" "upd_name u = HEAD" "\<not> is_delete u"
    | (del) "new_symbolic_target u = []" "upd_name u \<noteq> HEAD" "is_delete u"
    | (upd) "new_symbolic_target u = []" "upd_name u \<noteq> HEAD" "\<not> is_delete u"
    using v assms(2) by (auto simp: validate_ref_update_def upd_clean_def upd_head_ok_def split: if_splits)
  then show ?thesis
  proof cases
    case sym
    then have "validate_ref_name (new_symbolic_target u)" "new_symbolic_target u \<noteq> HEAD"
      using v assms(2) by (auto simp: validate_ref_update_def upd_clean_def upd_head_ok_def split: if_splits)
    then have "3 \<le> length (new_symbolic_target u)" by (rule validated_name)
    then show ?thesis using sym v assms
      by (intro exI [of _ "(m, new_symbolic_target u, [])"])
         (auto simp: off_ok_def head_clean_map upd_clean_def spec_update_def spec_of_map_snap)
  next
    case head
    then show ?thesis using v assms validated_new_oid [OF assms(2)]
      by (intro exI [of _ "(m, [], new_oid u)"]) (auto simp: off_ok_def head_clean_map spec_update_def spec_of_map_snap)
  next
    case del
    have "spec_of (map_snap (bt_remove (upd_name u) m, ht, ho)) = spec_update (spec_of (map_snap (m, ht, ho))) u"
      using del by (auto simp: spec_of_map_snap spec_update_def map_of_bt_remove fun_eq_iff)
    then show ?thesis using del v assms
      by (intro exI [of _ "(bt_remove (upd_name u) m, ht, ho)"])
         (auto simp: off_ok_def head_clean_map sorted_bt_remove, auto simp: bt_remove_def)
  next
    case upd
    have "validate_ref_name (upd_name u)" using upd v by (auto simp: validate_ref_update_def split: if_splits)
    then have clean: "entry_clean (upd_name u, new_oid u, peeled_of peel u)"
      using upd validated_new_oid [OF assms(2)] validated_name [of "upd_name u"] peeled_of_hex [OF assms(2,3)] assms(2)
      by (auto simp: entry_clean_def ref_clean_def upd_clean_def)
    have "spec_of (map_snap (bt_insert (upd_name u) (new_oid u, peeled_of peel u) m, ht, ho)) = spec_update (spec_of (map_snap (m, ht, ho))) u"
      using upd assms(1) by (auto simp: off_ok_def spec_of_map_snap spec_update_def map_of_bt_insert fun_eq_iff)
    then show ?thesis using upd v assms clean
      by (intro exI [of _ "(bt_insert (upd_name u) (new_oid u, peeled_of peel u) m, ht, ho)"])
         (auto simp: off_ok_def head_clean_map sorted_bt_insert dest: in_set_bt_insert)
  qed
qed

lemma offline_all:
  "off_ok st \<Longrightarrow> list_all upd_clean us \<Longrightarrow> peel_hex peel \<Longrightarrow>
   \<exists>st'. offline_updates peel us st = Inr st' \<and> off_ok st' \<and> spec_of (map_snap st') = foldl spec_update (spec_of (map_snap st)) us"
proof (induction us arbitrary: st)
  case (Cons u us)
  obtain m ht ho where st: "st = (m, ht, ho)" by (cases st)
  obtain st1 where 1: "offline_updates peel (u # us) st = offline_updates peel us st1" "off_ok st1"
      "spec_of (map_snap st1) = spec_update (spec_of (map_snap st)) u"
    using offline_step [of m ht ho u peel us] Cons.prems st by auto
  then show ?case using Cons.IH [of st1] Cons.prems by auto
qed simp

lemma fill_peel_simps [simp]: "ref_name (fill_peel peel r) = ref_name r" "ref_oid (fill_peel peel r) = ref_oid r"
  by (simp_all add: fill_peel_def split: option.split)

lemma fill_peel_clean: "peel_hex peel \<Longrightarrow> ref_clean r \<Longrightarrow> ref_clean (fill_peel peel r)"
  by (auto simp: fill_peel_def ref_clean_def peel_hex_def split: option.split)

lemma load_clean:
  assumes "refs_clean s" "peel_hex peel"
  shows "fst (load_ref_snapshot s d) = Inr ()" "refs_clean (read_refs peel (snd (load_ref_snapshot s d)))"
    "spec_of (read_refs peel (snd (load_ref_snapshot s d))) = spec_of s"
proof -
  have sorted: "sorted_wrt (<) (map ref_name (snap_refs s))" using assms(1) by (simp add: refs_clean_def snap_ok_def)
  then have "distinct (map ref_name (snap_refs s))" by (simp add: strict_sorted_iff)
  note load = load_then_read(1) [OF this, of d] load_then_read(2) [OF this, of peel d]
  have "sort_key ref_name (snap_refs s) = snap_refs s"
    using sorted by (simp add: sorted_sort_id strict_sorted_iff sort_key_id_if_sorted)
  then have read: "read_refs peel (snd (load_ref_snapshot s d)) = s\<lparr>snap_refs := map (fill_peel peel) (snap_refs s)\<rparr>"
    and ok: "fst (load_ref_snapshot s d) = Inr ()"
    using load assms(1) by (simp_all add: refs_clean_def)
  show "fst (load_ref_snapshot s d) = Inr ()" by (rule ok)
  show "spec_of (read_refs peel (snd (load_ref_snapshot s d))) = spec_of s" unfolding read by (simp add: spec_of_def o_def)
  show "refs_clean (read_refs peel (snd (load_ref_snapshot s d)))"
    unfolding read using assms by (auto simp: refs_clean_def snap_ok_def o_def head_clean_def fill_peel_clean)
qed

lemma offline_replay:
  assumes "refs_clean (read_refs peel d)" "peel_hex peel" "list_all (\<lambda>t. list_all upd_clean (updates t)) txns"
  shows "case apply_ref_txns_offline peel txns d of (r, d') \<Rightarrow>
    r = Inr () \<and> refs_clean (read_refs peel d') \<and>
    spec_of (read_refs peel d') = spec_txns (spec_of (read_refs peel d)) txns"
proof -
  let ?s = "read_refs peel d"
  let ?st = "(snapshot_map ?s, snap_head_target ?s, snap_head_oid ?s)"
  have eq: "snapshot_map ?s = map packed_entry (snap_refs ?s)" using assms(1) by (simp add: snapshot_map_eq refs_clean_def)
  have snap: "map_snap ?st = ?s" by (simp add: map_snap_def eq packed_entry_def git_ref_eta o_def)
  have "head_clean (map_snap ?st)" unfolding snap using assms(1) by (simp add: refs_clean_def)
  then have "off_ok ?st"
    using assms(1) by (auto simp: off_ok_def refs_clean_def snap_ok_def eq packed_entry_def entry_clean_def git_ref_eta o_def)
  moreover have "list_all upd_clean (concat (map updates txns))" using assms(3) by (auto simp: list_all_iff)
  ultimately obtain st' where st': "offline_updates peel (concat (map updates txns)) ?st = Inr st'" "off_ok st'"
      "spec_of (map_snap st') = foldl spec_update (spec_of (map_snap ?st)) (concat (map updates txns))"
    using offline_all [OF _ _ assms(2)] by blast
  note spec = st'(3) [unfolded snap, folded spec_txns_def]
  obtain m ht ho where mh: "st' = (m, ht, ho)" by (cases st')
  have "refs_clean (map_snap st')" using st'(2)
    by (simp add: mh refs_clean_def off_ok_def snap_ok_map entries_map)
  note load = load_clean [OF this assms(2), of d]
  have "apply_ref_txns_offline peel txns d = load_ref_snapshot (map_snap st') d"
    using st'(1) by (simp add: apply_ref_txns_offline_def Let_def mh map_snap_def)
  then show ?thesis using load spec by (simp split: prod.split) (metis fst_conv snd_conv)
qed

text \<open>
  C19: replay from the log is exact. On a repository whose refs the files can hold, replaying any
  committed transactions that pass the validation, leave HEAD sound and use names without
  surrounding white space succeeds and leaves refs the files can hold, and what is then read from
  the files is the specified effect of all the updates in order, deletions and HEAD included.
\<close>

theorem offline_replay_exact:
  assumes "refs_clean (read_refs peel d)" "peel_hex peel" "list_all (\<lambda>t. list_all upd_clean (updates t)) txns"
  shows "case apply_ref_txns_offline peel txns d of (r, d') \<Rightarrow>
    r = Inr () \<and> refs_clean (read_refs peel d') \<and>
    spec_of (read_refs peel d') = spec_txns (spec_of (read_refs peel d)) txns"
  by (rule offline_replay [OF assms])

theorem offline_replay_exact_witness:
  "spec_get (spec_of (read_refs (\<lambda>_. None) (snd (apply_ref_txns_offline (\<lambda>_. None)
     [\<lparr>updates = [\<lparr>upd_name = ''refs/heads/dev'', old_oid = '''', new_oid = replicate 40 (CHR ''c''), new_symbolic_target = '''', new_peeled = ''''\<rparr>,
         \<lparr>upd_name = HEAD, old_oid = '''', new_oid = '''', new_symbolic_target = ''refs/heads/dev'', new_peeled = ''''\<rparr>],
       push_options = [], txn_atomic = True\<rparr>]
     \<lparr>packed_file = None, loose_files = [], head_file = Some (''ref: refs/heads/main'' @ nl)\<rparr>)))) HEAD = Some (replicate 40 (CHR ''c''))"
proof -
  let ?d = "\<lparr>packed_file = None, loose_files = [], head_file = Some (''ref: refs/heads/main'' @ nl)\<rparr>"
  let ?t = "\<lparr>updates = [\<lparr>upd_name = ''refs/heads/dev'', old_oid = '''', new_oid = replicate 40 (CHR ''c''), new_symbolic_target = '''', new_peeled = ''''\<rparr>,
         \<lparr>upd_name = HEAD, old_oid = '''', new_oid = '''', new_symbolic_target = ''refs/heads/dev'', new_peeled = ''''\<rparr>],
       push_options = [], txn_atomic = True\<rparr>"
  have "refs_clean (read_refs (\<lambda>_. None) ?d)" "list_all (\<lambda>t. list_all upd_clean (updates t)) [?t]"
    "spec_get (spec_txns (spec_of (read_refs (\<lambda>_. None) ?d)) [?t]) HEAD = Some (replicate 40 (CHR ''c''))" by code_simp+
  moreover have "peel_hex (\<lambda>_. None)" by (simp add: peel_hex_def)
  ultimately show ?thesis using offline_replay_exact [of "\<lambda>_. None" ?d "[?t]"] by (auto split: prod.splits)
qed

section \<open>Names the files cannot hold\<close>

lemma contains_snoc: "contains p (n @ [c]) \<Longrightarrow> c \<notin> set p \<Longrightarrow> p \<noteq> [] \<Longrightarrow> contains p n"
proof (induction n)
  case Nil
  then show ?case by (cases p) (auto simp: starts_with_iff)
next
  case (Cons a n)
  have "starts_with p (a # n)" if st: "starts_with p (a # n @ [c])"
  proof -
    obtain t where t: "a # n @ [c] = p @ t" using st by (auto simp: starts_with_iff)
    show ?thesis
    proof (cases t rule: rev_cases)
      case Nil
      then have "c \<in> set p" using t by (metis append_Nil2 append_Cons in_set_conv_decomp)
      then show ?thesis using Cons.prems(2) by blast
    next
      case (snoc t' x)
      then have "a # n = p @ t'" using t by (metis append_Cons append_assoc butlast_snoc)
      then show ?thesis by (auto simp: starts_with_iff)
    qed
  qed
  then show ?case using Cons by auto
qed

text \<open>A tab after a valid name leaves it valid.\<close>

lemma validate_tab:
  assumes "validate_ref_name n" "n \<noteq> HEAD"
  shows "validate_ref_name (n @ [CHR 0x09])"
proof -
  obtain t where t: "n = ''refs/'' @ t" using assms by (auto simp: validate_ref_name_def starts_with_iff)
  have "\<not> contains p (n @ [CHR 0x09])" if "\<not> contains p n" "CHR 0x09 \<notin> set p" "p \<noteq> []" for p using that contains_snoc by blast
  then have "\<not> contains ''..'' (n @ [CHR 0x09])" "\<not> contains [CHR ''@'', CHR ''{''] (n @ [CHR 0x09])" "\<not> contains ''//'' (n @ [CHR 0x09])"
    using assms by (auto simp: validate_ref_name_def)
  moreover have "\<not> bad_ref_byte (CHR 0x09)" by (simp add: bad_ref_byte_def)
  moreover have "\<not> ends_with ''/'' (n @ [CHR 0x09])" "\<not> ends_with ''.'' (n @ [CHR 0x09])" "\<not> ends_with ''.lock'' (n @ [CHR 0x09])"
    by (simp_all add: ends_with_def)
  ultimately show ?thesis using assms by (auto simp: validate_ref_name_def t)
qed

text \<open>The line of a ref whose name ends in a tab is read as one without.\<close>

lemma parse_tab_line:
  assumes "list_all is_hexdigit oid" "oid \<noteq> []" "trimmed n" "3 \<le> length n" "CHR 0x0A \<notin> set n"
  shows "foldl packed_parse_line (m, prev) (rust_lines (packed_line \<lparr>ref_name = n @ [CHR 0x09], ref_oid = oid, ref_peeled = []\<rparr> @ s)) =
    foldl packed_parse_line (bt_insert n (oid, []) m, Some n) (rust_lines s)"
proof -
  have oid: "CHR 0x20 \<notin> set oid" "CHR 0x0A \<notin> set oid" "hd oid \<noteq> CHR ''#''" "hd oid \<noteq> CHR ''^''"
    using assms(1,2) hex_not_special by (auto simp: list_all_iff dest: hd_in_set)
  let ?l = "oid @ '' '' @ n @ [CHR 0x09]"
  have "rust_lines (packed_line \<lparr>ref_name = n @ [CHR 0x09], ref_oid = oid, ref_peeled = []\<rparr> @ s) = ?l # rust_lines s"
    using rust_lines_cons [of ?l s] oid assms(5) by (simp add: packed_line_def)
  moreover have "packed_parse_line (m, prev) ?l = (bt_insert n (oid, []) m, Some n)"
    using splitn_two [OF oid(1), of "n @ [CHR 0x09]"] oid assms trim_one [OF assms(3,4), of "CHR 0x09"]
    by (cases oid) (auto simp: packed_parse_line_def Let_def hex_trimmed)
  ultimately show ?thesis by simp
qed

lemma trimmed_not_tab: "trimmed s \<Longrightarrow> s \<noteq> n @ [CHR 0x09]"
proof
  assume "trimmed s" "s = n @ [CHR 0x09]"
  then have "ends_with [CHR 0x09] s" by (simp add: ends_with_def)
  moreover have "[CHR 0x09] \<in> set white_space" by (simp add: white_space_def)
  ultimately show False using \<open>trimmed s\<close> by (auto simp: trimmed_def list_all_iff)
qed

text \<open>Reading back a sorted list of clean refs with one such ref in it.\<close>

lemma parse_with_tab:
  assumes sorted: "sorted_wrt (<) (map ref_name (rs1 @ tab # rs2))" and clean: "\<forall>r \<in> set (rs1 @ rs2). ref_clean r"
    and tab: "tab = \<lparr>ref_name = n @ [CHR 0x09], ref_oid = oid, ref_peeled = []\<rparr>" "list_all is_hexdigit oid" "oid \<noteq> []" "trimmed n" "3 \<le> length n" "CHR 0x0A \<notin> set n"
    and n: "n \<in> ref_name ` set rs1"
  shows "parse_packed (packed_content (rs1 @ tab # rs2)) = bt_insert n (oid, []) (map packed_entry rs1) @ map packed_entry rs2"
proof -
  let ?m = "bt_insert n (oid, []) (map packed_entry rs1)"
  have id: "sort_key ref_name (rs1 @ tab # rs2) = rs1 @ tab # rs2" using sorted by (simp add: strict_sorted_iff sort_key_id_if_sorted)
  have s1: "sorted_wrt (<) (map ref_name rs1)" "sorted_wrt (<) (map ref_name rs2)" "\<forall>r \<in> set rs1. \<forall>r' \<in> set rs2. ref_name r < ref_name r'"
    using sorted by (auto simp: sorted_wrt_append)
  have below: "\<forall>r \<in> set rs2. ref_clean r \<and> (\<forall>e \<in> set ?m. fst e < ref_name r)"
    using clean s1(3) n by (fastforce dest!: in_set_bt_insert simp: packed_entry_def)
  obtain prev where "foldl packed_parse_line ([], None) (rust_lines (concat (map packed_line (rs1 @ tab # rs2)))) =
      foldl packed_parse_line (map packed_entry rs1, prev) (rust_lines (packed_line tab @ concat (map packed_line rs2)))"
    using parse_refs_then [OF s1(1), of "[]" None "packed_line tab @ concat (map packed_line rs2)"] clean by auto
  also have "\<dots> = foldl packed_parse_line (?m, Some n) (rust_lines (concat (map packed_line rs2)))"
    unfolding tab(1) by (rule parse_tab_line [OF tab(2-6)])
  finally show ?thesis using parse_sorted_refs [OF s1(2) below, of "Some n"] unfolding parse_packed_lines id by simp
qed

lemma sorted_split:
  assumes "sorted_wrt (<) (map f xs)" "\<And>x. x \<in> set xs \<Longrightarrow> f x \<noteq> (k :: 'b :: linorder)"
  shows "xs = filter (\<lambda>x. f x < k) xs @ filter (\<lambda>x. k < f x) xs"
  using assms
proof (induction xs)
  case (Cons x xs)
  have "filter (\<lambda>y. f y < k) xs = [] \<and> filter (\<lambda>y. k < f y) xs = xs" if "k < f x"
    using that Cons.prems(1) by (fastforce simp: filter_empty_conv filter_id_conv)
  then show ?case using Cons by (cases "f x < k") (auto simp: not_less le_less)
qed simp

lemma less_snoc: "(n :: string) < n @ [c]"
  by (induction n) simp_all

lemma bt_insert_between:
  "\<forall>e \<in> set xs. fst e < k \<Longrightarrow> \<forall>e \<in> set ys. k < fst e \<Longrightarrow> bt_insert k v (xs @ ys) = xs @ (k, v) # ys"
proof (induction xs)
  case Nil
  then show ?case by (cases ys) (auto dest: order.strict_implies_not_eq order.asym)
qed (auto dest: order.strict_implies_not_eq order.asym)

lemma spec_entries: "map_of (map (\<lambda>r. (ref_name r, ref_oid r)) rs) q = map_option fst (map_of (map packed_entry rs) q)"
  by (induction rs) (auto simp: packed_entry_def)

lemma spec_of_fill:
  "spec_of \<lparr>snap_refs = map (\<lambda>(n, oid, p). fill_peel peel \<lparr>ref_name = n, ref_oid = oid, ref_peeled = p\<rparr>) m, snap_head_target = ht, snap_head_oid = ho\<rparr> =
     \<lparr>sp_refs = (\<lambda>q. map_option fst (map_of m q)), sp_target = ht, sp_detached = ho\<rparr>"
proof -
  have "map_of (map (\<lambda>r. (ref_name r, ref_oid r)) (map (\<lambda>(n, oid, p). fill_peel peel \<lparr>ref_name = n, ref_oid = oid, ref_peeled = p\<rparr>) m)) q = map_option fst (map_of m q)" for q
    by (induction m) auto
  then show ?thesis by (simp add: spec_of_def fun_eq_iff)
qed

text \<open>
  C33: validation admits names the files cannot hold. On any repository whose refs the files can hold, take any branch and a valid
  name of it followed by a tab, which no ref of the repository has: a push that creates a ref of that name passes the validation and is replayed
  successfully; the refs then read from the files have no such ref, and the branch, which the push did not name, points at
  the pushed object, with everything else as it was.
\<close>

theorem tab_overwrites_branch:
  assumes "refs_clean (read_refs peel d)" "r \<in> set (snap_refs (read_refs peel d))" "starts_with ''refs/heads/'' (ref_name r)" "validate_ref_name (ref_name r)"
    and "validate_oid new" "new \<noteq> []" "\<not> all_zero new" "validate_oid old"
    and "u = \<lparr>upd_name = ref_name r @ [CHR 0x09], old_oid = old, new_oid = new, new_symbolic_target = [], new_peeled = []\<rparr>"
    and "before = spec_of (read_refs peel d)"
  shows "validate_ref_update u = Inr () \<and> sp_refs before (upd_name u) = None \<and>
    (case apply_ref_txns_offline peel [\<lparr>updates = [u], push_options = options, txn_atomic = atomic\<rparr>] d of (res, d') \<Rightarrow>
       res = Inr () \<and> spec_of (read_refs peel d') = before\<lparr>sp_refs := (sp_refs before)(ref_name r \<mapsto> new)\<rparr>)"
proof -
  let ?s = "read_refs peel d" and ?n = "ref_name r"
  let ?k = "?n @ [CHR 0x09]" and ?tab = "\<lparr>ref_name = ref_name r @ [CHR 0x09], ref_oid = new, ref_peeled = []\<rparr>"
  have s: "sorted_wrt (<) (map ref_name (snap_refs ?s))" "\<forall>r \<in> set (snap_refs ?s). ref_clean r" "head_clean ?s" "snap_ok ?s"
    using assms(1) by (simp_all add: refs_clean_def snap_ok_def)
  have n: "?n \<noteq> HEAD" "trimmed ?n" "CHR 0x0A \<notin> set ?n" "3 \<le> length ?n"
    using assms(3) s(2) assms(2) by (auto simp: ref_clean_def starts_with_iff)
  have hex: "list_all is_hexdigit new" using assms(5-7) by (auto simp: validate_oid_def)
  have u: "upd_name u = ?k" "new_oid u = new" "new_symbolic_target u = []" "\<not> is_delete u" "?k \<noteq> HEAD" "peeled_of peel u = []"
    using assms(3,6,7,9) by (auto simp: is_delete_def peeled_of_def starts_with_iff)
  have valid: "validate_ref_update u = Inr ()" using u assms(5,8,9) validate_tab [OF assms(4) n(1)] by (simp add: validate_ref_update_def)
  have fresh: "ref_name q \<noteq> ?k" if "q \<in> set (snap_refs ?s)" for q using that s(2) trimmed_not_tab by (auto simp: ref_clean_def)
  define rs1 where "rs1 = filter (\<lambda>q. ref_name q < ?k) (snap_refs ?s)"
  define rs2 where "rs2 = filter (\<lambda>q. ?k < ref_name q) (snap_refs ?s)"
  have split: "snap_refs ?s = rs1 @ rs2" unfolding rs1_def rs2_def by (rule sorted_split [OF s(1) fresh])
  have below: "\<forall>q \<in> set rs1. ref_name q < ?k" "\<forall>q \<in> set rs2. ?k < ref_name q" by (auto simp: rs1_def rs2_def)
  have sorted: "sorted_wrt (<) (map ref_name (rs1 @ ?tab # rs2))" using s(1) below unfolding split by (auto simp: sorted_wrt_append)
  have "?n < ?k" by (simp add: less_snoc)
  then have in1: "?n \<in> ref_name ` set rs1" using assms(2) by (auto simp: rs1_def)
  have map: "snapshot_map ?s = map packed_entry (rs1 @ rs2)" using snapshot_map_eq [OF s(4)] split by simp
  have ins: "bt_insert ?k (new, []) (map packed_entry rs1 @ map packed_entry rs2) = map packed_entry (rs1 @ ?tab # rs2)"
    using bt_insert_between [of "map packed_entry rs1" ?k "map packed_entry rs2" "(new, [])"] below by (auto simp: packed_entry_def)
  let ?s' = "\<lparr>snap_refs = rs1 @ ?tab # rs2, snap_head_target = snap_head_target ?s, snap_head_oid = snap_head_oid ?s\<rparr>"
  have run: "apply_ref_txns_offline peel [\<lparr>updates = [u], push_options = options, txn_atomic = atomic\<rparr>] d = load_ref_snapshot ?s' d"
    using valid u by (simp add: apply_ref_txns_offline_def Let_def map ins packed_entry_def o_def git_ref_eta)
  have "head_clean ?s'" using s(3) by (simp add: head_clean_def)
  note load = load_head_clean [OF this, of d]
  let ?d = "snd (load_ref_snapshot ?s' d)"
  have clean: "\<forall>r \<in> set (rs1 @ rs2). ref_clean r" using s(2) split by simp
  have parse: "parse_packed (packed_content (rs1 @ ?tab # rs2)) = bt_insert ?n (new, []) (map packed_entry rs1) @ map packed_entry rs2"
    by (rule parse_with_tab [OF sorted clean refl hex assms(6) n(2) n(4) n(3) in1])
  have sp: "spec_of (read_refs peel ?d) = \<lparr>sp_refs = (\<lambda>q. map_option fst (map_of (bt_insert ?n (new, []) (map packed_entry rs1) @ map packed_entry rs2) q)),
      sp_target = snap_head_target ?s, sp_detached = snap_head_oid ?s\<rparr>"
  proof -
    have rd: "read_refs peel ?d = \<lparr>snap_refs = map (\<lambda>(n, oid, p). fill_peel peel \<lparr>ref_name = n, ref_oid = oid, ref_peeled = p\<rparr>)
        (bt_insert ?n (new, []) (map packed_entry rs1) @ map packed_entry rs2), snap_head_target = snap_head_target ?s, snap_head_oid = snap_head_oid ?s\<rparr>"
      unfolding read_refs_def [of peel ?d] load(2-4) by (simp add: parse Let_def del: map_append)
    show ?thesis unfolding rd by (rule spec_of_fill)
  qed
  have bf: "before = \<lparr>sp_refs = (\<lambda>q. map_option fst (map_of (map packed_entry rs1 @ map packed_entry rs2) q)), sp_target = snap_head_target ?s, sp_detached = snap_head_oid ?s\<rparr>"
    unfolding assms(10) by (simp add: spec_of_def split spec_entries fun_eq_iff map_add_def split: option.splits)
  have "sorted_wrt (<) (map fst (map packed_entry rs1))" using s(1) split by (simp add: sorted_wrt_append packed_entry_def o_def)
  then have ins1: "map_of (bt_insert ?n (new, []) (map packed_entry rs1)) = (map_of (map packed_entry rs1))(?n \<mapsto> (new, []))" by (auto simp: map_of_bt_insert)
  have not2: "map_of (map packed_entry rs2) ?n = None"
    using below(2) \<open>?n < ?k\<close> by (auto simp: map_of_eq_None_iff packed_entry_def dest: order.strict_trans)
  have "spec_of (read_refs peel ?d) = before\<lparr>sp_refs := (sp_refs before)(?n \<mapsto> new)\<rparr>"
    unfolding sp bf using not2 by (auto simp: ins1 map_add_def fun_eq_iff split: option.splits)
  moreover have "sp_refs before ?k = None"
    unfolding assms(10) using fresh by (fastforce simp: spec_of_def map_of_eq_None_iff)
  ultimately show ?thesis using valid u(1) run load(1) by (auto split: prod.splits)
qed

theorem tab_overwrites_branch_witness:
  "let d = \<lparr>packed_file = None, loose_files = [(''refs/heads/main'', replicate 40 (CHR ''a''))], head_file = Some (''ref: refs/heads/main'' @ nl)\<rparr>;
       u = \<lparr>upd_name = ''refs/heads/main'' @ [CHR 0x09], old_oid = replicate 40 (CHR ''0''), new_oid = replicate 40 (CHR ''b''), new_symbolic_target = [], new_peeled = []\<rparr>;
       d' = snd (apply_ref_txns_offline (\<lambda>_. None) [\<lparr>updates = [u], push_options = [], txn_atomic = False\<rparr>] d)
   in sp_refs (spec_of (read_refs (\<lambda>_. None) d)) ''refs/heads/main'' = Some (replicate 40 (CHR ''a'')) \<and>
      sp_refs (spec_of (read_refs (\<lambda>_. None) d')) ''refs/heads/main'' = Some (replicate 40 (CHR ''b''))"
proof -
  let ?p = "\<lambda>_ :: string. None :: string option"
  let ?d = "\<lparr>packed_file = None, loose_files = [(''refs/heads/main'', replicate 40 (CHR ''a''))], head_file = Some (''ref: refs/heads/main'' @ nl)\<rparr>"
  let ?r = "\<lparr>ref_name = ''refs/heads/main'', ref_oid = replicate 40 (CHR ''a''), ref_peeled = []\<rparr>"
  have h: "refs_clean (read_refs ?p ?d)" "?r \<in> set (snap_refs (read_refs ?p ?d))" "starts_with ''refs/heads/'' (ref_name ?r)" "validate_ref_name (ref_name ?r)"
    "validate_oid (replicate 40 (CHR ''b''))" "replicate 40 (CHR ''b'') \<noteq> []" "\<not> all_zero (replicate 40 (CHR ''b''))" "validate_oid (replicate 40 (CHR ''0''))"
    "sp_refs (spec_of (read_refs ?p ?d)) ''refs/heads/main'' = Some (replicate 40 (CHR ''a''))" by code_simp+
  show ?thesis using tab_overwrites_branch [OF h(1-8) refl refl, of "[]" False] h(9) by (auto simp: Let_def split: prod.splits)
qed

end
