(* ===== verification/Wal_Proto.thy ===== *)
theory Wal_Proto
  imports Git_Refs "HOL-Library.Word"
begin

text \<open>
  The on-store formats: the messages of \<^verbatim>\<open>crates/gitcask-proto/proto/gitcask/v1/wal.proto\<close> as records,
  and from \<^verbatim>\<open>crates/gitcask-proto/src/lib.rs\<close> the object keys and the framing of log objects. The
  protobuf library's varint and message codecs are parameters of the framing. Timestamps are
  natural numbers.
\<close>

section \<open>Messages\<close>

record log_segment_ref =
  seg_key :: string
  first_seq :: nat
  last_seq :: nat
  seg_size :: nat
  sealed :: bool

datatype pack_kind = Objects | History

record pack_ref =
  checksum :: string
  pack_size :: nat
  idx_size :: nat
  has_rev :: bool
  has_bitmap :: bool
  object_count :: nat
  pack_seq :: nat
  tier :: nat
  has_commit_graph :: bool
  pack_kind :: pack_kind
  derived_from :: string

datatype entry_kind = Unspecified | Push | Compact | RefUpdate | Checkpoint

record checkpoint_ref =
  cp_seq :: nat
  cp_key :: string
  cp_created_at :: "nat option"

record log_entry =
  seq :: nat
  kind :: entry_kind
  pack :: "pack_ref option"
  txn :: "ref_transaction option"
  supersedes :: "string list"
  entry_checkpoint :: "checkpoint_ref option"
  created_at :: "nat option"
  entry_writer :: string
  meta :: "(string \<times> string) list"

record initialization =
  init_operation_key :: string
  init_request_hash :: string
  init_ref_name :: string
  init_commit_oid :: string
  init_tree_oid :: string
  init_seq :: nat

record import_receipt =
  imp_operation_key :: string
  imp_request_hash :: string
  imp_snapshot_hash :: string
  imp_seq :: nat
  imp_refs_count :: nat
  imp_head_target :: string
  imp_head_oid :: string

record manifest =
  format_version :: nat
  repo :: string
  object_format :: string
  head_seq :: nat
  min_seq :: nat
  checkpoint :: "checkpoint_ref option"
  log_segments :: "log_segment_ref list"
  packs :: "pack_ref list"
  updated_at :: "nat option"
  manifest_writer :: string
  revision :: nat
  m_initialization :: "initialization option"
  m_import_receipt :: "import_receipt option"

section \<open>Object keys (keys)\<close>

abbreviation MANIFEST :: string where "MANIFEST \<equiv> ''manifest.pb''"
abbreviation LOG_DIR :: string where "LOG_DIR \<equiv> ''log/''"
abbreviation WAL_DIR :: string where "WAL_DIR \<equiv> ''wal/''"
abbreviation CHECKPOINTS_DIR :: string where "CHECKPOINTS_DIR \<equiv> ''checkpoints/''"
abbreviation LEASES_DIR :: string where "LEASES_DIR \<equiv> ''leases/''"
abbreviation LFS_DIR :: string where "LFS_DIR \<equiv> ''lfs/objects/''"

definition repo_prefix :: "string \<Rightarrow> string \<Rightarrow> string" where
  "repo_prefix owner name = ''repos/'' @ owner @ ''/'' @ name @ ''/''"

definition pending_key :: "string \<Rightarrow> string \<Rightarrow> string" where
  "pending_key owner name = ''pending/'' @ owner @ ''/'' @ name"

text \<open>\<open>{:016x}\<close>: a 64-bit number in lower-case hexadecimal, padded to sixteen digits.\<close>

definition hex_char :: "nat \<Rightarrow> char" where
  "hex_char d = ''0123456789abcdef'' ! d"

fun hex_digits_of :: "nat \<Rightarrow> nat \<Rightarrow> string" where
  "hex_digits_of 0 n = []"
| "hex_digits_of (Suc k) n = hex_digits_of k (n div 16) @ [hex_char (n mod 16)]"

definition hex16 :: "64 word \<Rightarrow> string" where
  "hex16 w = hex_digits_of 16 (unat w)"

definition log_segment_key_w :: "64 word \<Rightarrow> string" where
  "log_segment_key_w s = LOG_DIR @ hex16 s @ ''.pb''"

text \<open>Sequence numbers are natural numbers in the protocol; a key is built from one as a 64-bit word.\<close>

definition log_segment_key :: "nat \<Rightarrow> string" where
  "log_segment_key s = log_segment_key_w (of_nat s)"

definition pack_key :: "string \<Rightarrow> string" where
  "pack_key c = WAL_DIR @ c @ ''.pack''"

definition idx_key :: "string \<Rightarrow> string" where
  "idx_key c = WAL_DIR @ c @ ''.idx''"

definition checkpoint_key :: "nat \<Rightarrow> string" where
  "checkpoint_key s = CHECKPOINTS_DIR @ hex16 (of_nat s) @ ''/checkpoint.pb''"

definition checkpoint_refs_key :: "nat \<Rightarrow> string" where
  "checkpoint_refs_key s = CHECKPOINTS_DIR @ hex16 (of_nat s) @ ''/refs.pb''"

definition lease_key :: "string \<Rightarrow> string" where
  "lease_key name = LEASES_DIR @ name @ ''.pb''"

definition lfs_oid_ok :: "string \<Rightarrow> bool" where
  "lfs_oid_ok oid \<longleftrightarrow> length oid = 64 \<and> list_all is_hexdigit oid"

definition lfs_key :: "string \<Rightarrow> string" where
  "lfs_key oid =
     (let (aa, bb) = (if 4 \<le> length oid then (take 2 oid, take 2 (drop 2 oid)) else ([], []))
      in LFS_DIR @ aa @ ''/'' @ bb @ ''/'' @ oid)"

section \<open>Framing of log objects (frame)\<close>

text \<open>The protobuf library: varints and messages. \<open>None\<close> is a decoding error.\<close>

record 'e codec =
  encode_varint :: "nat \<Rightarrow> string"
  decode_varint :: "string \<Rightarrow> (nat \<times> string) option"
  encode_msg :: "'e \<Rightarrow> string"
  decode_msg :: "string \<Rightarrow> 'e option"

definition encode_entry :: "'e codec \<Rightarrow> 'e \<Rightarrow> string" where
  "encode_entry c e = encode_varint c (length (encode_msg c e)) @ encode_msg c e"

definition encode_entries :: "'e codec \<Rightarrow> 'e list \<Rightarrow> string" where
  "encode_entries c es = concat (map (encode_entry c) es)"

text \<open>
  The loop of \<open>decode_entries\<close> over the bytes not yet consumed; the outer option is \<open>None\<close> for a loop
  that does not end.
\<close>

partial_function (option) decode_loop ::
  "'e codec \<Rightarrow> string \<Rightarrow> 'e list \<Rightarrow> nat \<Rightarrow> (unit + 'e list \<times> nat) option" where
  "decode_loop c buf out pos =
     (case decode_varint c buf of
        None \<Rightarrow> Some (Inr (out, pos))
      | Some (len, probe) \<Rightarrow>
          if length probe < len then Some (Inr (out, pos))
          else case decode_msg c (take len probe) of
                 None \<Rightarrow> Some (Inl ())
               | Some e \<Rightarrow>
                   decode_loop c (drop len probe) (out @ [e]) (pos + (length buf - length probe) + len))"

definition decode_entries :: "'e codec \<Rightarrow> string \<Rightarrow> (unit + 'e list \<times> nat) option" where
  "decode_entries c buf = decode_loop c buf [] 0"

section \<open>Keys sort like sequence numbers\<close>

lemma hex_char_less: "a < 16 \<Longrightarrow> b < 16 \<Longrightarrow> hex_char a < hex_char b \<longleftrightarrow> a < b"
proof -
  have "\<forall>a \<in> set [0..<16]. \<forall>b \<in> set [0..<16]. hex_char a < hex_char b \<longleftrightarrow> a < b" by code_simp
  then show "a < 16 \<Longrightarrow> b < 16 \<Longrightarrow> hex_char a < hex_char b \<longleftrightarrow> a < b" by simp
qed

lemma snoc_less: "length xs = length ys \<Longrightarrow> (xs @ [c] :: string) < ys @ [d] \<longleftrightarrow> xs < ys \<or> xs = ys \<and> c < d"
  by (induction xs ys rule: list_induct2) auto

lemma length_hex_digits [simp]: "length (hex_digits_of k n) = k"
  by (induction k arbitrary: n) auto

lemma two_digits: "b < 16 \<Longrightarrow> d < 16 \<Longrightarrow> (a < c \<or> a = c \<and> b < d) \<longleftrightarrow> 16 * a + b < 16 * c + (d :: nat)"
  by (cases a c rule: linorder_cases) auto

lemma hex_digits_less: "n < 16 ^ k \<Longrightarrow> m < 16 ^ k \<Longrightarrow> hex_digits_of k n < hex_digits_of k m \<longleftrightarrow> n < m"
proof (induction k arbitrary: n m)
  case (Suc k)
  have div: "n div 16 < 16 ^ k" "m div 16 < 16 ^ k" using Suc.prems by (simp_all add: less_mult_imp_div_less)
  note IH = Suc.IH [OF div] Suc.IH [OF div(2,1)]
  have eq: "hex_digits_of k (n div 16) = hex_digits_of k (m div 16) \<longleftrightarrow> n div 16 = m div 16"
    using IH by (metis less_irrefl nat_neq_iff)
  have "hex_digits_of (Suc k) n < hex_digits_of (Suc k) m \<longleftrightarrow> n div 16 < m div 16 \<or> n div 16 = m div 16 \<and> n mod 16 < m mod 16"
    using IH(1) eq by (simp add: snoc_less hex_char_less)
  also have "\<dots> \<longleftrightarrow> n < m"
    using two_digits [of "n mod 16" "m mod 16" "n div 16" "m div 16"] by simp
  finally show ?case .
qed simp

text \<open>
  Log objects list in commit order. The key of a log segment is a strictly increasing function
  of its 64-bit sequence number, in the byte order in which stores list keys; in particular
  different sequence numbers have different keys.
\<close>

theorem log_keys_in_order: "log_segment_key_w a < log_segment_key_w b \<longleftrightarrow> a < b"
proof -
  have "unat w < 16 ^ 16" for w :: "64 word" using unsigned_less [of w, where ?'a = nat] by simp
  then have less: "hex16 a < hex16 b \<longleftrightarrow> unat a < unat b" by (simp add: hex16_def hex_digits_less)
  have app: "length xs = length ys \<Longrightarrow> (xs @ zs :: string) < ys @ zs \<longleftrightarrow> xs < ys" for xs ys zs
    by (induction xs ys rule: list_induct2) auto
  have "length (hex16 a) = length (hex16 b)" by (simp add: hex16_def)
  then show ?thesis using less by (simp add: log_segment_key_w_def app word_less_nat_alt)
qed

lemma log_segment_key_inject:
  assumes "a < 2 ^ 64" "b < 2 ^ 64" "log_segment_key a = log_segment_key b"
  shows "a = b"
proof -
  have lt: "a < 16 ^ 16" "b < 16 ^ 16" using assms by simp_all
  have "hex_digits_of 16 a = hex_digits_of 16 b"
    using assms by (simp add: log_segment_key_def log_segment_key_w_def hex16_def unat_of_nat take_bit_nat_eq_self)
  then show ?thesis using hex_digits_less [OF lt] hex_digits_less [OF lt(2,1)] by (metis less_irrefl nat_neq_iff)
qed

lemma log_segment_key_form: "\<exists>t. log_segment_key s = ''log/'' @ t"
  by (simp add: log_segment_key_def log_segment_key_w_def)

section \<open>Frames\<close>

text \<open>
  What the framing relies on: encodings decode to what was encoded and leave the rest, a varint is
  not empty, and a truncated varint does not decode.
\<close>

definition codec_ok :: "'e codec \<Rightarrow> bool" where
  "codec_ok c \<longleftrightarrow>
     (\<forall>n rest. n < 2 ^ 64 \<longrightarrow> decode_varint c (encode_varint c n @ rest) = Some (n, rest)) \<and>
     (\<forall>n p. n < 2 ^ 64 \<longrightarrow> strict_prefix p (encode_varint c n) \<longrightarrow> decode_varint c p = None) \<and>
     (\<forall>n. n < 2 ^ 64 \<longrightarrow> encode_varint c n \<noteq> []) \<and>
     (\<forall>e. decode_msg c (encode_msg c e) = Some e)"

lemma decode_loop_frame:
  assumes "codec_ok c" "length (encode_msg c e) < 2 ^ 64"
  shows "decode_loop c (encode_entry c e @ buf) out pos = decode_loop c buf (out @ [e]) (pos + length (encode_entry c e))"
proof -
  have "decode_varint c (encode_entry c e @ buf) = Some (length (encode_msg c e), encode_msg c e @ buf)"
    using assms by (simp add: codec_ok_def encode_entry_def)
  moreover have "decode_msg c (encode_msg c e) = Some e" using assms(1) by (simp add: codec_ok_def)
  ultimately show ?thesis by (subst decode_loop.simps) (simp add: encode_entry_def add.assoc)
qed

lemma decode_loop_frames:
  "codec_ok c \<Longrightarrow> \<forall>e \<in> set es. length (encode_msg c e) < 2 ^ 64 \<Longrightarrow>
   decode_loop c (encode_entries c es @ buf) out pos = decode_loop c buf (out @ es) (pos + length (encode_entries c es))"
  by (induction es arbitrary: out pos) (simp_all add: encode_entries_def decode_loop_frame add.assoc)

lemma decode_loop_torn:
  assumes "codec_ok c" "length (encode_msg c e) < 2 ^ 64" "strict_prefix p (encode_entry c e)"
  shows "decode_loop c p out pos = Some (Inr (out, pos))"
proof (cases "prefix (encode_varint c (length (encode_msg c e))) p")
  case True
  then obtain m where p: "p = encode_varint c (length (encode_msg c e)) @ m" by (auto simp: prefix_def)
  then have "length m < length (encode_msg c e)"
    using assms(3) by (metis append_eq_append_conv encode_entry_def length_append nat_add_left_cancel_less prefix_length_less)
  moreover have "decode_varint c p = Some (length (encode_msg c e), m)" using assms(1,2) p by (simp add: codec_ok_def)
  ultimately show ?thesis by (subst decode_loop.simps) simp
next
  case False
  then have "strict_prefix p (encode_varint c (length (encode_msg c e)))"
    using assms(3) by (metis encode_entry_def prefix_order.dual_order.strict_implies_order prefix_append prefix_order.le_less same_prefix_prefix prefix_same_cases prefixI strict_prefix_def)
  then have "decode_varint c p = None" using assms(1,2) by (simp add: codec_ok_def)
  then show ?thesis by (subst decode_loop.simps) simp
qed

text \<open>
  A log object reads back. With a codec whose encodings decode, the frames of any entries decode
  to exactly those entries and all their bytes are consumed; when a further frame is torn at any
  point, as by an append that was cut off, the complete entries are still returned and the torn
  bytes are left unconsumed. The loop ends in both cases.
\<close>

theorem frames_roundtrip:
  assumes "codec_ok c" "\<forall>x \<in> insert e (set es). length (encode_msg c x) < 2 ^ 64"
    and "tail = [] \<or> strict_prefix tail (encode_entry c e)"
  shows "decode_entries c (encode_entries c es @ tail) = Some (Inr (es, length (encode_entries c es)))"
proof -
  have "strict_prefix tail (encode_entry c e)"
    using assms by (auto simp: encode_entry_def codec_ok_def strict_prefix_def)
  then show ?thesis
    using assms decode_loop_torn [OF assms(1), of e tail es "length (encode_entries c es)"] decode_loop_frames [OF assms(1), of es tail "[]" 0]
    by (simp add: decode_entries_def)
qed

text \<open>A concrete codec: little-endian base-128 varints, and text as messages.\<close>

fun leb :: "nat \<Rightarrow> nat \<Rightarrow> string" where
  "leb 0 n = [char_of n]"
| "leb (Suc k) n = (if n < 128 then [char_of n] else char_of (128 + n mod 128) # leb k (n div 128))"

fun unleb :: "string \<Rightarrow> (nat \<times> string) option" where
  "unleb [] = None"
| "unleb (c # cs) =
     (let b = of_char c :: nat
      in if b < 128 then Some (b, cs)
         else case unleb cs of None \<Rightarrow> None | Some (n, rest) \<Rightarrow> Some (b - 128 + 128 * n, rest))"

definition text_codec :: "string codec" where
  "text_codec = \<lparr>encode_varint = leb 9, decode_varint = unleb, encode_msg = (\<lambda>e. e), decode_msg = Some\<rparr>"

lemma unleb_leb: "n < 128 ^ Suc k \<Longrightarrow> unleb (leb k n @ rest) = Some (n, rest)"
proof (induction k arbitrary: n)
  case (Suc k)
  then have "n div 128 < 128 ^ Suc k" by (simp add: less_mult_imp_div_less)
  then have "unleb (leb k (n div 128) @ rest) = Some (n div 128, rest)" by (rule Suc.IH)
  then show ?case by (simp add: Let_def)
qed (simp add: Let_def)

lemma unleb_torn: "strict_prefix p (leb k n) \<Longrightarrow> unleb p = None"
proof (induction k arbitrary: n p)
  case 0
  then show ?case by (cases p) (auto simp: strict_prefix_def)
next
  case (Suc k)
  then show ?case by (cases p) (auto simp: Let_def split: if_splits option.splits)
qed

lemma text_codec_ok: "codec_ok text_codec"
proof -
  have "leb k n \<noteq> []" for k n by (cases k) simp_all
  moreover have "(2 :: nat) ^ 64 < 128 ^ Suc 9" by simp
  ultimately show ?thesis
    unfolding codec_ok_def text_codec_def by (auto simp: unleb_torn intro!: unleb_leb elim: less_trans)
qed

theorem frames_roundtrip_witness:
  "decode_entries text_codec (encode_entries text_codec [''push'', ''compact''] @ take 3 (encode_entry text_codec ''torn'')) =
   Some (Inr ([''push'', ''compact''], 13))"
proof -
  have "take 3 (encode_entry text_codec ''torn'') = [] \<or> strict_prefix (take 3 (encode_entry text_codec ''torn'')) (encode_entry text_codec ''torn'')"
    by code_simp
  moreover have "length (encode_entries text_codec [''push'', ''compact'']) = 13" by code_simp
  ultimately show ?thesis
    using frames_roundtrip [OF text_codec_ok, of "''torn''" "[''push'', ''compact'']" "take 3 (encode_entry text_codec ''torn'')"]
    by (simp add: text_codec_def)
qed

end
