(* ===== verification/Wal_Publish.thy ===== *)
theory Wal_Publish
  imports Wal_Proto
begin

text \<open>
  The publisher's pure part (\<^verbatim>\<open>crates/gitcask-wal/src/publish.rs\<close>): verification of a batch of requests
  against the refs, construction of the log entries and of the new manifest, and the responses.
  Reading the clock is the argument \<open>now\<close>.
\<close>

section \<open>Requests and results\<close>

record ingested_pack =
  ing_checksum :: string
  ing_pack_size :: nat
  ing_idx_size :: nat
  ing_object_count :: nat

datatype pristine_receipt = Initialization initialization | Import import_receipt

record publish_request =
  req_pack :: "ingested_pack option"
  req_txn :: ref_transaction
  req_meta :: "(string \<times> string) list"
  synced :: bool
  req_created_at :: "nat option"
  req_receipt :: "pristine_receipt option"

datatype ref_error = NonFastForward | Conflict string string | Rejected string | Missing

type_synonym per_ref = "(string \<times> (ref_error, unit) result) list"

record publish_result =
  res_seq :: nat
  res_per_ref :: per_ref

record verified =
  v_per_ref :: per_ref
  valid :: bool

section \<open>Verification of one transaction\<close>

definition is_null_oid :: "string \<Rightarrow> bool" where
  "is_null_oid hex \<longleftrightarrow> hex = [] \<or> list_all (\<lambda>c. c = CHR ''0'') hex"

text \<open>\<open>None\<close> when a lookup does not return.\<close>

definition verify_update :: "ref_view \<Rightarrow> ref_update \<Rightarrow> (string \<times> (ref_error, unit) result) option" where
  "verify_update refs u =
     (if new_symbolic_target u \<noteq> [] then Some (upd_name u, Inr ())
      else case rv_get refs (upd_name u) of
             None \<Rightarrow> None
           | Some found \<Rightarrow>
               (let actual = or_default [] found; expected = old_oid u
                in Some (upd_name u,
                     if is_null_oid expected then
                       (if actual = [] then Inr () else Inl (Conflict ''(new)'' actual))
                     else if actual = expected then Inr () else Inl (Conflict expected actual))))"

definition verify_txn :: "ref_transaction \<Rightarrow> ref_view \<Rightarrow> per_ref option" where
  "verify_txn t refs = those (map (verify_update refs) (updates t))"

definition apply_update_to_map :: "ref_view \<Rightarrow> ref_update \<Rightarrow> ref_view" where
  "apply_update_to_map refs u =
     (if new_symbolic_target u \<noteq> [] then
        (if upd_name u = HEAD then set_head_target (new_symbolic_target u) refs
         else rv_set (upd_name u) (new_symbolic_target u) refs)
      else if is_null_oid (new_oid u) then rv_remove (upd_name u) refs
      else rv_set (upd_name u) (new_oid u) refs)"

definition apply_txn_to_map :: "ref_transaction \<Rightarrow> ref_view \<Rightarrow> ref_view" where
  "apply_txn_to_map t refs = foldl apply_update_to_map refs (updates t)"

section \<open>Verification of a batch\<close>

definition all_ok :: "per_ref \<Rightarrow> bool" where
  "all_ok rs = list_all (\<lambda>(n, r). r = Inr ()) rs"

definition reject_all :: "string \<Rightarrow> per_ref \<Rightarrow> per_ref" where
  "reject_all msg rs = map (\<lambda>(n, r). (n, Inl (Rejected msg))) rs"

definition is_pristine :: "manifest \<Rightarrow> bool" where
  "is_pristine m \<longleftrightarrow> head_seq m = 0 \<and> packs m = [] \<and> log_segments m = [] \<and> checkpoint m = None \<and>
     m_initialization m = None \<and> m_import_receipt m = None"

text \<open>The working state of the loop: the refs with what the batch applied so far, the floor of entry times, pristineness.\<close>

record working =
  w_refs :: ref_view
  w_floor :: "nat option"
  w_pristine :: bool

definition before_floor :: "nat option \<Rightarrow> nat \<Rightarrow> bool" where
  "before_floor fl t = (case fl of None \<Rightarrow> False | Some f \<Rightarrow> t < f)"

text \<open>The verdict on one request. The message for a time that goes back also prints the two times in the program.\<close>

definition verify_request :: "working \<Rightarrow> publish_request \<Rightarrow> (verified \<times> working) option" where
  "verify_request w req =
     (case verify_txn (req_txn req) (w_refs w) of
        None \<Rightarrow> None
      | Some per \<Rightarrow>
          (let per1 = (if req_receipt req \<noteq> None \<and> \<not> w_pristine w then reject_all ''repository is not pristine'' per else per);
               per2 = (case req_created_at req of
                         Some t \<Rightarrow> if before_floor (w_floor w) t then reject_all ''created_at is before the WAL head's (entries must be monotonic)'' per1 else per1
                       | None \<Rightarrow> per1);
               fl = (case req_created_at req of Some t \<Rightarrow> if all_ok per2 then Some t else w_floor w | None \<Rightarrow> w_floor w);
               ok = all_ok per2
           in Some (\<lparr>v_per_ref = per2, valid = ok\<rparr>,
                \<lparr>w_refs = if ok then apply_txn_to_map (req_txn req) (w_refs w) else w_refs w,
                 w_floor = fl, w_pristine = (if ok then False else w_pristine w)\<rparr>)))"

fun verify_loop :: "working \<Rightarrow> publish_request list \<Rightarrow> (verified list \<times> working) option" where
  "verify_loop w [] = Some ([], w)"
| "verify_loop w (req # batch) =
     (case verify_request w req of
        None \<Rightarrow> None
      | Some (v, w') \<Rightarrow>
          (case verify_loop w' batch of None \<Rightarrow> None | Some (vs, w'') \<Rightarrow> Some (v # vs, w'')))"

definition verify_batch ::
  "ref_view \<Rightarrow> nat option \<Rightarrow> publish_request list \<Rightarrow> manifest \<Rightarrow> verified list option" where
  "verify_batch refs last_entry_time batch m =
     map_option fst (verify_loop \<lparr>w_refs = refs, w_floor = last_entry_time, w_pristine = is_pristine m\<rparr> batch)"

definition valid_requests :: "publish_request list \<Rightarrow> verified list \<Rightarrow> publish_request list" where
  "valid_requests batch vs = map fst (filter (\<lambda>(r, v). valid v) (zip batch vs))"

section \<open>Entries, manifest, responses\<close>

definition pack_ref_from_ingested :: "ingested_pack \<Rightarrow> nat \<Rightarrow> pack_ref" where
  "pack_ref_from_ingested p s =
     \<lparr>checksum = ing_checksum p, pack_size = ing_pack_size p, idx_size = ing_idx_size p, has_rev = False,
      has_bitmap = False, object_count = ing_object_count p, pack_seq = s, tier = 0, has_commit_graph = False,
      pack_kind = Objects, derived_from = []\<rparr>"

text \<open>The entry of a request; an entry without an explicit time gets the time \<open>now\<close>.\<close>

definition push_entry :: "nat \<Rightarrow> string \<Rightarrow> nat \<Rightarrow> publish_request \<Rightarrow> log_entry" where
  "push_entry now writer s req =
     \<lparr>seq = s, kind = Push, pack = map_option (\<lambda>p. pack_ref_from_ingested p s) (req_pack req), txn = Some (req_txn req),
      supersedes = [], entry_checkpoint = None, created_at = Some (or_default now (req_created_at req)), entry_writer = writer, meta = req_meta req\<rparr>"

definition build_batch :: "nat \<Rightarrow> string \<Rightarrow> publish_request list \<Rightarrow> nat \<Rightarrow> log_entry list \<times> pack_ref list" where
  "build_batch now writer reqs first =
     (let entries = map (\<lambda>(i, r). push_entry now writer (first + i) r) (enumerate 0 reqs)
      in (entries, List.map_filter pack entries))"

record log_slot =
  slot_key :: string
  slot_version :: string
  slot_first :: nat
  burned :: "(string \<times> string) list"

definition updated_manifest :: "nat \<Rightarrow> manifest \<Rightarrow> log_slot \<Rightarrow> nat \<Rightarrow> nat \<Rightarrow> string \<Rightarrow> pack_ref list \<Rightarrow> manifest" where
  "updated_manifest now m slot lst frame_len writer new_packs =
     m\<lparr>head_seq := lst,
       packs := sort_key pack_seq (packs m @ new_packs),
       log_segments := sort_key first_seq (log_segments m @
         [\<lparr>seg_key = slot_key slot, first_seq = slot_first slot, last_seq = lst, seg_size = frame_len, sealed = True\<rparr>]),
       updated_at := Some now, manifest_writer := writer, revision := revision m + 1\<rparr>"

text \<open>The receipts of the valid requests, each with the sequence number of its entry.\<close>

definition put_receipt :: "nat \<Rightarrow> manifest \<Rightarrow> nat \<times> publish_request \<Rightarrow> manifest" where
  "put_receipt first m ir =
     (case ir of (i, req) \<Rightarrow>
        case req_receipt req of
          Some (Import r) \<Rightarrow> m\<lparr>m_import_receipt := Some (r\<lparr>imp_seq := first + i\<rparr>)\<rparr>
        | Some (Initialization r) \<Rightarrow> m\<lparr>m_initialization := Some (r\<lparr>init_seq := first + i\<rparr>)\<rparr>
        | None \<Rightarrow> m)"

definition with_receipts :: "nat \<Rightarrow> publish_request list \<Rightarrow> manifest \<Rightarrow> manifest" where
  "with_receipts first reqs m = foldl (put_receipt first) m (enumerate 0 reqs)"

fun respond_loop :: "nat \<Rightarrow> nat \<Rightarrow> verified list \<Rightarrow> publish_result list" where
  "respond_loop first offset [] = []"
| "respond_loop first offset (v # vs) =
     (if valid v
      then \<lparr>res_seq = first + offset, res_per_ref = v_per_ref v\<rparr> # respond_loop first (offset + 1) vs
      else \<lparr>res_seq = 0, res_per_ref = v_per_ref v\<rparr> # respond_loop first offset vs)"

definition respond :: "nat \<Rightarrow> verified list \<Rightarrow> publish_result list" where
  "respond first vs = respond_loop first 0 vs"

section \<open>A batch is a serial execution\<close>

text \<open>
  The specification: requests take effect one after the other. A transaction applies when each of
  its updates names the current value of its ref (no value: the ref must be absent); a receipt asks
  that nothing was written before; an explicit time must not lie before the last one.
\<close>

definition upd_matches :: "refs_spec \<Rightarrow> ref_update \<Rightarrow> bool" where
  "upd_matches a u \<longleftrightarrow> new_symbolic_target u \<noteq> [] \<or>
     (if is_null_oid (old_oid u) then or_default [] (spec_get a (upd_name u)) = []
      else or_default [] (spec_get a (upd_name u)) = old_oid u)"

definition txn_matches :: "refs_spec \<Rightarrow> ref_transaction \<Rightarrow> bool" where
  "txn_matches a t = list_all (upd_matches a) (updates t)"

definition admissible :: "refs_spec \<Rightarrow> nat option \<Rightarrow> bool \<Rightarrow> publish_request \<Rightarrow> bool" where
  "admissible a fl p req \<longleftrightarrow> txn_matches a (req_txn req) \<and>
     (updates (req_txn req) \<noteq> [] \<longrightarrow>
        (req_receipt req \<noteq> None \<longrightarrow> p) \<and>
        (case req_created_at req of None \<Rightarrow> True | Some t \<Rightarrow> \<not> before_floor fl t))"

fun serial :: "refs_spec \<Rightarrow> nat option \<Rightarrow> bool \<Rightarrow> publish_request list \<Rightarrow> bool list" where
  "serial a fl p [] = []"
| "serial a fl p (r # rs) =
     (if admissible a fl p r
      then True # serial (spec_txns a [req_txn r]) (if req_created_at r \<noteq> None then req_created_at r else fl) False rs
      else False # serial a fl p rs)"

text \<open>Transactions the server accepts, with HEAD sound.\<close>

definition txn_valid :: "ref_transaction \<Rightarrow> bool" where
  "txn_valid t = list_all (\<lambda>u. validate_ref_update u = Inr () \<and> upd_head_ok u) (updates t)"

lemma is_null_oid_eq: "is_null_oid s \<longleftrightarrow> s = [] \<or> all_zero s"
  by (simp add: is_null_oid_def all_zero_def)

lemma apply_update_pending:
  "validate_ref_update u = Inr () \<Longrightarrow> apply_update_to_map v u = pending_update v u"
  by (auto simp: apply_update_to_map_def pending_update_def is_null_oid_eq is_delete_def validate_ref_update_def split: if_splits)

lemma apply_txn_spec:
  assumes "view_ok v" "txn_valid t"
  shows "view_ok (apply_txn_to_map t v) \<and> view_spec (apply_txn_to_map t v) = spec_txns (view_spec v) [t]"
proof -
  have "apply_txn_to_map t v = foldl pending_update v (updates t)"
    using assms(2) unfolding apply_txn_to_map_def txn_valid_def
    by (intro foldl_cong refl) (simp add: apply_update_pending list_all_iff)
  then show ?thesis
    using pending_updates_spec [OF assms(1), of "updates t"] assms(2) by (simp add: txn_valid_def list_all_iff)
qed

lemma verify_txn_spec:
  assumes "view_ok v" "head_target v \<noteq> HEAD"
  obtains per where "verify_txn t v = Some per" "map fst per = map upd_name (updates t)"
    "all_ok per = txn_matches (view_spec v) t"
proof -
  have one: "\<exists>r. verify_update v u = Some (upd_name u, r) \<and> (r = Inr () \<longleftrightarrow> upd_matches (view_spec v) u)" for u
    using rv_get_spec [OF assms, of "upd_name u"] by (auto simp: verify_update_def upd_matches_def Let_def)
  have "\<exists>per. those (map (verify_update v) us) = Some per \<and> map fst per = map upd_name us \<and>
      all_ok per = list_all (upd_matches (view_spec v)) us" for us
  proof (induction us)
    case (Cons u us)
    then obtain per where "those (map (verify_update v) us) = Some per" "map fst per = map upd_name us"
      "all_ok per = list_all (upd_matches (view_spec v)) us" by blast
    moreover obtain r where "verify_update v u = Some (upd_name u, r)" "r = Inr () \<longleftrightarrow> upd_matches (view_spec v) u"
      using one by blast
    ultimately show ?case by (auto simp: all_ok_def intro!: exI [of _ "(upd_name u, r) # per"])
  qed (simp add: all_ok_def)
  then show ?thesis using that by (auto simp: verify_txn_def txn_matches_def)
qed

lemma reject_all_ok: "all_ok (reject_all msg per) \<longleftrightarrow> per = []"
  by (cases per) (auto simp: reject_all_def all_ok_def)

lemma verify_request_spec:
  assumes "view_ok (w_refs w)" "head_target (w_refs w) \<noteq> HEAD" "txn_valid (req_txn req)"
  shows "\<exists>v w'. verify_request w req = Some (v, w') \<and>
    valid v = admissible (view_spec (w_refs w)) (w_floor w) (w_pristine w) req \<and> view_ok (w_refs w') \<and>
    head_target (w_refs w') \<noteq> HEAD \<and>
    view_spec (w_refs w') = (if valid v then spec_txns (view_spec (w_refs w)) [req_txn req] else view_spec (w_refs w)) \<and>
    w_floor w' = (if valid v \<and> req_created_at req \<noteq> None then req_created_at req else w_floor w) \<and>
    w_pristine w' = (\<not> valid v \<and> w_pristine w)"
proof -
  obtain per where per: "verify_txn (req_txn req) (w_refs w) = Some per" "map fst per = map upd_name (updates (req_txn req))"
    "all_ok per = txn_matches (view_spec (w_refs w)) (req_txn req)"
    using verify_txn_spec [OF assms(1,2)] .
  have empty: "per = [] \<longleftrightarrow> updates (req_txn req) = []" using per(2) by (metis list.map_disc_iff)
  have nil: "all_ok []" "reject_all msg [] = []" for msg by (simp_all add: all_ok_def reject_all_def)
  have rej: "reject_all msg per = [] \<longleftrightarrow> per = []" for msg by (simp add: reject_all_def)
  obtain v w' where vw: "verify_request w req = Some (v, w')"
    using per(1) by (simp add: verify_request_def Let_def)
  have valid: "valid v = admissible (view_spec (w_refs w)) (w_floor w) (w_pristine w) req"
    using vw per empty nil by (auto simp: verify_request_def Let_def admissible_def reject_all_ok rej split: option.splits if_splits)
  have w': "w_refs w' = (if valid v then apply_txn_to_map (req_txn req) (w_refs w) else w_refs w)"
    "w_floor w' = (if valid v \<and> req_created_at req \<noteq> None then req_created_at req else w_floor w)"
    "w_pristine w' = (\<not> valid v \<and> w_pristine w)"
    using vw per(1) by (auto simp: verify_request_def Let_def split: option.splits if_splits)
  have spec: "view_ok (apply_txn_to_map (req_txn req) (w_refs w))"
    "view_spec (apply_txn_to_map (req_txn req) (w_refs w)) = spec_txns (view_spec (w_refs w)) [req_txn req]"
    using apply_txn_spec [OF assms(1,3)] by simp_all
  moreover have "sp_target (spec_txns (view_spec (w_refs w)) [req_txn req]) \<noteq> HEAD"
    using spec_updates_target [of "view_spec (w_refs w)" "updates (req_txn req)"] assms(2,3)
    by (simp add: txn_valid_def list_all_iff)
  ultimately have "head_target (apply_txn_to_map (req_txn req) (w_refs w)) \<noteq> HEAD" by (metis sp_target_of(1))
  then show ?thesis using vw valid w' spec assms by (intro exI [of _ v] exI [of _ w']) auto
qed

lemma verify_loop_serial:
  assumes "view_ok (w_refs w)" "head_target (w_refs w) \<noteq> HEAD" "list_all (\<lambda>r. txn_valid (req_txn r)) batch"
  shows "\<exists>vs w'. verify_loop w batch = Some (vs, w') \<and> length vs = length batch \<and>
    map valid vs = serial (view_spec (w_refs w)) (w_floor w) (w_pristine w) batch"
  using assms
proof (induction batch arbitrary: w)
  case (Cons r rs)
  obtain v w1 where vw: "verify_request w r = Some (v, w1)"
    "valid v = admissible (view_spec (w_refs w)) (w_floor w) (w_pristine w) r" "view_ok (w_refs w1)" "head_target (w_refs w1) \<noteq> HEAD"
    "view_spec (w_refs w1) = (if valid v then spec_txns (view_spec (w_refs w)) [req_txn r] else view_spec (w_refs w))"
    "w_floor w1 = (if valid v \<and> req_created_at r \<noteq> None then req_created_at r else w_floor w)"
    "w_pristine w1 = (\<not> valid v \<and> w_pristine w)"
    using verify_request_spec [OF Cons.prems(1,2)] Cons.prems(3) unfolding list.pred_inject(2) by blast
  obtain vs w' where "verify_loop w1 rs = Some (vs, w')" "length vs = length rs"
    "map valid vs = serial (view_spec (w_refs w1)) (w_floor w1) (w_pristine w1) rs"
    using Cons.IH [OF vw(3,4)] Cons.prems(3) by auto
  then show ?case using vw by auto
qed simp


text \<open>Two pushes to one branch from the same old value, in one batch: the first wins.\<close>

definition example_push :: "string \<Rightarrow> string \<Rightarrow> publish_request" where
  "example_push old new =
     \<lparr>req_pack = None,
      req_txn = \<lparr>updates = [\<lparr>upd_name = ''refs/heads/main'', old_oid = old, new_oid = new, new_symbolic_target = [], new_peeled = []\<rparr>],
        push_options = [], txn_atomic = True\<rparr>,
      req_meta = [], synced = True, req_created_at = None, req_receipt = None\<rparr>"

definition example_cache :: refs_cached where
  "example_cache = \<lparr>cache_data = \<lparr>snap_refs = [\<lparr>ref_name = ''refs/heads/main'', ref_oid = replicate 40 (CHR ''a''), ref_peeled = []\<rparr>],
     snap_head_target = ''refs/heads/main'', snap_head_oid = []\<rparr>, cache_pending = []\<rparr>"

definition empty_manifest :: manifest where
  "empty_manifest = \<lparr>format_version = 1, repo = ''o/r'', object_format = ''sha1'', head_seq = 0, min_seq = 0, checkpoint = None, log_segments = [], packs = [], updated_at = None,
     manifest_writer = [], revision = 0, m_initialization = None, m_import_receipt = None\<rparr>"


section \<open>Responses\<close>

lemma enumerate_entries: "map (\<lambda>(i, r). f (n + i) r) (enumerate k rs) = map (\<lambda>(i, r). f i r) (enumerate (n + k) rs)"
  by (induction rs arbitrary: k) auto

lemma build_entries: "fst (build_batch now w reqs first) = map (\<lambda>(i, r). push_entry now w i r) (enumerate first reqs)"
  by (simp add: build_batch_def Let_def enumerate_entries)

lemma push_entry_simps [simp]:
  "seq (push_entry now w s r) = s" "txn (push_entry now w s r) = Some (req_txn r)" "kind (push_entry now w s r) = Push"
  by (simp_all add: push_entry_def)

lemma build_seqs: "map seq (fst (build_batch now w reqs first)) = [first..<first + length reqs]"
proof -
  have "seq \<circ> (\<lambda>(i, r). push_entry now w i r) = fst" by (auto simp: fun_eq_iff)
  then show ?thesis unfolding build_entries by (simp add: map_fst_enumerate)
qed

lemma build_txns: "map txn (fst (build_batch now w reqs first)) = map (\<lambda>r. Some (req_txn r)) reqs"
  unfolding build_entries by (induction reqs arbitrary: first) auto

lemma valid_requests_simps [simp]:
  "valid_requests [] vs = []" "valid_requests batch [] = []"
  "valid_requests (r # rs) (v # vs) = (if valid v then r # valid_requests rs vs else valid_requests rs vs)"
  by (simp_all add: valid_requests_def)

lemma respond_loop_spec:
  assumes "length vs = length batch" "i < length vs"
  shows "respond_loop first off vs ! i =
    \<lparr>res_seq = if valid (vs ! i) then first + off + length (valid_requests (take i batch) (take i vs)) else 0, res_per_ref = v_per_ref (vs ! i)\<rparr>"
  using assms
proof (induction vs batch arbitrary: i off rule: list_induct2)
  case (Cons v vs r rs)
  then show ?case by (cases i) auto
qed simp

lemma valid_requests_nth:
  assumes "length vs = length batch" "i < length vs" "valid (vs ! i)"
  shows "length (valid_requests (take i batch) (take i vs)) < length (valid_requests batch vs) \<and>
    valid_requests batch vs ! length (valid_requests (take i batch) (take i vs)) = batch ! i"
  using assms
proof (induction vs batch arbitrary: i rule: list_induct2)
  case (Cons v vs r rs)
  then show ?case by (cases i) auto
qed simp

text \<open>
  An acknowledgement names the entry it is about. The entries of a batch carry contiguous
  sequence numbers from the claimed slot on; every accepted request is answered with the number of
  the entry that holds its own transaction, every rejected one with 0 and its per-ref errors.
\<close>

theorem responses_name_their_entries:
  assumes "length vs = length batch" "i < length batch"
  shows "let entries = fst (build_batch now w (valid_requests batch vs) first); res = respond first vs ! i
    in map seq entries = [first..<first + length (valid_requests batch vs)] \<and>
       res_per_ref res = v_per_ref (vs ! i) \<and>
       (if valid (vs ! i)
        then first \<le> res_seq res \<and> res_seq res < first + length entries \<and>
             seq (entries ! (res_seq res - first)) = res_seq res \<and> txn (entries ! (res_seq res - first)) = Some (req_txn (batch ! i))
        else res_seq res = 0)"
proof -
  let ?reqs = "valid_requests batch vs" and ?k = "length (valid_requests (take i batch) (take i vs))"
  let ?es = "fst (build_batch now w ?reqs first)"
  have res: "respond first vs ! i = \<lparr>res_seq = if valid (vs ! i) then first + ?k else 0, res_per_ref = v_per_ref (vs ! i)\<rparr>"
    using respond_loop_spec [of vs batch i first 0] assms by (simp add: respond_def)
  have len: "length ?es = length ?reqs" using build_seqs [of now w ?reqs first] by (metis add_diff_cancel_left' length_map length_upt)
  have k: "?k < length ?reqs \<and> ?reqs ! ?k = batch ! i" if "valid (vs ! i)"
    using valid_requests_nth [OF assms(1), of i] that assms by simp
  have "seq (?es ! ?k) = first + ?k" "txn (?es ! ?k) = Some (req_txn (batch ! i))" if "valid (vs ! i)"
    using k [OF that] len build_seqs [of now w ?reqs first] build_txns [of now w ?reqs first]
    by (metis nth_map nth_upt nat_add_left_cancel_less, metis nth_map)
  then show ?thesis using res k len build_seqs [of now w ?reqs first] by (simp add: Let_def)
qed

theorem responses_name_their_entries_witness:
  "let vs = [\<lparr>v_per_ref = [], valid = False\<rparr>, \<lparr>v_per_ref = [], valid = True\<rparr>];
       batch = [example_push ''1'' ''2'', example_push ''3'' ''4'']
   in res_seq (respond 7 vs ! 1) = 7 \<and> txn (fst (build_batch 0 ''w'' (valid_requests batch vs) 7) ! 0) = Some (req_txn (batch ! 1))"
  using responses_name_their_entries [of "[\<lparr>v_per_ref = [], valid = False\<rparr>, \<lparr>v_per_ref = [], valid = True\<rparr>]"
    "[example_push ''1'' ''2'', example_push ''3'' ''4'']" 1 0 "''w''" 7]
  by (simp add: valid_requests_def respond_def Let_def)

end
