(* ===== verification/Git_Apply.thy ===== *)
theory Git_Apply
  imports Git_Refs
begin

text \<open>
  Applying a ref transaction to the local repository (\<open>apply_ref_txn\<close> of
  \<^verbatim>\<open>crates/gitcask-git/src/refs.rs\<close>): validation, the optional check of the old values, one
  \<^verbatim>\<open>git update-ref --stdin\<close> transaction for the object ids, and HEAD written directly. The git
  program is the parameter \<open>git\<close>: a list of commands on the ref files to an error or the new files.
\<close>

section \<open>The operation\<close>

datatype ref_cmd =
    CmdDelete string "string option"
  | CmdCreate string string
  | CmdUpdate string string "string option"

type_synonym update_ref = "ref_cmd list \<Rightarrow> git_dir \<Rightarrow> (git_error, git_dir) result"

definition trim_zeros :: "string \<Rightarrow> string" where
  "trim_zeros s = dropWhile (\<lambda>c. c = CHR ''0'') s"

text \<open>The first update whose old value is not the current one; the outer option is \<open>None\<close> for a lookup that does not return.\<close>

fun check_olds :: "ref_view \<Rightarrow> ref_update list \<Rightarrow> (git_error, unit) result option" where
  "check_olds v [] = Some (Inr ())"
| "check_olds v (u # us) =
     (if new_symbolic_target u \<noteq> [] then check_olds v us
      else case rv_get v (upd_name u) of
             None \<Rightarrow> None
           | Some found \<Rightarrow>
               (let current = or_default [] found; old = trim_zeros (old_oid u); cur = trim_zeros current
                in if old = [] then
                     (if cur \<noteq> [] then Some (Inl (RefConflict (upd_name u) (old_oid u) current)) else check_olds v us)
                   else if old \<noteq> cur then Some (Inl (RefConflict (upd_name u) (old_oid u) current))
                   else check_olds v us))"

definition ref_cmd_of :: "bool \<Rightarrow> ref_update \<Rightarrow> ref_cmd" where
  "ref_cmd_of check_old u =
     (let new_zero = all_zero (new_oid u) \<or> new_oid u = []; old_zero = all_zero (old_oid u) \<or> old_oid u = []
      in if new_zero then CmdDelete (upd_name u) (if check_old \<and> \<not> old_zero then Some (old_oid u) else None)
         else if check_old \<and> old_zero then CmdCreate (upd_name u) (new_oid u)
         else if check_old \<and> \<not> old_zero then CmdUpdate (upd_name u) (new_oid u) (Some (old_oid u))
         else CmdUpdate (upd_name u) (new_oid u) None)"

definition is_symref_update :: "ref_update \<Rightarrow> bool" where
  "is_symref_update u \<longleftrightarrow> new_symbolic_target u \<noteq> [] \<or> upd_name u = HEAD"

definition write_head :: "git_dir \<Rightarrow> ref_update \<Rightarrow> git_dir" where
  "write_head d u =
     d\<lparr>head_file := Some (if new_symbolic_target u = [] then new_oid u @ nl else ''ref: '' @ new_symbolic_target u @ nl)\<rparr>"

definition apply_ref_txn ::
  "update_ref \<Rightarrow> (string \<Rightarrow> string option) \<Rightarrow> bool \<Rightarrow> ref_transaction \<Rightarrow> git_dir \<Rightarrow> ((git_error, unit) result \<times> git_dir) option" where
  "apply_ref_txn git peel check_old t d =
     (case find (\<lambda>u. validate_ref_update u \<noteq> Inr ()) (updates t) of
        Some u \<Rightarrow> Some (validate_ref_update u, d)
      | None \<Rightarrow>
          (case (if check_old then check_olds (rv_new (read_refs peel d)) (updates t) else Some (Inr ())) of
             None \<Rightarrow> None
           | Some (Inl e) \<Rightarrow> Some (Inl e, d)
           | Some (Inr _) \<Rightarrow>
               (let cmds = map (ref_cmd_of check_old) (filter (\<lambda>u. \<not> is_symref_update u) (updates t));
                    heads = filter is_symref_update (updates t)
                in case (if cmds \<noteq> [] then git cmds d else Inr d) of
                     Inl e \<Rightarrow> Some (Inl e, d)
                   | Inr d1 \<Rightarrow> Some (Inr (), foldl write_head d1 heads))))"

section \<open>What git promises\<close>

fun cmd_effect :: "(string \<Rightarrow> string option) \<Rightarrow> ref_cmd \<Rightarrow> (string \<Rightarrow> string option)" where
  "cmd_effect m (CmdDelete n _) = m(n := None)"
| "cmd_effect m (CmdCreate n v) = m(n \<mapsto> v)"
| "cmd_effect m (CmdUpdate n v _) = m(n \<mapsto> v)"

fun cmd_name :: "ref_cmd \<Rightarrow> string" where
  "cmd_name (CmdDelete n _) = n"
| "cmd_name (CmdCreate n _) = n"
| "cmd_name (CmdUpdate n _ _) = n"

fun cmd_value_ok :: "ref_cmd \<Rightarrow> bool" where
  "cmd_value_ok (CmdDelete n _) = True"
| "cmd_value_ok (CmdCreate n v) = (list_all is_hexdigit v \<and> (length v = 40 \<or> length v = 64) \<and> \<not> all_zero v)"
| "cmd_value_ok (CmdUpdate n v _) = (list_all is_hexdigit v \<and> (length v = 40 \<or> length v = 64) \<and> \<not> all_zero v)"

definition cmd_clean :: "ref_cmd \<Rightarrow> bool" where
  "cmd_clean c \<longleftrightarrow> validate_ref_name (cmd_name c) \<and> cmd_name c \<noteq> HEAD \<and> trimmed (cmd_name c) \<and> cmd_value_ok c"

text \<open>
  A transaction that git accepts has exactly the effect of its commands: on refs that can be read
  back it leaves refs that can be read back, with the new values and HEAD as it was.
\<close>

definition update_ref_ok :: "(string \<Rightarrow> string option) \<Rightarrow> update_ref \<Rightarrow> bool" where
  "update_ref_ok peel git \<longleftrightarrow>
     (\<forall>cmds d d'. git cmds d = Inr d' \<longrightarrow> refs_clean (read_refs peel d) \<longrightarrow> list_all cmd_clean cmds \<longrightarrow>
        refs_clean (read_refs peel d') \<and>
        spec_of (read_refs peel d') =
          (spec_of (read_refs peel d))\<lparr>sp_refs := foldl cmd_effect (sp_refs (spec_of (read_refs peel d))) cmds\<rparr>)"

section \<open>The effect of a transaction\<close>

lemma read_refs_head:
  "read_refs peel (d\<lparr>head_file := h\<rparr>) =
     (read_refs peel d)\<lparr>snap_head_target := fst (read_head (d\<lparr>head_file := h\<rparr>)), snap_head_oid := snd (read_head (d\<lparr>head_file := h\<rparr>))\<rparr>"
  by (simp add: read_refs_def Let_def)

lemma write_head_spec:
  assumes "refs_clean (read_refs peel d)" "upd_clean u" "is_symref_update u"
  shows "refs_clean (read_refs peel (write_head d u)) \<and>
    spec_of (read_refs peel (write_head d u)) = spec_update (spec_of (read_refs peel d)) u"
proof -
  have v: "validate_ref_update u = Inr ()" and h: "upd_head_ok u" and tr: "trimmed (new_symbolic_target u)"
    using assms(2) by (simp_all add: upd_clean_def)
  have name: "upd_name u = HEAD" using assms(3) v by (auto simp: is_symref_update_def validate_ref_update_def split: if_splits)
  show ?thesis
  proof (cases "new_symbolic_target u = []")
    case True
    then have "\<not> is_delete u" using h name by (simp add: upd_head_ok_def)
    note o = validated_new_oid [OF assms(2) True this]
    have "validate_oid (new_oid u)" using v True by (auto simp: validate_ref_update_def split: if_splits)
    then have "read_head (d\<lparr>head_file := Some (new_oid u @ nl)\<rparr>) = ([], new_oid u)" using o by (intro read_head_detached) auto
    then show ?thesis using assms(1) o True name
      by (simp add: write_head_def read_refs_head refs_clean_def head_clean_def snap_ok_def spec_of_def spec_update_def)
  next
    case False
    then have "validate_ref_name (new_symbolic_target u)" "new_symbolic_target u \<noteq> HEAD"
      using v h by (auto simp: validate_ref_update_def upd_head_ok_def split: if_splits)
    then have len: "3 \<le> length (new_symbolic_target u)" by (rule validated_name)
    then have "read_head (d\<lparr>head_file := Some (''ref: '' @ new_symbolic_target u @ nl)\<rparr>) = (new_symbolic_target u, [])"
      using tr by (intro read_head_symbolic) simp_all
    then show ?thesis using assms(1) len tr False name
      by (simp add: write_head_def read_refs_head refs_clean_def head_clean_def snap_ok_def spec_of_def spec_update_def)
  qed
qed

lemma write_heads_spec:
  "refs_clean (read_refs peel d) \<Longrightarrow> list_all upd_clean us \<Longrightarrow> list_all is_symref_update us \<Longrightarrow>
   refs_clean (read_refs peel (foldl write_head d us)) \<and>
   spec_of (read_refs peel (foldl write_head d us)) = foldl spec_update (spec_of (read_refs peel d)) us"
  by (induction us arbitrary: d) (simp_all add: write_head_spec)

text \<open>HEAD and the refs are independent, so the object ids may be written first.\<close>

lemma spec_update_commute:
  "is_symref_update u \<Longrightarrow> \<not> is_symref_update u' \<Longrightarrow> spec_update (spec_update a u) u' = spec_update (spec_update a u') u"
  by (simp add: spec_update_def is_symref_update_def)

lemma spec_update_commute_all:
  "is_symref_update u \<Longrightarrow> list_all (\<lambda>u. \<not> is_symref_update u) us \<Longrightarrow> foldl spec_update (spec_update a u) us = spec_update (foldl spec_update a us) u"
  by (induction us arbitrary: a) (simp_all add: spec_update_commute)

lemma refs_then_heads:
  "foldl spec_update a us = foldl spec_update (foldl spec_update a (filter (\<lambda>u. \<not> is_symref_update u) us)) (filter is_symref_update us)"
  by (induction us arbitrary: a) (simp_all add: spec_update_commute_all [unfolded list_all_iff] list_all_iff)

lemma cmd_effect_update:
  "\<not> is_symref_update u \<Longrightarrow> spec_update a u = a\<lparr>sp_refs := cmd_effect (sp_refs a) (ref_cmd_of check_old u)\<rparr>"
  by (auto simp: spec_update_def is_symref_update_def ref_cmd_of_def Let_def is_delete_def all_zero_def)

lemma cmd_effects_updates:
  "list_all (\<lambda>u. \<not> is_symref_update u) us \<Longrightarrow>
   foldl spec_update a us = a\<lparr>sp_refs := foldl cmd_effect (sp_refs a) (map (ref_cmd_of check_old) us)\<rparr>"
  by (induction us arbitrary: a) (simp_all add: cmd_effect_update [of _ _ check_old])

lemma ref_cmd_clean:
  assumes "upd_clean u" "\<not> is_symref_update u"
  shows "cmd_clean (ref_cmd_of check_old u)"
proof -
  have s: "new_symbolic_target u = []" "upd_name u \<noteq> HEAD" using assms(2) by (simp_all add: is_symref_update_def)
  have n: "validate_ref_name (upd_name u)" "trimmed (upd_name u)"
    using assms(1) s by (auto simp: upd_clean_def validate_ref_update_def split: if_splits)
  show ?thesis
  proof (cases "is_delete u")
    case True
    then have "all_zero (new_oid u) \<or> new_oid u = []" by (auto simp: is_delete_def)
    then show ?thesis using n s by (simp add: cmd_clean_def ref_cmd_of_def)
  next
    case False
    then have "\<not> (all_zero (new_oid u) \<or> new_oid u = [])" by (auto simp: is_delete_def)
    then show ?thesis using n s validated_new_oid [OF assms(1) s(1) False] by (simp add: cmd_clean_def ref_cmd_of_def Let_def)
  qed
qed

lemma apply_ref_txn_spec:
  assumes "update_ref_ok peel git" "refs_clean (read_refs peel d)" "list_all upd_clean (updates t)"
    and "apply_ref_txn git peel check_old t d = Some (Inr (), d')"
  shows "refs_clean (read_refs peel d') \<and> spec_of (read_refs peel d') = spec_txns (spec_of (read_refs peel d)) [t]"
proof -
  let ?us = "filter (\<lambda>u. \<not> is_symref_update u) (updates t)" and ?hs = "filter is_symref_update (updates t)"
  let ?cmds = "map (ref_cmd_of check_old) ?us"
  have "find (\<lambda>u. validate_ref_update u \<noteq> Inr ()) (updates t) = None"
    using assms(3) by (auto simp: find_None_iff list_all_iff upd_clean_def)
  then obtain d1 where d1: "(if ?cmds \<noteq> [] then git ?cmds d else Inr d) = Inr d1" and d': "d' = foldl write_head d1 ?hs"
    using assms(4) by (auto simp: apply_ref_txn_def Let_def split: option.splits sum.splits if_splits)
  have "list_all cmd_clean ?cmds" using assms(3) ref_cmd_clean by (auto simp: list_all_iff)
  then have 1: "refs_clean (read_refs peel d1) \<and> spec_of (read_refs peel d1) =
      (spec_of (read_refs peel d))\<lparr>sp_refs := foldl cmd_effect (sp_refs (spec_of (read_refs peel d))) ?cmds\<rparr>"
    using d1 assms(1,2) unfolding update_ref_ok_def by (cases "?cmds = []") auto
  have "list_all upd_clean ?hs" "list_all is_symref_update ?hs" "list_all (\<lambda>u. \<not> is_symref_update u) ?us"
    using assms(3) by (simp_all add: list_all_iff)
  then show ?thesis
    using 1 write_heads_spec [of peel d1 ?hs] cmd_effects_updates [of ?us "spec_of (read_refs peel d)" check_old]
      refs_then_heads [of "spec_of (read_refs peel d)" "updates t"] by (simp add: d')
qed

text \<open>
  C9: applying a transaction locally means what replaying it means. Let the refs in the files be ones
  the files can hold, and let every update of the transaction pass the validation, use names without
  white space around them and a hexadecimal peeled id, and not point HEAD at itself or delete it. When
  the git program keeps its promise and the call succeeds, the refs that are then read from the files are exactly those
  of the specification after the transaction, HEAD included, although object ids and HEAD are
  written by different means and in another order; and the files can still be read back. (A validated
  HEAD target that ends in a tab is read back without it, which the condition on names excludes.)
\<close>

theorem apply_ref_txn_exact:
  assumes "update_ref_ok peel git" "refs_clean (read_refs peel d)" "list_all upd_clean (updates t)"
    and "apply_ref_txn git peel check_old t d = Some (Inr (), d')"
  shows "refs_clean (read_refs peel d') \<and> spec_of (read_refs peel d') = spec_txns (spec_of (read_refs peel d)) [t]"
  by (rule apply_ref_txn_spec [OF assms])

text \<open>A git that rewrites the ref files, as an instance: it keeps the promise.\<close>

fun cmd_update :: "ref_cmd \<Rightarrow> ref_update" where
  "cmd_update (CmdDelete n _) = \<lparr>upd_name = n, old_oid = [], new_oid = [], new_symbolic_target = [], new_peeled = []\<rparr>"
| "cmd_update (CmdCreate n v) = \<lparr>upd_name = n, old_oid = [], new_oid = v, new_symbolic_target = [], new_peeled = []\<rparr>"
| "cmd_update (CmdUpdate n v _) = \<lparr>upd_name = n, old_oid = [], new_oid = v, new_symbolic_target = [], new_peeled = []\<rparr>"

definition file_git :: "(string \<Rightarrow> string option) \<Rightarrow> update_ref" where
  "file_git peel cmds d =
     (case apply_ref_txns_offline peel [\<lparr>updates = map cmd_update cmds, push_options = [], txn_atomic = True\<rparr>] d of
        (Inr _, d') \<Rightarrow> Inr d' | (Inl e, _) \<Rightarrow> Inl e)"

lemma cmd_update_clean: "cmd_clean c \<Longrightarrow> upd_clean (cmd_update c)"
proof -
  have "trimmed []" by code_simp
  then show "cmd_clean c \<Longrightarrow> upd_clean (cmd_update c)"
    by (cases c) (auto simp: cmd_clean_def upd_clean_def validate_ref_update_def validate_oid_def upd_head_ok_def is_delete_def all_zero_def)
qed

lemma cmd_update_effect: "cmd_clean c \<Longrightarrow> spec_update a (cmd_update c) = a\<lparr>sp_refs := cmd_effect (sp_refs a) c\<rparr>"
  by (cases c) (auto simp: cmd_clean_def spec_update_def is_delete_def all_zero_def)

lemma cmd_updates_effect:
  "list_all cmd_clean cs \<Longrightarrow> foldl spec_update a (map cmd_update cs) = a\<lparr>sp_refs := foldl cmd_effect (sp_refs a) cs\<rparr>"
  by (induction cs arbitrary: a) (simp_all add: cmd_update_effect)

lemma file_git_ok:
  assumes "peel_hex peel"
  shows "update_ref_ok peel (file_git peel)"
  unfolding update_ref_ok_def
proof (intro allI impI)
  fix cmds d d' assume git: "file_git peel cmds d = Inr d'" and d: "refs_clean (read_refs peel d)" and c: "list_all cmd_clean cmds"
  let ?t = "\<lparr>updates = map cmd_update cmds, push_options = [], txn_atomic = True\<rparr>"
  have "list_all (\<lambda>t. list_all upd_clean (updates t)) [?t]" using c cmd_update_clean by (auto simp: list_all_iff)
  then show "refs_clean (read_refs peel d') \<and> spec_of (read_refs peel d') =
      (spec_of (read_refs peel d))\<lparr>sp_refs := foldl cmd_effect (sp_refs (spec_of (read_refs peel d))) cmds\<rparr>"
    using offline_replay [OF d assms, of "[?t]"] git cmd_updates_effect [OF c] by (auto simp: file_git_def split: prod.splits sum.splits)
qed

text \<open>A branch is created and HEAD is moved to it in one transaction.\<close>

definition example_txn :: ref_transaction where
  "example_txn = \<lparr>updates = [\<lparr>upd_name = HEAD, old_oid = '''', new_oid = '''', new_symbolic_target = ''refs/heads/dev'', new_peeled = ''''\<rparr>,
     \<lparr>upd_name = ''refs/heads/dev'', old_oid = '''', new_oid = replicate 40 (CHR ''c''), new_symbolic_target = '''', new_peeled = ''''\<rparr>],
     push_options = [], txn_atomic = True\<rparr>"

definition example_dir :: git_dir where
  "example_dir = \<lparr>packed_file = None, loose_files = [], head_file = Some (''ref: refs/heads/main'' @ nl)\<rparr>"

theorem apply_ref_txn_exact_witness:
  "\<exists>d'. apply_ref_txn (file_git (\<lambda>_. None)) (\<lambda>_. None) True example_txn example_dir = Some (Inr (), d') \<and>
     spec_get (spec_of (read_refs (\<lambda>_. None) d')) HEAD = Some (replicate 40 (CHR ''c''))"
proof -
  have "peel_hex (\<lambda>_. None)" by (simp add: peel_hex_def)
  then have git: "update_ref_ok (\<lambda>_. None) (file_git (\<lambda>_. None))" by (rule file_git_ok)
  have ok: "refs_clean (read_refs (\<lambda>_. None) example_dir)" "list_all upd_clean (updates example_txn)"
    "spec_get (spec_txns (spec_of (read_refs (\<lambda>_. None) example_dir)) [example_txn]) HEAD = Some (replicate 40 (CHR ''c''))" by code_simp+
  have "check_olds (rv_new (read_refs (\<lambda>_. None) example_dir)) (updates example_txn) = Some (Inr ())"
    by (simp add: example_txn_def rv_get.simps [of _ "''refs/heads/dev''"]) code_simp
  moreover have "find (\<lambda>u. validate_ref_update u \<noteq> Inr ()) (updates example_txn) = None" by code_simp
  moreover have "\<not> isl (file_git (\<lambda>_. None) (map (ref_cmd_of True) (filter (\<lambda>u. \<not> is_symref_update u) (updates example_txn))) example_dir)"
    by code_simp
  then obtain d1 where "file_git (\<lambda>_. None) (map (ref_cmd_of True) (filter (\<lambda>u. \<not> is_symref_update u) (updates example_txn))) example_dir = Inr d1"
    by (auto simp: isl_def) (metis obj_sumE)
  ultimately obtain d' where d': "apply_ref_txn (file_git (\<lambda>_. None)) (\<lambda>_. None) True example_txn example_dir = Some (Inr (), d')"
    by (cases "filter (\<lambda>u. \<not> is_symref_update u) (updates example_txn) = []") (auto simp: apply_ref_txn_def Let_def)
  then show ?thesis using apply_ref_txn_exact [OF git ok(1,2) d'] ok(3) by auto
qed

end
