(* ===== verification/Store.thy ===== *)
theory Store
  imports Btree "HOL-Library.Word"
begin

text \<open>
  The object store: the trait's data (\<^verbatim>\<open>crates/gitcask-store/src/lib.rs\<close>), the in-memory
  backend that is its reference semantics (\<^verbatim>\<open>memory.rs\<close>), and the wrapper that scopes a store
  to a key prefix (\<open>Prefixed\<close>). An operation takes the store's state and returns its result and
  the state after it; the time of the operation is the argument \<open>now\<close>. The content type is a
  parameter, so that objects may hold decoded messages; \<open>part\<close> is \<open>Bytes::slice\<close>.
  The interface clients rely on is the locale \<open>cas_store\<close>, interpreted for both stores.
\<close>

section \<open>Data of the trait (lib.rs)\<close>

text \<open>A version is opaque: compared for equality only.\<close>

type_synonym version = string

record object_meta =
  meta_key :: string
  meta_size :: nat
  meta_version :: version
  last_modified :: nat

record get_options =
  if_none_match :: "version option"
  if_match :: "version option"
  range :: "(nat \<times> nat) option"

definition default_get :: get_options where
  "default_get = \<lparr>if_none_match = None, if_match = None, range = None\<rparr>"

datatype 'b get_result =
    NotModified version
  | Object object_meta 'b

datatype put_mode = Overwrite | Create | Update version

datatype store_error =
    NotFound string
  | PreconditionFailed string "version option"
  | Retryable string
  | InvalidArgument string
  | OtherError string

fun is_not_found :: "store_error \<Rightarrow> bool" where
  "is_not_found (NotFound k) = True"
| "is_not_found _ = False"

fun is_precondition_failed :: "store_error \<Rightarrow> bool" where
  "is_precondition_failed (PreconditionFailed k v) = True"
| "is_precondition_failed _ = False"

fun is_retryable :: "store_error \<Rightarrow> bool" where
  "is_retryable (Retryable e) = True"
| "is_retryable _ = False"

section \<open>The in-memory backend (memory.rs)\<close>

record 'b mem_store =
  objects :: "(version \<times> 'b \<times> nat) btree"
  counter :: "64 word"

definition mem_new :: "'b mem_store" where
  "mem_new = \<lparr>objects = [], counter = 0\<rparr>"

definition next_version :: "'b mem_store \<Rightarrow> version" where
  "next_version st = nat_str (unat (counter st + 1))"

definition mem_get ::
  "(nat \<Rightarrow> nat \<Rightarrow> 'b \<Rightarrow> 'b) \<Rightarrow> string \<Rightarrow> get_options \<Rightarrow> ('b :: size) mem_store \<Rightarrow> (store_error, 'b get_result) result" where
  "mem_get part key opts st =
     (case map_of (objects st) key of
        None \<Rightarrow> Inl (NotFound key)
      | Some (v, d, t) \<Rightarrow>
          if (case if_match opts of None \<Rightarrow> False | Some m \<Rightarrow> m \<noteq> v)
          then Inl (PreconditionFailed key (Some v))
          else if if_none_match opts = Some v then Inr (NotModified v)
          else let meta = \<lparr>meta_key = key, meta_size = size d, meta_version = v, last_modified = t\<rparr>
               in (case range opts of
                    None \<Rightarrow> Inr (Object meta d)
                  | Some (s, e) \<Rightarrow>
                      if min s (size d) > min e (size d) then Inl (InvalidArgument ''bad range'')
                      else Inr (Object meta (part (min s (size d)) (min e (size d)) d))))"

definition mem_head :: "string \<Rightarrow> ('b :: size) mem_store \<Rightarrow> object_meta option" where
  "mem_head key st =
     map_option (\<lambda>(v, d, t). \<lparr>meta_key = key, meta_size = size d, meta_version = v, last_modified = t\<rparr>)
       (map_of (objects st) key)"

definition mem_put ::
  "nat \<Rightarrow> string \<Rightarrow> ('b :: size) \<Rightarrow> put_mode \<Rightarrow> 'b mem_store \<Rightarrow> (store_error, object_meta) result \<times> 'b mem_store" where
  "mem_put now key data mode st =
     (let current = map_option fst (map_of (objects st) key);
          write = (let v = next_version st in
             (Inr \<lparr>meta_key = key, meta_size = size data, meta_version = v, last_modified = now\<rparr>,
              st\<lparr>objects := bt_insert key (v, data, now) (objects st), counter := counter st + 1\<rparr>))
      in case (mode, current) of
           (Overwrite, _) \<Rightarrow> write
         | (Create, None) \<Rightarrow> write
         | (Create, Some v) \<Rightarrow> (Inl (PreconditionFailed key (Some v)), st)
         | (Update want, Some v) \<Rightarrow>
             if want = v then write else (Inl (PreconditionFailed key (Some v)), st)
         | (Update want, None) \<Rightarrow> (Inl (PreconditionFailed key None), st))"

definition mem_delete ::
  "string \<Rightarrow> version option \<Rightarrow> 'b mem_store \<Rightarrow> (store_error, unit) result \<times> 'b mem_store" where
  "mem_delete key if_version st =
     (case (map_of (objects st) key, if_version) of
        (None, None) \<Rightarrow> (Inr (), st)
      | (None, Some _) \<Rightarrow> (Inl (NotFound key), st)
      | (Some (v, _), Some want) \<Rightarrow>
          if v \<noteq> want then (Inl (PreconditionFailed key (Some v)), st)
          else (Inr (), st\<lparr>objects := bt_remove key (objects st)\<rparr>)
      | (Some _, None) \<Rightarrow> (Inr (), st\<lparr>objects := bt_remove key (objects st)\<rparr>))"

text \<open>Concatenation of the sources, in order, and a put of it.\<close>

fun compose_body :: "string list \<Rightarrow> 'a list mem_store \<Rightarrow> (store_error, 'a list) result" where
  "compose_body [] st = Inr []"
| "compose_body (s # ss) st =
     (case map_of (objects st) s of
        None \<Rightarrow> Inl (NotFound s)
      | Some (v, d, t) \<Rightarrow> (case compose_body ss st of Inl e \<Rightarrow> Inl e | Inr r \<Rightarrow> Inr (d @ r)))"

definition mem_compose ::
  "nat \<Rightarrow> string \<Rightarrow> string list \<Rightarrow> put_mode \<Rightarrow> 'a list mem_store \<Rightarrow>
   (store_error, object_meta) result \<times> 'a list mem_store" where
  "mem_compose now dest sources mode st =
     (case compose_body sources st of Inl e \<Rightarrow> (Inl e, st) | Inr d \<Rightarrow> mem_put now dest d mode st)"

definition under :: "string \<Rightarrow> 'b mem_store \<Rightarrow> (version \<times> 'b \<times> nat) btree" where
  "under pfx st = takeWhile (\<lambda>(k, e). starts_with pfx k) (bt_from pfx (objects st))"

definition mem_list :: "string \<Rightarrow> string option \<Rightarrow> ('b :: size) mem_store \<Rightarrow> object_meta list" where
  "mem_list pfx start_after st =
     map (\<lambda>(k, v, d, t). \<lparr>meta_key = k, meta_size = size d, meta_version = v, last_modified = t\<rparr>)
       (filter (\<lambda>(k, e). case start_after of None \<Rightarrow> True | Some s \<Rightarrow> s < k) (under pfx st))"

text \<open>\<open>rest.find('/')\<close> cuts the first segment below the prefix; the result passes through \<open>Vec::dedup\<close>.\<close>

definition dir_below :: "string \<Rightarrow> string \<Rightarrow> string option" where
  "dir_below pfx k =
     (let rest = drop (length pfx) k; seg = takeWhile (\<lambda>c. c \<noteq> CHR ''/'') rest
      in if CHR ''/'' \<in> set rest then Some (pfx @ seg @ ''/'') else None)"

definition mem_list_prefixes :: "string \<Rightarrow> 'b mem_store \<Rightarrow> string list" where
  "mem_list_prefixes pfx st = remdups_adj (List.map_filter (\<lambda>(k, e). dir_below pfx k) (under pfx st))"

section \<open>Prefixed stores (lib.rs)\<close>

definition full :: "string \<Rightarrow> string \<Rightarrow> string" where
  "full pfx key = pfx @ key"

definition strip_prefix :: "string \<Rightarrow> string \<Rightarrow> string" where
  "strip_prefix pfx k = (if starts_with pfx k then drop (length pfx) k else k)"

definition strip :: "string \<Rightarrow> object_meta \<Rightarrow> object_meta" where
  "strip pfx meta = meta\<lparr>meta_key := strip_prefix pfx (meta_key meta)\<rparr>"

definition pre_get ::
  "string \<Rightarrow> (nat \<Rightarrow> nat \<Rightarrow> 'b \<Rightarrow> 'b) \<Rightarrow> string \<Rightarrow> get_options \<Rightarrow> ('b :: size) mem_store \<Rightarrow> (store_error, 'b get_result) result" where
  "pre_get pfx part key opts st =
     (case mem_get part (full pfx key) opts st of
        Inr (Object meta body) \<Rightarrow> Inr (Object (strip pfx meta) body)
      | Inr (NotModified v) \<Rightarrow> Inr (NotModified v)
      | Inl e \<Rightarrow> Inl e)"

definition pre_head :: "string \<Rightarrow> string \<Rightarrow> ('b :: size) mem_store \<Rightarrow> object_meta option" where
  "pre_head pfx key st = map_option (strip pfx) (mem_head (full pfx key) st)"

definition pre_put ::
  "string \<Rightarrow> nat \<Rightarrow> string \<Rightarrow> ('b :: size) \<Rightarrow> put_mode \<Rightarrow> 'b mem_store \<Rightarrow> (store_error, object_meta) result \<times> 'b mem_store" where
  "pre_put pfx now key data mode st =
     (case mem_put now (full pfx key) data mode st of
        (Inr m, st') \<Rightarrow> (Inr (strip pfx m), st')
      | (Inl e, st') \<Rightarrow> (Inl e, st'))"

definition pre_delete ::
  "string \<Rightarrow> string \<Rightarrow> version option \<Rightarrow> 'b mem_store \<Rightarrow> (store_error, unit) result \<times> 'b mem_store" where
  "pre_delete pfx key if_version st = mem_delete (full pfx key) if_version st"

definition pre_list :: "string \<Rightarrow> string \<Rightarrow> string option \<Rightarrow> ('b :: size) mem_store \<Rightarrow> object_meta list" where
  "pre_list pfx p start_after st =
     map (strip pfx) (mem_list (full pfx p) (map_option (full pfx) start_after) st)"

definition pre_list_prefixes :: "string \<Rightarrow> string \<Rightarrow> 'b mem_store \<Rightarrow> string list" where
  "pre_list_prefixes pfx p st = map (strip_prefix pfx) (mem_list_prefixes (full pfx p) st)"

definition pre_compose ::
  "string \<Rightarrow> nat \<Rightarrow> string \<Rightarrow> string list \<Rightarrow> put_mode \<Rightarrow> 'a list mem_store \<Rightarrow>
   (store_error, object_meta) result \<times> 'a list mem_store" where
  "pre_compose pfx now dest sources mode st =
     (case mem_compose now (full pfx dest) (map (full pfx) sources) mode st of
        (Inr m, st') \<Rightarrow> (Inr (strip pfx m), st')
      | (Inl e, st') \<Rightarrow> (Inl e, st'))"

section \<open>Convenience reads (lib.rs, ObjectStoreExt)\<close>

text \<open>\<open>GetResult::bytes\<close>; the reads take the \<open>get\<close> of the store they extend.\<close>

fun result_bytes :: "'b get_result \<Rightarrow> (object_meta \<times> 'b) option" where
  "result_bytes (NotModified v) = None"
| "result_bytes (Object meta body) = Some (meta, body)"

definition get_bytes ::
  "(get_options \<Rightarrow> (store_error, 'b get_result) result) \<Rightarrow> (store_error, (object_meta \<times> 'b) option) result" where
  "get_bytes get =
     (case get default_get of
        Inr r \<Rightarrow> Inr (result_bytes r)
      | Inl (NotFound k) \<Rightarrow> Inr None
      | Inl e \<Rightarrow> Inl e)"

definition get_if_changed ::
  "(get_options \<Rightarrow> (store_error, 'b get_result) result) \<Rightarrow> version \<Rightarrow>
   (store_error, (object_meta \<times> 'b) option) result" where
  "get_if_changed get known =
     (case get (default_get\<lparr>if_none_match := Some known\<rparr>) of Inr r \<Rightarrow> Inr (result_bytes r) | Inl e \<Rightarrow> Inl e)"

section \<open>The interface\<close>

text \<open>What a store holds at a key, and when a conditional write applies.\<close>

fun admits :: "put_mode \<Rightarrow> (version \<times> 'b) option \<Rightarrow> bool" where
  "admits Overwrite o' = True"
| "admits Create o' = (o' = None)"
| "admits (Update v) o' = (\<exists>b. o' = Some (v, b))"

text \<open>
  A compare-and-swap store: a put applies exactly when its mode admits the object's current
  version, changes that object only, and gives it a version no object had; a conditional delete
  removes exactly the named version. \<open>room\<close> says that the version counter has not run out.
\<close>

locale cas_store =
  fixes view :: "'s \<Rightarrow> string \<Rightarrow> (version \<times> 'b) option"
    and put :: "string \<Rightarrow> 'b \<Rightarrow> put_mode \<Rightarrow> 's \<Rightarrow> (store_error, object_meta) result \<times> 's"
    and del :: "string \<Rightarrow> version option \<Rightarrow> 's \<Rightarrow> (store_error, unit) result \<times> 's"
    and valid :: "'s \<Rightarrow> bool" and room :: "'s \<Rightarrow> bool"
  assumes put_valid: "valid s \<Longrightarrow> room s \<Longrightarrow> valid (snd (put k b m s))"
    and put_applies: "valid s \<Longrightarrow> room s \<Longrightarrow> admits m (view s k) \<Longrightarrow>
      \<exists>meta. fst (put k b m s) = Inr meta \<and> view (snd (put k b m s)) = (view s)(k \<mapsto> (meta_version meta, b)) \<and>
        (\<forall>k' v b'. view s k' = Some (v, b') \<longrightarrow> v \<noteq> meta_version meta)"
    and put_refused: "\<not> admits m (view s k) \<Longrightarrow>
      snd (put k b m s) = s \<and> (\<exists>k'. fst (put k b m s) = Inl (PreconditionFailed k' (map_option fst (view s k))))"
    and del_valid: "valid s \<Longrightarrow> valid (snd (del k w s))"
    and del_view: "valid s \<Longrightarrow> view (snd (del k w s)) =
      (if w = None \<or> (\<exists>v b. view s k = Some (v, b) \<and> w = Some v) then (view s)(k := None) else view s)"
begin

lemma put_ok_iff: "valid s \<Longrightarrow> room s \<Longrightarrow> (\<exists>meta. fst (put k b m s) = Inr meta) \<longleftrightarrow> admits m (view s k)"
  using put_applies [of s m k b] put_refused [of m s k b] by (cases "admits m (view s k)") auto

lemma put_other: "valid s \<Longrightarrow> room s \<Longrightarrow> k' \<noteq> k \<Longrightarrow> view (snd (put k b m s)) k' = view s k'"
  using put_applies [of s m k b] put_refused [of m s k b] by (cases "admits m (view s k)") auto

text \<open>Of two writers that read the same version, the first wins and the second is refused.\<close>

lemma cas_second_loses:
  assumes "valid s" "room s" "view s k = Some (v, b0)"
  shows "\<not> admits (Update v) (view (snd (put k b (Update v) s)) k)"
  using put_applies [of s "Update v" k b] assms by fastforce

lemma create_second_loses:
  assumes "valid s" "room s" "view s k = None"
  shows "\<not> admits Create (view (snd (put k b Create s)) k)"
  using put_applies [of s Create k b] assms by fastforce

lemma del_other: "valid s \<Longrightarrow> k' \<noteq> k \<Longrightarrow> view (snd (del k w s)) k' = view s k'"
  by (simp add: del_view)

end

section \<open>The in-memory store keeps the interface's laws\<close>

text \<open>Keys are in order, and every version in use was given out before.\<close>

definition mem_ok :: "'b mem_store \<Rightarrow> bool" where
  "mem_ok st \<longleftrightarrow> sorted_wrt (<) (map fst (objects st)) \<and>
     (\<forall>(k, v, d, t) \<in> set (objects st). \<exists>n. v = nat_str n \<and> n \<le> unat (counter st))"

definition mem_room :: "'b mem_store \<Rightarrow> bool" where
  "mem_room st \<longleftrightarrow> unat (counter st) < 2 ^ 64 - 1"

definition mem_view :: "'b mem_store \<Rightarrow> string \<Rightarrow> (version \<times> 'b) option" where
  "mem_view st k = map_option (\<lambda>(v, d, t). (v, d)) (map_of (objects st) k)"

lemma mem_new_ok: "mem_ok mem_new" "mem_room mem_new" "mem_view mem_new k = None"
  by (simp_all add: mem_new_def mem_ok_def mem_room_def mem_view_def)

lemma counter_step: "mem_room st \<Longrightarrow> unat (counter st + 1) = unat (counter st) + 1"
  unfolding mem_room_def by (subst unat_word_ariths) simp

lemma mem_write_ok:
  assumes "mem_ok st" "mem_room st"
  shows "mem_ok (st\<lparr>objects := bt_insert k (next_version st, d, now) (objects st), counter := counter st + 1\<rparr>)"
  using assms counter_step [OF assms(2)]
  by (auto simp: mem_ok_def sorted_bt_insert next_version_def dest!: in_set_bt_insert)
     (force intro: exI [of _ "unat (counter st) + 1"])+

lemma mem_write_view:
  assumes "mem_ok st"
  shows "mem_view (st\<lparr>objects := bt_insert k (v, d, now) (objects st), counter := c\<rparr>) = (mem_view st)(k \<mapsto> (v, d))"
  using assms by (auto simp: mem_view_def mem_ok_def map_of_bt_insert fun_eq_iff)

lemma next_version_fresh:
  assumes "mem_ok st" "mem_room st" "mem_view st k = Some (v, d)"
  shows "v \<noteq> next_version st"
proof -
  obtain t where "(k, v, d, t) \<in> set (objects st)" using assms(3) by (auto simp: mem_view_def dest: map_of_SomeD)
  then obtain n where "v = nat_str n" "n \<le> unat (counter st)" using assms(1) by (fastforce simp: mem_ok_def)
  then show ?thesis using counter_step [OF assms(2)] by (simp add: next_version_def nat_str_inject)
qed

lemma mem_put_eq:
  "mem_put now k d m st =
     (if admits m (mem_view st k)
      then (Inr \<lparr>meta_key = k, meta_size = size d, meta_version = next_version st, last_modified = now\<rparr>,
            st\<lparr>objects := bt_insert k (next_version st, d, now) (objects st), counter := counter st + 1\<rparr>)
      else (Inl (PreconditionFailed k (map_option fst (mem_view st k))), st))"
  by (cases m; cases "map_of (objects st) k") (auto simp: mem_put_def mem_view_def Let_def)

lemma mem_delete_eq:
  "mem_delete k w st =
     (case mem_view st k of
        None \<Rightarrow> (if w = None then Inr () else Inl (NotFound k), st)
      | Some (v, d) \<Rightarrow>
          if w = None \<or> w = Some v then (Inr (), st\<lparr>objects := bt_remove k (objects st)\<rparr>)
          else (Inl (PreconditionFailed k (Some v)), st))"
  by (cases w; cases "map_of (objects st) k") (auto simp: mem_delete_def mem_view_def)

lemma mem_delete_ok: "mem_ok st \<Longrightarrow> mem_ok (snd (mem_delete k w st))"
  by (auto simp: mem_delete_eq mem_ok_def sorted_bt_remove split: option.splits) (auto simp: bt_remove_def)

lemma mem_delete_view:
  "mem_view (snd (mem_delete k w st)) =
     (if w = None \<or> (\<exists>v b. mem_view st k = Some (v, b) \<and> w = Some v) then (mem_view st)(k := None) else mem_view st)"
  by (auto simp: mem_delete_eq map_of_bt_remove split: option.splits) (auto simp: mem_view_def map_of_bt_remove fun_eq_iff)

interpretation mem: cas_store mem_view "mem_put now" mem_delete mem_ok mem_room for now
proof
  fix s :: "('b :: size) mem_store" and k b m w
  show "mem_ok s \<Longrightarrow> mem_room s \<Longrightarrow> mem_ok (snd (mem_put now k b m s))"
    by (simp add: mem_put_eq mem_write_ok)
  show "mem_ok s \<Longrightarrow> mem_room s \<Longrightarrow> admits m (mem_view s k) \<Longrightarrow>
      \<exists>meta. fst (mem_put now k b m s) = Inr meta \<and>
        mem_view (snd (mem_put now k b m s)) = (mem_view s)(k \<mapsto> (meta_version meta, b)) \<and>
        (\<forall>k' v b'. mem_view s k' = Some (v, b') \<longrightarrow> v \<noteq> meta_version meta)"
    by (auto simp: mem_put_eq mem_write_view dest: next_version_fresh)
  show "\<not> admits m (mem_view s k) \<Longrightarrow> snd (mem_put now k b m s) = s \<and>
      (\<exists>k'. fst (mem_put now k b m s) = Inl (PreconditionFailed k' (map_option fst (mem_view s k))))"
    by (simp add: mem_put_eq)
  show "mem_ok s \<Longrightarrow> mem_ok (snd (mem_delete k w s))" by (rule mem_delete_ok)
  show "mem_ok s \<Longrightarrow> mem_view (snd (mem_delete k w s)) =
      (if w = None \<or> (\<exists>v b. mem_view s k = Some (v, b) \<and> w = Some v) then (mem_view s)(k := None) else mem_view s)"
    by (rule mem_delete_view)
qed

text \<open>A prefixed store is a store of its own: what its clients see are the objects below the prefix.\<close>

definition pre_view :: "string \<Rightarrow> 'b mem_store \<Rightarrow> string \<Rightarrow> (version \<times> 'b) option" where
  "pre_view pfx st k = mem_view st (full pfx k)"

lemma full_inject [simp]: "full pfx k = full pfx k' \<longleftrightarrow> k = k'"
  by (simp add: full_def)

lemma strip_full [simp]: "strip_prefix pfx (full pfx k) = k"
  by (simp add: strip_prefix_def full_def)

lemma meta_version_strip [simp]: "meta_version (strip pfx m) = meta_version m"
  by (simp add: strip_def)

lemma pre_put_eq:
  "pre_put pfx now k d m st =
     (case mem_put now (full pfx k) d m st of (r, st') \<Rightarrow> (map_sum id (strip pfx) r, st'))"
  by (simp add: pre_put_def split: prod.split sum.split)

lemma snd_pre_put: "snd (pre_put pfx now k d m st) = snd (mem_put now (full pfx k) d m st)"
  by (simp add: pre_put_eq split: prod.split)

lemma fst_pre_put: "fst (pre_put pfx now k d m st) = map_sum id (strip pfx) (fst (mem_put now (full pfx k) d m st))"
  by (simp add: pre_put_eq split: prod.split)

interpretation pre: cas_store "pre_view pfx" "pre_put pfx now" "pre_delete pfx" mem_ok mem_room for pfx now
proof
  fix s :: "('b :: size) mem_store" and k b m w
  show "mem_ok s \<Longrightarrow> mem_room s \<Longrightarrow> mem_ok (snd (pre_put pfx now k b m s))"
    unfolding snd_pre_put by (rule mem.put_valid)
  show "\<exists>meta. fst (pre_put pfx now k b m s) = Inr meta \<and>
        pre_view pfx (snd (pre_put pfx now k b m s)) = (pre_view pfx s)(k \<mapsto> (meta_version meta, b)) \<and>
        (\<forall>k' v b'. pre_view pfx s k' = Some (v, b') \<longrightarrow> v \<noteq> meta_version meta)"
    if ok: "mem_ok s" "mem_room s" and adm: "admits m (pre_view pfx s k)"
  proof -
    obtain meta where "fst (mem_put now (full pfx k) b m s) = Inr meta"
      "mem_view (snd (mem_put now (full pfx k) b m s)) = (mem_view s)(full pfx k \<mapsto> (meta_version meta, b))"
      "\<forall>k' v b'. mem_view s k' = Some (v, b') \<longrightarrow> v \<noteq> meta_version meta"
      using mem.put_applies [OF ok adm [unfolded pre_view_def]] by blast
    then show ?thesis
      by (intro exI [of _ "strip pfx meta"]) (auto simp: fst_pre_put snd_pre_put pre_view_def fun_eq_iff)
  qed
  show "\<not> admits m (pre_view pfx s k) \<Longrightarrow> snd (pre_put pfx now k b m s) = s \<and>
      (\<exists>k'. fst (pre_put pfx now k b m s) = Inl (PreconditionFailed k' (map_option fst (pre_view pfx s k))))"
    using mem.put_refused [of m s "full pfx k" now b] by (auto simp: fst_pre_put snd_pre_put pre_view_def)
  show "mem_ok s \<Longrightarrow> mem_ok (snd (pre_delete pfx k w s))"
    unfolding pre_delete_def by (rule mem.del_valid)
  show "mem_ok s \<Longrightarrow> pre_view pfx (snd (pre_delete pfx k w s)) =
      (if w = None \<or> (\<exists>v b. pre_view pfx s k = Some (v, b) \<and> w = Some v) then (pre_view pfx s)(k := None) else pre_view pfx s)"
    by (auto simp: pre_delete_def pre_view_def mem.del_view fun_eq_iff)
qed

section \<open>Versions are never reused\<close>

text \<open>
  A client that holds a version compares it with the current one later; this is meaningful because
  a version, once issued, is never issued again. Histories of operations on a store, by any number
  of clients, are lists of operations.
\<close>

datatype 'b store_op = PutOp nat string 'b put_mode | DelOp string "version option"

locale cas_history = cas_store view "put now" del valid room
  for view :: "'s \<Rightarrow> string \<Rightarrow> (version \<times> 'b) option"
    and put :: "nat \<Rightarrow> string \<Rightarrow> 'b \<Rightarrow> put_mode \<Rightarrow> 's \<Rightarrow> (store_error, object_meta) result \<times> 's"
    and del :: "string \<Rightarrow> version option \<Rightarrow> 's \<Rightarrow> (store_error, unit) result \<times> 's"
    and valid :: "'s \<Rightarrow> bool" and room :: "'s \<Rightarrow> bool" and now :: nat +
  fixes issued :: "'s \<Rightarrow> version set"
  assumes view_issued: "valid s \<Longrightarrow> view s k = Some (v, b) \<Longrightarrow> v \<in> issued s"
    and put_issues: "valid s \<Longrightarrow> room s \<Longrightarrow> fst (put now k b m s) = Inr meta \<Longrightarrow>
      meta_version meta \<notin> issued s \<and> issued (snd (put now k b m s)) = insert (meta_version meta) (issued s)"
    and put_refused_issues: "fst (put now k b m s) = Inl e \<Longrightarrow> issued (snd (put now k b m s)) = issued s"
    and del_issues: "issued (snd (del k w s)) = issued s"
begin

lemma put_result:
  assumes "valid s" "room s"
  obtains (applied) meta where "fst (put now k b m s) = Inr meta" "admits m (view s k)"
      "view (snd (put now k b m s)) = (view s)(k \<mapsto> (meta_version meta, b))" "meta_version meta \<notin> issued s"
      "issued (snd (put now k b m s)) = insert (meta_version meta) (issued s)"
    | (refused) k' where "fst (put now k b m s) = Inl (PreconditionFailed k' (map_option fst (view s k)))"
      "\<not> admits m (view s k)" "snd (put now k b m s) = s"
  using put_applies [OF assms, of m k b] put_refused [of m s k b] put_issues [OF assms]
  by (cases "admits m (view s k)") blast+

lemma put_keeps_version:
  assumes "valid s" "room s" "v \<in> issued s" "view (snd (put now k b m s)) k' = Some (v, c)"
  shows "view s k' = Some (v, c)"
  using put_result [OF assms(1,2), of k b m] assms(3,4) by cases (auto split: if_splits)

lemma put_issued_mono: "valid s \<Longrightarrow> room s \<Longrightarrow> issued s \<subseteq> issued (snd (put now k b m s))"
  by (erule (1) put_result [of s k b m]) auto

end

text \<open>The versions the memory store has given out.\<close>

definition mem_issued :: "'b mem_store \<Rightarrow> version set" where
  "mem_issued st = nat_str ` {..unat (counter st)}"

interpretation mem_hist: cas_history mem_view mem_put mem_delete mem_ok mem_room now mem_issued for now
proof
  fix s :: "('b :: size) mem_store" and k v b m meta e w
  show "v \<in> mem_issued s" if "mem_ok s" "mem_view s k = Some (v, b)"
    using that by (fastforce simp: mem_view_def mem_ok_def mem_issued_def dest!: map_of_SomeD)
  show "meta_version meta \<notin> mem_issued s \<and> mem_issued (snd (mem_put now k b m s)) = insert (meta_version meta) (mem_issued s)"
    if "mem_ok s" "mem_room s" "fst (mem_put now k b m s) = Inr meta"
    using that counter_step [OF that(2)]
    by (auto simp: mem_put_eq mem_issued_def next_version_def nat_str_inject atMost_Suc split: if_splits)
  show "mem_issued (snd (mem_put now k b m s)) = mem_issued s" if "fst (mem_put now k b m s) = Inl e"
    using that by (auto simp: mem_put_eq split: if_splits)
  show "mem_issued (snd (mem_delete k w s)) = mem_issued s"
    by (auto simp: mem_delete_eq mem_issued_def split: option.splits)
qed

section \<open>Properties of the store\<close>

text \<open>
  The memory store is a compare-and-swap store. In a well-formed store whose version counter
  has room, a put succeeds exactly when its mode admits what the key holds; then the key holds the
  new content under a version that no object had, and every other key is untouched; otherwise the
  store is unchanged and the error reports the current version.
\<close>

theorem mem_put_compare_and_swap:
  assumes "mem_ok st" "mem_room st"
  shows "mem_ok (snd (mem_put now k d m st)) \<and>
    (if admits m (mem_view st k)
     then \<exists>meta. fst (mem_put now k d m st) = Inr meta \<and>
        mem_view (snd (mem_put now k d m st)) = (mem_view st)(k \<mapsto> (meta_version meta, d)) \<and>
        (\<forall>k' v b. mem_view st k' = Some (v, b) \<longrightarrow> v \<noteq> meta_version meta)
     else mem_put now k d m st = (Inl (PreconditionFailed k (map_option fst (mem_view st k))), st))"
  using mem.put_valid [OF assms] mem.put_applies [OF assms, of m k now d] by (simp add: mem_put_eq)

theorem mem_put_compare_and_swap_witness:
  "mem_put 7 ''k'' ''b'' Create (snd (mem_put 5 ''k'' ''a'' Create mem_new)) =
     (Inl (PreconditionFailed ''k'' (Some ''1'')), snd (mem_put 5 ''k'' ''a'' Create mem_new))"
proof -
  let ?s = "snd (mem_put 5 ''k'' ''a'' Create mem_new) :: string mem_store"
  have one: "nat_str (Suc 0) = ''1''" by code_simp
  have s: "?s = \<lparr>objects = [(''k'', ''1'', ''a'', 5)], counter = 1\<rparr>"
    by (simp add: mem_put_eq mem_new_def mem_view_def next_version_def one)
  have "mem_ok ?s \<and> mem_room ?s"
  proof
    show "mem_ok ?s" by (rule mem.put_valid [OF mem_new_ok(1,2)])
    show "mem_room ?s" by (simp add: s mem_room_def)
  qed
  then show ?thesis
    using mem_put_compare_and_swap [of ?s 7 "''k''" "''b''" Create] by (simp add: s mem_view_def)
qed

subsection \<open>Listings\<close>

lemma takeWhile_filter_prefix:
  "sorted_wrt (<) (map fst es) \<Longrightarrow> (\<forall>e \<in> set es. pfx \<le> fst e) \<Longrightarrow>
   takeWhile (\<lambda>e. starts_with pfx (fst e)) es = filter (\<lambda>e. starts_with pfx (fst e)) es"
proof (induction es)
  case (Cons e es)
  show ?case
  proof (cases "starts_with pfx (fst e)")
    case False
    then have "\<forall>e' \<in> set es. \<not> starts_with pfx (fst e')"
      using Cons.prems past_prefix [of pfx "fst e"] by auto
    with False show ?thesis by simp
  qed (use Cons in simp)
qed simp

lemma from_prefix_filter:
  "sorted_wrt (<) (map fst es) \<Longrightarrow>
   takeWhile (\<lambda>e. starts_with pfx (fst e)) (dropWhile (\<lambda>e. fst e < pfx) es) = filter (\<lambda>e. starts_with pfx (fst e)) es"
proof (induction es)
  case (Cons e es)
  show ?case
  proof (cases "fst e < pfx")
    case True
    then show ?thesis using Cons starts_with_le [of pfx "fst e"] by auto
  next
    case False
    then have "\<forall>e' \<in> set (e # es). pfx \<le> fst e'" using Cons.prems by fastforce
    with False show ?thesis using takeWhile_filter_prefix [OF Cons.prems] by simp
  qed
qed simp

lemma under_filter: "mem_ok st \<Longrightarrow> under pfx st = filter (\<lambda>e. starts_with pfx (fst e)) (objects st)"
  using from_prefix_filter [of "objects st" pfx]
  by (simp add: under_def bt_from_def mem_ok_def case_prod_unfold)

lemma mem_head_iff:
  "mem_ok st \<Longrightarrow> mem_head k st = Some m \<longleftrightarrow>
     (\<exists>v d t. (k, v, d, t) \<in> set (objects st) \<and>
        m = \<lparr>meta_key = k, meta_size = size d, meta_version = v, last_modified = t\<rparr>)"
proof -
  assume "mem_ok st"
  then have "distinct (map fst (objects st))" by (simp add: mem_ok_def strict_sorted_iff)
  then show ?thesis by (auto simp: mem_head_def map_of_eq_Some_iff split: option.splits)
qed

text \<open>
  A listing is complete, exact and in order. It names precisely the keys in the store that
  start with the prefix and come after the given key, each once, in increasing byte order, with the
  size and version the store holds.
\<close>

theorem mem_list_exact:
  assumes "mem_ok st"
  shows "sorted_wrt (<) (map meta_key (mem_list pfx start_after st)) \<and>
    (\<forall>m. m \<in> set (mem_list pfx start_after st) \<longleftrightarrow>
       mem_head (meta_key m) st = Some m \<and> starts_with pfx (meta_key m) \<and>
       (case start_after of None \<Rightarrow> True | Some s \<Rightarrow> s < meta_key m))"
proof
  let ?f = "\<lambda>(k, v, d, t). \<lparr>meta_key = k, meta_size = size d, meta_version = v, last_modified = t\<rparr>"
  have keys: "map meta_key (map ?f es) = map fst es" for es by (induction es) auto
  have sorted: "sorted_wrt (<) (map fst (objects st))" using assms by (simp add: mem_ok_def)
  show "sorted_wrt (<) (map meta_key (mem_list pfx start_after st))"
    using sorted unfolding mem_list_def keys under_filter [OF assms]
    by (simp add: sorted_wrt_map sorted_wrt_filter)
  show "\<forall>m. m \<in> set (mem_list pfx start_after st) \<longleftrightarrow>
       mem_head (meta_key m) st = Some m \<and> starts_with pfx (meta_key m) \<and>
       (case start_after of None \<Rightarrow> True | Some s \<Rightarrow> s < meta_key m)"
    unfolding mem_list_def under_filter [OF assms] mem_head_iff [OF assms]
    by (cases start_after; simp add: image_iff case_prod_unfold; force)
qed

theorem mem_list_exact_witness:
  "\<lparr>meta_key = ''p/b'', meta_size = 1, meta_version = ''2'', last_modified = 0\<rparr> \<in>
     set (mem_list ''p/'' (Some ''p/a'') \<lparr>objects = [(''p/a'', ''1'', ''y'', 0), (''p/b'', ''2'', ''x'', 0)], counter = 2\<rparr>)"
proof -
  let ?s = "\<lparr>objects = [(''p/a'', ''1'', ''y'', 0), (''p/b'', ''2'', ''x'', 0)], counter = 2\<rparr>"
  have "nat_str 1 = ''1''" "nat_str 2 = ''2''" by code_simp+
  then have "mem_ok ?s" by (auto simp: mem_ok_def intro: exI [of _ 1] exI [of _ 2])
  then show ?thesis
    using mem_list_exact [of ?s "''p/''" "Some ''p/a''"] by (simp add: mem_head_def)
qed

subsection \<open>Directories\<close>

lemma dir_below_iff:
  "starts_with pfx k \<Longrightarrow> dir_below pfx k = Some d \<longleftrightarrow>
     (\<exists>seg rest. CHR ''/'' \<notin> set seg \<and> d = pfx @ seg @ ''/'' \<and> k = d @ rest)"
proof -
  assume "starts_with pfx k"
  then obtain r where k: "k = pfx @ r" by (auto simp: starts_with_iff)
  let ?P = "\<lambda>c. c \<noteq> CHR ''/''"
  have "\<exists>rest. r = takeWhile ?P r @ ''/'' @ rest" if "CHR ''/'' \<in> set r"
  proof -
    have "dropWhile ?P r \<noteq> []" using that by simp
    then have "dropWhile ?P r = CHR ''/'' # tl (dropWhile ?P r)" using hd_dropWhile [of ?P r] by (cases "dropWhile ?P r") auto
    then show ?thesis using takeWhile_dropWhile_id [of ?P r] by (metis append_Cons append_Nil)
  qed
  moreover have "CHR ''/'' \<notin> set (takeWhile ?P r)" by (auto dest: set_takeWhileD)
  moreover have "r = seg @ ''/'' @ rest \<Longrightarrow> CHR ''/'' \<notin> set seg \<Longrightarrow> takeWhile ?P r = seg" for seg rest
    by (induction seg arbitrary: r) auto
  ultimately show ?thesis by (auto simp: dir_below_def k Let_def)
qed

lemma dir_below_of:
  "starts_with pfx k \<and> dir_below pfx k = Some d \<longleftrightarrow>
     (\<exists>seg. CHR ''/'' \<notin> set seg \<and> d = pfx @ seg @ ''/'' \<and> starts_with d k)"
proof (cases "starts_with pfx k")
  case True
  then show ?thesis unfolding dir_below_iff [OF True] starts_with_iff by blast
next
  case False
  then show ?thesis by (auto simp: starts_with_iff)
qed

text \<open>Byte order of two keys decides the order of their directories, since neither contains the other.\<close>

lemma less_append_same [simp]: "(p :: string) @ x < p @ y \<longleftrightarrow> x < y"
  by (induction p) auto

lemma le_append_same: "(p :: string) @ x \<le> p @ y \<longleftrightarrow> x \<le> y"
  by (induction p) auto

lemma dirs_in_order:
  assumes "CHR ''/'' \<notin> set a" "CHR ''/'' \<notin> set b" "(a @ ''/'' @ x :: string) < b @ ''/'' @ y"
  shows "a @ ''/'' \<le> b @ ''/''"
  using assms
proof (induction a arbitrary: b)
  case Nil
  then show ?case by (cases b) auto
next
  case (Cons c a)
  then show ?case by (cases b) (auto simp: le_less)
qed

lemma dirs_sorted:
  "sorted_wrt (<) (map fst es) \<Longrightarrow> \<forall>e \<in> set es. starts_with pfx (fst e) \<Longrightarrow>
   sorted (List.map_filter (\<lambda>e. dir_below pfx (fst e)) es)"
proof (induction es)
  case (Cons e es)
  have "d \<le> d'" if d: "dir_below pfx (fst e) = Some d" and e': "e' \<in> set es" and d': "dir_below pfx (fst e') = Some d'" for d d' e'
  proof -
    have lt: "fst e < fst e'" and sw: "starts_with pfx (fst e)" "starts_with pfx (fst e')"
      using Cons.prems e' by auto
    obtain s r where "CHR ''/'' \<notin> set s" "d = pfx @ s @ ''/''" "fst e = d @ r"
      using d [unfolded dir_below_iff [OF sw(1)]] by blast
    moreover obtain s' r' where "CHR ''/'' \<notin> set s'" "d' = pfx @ s' @ ''/''" "fst e' = d' @ r'"
      using d' [unfolded dir_below_iff [OF sw(2)]] by blast
    ultimately show ?thesis using lt dirs_in_order [of s s' r r'] by (simp add: le_append_same)
  qed
  then show ?case using Cons by (auto simp: List.map_filter_simps set_map_filter split: option.split)
qed (simp add: List.map_filter_simps)

lemma mem_view_dom: "(\<exists>v. mem_view st k = Some v) \<longleftrightarrow> k \<in> fst ` set (objects st)"
  using map_of_eq_None_iff [of "objects st" k] by (cases "map_of (objects st) k") (auto simp: mem_view_def)

text \<open>
  Directories are listed exactly and once. The entries are the directories just below the
  prefix that contain an object, in increasing order and without repetition, although the code
  drops only adjacent repetitions.
\<close>

theorem mem_list_prefixes_exact:
  assumes "mem_ok st"
  shows "sorted_wrt (<) (mem_list_prefixes pfx st) \<and>
    (\<forall>d. d \<in> set (mem_list_prefixes pfx st) \<longleftrightarrow>
       (\<exists>seg k v. CHR ''/'' \<notin> set seg \<and> d = pfx @ seg @ ''/'' \<and> mem_view st k = Some v \<and> starts_with d k))"
proof
  have srt: "sorted_wrt (<) (map fst (objects st))"
    using assms by (simp add: mem_ok_def)
  have eq: "mem_list_prefixes pfx st =
      remdups_adj (List.map_filter (\<lambda>e. dir_below pfx (fst e)) (filter (\<lambda>e. starts_with pfx (fst e)) (objects st)))"
    by (simp add: mem_list_prefixes_def under_filter [OF assms] case_prod_unfold)
  have "sorted (List.map_filter (\<lambda>e. dir_below pfx (fst e)) (filter (\<lambda>e. starts_with pfx (fst e)) (objects st)))"
    by (rule dirs_sorted) (use srt in \<open>auto simp: sorted_wrt_map sorted_wrt_filter\<close>)
  then show "sorted_wrt (<) (mem_list_prefixes pfx st)"
    unfolding eq strict_sorted_iff by (simp add: remdups_adj_sorted_distinct)
  show "\<forall>d. d \<in> set (mem_list_prefixes pfx st) \<longleftrightarrow>
       (\<exists>seg k v. CHR ''/'' \<notin> set seg \<and> d = pfx @ seg @ ''/'' \<and> mem_view st k = Some v \<and> starts_with d k)"
  proof
    fix d
    have "d \<in> set (mem_list_prefixes pfx st) \<longleftrightarrow>
        (\<exists>e \<in> set (objects st). starts_with pfx (fst e) \<and> dir_below pfx (fst e) = Some d)"
      unfolding eq remdups_adj_set set_map_filter set_filter by blast
    also have "\<dots> \<longleftrightarrow> (\<exists>k. (\<exists>v. mem_view st k = Some v) \<and> starts_with pfx k \<and> dir_below pfx k = Some d)"
      unfolding mem_view_dom by blast
    also have "\<dots> \<longleftrightarrow> (\<exists>seg k v. CHR ''/'' \<notin> set seg \<and> d = pfx @ seg @ ''/'' \<and> mem_view st k = Some v \<and> starts_with d k)"
      unfolding dir_below_of by blast
    finally show "d \<in> set (mem_list_prefixes pfx st) \<longleftrightarrow>
       (\<exists>seg k v. CHR ''/'' \<notin> set seg \<and> d = pfx @ seg @ ''/'' \<and> mem_view st k = Some v \<and> starts_with d k)" .
  qed
qed

theorem mem_list_prefixes_exact_witness:
  "''r/b/'' \<in> set (mem_list_prefixes ''r/'' \<lparr>objects = [(''r/a'', ''1'', ''y'', 0), (''r/b/c/d'', ''2'', ''x'', 0)], counter = 2\<rparr>)"
proof -
  let ?s = "\<lparr>objects = [(''r/a'', ''1'', ''y'', 0), (''r/b/c/d'', ''2'', ''x'', 0)], counter = 2\<rparr>"
  have "nat_str 1 = ''1''" "nat_str 2 = ''2''" by code_simp+
  then have "mem_ok ?s" by (auto simp: mem_ok_def intro: exI [of _ 1] exI [of _ 2])
  moreover have "mem_view ?s ''r/b/c/d'' = Some (''2'', ''x'')" by (simp add: mem_view_def)
  moreover have "starts_with ''r/b/'' ''r/b/c/d''" "CHR ''/'' \<notin> set ''b''" "''r/b/'' = ''r/'' @ ''b'' @ ''/''" by simp_all
  ultimately show ?thesis using mem_list_prefixes_exact [of ?s "''r/''"] by metis
qed

subsection \<open>Scopes\<close>

lemma scopes_apart: "\<not> starts_with p q \<Longrightarrow> \<not> starts_with q p \<Longrightarrow> full p k \<noteq> full q k'"
  by (auto simp: full_def starts_with_iff append_eq_append_conv2)

lemma mem_list_mem:
  assumes "mem_ok st"
  shows "(\<exists>m \<in> set (mem_list pfx None st). meta_key m = k) \<longleftrightarrow> starts_with pfx k \<and> (\<exists>v. mem_view st k = Some v)"
proof -
  have "meta_key ` set (mem_list pfx None st) = fst ` set (filter (\<lambda>e. starts_with pfx (fst e)) (objects st))"
    by (force simp: mem_list_def under_filter [OF assms] image_iff)
  then have "k \<in> meta_key ` set (mem_list pfx None st) \<longleftrightarrow> starts_with pfx k \<and> k \<in> fst ` set (objects st)" by auto
  then show ?thesis unfolding mem_view_dom by (auto simp: image_iff)
qed

text \<open>
  A prefix scopes a store. Two prefixes of which neither extends the other (two repositories'
  directories, say) are two stores: no write or delete through one changes what a client of the
  other sees, and a listing through a prefix names exactly the keys its client can read.
\<close>

theorem prefixed_isolated:
  assumes "mem_ok st" "mem_room st" "\<not> starts_with p q" "\<not> starts_with q p"
  shows "pre_view q (snd (pre_put p now k d m st)) = pre_view q st \<and>
    pre_view q (snd (pre_delete p k w st)) = pre_view q st \<and>
    meta_key ` set (pre_list q '''' None st) = {key. \<exists>v. pre_view q st key = Some v}"
proof (intro conjI)
  note apart = scopes_apart [OF assms(3,4)]
  show "pre_view q (snd (pre_put p now k d m st)) = pre_view q st"
    using mem.put_other [OF assms(1,2) apart [THEN not_sym]] by (auto simp: pre_view_def snd_pre_put fun_eq_iff)
  show "pre_view q (snd (pre_delete p k w st)) = pre_view q st"
    using apart [THEN not_sym] by (auto simp: pre_view_def pre_delete_def mem_delete_view fun_eq_iff)
  have "meta_key (strip q m) = key \<longleftrightarrow> meta_key m = full q key" if "m \<in> set (mem_list q None st)" for m key
    using that mem_list_mem [OF assms(1), of q "meta_key m"]
    by (auto simp: strip_def strip_prefix_def full_def starts_with_iff)
  then have "key \<in> meta_key ` set (pre_list q '''' None st) \<longleftrightarrow> (\<exists>m \<in> set (mem_list q None st). meta_key m = full q key)" for key
    unfolding pre_list_def by (simp add: full_def [of q "''''"] image_image image_iff) metis
  then show "meta_key ` set (pre_list q '''' None st) = {key. \<exists>v. pre_view q st key = Some v}"
    unfolding mem_list_mem [OF assms(1)] by (auto simp: pre_view_def full_def)
qed

theorem prefixed_isolated_witness:
  "pre_view ''repos/b/'' (snd (pre_put ''repos/a/'' 0 ''manifest.pb'' ''x'' Create mem_new)) = pre_view ''repos/b/'' mem_new"
  using prefixed_isolated [OF mem_new_ok(1,2), of "''repos/a/''" "''repos/b/''" 0 "''manifest.pb''" "''x''" Create None] by simp

end
