(* ===== verification/Coord.thy ===== *)
theory Coord
  imports Store
begin

text \<open>
  Coordination on an object store (\<^verbatim>\<open>crates/gitcask-store/src/coord.rs\<close>): reading a message with its
  version, the read-modify-write loop \<open>cas_update\<close>, and leases. The protobuf codec is a pair of
  parameters: \<open>enc\<close> and \<open>dec\<close> (\<open>None\<close> is a decoding error). What other clients do to the store
  between two requests of a call is an explicit list of operations, and the outcome of a request
  that fails in transport is an explicit fault. Times are in milliseconds.
\<close>

section \<open>Errors, interference, faults\<close>

datatype coord_error =
    CoordStore store_error
  | Decode
  | Aborted
  | LeaseLost
  | RetriesExhausted string nat

text \<open>What other clients do.\<close>

fun run_op :: "'b :: size mem_store \<Rightarrow> 'b store_op \<Rightarrow> 'b mem_store" where
  "run_op s (PutOp now k b m) = snd (mem_put now k b m s)"
| "run_op s (DelOp k w) = snd (mem_delete k w s)"

definition run_ops :: "'b :: size store_op list \<Rightarrow> 'b mem_store \<Rightarrow> 'b mem_store" where
  "run_ops ops s = foldl run_op s ops"

text \<open>A put answers, fails without an effect, or takes effect and its response is lost.\<close>

datatype put_fault = NoFault | NotSent store_error | LostResponse store_error

definition put_with ::
  "put_fault \<Rightarrow> nat \<Rightarrow> string \<Rightarrow> 'b :: size \<Rightarrow> put_mode \<Rightarrow> 'b mem_store \<Rightarrow> (store_error, object_meta) result \<times> 'b mem_store" where
  "put_with flt now k b m s =
     (case flt of
        NoFault \<Rightarrow> mem_put now k b m s
      | NotSent e \<Rightarrow> (Inl e, s)
      | LostResponse e \<Rightarrow> (Inl e, snd (mem_put now k b m s)))"

section \<open>Messages\<close>

definition plain_get :: "string \<Rightarrow> 'b :: size mem_store \<Rightarrow> get_options \<Rightarrow> (store_error, 'b get_result) result" where
  "plain_get key s opts = mem_get (\<lambda>_ _ d. d) key opts s"

definition decode_message ::
  "('b \<Rightarrow> 't option) \<Rightarrow> (object_meta \<times> 'b) option \<Rightarrow> (coord_error, (object_meta \<times> 't) option) result" where
  "decode_message dec found =
     (case found of
        None \<Rightarrow> Inr None
      | Some (meta, b) \<Rightarrow> (case dec b of None \<Rightarrow> Inl Decode | Some t \<Rightarrow> Inr (Some (meta, t))))"

definition get_message ::
  "('b :: size \<Rightarrow> 't option) \<Rightarrow> string \<Rightarrow> 'b mem_store \<Rightarrow> (coord_error, (object_meta \<times> 't) option) result" where
  "get_message dec key s =
     (case get_bytes (plain_get key s) of Inl e \<Rightarrow> Inl (CoordStore e) | Inr found \<Rightarrow> decode_message dec found)"

definition get_message_if_changed ::
  "('b :: size \<Rightarrow> 't option) \<Rightarrow> string \<Rightarrow> version \<Rightarrow> 'b mem_store \<Rightarrow> (coord_error, (object_meta \<times> 't) option) result" where
  "get_message_if_changed dec key known s =
     (case get_if_changed (plain_get key s) known of
        Inl (NotFound k) \<Rightarrow> Inr None
      | Inl e \<Rightarrow> Inl (CoordStore e)
      | Inr found \<Rightarrow> decode_message dec found)"

section \<open>The read-modify-write loop\<close>

text \<open>One turn of the loop: what happens before the read and between the read and the put, the time, the fault of the put.\<close>

record 'b turn =
  t_before :: "'b store_op list"
  t_between :: "'b store_op list"
  t_now :: nat
  t_fault :: put_fault

definition mode_for :: "(object_meta \<times> 't) option \<Rightarrow> put_mode" where
  "mode_for current = (case current of Some (meta, _) \<Rightarrow> Update (meta_version meta) | None \<Rightarrow> Create)"

function cas_loop ::
  "('b :: size \<Rightarrow> 't option) \<Rightarrow> ('t \<Rightarrow> 'b) \<Rightarrow> ('t option \<Rightarrow> (coord_error, 't option) result) \<Rightarrow> string \<Rightarrow> nat \<Rightarrow>
   (nat \<Rightarrow> 'b turn) \<Rightarrow> nat \<Rightarrow> 'b mem_store \<Rightarrow> (coord_error, (object_meta \<times> 't) option) result \<times> 'b mem_store" where
  "cas_loop dec enc f key max_retries turns attempts s =
     (let tn = turns attempts; s0 = run_ops (t_before tn) s
      in case get_message dec key s0 of
           Inl e \<Rightarrow> (Inl e, s0)
         | Inr current \<Rightarrow>
             (case f (map_option snd current) of
                Inl e \<Rightarrow> (Inl e, s0)
              | Inr None \<Rightarrow> (Inr None, s0)
              | Inr (Some new) \<Rightarrow>
                  (case put_with (t_fault tn) (t_now tn) key (enc new) (mode_for current) (run_ops (t_between tn) s0) of
                     (Inr meta, s2) \<Rightarrow> (Inr (Some (meta, new)), s2)
                   | (Inl (PreconditionFailed k v), s2) \<Rightarrow>
                       if attempts + 1 > max_retries then (Inl (RetriesExhausted key (attempts + 1)), s2)
                       else cas_loop dec enc f key max_retries turns (attempts + 1) s2
                   | (Inl (Retryable m), s2) \<Rightarrow>
                       if attempts + 1 > max_retries then (Inl (RetriesExhausted key (attempts + 1)), s2)
                       else cas_loop dec enc f key max_retries turns (attempts + 1) s2
                   | (Inl e, s2) \<Rightarrow> (Inl (CoordStore e), s2))))"
  by pat_completeness auto
termination by (relation "measure (\<lambda>(dec, enc, f, key, max_retries, turns, attempts, s). max_retries - attempts)") auto

declare cas_loop.simps [simp del]

definition cas_update ::
  "('b :: size \<Rightarrow> 't option) \<Rightarrow> ('t \<Rightarrow> 'b) \<Rightarrow> ('t option \<Rightarrow> (coord_error, 't option) result) \<Rightarrow> string \<Rightarrow> nat \<Rightarrow>
   (nat \<Rightarrow> 'b turn) \<Rightarrow> 'b mem_store \<Rightarrow> (coord_error, (object_meta \<times> 't) option) result \<times> 'b mem_store" where
  "cas_update dec enc f key max_retries turns s = cas_loop dec enc f key max_retries turns 0 s"

section \<open>Leases\<close>

record lease =
  lease_holder :: string
  lease_purpose :: string
  acquired_at :: "nat option"
  lease_expires_at :: "nat option"
  lease_epoch :: nat

definition LEASE_SKEW_TOLERANCE :: nat where
  "LEASE_SKEW_TOLERANCE = 2000"

definition make_lease :: "string \<Rightarrow> string \<Rightarrow> nat \<Rightarrow> nat \<Rightarrow> nat \<Rightarrow> lease" where
  "make_lease holder purpose now ttl epoch =
     \<lparr>lease_holder = holder, lease_purpose = purpose, acquired_at = Some now, lease_expires_at = Some (now + ttl), lease_epoch = epoch\<rparr>"

record lease_guard =
  guard_key :: string
  guard_holder :: string
  guard_purpose :: string
  guard_version :: version
  guard_expires_at :: nat
  guard_epoch :: nat
  released :: bool

text \<open>
  \<open>try_acquire\<close> in its two requests. After the read: nothing to do when the lease is held (within
  the tolerance), otherwise a put, over the version read or creating. After the put: a guard, or
  nothing when somebody else was faster.
\<close>

definition acquire_plan :: "string \<Rightarrow> string \<Rightarrow> nat \<Rightarrow> nat \<Rightarrow> (object_meta \<times> lease) option \<Rightarrow> (lease \<times> put_mode) option" where
  "acquire_plan holder purpose ttl now current =
     (case current of
        None \<Rightarrow> Some (make_lease holder purpose now ttl 0, Create)
      | Some (meta, existing) \<Rightarrow>
          (let expires_at = or_default 0 (lease_expires_at existing)
           in if expires_at + LEASE_SKEW_TOLERANCE \<le> now
              then Some (make_lease holder purpose now ttl (lease_epoch existing + 1), Update (meta_version meta))
              else None))"

definition new_guard :: "string \<Rightarrow> string \<Rightarrow> string \<Rightarrow> version \<Rightarrow> nat \<Rightarrow> nat \<Rightarrow> nat \<Rightarrow> lease_guard" where
  "new_guard key holder purpose ver now ttl epoch =
     \<lparr>guard_key = key, guard_holder = holder, guard_purpose = purpose, guard_version = ver,
      guard_expires_at = now + ttl, guard_epoch = epoch, released = False\<rparr>"

definition acquired ::
  "string \<Rightarrow> string \<Rightarrow> string \<Rightarrow> nat \<Rightarrow> nat \<Rightarrow> lease \<Rightarrow> (store_error, object_meta) result \<Rightarrow> (coord_error, lease_guard option) result" where
  "acquired key holder purpose ttl now l r =
     (case r of
        Inr meta \<Rightarrow> Inr (Some (new_guard key holder purpose (meta_version meta) now ttl (lease_epoch l)))
      | Inl (PreconditionFailed k v) \<Rightarrow> Inr None
      | Inl e \<Rightarrow> Inl (CoordStore e))"

definition try_acquire ::
  "('b :: size \<Rightarrow> lease option) \<Rightarrow> (lease \<Rightarrow> 'b) \<Rightarrow> string \<Rightarrow> string \<Rightarrow> string \<Rightarrow> nat \<Rightarrow> nat \<Rightarrow> 'b store_op list \<Rightarrow> put_fault \<Rightarrow>
   'b mem_store \<Rightarrow> (coord_error, lease_guard option) result \<times> 'b mem_store" where
  "try_acquire dec enc key holder purpose ttl now between flt s =
     (case get_message dec key s of
        Inl e \<Rightarrow> (Inl e, s)
      | Inr current \<Rightarrow>
          (case acquire_plan holder purpose ttl now current of
             None \<Rightarrow> (Inr None, s)
           | Some (l, mode) \<Rightarrow>
               (case put_with flt now key (enc l) mode (run_ops between s) of
                  (r, s') \<Rightarrow> (acquired key holder purpose ttl now l r, s'))))"

text \<open>
  \<open>acquire\<close> polls until its deadline. One poll: what others do before it, the wall clock it reads, what
  they do between its read and its put, the fault of the put, and the monotonic clock after it. The
  list bounds the polls; \<open>None\<close> means that it has run out while the loop is still going.
\<close>

record 'b poll =
  p_before :: "'b store_op list"
  p_now :: nat
  p_between :: "'b store_op list"
  p_fault :: put_fault
  p_after :: nat

fun acquire ::
  "('b :: size \<Rightarrow> lease option) \<Rightarrow> (lease \<Rightarrow> 'b) \<Rightarrow> string \<Rightarrow> string \<Rightarrow> string \<Rightarrow> nat \<Rightarrow> nat \<Rightarrow> 'b poll list \<Rightarrow>
   'b mem_store \<Rightarrow> ((coord_error, lease_guard option) result \<times> 'b mem_store) option" where
  "acquire dec enc key holder purpose ttl deadline [] s = None"
| "acquire dec enc key holder purpose ttl deadline (p # ps) s =
     (case try_acquire dec enc key holder purpose ttl (p_now p) (p_between p) (p_fault p) (run_ops (p_before p) s) of
        (Inr None, s') \<Rightarrow> if deadline \<le> p_after p then Some (Inr None, s') else acquire dec enc key holder purpose ttl deadline ps s'
      | r \<Rightarrow> Some r)"

text \<open>\<open>heartbeat\<close>: the epoch of the guard moves even when the put fails.\<close>

definition heartbeat ::
  "(lease \<Rightarrow> 'b :: size) \<Rightarrow> nat \<Rightarrow> nat \<Rightarrow> put_fault \<Rightarrow> lease_guard \<Rightarrow> 'b mem_store \<Rightarrow>
   (coord_error, unit) result \<times> lease_guard \<times> 'b mem_store" where
  "heartbeat enc ttl now flt g s =
     (let g1 = g\<lparr>guard_epoch := guard_epoch g + 1\<rparr>;
          l = make_lease (guard_holder g) (guard_purpose g) now ttl (guard_epoch g1)
      in case put_with flt now (guard_key g) (enc l) (Update (guard_version g)) s of
           (Inr meta, s') \<Rightarrow> (Inr (), g1\<lparr>guard_version := meta_version meta, guard_expires_at := now + ttl\<rparr>, s')
         | (Inl (PreconditionFailed k v), s') \<Rightarrow> (Inl LeaseLost, g1, s')
         | (Inl e, s') \<Rightarrow> (Inl (CoordStore e), g1, s'))"

text \<open>One turn of the background task of \<open>spawn_heartbeat\<close>: \<open>False\<close> when the task ends.\<close>

definition heartbeat_turn ::
  "(lease \<Rightarrow> 'b :: size) \<Rightarrow> nat \<Rightarrow> nat \<Rightarrow> put_fault \<Rightarrow> lease_guard \<Rightarrow> 'b mem_store \<Rightarrow> bool \<times> lease_guard \<times> 'b mem_store" where
  "heartbeat_turn enc ttl now flt g s =
     (if released g then (False, g, s)
      else case heartbeat enc ttl now flt g s of
             (Inr _, g', s') \<Rightarrow> (True, g', s')
           | (Inl LeaseLost, g', s') \<Rightarrow> (False, g'\<lparr>released := True\<rparr>, s')
           | (Inl e, g', s') \<Rightarrow> (True, g', s'))"

text \<open>\<open>release\<close>, and \<open>drop\<close>, which releases a guard that was not released (best effort).\<close>

definition release :: "lease_guard \<Rightarrow> 'b :: size mem_store \<Rightarrow> (coord_error, unit) result \<times> 'b mem_store" where
  "release g s =
     (case mem_delete (guard_key g) (Some (guard_version g)) s of
        (Inr _, s') \<Rightarrow> (Inr (), s')
      | (Inl (PreconditionFailed k v), s') \<Rightarrow> (Inr (), s')
      | (Inl (NotFound k), s') \<Rightarrow> (Inr (), s')
      | (Inl e, s') \<Rightarrow> (Inl (CoordStore e), s'))"

definition drop_guard :: "lease_guard \<Rightarrow> 'b :: size mem_store \<Rightarrow> 'b mem_store" where
  "drop_guard g s = (if released g then s else snd (mem_delete (guard_key g) (Some (guard_version g)) s))"

section \<open>Histories of a store\<close>

text \<open>Room for \<open>n\<close> more puts.\<close>

definition room_for :: "nat \<Rightarrow> 'b mem_store \<Rightarrow> bool" where
  "room_for n s \<longleftrightarrow> unat (counter s) + n < 2 ^ 64"

lemma room_for_room: "room_for (Suc n) s \<Longrightarrow> mem_room s"
  by (simp add: room_for_def mem_room_def)

lemma room_for_mono: "room_for n s \<Longrightarrow> m \<le> n \<Longrightarrow> room_for m s"
  by (simp add: room_for_def)

lemma mem_put_room: "room_for (Suc n) s \<Longrightarrow> room_for n (snd (mem_put now k b m s))"
  using counter_step [OF room_for_room, of n s] by (auto simp: room_for_def mem_put_eq)

lemma mem_delete_counter [simp]: "counter (snd (mem_delete k w s)) = counter s"
  by (auto simp: mem_delete_eq split: option.splits)

lemma mem_delete_issued [simp]: "mem_issued (snd (mem_delete k w s)) = mem_issued s"
  by (simp add: mem_issued_def)

text \<open>What every client may rely on after any operation of another: the state is well-formed, no version is taken back or reused.\<close>

definition store_later :: "'b :: size mem_store \<Rightarrow> 'b mem_store \<Rightarrow> bool" where
  "store_later s s' \<longleftrightarrow> mem_ok s' \<and> mem_issued s \<subseteq> mem_issued s' \<and>
     (\<forall>k v b. v \<in> mem_issued s \<longrightarrow> mem_view s' k = Some (v, b) \<longrightarrow> mem_view s k = Some (v, b))"

lemma store_later_refl: "mem_ok s \<Longrightarrow> store_later s s"
  by (simp add: store_later_def)

lemma store_later_trans: "store_later s s' \<Longrightarrow> store_later s' s'' \<Longrightarrow> store_later s s''"
  by (auto simp: store_later_def)

lemma put_later: "mem_ok s \<Longrightarrow> mem_room s \<Longrightarrow> store_later s (snd (mem_put now k b m s))"
  unfolding store_later_def
  using mem.put_valid mem_hist.put_issued_mono mem_hist.put_keeps_version by blast

lemma delete_later: "mem_ok s \<Longrightarrow> store_later s (snd (mem_delete k w s))"
  by (auto simp: store_later_def mem_delete_ok mem_delete_view split: if_splits)

lemma put_with_later: "mem_ok s \<Longrightarrow> mem_room s \<Longrightarrow> store_later s (snd (put_with flt now k b m s))"
  by (cases flt) (simp_all add: put_with_def put_later store_later_refl)

lemma run_op_later:
  assumes "mem_ok s" "room_for (Suc n) s"
  shows "store_later s (run_op s op) \<and> room_for n (run_op s op)"
  using assms put_later [OF assms(1) room_for_room [OF assms(2)]] delete_later [OF assms(1)] mem_put_room
  by (cases op) (auto simp: room_for_def)

lemma run_ops_later:
  "mem_ok s \<Longrightarrow> room_for (length ops + n) s \<Longrightarrow> store_later s (run_ops ops s) \<and> room_for n (run_ops ops s)"
proof (induction ops arbitrary: s)
  case (Cons op ops)
  have 1: "store_later s (run_op s op)" "room_for (length ops + n) (run_op s op)"
    using run_op_later [OF Cons.prems(1), of "length ops + n" op] Cons.prems(2) by simp_all
  then have "mem_ok (run_op s op)" by (simp add: store_later_def)
  then show ?case using Cons.IH [OF _ 1(2)] store_later_trans [OF 1(1)] by (simp add: run_ops_def)
qed (simp add: run_ops_def store_later_refl)

lemma run_ops_append: "run_ops (xs @ ys) s = run_ops ys (run_ops xs s)"
  by (simp add: run_ops_def)

section \<open>Reads\<close>

definition message_at :: "('b \<Rightarrow> 't option) \<Rightarrow> string \<Rightarrow> 'b :: size mem_store \<Rightarrow> 't option" where
  "message_at dec key s = (case mem_view s key of None \<Rightarrow> None | Some (v, b) \<Rightarrow> dec b)"

lemma get_message_view:
  "get_message dec key s =
     (case mem_view s key of
        None \<Rightarrow> Inr None
      | Some (v, b) \<Rightarrow>
          (case dec b of
             None \<Rightarrow> Inl Decode
           | Some t \<Rightarrow> Inr (Some (\<lparr>meta_key = key, meta_size = size b, meta_version = v,
                                  last_modified = snd (snd (the (map_of (objects s) key)))\<rparr>, t))))"
  by (auto simp: get_message_def get_bytes_def plain_get_def mem_get_def mem_view_def default_get_def decode_message_def
      split: option.splits)

lemma get_message_if_changed_view:
  "get_message_if_changed dec key known s =
     (if map_option fst (mem_view s key) = Some known then Inr None else get_message dec key s)"
  by (auto simp: get_message_if_changed_def get_if_changed_def get_message_def get_bytes_def plain_get_def mem_get_def
      mem_view_def default_get_def decode_message_def split: option.splits)

lemma get_message_cases:
  assumes "get_message dec key s = Inr current"
  obtains (absent) "current = None" "mem_view s key = None"
    | (found) meta t b where "current = Some (meta, t)" "mem_view s key = Some (meta_version meta, b)" "dec b = Some t"
proof (cases "mem_view s key")
  case None
  then show ?thesis using assms absent by (simp add: get_message_view)
next
  case (Some vb)
  obtain v b where vb: "vb = (v, b)" by force
  then obtain t where "dec b = Some t" using assms Some by (auto simp: get_message_view split: option.splits)
  then show ?thesis using assms Some vb found by (fastforce simp: get_message_view)
qed

section \<open>The loop is one atomic update\<close>

definition env_ops :: "(nat \<Rightarrow> 'b turn) \<Rightarrow> nat \<Rightarrow> 'b store_op list" where
  "env_ops turns n = concat (map (\<lambda>a. t_before (turns a) @ t_between (turns a)) [0..<n])"

lemma env_ops_Suc: "env_ops turns (Suc n) = env_ops turns n @ t_before (turns n) @ t_between (turns n)"
  by (simp add: env_ops_def)

lemma env_ops_length_mono: "m \<le> n \<Longrightarrow> length (env_ops turns m) \<le> length (env_ops turns n)"
  by (induction n) (auto simp: env_ops_Suc le_Suc_eq)

text \<open>A put that succeeds over what was read replaces exactly that, whatever happened in between.\<close>

lemma put_over_read:
  assumes "mem_ok s0" "store_later s0 s1" "mem_room s1" "get_message dec key s0 = Inr current"
    and "mem_put now key b (mode_for current) s1 = (Inr meta, s2)"
  shows "message_at dec key s1 = map_option snd current \<and> mem_view s2 = (mem_view s1)(key \<mapsto> (meta_version meta, b)) \<and>
    meta_version meta \<notin> mem_issued s1"
proof -
  have ok: "mem_ok s1" using assms(2) by (simp add: store_later_def)
  from ok assms(3) have put: "admits (mode_for current) (mem_view s1 key) \<and> mem_view s2 = (mem_view s1)(key \<mapsto> (meta_version meta, b)) \<and>
    meta_version meta \<notin> mem_issued s1"
    by (cases rule: mem_hist.put_result [of s1 now key b "mode_for current"]) (use assms(5) in simp_all)
  from assms(4) have "message_at dec key s1 = map_option snd current"
  proof (cases rule: get_message_cases)
    case absent
    then show ?thesis using put by (simp add: mode_for_def message_at_def)
  next
    case (found m t b0)
    then obtain b1 where "mem_view s1 key = Some (meta_version m, b1)" using put by (auto simp: mode_for_def)
    moreover have "meta_version m \<in> mem_issued s0" using mem_hist.view_issued [OF assms(1) found(2)] .
    ultimately have "mem_view s1 key = Some (meta_version m, b0)" using assms(2) found(2) unfolding store_later_def by fastforce
    then show ?thesis using found by (simp add: message_at_def)
  qed
  then show ?thesis using put by simp
qed

text \<open>What the loop leaves behind: other clients' operations and, when it reports a write, one update of the current value.\<close>

definition atomic_update ::
  "('b :: size \<Rightarrow> 't option) \<Rightarrow> ('t \<Rightarrow> 'b) \<Rightarrow> ('t option \<Rightarrow> (coord_error, 't option) result) \<Rightarrow> string \<Rightarrow> nat \<Rightarrow>
   (nat \<Rightarrow> 'b turn) \<Rightarrow> 'b mem_store \<Rightarrow> (coord_error, (object_meta \<times> 't) option) result \<times> 'b mem_store \<Rightarrow> bool" where
  "atomic_update dec enc f key max_retries turns s out \<longleftrightarrow>
     (\<exists>n \<le> max_retries. case out of
        (Inr (Some (meta, new)), s') \<Rightarrow>
          (let s1 = run_ops (env_ops turns (Suc n)) s
           in f (message_at dec key s1) = Inr (Some new) \<and>
              mem_view s' = (mem_view s1)(key \<mapsto> (meta_version meta, enc new)) \<and> meta_version meta \<notin> mem_issued s1)
      | (r, s') \<Rightarrow> s' = run_ops (env_ops turns n @ t_before (turns n)) s \<or> s' = run_ops (env_ops turns (Suc n)) s)"

definition no_lost :: "put_fault \<Rightarrow> bool" where
  "no_lost flt \<longleftrightarrow> (case flt of LostResponse e \<Rightarrow> False | _ \<Rightarrow> True)"

lemma put_with_no_lost:
  assumes "no_lost flt" "put_with flt now k b m s = (r, s')"
  shows "(\<exists>e. r = Inl e) \<and> s' = s \<or> mem_put now k b m s = (r, s') \<and> (\<exists>meta. r = Inr meta)"
  using assms by (cases flt; cases "admits m (mem_view s k)") (auto simp: no_lost_def put_with_def mem_put_eq)

lemma cas_loop_atomic:
  assumes "mem_ok s" "room_for (Suc (length (env_ops turns (Suc max_retries)))) s" "\<forall>n. no_lost (t_fault (turns n))"
    and "a \<le> max_retries"
  shows "atomic_update dec enc f key max_retries turns s
    (cas_loop dec enc f key max_retries turns a (run_ops (env_ops turns a) s))"
  using assms(4)
proof (induction "max_retries - a" arbitrary: a rule: less_induct)
  case less
  define tn s0 s1 where "tn = turns a" and "s0 = run_ops (t_before tn) (run_ops (env_ops turns a) s)" and "s1 = run_ops (t_between tn) s0"
  note defs = this
  have s0: "s0 = run_ops (env_ops turns a @ t_before tn) s" and s1: "s1 = run_ops (env_ops turns (Suc a)) s"
    by (simp_all add: defs run_ops_append env_ops_Suc)
  have len: "length (env_ops turns (Suc a)) \<le> length (env_ops turns (Suc max_retries))"
    using less.prems by (intro env_ops_length_mono) simp
  then have "room_for (length (env_ops turns a @ t_before tn) + Suc (length (t_between tn))) s"
    using assms(2) by (auto intro: room_for_mono simp: env_ops_Suc defs)
  then have ok0: "mem_ok s0" "room_for (Suc (length (t_between tn))) s0"
    using run_ops_later [OF assms(1), of "env_ops turns a @ t_before tn" "Suc (length (t_between tn))"] by (auto simp: s0 store_later_def)
  have l01: "store_later s0 s1" and room1: "room_for 1 s1"
    using run_ops_later [OF ok0(1), of "t_between tn" 1] ok0(2) by (simp_all add: defs(3))
  have retry: "atomic_update dec enc f key max_retries turns s (cas_loop dec enc f key max_retries turns (a + 1) s1)" if "a + 1 \<le> max_retries"
    using less.hyps [of "a + 1"] that by (simp add: s1)
  have quiet: "atomic_update dec enc f key max_retries turns s (Inl e, s')" "atomic_update dec enc f key max_retries turns s (Inr None, s')"
    if "s' = s0 \<or> s' = s1" for e s'
    using that less.prems by (auto simp: atomic_update_def s0 s1 tn_def intro!: exI [of _ a])
  show ?case
  proof (cases "get_message dec key s0")
    case (Inl e)
    then show ?thesis using quiet by (subst cas_loop.simps) (simp add: Let_def defs)
  next
    case (Inr current)
    show ?thesis
    proof (cases "f (map_option snd current)")
      case (Inl e)
      then show ?thesis using Inr quiet by (subst cas_loop.simps) (simp add: Let_def defs)
    next
      case new: (Inr new')
      show ?thesis
      proof (cases new')
        case None
        then show ?thesis using Inr new quiet by (subst cas_loop.simps) (simp add: Let_def defs)
      next
        case (Some new)
        obtain r s2 where put: "put_with (t_fault tn) (t_now tn) key (enc new) (mode_for current) s1 = (r, s2)" by force
        show ?thesis
        proof (cases r)
          case (Inr meta)
          then have "mem_put (t_now tn) key (enc new) (mode_for current) s1 = (Inr meta, s2)"
            using put_with_no_lost [OF _ put] assms(3) by (auto simp: tn_def)
          note w = put_over_read [OF ok0(1) l01 room_for_room [of 0] \<open>get_message dec key s0 = Inr current\<close> this]
          have "atomic_update dec enc f key max_retries turns s (Inr (Some (meta, new)), s2)"
            unfolding atomic_update_def using w room1 less.prems new Some by (intro exI [of _ a]) (simp add: Let_def s1)
          then show ?thesis using Inr put new Some \<open>get_message dec key s0 = Inr current\<close>
            by (subst cas_loop.simps) (simp add: Let_def defs)
        next
          case (Inl e)
          then have "s2 = s1" using put_with_no_lost [OF _ put] assms(3) by (auto simp: tn_def)
          then show ?thesis using Inl put new Some \<open>get_message dec key s0 = Inr current\<close> retry quiet
            by (subst cas_loop.simps) (cases e, auto simp: Let_def defs)
        qed
      qed
    qed
  qed
qed

text \<open>
  C6: \<open>cas_update\<close> is an atomic read-modify-write. Whatever other clients do to the store before
  and between its requests, and however often a request fails in transport without reaching the
  store, the call returns after at most \<open>max_retries\<close> retries; it reports a write only when, at the
  instant of that write, the stored message was exactly the one it applied \<open>f\<close> to, so no
  concurrent update is lost; and on every other outcome it wrote nothing.
\<close>

theorem cas_update_atomic:
  assumes "mem_ok s" "room_for (Suc (length (env_ops turns (Suc max_retries)))) s" "\<forall>n. no_lost (t_fault (turns n))"
  shows "atomic_update dec enc f key max_retries turns s (cas_update dec enc f key max_retries turns s)"
  using cas_loop_atomic [OF assms, of 0 dec enc f key] by (simp add: cas_update_def env_ops_def run_ops_def)

text \<open>Another client adds a character between the read and the first put; the loop's own character is added to that.\<close>

definition example_turns :: "nat \<Rightarrow> string turn" where
  "example_turns n = \<lparr>t_before = [], t_between = (if n = 0 then [PutOp 1 ''k'' ''a'' Overwrite] else []), t_now = 2, t_fault = NoFault\<rparr>"

theorem cas_update_atomic_witness:
  "atomic_update Some id (\<lambda>cur. Inr (Some (or_default [] cur @ ''b''))) ''k'' 3 example_turns mem_new
     (cas_update Some id (\<lambda>cur. Inr (Some (or_default [] cur @ ''b''))) ''k'' 3 example_turns mem_new) \<and>
   message_at Some ''k'' (snd (cas_update Some id (\<lambda>cur. Inr (Some (or_default [] cur @ ''b''))) ''k'' 3 example_turns mem_new)) = Some ''ab''"
proof
  have "length (env_ops example_turns (Suc 3)) = 1" by code_simp
  then have "room_for (Suc (length (env_ops example_turns (Suc 3)))) (mem_new :: string mem_store)"
    by (simp add: room_for_def mem_new_def)
  then show "atomic_update Some id (\<lambda>cur. Inr (Some (or_default [] cur @ ''b''))) ''k'' 3 example_turns mem_new
     (cas_update Some id (\<lambda>cur. Inr (Some (or_default [] cur @ ''b''))) ''k'' 3 example_turns mem_new)"
    by (intro cas_update_atomic mem_new_ok) (simp_all add: no_lost_def example_turns_def)
  show "message_at Some ''k'' (snd (cas_update Some id (\<lambda>cur. Inr (Some (or_default [] cur @ ''b''))) ''k'' 3 example_turns mem_new)) = Some ''ab''"
    by code_simp
qed

section \<open>Competing for a lease\<close>

text \<open>
  Any number of processes use one lease key. A process reads the lease, later puts its plan, renews,
  releases; time passes. Each process reads its own clock: the true time plus its skew. \<open>cand\<close> is an
  acquisition between its read and its put: the local time of the read and what was read.
\<close>

record 'b lease_world =
  lw_store :: "'b mem_store"
  lw_time :: nat
  lw_guard :: "nat \<Rightarrow> lease_guard option"
  lw_cand :: "nat \<Rightarrow> (nat \<times> (object_meta \<times> lease) option) option"

datatype lease_event = Tick nat | ReadLease nat | PutLease nat put_fault | Beat nat put_fault | Release nat | Drop nat

record 'b lease_cfg =
  lc_dec :: "'b \<Rightarrow> lease option"
  lc_enc :: "lease \<Rightarrow> 'b"
  lc_key :: string
  lc_name :: "nat \<Rightarrow> string"
  lc_purpose :: string
  lc_ttl :: nat
  lc_skew :: "nat \<Rightarrow> nat"

definition clock :: "'b lease_cfg \<Rightarrow> nat \<Rightarrow> 'b lease_world \<Rightarrow> nat" where
  "clock c i w = lw_time w + lc_skew c i"

definition put_lease :: "'b :: size lease_cfg \<Rightarrow> nat \<Rightarrow> put_fault \<Rightarrow> nat \<Rightarrow> lease \<times> put_mode \<Rightarrow> 'b lease_world \<Rightarrow> 'b lease_world" where
  "put_lease c i flt now plan w =
     (case plan of (l, mode) \<Rightarrow>
        (case put_with flt now (lc_key c) (lc_enc c l) mode (lw_store w) of
           (r, s') \<Rightarrow>
             (case acquired (lc_key c) (lc_name c i) (lc_purpose c) (lc_ttl c) now l r of
                Inr (Some g) \<Rightarrow> w\<lparr>lw_store := s', lw_guard := (lw_guard w)(i \<mapsto> g)\<rparr>
              | _ \<Rightarrow> w\<lparr>lw_store := s'\<rparr>)))"

fun lease_step :: "'b :: size lease_cfg \<Rightarrow> 'b lease_world \<Rightarrow> lease_event \<Rightarrow> 'b lease_world" where
  "lease_step c w (Tick d) = w\<lparr>lw_time := lw_time w + d\<rparr>"
| "lease_step c w (ReadLease i) =
     (if lw_guard w i \<noteq> None then w
      else case get_message (lc_dec c) (lc_key c) (lw_store w) of
             Inl e \<Rightarrow> w | Inr current \<Rightarrow> w\<lparr>lw_cand := (lw_cand w)(i \<mapsto> (clock c i w, current))\<rparr>)"
| "lease_step c w (PutLease i flt) =
     (case lw_cand w i of
        None \<Rightarrow> w
      | Some (now, current) \<Rightarrow>
          (let w' = w\<lparr>lw_cand := (lw_cand w)(i := None)\<rparr>
           in case acquire_plan (lc_name c i) (lc_purpose c) (lc_ttl c) now current of
                None \<Rightarrow> w' | Some plan \<Rightarrow> put_lease c i flt now plan w'))"
| "lease_step c w (Beat i flt) =
     (case lw_guard w i of
        None \<Rightarrow> w
      | Some g \<Rightarrow>
          (case heartbeat_turn (lc_enc c) (lc_ttl c) (clock c i w) flt g (lw_store w) of
             (go, g', s') \<Rightarrow> w\<lparr>lw_store := s', lw_guard := (lw_guard w)(i \<mapsto> g')\<rparr>))"
| "lease_step c w (Release i) =
     (case lw_guard w i of
        None \<Rightarrow> w | Some g \<Rightarrow> w\<lparr>lw_store := snd (release g (lw_store w)), lw_guard := (lw_guard w)(i := None)\<rparr>)"
| "lease_step c w (Drop i) =
     (case lw_guard w i of
        None \<Rightarrow> w | Some g \<Rightarrow> w\<lparr>lw_store := drop_guard g (lw_store w), lw_guard := (lw_guard w)(i := None)\<rparr>)"

definition lease_run :: "'b :: size lease_cfg \<Rightarrow> lease_event list \<Rightarrow> 'b lease_world \<Rightarrow> 'b lease_world" where
  "lease_run c evs w = foldl (lease_step c) w evs"

definition lease_start :: "'b mem_store \<Rightarrow> 'b lease_world" where
  "lease_start s = \<lparr>lw_store = s, lw_time = 0, lw_guard = (\<lambda>_. None), lw_cand = (\<lambda>_. None)\<rparr>"

text \<open>A process believes that it holds the lease: its guard was not released or lost, and by its own clock it has not expired.\<close>

definition holds :: "'b lease_cfg \<Rightarrow> 'b lease_world \<Rightarrow> nat \<Rightarrow> bool" where
  "holds c w i = (case lw_guard w i of None \<Rightarrow> False | Some g \<Rightarrow> \<not> released g \<and> clock c i w < guard_expires_at g)"

fun ev_no_lost :: "lease_event \<Rightarrow> bool" where
  "ev_no_lost (PutLease i flt) = no_lost flt"
| "ev_no_lost (Beat i flt) = no_lost flt"
| "ev_no_lost _ = True"

text \<open>The invariant: what a guard and a candidate know of the stored lease is true of it while the version is the same.\<close>

definition version_means :: "'b :: size lease_cfg \<Rightarrow> 'b mem_store \<Rightarrow> version \<Rightarrow> (lease \<Rightarrow> bool) \<Rightarrow> bool" where
  "version_means c s v P \<longleftrightarrow> v \<in> mem_issued s \<and> (\<forall>b. mem_view s (lc_key c) = Some (v, b) \<longrightarrow> (\<exists>l. lc_dec c b = Some l \<and> P l))"

definition guard_inv :: "'b :: size lease_cfg \<Rightarrow> 'b lease_world \<Rightarrow> nat \<Rightarrow> lease_guard \<Rightarrow> bool" where
  "guard_inv c w i g \<longleftrightarrow> guard_key g = lc_key c \<and>
     version_means c (lw_store w) (guard_version g) (\<lambda>l. lease_expires_at l = Some (guard_expires_at g)) \<and>
     (\<not> released g \<and> clock c i w < guard_expires_at g \<longrightarrow> map_option fst (mem_view (lw_store w) (lc_key c)) = Some (guard_version g))"

definition lease_inv :: "'b :: size lease_cfg \<Rightarrow> 'b lease_world \<Rightarrow> bool" where
  "lease_inv c w \<longleftrightarrow> mem_ok (lw_store w) \<and>
     (\<forall>i g. lw_guard w i = Some g \<longrightarrow> guard_inv c w i g) \<and>
     (\<forall>i j g h. lw_guard w i = Some g \<longrightarrow> lw_guard w j = Some h \<longrightarrow> guard_version g = guard_version h \<longrightarrow> i = j) \<and>
     (\<forall>i now m l. lw_cand w i = Some (now, Some (m, l)) \<longrightarrow> version_means c (lw_store w) (meta_version m) (\<lambda>l'. l' = l)) \<and>
     (\<forall>i now cur. lw_cand w i = Some (now, cur) \<longrightarrow> now \<le> clock c i w)"

lemma version_means_put:
  assumes "version_means c s v P" "mem_view s' = (mem_view s)(lc_key c \<mapsto> (v', b))" "mem_issued s' = insert v' (mem_issued s)" "v' \<notin> mem_issued s"
  shows "version_means c s' v P"
  using assms by (auto simp: version_means_def)

lemma version_means_delete: "version_means c s v P \<Longrightarrow> version_means c (snd (mem_delete k w s)) v P"
  by (auto simp: version_means_def mem_delete_view split: if_splits)

lemma fresh_version_means:
  assumes "mem_view s' = (mem_view s)(lc_key c \<mapsto> (v', lc_enc c l))" "mem_issued s' = insert v' (mem_issued s)"
    and "lc_dec c (lc_enc c l) = Some l" "P l"
  shows "version_means c s' v' P"
  using assms by (auto simp: version_means_def)

text \<open>A successful put by one process while no other holds the lease.\<close>

lemma lease_put_inv:
  assumes inv: "lease_inv c w" and room: "mem_room (lw_store w)" and codec: "\<forall>l. lc_dec c (lc_enc c l) = Some l"
    and put: "mem_put now (lc_key c) (lc_enc c l) m (lw_store w) = (Inr meta, s')"
    and alone: "\<And>j. j \<noteq> i \<Longrightarrow> \<not> holds c w j"
    and g: "guard_key g = lc_key c" "guard_version g = meta_version meta" "lease_expires_at l = Some (guard_expires_at g)"
  shows "lease_inv c (w\<lparr>lw_store := s', lw_guard := (lw_guard w)(i \<mapsto> g)\<rparr>)"
proof -
  have ok: "mem_ok (lw_store w)" using inv by (simp add: lease_inv_def)
  then have s': "mem_view s' = (mem_view (lw_store w))(lc_key c \<mapsto> (meta_version meta, lc_enc c l))"
      "mem_issued s' = insert (meta_version meta) (mem_issued (lw_store w))" "meta_version meta \<notin> mem_issued (lw_store w)" "mem_ok s'"
    using room put mem.put_valid [OF ok room, of now "lc_key c" "lc_enc c l" m]
    by (auto elim!: mem_hist.put_result [of "lw_store w" now "lc_key c" "lc_enc c l" m])
  let ?w = "w\<lparr>lw_store := s', lw_guard := (lw_guard w)(i \<mapsto> g)\<rparr>"
  have new: "guard_inv c ?w i g"
    using fresh_version_means [OF s'(1,2)] codec g s'(1) by (simp add: guard_inv_def)
  have old: "guard_inv c ?w j h" "guard_version h \<noteq> meta_version meta" if "j \<noteq> i" "lw_guard w j = Some h" for j h
  proof -
    have h: "guard_inv c w j h" using inv that by (simp add: lease_inv_def)
    then show "guard_version h \<noteq> meta_version meta" using s'(3) by (auto simp: guard_inv_def version_means_def)
    show "guard_inv c ?w j h" using h version_means_put [OF _ s'(1-3)] alone [OF that(1)] that(2)
      by (auto simp: guard_inv_def holds_def clock_def)
  qed
  show ?thesis unfolding lease_inv_def
  proof (intro conjI allI impI)
    show "guard_inv c ?w j h" if "lw_guard ?w j = Some h" for j h using new old(1) that by (auto split: if_splits)
    show "j = j'" if "lw_guard ?w j = Some h" "lw_guard ?w j' = Some h'" "guard_version h = guard_version h'" for j j' h h'
      using inv old(2) that g(2) by (auto simp: lease_inv_def split: if_splits)
    show "version_means c (lw_store ?w) (meta_version m') (\<lambda>l'. l' = l'')" if "lw_cand ?w j = Some (n, Some (m', l''))" for j n m' l''
      using inv that version_means_put [OF _ s'(1-3)] by (simp add: lease_inv_def)
    show "n \<le> clock c j ?w" if "lw_cand ?w j = Some (n, cur)" for j n cur using inv that by (simp add: lease_inv_def clock_def)
  qed (use s'(4) in simp)
qed

text \<open>A conditional delete by one process: another one's guard has another version.\<close>

lemma lease_delete_inv:
  assumes "lease_inv c w" "lw_guard w i = Some g"
  shows "lease_inv c (w\<lparr>lw_store := snd (mem_delete (guard_key g) (Some (guard_version g)) (lw_store w)), lw_guard := (lw_guard w)(i := None)\<rparr>)"
    (is "lease_inv c ?w")
  unfolding lease_inv_def
proof (intro conjI allI impI)
  show "guard_inv c ?w j h" if "lw_guard ?w j = Some h" for j h
  proof -
    have ji: "j \<noteq> i" and h: "lw_guard w j = Some h" using that by (auto split: if_splits)
    then have "guard_inv c w j h" "guard_version h \<noteq> guard_version g" using assms by (auto simp: lease_inv_def)
    then show ?thesis by (auto simp: guard_inv_def clock_def version_means_delete mem_delete_view)
  qed
  show "j = j'" if "lw_guard ?w j = Some h" "lw_guard ?w j' = Some h'" "guard_version h = guard_version h'" for j j' h h'
    using assms that by (auto simp: lease_inv_def split: if_splits)
  show "version_means c (lw_store ?w) (meta_version m') (\<lambda>l'. l' = l'')" if "lw_cand ?w j = Some (n, Some (m', l''))" for j n m' l''
    using assms that by (simp add: lease_inv_def version_means_delete)
  show "n \<le> clock c j ?w" if "lw_cand ?w j = Some (n, cur)" for j n cur using assms that by (simp add: lease_inv_def clock_def)
qed (use assms in \<open>simp add: lease_inv_def mem_delete_ok\<close>)

text \<open>Changes that touch neither the store nor a version.\<close>

lemma lease_forget_inv: "lease_inv c w \<Longrightarrow> lease_inv c (w\<lparr>lw_cand := (lw_cand w)(i := None)\<rparr>)"
  by (auto simp: lease_inv_def guard_inv_def clock_def split: if_splits)

lemma lease_guard_inv:
  assumes "lease_inv c w" "lw_guard w i = Some g" "guard_key g' = guard_key g" "guard_version g' = guard_version g"
    and "guard_expires_at g' = guard_expires_at g" "released g \<longrightarrow> released g'"
  shows "lease_inv c (w\<lparr>lw_guard := (lw_guard w)(i \<mapsto> g')\<rparr>)"
  using assms by (auto simp: lease_inv_def guard_inv_def clock_def split: if_splits)

lemma lease_holder_version: "lease_inv c w \<Longrightarrow> holds c w i \<Longrightarrow>
  \<exists>g. lw_guard w i = Some g \<and> map_option fst (mem_view (lw_store w) (lc_key c)) = Some (guard_version g)"
  by (auto simp: holds_def lease_inv_def guard_inv_def split: option.splits)

lemma lease_Beat_inv:
  assumes inv: "lease_inv c w" and room: "mem_room (lw_store w)" and codec: "\<forall>l. lc_dec c (lc_enc c l) = Some l" and "no_lost flt"
  shows "lease_inv c (lease_step c w (Beat i flt))"
proof (cases "lw_guard w i")
  case (Some g)
  show ?thesis
  proof (cases "released g")
    case False
    let ?l = "make_lease (guard_holder g) (guard_purpose g) (clock c i w) (lc_ttl c) (guard_epoch g + 1)"
    obtain r s' where put: "put_with flt (clock c i w) (guard_key g) (lc_enc c ?l) (Update (guard_version g)) (lw_store w) = (r, s')" by force
    have key: "guard_key g = lc_key c" using inv Some by (simp add: lease_inv_def guard_inv_def)
    show ?thesis
    proof (cases r)
      case (Inr meta)
      then have put': "mem_put (clock c i w) (lc_key c) (lc_enc c ?l) (Update (guard_version g)) (lw_store w) = (Inr meta, s')"
        using put_with_no_lost [OF assms(4) put] key by auto
      then have "admits (Update (guard_version g)) (mem_view (lw_store w) (lc_key c))"
        by (metis Inl_Inr_False fst_conv mem.put_refused)
      then have alone: "\<not> holds c w j" if "j \<noteq> i" for j
        using lease_holder_version [OF inv, of j] inv Some that by (auto simp: lease_inv_def)
      show ?thesis
        using lease_put_inv [OF inv room codec put' alone, of i "g\<lparr>guard_epoch := guard_epoch g + 1, guard_version := meta_version meta, guard_expires_at := clock c i w + lc_ttl c\<rparr>"]
          Some False Inr put key by (simp add: heartbeat_turn_def heartbeat_def Let_def make_lease_def)
    next
      case (Inl e)
      then have "s' = lw_store w" using put_with_no_lost [OF assms(4) put] by auto
      moreover have "w\<lparr>lw_store := lw_store w, lw_guard := x\<rparr> = w\<lparr>lw_guard := x\<rparr>" for x by simp
      ultimately show ?thesis
        using Some False Inl put lease_guard_inv [OF inv Some, of "g\<lparr>guard_epoch := guard_epoch g + 1\<rparr>"]
          lease_guard_inv [OF inv Some, of "g\<lparr>guard_epoch := guard_epoch g + 1, released := True\<rparr>"]
        by (cases e) (simp_all add: heartbeat_turn_def heartbeat_def Let_def)
    qed
  next
    case True
    then show ?thesis using inv Some lease_guard_inv [OF inv Some, of g] by (simp add: heartbeat_turn_def)
  qed
qed (use inv in simp)

text \<open>A process that goes ahead with its plan and wins: nobody holds the lease.\<close>

lemma lease_plan_alone:
  assumes inv: "lease_inv c w" and skew: "\<forall>i j. lc_skew c i \<le> lc_skew c j + LEASE_SKEW_TOLERANCE"
    and cand: "lw_cand w i = Some (now, current)" and plan: "acquire_plan holder purpose ttl now current = Some (l, mode)"
    and adm: "admits mode (mem_view (lw_store w) (lc_key c))"
  shows "\<not> holds c w j"
proof
  assume j: "holds c w j"
  then obtain g where g: "lw_guard w j = Some g" "map_option fst (mem_view (lw_store w) (lc_key c)) = Some (guard_version g)"
    using lease_holder_version [OF inv] by blast
  show False
  proof (cases current)
    case None
    then show False using plan adm g by (simp add: acquire_plan_def split: if_splits)
  next
    case (Some ml)
    obtain m ex where ml: "ml = (m, ex)" by force
    then have exp: "or_default 0 (lease_expires_at ex) + LEASE_SKEW_TOLERANCE \<le> now" "mode = Update (meta_version m)"
      using plan Some by (auto simp: acquire_plan_def Let_def split: if_splits)
    then obtain b where b: "mem_view (lw_store w) (lc_key c) = Some (guard_version g, b)" "guard_version g = meta_version m"
      using adm g(2) by auto
    have "lc_dec c b = Some ex" using inv cand Some ml b unfolding lease_inv_def version_means_def by fastforce
    moreover have "\<exists>l. lc_dec c b = Some l \<and> lease_expires_at l = Some (guard_expires_at g)"
      using inv g(1) b(1) by (auto simp: lease_inv_def guard_inv_def version_means_def)
    ultimately have "guard_expires_at g + LEASE_SKEW_TOLERANCE \<le> now" using exp(1) by (auto simp: or_default_def)
    moreover have "now \<le> clock c i w" using inv cand by (auto simp: lease_inv_def)
    moreover have "clock c i w \<le> clock c j w + LEASE_SKEW_TOLERANCE" using skew by (auto simp: clock_def intro: add_left_mono simp: add.assoc)
    ultimately show False using j g(1) by (simp add: holds_def)
  qed
qed

lemma lease_PutLease_inv:
  assumes inv: "lease_inv c w" and room: "mem_room (lw_store w)" and codec: "\<forall>l. lc_dec c (lc_enc c l) = Some l" and "no_lost flt"
    and skew: "\<forall>i j. lc_skew c i \<le> lc_skew c j + LEASE_SKEW_TOLERANCE"
  shows "lease_inv c (lease_step c w (PutLease i flt))"
proof (cases "lw_cand w i")
  case (Some nc)
  obtain now current where nc: "nc = (now, current)" by force
  let ?w = "w\<lparr>lw_cand := (lw_cand w)(i := None)\<rparr>"
  have w': "lease_inv c ?w" by (rule lease_forget_inv [OF inv])
  show ?thesis
  proof (cases "acquire_plan (lc_name c i) (lc_purpose c) (lc_ttl c) now current")
    case None
    then show ?thesis using Some nc w' by simp
  next
    case plan: (Some p)
    obtain l mode where p: "p = (l, mode)" by force
    obtain r s' where put: "put_with flt now (lc_key c) (lc_enc c l) mode (lw_store w) = (r, s')" by force
    show ?thesis
    proof (cases r)
      case (Inr meta)
      then have put': "mem_put now (lc_key c) (lc_enc c l) mode (lw_store ?w) = (Inr meta, s')"
        using put_with_no_lost [OF assms(4) put] by auto
      then have adm: "admits mode (mem_view (lw_store w) (lc_key c))" by (metis Inl_Inr_False fst_conv mem.put_refused lease_world.select_convs(1) lease_world.surjective lease_world.update_convs(4))
      have alone: "\<not> holds c w j" for j using lease_plan_alone [OF inv skew] Some nc plan p adm by blast
      have "\<not> holds c ?w j" for j using alone [of j] by (auto simp: holds_def clock_def split: option.splits)
      moreover have "lease_expires_at l = Some (now + lc_ttl c)"
        using plan p by (auto simp: acquire_plan_def make_lease_def Let_def split: option.splits if_splits)
      ultimately show ?thesis
        using lease_put_inv [OF w' _ codec put', of i "new_guard (lc_key c) (lc_name c i) (lc_purpose c) (meta_version meta) now (lc_ttl c) (lease_epoch l)"]
          Some nc plan p Inr put room by (simp add: put_lease_def acquired_def new_guard_def)
    next
      case (Inl e)
      then have "s' = lw_store w" using put_with_no_lost [OF assms(4) put] by auto
      then show ?thesis using w' Some nc plan p Inl put by (cases e) (simp_all add: put_lease_def acquired_def)
    qed
  qed
qed (use inv in simp)

lemma lease_step_inv:
  assumes inv: "lease_inv c w" and room: "mem_room (lw_store w)" and codec: "\<forall>l. lc_dec c (lc_enc c l) = Some l" and ev: "ev_no_lost ev"
    and skew: "\<forall>i j. lc_skew c i \<le> lc_skew c j + LEASE_SKEW_TOLERANCE"
  shows "lease_inv c (lease_step c w ev)"
proof (cases ev)
  case (Tick d)
  then show ?thesis using inv by (fastforce simp: lease_inv_def guard_inv_def clock_def)
next
  case (ReadLease i)
  show ?thesis
  proof (cases "lw_guard w i = None \<and> (\<exists>cur. get_message (lc_dec c) (lc_key c) (lw_store w) = Inr cur)")
    case True
    then obtain cur where cur: "get_message (lc_dec c) (lc_key c) (lw_store w) = Inr cur" by blast
    have "version_means c (lw_store w) (meta_version m) (\<lambda>l'. l' = l)" if "cur = Some (m, l)" for m l
      using cur that mem_hist.view_issued [of "lw_store w" "lc_key c" "meta_version m"] inv
      by (cases rule: get_message_cases [OF cur]) (auto simp: version_means_def lease_inv_def)
    then show ?thesis using True cur inv ReadLease by (auto simp: lease_inv_def guard_inv_def clock_def)
  qed (use inv ReadLease in \<open>auto split: sum.splits\<close>)
next
  case (Release i)
  show ?thesis
  proof (cases "lw_guard w i")
    case (Some g)
    have "snd (release g (lw_store w)) = snd (mem_delete (guard_key g) (Some (guard_version g)) (lw_store w))"
      by (auto simp: release_def split: prod.splits sum.splits store_error.splits)
    then show ?thesis using lease_delete_inv [OF inv Some] Release Some by simp
  qed (use inv Release in simp)
next
  case (Drop i)
  show ?thesis
  proof (cases "lw_guard w i")
    case (Some g)
    have "lease_inv c (w\<lparr>lw_guard := (lw_guard w)(i := None)\<rparr>)"
      using inv by (auto simp: lease_inv_def guard_inv_def clock_def split: if_splits)
    then show ?thesis using lease_delete_inv [OF inv Some] Drop Some by (simp add: drop_guard_def)
  qed (use inv Drop in simp)
qed (use assms lease_PutLease_inv lease_Beat_inv in \<open>auto simp del: lease_step.simps\<close>)

lemma lease_step_room: "room_for (Suc n) (lw_store w) \<Longrightarrow> room_for n (lw_store (lease_step c w ev))"
proof -
  assume r: "room_for (Suc n) (lw_store w)"
  then have r': "room_for n (lw_store w)" by (rule room_for_mono) simp
  have put: "room_for n (snd (put_with flt now k b m (lw_store w)))" for flt now k b m
    using r r' by (cases flt) (auto simp: put_with_def mem_put_room)
  have beat: "room_for n (snd (snd (heartbeat_turn e t now flt g (lw_store w))))" for e t now flt g
    using put r' by (auto simp: heartbeat_turn_def heartbeat_def Let_def split: prod.splits sum.splits store_error.splits coord_error.splits) (metis snd_conv)+
  have del: "room_for n (snd (mem_delete k v (lw_store w)))" for k v using r' by (simp add: room_for_def)
  show ?thesis
  proof (cases ev)
    case (PutLease i flt)
    then show ?thesis using r' put
      by (auto simp: put_lease_def Let_def split: option.splits prod.splits sum.splits) (metis snd_conv)+
  next
    case (Beat i flt)
    then show ?thesis using r' beat by (auto split: option.splits prod.splits) (metis snd_conv)
  next
    case (Release i)
    have "snd (release g (lw_store w)) = snd (mem_delete (guard_key g) (Some (guard_version g)) (lw_store w))" for g
      by (auto simp: release_def split: prod.splits sum.splits store_error.splits)
    then show ?thesis using Release r' del by (auto split: option.splits)
  qed (use r' del in \<open>auto simp: drop_guard_def split: option.splits sum.splits\<close>)
qed

lemma lease_run_inv:
  assumes codec: "\<forall>l. lc_dec c (lc_enc c l) = Some l" and skew: "\<forall>i j. lc_skew c i \<le> lc_skew c j + LEASE_SKEW_TOLERANCE"
  shows "lease_inv c w \<Longrightarrow> room_for (length evs) (lw_store w) \<Longrightarrow> list_all ev_no_lost evs \<Longrightarrow> lease_inv c (lease_run c evs w)"
proof (induction evs arbitrary: w)
  case (Cons ev evs)
  then have "lease_inv c (lease_step c w ev)" "room_for (length evs) (lw_store (lease_step c w ev))"
    using lease_step_inv [OF _ room_for_room codec _ skew] lease_step_room by auto
  then show ?case using Cons by (simp add: lease_run_def)
qed (simp add: lease_run_def)

text \<open>
  C5: a lease excludes. Any number of processes acquire, renew, release and drop a lease in any
  order, racing between the read and the put of an acquisition; as long as their clocks differ by
  at most the tolerance and no response to an applied put is lost, at no time do two of them
  believe that they hold it, and the stored lease is the holder's own. A process whose lease was
  taken over has let it expire by its own clock.
\<close>

theorem lease_exclusive:
  assumes "mem_ok s" "room_for (length evs) s" "list_all ev_no_lost evs"
    and "\<forall>l. lc_dec c (lc_enc c l) = Some l" "\<forall>i j. lc_skew c i \<le> lc_skew c j + LEASE_SKEW_TOLERANCE"
  shows "let w = lease_run c evs (lease_start s) in
    (\<forall>i j. holds c w i \<and> holds c w j \<longrightarrow> i = j) \<and>
    (\<forall>i. holds c w i \<longrightarrow> map_option fst (mem_view (lw_store w) (lc_key c)) = map_option guard_version (lw_guard w i))"
proof -
  have "lease_inv c (lease_start s)" using assms(1) by (simp add: lease_inv_def lease_start_def)
  then have inv: "lease_inv c (lease_run c evs (lease_start s))"
    using lease_run_inv [OF assms(4,5) _ _ assms(3)] assms(2) by (simp add: lease_start_def)
  note h = lease_holder_version [OF inv]
  have "i = j" if "holds c (lease_run c evs (lease_start s)) i" "holds c (lease_run c evs (lease_start s)) j" for i j
    using h [OF that(1)] h [OF that(2)] inv unfolding lease_inv_def by (metis option.inject)
  then show ?thesis using h unfolding Let_def by (metis option.simps(9))
qed

text \<open>The second process is refused while the first holds the lease, and takes it over after it expired.\<close>

definition example_lease_cfg :: "lease list lease_cfg" where
  "example_lease_cfg =
     \<lparr>lc_dec = (\<lambda>b. case b of [l] \<Rightarrow> Some l | _ \<Rightarrow> None), lc_enc = (\<lambda>l. [l]), lc_key = ''leases/compact.pb'',
      lc_name = nat_str, lc_purpose = ''compact'', lc_ttl = 50, lc_skew = (\<lambda>i. if i = 1 then 15 else 0)\<rparr>"

definition example_lease_events :: "lease_event list" where
  "example_lease_events = [ReadLease 0, ReadLease 1, PutLease 0 NoFault, PutLease 1 NoFault, Tick 20, Beat 0 NoFault,
     ReadLease 1, PutLease 1 NoFault, Tick 2040, ReadLease 1, PutLease 1 NoFault, Beat 0 (NotSent (Retryable ''timeout''))]"

theorem lease_exclusive_witness:
  "let w = lease_run example_lease_cfg example_lease_events (lease_start mem_new) in
     holds example_lease_cfg w 1 \<and> \<not> holds example_lease_cfg w 0"
proof -
  let ?w = "lease_run example_lease_cfg example_lease_events (lease_start mem_new)"
  have "length example_lease_events = 12" by (simp add: example_lease_events_def)
  then have room: "room_for (length example_lease_events) (mem_new :: lease list mem_store)" by (simp add: room_for_def mem_new_def)
  have ok: "list_all ev_no_lost example_lease_events" "\<forall>l. lc_dec example_lease_cfg (lc_enc example_lease_cfg l) = Some l"
    "\<forall>i j. lc_skew example_lease_cfg i \<le> lc_skew example_lease_cfg j + LEASE_SKEW_TOLERANCE"
    by (simp_all add: example_lease_events_def no_lost_def example_lease_cfg_def LEASE_SKEW_TOLERANCE_def)
  have "holds example_lease_cfg ?w 1" by code_simp
  then show ?thesis using lease_exclusive [OF mem_new_ok(1) room ok] by (auto simp: Let_def)
qed

section \<open>Polling for a lease\<close>

text \<open>
  C17: \<open>acquire\<close> ends, and gives up only at its deadline. If the clock reaches the deadline after
  one of the polls, the loop returns, whatever other clients do and whichever requests fail. What it
  returns is the outcome of its last poll; all polls before came back before the deadline, and when
  that outcome is neither a lease nor an error the deadline has passed.
\<close>

theorem acquire_returns:
  assumes "\<exists>p \<in> set ps. deadline \<le> p_after p"
  shows "\<exists>r s' k s0. acquire dec enc key holder purpose ttl deadline ps s = Some (r, s') \<and> k < length ps \<and>
    try_acquire dec enc key holder purpose ttl (p_now (ps ! k)) (p_between (ps ! k)) (p_fault (ps ! k)) s0 = (r, s') \<and>
    (\<forall>j < k. p_after (ps ! j) < deadline) \<and> (r = Inr None \<longrightarrow> deadline \<le> p_after (ps ! k))"
  using assms
proof (induction ps arbitrary: s)
  case (Cons p ps)
  obtain r s' where t: "try_acquire dec enc key holder purpose ttl (p_now p) (p_between p) (p_fault p) (run_ops (p_before p) s) = (r, s')" by force
  show ?case
  proof (cases "r = Inr None \<and> \<not> deadline \<le> p_after p")
    case True
    then obtain r1 s1 k s0 where "acquire dec enc key holder purpose ttl deadline ps s' = Some (r1, s1)" "k < length ps"
      "try_acquire dec enc key holder purpose ttl (p_now (ps ! k)) (p_between (ps ! k)) (p_fault (ps ! k)) s0 = (r1, s1)"
      "\<forall>j < k. p_after (ps ! j) < deadline" "r1 = Inr None \<longrightarrow> deadline \<le> p_after (ps ! k)" using Cons by fastforce
    then show ?thesis using t True by (intro exI [of _ r1] exI [of _ s1] exI [of _ "Suc k"] exI [of _ s0]) (auto simp: nth_Cons split: nat.splits)
  next
    case False
    then have "acquire dec enc key holder purpose ttl deadline (p # ps) s = Some (r, s')" using t by (auto split: sum.splits option.splits)
    then show ?thesis using t False by (intro exI [of _ r] exI [of _ s'] exI [of _ 0] exI [of _ "run_ops (p_before p) s"]) auto
  qed
qed simp

definition example_polls :: "nat poll list" where
  "example_polls = map (\<lambda>t. \<lparr>p_before = [], p_now = t, p_between = [], p_fault = NoFault, p_after = t + 1\<rparr>) [100, 200, 300]"

text \<open>The lease is held until 5000: three polls, then the deadline.\<close>

theorem acquire_returns_witness:
  "\<exists>r s'. acquire (\<lambda>_. Some (make_lease ''a'' ''gc'' 0 5000 0)) (\<lambda>_. 0) ''l'' ''b'' ''gc'' 10 300 example_polls
     (snd (mem_put 0 ''l'' 0 Create mem_new)) = Some (r, s')"
proof -
  have "\<exists>p \<in> set example_polls. 300 \<le> p_after p" by (simp add: example_polls_def)
  from acquire_returns [OF this, of "\<lambda>_. Some (make_lease ''a'' ''gc'' 0 5000 0)" "\<lambda>_. 0" "''l''" "''b''" "''gc''" 10 "snd (mem_put 0 ''l'' 0 Create mem_new)"]
  show ?thesis by blast
qed

end
