(* ===== verification/Wal_Sync.thy ===== *)
theory Wal_Sync
  imports Wal_Publish Git_Apply Coord
begin

text \<open>
  A repository handle and its synchronization with the bucket
  (\<^verbatim>\<open>crates/gitcask-wal/src/sync.rs\<close>, \<^verbatim>\<open>handle.rs\<close>, \<^verbatim>\<open>state.rs\<close>, \<^verbatim>\<open>error.rs\<close>,
  \<^verbatim>\<open>log_reader.rs\<close>): the conditional read of the manifest, loading a checkpoint's refs, replaying
  the log, and reading the log. The bucket holds decoded objects; the refs are the files of the
  local repository. Packs on the local disk are not modelled.
\<close>

section \<open>Objects, errors, the handle\<close>

datatype wal_obj =
    ManifestObj manifest
  | SegmentObj "log_entry list"
  | RefsObj ref_snapshot
  | CheckpointObj
  | PackObj

type_synonym bucket = "wal_obj mem_store"

fun dec_manifest :: "wal_obj \<Rightarrow> manifest option" where
  "dec_manifest (ManifestObj m) = Some m"
| "dec_manifest _ = None"

fun dec_segment :: "wal_obj \<Rightarrow> log_entry list option" where
  "dec_segment (SegmentObj es) = Some es"
| "dec_segment _ = None"

fun dec_refs :: "wal_obj \<Rightarrow> ref_snapshot option" where
  "dec_refs (RefsObj s) = Some s"
| "dec_refs _ = None"

text \<open>An error of a publish carries the error whose text it reports.\<close>

datatype wal_error =
    WalNotFound
  | AlreadyExists
  | WalStore store_error
  | WalCoord coord_error
  | WalGit git_error
  | PublishFailed wal_error bool
  | Corrupt string
  | Retry nat

fun wal_retryable :: "wal_error \<Rightarrow> bool" where
  "wal_retryable (WalStore e) = is_retryable e"
| "wal_retryable (WalCoord (CoordStore e)) = is_retryable e"
| "wal_retryable (PublishFailed e r) = r"
| "wal_retryable _ = False"

record repo_state =
  st_manifest_version :: "version option"
  applied_seq :: nat
  st_revision :: nat
  packs_revision :: nat
  pending_pack_removals :: "string list"

definition default_state :: repo_state where
  "default_state = \<lparr>st_manifest_version = None, applied_seq = 0, st_revision = 0, packs_revision = 0, pending_pack_removals = []\<rparr>"

definition packs_ready :: "repo_state \<Rightarrow> bool" where
  "packs_ready st \<longleftrightarrow> packs_revision st = st_revision st \<and> pending_pack_removals st = []"

record handle =
  h_manifest :: manifest
  h_version :: "version option"
  h_state :: repo_state
  h_dir :: git_dir
  h_last_entry_time :: "nat option"

section \<open>The freshness check\<close>

text \<open>\<open>None\<close> when the manifest is unchanged.\<close>

definition freshness_check :: "bucket \<Rightarrow> version option \<Rightarrow> (wal_error, (version \<times> manifest) option) result" where
  "freshness_check b known =
     (case known of
        Some v \<Rightarrow>
          (case get_message_if_changed dec_manifest MANIFEST v b of
             Inl e \<Rightarrow> Inl (WalCoord e)
           | Inr found \<Rightarrow> Inr (map_option (\<lambda>(om, m). (meta_version om, m)) found))
      | None \<Rightarrow>
          (case get_message dec_manifest MANIFEST b of
             Inl e \<Rightarrow> Inl (WalCoord e)
           | Inr None \<Rightarrow> Inl WalNotFound
           | Inr (Some (om, m)) \<Rightarrow> Inr (Some (meta_version om, m))))"

section \<open>Replaying the log\<close>

definition get_segment :: "bucket \<Rightarrow> log_segment_ref \<Rightarrow> (wal_error, log_entry list) result" where
  "get_segment b s =
     (case plain_get (seg_key s) b default_get of
        Inl e \<Rightarrow> Inl (WalStore e)
      | Inr (NotModified v) \<Rightarrow> Inr []
      | Inr (Object om body) \<Rightarrow>
          (case dec_segment body of None \<Rightarrow> Inl (Corrupt ''log segment decode'') | Some es \<Rightarrow> Inr es))"

fun fetch_segments :: "bucket \<Rightarrow> log_segment_ref list \<Rightarrow> (wal_error, log_entry list) result" where
  "fetch_segments b [] = Inr []"
| "fetch_segments b (s # ss) =
     (case get_segment b s of
        Inl e \<Rightarrow> Inl e
      | Inr es \<Rightarrow> (case fetch_segments b ss of Inl e \<Rightarrow> Inl e | Inr r \<Rightarrow> Inr (es @ r)))"

definition entry_txns :: "log_entry list \<Rightarrow> ref_transaction list" where
  "entry_txns es = List.map_filter (\<lambda>e. if kind e = Push \<or> kind e = RefUpdate then txn e else None) es"

definition entry_supersedes :: "log_entry list \<Rightarrow> string list" where
  "entry_supersedes es = concat (map (\<lambda>e. if kind e = Compact then supersedes e else []) es)"

definition add_removal :: "string list \<Rightarrow> string \<Rightarrow> string list" where
  "add_removal ps s = (if s \<in> set ps then ps else ps @ [s])"

definition apply_entries ::
  "(string \<Rightarrow> string option) \<Rightarrow> log_entry list \<Rightarrow> handle \<Rightarrow> (wal_error, unit) result \<times> handle" where
  "apply_entries peel es h =
     (let txns = entry_txns es
      in case (if txns \<noteq> [] then apply_ref_txns_offline peel txns (h_dir h) else (Inr (), h_dir h)) of
           (Inl e, d) \<Rightarrow> (Inl (WalGit e), h\<lparr>h_dir := d\<rparr>)
         | (Inr _, d) \<Rightarrow>
             (Inr (), h\<lparr>h_dir := d,
                h_state := (h_state h)\<lparr>pending_pack_removals := foldl add_removal (pending_pack_removals (h_state h)) (entry_supersedes es)\<rparr>\<rparr>))"

text \<open>The time of the last entry only moves forward.\<close>

definition note_entry_time :: "nat option \<Rightarrow> nat option \<Rightarrow> nat option" where
  "note_entry_time slot t =
     (case t of None \<Rightarrow> slot | Some t' \<Rightarrow> (case slot of None \<Rightarrow> Some t' | Some p \<Rightarrow> if p < t' then Some t' else slot))"

definition replay_log ::
  "(string \<Rightarrow> string option) \<Rightarrow> bucket \<Rightarrow> manifest \<Rightarrow> nat \<Rightarrow> nat \<Rightarrow> handle \<Rightarrow> (wal_error, unit) result \<times> handle" where
  "replay_log peel b m from_seq to_seq h =
     (case fetch_segments b (filter (\<lambda>s. from_seq < last_seq s \<and> first_seq s \<le> to_seq) (log_segments m)) of
        Inl e \<Rightarrow> (Inl e, h)
      | Inr fetched \<Rightarrow>
          (let es = sort_key seq (filter (\<lambda>e. from_seq < seq e \<and> seq e \<le> to_seq) fetched);
               h1 = (if es = [] then h else h\<lparr>h_last_entry_time := note_entry_time (h_last_entry_time h) (created_at (last es))\<rparr>)
           in apply_entries peel es h1))"

section \<open>Applying a manifest\<close>

definition checkpoint_seq :: "manifest \<Rightarrow> nat" where
  "checkpoint_seq m = (case checkpoint m of None \<Rightarrow> 0 | Some c \<Rightarrow> cp_seq c)"

definition set_applied :: "nat \<Rightarrow> handle \<Rightarrow> handle" where
  "set_applied n h = h\<lparr>h_state := (h_state h)\<lparr>applied_seq := n\<rparr>\<rparr>"

text \<open>The refs of the checkpoint, when they are needed and there.\<close>

definition load_checkpoint :: "bucket \<Rightarrow> manifest \<Rightarrow> handle \<Rightarrow> (wal_error, unit) result \<times> handle" where
  "load_checkpoint b m h =
     (let cp = checkpoint_seq m
      in if cp > 0 \<and> applied_seq (h_state h) < cp then
           (case get_message dec_refs (checkpoint_refs_key cp) b of
              Inl e \<Rightarrow> (Inl (WalCoord e), h)
            | Inr None \<Rightarrow> (Inr (), h)
            | Inr (Some (om, snap)) \<Rightarrow>
                (case load_ref_snapshot snap (h_dir h) of
                   (Inl e, d) \<Rightarrow> (Inl (WalGit e), h\<lparr>h_dir := d\<rparr>)
                 | (Inr _, d) \<Rightarrow> (Inr (), set_applied cp (h\<lparr>h_dir := d\<rparr>))))
         else (Inr (), h))"

definition finish_delta :: "manifest \<Rightarrow> version \<Rightarrow> handle \<Rightarrow> handle" where
  "finish_delta m v h =
     h\<lparr>h_state := (h_state h)\<lparr>st_manifest_version := Some v, applied_seq := head_seq m, st_revision := revision m\<rparr>\<rparr>"

definition apply_delta ::
  "(string \<Rightarrow> string option) \<Rightarrow> bucket \<Rightarrow> manifest \<Rightarrow> version \<Rightarrow> handle \<Rightarrow> (wal_error, unit) result \<times> handle" where
  "apply_delta peel b m v h =
     (case load_checkpoint b m h of
        (Inl e, h1) \<Rightarrow> (Inl e, h1)
      | (Inr _, h1) \<Rightarrow>
          (case (if applied_seq (h_state h1) < head_seq m then replay_log peel b m (applied_seq (h_state h1)) (head_seq m) h1 else (Inr (), h1)) of
             (Inl e, h2) \<Rightarrow> (Inl e, h2)
           | (Inr _, h2) \<Rightarrow> (Inr (), finish_delta m v h2)))"

text \<open>What \<open>sync_locked_inner\<close> does with the outcome of the freshness check.\<close>

definition sync_apply ::
  "(string \<Rightarrow> string option) \<Rightarrow> bucket \<Rightarrow> (version \<times> manifest) option \<Rightarrow> handle \<Rightarrow> (wal_error, unit) result \<times> handle" where
  "sync_apply peel b outcome h =
     (case outcome of
        None \<Rightarrow> (Inr (), h)
      | Some (v, m) \<Rightarrow>
          if revision m < revision (h_manifest h) then (Inr (), h)
          else if h_version h \<noteq> None \<and> revision m = revision (h_manifest h) then (Inr (), h\<lparr>h_version := Some v\<rparr>)
          else (case apply_delta peel b m v h of
                  (Inl e, h') \<Rightarrow> (Inl e, h')
                | (Inr _, h') \<Rightarrow> (Inr (), h'\<lparr>h_manifest := m, h_version := Some v\<rparr>)))"

definition sync_locked_inner :: "(string \<Rightarrow> string option) \<Rightarrow> bucket \<Rightarrow> handle \<Rightarrow> (wal_error, unit) result \<times> handle" where
  "sync_locked_inner peel b h =
     (case freshness_check b (h_version h) of Inl e \<Rightarrow> (Inl e, h) | Inr outcome \<Rightarrow> sync_apply peel b outcome h)"

section \<open>Reading the log (log_reader.rs)\<close>

definition read_log :: "bucket \<Rightarrow> handle \<Rightarrow> nat \<Rightarrow> nat option \<Rightarrow> (wal_error, log_entry list) result" where
  "read_log b h from_seq to_seq =
     (case freshness_check b (h_version h) of
        Inl e \<Rightarrow> Inl e
      | Inr outcome \<Rightarrow>
          (let m = (case outcome of None \<Rightarrow> h_manifest h | Some (v, m) \<Rightarrow> m);
               to = min (or_default (head_seq m) to_seq) (head_seq m)
           in if to < from_seq then Inr []
              else case fetch_segments b (filter (\<lambda>s. from_seq \<le> last_seq s \<and> first_seq s \<le> to) (log_segments m)) of
                     Inl e \<Rightarrow> Inl e
                   | Inr es \<Rightarrow> Inr (sort_key seq (filter (\<lambda>e. from_seq \<le> seq e \<and> seq e \<le> to) es))))"

section \<open>Manifests whose log is intact\<close>

text \<open>The entries of a listed segment, and of a list of segments, as the bucket holds them.\<close>

definition seg_entries :: "bucket \<Rightarrow> log_segment_ref \<Rightarrow> log_entry list" where
  "seg_entries b s = (case mem_view b (seg_key s) of Some (v, SegmentObj es) \<Rightarrow> es | _ \<Rightarrow> [])"

definition log_of :: "bucket \<Rightarrow> log_segment_ref list \<Rightarrow> log_entry list" where
  "log_of b ss = concat (map (seg_entries b) ss)"

text \<open>A segment's object is there, with one entry for each of its sequence numbers.\<close>

definition seg_ok :: "bucket \<Rightarrow> log_segment_ref \<Rightarrow> bool" where
  "seg_ok b s \<longleftrightarrow> (\<exists>v es. mem_view b (seg_key s) = Some (v, SegmentObj es) \<and> map seq es = [first_seq s..<Suc (last_seq s)] \<and>
     first_seq s \<le> last_seq s)"

definition segs_ok :: "bucket \<Rightarrow> log_segment_ref list \<Rightarrow> bool" where
  "segs_ok b ss \<longleftrightarrow> list_all (seg_ok b) ss \<and> sorted_wrt (\<lambda>s t. last_seq s < first_seq t) ss"

lemma seg_ok_entries:
  assumes "seg_ok b s"
  shows "map seq (seg_entries b s) = [first_seq s..<Suc (last_seq s)]" "get_segment b s = Inr (seg_entries b s)" "first_seq s \<le> last_seq s"
proof -
  obtain v es where s: "mem_view b (seg_key s) = Some (v, SegmentObj es)" "map seq es = [first_seq s..<Suc (last_seq s)]" "first_seq s \<le> last_seq s"
    using assms by (auto simp: seg_ok_def)
  then show "map seq (seg_entries b s) = [first_seq s..<Suc (last_seq s)]" "first_seq s \<le> last_seq s" by (simp_all add: seg_entries_def)
  show "get_segment b s = Inr (seg_entries b s)"
    using s(1) by (auto simp: get_segment_def seg_entries_def plain_get_def mem_get_def mem_view_def default_get_def)
qed

lemma log_of_simps [simp]: "log_of b [] = []" "log_of b (s # ss) = seg_entries b s @ log_of b ss" "log_of b (ss @ ts) = log_of b ss @ log_of b ts"
  by (simp_all add: log_of_def)

lemma fetch_segments_ok: "list_all (seg_ok b) ss \<Longrightarrow> fetch_segments b ss = Inr (log_of b ss)"
  by (induction ss) (simp_all add: seg_ok_entries)

lemma seg_entry_range: "seg_ok b s \<Longrightarrow> e \<in> set (seg_entries b s) \<Longrightarrow> first_seq s \<le> seq e \<and> seq e \<le> last_seq s"
  using seg_ok_entries(1) [of b s] by (metis atLeastLessThan_iff image_eqI less_Suc_eq_le list.set_map set_upt)

lemma log_of_range: "list_all (seg_ok b) ss \<Longrightarrow> e \<in> set (log_of b ss) \<Longrightarrow> \<exists>s \<in> set ss. first_seq s \<le> seq e \<and> seq e \<le> last_seq s"
  by (induction ss) (auto dest: seg_entry_range)

lemma log_of_sorted: "segs_ok b ss \<Longrightarrow> sorted_wrt (<) (map seq (log_of b ss))"
proof (induction ss)
  case (Cons s ss)
  have ok: "seg_ok b s" "segs_ok b ss" and lt: "\<forall>t \<in> set ss. last_seq s < first_seq t" using Cons.prems by (simp_all add: segs_ok_def)
  have "seq e < seq e'" if "e \<in> set (seg_entries b s)" "e' \<in> set (log_of b ss)" for e e'
    using seg_entry_range [OF ok(1) that(1)] log_of_range [of b ss e'] that(2) ok(2) lt by (fastforce simp: segs_ok_def)
  moreover have "sorted_wrt (<) (map seq (seg_entries b s))" using seg_ok_entries(1) [OF ok(1)] by (simp del: upt_Suc)
  ultimately show ?case using Cons.IH ok(2) by (auto simp: sorted_wrt_append)
qed simp

text \<open>Skipping the segments outside a range loses nothing of the range, and the entries are already in order.\<close>

lemma fetch_range:
  assumes "segs_ok b ss" and out: "\<forall>s \<in> set ss. \<forall>e. \<not> P s \<longrightarrow> first_seq s \<le> seq e \<longrightarrow> seq e \<le> last_seq s \<longrightarrow> \<not> Q e"
  shows "fetch_segments b (filter P ss) = Inr (log_of b (filter P ss)) \<and> sort_key seq (filter Q (log_of b (filter P ss))) = filter Q (log_of b ss)"
proof -
  have "list_all (seg_ok b) (filter P ss)" using assms(1) by (auto simp: segs_ok_def list_all_iff)
  moreover have "filter Q (log_of b (filter P ss)) = filter Q (log_of b ss)"
    using assms
  proof (induction ss)
    case (Cons s ss)
    have "seg_ok b s" "segs_ok b ss" using Cons.prems(1) by (simp_all add: segs_ok_def)
    moreover have "filter Q (seg_entries b s) = []" if "\<not> P s"
      using seg_entry_range [OF \<open>seg_ok b s\<close>] Cons.prems(2) that by (auto simp: filter_empty_conv)
    ultimately show ?case using Cons by simp
  qed simp
  moreover have "sorted (map seq (filter Q (log_of b ss)))"
    using strict_sorted_imp_sorted [OF log_of_sorted [OF assms(1)]] by (simp add: sorted_map sorted_wrt_filter)
  ultimately show ?thesis by (simp add: fetch_segments_ok sort_key_id_if_sorted)
qed

section \<open>Replay\<close>

definition txns_clean :: "log_entry list \<Rightarrow> bool" where
  "txns_clean es = list_all (\<lambda>t. list_all upd_clean (updates t)) (entry_txns es)"

lemma entry_txns_simps [simp]:
  "entry_txns [] = []" "entry_txns (es @ es') = entry_txns es @ entry_txns es'"
  "entry_txns (e # es) = (case (if kind e = Push \<or> kind e = RefUpdate then txn e else None) of None \<Rightarrow> [] | Some t \<Rightarrow> [t]) @ entry_txns es"
  by (simp_all add: entry_txns_def List.map_filter_def split: option.splits)

lemma txns_clean_filter: "txns_clean es \<Longrightarrow> txns_clean (filter Q es)"
  unfolding txns_clean_def by (induction es) (auto split: option.splits if_splits)

lemma apply_entries_exact:
  assumes "refs_clean (read_refs peel (h_dir h))" "peel_hex peel" "txns_clean es"
  shows "case apply_entries peel es h of (r, h') \<Rightarrow>
    r = Inr () \<and> refs_clean (read_refs peel (h_dir h')) \<and>
    spec_of (read_refs peel (h_dir h')) = spec_txns (spec_of (read_refs peel (h_dir h))) (entry_txns es) \<and>
    h_manifest h' = h_manifest h \<and> h_version h' = h_version h \<and> applied_seq (h_state h') = applied_seq (h_state h)"
  using offline_replay [OF assms(1,2), of "entry_txns es"] assms(1,3)
  by (auto simp: apply_entries_def Let_def txns_clean_def split: prod.splits)

lemma replay_log_exact:
  assumes "refs_clean (read_refs peel (h_dir h))" "peel_hex peel" "segs_ok b (log_segments m)" "txns_clean (log_of b (log_segments m))"
  shows "case replay_log peel b m from to h of (r, h') \<Rightarrow>
    r = Inr () \<and> refs_clean (read_refs peel (h_dir h')) \<and>
    spec_of (read_refs peel (h_dir h')) = spec_txns (spec_of (read_refs peel (h_dir h)))
      (entry_txns (filter (\<lambda>e. from < seq e \<and> seq e \<le> to) (log_of b (log_segments m)))) \<and>
    h_manifest h' = h_manifest h \<and> h_version h' = h_version h \<and> applied_seq (h_state h') = applied_seq (h_state h)"
proof -
  let ?P = "\<lambda>s. from < last_seq s \<and> first_seq s \<le> to" and ?Q = "\<lambda>e. from < seq e \<and> seq e \<le> to"
  let ?es = "filter ?Q (log_of b (log_segments m))"
  have "\<forall>s \<in> set (log_segments m). \<forall>e. \<not> ?P s \<longrightarrow> first_seq s \<le> seq e \<longrightarrow> seq e \<le> last_seq s \<longrightarrow> \<not> ?Q e" by auto
  note range = fetch_range [OF assms(3) this]
  have f: "fetch_segments b (filter ?P (log_segments m)) = Inr (log_of b (filter ?P (log_segments m)))"
    "sort_key seq (filter ?Q (log_of b (filter ?P (log_segments m)))) = ?es"
    using range by simp_all
  define h1 where "h1 = (if ?es = [] then h else h\<lparr>h_last_entry_time := note_entry_time (h_last_entry_time h) (created_at (last ?es))\<rparr>)"
  have h1: "h_dir h1 = h_dir h" "h_manifest h1 = h_manifest h" "h_version h1 = h_version h" "h_state h1 = h_state h" by (simp_all add: h1_def)
  have "replay_log peel b m from to h = apply_entries peel ?es h1"
    unfolding replay_log_def f(1) by (simp add: Let_def f(2) h1_def)
  then show ?thesis using apply_entries_exact [of peel h1 ?es] assms(1,2) txns_clean_filter [OF assms(4)] h1 by simp
qed

lemma load_checkpoint_cases:
  assumes "refs_clean (read_refs peel (h_dir h))" "peel_hex peel"
    and "\<And>snap. applied_seq (h_state h) < checkpoint_seq m \<Longrightarrow>
      message_at dec_refs (checkpoint_refs_key (checkpoint_seq m)) b = Some snap \<Longrightarrow> refs_clean snap"
    and "checkpoint_seq m \<noteq> 0 \<Longrightarrow> applied_seq (h_state h) < checkpoint_seq m \<Longrightarrow>
      message_at dec_refs (checkpoint_refs_key (checkpoint_seq m)) b \<noteq> None"
  obtains (keep) "load_checkpoint b m h = (Inr (), h)" "checkpoint_seq m \<le> applied_seq (h_state h)"
    | (load) snap h' where "load_checkpoint b m h = (Inr (), h')" "applied_seq (h_state h) < checkpoint_seq m"
      "message_at dec_refs (checkpoint_refs_key (checkpoint_seq m)) b = Some snap"
      "refs_clean (read_refs peel (h_dir h'))" "spec_of (read_refs peel (h_dir h')) = spec_of snap"
      "applied_seq (h_state h') = checkpoint_seq m" "h_manifest h' = h_manifest h" "h_version h' = h_version h"
proof (cases "checkpoint_seq m \<le> applied_seq (h_state h)")
  case True
  then show ?thesis using keep by (auto simp: load_checkpoint_def Let_def)
next
  case False
  then obtain snap where snap: "message_at dec_refs (checkpoint_refs_key (checkpoint_seq m)) b = Some snap" using assms(4) by fastforce
  have "refs_clean snap" using assms(3) [OF _ snap] False by simp
  note l = load_clean [OF this assms(2), of "h_dir h"]
  obtain d where d: "load_ref_snapshot snap (h_dir h) = (Inr (), d)" using l(1) by (metis prod.collapse)
  have "load_checkpoint b m h = (Inr (), set_applied (checkpoint_seq m) (h\<lparr>h_dir := d\<rparr>))"
    using False snap d by (auto simp: load_checkpoint_def Let_def get_message_view message_at_def split: option.splits prod.splits)
  then show ?thesis using load snap False l d by (simp add: set_applied_def not_le)
qed

lemma apply_delta_spec:
  assumes "refs_clean (read_refs peel (h_dir h))" "peel_hex peel" "segs_ok b (log_segments m)" "txns_clean (log_of b (log_segments m))"
    and "\<And>snap. applied_seq (h_state h) < checkpoint_seq m \<Longrightarrow>
      message_at dec_refs (checkpoint_refs_key (checkpoint_seq m)) b = Some snap \<Longrightarrow> refs_clean snap"
    and "checkpoint_seq m \<noteq> 0 \<Longrightarrow> applied_seq (h_state h) < checkpoint_seq m \<Longrightarrow>
      message_at dec_refs (checkpoint_refs_key (checkpoint_seq m)) b \<noteq> None"
  shows "case apply_delta peel b m v h of (r, h') \<Rightarrow>
    r = Inr () \<and> refs_clean (read_refs peel (h_dir h')) \<and>
    spec_of (read_refs peel (h_dir h')) =
      (if applied_seq (h_state h) < checkpoint_seq m
       then spec_txns (spec_of (the (message_at dec_refs (checkpoint_refs_key (checkpoint_seq m)) b)))
              (entry_txns (filter (\<lambda>e. checkpoint_seq m < seq e \<and> seq e \<le> head_seq m) (log_of b (log_segments m))))
       else spec_txns (spec_of (read_refs peel (h_dir h)))
              (entry_txns (filter (\<lambda>e. applied_seq (h_state h) < seq e \<and> seq e \<le> head_seq m) (log_of b (log_segments m))))) \<and>
    h_manifest h' = h_manifest h \<and> h_version h' = h_version h \<and> applied_seq (h_state h') = head_seq m"
proof -
  have rest: "case (if applied_seq (h_state h1) < head_seq m then replay_log peel b m (applied_seq (h_state h1)) (head_seq m) h1 else (Inr (), h1)) of
      (r, h') \<Rightarrow> r = Inr () \<and> refs_clean (read_refs peel (h_dir h')) \<and>
        spec_of (read_refs peel (h_dir h')) = spec_txns (spec_of (read_refs peel (h_dir h1)))
          (entry_txns (filter (\<lambda>e. applied_seq (h_state h1) < seq e \<and> seq e \<le> head_seq m) (log_of b (log_segments m)))) \<and>
        h_manifest h' = h_manifest h1 \<and> h_version h' = h_version h1"
    if "refs_clean (read_refs peel (h_dir h1))" for h1
  proof (cases "applied_seq (h_state h1) < head_seq m")
    case True
    then show ?thesis using replay_log_exact [OF that assms(2-4), of "applied_seq (h_state h1)" "head_seq m"] by (auto split: prod.splits)
  next
    case False
    then have "filter (\<lambda>e. applied_seq (h_state h1) < seq e \<and> seq e \<le> head_seq m) (log_of b (log_segments m)) = []"
      by (auto simp: filter_empty_conv)
    then show ?thesis using False that by simp
  qed
  show ?thesis
  proof (rule load_checkpoint_cases [OF assms(1,2,5,6)])
    assume "load_checkpoint b m h = (Inr (), h)" "checkpoint_seq m \<le> applied_seq (h_state h)"
    then show ?thesis using rest [OF assms(1)] by (auto simp: apply_delta_def finish_delta_def split: prod.splits)
  next
    fix snap h'
    assume "load_checkpoint b m h = (Inr (), h')" "applied_seq (h_state h) < checkpoint_seq m"
      "message_at dec_refs (checkpoint_refs_key (checkpoint_seq m)) b = Some snap"
      "refs_clean (read_refs peel (h_dir h'))" "spec_of (read_refs peel (h_dir h')) = spec_of snap"
      "applied_seq (h_state h') = checkpoint_seq m" "h_manifest h' = h_manifest h" "h_version h' = h_version h"
    then show ?thesis using rest [of h'] by (auto simp: apply_delta_def finish_delta_def split: prod.splits)
  qed
qed

text \<open>
  C8: a sync brings the local refs to the manifest's state. Take a handle behind the stored
  manifest, over a bucket that holds the listed segments (and the checkpoint's refs, when the handle
  is behind the checkpoint). Let the refs in the handle's files, and those of the checkpoint when it is used, be ones the files can
  hold (sorted distinct names without surrounding white space, hexadecimal ids, a HEAD that is a name
  or a full id), let every committed transaction of the log pass the validation, use such names,
  hexadecimal peeled ids and not point HEAD at itself or delete it, and let git peel tags to hexadecimal ids.
  Then the sync succeeds; the refs read from the local files are those of
  the checkpoint, or the ones the handle had, with exactly the committed transactions after that
  point applied in sequence order, up to the head of the manifest; they are again ones the files can hold;
  and the handle has recorded that manifest under its version. (Without the condition on names it is
  not so: a validated name that ends in a tab comes back from the files as another name.)
\<close>

theorem sync_exact:
  assumes "mem_view b MANIFEST = Some (v, ManifestObj m)" "revision (h_manifest h) < revision m" "h_version h \<noteq> Some v"
    and "refs_clean (read_refs peel (h_dir h))" "peel_hex peel" "segs_ok b (log_segments m)" "txns_clean (log_of b (log_segments m))"
    and "\<And>snap. applied_seq (h_state h) < checkpoint_seq m \<Longrightarrow>
      message_at dec_refs (checkpoint_refs_key (checkpoint_seq m)) b = Some snap \<Longrightarrow> refs_clean snap"
    and "checkpoint_seq m \<noteq> 0 \<Longrightarrow> applied_seq (h_state h) < checkpoint_seq m \<Longrightarrow>
      message_at dec_refs (checkpoint_refs_key (checkpoint_seq m)) b \<noteq> None"
  shows "case sync_locked_inner peel b h of (r, h') \<Rightarrow>
    r = Inr () \<and> h_manifest h' = m \<and> h_version h' = Some v \<and> applied_seq (h_state h') = head_seq m \<and>
    refs_clean (read_refs peel (h_dir h')) \<and>
    spec_of (read_refs peel (h_dir h')) =
      (if applied_seq (h_state h) < checkpoint_seq m
       then spec_txns (spec_of (the (message_at dec_refs (checkpoint_refs_key (checkpoint_seq m)) b)))
              (entry_txns (filter (\<lambda>e. checkpoint_seq m < seq e \<and> seq e \<le> head_seq m) (log_of b (log_segments m))))
       else spec_txns (spec_of (read_refs peel (h_dir h)))
              (entry_txns (filter (\<lambda>e. applied_seq (h_state h) < seq e \<and> seq e \<le> head_seq m) (log_of b (log_segments m)))))"
proof -
  have "freshness_check b (h_version h) = Inr (Some (v, m))"
    using assms(1,3) by (cases "h_version h") (auto simp: freshness_check_def get_message_if_changed_view get_message_view)
  moreover have "sync_apply peel b (Some (v, m)) h =
      (case apply_delta peel b m v h of (Inl e, h') \<Rightarrow> (Inl e, h') | (Inr _, h') \<Rightarrow> (Inr (), h'\<lparr>h_manifest := m, h_version := Some v\<rparr>))"
    using assms(2) by (simp add: sync_apply_def)
  ultimately show ?thesis using apply_delta_spec [OF assms(4-9), of v] by (auto simp: sync_locked_inner_def split: prod.splits)
qed

text \<open>A bucket with two committed pushes in two segments, with a burned sequence number between them.\<close>

abbreviation oid :: "char \<Rightarrow> string" where "oid c \<equiv> replicate 40 c"

definition example_manifest :: manifest where
  "example_manifest = empty_manifest\<lparr>head_seq := 3, revision := 3,
     log_segments := [\<lparr>seg_key = log_segment_key 1, first_seq = 1, last_seq = 1, seg_size = 0, sealed = True\<rparr>,
       \<lparr>seg_key = log_segment_key 3, first_seq = 3, last_seq = 3, seg_size = 0, sealed = True\<rparr>]\<rparr>"

definition example_bucket :: bucket where
  "example_bucket = run_ops
     [PutOp 0 MANIFEST (ManifestObj example_manifest) Overwrite,
      PutOp 0 (log_segment_key 1) (SegmentObj [push_entry 5 ''a'' 1 (example_push '''' (oid (CHR ''a'')))]) Create,
      PutOp 0 (log_segment_key 3) (SegmentObj [push_entry 6 ''b'' 3 (example_push (oid (CHR ''a'')) (oid (CHR ''b'')))]) Create] mem_new"

definition example_handle :: handle where
  "example_handle = \<lparr>h_manifest = empty_manifest, h_version = None, h_state = default_state, h_dir = example_dir, h_last_entry_time = None\<rparr>"

lemma example_bucket_view:
  "map_option snd (mem_view example_bucket MANIFEST) = Some (ManifestObj example_manifest)"
  "map_option snd (mem_view example_bucket (log_segment_key 1)) = Some (SegmentObj [push_entry 5 ''a'' 1 (example_push '''' (oid (CHR ''a'')))])"
  "map_option snd (mem_view example_bucket (log_segment_key 3)) = Some (SegmentObj [push_entry 6 ''b'' 3 (example_push (oid (CHR ''a'')) (oid (CHR ''b'')))])"
  by code_simp+

lemma example_segs:
  "segs_ok example_bucket (log_segments example_manifest)"
  "log_of example_bucket (log_segments example_manifest) =
     [push_entry 5 ''a'' 1 (example_push '''' (oid (CHR ''a''))), push_entry 6 ''b'' 3 (example_push (oid (CHR ''a'')) (oid (CHR ''b'')))]"
proof -
  obtain v1 v3 where v: "mem_view example_bucket (log_segment_key 1) = Some (v1, SegmentObj [push_entry 5 ''a'' 1 (example_push '''' (oid (CHR ''a'')))])"
    "mem_view example_bucket (log_segment_key 3) = Some (v3, SegmentObj [push_entry 6 ''b'' 3 (example_push (oid (CHR ''a'')) (oid (CHR ''b'')))])"
    using example_bucket_view by auto
  then show "segs_ok example_bucket (log_segments example_manifest)"
    by (simp add: segs_ok_def seg_ok_def example_manifest_def)
  show "log_of example_bucket (log_segments example_manifest) =
     [push_entry 5 ''a'' 1 (example_push '''' (oid (CHR ''a''))), push_entry 6 ''b'' 3 (example_push (oid (CHR ''a'')) (oid (CHR ''b'')))]"
    using v by (simp add: example_manifest_def log_of_def seg_entries_def)
qed

theorem sync_exact_witness:
  "case sync_locked_inner (\<lambda>_. None) example_bucket example_handle of (r, h') \<Rightarrow>
     r = Inr () \<and> sp_refs (spec_of (read_refs (\<lambda>_. None) (h_dir h'))) ''refs/heads/main'' = Some (oid (CHR ''b''))"
proof -
  let ?p = "\<lambda>_ :: string. None :: string option"
  obtain v where v: "mem_view example_bucket MANIFEST = Some (v, ManifestObj example_manifest)" using example_bucket_view(1) by auto
  have h: "refs_clean (read_refs ?p (h_dir example_handle))" "txns_clean (log_of example_bucket (log_segments example_manifest))"
    unfolding example_segs(2) by code_simp+
  have cp: "checkpoint_seq example_manifest = 0" "head_seq example_manifest = 3" "applied_seq (h_state example_handle) = 0"
      "revision (h_manifest example_handle) < revision example_manifest" "h_version example_handle \<noteq> Some v" by code_simp+
  have no: "message_at dec_refs (checkpoint_refs_key 0) example_bucket = None" by code_simp
  have "peel_hex ?p" by (simp add: peel_hex_def)
  note fact = sync_exact [OF v cp(4,5) h(1) this example_segs(1) h(2), unfolded cp no, simplified]
  have "sp_refs (spec_txns (spec_of (read_refs ?p (h_dir example_handle))) (entry_txns (filter (\<lambda>e. 0 < seq e \<and> seq e \<le> 3)
      [push_entry 5 ''a'' 1 (example_push '''' (oid (CHR ''a''))), push_entry 6 ''b'' 3 (example_push (oid (CHR ''a'')) (oid (CHR ''b'')))])))
      ''refs/heads/main'' = Some (oid (CHR ''b''))" by code_simp
  then show ?thesis using fact unfolding example_segs(2) by (auto split: prod.splits)
qed

text \<open>
  C10: reading the log returns exactly the committed entries of the range. Over a bucket that
  holds the listed segments, for any bounds, \<open>read_log\<close> succeeds and returns, in sequence order, the
  entries of the current manifest's log with a number in the range (up to the head), including when
  burned sequence numbers leave gaps; orphaned objects are never returned.
\<close>

theorem read_log_exact:
  assumes "mem_view b MANIFEST = Some (v, ManifestObj m)" "h_version h = Some v \<longrightarrow> h_manifest h = m" "segs_ok b (log_segments m)"
  shows "read_log b h from_seq to_seq =
    Inr (filter (\<lambda>e. from_seq \<le> seq e \<and> seq e \<le> or_default (head_seq m) to_seq \<and> seq e \<le> head_seq m) (log_of b (log_segments m)))"
proof -
  let ?to = "min (or_default (head_seq m) to_seq) (head_seq m)"
  let ?P = "\<lambda>s. from_seq \<le> last_seq s \<and> first_seq s \<le> ?to" and ?Q = "\<lambda>e. from_seq \<le> seq e \<and> seq e \<le> ?to"
  have check: "\<exists>outcome. freshness_check b (h_version h) = Inr outcome \<and> (case outcome of None \<Rightarrow> h_manifest h | Some (v, m) \<Rightarrow> m) = m"
    using assms(1,2) by (cases "h_version h") (auto simp: freshness_check_def get_message_if_changed_view get_message_view)
  have "\<forall>s \<in> set (log_segments m). \<forall>e. \<not> ?P s \<longrightarrow> first_seq s \<le> seq e \<longrightarrow> seq e \<le> last_seq s \<longrightarrow> \<not> ?Q e" by auto
  note r = fetch_range [OF assms(3) this]
  have Q: "?Q e \<longleftrightarrow> from_seq \<le> seq e \<and> seq e \<le> or_default (head_seq m) to_seq \<and> seq e \<le> head_seq m" for e by auto
  have empty: "filter ?Q (log_of b (log_segments m)) = []" if "?to < from_seq" using that by (auto simp: filter_empty_conv)
  have "read_log b h from_seq to_seq = Inr (filter ?Q (log_of b (log_segments m)))"
    using check r empty by (cases "?to < from_seq") (auto simp: read_log_def Let_def simp del: min_less_iff_conj min.bounded_iff)
  then show ?thesis unfolding Q .
qed

theorem read_log_exact_witness:
  "read_log example_bucket example_handle 2 None = Inr [push_entry 6 ''b'' 3 (example_push (oid (CHR ''a'')) (oid (CHR ''b'')))]"
proof -
  obtain v where v: "mem_view example_bucket MANIFEST = Some (v, ManifestObj example_manifest)" using example_bucket_view(1) by auto
  have "h_version example_handle = Some v \<longrightarrow> h_manifest example_handle = example_manifest" by (simp add: example_handle_def)
  note fact = read_log_exact [OF v this example_segs(1), of 2 None]
  show ?thesis unfolding fact example_segs(2) by (simp add: example_manifest_def or_default_def)
qed

end
