(* ===== verification/Wal_Writer.thy ===== *)
theory Wal_Writer
  imports Wal_Sync
begin

text \<open>
  The publish protocol (\<^verbatim>\<open>crates/gitcask-wal/src/publish.rs\<close>) as a machine: any number of
  instances, each with a handle on the same repository and a single-flight publisher task, over one
  bucket. One step of a publisher is one request to the bucket, or one section of code that runs
  under the handle's \<open>sync_mutex\<close>, so that everything the program can interleave is interleaved
  here: claims of log slots, manifest swaps, cleanups, syncs of other requests on the same handle,
  crashes, and requests that fail before or after they took effect. The clock is the argument
  \<open>now\<close> of a step.

  Three things are coarser than in the program. A sync reads the manifest in one step and applies
  it in a second one, with the reads of the log segments (which never change once listed) in the
  second. The uploads of packs, which run beside the claim of the log slot, come after it, one
  object per step. The marker for the maintainer, written outside the repository's prefix after a
  commit, and the tasks spawned after one (commit graph, checkpoint) are left out.
\<close>

section \<open>State\<close>

record wal_env =
  e_git :: update_ref
  e_peel :: "string \<Rightarrow> string option"
  e_instance :: "nat \<Rightarrow> string"
  e_frame_len :: "log_entry list \<Rightarrow> nat"
  e_max_retries :: nat
  e_max_batch :: nat

definition ORPHAN_GRACE_PROBES :: nat where "ORPHAN_GRACE_PROBES = 3"
definition MAX_BURN :: nat where "MAX_BURN = 8"

datatype claim_outcome = Claimed log_slot nat | Contended | ClaimFailed wal_error

text \<open>One turn of the loop of \<open>process_batch\<close>: the manifest and version it read and its verdicts.\<close>

record attempt =
  at_batch :: "publish_request list"
  at_attempts :: nat
  at_base :: manifest
  at_version :: "version option"
  at_verified :: "verified list"

definition at_requests :: "attempt \<Rightarrow> publish_request list" where
  "at_requests a = valid_requests (at_batch a) (at_verified a)"

datatype pc =
    Idle
  | Dead
  | Starting "publish_request list" nat
  | Syncing "publish_request list" nat
  | Verifying "publish_request list" nat
  | Claiming attempt nat "(string \<times> version) list"
  | Probing attempt nat "(string \<times> version) list" nat
  | Heading attempt nat "(string \<times> version) list" nat
  | Uploading attempt claim_outcome "string list"
  | Committing attempt log_slot nat
  | Landing attempt log_slot
  | Recovering attempt log_slot manifest
  | Installing attempt log_slot manifest "version option"
  | Sweeping attempt log_slot "(string \<times> version) list"
  | Dropping attempt log_slot

text \<open>The \<open>sync_mutex\<close> of a handle: free, held by a sync that has read the manifest, or by the opening of the repository.\<close>

datatype lock = Free | SyncRead "(version \<times> manifest) option" | OpenRead version manifest

record writer =
  w_handle :: handle
  w_lock :: lock
  w_pc :: pc

type_synonym answer = "nat \<times> publish_request \<times> (wal_error, publish_result) result"

record world =
  bucket :: bucket
  writers :: "nat \<Rightarrow> writer"
  answers :: "answer list"

text \<open>
  What may happen to a request: it fails before it reaches the bucket, a conditional one is refused
  without reason, or it takes effect and the response is lost. \<open>TtlActive\<close>: the freshness window of
  the handle is open, so that a sync is skipped.
\<close>

datatype fault = Fine | Fail | Spurious | Lost | TtlActive

datatype event =
    EvOpen nat bool
  | EvSync nat
  | EvApply nat
  | EvBegin nat "publish_request list"
  | EvStep nat nat fault
  | EvCrash nat

abbreviation transient :: store_error where "transient \<equiv> Retryable ''transient''"

fun put_fault_of :: "fault \<Rightarrow> string \<Rightarrow> put_fault" where
  "put_fault_of Fail k = NotSent transient"
| "put_fault_of Spurious k = NotSent (PreconditionFailed k None)"
| "put_fault_of Lost k = LostResponse transient"
| "put_fault_of _ k = NoFault"

section \<open>Parts of a step\<close>

definition set_writer :: "nat \<Rightarrow> writer \<Rightarrow> world \<Rightarrow> world" where
  "set_writer i wr w = w\<lparr>writers := (writers w)(i := wr)\<rparr>"

definition goto :: "nat \<Rightarrow> pc \<Rightarrow> world \<Rightarrow> world" where
  "goto i p w = set_writer i ((writers w i)\<lparr>w_pc := p\<rparr>) w"

text \<open>\<open>finish_all_errors\<close>, \<open>finish_with_error\<close>, \<open>finish_with_error_msg\<close>: every waiter gets the error.\<close>

definition finish_error :: "nat \<Rightarrow> publish_request list \<Rightarrow> wal_error \<Rightarrow> world \<Rightarrow> world" where
  "finish_error i batch e w =
     (goto i Idle w)\<lparr>answers := answers w @ map (\<lambda>r. (i, r, Inl (PublishFailed e (wal_retryable e)))) batch\<rparr>"

definition finish_respond :: "nat \<Rightarrow> publish_request list \<Rightarrow> verified list \<Rightarrow> nat \<Rightarrow> world \<Rightarrow> world" where
  "finish_respond i batch vs first w =
     (goto i Idle w)\<lparr>answers := answers w @ map (\<lambda>(r, res). (i, r, Inr res)) (zip batch (respond first vs))\<rparr>"

text \<open>A lost race: sync again and retry, or give up.\<close>

definition contended :: "wal_env \<Rightarrow> nat \<Rightarrow> attempt \<Rightarrow> world \<Rightarrow> world" where
  "contended env i a w =
     (if e_max_retries env \<le> at_attempts a + 1 then finish_error i (at_batch a) (Retry (at_attempts a + 1)) w
      else goto i (Starting (at_batch a) (at_attempts a + 1)) w)"

definition needs_sync :: "publish_request list \<Rightarrow> nat \<Rightarrow> bool" where
  "needs_sync batch n \<longleftrightarrow> n > 0 \<or> list_ex (\<lambda>r. \<not> synced r) batch"

definition upload_keys :: "publish_request list \<Rightarrow> string list" where
  "upload_keys batch = concat (map (\<lambda>r. case req_pack r of None \<Rightarrow> [] | Some p \<Rightarrow> [pack_key (ing_checksum p), idx_key (ing_checksum p)]) batch)"

definition put_immutable_create :: "fault \<Rightarrow> nat \<Rightarrow> string \<Rightarrow> bucket \<Rightarrow> (wal_error, unit) result \<times> bucket" where
  "put_immutable_create flt now key b =
     (case put_with (put_fault_of flt key) now key PackObj Create b of
        (Inr om, b') \<Rightarrow> (Inr (), b')
      | (Inl (PreconditionFailed k v), b') \<Rightarrow>
          (case mem_head key b' of
             Some om \<Rightarrow> (Inr (), b')
           | None \<Rightarrow> (case mem_put now key PackObj Overwrite b' of (Inr om, b'') \<Rightarrow> (Inr (), b'') | (Inl e, b'') \<Rightarrow> (Inl (WalStore e), b'')))
      | (Inl e, b') \<Rightarrow> (Inl (WalStore e), b'))"

definition read_manifest_fresh :: "bucket \<Rightarrow> (wal_error, manifest option) result" where
  "read_manifest_fresh b =
     (case get_bytes (plain_get MANIFEST b) of
        Inl e \<Rightarrow> Inl (WalStore e)
      | Inr None \<Rightarrow> Inr None
      | Inr (Some (om, o')) \<Rightarrow> (case dec_manifest o' of None \<Rightarrow> Inl (Corrupt ''manifest decode'') | Some m \<Rightarrow> Inr (Some m)))"

text \<open>The manifest that commits a claimed slot.\<close>

definition commit_target :: "wal_env \<Rightarrow> nat \<Rightarrow> nat \<Rightarrow> attempt \<Rightarrow> log_slot \<Rightarrow> nat \<Rightarrow> manifest" where
  "commit_target env now i a slot flen =
     (let reqs = at_requests a;
          new_packs = snd (build_batch now (e_instance env i) reqs (slot_first slot));
          lst = slot_first slot + (length reqs - 1)
      in with_receipts (slot_first slot) reqs (updated_manifest now (at_base a) slot lst flen (e_instance env i) new_packs))"

definition lists_slot :: "log_slot \<Rightarrow> manifest \<Rightarrow> bool" where
  "lists_slot slot m = list_ex (\<lambda>s. seg_key s = slot_key slot \<and> first_seq s = slot_first slot) (log_segments m)"

section \<open>The publisher's steps\<close>

definition step_starting :: "wal_env \<Rightarrow> fault \<Rightarrow> nat \<Rightarrow> publish_request list \<Rightarrow> nat \<Rightarrow> world \<Rightarrow> world" where
  "step_starting env flt i batch n w =
     (if \<not> needs_sync batch n \<or> flt = TtlActive then goto i (Verifying batch n) w
      else if flt \<noteq> Fine then finish_error i batch (WalCoord (CoordStore transient)) w
      else if w_lock (writers w i) \<noteq> Free then w
      else case freshness_check (bucket w) (h_version (w_handle (writers w i))) of
             Inl e \<Rightarrow> finish_error i batch e w
           | Inr outcome \<Rightarrow> set_writer i ((writers w i)\<lparr>w_lock := SyncRead outcome, w_pc := Syncing batch n\<rparr>) w)"

definition step_verifying :: "wal_env \<Rightarrow> nat \<Rightarrow> publish_request list \<Rightarrow> nat \<Rightarrow> world \<Rightarrow> world" where
  "step_verifying env i batch n w =
     (let h = w_handle (writers w i)
      in if w_lock (writers w i) \<noteq> Free then w
         else case verify_batch (rv_new (read_refs (e_peel env) (h_dir h))) (h_last_entry_time h) batch (h_manifest h) of
                None \<Rightarrow> w
              | Some vs \<Rightarrow>
                  if valid_requests batch vs = [] then finish_respond i batch vs 0 w
                  else goto i (Claiming \<lparr>at_batch = batch, at_attempts = n, at_base = h_manifest h, at_version = h_version h, at_verified = vs\<rparr>
                                 (head_seq (h_manifest h) + 1) []) w)"

text \<open>\<open>claim_log_slot\<close>: the PUT, the read of the manifest, the HEAD of the foreign segment.\<close>

definition step_claiming :: "wal_env \<Rightarrow> nat \<Rightarrow> fault \<Rightarrow> nat \<Rightarrow> attempt \<Rightarrow> nat \<Rightarrow> (string \<times> version) list \<Rightarrow> world \<Rightarrow> world" where
  "step_claiming env now flt i a s burnt w =
     (let key = log_segment_key s;
          es = fst (build_batch now (e_instance env i) (at_requests a) s)
      in case put_with (put_fault_of flt key) now key (SegmentObj es) Create (bucket w) of
           (Inr om, b') \<Rightarrow>
             (goto i (Uploading a (Claimed \<lparr>slot_key = key, slot_version = meta_version om, slot_first = s, burned = burnt\<rparr> (e_frame_len env es))
                        (upload_keys (at_batch a))) w)\<lparr>bucket := b'\<rparr>
         | (Inl (PreconditionFailed k v), b') \<Rightarrow> (goto i (Probing a s burnt 0) w)\<lparr>bucket := b'\<rparr>
         | (Inl e, b') \<Rightarrow> (goto i (Uploading a (ClaimFailed (WalStore e)) (upload_keys (at_batch a))) w)\<lparr>bucket := b'\<rparr>)"

definition step_probing :: "fault \<Rightarrow> nat \<Rightarrow> attempt \<Rightarrow> nat \<Rightarrow> (string \<times> version) list \<Rightarrow> nat \<Rightarrow> world \<Rightarrow> world" where
  "step_probing flt i a s burnt probes w =
     (case (if flt = Fail then Inl (WalStore transient) else read_manifest_fresh (bucket w)) of
        Inl e \<Rightarrow> goto i (Uploading a (ClaimFailed e) (upload_keys (at_batch a))) w
      | Inr fresh \<Rightarrow>
          (let fresh_head = (case fresh of None \<Rightarrow> 0 | Some m \<Rightarrow> head_seq m)
           in if s \<le> fresh_head then goto i (Uploading a Contended (upload_keys (at_batch a))) w
              else goto i (Heading a s burnt probes) w))"

definition step_heading :: "fault \<Rightarrow> nat \<Rightarrow> attempt \<Rightarrow> nat \<Rightarrow> (string \<times> version) list \<Rightarrow> nat \<Rightarrow> world \<Rightarrow> world" where
  "step_heading flt i a s burnt probes w =
     (let key = log_segment_key s
      in if flt = Fail then goto i (Uploading a (ClaimFailed (WalStore transient)) (upload_keys (at_batch a))) w
         else case mem_head key (bucket w) of
                None \<Rightarrow> goto i (Claiming a s burnt) w
              | Some om \<Rightarrow>
                  if probes + 1 < ORPHAN_GRACE_PROBES then goto i (Probing a s burnt (probes + 1)) w
                  else if MAX_BURN \<le> length (burnt @ [(key, meta_version om)])
                       then goto i (Uploading a (ClaimFailed (Corrupt ''consecutive orphaned log segments'')) (upload_keys (at_batch a))) w
                       else goto i (Claiming a (s + 1) (burnt @ [(key, meta_version om)])) w)"

definition step_uploading :: "wal_env \<Rightarrow> nat \<Rightarrow> fault \<Rightarrow> nat \<Rightarrow> attempt \<Rightarrow> claim_outcome \<Rightarrow> string list \<Rightarrow> world \<Rightarrow> world" where
  "step_uploading env now flt i a out keys w =
     (case keys of
        k # ks \<Rightarrow>
          (case put_immutable_create flt now k (bucket w) of
             (Inl e, b') \<Rightarrow> (finish_error i (at_batch a) e w)\<lparr>bucket := b'\<rparr>
           | (Inr _, b') \<Rightarrow> (goto i (Uploading a out ks) w)\<lparr>bucket := b'\<rparr>)
      | [] \<Rightarrow>
          (case out of
             Claimed slot flen \<Rightarrow> goto i (Committing a slot flen) w
           | Contended \<Rightarrow> contended env i a w
           | ClaimFailed e \<Rightarrow> finish_error i (at_batch a) e w))"

text \<open>\<open>commit_manifest\<close>, \<open>cas_landed\<close>, \<open>recover_manifest_version\<close>.\<close>

definition step_committing :: "wal_env \<Rightarrow> nat \<Rightarrow> fault \<Rightarrow> nat \<Rightarrow> attempt \<Rightarrow> log_slot \<Rightarrow> nat \<Rightarrow> world \<Rightarrow> world" where
  "step_committing env now flt i a slot flen w =
     (let updated = commit_target env now i a slot flen;
          mode = (case at_version a of Some v \<Rightarrow> Update v | None \<Rightarrow> Create)
      in case put_with (put_fault_of flt MANIFEST) now MANIFEST (ManifestObj updated) mode (bucket w) of
           (Inr om, b') \<Rightarrow> (goto i (Installing a slot updated (Some (meta_version om))) w)\<lparr>bucket := b'\<rparr>
         | (Inl (PreconditionFailed k v), b') \<Rightarrow> (goto i (Dropping a slot) w)\<lparr>bucket := b'\<rparr>
         | (Inl e, b') \<Rightarrow> (goto i (Landing a slot) w)\<lparr>bucket := b'\<rparr>)"

definition step_landing :: "fault \<Rightarrow> nat \<Rightarrow> attempt \<Rightarrow> log_slot \<Rightarrow> world \<Rightarrow> world" where
  "step_landing flt i a slot w =
     (case (if flt = Fail then Inl (WalStore transient) else read_manifest_fresh (bucket w)) of
        Inr (Some fresh) \<Rightarrow>
          if lists_slot slot fresh then goto i (Recovering a slot fresh) w
          else finish_error i (at_batch a) (WalStore transient) w
      | _ \<Rightarrow> finish_error i (at_batch a) (WalStore transient) w)"

definition step_recovering :: "fault \<Rightarrow> nat \<Rightarrow> attempt \<Rightarrow> log_slot \<Rightarrow> manifest \<Rightarrow> world \<Rightarrow> world" where
  "step_recovering flt i a slot m w =
     goto i (Installing a slot m (if flt = Fail then None else map_option meta_version (mem_head MANIFEST (bucket w)))) w"

text \<open>\<open>apply_local_ref_txns\<close>: stops at the first transaction that fails.\<close>

fun apply_local :: "wal_env \<Rightarrow> ref_transaction list \<Rightarrow> git_dir \<Rightarrow> bool \<times> git_dir" where
  "apply_local env [] d = (True, d)"
| "apply_local env (t # ts) d =
     (case apply_ref_txn (e_git env) (e_peel env) False t d of
        Some (Inr _, d') \<Rightarrow> apply_local env ts d'
      | Some (Inl e, d') \<Rightarrow> (False, d')
      | None \<Rightarrow> (False, d))"

text \<open>\<open>commit_local\<close>.\<close>

definition install :: "wal_env \<Rightarrow> nat \<Rightarrow> nat \<Rightarrow> attempt \<Rightarrow> log_slot \<Rightarrow> manifest \<Rightarrow> version option \<Rightarrow> handle \<Rightarrow> handle" where
  "install env now i a slot m ver h =
     (let reqs = at_requests a;
          lst = slot_first slot + (length reqs - 1);
          (ok, d) = apply_local env (map req_txn reqs) (h_dir h);
          h1 = h\<lparr>h_dir := d\<rparr>;
          h2 = (case (ok, ver) of
                  (True, Some v) \<Rightarrow>
                    (let st = h_state h1; ready = packs_ready st;
                         st' = st\<lparr>st_manifest_version := Some v, applied_seq := lst, st_revision := revision m\<rparr>
                     in h1\<lparr>h_manifest := m, h_version := Some v,
                          h_state := (if ready then st'\<lparr>packs_revision := revision m\<rparr> else st')\<rparr>)
                | _ \<Rightarrow> h1\<lparr>h_version := None\<rparr>)
      in h2\<lparr>h_last_entry_time := foldl note_entry_time (h_last_entry_time h2)
             (map created_at (fst (build_batch now (e_instance env i) reqs (slot_first slot))))\<rparr>)"

definition step_installing :: "wal_env \<Rightarrow> nat \<Rightarrow> nat \<Rightarrow> attempt \<Rightarrow> log_slot \<Rightarrow> manifest \<Rightarrow> version option \<Rightarrow> world \<Rightarrow> world" where
  "step_installing env now i a slot m ver w =
     (if w_lock (writers w i) \<noteq> Free then w
      else set_writer i ((writers w i)\<lparr>w_handle := install env now i a slot m ver (w_handle (writers w i)), w_pc := Sweeping a slot (burned slot)\<rparr>) w)"

text \<open>\<open>sweep_burned\<close> and \<open>drop_own_slot\<close>: conditional deletes whose outcome is ignored.\<close>

definition try_delete :: "fault \<Rightarrow> string \<Rightarrow> version \<Rightarrow> bucket \<Rightarrow> bucket" where
  "try_delete flt k v b = (if flt = Fail \<or> flt = Spurious then b else snd (mem_delete k (Some v) b))"

definition step_sweeping :: "fault \<Rightarrow> nat \<Rightarrow> attempt \<Rightarrow> log_slot \<Rightarrow> (string \<times> version) list \<Rightarrow> world \<Rightarrow> world" where
  "step_sweeping flt i a slot todo w =
     (case todo of
        (k, v) # rest \<Rightarrow> (goto i (Sweeping a slot rest) w)\<lparr>bucket := try_delete flt k v (bucket w)\<rparr>
      | [] \<Rightarrow> finish_respond i (at_batch a) (at_verified a) (slot_first slot) w)"

definition step_dropping :: "wal_env \<Rightarrow> fault \<Rightarrow> nat \<Rightarrow> attempt \<Rightarrow> log_slot \<Rightarrow> world \<Rightarrow> world" where
  "step_dropping env flt i a slot w =
     (contended env i a w)\<lparr>bucket := try_delete flt (slot_key slot) (slot_version slot) (bucket w)\<rparr>"

fun at_pc :: "wal_env \<Rightarrow> nat \<Rightarrow> fault \<Rightarrow> nat \<Rightarrow> pc \<Rightarrow> world \<Rightarrow> world" where
  "at_pc env now flt i Idle w = w"
| "at_pc env now flt i Dead w = w"
| "at_pc env now flt i (Starting batch n) w = step_starting env flt i batch n w"
| "at_pc env now flt i (Syncing batch n) w = w"
| "at_pc env now flt i (Verifying batch n) w = step_verifying env i batch n w"
| "at_pc env now flt i (Claiming a s burnt) w = step_claiming env now flt i a s burnt w"
| "at_pc env now flt i (Probing a s burnt p) w = step_probing flt i a s burnt p w"
| "at_pc env now flt i (Heading a s burnt p) w = step_heading flt i a s burnt p w"
| "at_pc env now flt i (Uploading a out keys) w = step_uploading env now flt i a out keys w"
| "at_pc env now flt i (Committing a slot flen) w = step_committing env now flt i a slot flen w"
| "at_pc env now flt i (Landing a slot) w = step_landing flt i a slot w"
| "at_pc env now flt i (Recovering a slot m) w = step_recovering flt i a slot m w"
| "at_pc env now flt i (Installing a slot m ver) w = step_installing env now i a slot m ver w"
| "at_pc env now flt i (Sweeping a slot todo) w = step_sweeping flt i a slot todo w"
| "at_pc env now flt i (Dropping a slot) w = step_dropping env flt i a slot w"

definition publish_step :: "wal_env \<Rightarrow> nat \<Rightarrow> fault \<Rightarrow> nat \<Rightarrow> world \<Rightarrow> world" where
  "publish_step env now flt i w = at_pc env now flt i (w_pc (writers w i)) w"

section \<open>Opening, syncing, crashing\<close>

text \<open>\<open>LocalRepo::init\<close>, and the registry's \<open>create\<close> and \<open>open\<close>: the cached directory of an earlier run may still be there, or not.\<close>

definition init_dir :: git_dir where
  "init_dir = \<lparr>packed_file = None, loose_files = [], head_file = Some (''ref: refs/heads/main'' @ nl)\<rparr>"

definition new_manifest :: "nat \<Rightarrow> string \<Rightarrow> string \<Rightarrow> string \<Rightarrow> manifest" where
  "new_manifest now inst rid fmt =
     \<lparr>format_version = 1, repo = rid, object_format = fmt, head_seq = 0, min_seq = 0, checkpoint = None, log_segments = [], packs = [],
      updated_at = Some now, manifest_writer = inst, revision = 1, m_initialization = None, m_import_receipt = None\<rparr>"

definition new_handle :: "manifest \<Rightarrow> version \<Rightarrow> repo_state \<Rightarrow> git_dir \<Rightarrow> handle" where
  "new_handle m v st d = \<lparr>h_manifest = m, h_version = Some v, h_state = st, h_dir = d, h_last_entry_time = None\<rparr>"

definition registry_create :: "nat \<Rightarrow> string \<Rightarrow> string \<Rightarrow> string \<Rightarrow> bucket \<Rightarrow> (wal_error, handle) result \<times> bucket" where
  "registry_create now inst rid fmt b =
     (let m = new_manifest now inst rid fmt
      in case mem_put now MANIFEST (ManifestObj m) Create b of
           (Inr om, b') \<Rightarrow> (Inr (new_handle m (meta_version om) default_state init_dir), b')
         | (Inl (PreconditionFailed k v), b') \<Rightarrow> (Inl AlreadyExists, b')
         | (Inl e, b') \<Rightarrow> (Inl (WalStore e), b'))"

definition step_open :: "nat \<Rightarrow> bool \<Rightarrow> world \<Rightarrow> world" where
  "step_open i wiped w =
     (let wr = writers w i
      in if w_pc wr \<noteq> Dead then w
         else case get_message dec_manifest MANIFEST (bucket w) of
                Inr (Some (om, m)) \<Rightarrow>
                  set_writer i
                    \<lparr>w_handle = new_handle m (meta_version om) (if wiped then default_state else h_state (w_handle wr)) (if wiped then init_dir else h_dir (w_handle wr)),
                     w_lock = OpenRead (meta_version om) m, w_pc = Idle\<rparr> w
              | _ \<Rightarrow> w)"

text \<open>A sync on behalf of some other request on the handle.\<close>

definition step_sync :: "nat \<Rightarrow> world \<Rightarrow> world" where
  "step_sync i w =
     (let wr = writers w i
      in if w_pc wr = Dead \<or> w_lock wr \<noteq> Free then w
         else case freshness_check (bucket w) (h_version (w_handle wr)) of
                Inl e \<Rightarrow> w
              | Inr outcome \<Rightarrow> set_writer i (wr\<lparr>w_lock := SyncRead outcome\<rparr>) w)"

text \<open>The second half of a sync, or of opening.\<close>

definition step_apply :: "wal_env \<Rightarrow> nat \<Rightarrow> world \<Rightarrow> world" where
  "step_apply env i w =
     (let wr = writers w i; h = w_handle wr
      in case w_lock wr of
           Free \<Rightarrow> w
         | SyncRead outcome \<Rightarrow>
             (case sync_apply (e_peel env) (bucket w) outcome h of
                (r, h') \<Rightarrow>
                  (let w' = set_writer i (wr\<lparr>w_handle := h', w_lock := Free\<rparr>) w
                   in case w_pc wr of
                        Syncing batch n \<Rightarrow> (case r of Inr _ \<Rightarrow> goto i (Verifying batch n) w' | Inl e \<Rightarrow> finish_error i batch e w')
                      | _ \<Rightarrow> w'))
         | OpenRead v m \<Rightarrow>
             if applied_seq (h_state h) < head_seq m then
               (case apply_delta (e_peel env) (bucket w) m v h of
                  (Inr _, h') \<Rightarrow> set_writer i (wr\<lparr>w_handle := h', w_lock := Free\<rparr>) w
                | (Inl e, h') \<Rightarrow> set_writer i (wr\<lparr>w_handle := h', w_lock := Free, w_pc := Dead\<rparr>) w)
             else set_writer i (wr\<lparr>w_lock := Free\<rparr>) w)"

text \<open>The publisher task takes up to \<open>max_batch\<close> queued requests.\<close>

fun is_opening :: "lock \<Rightarrow> bool" where
  "is_opening (OpenRead v m) = True"
| "is_opening _ = False"

definition step_begin :: "wal_env \<Rightarrow> nat \<Rightarrow> publish_request list \<Rightarrow> world \<Rightarrow> world" where
  "step_begin env i batch w =
     (if w_pc (writers w i) = Idle \<and> \<not> is_opening (w_lock (writers w i)) \<and> batch \<noteq> [] \<and> length batch \<le> e_max_batch env
      then goto i (Starting batch 0) w else w)"

definition step_crash :: "nat \<Rightarrow> world \<Rightarrow> world" where
  "step_crash i w = set_writer i ((writers w i)\<lparr>w_lock := Free, w_pc := Dead\<rparr>) w"

fun step :: "wal_env \<Rightarrow> world \<Rightarrow> event \<Rightarrow> world" where
  "step env w (EvOpen i wiped) = step_open i wiped w"
| "step env w (EvSync i) = step_sync i w"
| "step env w (EvApply i) = step_apply env i w"
| "step env w (EvBegin i batch) = step_begin env i batch w"
| "step env w (EvStep i now flt) = publish_step env now flt i w"
| "step env w (EvCrash i) = step_crash i w"

definition run :: "wal_env \<Rightarrow> event list \<Rightarrow> world \<Rightarrow> world" where
  "run env evs w = foldl (step env) w evs"

text \<open>The world after one instance created the repository in an empty bucket.\<close>

definition first_world :: "wal_env \<Rightarrow> nat \<Rightarrow> string \<Rightarrow> string \<Rightarrow> world" where
  "first_world env now rid fmt =
     (case registry_create now (e_instance env 0) rid fmt mem_new of
        (r, b) \<Rightarrow>
          (let h = (case r of Inr h \<Rightarrow> h | Inl e \<Rightarrow> new_handle (new_manifest now (e_instance env 0) rid fmt) [] default_state init_dir)
           in \<lparr>bucket = b, writers = (\<lambda>i. \<lparr>w_handle = h, w_lock = Free, w_pc = (if i = 0 then Idle else Dead)\<rparr>), answers = []\<rparr>))"

end
