(* ===== verification/Wal_Invariant.thy ===== *)
theory Wal_Invariant
  imports Wal_Writer
begin

text \<open>
  The invariant of the publish protocol: what holds of the bucket, of every handle, of every
  publisher's local state and of the answers given, at every moment of a run, together with the
  effect of the bucket operations on it. It is stated relative to the current version and manifest
  (\<open>cv\<close>, \<open>cm\<close>) and a bound \<open>bnd\<close> on the numbers in use, which keeps the 64-bit counters from wrapping.
  \<open>grow\<close> is the only way a step may change the bucket: either the manifest stays, or it gets one more
  segment; listed segments never change.
\<close>

section \<open>Replaying is last writer wins\<close>

text \<open>
  An update overwrites one ref or HEAD with a value that does not depend on the state. So replaying
  updates again, on refs that already have them and later ones, changes nothing in the end.
\<close>

fun writes_ref :: "ref_update list \<Rightarrow> string \<Rightarrow> bool" where
  "writes_ref [] n = False"
| "writes_ref (u # us) n = (new_symbolic_target u = [] \<and> upd_name u = n \<and> n \<noteq> HEAD \<or> writes_ref us n)"

fun writes_head :: "ref_update list \<Rightarrow> bool" where
  "writes_head [] = False"
| "writes_head (u # us) = (upd_name u = HEAD \<or> writes_head us)"

lemma writes_append [simp]:
  "writes_ref (us @ us') n = (writes_ref us n \<or> writes_ref us' n)" "writes_head (us @ us') = (writes_head us \<or> writes_head us')"
  by (induction us) auto

definition same_on :: "ref_update list \<Rightarrow> refs_spec \<Rightarrow> refs_spec \<Rightarrow> bool" where
  "same_on us a b \<longleftrightarrow> (\<forall>n. writes_ref us n \<longrightarrow> sp_refs a n = sp_refs b n) \<and>
     (writes_head us \<longrightarrow> sp_target a = sp_target b \<and> sp_detached a = sp_detached b)"

definition same_off :: "ref_update list \<Rightarrow> refs_spec \<Rightarrow> refs_spec \<Rightarrow> bool" where
  "same_off us a b \<longleftrightarrow> (\<forall>n. \<not> writes_ref us n \<longrightarrow> sp_refs a n = sp_refs b n) \<and>
     (\<not> writes_head us \<longrightarrow> sp_target a = sp_target b \<and> sp_detached a = sp_detached b)"

lemma same_both:
  assumes "same_on us a b" "same_off us a b"
  shows "a = b"
proof (rule refs_spec.equality)
  show "sp_refs a = sp_refs b" using assms by (auto simp: same_on_def same_off_def fun_eq_iff)
qed (use assms in \<open>auto simp: same_on_def same_off_def\<close>)

lemma updates_same_on: "same_on us (foldl spec_update a us) (foldl spec_update b us)"
proof (induction us arbitrary: a b rule: rev_induct)
  case (snoc u us)
  show ?case using snoc [of a b] by (simp add: same_on_def spec_update_def)
qed (simp add: same_on_def)

lemma updates_same_off: "same_off us (foldl spec_update a us) a"
proof (induction us rule: rev_induct)
  case (snoc u us)
  then show ?case by (simp add: same_off_def spec_update_def)
qed (simp add: same_off_def)

lemma same_off_append: "same_off us a b \<Longrightarrow> same_off (us' @ us) a b"
  by (simp add: same_off_def)

lemma same_off_join: "same_off us a b \<Longrightarrow> same_off us c b \<Longrightarrow> same_off us a c"
  by (simp add: same_off_def)

lemma replay_again:
  assumes "c = spec_txns a (ps @ ys)" "c = spec_txns b ys"
  shows "spec_txns b (ps @ ys) = c"
proof -
  let ?ps = "concat (map updates ps)" and ?ys = "concat (map updates ys)"
  have "same_on (?ps @ ?ys) (spec_txns b (ps @ ys)) c"
    using updates_same_on [of "?ps @ ?ys" b a] assms(1) by (simp add: spec_txns_def)
  moreover have "same_off (?ps @ ?ys) (spec_txns b (ps @ ys)) b"
    using updates_same_off [of "?ps @ ?ys" b] by (simp add: spec_txns_def)
  moreover have "same_off (?ps @ ?ys) c b"
    using same_off_append [OF updates_same_off [of ?ys b]] assms(2) by (simp add: spec_txns_def)
  ultimately show ?thesis using same_both same_off_join by blast
qed

section \<open>Serial logs\<close>

text \<open>Every transaction of the list names the values that the ones before it left.\<close>

fun log_serial :: "refs_spec \<Rightarrow> ref_transaction list \<Rightarrow> bool" where
  "log_serial a [] = True"
| "log_serial a (t # ts) = (txn_matches a t \<and> log_serial (spec_txns a [t]) ts)"

lemma log_serial_append: "log_serial a (ts @ us) = (log_serial a ts \<and> log_serial (spec_txns a ts) us)"
  by (induction ts arbitrary: a) auto

lemma serial_requests:
  "map valid vs = serial a fl p batch \<Longrightarrow> length vs = length batch \<Longrightarrow> log_serial a (map req_txn (valid_requests batch vs))"
proof (induction batch arbitrary: vs a fl p)
  case (Cons r rs)
  then obtain v vs' where vs: "vs = v # vs'" by (cases vs) auto
  then show ?case using Cons by (auto simp: admissible_def split: if_splits)
qed simp

section \<open>The invariant\<close>

definition init_spec :: refs_spec where
  "init_spec = \<lparr>sp_refs = (\<lambda>_. None), sp_target = ''refs/heads/main'', sp_detached = []\<rparr>"

text \<open>The refs after all committed entries.\<close>

definition cold :: "bucket \<Rightarrow> manifest \<Rightarrow> refs_spec" where
  "cold b m = spec_txns init_spec (entry_txns (log_of b (log_segments m)))"

text \<open>The manifest's own numbers agree: one revision per segment, the head is the end of the last one.\<close>

definition chain :: "manifest \<Rightarrow> bool" where
  "chain m \<longleftrightarrow> revision m = Suc (length (log_segments m)) \<and> checkpoint m = None \<and>
     head_seq m = (if log_segments m = [] then 0 else last_seq (last (log_segments m)))"

text \<open>The current manifest and what it lists.\<close>

definition entry_ok :: "log_entry \<Rightarrow> bool" where
  "entry_ok e \<longleftrightarrow> kind e = Push \<and> (\<exists>t. txn e = Some t \<and> list_all upd_clean (updates t))"

definition listed_ok :: "log_segment_ref \<Rightarrow> bool" where
  "listed_ok s \<longleftrightarrow> seg_key s = log_segment_key (first_seq s) \<and> 0 < first_seq s"

definition packs_there :: "bucket \<Rightarrow> manifest \<Rightarrow> bool" where
  "packs_there b m \<longleftrightarrow> (\<forall>p \<in> set (packs m). mem_view b (pack_key (checksum p)) \<noteq> None \<and> mem_view b (idx_key (checksum p)) \<noteq> None)"

definition bucket_inv :: "nat \<Rightarrow> bucket \<Rightarrow> version \<Rightarrow> manifest \<Rightarrow> bool" where
  "bucket_inv bnd b cv cm \<longleftrightarrow> mem_ok b \<and> mem_view b MANIFEST = Some (cv, ManifestObj cm) \<and> chain cm \<and> head_seq cm \<le> bnd \<and> unat (counter b) \<le> bnd \<and>
     segs_ok b (log_segments cm) \<and> list_all listed_ok (log_segments cm) \<and> list_all entry_ok (log_of b (log_segments cm)) \<and>
     log_serial init_spec (entry_txns (log_of b (log_segments cm))) \<and> packs_there b cm"

text \<open>A manifest that was current at some time, and a version under which it was read.\<close>

definition hist :: "manifest \<Rightarrow> manifest \<Rightarrow> bool" where
  "hist m cm \<longleftrightarrow> prefix (log_segments m) (log_segments cm) \<and> chain m \<and> (revision m = revision cm \<longrightarrow> m = cm)"

definition known :: "bucket \<Rightarrow> version \<Rightarrow> manifest \<Rightarrow> version \<Rightarrow> manifest \<Rightarrow> bool" where
  "known b cv cm v m \<longleftrightarrow> v \<in> mem_issued b \<and> hist m cm \<and> (v = cv \<longrightarrow> m = cm)"

text \<open>The local refs: replaying what the handle has not applied gives the refs of the log.\<close>

definition files_inv :: "wal_env \<Rightarrow> bucket \<Rightarrow> manifest \<Rightarrow> git_dir \<Rightarrow> nat \<Rightarrow> bool" where
  "files_inv env b cm d n \<longleftrightarrow> refs_clean (read_refs (e_peel env) d) \<and> snap_head_target (read_refs (e_peel env) d) \<noteq> HEAD \<and> n \<le> head_seq cm \<and>
     spec_txns (spec_of (read_refs (e_peel env) d)) (entry_txns (filter (\<lambda>e. n < seq e) (log_of b (log_segments cm)))) = cold b cm"

definition handle_inv :: "wal_env \<Rightarrow> bucket \<Rightarrow> version \<Rightarrow> manifest \<Rightarrow> handle \<Rightarrow> bool" where
  "handle_inv env b cv cm h \<longleftrightarrow> (\<exists>v. h_version h = Some v \<and> known b cv cm v (h_manifest h)) \<and> applied_seq (h_state h) = head_seq (h_manifest h)"

fun lock_inv :: "bucket \<Rightarrow> version \<Rightarrow> manifest \<Rightarrow> handle \<Rightarrow> lock \<Rightarrow> bool" where
  "lock_inv b cv cm h Free = True"
| "lock_inv b cv cm h (SyncRead None) = True"
| "lock_inv b cv cm h (SyncRead (Some (v, m))) = known b cv cm v m"
| "lock_inv b cv cm h (OpenRead v m) = (known b cv cm v m \<and> h_version h = Some v \<and> h_manifest h = m \<and> applied_seq (h_state h) \<le> head_seq m)"

text \<open>A batch, an attempt, a claimed slot.\<close>

definition batch_ok :: "wal_env \<Rightarrow> publish_request list \<Rightarrow> bool" where
  "batch_ok env batch \<longleftrightarrow> list_all (\<lambda>r. list_all upd_clean (updates (req_txn r))) batch \<and> length batch \<le> e_max_batch env"

definition attempt_inv :: "wal_env \<Rightarrow> bucket \<Rightarrow> version \<Rightarrow> manifest \<Rightarrow> handle \<Rightarrow> attempt \<Rightarrow> bool" where
  "attempt_inv env b cv cm h a \<longleftrightarrow> batch_ok env (at_batch a) \<and> length (at_verified a) = length (at_batch a) \<and> at_requests a \<noteq> [] \<and>
     prefix (log_segments (at_base a)) (log_segments (h_manifest h)) \<and>
     (\<exists>v. at_version a = Some v \<and> known b cv cm v (at_base a) \<and>
        (v = cv \<longrightarrow> log_serial (cold b cm) (map req_txn (at_requests a))))"

definition burned_ok :: "attempt \<Rightarrow> nat \<Rightarrow> (string \<times> version) list \<Rightarrow> bool" where
  "burned_ok a s burnt \<longleftrightarrow> head_seq (at_base a) < s \<and>
     (\<forall>(k, v) \<in> set burnt. \<exists>q. k = log_segment_key q \<and> head_seq (at_base a) < q \<and> q < s)"

definition claim_ok :: "nat \<Rightarrow> attempt \<Rightarrow> nat \<Rightarrow> (string \<times> version) list \<Rightarrow> bool" where
  "claim_ok bnd a s burnt \<longleftrightarrow> burned_ok a s burnt \<and> s + length (at_requests a) \<le> bnd"

text \<open>The segment object of an attempt, as it was written.\<close>

definition holds_segment :: "bucket \<Rightarrow> attempt \<Rightarrow> log_slot \<Rightarrow> bool" where
  "holds_segment b a slot \<longleftrightarrow> (\<exists>es. mem_view b (slot_key slot) = Some (slot_version slot, SegmentObj es) \<and>
     map seq es = [slot_first slot..<slot_first slot + length (at_requests a)] \<and> map txn es = map (\<lambda>r. Some (req_txn r)) (at_requests a) \<and>
     list_all (\<lambda>e. kind e = Push) es)"

definition slot_inv :: "nat \<Rightarrow> bucket \<Rightarrow> manifest \<Rightarrow> attempt \<Rightarrow> log_slot \<Rightarrow> bool" where
  "slot_inv bnd b cm a slot \<longleftrightarrow> slot_key slot = log_segment_key (slot_first slot) \<and> slot_version slot \<in> mem_issued b \<and>
     claim_ok bnd a (slot_first slot) (burned slot) \<and>
     (holds_segment b a slot \<or> slot_first slot \<le> head_seq cm) \<and> slot_key slot \<notin> seg_key ` set (log_segments cm)"

definition own_segment :: "attempt \<Rightarrow> log_slot \<Rightarrow> log_segment_ref \<Rightarrow> bool" where
  "own_segment a slot s \<longleftrightarrow> seg_key s = slot_key slot \<and> first_seq s = slot_first slot \<and> last_seq s = slot_first slot + (length (at_requests a) - 1)"

definition commit_inv :: "nat \<Rightarrow> bucket \<Rightarrow> manifest \<Rightarrow> attempt \<Rightarrow> log_slot \<Rightarrow> bool" where
  "commit_inv bnd b cm a slot \<longleftrightarrow> slot_key slot = log_segment_key (slot_first slot) \<and> claim_ok bnd a (slot_first slot) (burned slot) \<and>
     holds_segment b a slot \<and> (\<exists>s. own_segment a slot s \<and> prefix (log_segments (at_base a) @ [s]) (log_segments cm))"

definition uploads_inv :: "bucket \<Rightarrow> attempt \<Rightarrow> string list \<Rightarrow> bool" where
  "uploads_inv b a keys \<longleftrightarrow> (\<forall>k \<in> set (upload_keys (at_batch a)). k \<in> set keys \<or> mem_view b k \<noteq> None)"

text \<open>Per state of the publisher: first what depends on the log only, then what a claimed slot needs.\<close>

fun pc_inv :: "wal_env \<Rightarrow> bucket \<Rightarrow> version \<Rightarrow> manifest \<Rightarrow> handle \<Rightarrow> pc \<Rightarrow> bool" where
  "pc_inv env b cv cm h (Starting batch n) = batch_ok env batch"
| "pc_inv env b cv cm h (Syncing batch n) = batch_ok env batch"
| "pc_inv env b cv cm h (Verifying batch n) = batch_ok env batch"
| "pc_inv env b cv cm h (Claiming a s burnt) = attempt_inv env b cv cm h a"
| "pc_inv env b cv cm h (Probing a s burnt p) = attempt_inv env b cv cm h a"
| "pc_inv env b cv cm h (Heading a s burnt p) = attempt_inv env b cv cm h a"
| "pc_inv env b cv cm h (Uploading a out keys) = (attempt_inv env b cv cm h a \<and> uploads_inv b a keys)"
| "pc_inv env b cv cm h (Committing a slot n) = (attempt_inv env b cv cm h a \<and> uploads_inv b a [])"
| "pc_inv env b cv cm h (Landing a slot) = attempt_inv env b cv cm h a"
| "pc_inv env b cv cm h (Recovering a slot m) = False"
| "pc_inv env b cv cm h (Installing a slot m ver) = (attempt_inv env b cv cm h a \<and>
     (\<exists>v s. ver = Some v \<and> known b cv cm v m \<and> own_segment a slot s \<and> log_segments m = log_segments (at_base a) @ [s]))"
| "pc_inv env b cv cm h (Sweeping a slot todo) = (attempt_inv env b cv cm h a \<and> set todo \<subseteq> set (burned slot))"
| "pc_inv env b cv cm h (Dropping a slot) = attempt_inv env b cv cm h a"
| "pc_inv env b cv cm h _ = True"

fun claim_inv :: "nat \<Rightarrow> bucket \<Rightarrow> manifest \<Rightarrow> pc \<Rightarrow> bool" where
  "claim_inv bnd b cm (Claiming a s burnt) = claim_ok bnd a s burnt"
| "claim_inv bnd b cm (Probing a s burnt p) = claim_ok bnd a s burnt"
| "claim_inv bnd b cm (Heading a s burnt p) = claim_ok bnd a s burnt"
| "claim_inv bnd b cm (Uploading a (Claimed slot n) keys) = slot_inv bnd b cm a slot"
| "claim_inv bnd b cm (Committing a slot n) = slot_inv bnd b cm a slot"
| "claim_inv bnd b cm (Landing a slot) = slot_inv bnd b cm a slot"
| "claim_inv bnd b cm (Dropping a slot) = slot_inv bnd b cm a slot"
| "claim_inv bnd b cm (Installing a slot m ver) = commit_inv bnd b cm a slot"
| "claim_inv bnd b cm (Sweeping a slot todo) = commit_inv bnd b cm a slot"
| "claim_inv bnd b cm _ = True"

text \<open>The slot a publisher has claimed and not committed.\<close>

fun open_slot :: "pc \<Rightarrow> log_slot option" where
  "open_slot (Uploading a (Claimed slot n) keys) = Some slot"
| "open_slot (Committing a slot n) = Some slot"
| "open_slot (Landing a slot) = Some slot"
| "open_slot (Dropping a slot) = Some slot"
| "open_slot _ = None"

definition writer_inv :: "wal_env \<Rightarrow> nat \<Rightarrow> bucket \<Rightarrow> version \<Rightarrow> manifest \<Rightarrow> writer \<Rightarrow> bool" where
  "writer_inv env bnd b cv cm wr \<longleftrightarrow>
     files_inv env b cm (h_dir (w_handle wr)) (applied_seq (h_state (w_handle wr))) \<and>
     (w_pc wr \<noteq> Dead \<and> \<not> is_opening (w_lock wr) \<longrightarrow> handle_inv env b cv cm (w_handle wr)) \<and>
     (is_opening (w_lock wr) \<longrightarrow> w_pc wr = Idle) \<and>
     (w_pc wr = Dead \<longrightarrow> w_lock wr = Free) \<and>
     lock_inv b cv cm (w_handle wr) (w_lock wr) \<and>
     pc_inv env b cv cm (w_handle wr) (w_pc wr) \<and> claim_inv bnd b cm (w_pc wr)"

definition slots_distinct :: "(nat \<Rightarrow> writer) \<Rightarrow> bool" where
  "slots_distinct ws \<longleftrightarrow> (\<forall>i j s t. i \<noteq> j \<longrightarrow> open_slot (w_pc (ws i)) = Some s \<longrightarrow> open_slot (w_pc (ws j)) = Some t \<longrightarrow> slot_version s \<noteq> slot_version t)"

text \<open>An acknowledged request has its entry in the log.\<close>

definition answer_ok :: "bucket \<Rightarrow> manifest \<Rightarrow> answer \<Rightarrow> bool" where
  "answer_ok b cm x \<longleftrightarrow> (case x of (i, r, res) \<Rightarrow>
     case res of
       Inl e \<Rightarrow> True
     | Inr pr \<Rightarrow> res_seq pr = 0 \<or> (\<exists>e \<in> set (log_of b (log_segments cm)). seq e = res_seq pr \<and> txn e = Some (req_txn r)))"

definition world_inv :: "wal_env \<Rightarrow> nat \<Rightarrow> version \<Rightarrow> manifest \<Rightarrow> world \<Rightarrow> bool" where
  "world_inv env bnd cv cm w \<longleftrightarrow> bucket_inv bnd (bucket w) cv cm \<and> (\<forall>i. writer_inv env bnd (bucket w) cv cm (writers w i)) \<and>
     slots_distinct (writers w) \<and> list_all (answer_ok (bucket w) cm) (answers w)"

section \<open>What a step may do to the bucket\<close>

lemma pack_key_not_log: "pack_key c \<noteq> log_segment_key q" "idx_key c \<noteq> log_segment_key q"
  "pack_key c \<noteq> MANIFEST" "idx_key c \<noteq> MANIFEST" "MANIFEST \<noteq> log_segment_key q"
  by (simp_all add: pack_key_def idx_key_def log_segment_key_def log_segment_key_w_def)

lemma upload_key_not_log: "k \<in> set (upload_keys batch) \<Longrightarrow> k \<noteq> log_segment_key q \<and> k \<noteq> MANIFEST"
  by (auto simp: upload_keys_def pack_key_not_log split: option.splits)

text \<open>Every entry of a well-formed log has a number up to the head.\<close>

lemma segs_last:
  assumes "segs_ok b ss" "s \<in> set ss"
  shows "last_seq s \<le> last_seq (last ss)"
proof -
  obtain xs ys where ss: "ss = xs @ s # ys" using assms(2) by (auto simp: in_set_conv_decomp)
  show ?thesis
  proof (cases "ys = []")
    case False
    then have "last_seq s < first_seq (last ys)" "seg_ok b (last ys)" using assms(1) by (auto simp: ss segs_ok_def sorted_wrt_append list_all_iff)
    then show ?thesis using False seg_ok_entries(3) by (fastforce simp: ss)
  qed (simp add: ss)
qed

lemma head_bound:
  assumes "segs_ok b (log_segments m)" "chain m"
  shows "s \<in> set (log_segments m) \<Longrightarrow> last_seq s \<le> head_seq m"
    and "e \<in> set (log_of b (log_segments m)) \<Longrightarrow> seq e \<le> head_seq m"
proof -
  show last: "s \<in> set (log_segments m) \<Longrightarrow> last_seq s \<le> head_seq m" for s
    using segs_last [OF assms(1)] assms(2) by (auto simp: chain_def)
  show "e \<in> set (log_of b (log_segments m)) \<Longrightarrow> seq e \<le> head_seq m"
    using log_of_range [of b "log_segments m" e] assms(1) last by (fastforce simp: segs_ok_def)
qed

text \<open>A listed segment of the current manifest is determined by its first number.\<close>

definition grow :: "bucket \<Rightarrow> version \<Rightarrow> manifest \<Rightarrow> bucket \<Rightarrow> version \<Rightarrow> manifest \<Rightarrow> bool" where
  "grow b cv cm b' cv' cm' \<longleftrightarrow> mem_ok b' \<and> mem_issued b \<subseteq> mem_issued b' \<and>
     (\<forall>s \<in> set (log_segments cm). mem_view b' (seg_key s) = mem_view b (seg_key s)) \<and>
     (\<forall>k. (\<forall>q. k \<noteq> log_segment_key q) \<longrightarrow> mem_view b k \<noteq> None \<longrightarrow> mem_view b' k \<noteq> None) \<and>
     (cv' = cv \<and> cm' = cm \<or>
      cv' \<notin> mem_issued b \<and> chain cm' \<and> (\<exists>s. log_segments cm' = log_segments cm @ [s] \<and> head_seq cm < first_seq s \<and> seg_ok b' s))"

lemma grow_refl: "mem_ok b \<Longrightarrow> grow b cv cm b cv cm"
  by (simp add: grow_def)


lemma grow_prefix:
  assumes inv: "bucket_inv bnd b cv cm" and g: "grow b cv cm b' cv' cm'"
  shows "prefix (log_segments cm) (log_segments cm')" "head_seq cm \<le> head_seq cm'" "revision cm \<le> revision cm'"
proof -
  show "prefix (log_segments cm) (log_segments cm')" using g by (auto simp: grow_def)
  show "revision cm \<le> revision cm'" using g inv by (auto simp: grow_def chain_def bucket_inv_def)
  show "head_seq cm \<le> head_seq cm'" using g by (auto simp: grow_def chain_def dest!: seg_ok_entries(3))
qed

lemma grow_log:
  assumes inv: "bucket_inv bnd b cv cm" and g: "grow b cv cm b' cv' cm'"
  obtains new where "log_of b' (log_segments cm') = log_of b (log_segments cm) @ new" "\<forall>e \<in> set new. head_seq cm < seq e"
    "(cv' = cv \<and> cm' = cm) \<longrightarrow> new = []"
proof -
  have same: "log_of b' (log_segments cm) = log_of b (log_segments cm)"
    unfolding log_of_def by (intro arg_cong [of _ _ concat] map_cong refl) (use g in \<open>simp add: grow_def seg_entries_def\<close>)
  show ?thesis
  proof (cases "cv' = cv \<and> cm' = cm")
    case True
    then show ?thesis using that [of "[]"] same by simp
  next
    case False
    then obtain s where s: "log_segments cm' = log_segments cm @ [s]" "head_seq cm < first_seq s" "seg_ok b' s" using g by (auto simp: grow_def)
    then show ?thesis using that [of "seg_entries b' s"] False same seg_entry_range [OF s(3)] by fastforce
  qed
qed

lemma grow_known:
  assumes inv: "bucket_inv bnd b cv cm" and g: "grow b cv cm b' cv' cm'"
    and "known b cv cm v m"
  shows "known b' cv' cm' v m"
proof -
  note k = assms(3)
  have "hist m cm'"
  proof (cases "cm' = cm")
    case False
    then have "revision cm < revision cm'" using g inv by (auto simp: grow_def chain_def bucket_inv_def)
    moreover have "revision m \<le> revision cm" using k inv by (auto simp: known_def hist_def chain_def bucket_inv_def prefix_length_le)
    ultimately show ?thesis using k grow_prefix(1) [OF inv g] prefix_order.trans by (auto simp: known_def hist_def)
  qed (use k in \<open>simp add: known_def\<close>)
  then show ?thesis using k g by (auto simp: known_def grow_def)
qed

lemma grow_cold:
  assumes inv: "bucket_inv bnd b cv cm" and g: "grow b cv cm b' cv' cm'"
    and "cv' = cv \<and> cm' = cm"
  shows "cold b' cm' = cold b cm"
  using grow_log [OF inv g] assms(3) by (metis append_Nil2 cold_def)

lemma grow_files:
  assumes inv: "bucket_inv bnd b cv cm" and g: "grow b cv cm b' cv' cm'"
    and "files_inv env b cm d n"
  shows "files_inv env b' cm' d n"
proof -
  note f = assms(3)
  obtain new where new: "log_of b' (log_segments cm') = log_of b (log_segments cm) @ new" "\<forall>e \<in> set new. head_seq cm < seq e" by (rule grow_log [OF inv g])
  then have "filter (\<lambda>e. n < seq e) new = new" using f by (auto simp: files_inv_def filter_id_conv intro: le_less_trans)
  then show ?thesis using f grow_prefix(2) [OF inv g] unfolding files_inv_def cold_def new(1) by simp
qed

lemma grow_handle:
  assumes inv: "bucket_inv bnd b cv cm" and g: "grow b cv cm b' cv' cm'"
    and "handle_inv env b cv cm h"
  shows "handle_inv env b' cv' cm' h"
  using grow_known [OF inv g] assms(3) by (auto simp: handle_inv_def)

lemma grow_lock:
  assumes inv: "bucket_inv bnd b cv cm" and g: "grow b cv cm b' cv' cm'"
    and "lock_inv b cv cm h l"
  shows "lock_inv b' cv' cm' h l"
  using grow_known [OF inv g] assms(3) by (cases "(b, cv, cm, h, l)" rule: lock_inv.cases) auto

lemma grow_attempt:
  assumes inv: "bucket_inv bnd b cv cm" and g: "grow b cv cm b' cv' cm'"
    and "attempt_inv env b cv cm h a"
  shows "attempt_inv env b' cv' cm' h a"
proof -
  note a = assms(3)
  then obtain v where v: "at_version a = Some v" "known b cv cm v (at_base a)" "v = cv \<longrightarrow> log_serial (cold b cm) (map req_txn (at_requests a))"
    by (auto simp: attempt_inv_def)
  have "log_serial (cold b' cm') (map req_txn (at_requests a))" if "v = cv'"
    using that v g grow_cold [OF inv g] by (auto simp: grow_def known_def)
  then show ?thesis using a v grow_known [OF inv g v(2)] by (auto simp: attempt_inv_def)
qed

lemma grow_uploads:
  assumes inv: "bucket_inv bnd b cv cm" and g: "grow b cv cm b' cv' cm'"
    and "uploads_inv b a keys"
  shows "uploads_inv b' a keys"
  using g assms(3) upload_key_not_log unfolding uploads_inv_def grow_def by blast

lemma grow_pc:
  assumes inv: "bucket_inv bnd b cv cm" and g: "grow b cv cm b' cv' cm'"
    and "pc_inv env b cv cm h p"
  shows "pc_inv env b' cv' cm' h p"
  using grow_attempt [OF inv g] grow_uploads [OF inv g] grow_known [OF inv g] assms(3)
  by (cases "(env, b, cv, cm, h, p)" rule: pc_inv.cases) auto

lemma grow_commit:
  assumes inv: "bucket_inv bnd b cv cm" and g: "grow b cv cm b' cv' cm'"
    and "commit_inv bnd b cm a slot"
  shows "commit_inv bnd b' cm' a slot"
proof -
  note c = assms(3)
  then obtain s where s: "own_segment a slot s" "prefix (log_segments (at_base a) @ [s]) (log_segments cm)" by (auto simp: commit_inv_def)
  then have "s \<in> set (log_segments cm)" by (meson in_set_conv_decomp set_mono_prefix subsetD)
  then have "mem_view b' (slot_key slot) = mem_view b (slot_key slot)" using g s(1) by (auto simp: grow_def own_segment_def)
  then show ?thesis using c s grow_prefix(1) [OF inv g] prefix_order.trans unfolding commit_inv_def holds_segment_def by fastforce
qed

lemma grow_answer:
  assumes inv: "bucket_inv bnd b cv cm" and g: "grow b cv cm b' cv' cm'"
    and "answer_ok b cm x"
  shows "answer_ok b' cm' x"
proof -
  obtain new where "log_of b' (log_segments cm') = log_of b (log_segments cm) @ new" by (rule grow_log [OF inv g])
  then show ?thesis using assms(3) by (auto simp: answer_ok_def split: prod.splits sum.splits)
qed

section \<open>Kinds of bucket operations\<close>

text \<open>Operations that only add objects.\<close>

definition extends :: "bucket \<Rightarrow> bucket \<Rightarrow> bool" where
  "extends b b' \<longleftrightarrow> mem_ok b' \<and> mem_issued b \<subseteq> mem_issued b' \<and> (\<forall>k x. mem_view b k = Some x \<longrightarrow> mem_view b' k = Some x) \<and>
     unat (counter b') \<le> Suc (unat (counter b))"

lemma mem_put_counter: "mem_room b \<Longrightarrow> unat (counter (snd (mem_put now k x m b))) \<le> Suc (unat (counter b))"
  using counter_step [of b] by (simp add: mem_put_eq)

lemma extends_refl: "mem_ok b \<Longrightarrow> extends b b"
  by (simp add: extends_def)

lemma create_extends:
  assumes "mem_ok b" "mem_room b" "m = Create \<or> mem_view b k = None"
  shows "extends b (snd (mem_put now k x m b))"
  unfolding extends_def
proof (intro conjI allI impI)
  show "mem_issued b \<subseteq> mem_issued (snd (mem_put now k x m b))" using assms(1,2) by (rule mem_hist.put_issued_mono)
  show "mem_view (snd (mem_put now k x m b)) k' = Some y" if "mem_view b k' = Some y" for k' y
    using assms(1,2) by (cases rule: mem_hist.put_result [of b now k x m]) (use that assms(3) in \<open>auto split: if_splits\<close>)
qed (use assms mem.put_valid mem_put_counter in auto)

lemma put_with_extends:
  assumes "mem_ok b" "mem_room b"
  shows "extends b (snd (put_with flt now k x Create b))"
  using create_extends [OF assms, of Create] extends_refl [OF assms(1)] by (cases flt) (auto simp: put_with_def)

lemma put_immutable_extends:
  assumes "mem_ok b" "mem_room b"
  shows "extends b (snd (put_immutable_create flt now k b))"
    and "fst (put_immutable_create flt now k b) = Inr () \<Longrightarrow> mem_view (snd (put_immutable_create flt now k b)) k \<noteq> None"
proof -
  have head: "mem_head k b = None \<longleftrightarrow> mem_view b k = None" for b :: bucket by (simp add: mem_head_def mem_view_def)
  obtain r b1 where p: "put_with (put_fault_of flt k) now k PackObj Create b = (r, b1)" by force
  have e1: "extends b b1" using put_with_extends [OF assms, of "put_fault_of flt k" now k PackObj] p by simp
  have over: "\<exists>om b2. mem_put now k PackObj Overwrite b = (Inr om, b2) \<and> mem_view b2 k \<noteq> None"
    using mem_put_eq [of now k PackObj Overwrite b] mem_write_view [OF assms(1)] by simp
  have over_ext: "extends b b2" if "mem_put now k PackObj Overwrite b = (q, b2)" "mem_view b k = None" for q b2
    using create_extends [OF assms, of Overwrite k now PackObj] that by simp
  have same: "b1 = b" if "r = Inl (PreconditionFailed k' v)" for k' v
    using p that by (cases flt) (auto simp: put_with_def mem_put_eq split: if_splits)
  have ok: "mem_view b1 k \<noteq> None" if "r = Inr om" for om
    using p that mem_write_view [OF assms(1)] by (cases flt) (auto simp: put_with_def mem_put_eq split: if_splits)
  show "extends b (snd (put_immutable_create flt now k b))"
    using e1 over_ext p same head [of b] by (auto simp: put_immutable_create_def split: sum.splits store_error.splits option.splits prod.splits)
  show "mem_view (snd (put_immutable_create flt now k b)) k \<noteq> None" if "fst (put_immutable_create flt now k b) = Inr ()"
    using that p over ok same head [of b] by (auto simp: put_immutable_create_def split: sum.splits store_error.splits option.splits prod.splits)
qed

lemma bucket_inv_listed:
  assumes "bucket_inv bnd b cv cm" "s \<in> set (log_segments cm)"
  obtains v es where "mem_view b (seg_key s) = Some (v, SegmentObj es)" "map seq es = [first_seq s..<Suc (last_seq s)]" "seg_key s = log_segment_key (first_seq s)"
    "first_seq s \<le> head_seq cm"
proof -
  have s: "seg_ok b s" "seg_key s = log_segment_key (first_seq s)" "last_seq s \<le> head_seq cm"
    using assms head_bound(1) [of b cm s] by (auto simp: bucket_inv_def segs_ok_def list_all_iff listed_ok_def)
  then obtain v es where "mem_view b (seg_key s) = Some (v, SegmentObj es)" "map seq es = [first_seq s..<Suc (last_seq s)]" "first_seq s \<le> last_seq s"
    by (auto simp: seg_ok_def simp del: upt_Suc)
  then show ?thesis using that s by (metis le_trans)
qed

lemma bucket_inv_same_log:
  assumes "bucket_inv bnd b cv cm" "grow b cv cm b' cv cm" "mem_view b' MANIFEST = Some (cv, ManifestObj cm)" "unat (counter b') \<le> bnd'" "bnd \<le> bnd'"
  shows "bucket_inv bnd' b' cv cm"
proof -
  have "\<forall>s \<in> set (log_segments cm). mem_view b' (seg_key s) = mem_view b (seg_key s)" using assms(2) by (simp add: grow_def)
  then have "segs_ok b' (log_segments cm)" "log_of b' (log_segments cm) = log_of b (log_segments cm)"
    using assms(1) by (auto simp: bucket_inv_def segs_ok_def list_all_iff seg_ok_def log_of_def seg_entries_def intro!: arg_cong [of _ _ concat] map_cong)
  moreover have "packs_there b' cm" 
  proof -
    have keep: "mem_view b' k \<noteq> None" if "\<forall>q. k \<noteq> log_segment_key q" "mem_view b k \<noteq> None" for k
      using assms(2) that unfolding grow_def by blast
    have p: "packs_there b cm" using assms(1) by (simp add: bucket_inv_def)
    show ?thesis unfolding packs_there_def using p keep pack_key_not_log(1,2) by (metis packs_there_def)
  qed
  ultimately show ?thesis using assms by (auto simp: bucket_inv_def grow_def)
qed

lemma extends_inv:
  assumes "bucket_inv bnd b cv cm" "extends b b'" "Suc bnd \<le> bnd'"
  shows "grow b cv cm b' cv cm" "bucket_inv bnd' b' cv cm"
    and "slot_inv bnd b cm a slot \<Longrightarrow> slot_inv bnd' b' cm a slot"
proof -
  show g: "grow b cv cm b' cv cm"
    unfolding grow_def
  proof (intro conjI allI ballI impI disjI1)
    show "mem_view b' (seg_key s) = mem_view b (seg_key s)" if s: "s \<in> set (log_segments cm)" for s
    proof -
      obtain v es where "mem_view b (seg_key s) = Some (v, SegmentObj es)" by (rule bucket_inv_listed [OF assms(1) s])
      then show ?thesis using assms(2) by (simp add: extends_def)
    qed
    show "mem_view b' k \<noteq> None" if "mem_view b k \<noteq> None" for k using that assms(2) by (auto simp: extends_def)
  qed (use assms(2) in \<open>simp_all add: extends_def\<close>)
  show "bucket_inv bnd' b' cv cm"
  proof (rule bucket_inv_same_log [OF assms(1) g])
    show "mem_view b' MANIFEST = Some (cv, ManifestObj cm)" using assms(1,2) by (simp add: bucket_inv_def extends_def)
    have "unat (counter b') \<le> Suc (unat (counter b))" "unat (counter b) \<le> bnd" using assms(1,2) by (simp_all add: bucket_inv_def extends_def)
    then show "unat (counter b') \<le> bnd'" "bnd \<le> bnd'" using assms(3) by simp_all
  qed
  show "slot_inv bnd b cm a slot \<Longrightarrow> slot_inv bnd' b' cm a slot"
    using assms(2,3) by (auto simp: slot_inv_def extends_def holds_segment_def claim_ok_def)
qed

text \<open>Conditional deletes of log objects that are not listed.\<close>

lemma delete_inv:
  assumes "bucket_inv bnd b cv cm" "log_segment_key q \<notin> seg_key ` set (log_segments cm)" "bnd \<le> bnd'"
  shows "grow b cv cm (snd (mem_delete (log_segment_key q) (Some v) b)) cv cm" (is "grow b cv cm ?b cv cm")
    and "bucket_inv bnd' (snd (mem_delete (log_segment_key q) (Some v) b)) cv cm"
    and "slot_inv bnd b cm a slot \<Longrightarrow> slot_version slot \<noteq> v \<or> slot_key slot \<noteq> log_segment_key q \<or> slot_first slot \<le> head_seq cm \<Longrightarrow>
      slot_inv bnd' (snd (mem_delete (log_segment_key q) (Some v) b)) cm a slot"
proof -
  have view: "mem_view ?b k = mem_view b k" if "k \<noteq> log_segment_key q" for k using that by (simp add: mem_delete_view)
  have ok: "mem_ok ?b" using assms(1) by (simp add: bucket_inv_def mem_delete_ok)
  show g: "grow b cv cm ?b cv cm" unfolding grow_def using ok assms(2) view by (auto simp: image_iff)
  show "bucket_inv bnd' ?b cv cm"
  proof (rule bucket_inv_same_log [OF assms(1) g _ _ assms(3)])
    show "mem_view ?b MANIFEST = Some (cv, ManifestObj cm)" using assms(1) view [OF pack_key_not_log(5)] by (simp add: bucket_inv_def)
    have "unat (counter b) \<le> bnd" using assms(1) by (simp add: bucket_inv_def)
    then show "unat (counter ?b) \<le> bnd'" using assms(3) by simp
  qed
  show "slot_inv bnd' ?b cm a slot"
    if "slot_inv bnd b cm a slot" "slot_version slot \<noteq> v \<or> slot_key slot \<noteq> log_segment_key q \<or> slot_first slot \<le> head_seq cm"
    using that assms(3) by (auto simp: slot_inv_def holds_segment_def mem_delete_view claim_ok_def)
qed

end
