(* ===== verification/Wal_Handles.thy ===== *)
theory Wal_Handles
  imports Wal_Invariant
begin

text \<open>
  How single actions act on the invariant: the frame lemma for a step of one writer, the swap of the
  manifest (which appends one segment for everybody), a sync and the installation of an own commit
  (after which replaying the rest of the log still gives the committed refs), and the verification of
  a batch against a current handle. The locale \<open>publishers\<close> holds what git is assumed to do.
\<close>

section \<open>A step of one writer\<close>

lemma claim_ok_mono: "claim_ok bnd a s burnt \<Longrightarrow> bnd \<le> bnd' \<Longrightarrow> claim_ok bnd' a s burnt"
  by (simp add: claim_ok_def)

lemma slot_inv_mono: "slot_inv bnd b cm a slot \<Longrightarrow> bnd \<le> bnd' \<Longrightarrow> slot_inv bnd' b cm a slot"
  by (auto simp: slot_inv_def claim_ok_mono)

lemma commit_inv_mono: "commit_inv bnd b cm a slot \<Longrightarrow> bnd \<le> bnd' \<Longrightarrow> commit_inv bnd' b cm a slot"
  by (auto simp: commit_inv_def claim_ok_mono)

lemma claim_inv_keep:
  assumes "claim_inv bnd b cm p" "bnd \<le> bnd'"
    and "\<And>a slot. open_slot p = Some slot \<Longrightarrow> slot_inv bnd b cm a slot \<Longrightarrow> slot_inv bnd' b' cm' a slot"
    and "\<And>a slot. commit_inv bnd b cm a slot \<Longrightarrow> commit_inv bnd' b' cm' a slot"
  shows "claim_inv bnd' b' cm' p"
  using assms by (cases "(bnd, b, cm, p)" rule: claim_inv.cases) (auto simp: claim_ok_mono)

lemma open_slot_inv: "claim_inv bnd b cm p \<Longrightarrow> open_slot p = Some slot \<Longrightarrow> \<exists>a. slot_inv bnd b cm a slot"
  by (cases p rule: open_slot.cases) auto

lemma writer_grow:
  assumes "bucket_inv bnd b cv cm" "grow b cv cm b' cv' cm'" "bnd \<le> bnd'" "writer_inv env bnd b cv cm wr"
    and "\<And>a slot. open_slot (w_pc wr) = Some slot \<Longrightarrow> slot_inv bnd b cm a slot \<Longrightarrow> slot_inv bnd' b' cm' a slot"
  shows "writer_inv env bnd' b' cv' cm' wr"
proof -
  note gr = grow_files [OF assms(1,2)] grow_handle [OF assms(1,2)] grow_lock [OF assms(1,2)] grow_pc [OF assms(1,2)]
  have "commit_inv bnd' b' cm' a slot" if "commit_inv bnd b cm a slot" for a slot
    using grow_commit [OF assms(1,2) that] assms(3) by (rule commit_inv_mono)
  then have "claim_inv bnd' b' cm' (w_pc wr)"
    using claim_inv_keep [OF _ assms(3), of b cm "w_pc wr" b' cm'] assms(4,5) by (auto simp: writer_inv_def)
  then show ?thesis using assms(4) gr by (auto simp: writer_inv_def)
qed

lemma world_step:
  assumes W: "world_inv env bnd cv cm w" and g: "grow (bucket w) cv cm (bucket w') cv' cm'" and B: "bucket_inv bnd' (bucket w') cv' cm'"
    and le: "bnd \<le> bnd'" and ws: "writers w' = (writers w)(i := wr)" and wr: "writer_inv env bnd' (bucket w') cv' cm' wr"
    and slots: "\<And>j slot a. j \<noteq> i \<Longrightarrow> open_slot (w_pc (writers w j)) = Some slot \<Longrightarrow> slot_inv bnd (bucket w) cm a slot \<Longrightarrow> slot_inv bnd' (bucket w') cm' a slot"
    and new: "\<And>s. open_slot (w_pc wr) = Some s \<Longrightarrow>
      (\<exists>t. open_slot (w_pc (writers w i)) = Some t \<and> slot_version t = slot_version s) \<or> slot_version s \<notin> mem_issued (bucket w)"
    and ans: "answers w' = answers w @ xs" "list_all (answer_ok (bucket w') cm') xs"
  shows "world_inv env bnd' cv' cm' w'"
proof -
  have B0: "bucket_inv bnd (bucket w) cv cm" and ws0: "writer_inv env bnd (bucket w) cv cm (writers w j)" and d: "slots_distinct (writers w)" for j
    using W by (simp_all add: world_inv_def)
  have "writer_inv env bnd' (bucket w') cv' cm' (writers w' j)" for j
    using wr writer_grow [OF B0 g le ws0, of j] slots by (cases "j = i") (simp_all add: ws)
  moreover have "slot_version s \<noteq> slot_version t" if "j \<noteq> i" "open_slot (w_pc wr) = Some s" "open_slot (w_pc (writers w j)) = Some t" for j s t
  proof -
    have "slot_version t \<in> mem_issued (bucket w)"
      using open_slot_inv [of bnd "bucket w" cm "w_pc (writers w j)" t] ws0 [of j] that(3) by (auto simp: writer_inv_def slot_inv_def)
    then show ?thesis using new [OF that(2)] d that unfolding slots_distinct_def by metis
  qed
  then have "slots_distinct (writers w')" using d unfolding slots_distinct_def ws by (metis fun_upd_apply)
  moreover have "list_all (answer_ok (bucket w') cm') (answers w')"
    using W ans grow_answer [OF B0 g] by (auto simp: world_inv_def list_all_iff)
  ultimately show ?thesis using B by (simp add: world_inv_def)
qed

section \<open>The commit\<close>

lemma with_receipts_same [simp]:
  "log_segments (with_receipts f rs m) = log_segments m" "head_seq (with_receipts f rs m) = head_seq m"
  "revision (with_receipts f rs m) = revision m" "checkpoint (with_receipts f rs m) = checkpoint m" "packs (with_receipts f rs m) = packs m"
proof -
  let ?P = "\<lambda>m'. log_segments m' = log_segments m \<and> head_seq m' = head_seq m \<and> revision m' = revision m \<and> checkpoint m' = checkpoint m \<and> packs m' = packs m"
  have "?P (with_receipts f rs m)" unfolding with_receipts_def
    by (rule foldl_invariant [where P = ?P]) (auto simp: put_receipt_def split: prod.splits option.splits pristine_receipt.splits)
  then show "log_segments (with_receipts f rs m) = log_segments m" "head_seq (with_receipts f rs m) = head_seq m"
    "revision (with_receipts f rs m) = revision m" "checkpoint (with_receipts f rs m) = checkpoint m" "packs (with_receipts f rs m) = packs m" by simp_all
qed

lemma segs_sorted_first: "segs_ok b ss \<Longrightarrow> sorted (map first_seq ss)"
proof -
  assume ok: "segs_ok b ss"
  have "sorted_wrt (\<lambda>s t. first_seq s \<le> first_seq t) ss"
    by (rule sorted_wrt_mono_rel [of _ "\<lambda>s t. last_seq s < first_seq t"])
       (use ok seg_ok_entries(3) in \<open>fastforce simp: segs_ok_def list_all_iff\<close>)+
  then show ?thesis by (simp add: sorted_map)
qed

definition commit_segment :: "attempt \<Rightarrow> log_slot \<Rightarrow> nat \<Rightarrow> log_segment_ref" where
  "commit_segment a slot flen =
     \<lparr>seg_key = slot_key slot, first_seq = slot_first slot, last_seq = slot_first slot + (length (at_requests a) - 1), seg_size = flen, sealed = True\<rparr>"

lemma commit_target_fields:
  assumes "segs_ok b (log_segments (at_base a))" "chain (at_base a)" "head_seq (at_base a) < slot_first slot"
  shows "log_segments (commit_target env now i a slot flen) = log_segments (at_base a) @ [commit_segment a slot flen]"
    "head_seq (commit_target env now i a slot flen) = slot_first slot + (length (at_requests a) - 1)"
    "chain (commit_target env now i a slot flen)"
    "set (packs (commit_target env now i a slot flen)) =
       set (packs (at_base a)) \<union> set (snd (build_batch now (e_instance env i) (at_requests a) (slot_first slot)))"
proof -
  have "first_seq s \<le> slot_first slot" if "s \<in> set (log_segments (at_base a))" for s
    using head_bound(1) [OF assms(1,2) that] assms(1,3) seg_ok_entries(3) that by (fastforce simp: segs_ok_def list_all_iff)
  then have "sorted (map first_seq (log_segments (at_base a) @ [commit_segment a slot flen]))"
    using segs_sorted_first [OF assms(1)] by (auto simp: sorted_append commit_segment_def)
  then show segs: "log_segments (commit_target env now i a slot flen) = log_segments (at_base a) @ [commit_segment a slot flen]"
    unfolding commit_target_def updated_manifest_def Let_def commit_segment_def by (simp add: sort_key_id_if_sorted)
  show head: "head_seq (commit_target env now i a slot flen) = slot_first slot + (length (at_requests a) - 1)"
    by (simp add: commit_target_def updated_manifest_def Let_def)
  have "revision (commit_target env now i a slot flen) = revision (at_base a) + 1" "checkpoint (commit_target env now i a slot flen) = checkpoint (at_base a)"
    by (simp_all add: commit_target_def updated_manifest_def Let_def)
  then show "chain (commit_target env now i a slot flen)"
    using assms(2) unfolding chain_def segs head by (simp add: commit_segment_def)
  show "set (packs (commit_target env now i a slot flen)) =
       set (packs (at_base a)) \<union> set (snd (build_batch now (e_instance env i) (at_requests a) (slot_first slot)))"
    by (simp add: commit_target_def updated_manifest_def Let_def)
qed

lemma valid_requests_subset: "set (valid_requests batch vs) \<subseteq> set batch"
  by (auto simp: valid_requests_def dest: set_zip_leftD)

lemma new_packs_uploaded:
  assumes "p \<in> set (snd (build_batch now inst (at_requests a) first))"
  shows "pack_key (checksum p) \<in> set (upload_keys (at_batch a)) \<and> idx_key (checksum p) \<in> set (upload_keys (at_batch a))"
proof -
  obtain e where "e \<in> set (fst (build_batch now inst (at_requests a) first))" "pack e = Some p"
    using assms unfolding build_batch_def Let_def snd_conv fst_conv set_map_filter by blast
  then obtain q r where r: "r \<in> set (at_requests a)" "pack (push_entry now inst q r) = Some p"
    unfolding build_entries by (auto simp: in_set_enumerate_eq) (metis less_diff_conv2 nth_mem)
  then obtain g where g: "req_pack r = Some g" "checksum p = ing_checksum g" by (auto simp: push_entry_def pack_ref_from_ingested_def)
  have "r \<in> set (at_batch a)" using r(1) valid_requests_subset unfolding at_requests_def by blast
  then show ?thesis using g by (force simp: upload_keys_def)
qed

lemma holds_segment_facts:
  assumes "holds_segment b a slot" "batch_ok env (at_batch a)"
  obtains es where "mem_view b (slot_key slot) = Some (slot_version slot, SegmentObj es)"
    "map seq es = [slot_first slot..<slot_first slot + length (at_requests a)]" "entry_txns es = map req_txn (at_requests a)" "list_all entry_ok es"
    "map txn es = map (\<lambda>r. Some (req_txn r)) (at_requests a)"
proof -
  obtain es where es: "mem_view b (slot_key slot) = Some (slot_version slot, SegmentObj es)"
    "map seq es = [slot_first slot..<slot_first slot + length (at_requests a)]" "map txn es = map (\<lambda>r. Some (req_txn r)) (at_requests a)"
    "list_all (\<lambda>e. kind e = Push) es" using assms(1) by (auto simp: holds_segment_def)
  have clean: "\<forall>r \<in> set (at_requests a). list_all upd_clean (updates (req_txn r))"
    using assms(2) valid_requests_subset unfolding batch_ok_def at_requests_def list_all_iff by blast
  have "entry_txns es = map req_txn rs \<and> list_all entry_ok es"
    if "map txn es = map (\<lambda>r. Some (req_txn r)) rs" "list_all (\<lambda>e. kind e = Push) es" "\<forall>r \<in> set rs. list_all upd_clean (updates (req_txn r))" for rs
    using that by (induction es arbitrary: rs) (auto simp: entry_ok_def Cons_eq_map_conv)
  then show ?thesis using that es clean by blast
qed

text \<open>A successful swap of the manifest appends the claimed segment to the log, for everybody.\<close>

lemma commit_inv_step:
  assumes B: "bucket_inv bnd b cv cm" and room: "mem_room b" and small: "bnd < 2 ^ 64" and le: "Suc bnd \<le> bnd'"
    and a: "attempt_inv env b cv cm h a" and up: "uploads_inv b a []" and sl: "slot_inv bnd b cm a slot"
    and put: "mem_put now MANIFEST (ManifestObj um) (case at_version a of Some v \<Rightarrow> Update v | None \<Rightarrow> Create) b = (Inr om, b')"
    and um: "um = commit_target env now' i a slot flen"
  shows "grow b cv cm b' (meta_version om) um" "bucket_inv bnd' b' (meta_version om) um"
    "commit_inv bnd' b' um a slot" "known b' (meta_version om) um (meta_version om) um"
    "log_segments um = log_segments (at_base a) @ [commit_segment a slot flen]"
    "\<And>a' slot'. slot_inv bnd b cm a' slot' \<Longrightarrow> slot_version slot' \<noteq> slot_version slot \<Longrightarrow> slot_inv bnd' b' um a' slot'"
proof -
  have ok: "mem_ok b" and cv: "mem_view b MANIFEST = Some (cv, ManifestObj cm)" and segs: "segs_ok b (log_segments cm)"
    and chain: "chain cm" and listed: "list_all listed_ok (log_segments cm)" and eok: "list_all entry_ok (log_of b (log_segments cm))"
    and ser: "log_serial init_spec (entry_txns (log_of b (log_segments cm)))" and pk: "packs_there b cm" and cnt: "unat (counter b) \<le> bnd"
    using B by (simp_all add: bucket_inv_def)
  obtain v where v: "at_version a = Some v" "known b cv cm v (at_base a)" "v = cv \<longrightarrow> log_serial (cold b cm) (map req_txn (at_requests a))"
    and bok: "batch_ok env (at_batch a)" and ne: "at_requests a \<noteq> []" using a by (auto simp: attempt_inv_def)
  from ok room have p: "v = cv \<and> mem_view b' = (mem_view b)(MANIFEST \<mapsto> (meta_version om, ManifestObj um)) \<and> meta_version om \<notin> mem_issued b \<and>
      mem_issued b' = insert (meta_version om) (mem_issued b)"
    by (cases rule: mem_hist.put_result [of b now MANIFEST "ManifestObj um" "Update v"]) (use put v(1) cv in auto)
  then have base: "at_base a = cm" using v(2) by (simp add: known_def)
  have key: "slot_key slot = log_segment_key (slot_first slot)" and first: "head_seq cm < slot_first slot" and cl: "claim_ok bnd a (slot_first slot) (burned slot)"
    and unl: "slot_key slot \<notin> seg_key ` set (log_segments cm)" and hs: "holds_segment b a slot"
    using sl by (auto simp: slot_inv_def claim_ok_def burned_ok_def base)
  have b'ok: "mem_ok b'" using mem.put_valid [OF ok room, of now MANIFEST "ManifestObj um"] put by (metis snd_conv)
  have view: "mem_view b' k = mem_view b k" if "k \<noteq> MANIFEST" for k using p that by simp
  note f = commit_target_fields [of b a slot env now' i flen, unfolded base, OF segs chain first, folded um]
  show fs: "log_segments um = log_segments (at_base a) @ [commit_segment a slot flen]" using f(1) base by simp
  obtain es where es: "mem_view b (slot_key slot) = Some (slot_version slot, SegmentObj es)"
    "map seq es = [slot_first slot..<slot_first slot + length (at_requests a)]" "entry_txns es = map req_txn (at_requests a)" "list_all entry_ok es"
    by (rule holds_segment_facts [OF hs bok])
  let ?s = "commit_segment a slot flen"
  have n: "Suc (slot_first slot + (length (at_requests a) - 1)) = slot_first slot + length (at_requests a)" using ne by (cases "at_requests a") simp_all
  have sview: "mem_view b' (slot_key slot) = mem_view b (slot_key slot)" using view key pack_key_not_log(5) by metis
  have sok: "seg_ok b' ?s"
    unfolding seg_ok_def commit_segment_def log_segment_ref.select_convs n using es(1,2) sview
    by (intro exI [of _ "slot_version slot"] exI [of _ es] conjI le_add1) (simp_all only:)
  have lview: "mem_view b' (seg_key s) = mem_view b (seg_key s)" if "s \<in> set (log_segments cm)" for s
    using that listed view pack_key_not_log(5) by (metis list_all_iff listed_ok_def)
  show g: "grow b cv cm b' (meta_version om) um" unfolding grow_def
    using b'ok p lview f(1,3) first sok by (auto simp: commit_segment_def)
  have log: "log_of b' (log_segments um) = log_of b (log_segments cm) @ es"
    using lview es(1) sview
    by (auto simp: f(1) log_of_def seg_entries_def commit_segment_def intro!: arg_cong [of _ _ concat] map_cong)
  have lok: "list_all listed_ok (log_segments um)" unfolding f(1) using listed key first by (simp add: listed_ok_def commit_segment_def)
  have eok': "list_all entry_ok (log_of b' (log_segments um))" unfolding log using eok es(4) by simp
  have m': "mem_view b' MANIFEST = Some (meta_version om, ManifestObj um)" using p by simp
  have "segs_ok b' (log_segments um)"
    using segs sok lview head_bound(1) [OF segs chain] first unfolding segs_ok_def f(1)
    by (fastforce simp: list_all_iff seg_ok_def sorted_wrt_append commit_segment_def)
  moreover have "log_serial init_spec (entry_txns (log_of b' (log_segments um)))"
    unfolding log entry_txns_simps log_serial_append using ser v(3) p es(3) by (simp add: cold_def)
  moreover have "packs_there b' um"
  proof -
    have old: "mem_view b' (pack_key (checksum q)) \<noteq> None \<and> mem_view b' (idx_key (checksum q)) \<noteq> None" if "q \<in> set (packs cm)" for q
      using pk that view pack_key_not_log(3,4) by (metis packs_there_def)
    have new: "mem_view b' (pack_key (checksum q)) \<noteq> None \<and> mem_view b' (idx_key (checksum q)) \<noteq> None"
      if "q \<in> set (snd (build_batch now' (e_instance env i) (at_requests a) (slot_first slot)))" for q
      using new_packs_uploaded [OF that] up view pack_key_not_log(3,4) by (metis empty_iff empty_set uploads_inv_def)
    show ?thesis unfolding packs_there_def f(4) using old new by blast
  qed
  moreover have "head_seq um \<le> bnd'" using cl le unfolding f(2) claim_ok_def by linarith
  moreover have "unat (counter b') \<le> Suc (unat (counter b))"
    using mem_put_counter [OF room, of now MANIFEST "ManifestObj um" "case at_version a of Some v \<Rightarrow> Update v | None \<Rightarrow> Create"] put by simp
  then have "unat (counter b') \<le> bnd'" using cnt le by linarith
  ultimately show "bucket_inv bnd' b' (meta_version om) um"
    unfolding bucket_inv_def using b'ok m' f(3) lok eok' by (intro conjI)
  show "commit_inv bnd' b' um a slot"
    unfolding commit_inv_def using key cl le hs sview f(1) base
    by (auto simp: claim_ok_mono holds_segment_def own_segment_def commit_segment_def intro!: exI [of _ ?s])
  show "known b' (meta_version om) um (meta_version om) um" using p f(3) by (simp add: known_def hist_def)
  show "slot_inv bnd' b' um a' slot'" if s': "slot_inv bnd b cm a' slot'" and ne': "slot_version slot' \<noteq> slot_version slot" for a' slot'
  proof -
    have k': "slot_key slot' = log_segment_key (slot_first slot')" "claim_ok bnd a' (slot_first slot') (burned slot')"
      "holds_segment b a' slot' \<or> slot_first slot' \<le> head_seq cm" "slot_key slot' \<notin> seg_key ` set (log_segments cm)" "slot_version slot' \<in> mem_issued b"
      using s' unfolding slot_inv_def by blast+
    have "slot_key slot' \<noteq> slot_key slot"
    proof
      assume eq: "slot_key slot' = slot_key slot"
      have "slot_first slot' < 2 ^ 64" "slot_first slot < 2 ^ 64" using k'(2) cl small by (simp_all add: claim_ok_def)
      then have "slot_first slot' = slot_first slot" using log_segment_key_inject eq k'(1) key by metis
      then have "holds_segment b a' slot'" using k'(3) first by simp
      then show False using es(1) eq ne' by (auto simp: holds_segment_def)
    qed
    moreover have "holds_segment b' a' slot' \<or> slot_first slot' \<le> head_seq um"
    proof -
      have "mem_view b' (slot_key slot') = mem_view b (slot_key slot')" using view k'(1) pack_key_not_log(5) by metis
      then show ?thesis using k'(3) grow_prefix(2) [OF B g] by (auto simp: holds_segment_def)
    qed
    ultimately show ?thesis unfolding slot_inv_def using k' le p by (auto simp: f(1) commit_segment_def claim_ok_mono)
  qed
qed

section \<open>A handle over the bucket\<close>

lemma segs_ok_prefix: "segs_ok b ss \<Longrightarrow> prefix ts ss \<Longrightarrow> segs_ok b ts"
  by (auto simp: segs_ok_def prefix_def sorted_wrt_append)

lemma entries_txns_clean: "list_all entry_ok es \<Longrightarrow> txns_clean es"
  by (induction es) (auto simp: txns_clean_def entry_ok_def split: option.splits)

lemma hist_split:
  assumes B: "bucket_inv bnd b cv cm" and "hist m cm"
  obtains rest where "log_of b (log_segments cm) = log_of b (log_segments m) @ rest" "segs_ok b (log_segments m)"
    "\<forall>e \<in> set (log_of b (log_segments m)). seq e \<le> head_seq m" "\<forall>e \<in> set rest. head_seq m < seq e" "head_seq m \<le> head_seq cm"
proof -
  have ch: "chain m" and pre: "prefix (log_segments m) (log_segments cm)" using assms(2) by (simp_all add: hist_def)
  obtain ts where ts: "log_segments cm = log_segments m @ ts" using pre by (auto simp: prefix_def)
  have ok: "segs_ok b (log_segments cm)" and chc: "chain cm" and lst: "list_all listed_ok (log_segments cm)" using B by (simp_all add: bucket_inv_def)
  have okm: "segs_ok b (log_segments m)" using segs_ok_prefix [OF ok pre] .
  have later: "head_seq m < first_seq t" if "t \<in> set ts" for t
  proof (cases "log_segments m = []")
    case True
    then show ?thesis using ch lst that by (auto simp: chain_def ts list_all_iff listed_ok_def)
  next
    case False
    then show ?thesis using ch ok that by (auto simp: chain_def ts segs_ok_def sorted_wrt_append)
  qed
  have "list_all (seg_ok b) ts" using ok by (simp add: segs_ok_def ts)
  then have "\<forall>e \<in> set (log_of b ts). head_seq m < seq e" using log_of_range [of b ts] later by fastforce
  moreover have "head_seq m \<le> head_seq cm"
  proof (cases "log_segments m = []")
    case False
    then have "last (log_segments m) \<in> set (log_segments cm)" by (simp add: ts)
    then show ?thesis using head_bound(1) [OF ok chc] ch False by (simp add: chain_def)
  qed (use ch in \<open>simp add: chain_def\<close>)
  ultimately show ?thesis using that ts okm head_bound(2) [OF okm ch] by auto
qed

lemma hist_order:
  assumes "hist m cm" "hist m' cm" "revision m \<le> revision m'"
  shows "prefix (log_segments m) (log_segments m')"
  using assms by (auto simp: hist_def chain_def intro: prefix_length_prefix)

lemma filter_split:
  fixes n h :: nat
  assumes "\<forall>e \<in> set xs. seq e \<le> h" "\<forall>e \<in> set ys. h < seq e" "n \<le> h"
  shows "filter (\<lambda>e. n < seq e) (xs @ ys) = filter (\<lambda>e. n < seq e \<and> seq e \<le> h) xs @ ys" "filter (\<lambda>e. h < seq e) (xs @ ys) = ys"
proof -
  have "filter (\<lambda>e. n < seq e) ys = ys" "filter (\<lambda>e. h < seq e) ys = ys" using assms(2,3) by (auto simp: filter_id_conv intro: le_less_trans)
  moreover have "filter (\<lambda>e. h < seq e) xs = []" using assms(1) by (fastforce simp: filter_empty_conv)
  moreover have "filter (\<lambda>e. n < seq e) xs = filter (\<lambda>e. n < seq e \<and> seq e \<le> h) xs" using assms(1) by (auto intro: filter_cong)
  ultimately show "filter (\<lambda>e. n < seq e) (xs @ ys) = filter (\<lambda>e. n < seq e \<and> seq e \<le> h) xs @ ys" "filter (\<lambda>e. h < seq e) (xs @ ys) = ys" by simp_all
qed

lemma spec_txns_target:
  "sp_target a \<noteq> HEAD \<Longrightarrow> list_all (\<lambda>t. list_all upd_clean (updates t)) ts \<Longrightarrow> sp_target (spec_txns a ts) \<noteq> HEAD"
  unfolding spec_txns_def by (rule spec_updates_target) (auto simp: list_all_iff upd_clean_def)

locale publishers =
  fixes env :: wal_env
  assumes git: "update_ref_ok (e_peel env) (e_git env)" and peel: "peel_hex (e_peel env)"
begin

text \<open>Replaying the log up to some manifest that was current.\<close>

lemma delta_inv:
  assumes B: "bucket_inv bnd b cv cm" and h: "hist m cm" and f: "files_inv env b cm (h_dir hh) (applied_seq (h_state hh))"
    and n: "applied_seq (h_state hh) \<le> head_seq m"
  obtains hh' where "apply_delta (e_peel env) b m v hh = (Inr (), hh')" "files_inv env b cm (h_dir hh') (head_seq m)"
    "applied_seq (h_state hh') = head_seq m" "h_manifest hh' = h_manifest hh" "h_version hh' = h_version hh"
proof -
  obtain rest where log: "log_of b (log_segments cm) = log_of b (log_segments m) @ rest" "segs_ok b (log_segments m)"
    "\<forall>e \<in> set (log_of b (log_segments m)). seq e \<le> head_seq m" "\<forall>e \<in> set rest. head_seq m < seq e" "head_seq m \<le> head_seq cm"
    by (rule hist_split [OF B h])
  let ?s = "spec_of (read_refs (e_peel env) (h_dir hh))"
  let ?new = "entry_txns (filter (\<lambda>e. applied_seq (h_state hh) < seq e \<and> seq e \<le> head_seq m) (log_of b (log_segments m)))"
  have clean: "refs_clean (read_refs (e_peel env) (h_dir hh))" and tgt: "sp_target ?s \<noteq> HEAD" using f by (simp_all add: files_inv_def)
  have cp: "checkpoint_seq m = 0" using h by (simp add: hist_def chain_def checkpoint_seq_def)
  have "list_all entry_ok (log_of b (log_segments m))" using B log(1) by (simp add: bucket_inv_def)
  then have tc: "txns_clean (log_of b (log_segments m))" by (rule entries_txns_clean)
  have "case apply_delta (e_peel env) b m v hh of (r, hh') \<Rightarrow> r = Inr () \<and> refs_clean (read_refs (e_peel env) (h_dir hh')) \<and>
      spec_of (read_refs (e_peel env) (h_dir hh')) = spec_txns ?s ?new \<and>
      h_manifest hh' = h_manifest hh \<and> h_version hh' = h_version hh \<and> applied_seq (h_state hh') = head_seq m"
    using apply_delta_spec [OF clean peel log(2) tc, of v] cp by simp
  then obtain hh' where d: "apply_delta (e_peel env) b m v hh = (Inr (), hh')" "refs_clean (read_refs (e_peel env) (h_dir hh'))"
      "spec_of (read_refs (e_peel env) (h_dir hh')) = spec_txns ?s ?new"
      "h_manifest hh' = h_manifest hh" "h_version hh' = h_version hh" "applied_seq (h_state hh') = head_seq m" by (auto split: prod.splits)
  have "sp_target (spec_txns ?s ?new) \<noteq> HEAD"
    using spec_txns_target [OF tgt] txns_clean_filter [OF tc] by (simp add: txns_clean_def)
  then have "snap_head_target (read_refs (e_peel env) (h_dir hh')) \<noteq> HEAD" using d(3) by (metis sp_target_of(2))
  moreover have "spec_txns (spec_txns ?s ?new) (entry_txns rest) = cold b cm"
    using f unfolding files_inv_def log(1) filter_split(1) [OF log(3,4) n] by simp
  ultimately have "files_inv env b cm (h_dir hh') (head_seq m)"
    unfolding files_inv_def log(1) filter_split(2) [OF log(3,4) n] using d(2,3) log(5) by (simp add: d(3))
  then show ?thesis using that d by blast
qed

lemma sync_inv:
  assumes B: "bucket_inv bnd b cv cm" and f: "files_inv env b cm (h_dir hh) (applied_seq (h_state hh))" and hi: "handle_inv env b cv cm hh"
    and out: "lock_inv b cv cm hh (SyncRead out)"
  obtains hh' where "sync_apply (e_peel env) b out hh = (Inr (), hh')" "files_inv env b cm (h_dir hh') (applied_seq (h_state hh'))"
    "handle_inv env b cv cm hh'" "prefix (log_segments (h_manifest hh)) (log_segments (h_manifest hh'))"
proof (cases out)
  case None
  then show ?thesis using that [of hh] assms by (simp add: sync_apply_def)
next
  case (Some vm)
  obtain v m where vm: "vm = (v, m)" by force
  then have k: "known b cv cm v m" using out Some by simp
  obtain v0 where v0: "h_version hh = Some v0" "known b cv cm v0 (h_manifest hh)" and ap: "applied_seq (h_state hh) = head_seq (h_manifest hh)"
    using hi by (auto simp: handle_inv_def)
  show ?thesis
  proof (cases "revision m \<le> revision (h_manifest hh)")
    case True
    have "handle_inv env b cv cm (hh\<lparr>h_version := Some v\<rparr>)" if "revision m = revision (h_manifest hh)"
      using that k v0(2) ap by (auto simp: handle_inv_def known_def hist_def)
    then show ?thesis
      using that [of hh] that [of "hh\<lparr>h_version := Some v\<rparr>"] True Some vm v0(1) f hi
      by (cases "revision m = revision (h_manifest hh)") (simp_all add: sync_apply_def)
  next
    case False
    then have pre: "prefix (log_segments (h_manifest hh)) (log_segments m)"
      using hist_order [of "h_manifest hh" cm m] k v0(2) by (simp add: known_def)
    have hm: "hist m cm" "hist (h_manifest hh) cm" using k v0(2) by (simp_all add: known_def)
    have "head_seq (h_manifest hh) \<le> head_seq m"
    proof (cases "log_segments (h_manifest hh) = []")
      case False
      obtain rest where "segs_ok b (log_segments m)" by (rule hist_split [OF B hm(1)])
      moreover have "last (log_segments (h_manifest hh)) \<in> set (log_segments m)" using pre False by (metis last_in_set set_mono_prefix subsetD)
      ultimately show ?thesis using head_bound(1) hm False by (metis chain_def hist_def)
    qed (use hm in \<open>simp add: hist_def chain_def\<close>)
    then obtain hh' where d: "apply_delta (e_peel env) b m v hh = (Inr (), hh')" "files_inv env b cm (h_dir hh') (head_seq m)" "applied_seq (h_state hh') = head_seq m"
      using delta_inv [OF B hm(1) f] ap by metis
    have "handle_inv env b cv cm (hh'\<lparr>h_manifest := m, h_version := Some v\<rparr>)" using k d(3) by (simp add: handle_inv_def)
    then show ?thesis using that [of "hh'\<lparr>h_manifest := m, h_version := Some v\<rparr>"] d False Some vm pre by (simp add: sync_apply_def)
  qed
qed

end

context publishers
begin

text \<open>The current refs of a handle that holds the current manifest.\<close>

lemma current_refs:
  assumes B: "bucket_inv bnd b cv cm" and f: "files_inv env b cm (h_dir hh) (applied_seq (h_state hh))" and hi: "handle_inv env b cv cm hh"
    and v: "h_version hh = Some cv"
  shows "spec_of (read_refs (e_peel env) (h_dir hh)) = cold b cm"
proof -
  have "applied_seq (h_state hh) = head_seq cm" using hi v by (auto simp: handle_inv_def known_def)
  moreover have "filter (\<lambda>e. head_seq cm < seq e) (log_of b (log_segments cm)) = []"
    using head_bound(2) [of b cm] B by (fastforce simp: filter_empty_conv bucket_inv_def)
  ultimately show ?thesis using f by (simp add: files_inv_def)
qed

lemma verify_inv:
  assumes B: "bucket_inv bnd b cv cm" and f: "files_inv env b cm (h_dir hh) (applied_seq (h_state hh))" and hi: "handle_inv env b cv cm hh"
    and bo: "batch_ok env batch"
  obtains vs where "verify_batch (rv_new (read_refs (e_peel env) (h_dir hh))) fl batch (h_manifest hh) = Some vs" "length vs = length batch"
    "h_version hh = Some cv \<Longrightarrow> log_serial (cold b cm) (map req_txn (valid_requests batch vs))"
proof -
  let ?s = "read_refs (e_peel env) (h_dir hh)"
  let ?w = "\<lparr>w_refs = rv_new ?s, w_floor = fl, w_pristine = is_pristine (h_manifest hh)\<rparr>"
  have "snap_ok ?s" "snap_head_target ?s \<noteq> HEAD" using f by (simp_all add: files_inv_def refs_clean_def)
  then have w: "view_ok (w_refs ?w)" "view_spec (w_refs ?w) = spec_of ?s" "head_target (w_refs ?w) \<noteq> HEAD"
    using rv_new_ok [of ?s] by (simp_all add: head_target_def rv_new_def or_default_def)
  have "list_all (\<lambda>r. txn_valid (req_txn r)) batch" using bo by (auto simp: batch_ok_def txn_valid_def list_all_iff upd_clean_def)
  then obtain vs w' where vs: "verify_loop ?w batch = Some (vs, w')" "length vs = length batch" "map valid vs = serial (spec_of ?s) fl (is_pristine (h_manifest hh)) batch"
    using verify_loop_serial [OF w(1,3), of batch] w(2) by auto
  have "log_serial (spec_of ?s) (map req_txn (valid_requests batch vs))" using serial_requests [OF vs(3,2)] .
  then have "log_serial (cold b cm) (map req_txn (valid_requests batch vs))" if "h_version hh = Some cv"
    using current_refs [OF B f hi that] by simp
  then show ?thesis using that [of vs] vs(1,2) by (simp add: verify_batch_def)
qed

lemma apply_local_spec:
  assumes "refs_clean (read_refs (e_peel env) d)" "list_all (\<lambda>t. list_all upd_clean (updates t)) ts" "apply_local env ts d = (True, d')"
  shows "refs_clean (read_refs (e_peel env) d') \<and> spec_of (read_refs (e_peel env) d') = spec_txns (spec_of (read_refs (e_peel env) d)) ts"
  using assms
proof (induction ts arbitrary: d)
  case (Cons t ts)
  obtain d1 where d1: "apply_ref_txn (e_git env) (e_peel env) False t d = Some (Inr (), d1)" "apply_local env ts d1 = (True, d')"
    using Cons.prems(3) by (auto split: option.splits sum.splits)
  have "list_all upd_clean (updates t)" using Cons.prems(2) by simp
  note s = apply_ref_txn_spec [OF git Cons.prems(1) this d1(1)]
  then show ?case using Cons.IH [of d1] Cons.prems(2) d1(2) by simp
qed simp

text \<open>
  Installing an own commit: the handle may meanwhile have been synced past it; then the own
  transactions come again on top of later ones, and the log is replayed from there at the next sync.
\<close>

lemma install_inv:
  fixes now i :: nat
  assumes B: "bucket_inv bnd b cv cm" and f: "files_inv env b cm (h_dir hh) (applied_seq (h_state hh))" and hi: "handle_inv env b cv cm hh"
    and a: "attempt_inv env b cv cm hh a" and c: "commit_inv bnd b cm a slot"
    and k: "known b cv cm v m" and s: "own_segment a slot s" "log_segments m = log_segments (at_base a) @ [s]"
    and ok: "fst (apply_local env (map req_txn (at_requests a)) (h_dir hh))"
  defines "hh' \<equiv> install env now i a slot m (Some v) hh"
  shows "files_inv env b cm (h_dir hh') (applied_seq (h_state hh'))" "handle_inv env b cv cm hh'"
    "prefix (log_segments (at_base a)) (log_segments (h_manifest hh'))"
proof -
  let ?reqs = "at_requests a" and ?p = "e_peel env"
  obtain d' where d': "apply_local env (map req_txn ?reqs) (h_dir hh) = (True, d')" using ok by (metis prod.collapse)
  have bok: "batch_ok env (at_batch a)" and base: "prefix (log_segments (at_base a)) (log_segments (h_manifest hh))"
    and hb: "hist (at_base a) cm" using a by (auto simp: attempt_inv_def known_def)
  obtain es where es: "mem_view b (slot_key slot) = Some (slot_version slot, SegmentObj es)" "entry_txns es = map req_txn ?reqs"
    using c bok holds_segment_facts by (metis commit_inv_def)
  have clean: "list_all (\<lambda>t. list_all upd_clean (updates t)) (map req_txn ?reqs)"
    using bok valid_requests_subset unfolding batch_ok_def at_requests_def list_all_iff by fastforce
  let ?s = "spec_of (read_refs ?p (h_dir hh))"
  have rc: "refs_clean (read_refs ?p (h_dir hh))" and tgt: "sp_target ?s \<noteq> HEAD" using f by (simp_all add: files_inv_def)
  have D: "refs_clean (read_refs ?p d')" "spec_of (read_refs ?p d') = spec_txns ?s (map req_txn ?reqs)"
    using apply_local_spec [OF rc clean d'] by simp_all
  have hm: "hist m cm" using k by (simp add: known_def)
  obtain v0 where v0: "known b cv cm v0 (h_manifest hh)" and ap: "applied_seq (h_state hh) = head_seq (h_manifest hh)" using hi by (auto simp: handle_inv_def)
  then have hh: "hist (h_manifest hh) cm" by (simp add: known_def)
  have last: "head_seq m = slot_first slot + (length ?reqs - 1)" using hm s by (simp add: hist_def chain_def own_segment_def)
  obtain rest where r: "log_of b (log_segments cm) = log_of b (log_segments m) @ rest"
    "\<forall>e \<in> set (log_of b (log_segments m)). seq e \<le> head_seq m" "\<forall>e \<in> set rest. head_seq m < seq e" "head_seq m \<le> head_seq cm"
    by (rule hist_split [OF B hm])
  have logm: "log_of b (log_segments m) = log_of b (log_segments (at_base a)) @ es"
    using s es(1) by (simp add: own_segment_def seg_entries_def)
  obtain rest' where r': "log_of b (log_segments cm) = log_of b (log_segments (h_manifest hh)) @ rest'"
    "\<forall>e \<in> set (log_of b (log_segments (h_manifest hh))). seq e \<le> head_seq (h_manifest hh)" "\<forall>e \<in> set rest'. head_seq (h_manifest hh) < seq e"
    by (rule hist_split [OF B hh])
  have catch: "spec_txns ?s (entry_txns rest') = cold b cm"
    using f unfolding files_inv_def ap unfolding r'(1) filter_split(2) [OF r'(2,3) le_refl] by simp
  have goal: "spec_txns (spec_txns ?s (map req_txn ?reqs)) (entry_txns rest) = cold b cm"
  proof (cases "log_segments (h_manifest hh) = log_segments (at_base a)")
    case True
    then have "rest' = es @ rest" using r(1) r'(1) logm by simp
    then show ?thesis using catch es(2) by simp
  next
    case False
    have "prefix (log_segments m) (log_segments (h_manifest hh))"
    proof -
      have "prefix (log_segments m) (log_segments cm)" "prefix (log_segments (h_manifest hh)) (log_segments cm)" using hm hh by (simp_all add: hist_def)
      moreover have "length (log_segments m) \<le> length (log_segments (h_manifest hh))"
        using base False s(2) by (auto simp: prefix_def) (metis append_self_conv length_0_conv not_less_eq_eq Suc_leI length_greater_0_conv)
      ultimately show ?thesis by (rule prefix_length_prefix)
    qed
    then obtain mid where mid: "log_of b (log_segments (h_manifest hh)) = log_of b (log_segments m) @ mid" by (auto simp: prefix_def)
    then have rest: "rest = mid @ rest'" using r(1) r'(1) by simp
    let ?x = "spec_txns init_spec (entry_txns (log_of b (log_segments (at_base a))))"
    have "cold b cm = spec_txns ?x ((map req_txn ?reqs @ entry_txns mid) @ entry_txns rest')"
      unfolding cold_def r(1) logm rest using es(2) by simp
    from replay_again [OF this catch [symmetric]] show ?thesis by (simp add: rest)
  qed
  have fields: "h_dir hh' = d'" "h_manifest hh' = m" "h_version hh' = Some v" "applied_seq (h_state hh') = head_seq m"
    by (simp_all add: hh'_def install_def Let_def d' last)
  have "sp_target (spec_txns ?s (map req_txn ?reqs)) \<noteq> HEAD" using spec_txns_target [OF tgt clean] .
  then have "snap_head_target (read_refs ?p d') \<noteq> HEAD" using D(2) by (metis sp_target_of(2))
  then show "files_inv env b cm (h_dir hh') (applied_seq (h_state hh'))"
    unfolding files_inv_def fields r(1) filter_split(2) [OF r(2,3) le_refl] using D r(4) goal by simp
  show "handle_inv env b cv cm hh'" unfolding handle_inv_def fields using k by simp
  show "prefix (log_segments (at_base a)) (log_segments (h_manifest hh'))" unfolding fields s(2) by simp
qed

end

end
