(* ===== verification/Wal_Safety.thy ===== *)
theory Wal_Safety
  imports Wal_Handles
begin

text \<open>
  The safety of the publish protocol: every step of every instance keeps the invariant, so that in
  every calm run the committed log is serial, append-only and intact, acknowledged pushes stay in it,
  and a current handle serves exactly its replay. The machine has no checkpoints (\<open>Wal_Checkpoint\<close>
  takes one at the end of a run), no compaction and no deletion of repositories. The last section shows by a run why calm runs
  exclude one fault, the lost response of an applied manifest swap.
\<close>

section \<open>Every step keeps the invariant\<close>

text \<open>
  What a calm run keeps to: the updates of every batch are validated, with names the ref files can hold, and
  leave HEAD sound (\<open>upd_clean\<close>); the response to an applied swap of the manifest is not lost; git accepts a
  committed transaction locally.
\<close>

fun calm_pc :: "wal_env \<Rightarrow> git_dir \<Rightarrow> fault \<Rightarrow> pc \<Rightarrow> bool" where
  "calm_pc env d flt (Committing a slot n) = (flt \<noteq> Lost)"
| "calm_pc env d flt (Installing a slot m ver) = fst (apply_local env (map req_txn (at_requests a)) d)"
| "calm_pc env d flt _ = True"

fun calm_event :: "wal_env \<Rightarrow> world \<Rightarrow> event \<Rightarrow> bool" where
  "calm_event env w (EvBegin i batch) = list_all (\<lambda>r. list_all upd_clean (updates (req_txn r))) batch"
| "calm_event env w (EvStep i now flt) = calm_pc env (h_dir (w_handle (writers w i))) flt (w_pc (writers w i))"
| "calm_event env w _ = True"

fun calm :: "wal_env \<Rightarrow> world \<Rightarrow> event list \<Rightarrow> bool" where
  "calm env w [] = True"
| "calm env w (ev # evs) = (calm_event env w ev \<and> calm env (step env w ev) evs)"

definition good_step :: "wal_env \<Rightarrow> nat \<Rightarrow> version \<Rightarrow> manifest \<Rightarrow> world \<Rightarrow> world \<Rightarrow> bool" where
  "good_step env bnd' cv cm w w' \<longleftrightarrow> (\<exists>cv' cm'. world_inv env bnd' cv' cm' w' \<and> grow (bucket w) cv cm (bucket w') cv' cm')"

lemma respond_answers:
  assumes "length vs = length batch" "map txn es = map (\<lambda>r. Some (req_txn r)) (valid_requests batch vs)"
    and "map seq es = [first..<first + length (valid_requests batch vs)]" "set es \<subseteq> set (log_of b (log_segments cm))"
  shows "list_all (answer_ok b cm) (map (\<lambda>(r, res). (i, r, Inr res)) (zip batch (respond first vs)))"
proof -
  have "answer_ok b cm (i, batch ! j, Inr (respond first vs ! j))" if j: "j < length batch" for j
  proof (cases "valid (vs ! j)")
    case True
    let ?k = "length (valid_requests (take j batch) (take j vs))"
    have k: "?k < length (valid_requests batch vs)" "valid_requests batch vs ! ?k = batch ! j"
      using valid_requests_nth [OF assms(1) _ True] j assms(1) by simp_all
    have len: "length es = length (valid_requests batch vs)" using assms(2) by (metis length_map)
    have "seq (es ! ?k) = first + ?k" using arg_cong [OF assms(3), of "\<lambda>xs. xs ! ?k"] k(1) len by (simp add: nth_upt)
    moreover have "txn (es ! ?k) = Some (req_txn (batch ! j))" using arg_cong [OF assms(2), of "\<lambda>xs. xs ! ?k"] k len by simp
    moreover have "es ! ?k \<in> set (log_of b (log_segments cm))" using assms(4) k(1) len by (metis nth_mem subsetD)
    ultimately show ?thesis using respond_loop_spec [OF assms(1), of j first 0] j assms(1) True by (auto simp: answer_ok_def respond_def)
  next
    case False
    then show ?thesis using respond_loop_spec [OF assms(1), of j first 0] j assms(1) by (simp add: answer_ok_def respond_def)
  qed
  then show ?thesis by (auto simp: list_all_length)
qed

context publishers
begin

text \<open>A step that only moves the publisher and may add objects.\<close>

lemma move_good:
  assumes W: "world_inv env bnd cv cm w" and le: "Suc bnd \<le> bnd'" and ex: "extends (bucket w) (bucket w')"
    and ws: "writers w' = (writers w)(i := (writers w i)\<lparr>w_pc := p\<rparr>)" and ans: "answers w' = answers w @ xs" "list_all (answer_ok (bucket w') cm) xs"
    and live: "w_pc (writers w i) \<noteq> Dead" "\<not> is_opening (w_lock (writers w i))"
    and pc: "pc_inv env (bucket w') cv cm (w_handle (writers w i)) p" and cl: "claim_inv bnd' (bucket w') cm p"
    and sl: "\<And>s. open_slot p = Some s \<Longrightarrow> open_slot (w_pc (writers w i)) = Some s \<or> slot_version s \<notin> mem_issued (bucket w)" and alive: "p \<noteq> Dead"
  shows "good_step env bnd' cv cm w w'"
proof -
  have B: "bucket_inv bnd (bucket w) cv cm" and wi: "writer_inv env bnd (bucket w) cv cm (writers w i)" using W by (simp_all add: world_inv_def)
  note e = extends_inv [OF B ex le]
  have "writer_inv env bnd' (bucket w') cv cm ((writers w i)\<lparr>w_pc := p\<rparr>)"
    using wi live alive pc cl grow_files [OF B e(1)] grow_handle [OF B e(1)] grow_lock [OF B e(1)] by (simp add: writer_inv_def)
  then have "world_inv env bnd' cv cm w'"
    using world_step [OF W e(1,2) _ ws _ e(3) _ ans] le sl by fastforce
  then show ?thesis using e(1) by (auto simp: good_step_def)
qed

lemma stay_good:
  assumes W: "world_inv env bnd cv cm w" and le: "Suc bnd \<le> bnd'"
  shows "good_step env bnd' cv cm w w"
proof -
  have B: "bucket_inv bnd (bucket w) cv cm" and ok: "mem_ok (bucket w)" using W by (simp_all add: world_inv_def bucket_inv_def)
  note e = extends_inv [OF B extends_refl [OF ok] le]
  have "writer_inv env bnd' (bucket w) cv cm (writers w i)" for i
    using writer_grow [OF B e(1)] e(3) W le by (simp add: world_inv_def)
  then have "world_inv env bnd' cv cm w" using W e(2) by (simp add: world_inv_def)
  then show ?thesis using e(1) by (auto simp: good_step_def)
qed

text \<open>A step that changes a handle and leaves the bucket.\<close>

lemma handle_good:
  assumes W: "world_inv env bnd cv cm w" and le: "Suc bnd \<le> bnd'" and b: "bucket w' = bucket w"
    and ws: "writers w' = (writers w)(i := wr)" and ans: "answers w' = answers w @ xs" "list_all (answer_ok (bucket w) cm) xs"
    and wr: "writer_inv env bnd' (bucket w) cv cm wr"
    and sl: "open_slot (w_pc wr) = None \<or> open_slot (w_pc wr) = open_slot (w_pc (writers w i))"
  shows "good_step env bnd' cv cm w w'"
proof -
  have B: "bucket_inv bnd (bucket w) cv cm" and ok: "mem_ok (bucket w)" using W by (simp_all add: world_inv_def bucket_inv_def)
  note e = extends_inv [OF B extends_refl [OF ok] le]
  have "world_inv env bnd' cv cm w'"
  proof (rule world_step [OF W, of w' cv cm bnd' i wr xs])
    show "(\<exists>t. open_slot (w_pc (writers w i)) = Some t \<and> slot_version t = slot_version s) \<or> slot_version s \<notin> mem_issued (bucket w)"
      if "open_slot (w_pc wr) = Some s" for s using that sl by (metis option.distinct(1))
  qed (use e wr ans ws le b in simp_all)
  then show ?thesis using e(1) by (auto simp: good_step_def b)
qed

lemma error_good:
  assumes "world_inv env bnd cv cm w" "Suc bnd \<le> bnd'" "extends (bucket w) b'"
    and "w_pc (writers w i) \<noteq> Dead" "\<not> is_opening (w_lock (writers w i))"
  shows "good_step env bnd' cv cm w ((finish_error i batch e w)\<lparr>bucket := b'\<rparr>)"
  by (rule move_good [OF assms(1,2), where i = i and p = Idle])
     (use assms in \<open>auto simp: finish_error_def goto_def set_writer_def answer_ok_def list_all_iff\<close>)

lemma error_good':
  assumes "world_inv env bnd cv cm w" "Suc bnd \<le> bnd'" "w_pc (writers w i) \<noteq> Dead" "\<not> is_opening (w_lock (writers w i))"
  shows "good_step env bnd' cv cm w (finish_error i batch e w)"
  by (rule move_good [OF assms(1,2), where i = i and p = Idle])
     (use assms in \<open>auto simp: finish_error_def goto_def set_writer_def answer_ok_def list_all_iff world_inv_def bucket_inv_def intro: extends_refl\<close>)

lemma goto_good:
  assumes "world_inv env bnd cv cm w" "Suc bnd \<le> bnd'" "w_pc (writers w i) \<noteq> Dead" "\<not> is_opening (w_lock (writers w i))"
    and "pc_inv env (bucket w) cv cm (w_handle (writers w i)) p" "claim_inv bnd' (bucket w) cm p"
    and "open_slot p = None \<or> open_slot p = open_slot (w_pc (writers w i))" "p \<noteq> Dead"
  shows "good_step env bnd' cv cm w (goto i p w)"
  by (rule move_good [OF assms(1,2), where i = i and p = p and xs = "[]"])
     (use assms in \<open>auto simp: goto_def set_writer_def world_inv_def bucket_inv_def intro: extends_refl\<close>)

lemma contended_good:
  assumes "world_inv env bnd cv cm w" "Suc bnd \<le> bnd'" "w_pc (writers w i) \<noteq> Dead" "\<not> is_opening (w_lock (writers w i))"
    and "batch_ok env (at_batch a)"
  shows "good_step env bnd' cv cm w (contended env i a w)"
  unfolding contended_def using error_good' [OF assms(1-4)] goto_good [OF assms(1-4)] assms(5) by simp

end

section \<open>The steps one by one\<close>

lemma freshness_known:
  assumes "bucket_inv bnd b cv cm" "freshness_check b ver = Inr outcome"
  shows "lock_inv b cv cm h (SyncRead outcome)"
proof -
  have m: "mem_view b MANIFEST = Some (cv, ManifestObj cm)" and c: "chain cm" and ok: "mem_ok b" using assms(1) by (simp_all add: bucket_inv_def)
  have "cv \<in> mem_issued b" using mem_hist.view_issued [OF ok m] .
  then have "known b cv cm cv cm" using c by (simp add: known_def hist_def)
  then show ?thesis
    using assms(2) m by (cases ver) (auto simp: freshness_check_def get_message_if_changed_view get_message_view split: if_splits)
qed

lemma read_manifest_current:
  assumes "bucket_inv bnd b cv cm"
  shows "read_manifest_fresh b = Inr (Some cm)"
proof -
  have "mem_view b MANIFEST = Some (cv, ManifestObj cm)" using assms by (simp add: bucket_inv_def)
  then show ?thesis by (auto simp: read_manifest_fresh_def get_bytes_def plain_get_def mem_get_def default_get_def mem_view_def)
qed

lemma busy_writer:
  assumes "world_inv env bnd cv cm w" "w_pc (writers w i) = p" "p \<noteq> Idle" "p \<noteq> Dead"
  shows "w_pc (writers w i) \<noteq> Dead" "\<not> is_opening (w_lock (writers w i))"
    "files_inv env (bucket w) cm (h_dir (w_handle (writers w i))) (applied_seq (h_state (w_handle (writers w i))))"
    "handle_inv env (bucket w) cv cm (w_handle (writers w i))" "lock_inv (bucket w) cv cm (w_handle (writers w i)) (w_lock (writers w i))"
    "pc_inv env (bucket w) cv cm (w_handle (writers w i)) p" "claim_inv bnd (bucket w) cm p"
proof -
  have "writer_inv env bnd (bucket w) cv cm (writers w i)" using assms(1) by (simp add: world_inv_def)
  then show "w_pc (writers w i) \<noteq> Dead" "\<not> is_opening (w_lock (writers w i))"
    "files_inv env (bucket w) cm (h_dir (w_handle (writers w i))) (applied_seq (h_state (w_handle (writers w i))))"
    "handle_inv env (bucket w) cv cm (w_handle (writers w i))" "lock_inv (bucket w) cv cm (w_handle (writers w i)) (w_lock (writers w i))"
    "pc_inv env (bucket w) cv cm (w_handle (writers w i)) p" "claim_inv bnd (bucket w) cm p"
    using assms(2-4) by (auto simp: writer_inv_def)
qed

lemma claim_inv_mono: "claim_inv bnd b cm p \<Longrightarrow> bnd \<le> bnd' \<Longrightarrow> claim_inv bnd' b cm p"
  by (cases "(bnd, b, cm, p)" rule: claim_inv.cases) (auto simp: claim_ok_mono slot_inv_mono commit_inv_mono)

lemma world_bucket:
  assumes "world_inv env bnd cv cm w" "bnd < 2 ^ 64 - 1"
  shows "bucket_inv bnd (bucket w) cv cm" "mem_ok (bucket w)" "mem_room (bucket w)"
  using assms by (auto simp: world_inv_def bucket_inv_def mem_room_def)

context publishers
begin

lemma starting_good:
  assumes W: "world_inv env bnd cv cm w" and le: "Suc bnd \<le> bnd'" and p: "w_pc (writers w i) = Starting batch n"
  shows "good_step env bnd' cv cm w (step_starting env flt i batch n w)"
proof -
  note b = busy_writer [OF W p, simplified]
  have B: "bucket_inv bnd (bucket w) cv cm" using W by (simp add: world_inv_def)
  have sync: "good_step env bnd' cv cm w (set_writer i ((writers w i)\<lparr>w_lock := SyncRead outcome, w_pc := Syncing batch n\<rparr>) w)"
    if "freshness_check (bucket w) (h_version (w_handle (writers w i))) = Inr outcome" for outcome
    by (rule handle_good [OF W le, where i = i and xs = "[]" and wr = "(writers w i)\<lparr>w_lock := SyncRead outcome, w_pc := Syncing batch n\<rparr>"])
       (use b freshness_known [OF B that] in \<open>simp_all add: set_writer_def writer_inv_def\<close>)
  show ?thesis
    unfolding step_starting_def
    using goto_good [OF W le b(1,2)] error_good' [OF W le b(1,2)] stay_good [OF W le] sync b(6)
    by (simp split: sum.split)
qed

lemma verifying_good:
  assumes W: "world_inv env bnd cv cm w" and le: "bnd + Suc (e_max_batch env) \<le> bnd'" and p: "w_pc (writers w i) = Verifying batch n"
  shows "good_step env bnd' cv cm w (step_verifying env i batch n w)"
proof -
  note b = busy_writer [OF W p, simplified]
  have B: "bucket_inv bnd (bucket w) cv cm" using W by (simp add: world_inv_def)
  have le1: "Suc bnd \<le> bnd'" using le by simp
  let ?h = "w_handle (writers w i)"
  obtain vs where vs: "verify_batch (rv_new (read_refs (e_peel env) (h_dir ?h))) (h_last_entry_time ?h) batch (h_manifest ?h) = Some vs" "length vs = length batch"
    "h_version ?h = Some cv \<longrightarrow> log_serial (cold (bucket w) cm) (map req_txn (valid_requests batch vs))"
    using verify_inv [OF B b(3,4,6), of "h_last_entry_time ?h"] by blast
  obtain v where v: "h_version ?h = Some v" "known (bucket w) cv cm v (h_manifest ?h)" using b(4) by (auto simp: handle_inv_def)
  have n: "length (valid_requests batch vs) \<le> e_max_batch env"
    using b(6) by (auto simp: batch_ok_def valid_requests_def intro: order_trans [OF length_filter_le])
  have "head_seq (h_manifest ?h) \<le> head_seq cm" using hist_split [OF B] v(2) by (metis known_def)
  then have head: "head_seq (h_manifest ?h) \<le> bnd" using B by (simp add: bucket_inv_def)
  show ?thesis
  proof (cases "valid_requests batch vs = []")
    case True
    then have invalid: "\<not> valid (vs ! j)" if "j < length vs" for j
      using valid_requests_nth [OF vs(2) that] by auto
    have "good_step env bnd' cv cm w (finish_respond i batch vs 0 w)"
    proof (rule move_good [OF W le1, where i = i and p = Idle])
      show "list_all (answer_ok (bucket (finish_respond i batch vs 0 w)) cm) (map (\<lambda>(r, res). (i, r, Inr res)) (zip batch (respond 0 vs)))"
        using respond_answers [OF vs(2), of "[]" 0] True by simp
    qed (use b W in \<open>simp_all add: finish_respond_def goto_def set_writer_def world_inv_def bucket_inv_def extends_refl\<close>)
    then show ?thesis using True vs(1) stay_good [OF W le1] by (simp add: step_verifying_def Let_def)
  next
    case False
    let ?a = "\<lparr>at_batch = batch, at_attempts = n, at_base = h_manifest ?h, at_version = h_version ?h, at_verified = vs\<rparr>"
    have "attempt_inv env (bucket w) cv cm ?h ?a" using b(6) vs(2,3) v False by (auto simp: attempt_inv_def at_requests_def)
    moreover have "claim_ok bnd' ?a (head_seq (h_manifest ?h) + 1) []" using n head le by (simp add: claim_ok_def burned_ok_def at_requests_def)
    ultimately have "good_step env bnd' cv cm w (goto i (Claiming ?a (head_seq (h_manifest ?h) + 1) []) w)"
      by (intro goto_good [OF W le1 b(1,2)]) simp_all
    then show ?thesis using False vs(1) stay_good [OF W le1] by (simp add: step_verifying_def Let_def)
  qed
qed

end

lemma put_with_created:
  assumes "mem_ok b" "mem_room b" "put_with flt now k x Create b = (Inr om, b')"
  shows "mem_view b k = None" "mem_view b' k = Some (meta_version om, x)" "meta_version om \<notin> mem_issued b" "meta_version om \<in> mem_issued b'"
proof -
  have "mem_put now k x Create b = (Inr om, b')" using assms(3) by (cases flt) (simp_all add: put_with_def)
  with assms(1,2) have "mem_view b k = None \<and> mem_view b' k = Some (meta_version om, x) \<and> meta_version om \<notin> mem_issued b \<and> meta_version om \<in> mem_issued b'"
    by (cases rule: mem_hist.put_result [of b now k x Create]) auto
  then show "mem_view b k = None" "mem_view b' k = Some (meta_version om, x)" "meta_version om \<notin> mem_issued b" "meta_version om \<in> mem_issued b'" by simp_all
qed

lemma build_kinds: "list_all (\<lambda>e. kind e = Push) (fst (build_batch now w reqs first))"
  unfolding build_entries by (auto simp: list_all_iff)

context publishers
begin

lemma goto_bucket_good:
  assumes W: "world_inv env bnd cv cm w" and le: "Suc bnd \<le> bnd'" and ex: "extends (bucket w) b'"
    and live: "w_pc (writers w i) \<noteq> Dead" "\<not> is_opening (w_lock (writers w i))"
    and pc: "pc_inv env b' cv cm (w_handle (writers w i)) p" and cl: "claim_inv bnd' b' cm p"
    and sl: "\<And>s. open_slot p = Some s \<Longrightarrow> open_slot (w_pc (writers w i)) = Some s \<or> slot_version s \<notin> mem_issued (bucket w)" and alive: "p \<noteq> Dead"
  shows "good_step env bnd' cv cm w ((goto i p w)\<lparr>bucket := b'\<rparr>)"
  by (rule move_good [OF W le, where i = i and p = p and xs = "[]"])
     (use ex live pc cl sl alive in \<open>simp_all add: goto_def set_writer_def\<close>)

lemma claiming_good:
  assumes W: "world_inv env bnd cv cm w" and le: "Suc bnd \<le> bnd'" and small: "bnd < 2 ^ 64 - 1" and p: "w_pc (writers w i) = Claiming a s burnt"
  shows "good_step env bnd' cv cm w (step_claiming env now flt i a s burnt w)"
proof -
  note b = busy_writer [OF W p, simplified] and B = world_bucket [OF W small]
  let ?key = "log_segment_key s" and ?es = "fst (build_batch now (e_instance env i) (at_requests a) s)"
  obtain r b' where put: "put_with (put_fault_of flt ?key) now ?key (SegmentObj ?es) Create (bucket w) = (r, b')" by force
  have ex: "extends (bucket w) b'" using put_with_extends [OF B(2,3)] put by (metis snd_conv)
  note e = extends_inv [OF B(1) ex le]
  have at: "attempt_inv env b' cv cm (w_handle (writers w i)) a" using grow_attempt [OF B(1) e(1)] b(6) by simp
  have up: "uploads_inv b' a (upload_keys (at_batch a))" by (simp add: uploads_inv_def)
  have cl: "claim_ok bnd' a s burnt" using b(7) le claim_ok_mono by auto
  note go = goto_bucket_good [OF W le ex b(1,2)]
  have "good_step env bnd' cv cm w ((goto i (Uploading a (Claimed \<lparr>slot_key = ?key, slot_version = meta_version om, slot_first = s, burned = burnt\<rparr> n)
      (upload_keys (at_batch a))) w)\<lparr>bucket := b'\<rparr>)" if r: "r = Inr om" for om n
  proof -
    note c = put_with_created [OF B(2,3) put [unfolded r]]
    have "?key \<notin> seg_key ` set (log_segments cm)"
      using c(1) bucket_inv_listed [OF B(1)] by (metis image_iff option.distinct(1))
    moreover have "holds_segment b' a \<lparr>slot_key = ?key, slot_version = meta_version om, slot_first = s, burned = burnt\<rparr>"
      using c(2) build_seqs build_txns build_kinds by (fastforce simp: holds_segment_def)
    ultimately have "slot_inv bnd' b' cm a \<lparr>slot_key = ?key, slot_version = meta_version om, slot_first = s, burned = burnt\<rparr>"
      using c(4) cl by (simp add: slot_inv_def)
    then show ?thesis using at up c(3) by (intro go) auto
  qed
  moreover have "good_step env bnd' cv cm w ((goto i (Probing a s burnt 0) w)\<lparr>bucket := b'\<rparr>)" using at cl by (intro go) auto
  moreover have "good_step env bnd' cv cm w ((goto i (Uploading a (ClaimFailed er) (upload_keys (at_batch a))) w)\<lparr>bucket := b'\<rparr>)" for er
    using at up by (intro go) auto
  ultimately show ?thesis by (auto simp: step_claiming_def Let_def put split: sum.split store_error.split)
qed

lemma probing_good:
  assumes W: "world_inv env bnd cv cm w" and le: "Suc bnd \<le> bnd'" and p: "w_pc (writers w i) = Probing a s burnt n"
  shows "good_step env bnd' cv cm w (step_probing flt i a s burnt n w)"
proof -
  note b = busy_writer [OF W p, simplified]
  have "claim_ok bnd' a s burnt" using b(7) le claim_ok_mono by auto
  then show ?thesis
    unfolding step_probing_def Let_def using b(6)
    by (auto split: sum.split option.split intro!: goto_good [OF W le b(1,2)] simp: uploads_inv_def)
qed

lemma heading_good:
  assumes W: "world_inv env bnd cv cm w" and le: "Suc bnd \<le> bnd'" and p: "w_pc (writers w i) = Heading a s burnt n"
  shows "good_step env bnd' cv cm w (step_heading flt i a s burnt n w)"
proof -
  note b = busy_writer [OF W p, simplified]
  have "claim_ok bnd' a s burnt" using b(7) le claim_ok_mono by auto
  moreover have "claim_ok bnd' a (s + 1) (burnt @ [(log_segment_key s, v)])" for v
    using b(7) le by (fastforce simp: claim_ok_def burned_ok_def)
  ultimately show ?thesis
    unfolding step_heading_def Let_def using b(6)
    by (auto split: option.split intro!: goto_good [OF W le b(1,2)] simp: uploads_inv_def)
qed

lemma uploading_good:
  assumes W: "world_inv env bnd cv cm w" and le: "Suc bnd \<le> bnd'" and small: "bnd < 2 ^ 64 - 1" and p: "w_pc (writers w i) = Uploading a out keys"
  shows "good_step env bnd' cv cm w (step_uploading env now flt i a out keys w)"
proof (cases keys)
  case Nil
  note b = busy_writer [OF W p, simplified]
  have bo: "batch_ok env (at_batch a)" using b(6) by (simp add: attempt_inv_def)
  have "good_step env bnd' cv cm w (goto i (Committing a slot n) w)" if "out = Claimed slot n" for slot n
    using b(6,7) that Nil p le by (intro goto_good [OF W le b(1,2)]) (auto simp: slot_inv_mono)
  then show ?thesis using Nil contended_good [OF W le b(1,2) bo] error_good' [OF W le b(1,2)] by (auto simp: step_uploading_def split: claim_outcome.split)
next
  case (Cons k ks)
  note b = busy_writer [OF W p, simplified] and B = world_bucket [OF W small]
  obtain r b' where put: "put_immutable_create flt now k (bucket w) = (r, b')" by force
  have ex: "extends (bucket w) b'" using put_immutable_extends(1) [OF B(2,3)] put by (metis snd_conv)
  note e = extends_inv [OF B(1) ex le]
  have at: "attempt_inv env b' cv cm (w_handle (writers w i)) a" using grow_attempt [OF B(1) e(1)] b(6) by simp
  have "good_step env bnd' cv cm w ((goto i (Uploading a out ks) w)\<lparr>bucket := b'\<rparr>)" if "r = Inr ()"
  proof -
    have "mem_view b' k \<noteq> None" using put_immutable_extends(2) [OF B(2,3), of flt now k] put that by simp
    moreover have "uploads_inv b' a keys" using grow_uploads [OF B(1) e(1)] b(6) by simp
    ultimately have "uploads_inv b' a ks" by (auto simp: uploads_inv_def Cons)
    moreover have "claim_inv bnd' b' cm (Uploading a out ks)" using b(7) e(3) by (cases out) auto
    moreover have "open_slot (Uploading a out ks) = open_slot (w_pc (writers w i))" by (cases out) (simp_all add: p)
    ultimately show ?thesis using at by (intro goto_bucket_good [OF W le ex b(1,2)]) auto
  qed
  then show ?thesis using error_good [OF W le ex b(1,2)] by (auto simp: step_uploading_def Cons put split: sum.split)
qed

end

context publishers
begin

lemma committing_good:
  assumes W: "world_inv env bnd cv cm w" and le: "Suc bnd \<le> bnd'" and small: "bnd < 2 ^ 64 - 1" and p: "w_pc (writers w i) = Committing a slot n"
    and calm: "flt \<noteq> Lost"
  shows "good_step env bnd' cv cm w (step_committing env now flt i a slot n w)"
proof -
  note b = busy_writer [OF W p, simplified] and B = world_bucket [OF W small]
  let ?um = "commit_target env now i a slot n" and ?mode = "case at_version a of Some v \<Rightarrow> Update v | None \<Rightarrow> Create"
  let ?h = "w_handle (writers w i)"
  obtain r b' where put: "put_with (put_fault_of flt MANIFEST) now MANIFEST (ManifestObj ?um) ?mode (bucket w) = (r, b')" by force
  have same: "b' = bucket w" if "r = Inl er" for er
    using put that calm by (cases flt) (auto simp: put_with_def mem_put_eq split: if_splits)
  have "good_step env bnd' cv cm w ((goto i (Installing a slot ?um (Some (meta_version om))) w)\<lparr>bucket := b'\<rparr>)" if r: "r = Inr om" for om
  proof -
    have mp: "mem_put now MANIFEST (ManifestObj ?um) ?mode (bucket w) = (Inr om, b')" using put r calm by (cases flt) (simp_all add: put_with_def)
    have at: "attempt_inv env (bucket w) cv cm ?h a" and up: "uploads_inv (bucket w) a []" and sl: "slot_inv bnd (bucket w) cm a slot" using b(6,7) by simp_all
    have small': "bnd < 2 ^ 64" using small by simp
    note c = commit_inv_step [OF B(1,3) small' le at up sl mp refl]
    let ?w' = "(goto i (Installing a slot ?um (Some (meta_version om))) w)\<lparr>bucket := b'\<rparr>"
    have own: "own_segment a slot (commit_segment a slot n)" by (simp add: own_segment_def commit_segment_def)
    have "world_inv env bnd' (meta_version om) ?um ?w'"
    proof (rule world_step [OF W, where i = i and xs = "[]" and wr = "(writers w i)\<lparr>w_pc := Installing a slot ?um (Some (meta_version om))\<rparr>"])
      show "writer_inv env bnd' (bucket ?w') (meta_version om) ?um ((writers w i)\<lparr>w_pc := Installing a slot ?um (Some (meta_version om))\<rparr>)"
        using grow_files [OF B(1) c(1) b(3)] grow_handle [OF B(1) c(1) b(4)] grow_lock [OF B(1) c(1) b(5)] grow_attempt [OF B(1) c(1) at] c(3-5) b(2) own
        by (simp add: writer_inv_def)
      show "slot_inv bnd' (bucket ?w') ?um a' slot'"
        if "j \<noteq> i" "open_slot (w_pc (writers w j)) = Some slot'" "slot_inv bnd (bucket w) cm a' slot'" for j slot' a'
      proof -
        have "slots_distinct (writers w)" "open_slot (w_pc (writers w i)) = Some slot" using W p by (simp_all add: world_inv_def)
        then have "slot_version slot' \<noteq> slot_version slot" using that(1,2) unfolding slots_distinct_def by metis
        then show ?thesis using c(6) [OF that(3)] by simp
      qed
    qed (use c(1,2) le in \<open>simp_all add: goto_def set_writer_def\<close>)
    then show ?thesis using c(1) by (auto simp: good_step_def)
  qed
  moreover have "good_step env bnd' cv cm w ((goto i q w)\<lparr>bucket := b'\<rparr>)" if "r = Inl er" "q = Dropping a slot \<or> q = Landing a slot" for er q
    using b(6,7) that(2) p le
    by (intro goto_bucket_good [OF W le _ b(1,2)]) (auto simp: same [OF that(1)] slot_inv_mono extends_refl B(2))
  ultimately show ?thesis by (auto simp: step_committing_def Let_def put split: sum.split store_error.split)
qed

lemma landing_good:
  assumes W: "world_inv env bnd cv cm w" and le: "Suc bnd \<le> bnd'" and p: "w_pc (writers w i) = Landing a slot"
  shows "good_step env bnd' cv cm w (step_landing flt i a slot w)"
proof -
  note b = busy_writer [OF W p, simplified]
  have "bucket_inv bnd (bucket w) cv cm" using W by (simp add: world_inv_def)
  moreover have "\<not> lists_slot slot cm" using b(7) by (force simp: lists_slot_def slot_inv_def list_ex_iff)
  ultimately show ?thesis
    using error_good' [OF W le b(1,2)] by (simp add: step_landing_def read_manifest_current split: sum.split)
qed

lemma installing_good:
  assumes W: "world_inv env bnd cv cm w" and le: "Suc bnd \<le> bnd'" and p: "w_pc (writers w i) = Installing a slot m ver"
    and calm: "fst (apply_local env (map req_txn (at_requests a)) (h_dir (w_handle (writers w i))))"
  shows "good_step env bnd' cv cm w (step_installing env now i a slot m ver w)"
proof (cases "w_lock (writers w i) = Free")
  case True
  note b = busy_writer [OF W p, simplified]
  have B: "bucket_inv bnd (bucket w) cv cm" using W by (simp add: world_inv_def)
  obtain v s where s: "ver = Some v" "known (bucket w) cv cm v m" "own_segment a slot s" "log_segments m = log_segments (at_base a) @ [s]"
    and at: "attempt_inv env (bucket w) cv cm (w_handle (writers w i)) a" using b(6) by auto
  let ?h = "install env now i a slot m ver (w_handle (writers w i))"
  note inst = install_inv [OF B b(3,4) at b(7) s(2-4) calm, of now i, folded s(1)]
  have "attempt_inv env (bucket w) cv cm ?h a" using at inst(3) by (auto simp: attempt_inv_def)
  then have "writer_inv env bnd' (bucket w) cv cm ((writers w i)\<lparr>w_handle := ?h, w_pc := Sweeping a slot (burned slot)\<rparr>)"
    using inst b(7) le True by (simp add: writer_inv_def commit_inv_mono)
  then have "good_step env bnd' cv cm w (set_writer i ((writers w i)\<lparr>w_handle := ?h, w_pc := Sweeping a slot (burned slot)\<rparr>) w)"
    by (intro handle_good [OF W le, where xs = "[]" and i = i and wr = "(writers w i)\<lparr>w_handle := ?h, w_pc := Sweeping a slot (burned slot)\<rparr>"]) (simp_all add: set_writer_def)
  then show ?thesis using True by (simp add: step_installing_def)
qed (simp add: step_installing_def stay_good [OF W le])

text \<open>A step that may delete an unlisted log object.\<close>

lemma delete_good:
  assumes W: "world_inv env bnd cv cm w" and le: "Suc bnd \<le> bnd'"
    and live: "w_pc (writers w i) \<noteq> Dead" "\<not> is_opening (w_lock (writers w i))"
    and unl: "log_segment_key q \<notin> seg_key ` set (log_segments cm)"
    and others: "\<And>j slot a. j \<noteq> i \<Longrightarrow> open_slot (w_pc (writers w j)) = Some slot \<Longrightarrow> slot_inv bnd (bucket w) cm a slot \<Longrightarrow>
      slot_version slot \<noteq> v \<or> slot_key slot \<noteq> log_segment_key q \<or> slot_first slot \<le> head_seq cm"
    and b': "bucket w' = try_delete flt (log_segment_key q) v (bucket w)"
    and ws: "writers w' = (writers w)(i := (writers w i)\<lparr>w_pc := p\<rparr>)" and ans: "answers w' = answers w @ xs" "list_all (answer_ok (bucket w') cm) xs"
    and pc: "pc_inv env (bucket w) cv cm (w_handle (writers w i)) p" and cl: "claim_inv bnd (bucket w) cm p" and sl: "open_slot p = None" and alive: "p \<noteq> Dead"
  shows "good_step env bnd' cv cm w w'"
proof -
  have B: "bucket_inv bnd (bucket w) cv cm" and wi: "writer_inv env bnd (bucket w) cv cm (writers w i)" and le1: "bnd \<le> bnd'" and ok: "mem_ok (bucket w)"
    using W le by (simp_all add: world_inv_def bucket_inv_def)
  note d = delete_inv [OF B unl le1, where v = v] and e = extends_inv [OF B extends_refl [OF ok] le]
  have g: "grow (bucket w) cv cm (bucket w') cv cm" and B': "bucket_inv bnd' (bucket w') cv cm"
    using d(1,2) e(1,2) by (simp_all add: b' try_delete_def)
  have sl': "slot_inv bnd' (bucket w') cm a slot"
    if "j \<noteq> i" "open_slot (w_pc (writers w j)) = Some slot" "slot_inv bnd (bucket w) cm a slot" for j a slot
    using d(3) [OF that(3) others [OF that]] e(3) [OF that(3)] by (simp add: b' try_delete_def)
  have "claim_inv bnd' (bucket w') cm p"
    by (rule claim_inv_keep [OF cl le1]) (use sl commit_inv_mono [OF grow_commit [OF B g] le1] in auto)
  then have "writer_inv env bnd' (bucket w') cv cm ((writers w i)\<lparr>w_pc := p\<rparr>)"
    using wi live alive grow_pc [OF B g pc] grow_files [OF B g] grow_handle [OF B g] grow_lock [OF B g] by (simp add: writer_inv_def)
  then have "world_inv env bnd' cv cm w'"
    using sl by (intro world_step [OF W g B' le1 ws _ sl' _ ans]) auto
  then show ?thesis using g by (auto simp: good_step_def)
qed

text \<open>A burned number lies between the base and the own segment: nothing can be listed there.\<close>

lemma burned_unlisted:
  assumes B: "bucket_inv bnd b cv cm" and small: "bnd < 2 ^ 64" and c: "commit_inv bnd b cm a slot" and h: "hist (at_base a) cm"
    and q: "head_seq (at_base a) < q" "q < slot_first slot"
  shows "log_segment_key q \<notin> seg_key ` set (log_segments cm)" "slot_first slot \<le> head_seq cm"
proof -
  obtain s ts where s: "own_segment a slot s" "log_segments cm = (log_segments (at_base a) @ [s]) @ ts" using c by (auto simp: commit_inv_def prefix_def)
  have ok: "segs_ok b (log_segments cm)" and ch: "chain cm" and lst: "list_all listed_ok (log_segments cm)" and head: "head_seq cm \<le> bnd" using B by (simp_all add: bucket_inv_def)
  have okb: "segs_ok b (log_segments (at_base a))" and chb: "chain (at_base a)" using segs_ok_prefix [OF ok] h by (simp_all add: hist_def)
  have first: "first_seq t \<le> last_seq t" if "t \<in> set (log_segments cm)" for t using ok that seg_ok_entries(3) by (auto simp: segs_ok_def list_all_iff)
  have le: "last_seq t \<le> head_seq cm" if "t \<in> set (log_segments cm)" for t using head_bound(1) [OF ok ch that] .
  have ss: "s \<in> set (log_segments cm)" by (simp add: s(2))
  show "slot_first slot \<le> head_seq cm" using first [OF ss] le [OF ss] s(1) by (simp add: own_segment_def)
  have "first_seq t \<noteq> q" if t: "t \<in> set (log_segments cm)" for t
  proof -
    consider "t \<in> set (log_segments (at_base a))" | "t = s" | "t \<in> set ts" using t by (auto simp: s(2))
    then show ?thesis
    proof cases
      case 1
      then show ?thesis using head_bound(1) [OF okb chb 1] first [OF t] q(1) by simp
    next
      case 2
      then show ?thesis using s(1) q(2) by (simp add: own_segment_def)
    next
      case 3
      then have "last_seq s < first_seq t" using ok by (simp add: segs_ok_def s(2) sorted_wrt_append)
      then show ?thesis using first [OF ss] s(1) q(2) by (simp add: own_segment_def)
    qed
  qed
  moreover have "seg_key t = log_segment_key (first_seq t)" "first_seq t < 2 ^ 64" if "t \<in> set (log_segments cm)" for t
    using lst that first [OF that] le [OF that] head small by (auto simp: list_all_iff listed_ok_def)
  moreover have "q < 2 ^ 64" using q(2) \<open>slot_first slot \<le> head_seq cm\<close> head small by simp
  ultimately show "log_segment_key q \<notin> seg_key ` set (log_segments cm)" using log_segment_key_inject by (metis image_iff)
qed

end

lemma init_refs:
  "refs_clean (read_refs peel init_dir)" "snap_head_target (read_refs peel init_dir) \<noteq> HEAD" "spec_of (read_refs peel init_dir) = init_spec"
proof -
  have "read_head init_dir = (''refs/heads/main'', [])" by code_simp
  then have r: "read_refs peel init_dir = \<lparr>snap_refs = [], snap_head_target = ''refs/heads/main'', snap_head_oid = []\<rparr>"
    by (simp add: read_refs_def init_dir_def)
  show "refs_clean (read_refs peel init_dir)" "snap_head_target (read_refs peel init_dir) \<noteq> HEAD" unfolding r by code_simp+
  show "spec_of (read_refs peel init_dir) = init_spec" unfolding r by (simp add: spec_of_def init_spec_def)
qed

lemma init_files:
  assumes B: "bucket_inv bnd b cv cm"
  shows "files_inv env b cm init_dir 0"
proof -
  have "0 < seq e" if "e \<in> set (log_of b (log_segments cm))" for e
    using log_of_range [OF _ that] B by (fastforce simp: bucket_inv_def segs_ok_def list_all_iff listed_ok_def)
  then have "filter (\<lambda>e. 0 < seq e) (log_of b (log_segments cm)) = log_of b (log_segments cm)" by (simp add: filter_id_conv)
  then show ?thesis using init_refs [of "e_peel env"] by (simp add: files_inv_def cold_def)
qed

context publishers
begin

lemma sweeping_good:
  assumes W: "world_inv env bnd cv cm w" and le: "Suc bnd \<le> bnd'" and small: "bnd < 2 ^ 64 - 1" and p: "w_pc (writers w i) = Sweeping a slot todo"
  shows "good_step env bnd' cv cm w (step_sweeping flt i a slot todo w)"
proof (cases todo)
  case Nil
  note b = busy_writer [OF W p, simplified] and B = world_bucket [OF W small]
  have bo: "batch_ok env (at_batch a)" and len: "length (at_verified a) = length (at_batch a)" using b(6) by (simp_all add: attempt_inv_def)
  obtain s where s: "own_segment a slot s" "prefix (log_segments (at_base a) @ [s]) (log_segments cm)" and hs: "holds_segment (bucket w) a slot"
    using b(7) by (auto simp: commit_inv_def)
  obtain es where es: "mem_view (bucket w) (slot_key slot) = Some (slot_version slot, SegmentObj es)"
    "map seq es = [slot_first slot..<slot_first slot + length (at_requests a)]" "map txn es = map (\<lambda>r. Some (req_txn r)) (at_requests a)"
    by (rule holds_segment_facts [OF hs bo])
  have "seg_entries (bucket w) s = es" using s(1) es(1) by (simp add: own_segment_def seg_entries_def)
  then have "set es \<subseteq> set (log_of (bucket w) (log_segments cm))" using s(2) by (auto simp: prefix_def)
  then have ans: "list_all (answer_ok (bucket w) cm) (map (\<lambda>(r, res). (i, r, Inr res)) (zip (at_batch a) (respond (slot_first slot) (at_verified a))))"
    using respond_answers [OF len, of es "slot_first slot"] es(2,3) by (simp add: at_requests_def)
  have "good_step env bnd' cv cm w (finish_respond i (at_batch a) (at_verified a) (slot_first slot) w)"
    by (rule move_good [OF W le, where i = i and p = Idle])
       (use b B ans in \<open>simp_all add: finish_respond_def goto_def set_writer_def extends_refl\<close>)
  then show ?thesis by (simp add: step_sweeping_def Nil)
next
  case (Cons kv rest)
  note b = busy_writer [OF W p, simplified] and B = world_bucket [OF W small]
  obtain k v where kv: "kv = (k, v)" by force
  have c: "commit_inv bnd (bucket w) cm a slot" and h: "hist (at_base a) cm" using b(6,7) by (auto simp: attempt_inv_def known_def)
  have "(k, v) \<in> set (burned slot)" using b(6) Cons kv by simp
  then obtain q where q: "k = log_segment_key q" "head_seq (at_base a) < q" "q < slot_first slot"
    using c by (fastforce simp: commit_inv_def claim_ok_def burned_ok_def)
  have small': "bnd < 2 ^ 64" using small by simp
  note u = burned_unlisted [OF B(1) small' c h q(2,3)]
  have head: "head_seq cm \<le> bnd" using B(1) by (simp add: bucket_inv_def)
  have "slot_first slot' \<le> head_seq cm" if "slot_inv bnd (bucket w) cm a' slot'" "slot_key slot' = log_segment_key q" for a' slot'
  proof -
    have "slot_first slot' < 2 ^ 64" "log_segment_key (slot_first slot') = log_segment_key q" using that small' by (auto simp: slot_inv_def claim_ok_def)
    then have "slot_first slot' = q" using log_segment_key_inject q(3) u(2) head small' by (metis le_less_trans less_trans order_less_le_trans)
    then show ?thesis using q(3) u(2) by simp
  qed
  then have "good_step env bnd' cv cm w ((goto i (Sweeping a slot rest) w)\<lparr>bucket := try_delete flt k v (bucket w)\<rparr>)"
    using b(6) c Cons q(1)
    by (intro delete_good [OF W le b(1,2) u(1), where p = "Sweeping a slot rest" and xs = "[]" and v = v and flt = flt]) (auto simp: goto_def set_writer_def)
  then show ?thesis by (simp add: step_sweeping_def Cons kv)
qed

lemma dropping_good:
  assumes W: "world_inv env bnd cv cm w" and le: "Suc bnd \<le> bnd'" and p: "w_pc (writers w i) = Dropping a slot"
  shows "good_step env bnd' cv cm w (step_dropping env flt i a slot w)"
proof -
  note b = busy_writer [OF W p, simplified]
  have key: "slot_key slot = log_segment_key (slot_first slot)" and unl: "log_segment_key (slot_first slot) \<notin> seg_key ` set (log_segments cm)"
    and bo: "batch_ok env (at_batch a)" using b(6,7) by (auto simp: slot_inv_def attempt_inv_def)
  have "slots_distinct (writers w)" "open_slot (w_pc (writers w i)) = Some slot" using W p by (simp_all add: world_inv_def)
  then have others: "slot_version slot' \<noteq> slot_version slot" if "j \<noteq> i" "open_slot (w_pc (writers w j)) = Some slot'" for j slot'
    using that unfolding slots_distinct_def by metis
  note d = delete_good [OF W le b(1,2) unl, where v = "slot_version slot" and flt = flt]
  show ?thesis
  proof (cases "e_max_retries env \<le> at_attempts a + 1")
    case True
    then show ?thesis
      unfolding step_dropping_def contended_def key using others
      by (intro d [where p = Idle]) (auto simp: finish_error_def goto_def set_writer_def answer_ok_def list_all_iff)
  next
    case False
    then show ?thesis
      unfolding step_dropping_def contended_def key using others bo
      by (intro d [where p = "Starting (at_batch a) (at_attempts a + 1)" and xs = "[]"]) (auto simp: goto_def set_writer_def)
  qed
qed

lemma publish_step_good:
  assumes W: "world_inv env bnd cv cm w" and le: "bnd + Suc (e_max_batch env) \<le> bnd'" and small: "bnd < 2 ^ 64 - 1"
    and calm: "calm_event env w (EvStep i now flt)"
  shows "good_step env bnd' cv cm w (publish_step env now flt i w)"
proof -
  have le1: "Suc bnd \<le> bnd'" using le by simp
  show ?thesis
    using stay_good [OF W le1] starting_good [OF W le1] verifying_good [OF W le] claiming_good [OF W le1 small] probing_good [OF W le1]
      heading_good [OF W le1] uploading_good [OF W le1 small] committing_good [OF W le1 small] landing_good [OF W le1]
      installing_good [OF W le1] sweeping_good [OF W le1 small] dropping_good [OF W le1] busy_writer(6) [OF W, of i] calm
    by (cases "w_pc (writers w i)") (simp_all add: publish_step_def)
qed

end

context publishers
begin

lemma open_good:
  assumes W: "world_inv env bnd cv cm w" and le: "Suc bnd \<le> bnd'"
  shows "good_step env bnd' cv cm w (step_open i wiped w)"
proof (cases "w_pc (writers w i) = Dead")
  case True
  have B: "bucket_inv bnd (bucket w) cv cm" and m: "mem_view (bucket w) MANIFEST = Some (cv, ManifestObj cm)" and ok: "mem_ok (bucket w)" and ch: "chain cm"
    and wi: "writer_inv env bnd (bucket w) cv cm (writers w i)" using W by (simp_all add: world_inv_def bucket_inv_def)
  have k: "known (bucket w) cv cm cv cm" using mem_hist.view_issued [OF ok m] ch by (simp add: known_def hist_def)
  obtain om where om: "get_message dec_manifest MANIFEST (bucket w) = Inr (Some (om, cm))" "meta_version om = cv"
    using m get_message_view [of dec_manifest MANIFEST "bucket w"] by auto
  let ?st = "if wiped then default_state else h_state (w_handle (writers w i))" and ?d = "if wiped then init_dir else h_dir (w_handle (writers w i))"
  have f: "files_inv env (bucket w) cm ?d (applied_seq ?st)" using init_files [OF B] wi by (simp add: writer_inv_def default_state_def)
  then have "writer_inv env bnd' (bucket w) cv cm \<lparr>w_handle = new_handle cm cv ?st ?d, w_lock = OpenRead cv cm, w_pc = Idle\<rparr>"
    using k by (simp add: writer_inv_def new_handle_def files_inv_def)
  then have "good_step env bnd' cv cm w (set_writer i \<lparr>w_handle = new_handle cm cv ?st ?d, w_lock = OpenRead cv cm, w_pc = Idle\<rparr> w)"
    by (intro handle_good [OF W le, where xs = "[]" and i = i and wr = "\<lparr>w_handle = new_handle cm cv ?st ?d, w_lock = OpenRead cv cm, w_pc = Idle\<rparr>"])
       (simp_all add: set_writer_def)
  then show ?thesis using True om by (simp add: step_open_def Let_def)
qed (simp add: step_open_def Let_def stay_good [OF W le])

lemma sync_good:
  assumes W: "world_inv env bnd cv cm w" and le: "Suc bnd \<le> bnd'"
  shows "good_step env bnd' cv cm w (step_sync i w)"
proof -
  have B: "bucket_inv bnd (bucket w) cv cm" and wi: "writer_inv env bnd (bucket w) cv cm (writers w i)" using W by (simp_all add: world_inv_def)
  have "good_step env bnd' cv cm w (set_writer i ((writers w i)\<lparr>w_lock := SyncRead out\<rparr>) w)"
    if "freshness_check (bucket w) ver = Inr out" "w_pc (writers w i) \<noteq> Dead" "w_lock (writers w i) = Free" for out ver
  proof -
    have "claim_inv bnd' (bucket w) cm (w_pc (writers w i))" using wi le claim_inv_mono [of bnd] by (simp add: writer_inv_def)
    then have "writer_inv env bnd' (bucket w) cv cm ((writers w i)\<lparr>w_lock := SyncRead out\<rparr>)"
      using wi that(2,3) freshness_known [OF B that(1)] by (simp add: writer_inv_def)
    then show ?thesis
      by (intro handle_good [OF W le, where xs = "[]" and i = i and wr = "(writers w i)\<lparr>w_lock := SyncRead out\<rparr>"]) (simp_all add: set_writer_def)
  qed
  then show ?thesis using stay_good [OF W le] by (auto simp: step_sync_def Let_def split: sum.split)
qed

lemma pc_inv_handle:
  "pc_inv env b cv cm h p \<Longrightarrow> prefix (log_segments (h_manifest h)) (log_segments (h_manifest h')) \<Longrightarrow> pc_inv env b cv cm h' p"
  by (cases "(env, b, cv, cm, h, p)" rule: pc_inv.cases) (auto simp: attempt_inv_def intro: prefix_order.trans)

lemma apply_good:
  assumes W: "world_inv env bnd cv cm w" and le: "Suc bnd \<le> bnd'"
  shows "good_step env bnd' cv cm w (step_apply env i w)"
proof -
  have B: "bucket_inv bnd (bucket w) cv cm" and wi: "writer_inv env bnd (bucket w) cv cm (writers w i)" using W by (simp_all add: world_inv_def)
  let ?wr = "writers w i"
  have cl: "claim_inv bnd' (bucket w) cm (w_pc ?wr)" using wi le claim_inv_mono [of bnd] by (simp add: writer_inv_def)
  show ?thesis
  proof (cases "w_lock ?wr")
    case Free
    then show ?thesis using stay_good [OF W le] by (simp add: step_apply_def Let_def)
  next
    case (SyncRead out)
    have live: "w_pc ?wr \<noteq> Dead" using wi SyncRead by (auto simp: writer_inv_def)
    have f: "files_inv env (bucket w) cm (h_dir (w_handle ?wr)) (applied_seq (h_state (w_handle ?wr)))" and hi: "handle_inv env (bucket w) cv cm (w_handle ?wr)"
      and l: "lock_inv (bucket w) cv cm (w_handle ?wr) (SyncRead out)" and pc: "pc_inv env (bucket w) cv cm (w_handle ?wr) (w_pc ?wr)"
      using wi SyncRead live by (simp_all add: writer_inv_def)
    obtain h' where h': "sync_apply (e_peel env) (bucket w) out (w_handle ?wr) = (Inr (), h')" "files_inv env (bucket w) cm (h_dir h') (applied_seq (h_state h'))"
      "handle_inv env (bucket w) cv cm h'" "prefix (log_segments (h_manifest (w_handle ?wr))) (log_segments (h_manifest h'))"
      by (rule sync_inv [OF B f hi l])
    let ?p = "case w_pc ?wr of Syncing batch n \<Rightarrow> Verifying batch n | p \<Rightarrow> p"
    let ?wr' = "?wr\<lparr>w_handle := h', w_lock := Free, w_pc := ?p\<rparr>"
    have wr': "writer_inv env bnd' (bucket w) cv cm ?wr'"
      using h' pc_inv_handle [OF pc h'(4)] cl by (cases "w_pc ?wr") (simp_all add: writer_inv_def)
    have slot: "open_slot ?p = None \<or> open_slot ?p = open_slot (w_pc ?wr)" by (cases "w_pc ?wr") simp_all
    have "step_apply env i w = set_writer i ?wr' w"
      using SyncRead h'(1) by (cases ?wr; cases "w_pc ?wr") (simp_all add: step_apply_def Let_def goto_def set_writer_def)
    moreover have "good_step env bnd' cv cm w (set_writer i ?wr' w)"
      using wr' slot by (intro handle_good [OF W le, where xs = "[]" and i = i and wr = ?wr']) (simp_all add: set_writer_def)
    ultimately show ?thesis by simp
  next
    case (OpenRead v m)
    have pc: "w_pc ?wr = Idle" and k: "known (bucket w) cv cm v m" and h: "h_version (w_handle ?wr) = Some v" "h_manifest (w_handle ?wr) = m"
      "applied_seq (h_state (w_handle ?wr)) \<le> head_seq m"
      and f: "files_inv env (bucket w) cm (h_dir (w_handle ?wr)) (applied_seq (h_state (w_handle ?wr)))"
      using wi OpenRead by (simp_all add: writer_inv_def)
    have go: "good_step env bnd' cv cm w (set_writer i (?wr\<lparr>w_handle := h', w_lock := Free\<rparr>) w)"
      if "files_inv env (bucket w) cm (h_dir h') (applied_seq (h_state h'))" "handle_inv env (bucket w) cv cm h'" for h'
      by (rule handle_good [OF W le, where xs = "[]" and i = i and wr = "?wr\<lparr>w_handle := h', w_lock := Free\<rparr>"])
         (use that pc in \<open>simp_all add: set_writer_def writer_inv_def\<close>)
    show ?thesis
    proof (cases "applied_seq (h_state (w_handle ?wr)) < head_seq m")
      case True
      obtain h' where h': "apply_delta (e_peel env) (bucket w) m v (w_handle ?wr) = (Inr (), h')" "files_inv env (bucket w) cm (h_dir h') (head_seq m)"
        "applied_seq (h_state h') = head_seq m" "h_manifest h' = h_manifest (w_handle ?wr)" "h_version h' = h_version (w_handle ?wr)"
        using delta_inv [OF B _ f h(3), of v] k by (auto simp: known_def)
      then have "handle_inv env (bucket w) cv cm h'" using k h by (simp add: handle_inv_def)
      then show ?thesis using go [of h'] h' True OpenRead by (simp add: step_apply_def Let_def)
    next
      case False
      then have "handle_inv env (bucket w) cv cm (w_handle ?wr)" using k h by (simp add: handle_inv_def)
      then show ?thesis using go [OF f] False OpenRead by (simp add: step_apply_def Let_def)
    qed
  qed
qed

lemma begin_good:
  assumes W: "world_inv env bnd cv cm w" and le: "Suc bnd \<le> bnd'" and calm: "calm_event env w (EvBegin i batch)"
  shows "good_step env bnd' cv cm w (step_begin env i batch w)"
  using goto_good [OF W le, of i "Starting batch 0"] stay_good [OF W le] calm by (simp add: step_begin_def batch_ok_def)

lemma crash_good:
  assumes W: "world_inv env bnd cv cm w" and le: "Suc bnd \<le> bnd'"
  shows "good_step env bnd' cv cm w (step_crash i w)"
proof -
  have wi: "writer_inv env bnd (bucket w) cv cm (writers w i)" using W by (simp add: world_inv_def)
  show ?thesis
    by (rule handle_good [OF W le, where xs = "[]" and i = i and wr = "(writers w i)\<lparr>w_lock := Free, w_pc := Dead\<rparr>"])
       (use wi in \<open>simp_all add: step_crash_def set_writer_def writer_inv_def\<close>)
qed

lemma step_good:
  assumes W: "world_inv env bnd cv cm w" and le: "bnd + Suc (e_max_batch env) \<le> bnd'" and small: "bnd < 2 ^ 64 - 1"
    and calm: "calm_event env w ev"
  shows "good_step env bnd' cv cm w (step env w ev)"
proof -
  have le1: "Suc bnd \<le> bnd'" using le by simp
  show ?thesis
    using open_good [OF W le1] sync_good [OF W le1] apply_good [OF W le1] begin_good [OF W le1] publish_step_good [OF W le small] crash_good [OF W le1] calm
    by (cases ev) (simp_all del: calm_event.simps)
qed

end

section \<open>Runs\<close>

text \<open>The log that the current manifest lists.\<close>

definition current :: "bucket \<Rightarrow> (version \<times> manifest) option" where
  "current b = (case mem_view b MANIFEST of Some (v, ManifestObj m) \<Rightarrow> Some (v, m) | _ \<Rightarrow> None)"

definition committed :: "bucket \<Rightarrow> log_entry list" where
  "committed b = (case current b of Some (v, m) \<Rightarrow> log_of b (log_segments m) | None \<Rightarrow> [])"

lemma current_inv: "world_inv env bnd cv cm w \<Longrightarrow> current (bucket w) = Some (cv, cm)"
  "world_inv env bnd cv cm w \<Longrightarrow> committed (bucket w) = log_of (bucket w) (log_segments cm)"
  by (simp_all add: world_inv_def bucket_inv_def current_def committed_def)

lemma run_simps [simp]: "run env [] w = w" "run env (ev # evs) w = run env evs (step env w ev)" "run env (evs @ evs') w = run env evs' (run env evs w)"
  by (simp_all add: run_def)

lemma calm_append: "calm env w (evs @ evs') \<longleftrightarrow> calm env w evs \<and> calm env (run env evs w) evs'"
  by (induction evs arbitrary: w) auto

lemma first_world_inv: "\<exists>cv cm. world_inv env 1 cv cm (first_world env now rid fmt) \<and> log_segments cm = []"
proof -
  let ?m = "new_manifest now (e_instance env 0) rid fmt" and ?b = "mem_new :: bucket"
  obtain om b where put: "mem_put now MANIFEST (ManifestObj ?m) Create ?b = (Inr om, b)" by (simp add: mem_put_eq mem_new_ok)
  have "mem_ok ?b" "mem_room ?b" by (simp_all add: mem_new_ok)
  then have v: "mem_view b MANIFEST = Some (meta_version om, ManifestObj ?m) \<and> meta_version om \<in> mem_issued b \<and> mem_ok b"
    using mem.put_valid [of ?b now MANIFEST "ManifestObj ?m" Create]
    by (cases rule: mem_hist.put_result [of ?b now MANIFEST "ManifestObj ?m" Create]) (use put in \<open>auto simp: mem_new_ok\<close>)
  have cnt: "unat (counter b) \<le> 1" using mem_put_counter [of ?b now MANIFEST "ManifestObj ?m" Create] mem_new_ok put by (simp add: mem_new_def)
  have chain: "chain ?m" by (simp add: chain_def new_manifest_def)
  have B: "bucket_inv 1 b (meta_version om) ?m"
    using v cnt chain by (simp add: bucket_inv_def new_manifest_def segs_ok_def packs_there_def)
  let ?h = "new_handle ?m (meta_version om) default_state init_dir"
  have w: "first_world env now rid fmt =
      \<lparr>bucket = b, writers = (\<lambda>i. \<lparr>w_handle = ?h, w_lock = Free, w_pc = (if i = 0 then Idle else Dead)\<rparr>), answers = []\<rparr>"
    by (simp add: first_world_def registry_create_def Let_def put)
  have k: "known b (meta_version om) ?m (meta_version om) ?m" using v chain by (simp add: known_def hist_def)
  have "files_inv env b ?m init_dir 0" by (rule init_files [OF B])
  then have "writer_inv env 1 b (meta_version om) ?m \<lparr>w_handle = ?h, w_lock = Free, w_pc = (if i = 0 then Idle else Dead)\<rparr>" for i :: nat
    using k by (simp add: writer_inv_def handle_inv_def new_handle_def default_state_def new_manifest_def)
  then have "world_inv env 1 (meta_version om) ?m (first_world env now rid fmt)" using B by (simp add: world_inv_def w slots_distinct_def)
  then show ?thesis by (force simp: new_manifest_def)
qed

context publishers
begin

lemma run_good:
  assumes "world_inv env bnd cv cm w" "calm env w evs" "bnd + length evs * Suc (e_max_batch env) < 2 ^ 64 - 1"
  shows "\<exists>cv' cm'. world_inv env (bnd + length evs * Suc (e_max_batch env)) cv' cm' (run env evs w) \<and>
    prefix (committed (bucket w)) (committed (bucket (run env evs w)))"
  using assms
proof (induction evs arbitrary: bnd cv cm w)
  case (Cons ev evs)
  let ?bnd = "bnd + Suc (e_max_batch env)"
  obtain cv1 cm1 where s: "world_inv env ?bnd cv1 cm1 (step env w ev)" "grow (bucket w) cv cm (bucket (step env w ev)) cv1 cm1"
    using step_good [OF Cons.prems(1), of ?bnd ev] Cons.prems(2,3) by (auto simp: good_step_def)
  have "bucket_inv bnd (bucket w) cv cm" using Cons.prems(1) by (simp add: world_inv_def)
  then obtain new where "log_of (bucket (step env w ev)) (log_segments cm1) = log_of (bucket w) (log_segments cm) @ new" using grow_log [OF _ s(2)] by metis
  then have "prefix (committed (bucket w)) (committed (bucket (step env w ev)))"
    using current_inv(2) [OF s(1)] current_inv(2) [OF Cons.prems(1)] by simp
  then show ?case using Cons.IH [OF s(1)] Cons.prems(2,3) prefix_order.trans by (fastforce simp: algebra_simps)
qed auto

text \<open>The runs of the claims: calm, and too short to reach the end of the 64-bit numbers.\<close>

lemma first_run:
  assumes "calm env (first_world env now rid fmt) (evs @ evs')" "Suc (length (evs @ evs')) * Suc (e_max_batch env) < 2 ^ 64 - 1"
  obtains bnd cv cm where "world_inv env bnd cv cm (run env evs (first_world env now rid fmt))"
    "calm env (run env evs (first_world env now rid fmt)) evs'" "bnd + length evs' * Suc (e_max_batch env) < 2 ^ 64 - 1"
proof -
  obtain cv cm where w0: "world_inv env 1 cv cm (first_world env now rid fmt)" using first_world_inv by blast
  have n: "1 + length (evs @ evs') * Suc (e_max_batch env) < 2 ^ 64 - 1" using assms(2) by simp
  then have "1 + length evs * Suc (e_max_batch env) < 2 ^ 64 - 1" by (simp add: algebra_simps)
  then show ?thesis using that run_good [OF w0, of evs] assms(1) n by (auto simp: calm_append algebra_simps)
qed

lemma first_inv:
  assumes "calm env (first_world env now rid fmt) evs" "Suc (length evs) * Suc (e_max_batch env) < 2 ^ 64 - 1"
  shows "\<exists>bnd cv cm. world_inv env bnd cv cm (run env evs (first_world env now rid fmt))"
  using first_run [of now rid fmt evs "[]" thesis for thesis] assms by (metis append_Nil2)

lemma run_log:
  assumes "calm env (first_world env now rid fmt) evs" "Suc (length evs) * Suc (e_max_batch env) < 2 ^ 64 - 1"
    and "w = run env evs (first_world env now rid fmt)"
  shows "\<exists>v m. current (bucket w) = Some (v, m) \<and> sorted_wrt (<) (map seq (committed (bucket w))) \<and>
    (\<forall>e \<in> set (committed (bucket w)). 0 < seq e \<and> seq e \<le> head_seq m) \<and>
    log_serial init_spec (entry_txns (committed (bucket w))) \<and> packs_there (bucket w) m \<and>
    list_all (\<lambda>s. seg_ok (bucket w) s) (log_segments m)"
proof -
  obtain bnd cv cm where W: "world_inv env bnd cv cm w" using first_inv [OF assms(1,2)] assms(3) by auto
  then have B: "bucket_inv bnd (bucket w) cv cm" by (simp add: world_inv_def)
  then have ok: "segs_ok (bucket w) (log_segments cm)" "chain cm" by (simp_all add: bucket_inv_def)
  have "0 < seq e \<and> seq e \<le> head_seq cm" if "e \<in> set (log_of (bucket w) (log_segments cm))" for e
    using head_bound(2) [OF ok that] log_of_range [OF _ that] B by (fastforce simp: bucket_inv_def segs_ok_def list_all_iff listed_ok_def)
  then show ?thesis using B log_of_sorted [OF ok(1)] current_inv [OF W] by (auto simp: bucket_inv_def segs_ok_def)
qed

lemma run_keeps:
  assumes "calm env (first_world env now rid fmt) (evs @ evs')" "Suc (length (evs @ evs')) * Suc (e_max_batch env) < 2 ^ 64 - 1"
    and "w = run env evs (first_world env now rid fmt)" "w' = run env evs' w"
  shows "prefix (committed (bucket w)) (committed (bucket w'))"
    and "(i, r, Inr res) \<in> set (answers w) \<Longrightarrow> res_seq res \<noteq> 0 \<Longrightarrow> \<exists>e \<in> set (committed (bucket w')). seq e = res_seq res \<and> txn e = Some (req_txn r)"
proof -
  obtain bnd cv cm where W: "world_inv env bnd cv cm w" "calm env w evs'" "bnd + length evs' * Suc (e_max_batch env) < 2 ^ 64 - 1"
    using first_run [OF assms(1,2)] assms(3) by auto
  then show pre: "prefix (committed (bucket w)) (committed (bucket w'))" using run_good [OF W] assms(4) by auto
  assume a: "(i, r, Inr res) \<in> set (answers w)" "res_seq res \<noteq> 0"
  then have "answer_ok (bucket w) cm (i, r, Inr res)" using W(1) by (auto simp: world_inv_def list_all_iff)
  then show "\<exists>e \<in> set (committed (bucket w')). seq e = res_seq res \<and> txn e = Some (req_txn r)"
    using a(2) pre current_inv(2) [OF W(1)] by (auto simp: answer_ok_def dest: set_mono_prefix)
qed

lemma run_reads:
  assumes "calm env (first_world env now rid fmt) evs" "Suc (length evs) * Suc (e_max_batch env) < 2 ^ 64 - 1"
    and "w = run env evs (first_world env now rid fmt)" "w_pc (writers w i) \<noteq> Dead" "\<not> is_opening (w_lock (writers w i))"
    and "h = w_handle (writers w i)" "h_version h = map_option fst (current (bucket w))"
  shows "spec_of (read_refs (e_peel env) (h_dir h)) = spec_txns init_spec (entry_txns (committed (bucket w)))"
proof -
  obtain bnd cv cm where W: "world_inv env bnd cv cm w" using first_inv [OF assms(1,2)] assms(3) by auto
  then have B: "bucket_inv bnd (bucket w) cv cm" and f: "files_inv env (bucket w) cm (h_dir h) (applied_seq (h_state h))" and hi: "handle_inv env (bucket w) cv cm h"
    using assms(4-6) by (simp_all add: world_inv_def writer_inv_def)
  show ?thesis using current_refs [OF B f hi] assms(7) current_inv [OF W] by (simp add: cold_def)
qed

end

section \<open>An instance of the machine\<close>

text \<open>
  Publishers whose git is the model's own rewriting of the ref files, without annotated tags. The
  instance serves as the example of the claims below.
\<close>

definition file_env :: "(nat \<Rightarrow> string) \<Rightarrow> nat \<Rightarrow> nat \<Rightarrow> wal_env" where
  "file_env inst retries batch =
     \<lparr>e_git = file_git (\<lambda>_. None), e_peel = (\<lambda>_. None), e_instance = inst, e_frame_len = length, e_max_retries = retries, e_max_batch = batch\<rparr>"

lemma file_env_git: "update_ref_ok (e_peel (file_env inst retries batch)) (e_git (file_env inst retries batch))" "peel_hex (e_peel (file_env inst retries batch))"
  by (simp_all add: file_env_def peel_hex_def file_git_ok)

interpretation file_publishers: publishers "file_env inst retries batch" for inst retries batch
  by unfold_locales (rule file_env_git)+

definition example_env :: wal_env where "example_env = file_env (\<lambda>i. ''a'') 3 2"

definition example_world :: world where "example_world = first_world example_env 0 ''r'' ''sha1''"

definition example_request :: "string \<Rightarrow> char \<Rightarrow> publish_request" where
  "example_request old c = (example_push old (oid c))\<lparr>synced := False\<rparr>"

abbreviation steps :: "nat \<Rightarrow> nat \<Rightarrow> event list" where "steps i n \<equiv> replicate n (EvStep i 1 Fine)"

text \<open>Instance 0 publishes \<open>main\<close>; then instance 1 opens the repository and publishes on top of it.\<close>

definition example_push_events :: "event list" where
  "example_push_events = EvBegin 0 [example_request [] (CHR ''a'')] # steps 0 1 @ [EvApply 0] @ steps 0 6"

definition example_more_events :: "event list" where
  "example_more_events = [EvOpen 1 True, EvApply 1, EvBegin 1 [example_request (oid (CHR ''a'')) (CHR ''b'')]] @ steps 1 1 @ [EvApply 1] @ steps 1 6"

lemma example_calm:
  "calm example_env example_world example_push_events" "calm example_env example_world (example_push_events @ example_more_events)"
  by code_simp+

lemma example_short:
  "Suc (length example_push_events) * Suc (e_max_batch example_env) < 2 ^ 64 - 1"
  "Suc (length (example_push_events @ example_more_events)) * Suc (e_max_batch example_env) < 2 ^ 64 - 1"
  by (simp_all add: example_push_events_def example_more_events_def example_env_def file_env_def)

lemma example_acked:
  "answers (run example_env example_push_events example_world) =
     [(0, example_request [] (CHR ''a''), Inr \<lparr>res_seq = 1, res_per_ref = [(''refs/heads/main'', Inr ())]\<rparr>)]"
  by code_simp

section \<open>The claims\<close>

text \<open>
  C2: the committed log of publishers is intact and serial at every moment. Let any number of instances open, sync
  and publish to one repository and crash, with claims, races, orphans, retries and requests that fail before or
  after they took effect, from its creation on, in a repository without checkpoints and maintenance (automatic checkpoints
  turned off, see \<open>no_automatic_checkpoint\<close>). Suppose that in the run (1) the response to an applied swap
  of the manifest is never lost, (2) git applies every committed transaction locally, keeping its promise, and (3) the updates of every
  batch begun pass the validation, use names without surrounding white space and hexadecimal peeled ids, and do not point HEAD at
  itself or delete it; and that the run is too short to wrap a 64-bit counter (events times batch size below \<open>2 ^ 64\<close>). Then the manifest in the bucket lists only segments
  that are there with the entries they announce, the entries have increasing numbers up to the head,
  every entry's old values are those the entries before it left, and every pack and index the
  manifest names is in the bucket. (Condition (1) is needed: see \<open>lost_response_drops_push\<close>; condition (3) too: see \<open>tab_overwrites_branch\<close>.)
\<close>

theorem publish_log_serial:
  assumes "update_ref_ok (e_peel env) (e_git env)" "peel_hex (e_peel env)"
    and "calm env (first_world env now rid fmt) evs" "Suc (length evs) * Suc (e_max_batch env) < 2 ^ 64 - 1"
    and "b = bucket (run env evs (first_world env now rid fmt))"
  shows "\<exists>v m. current b = Some (v, m) \<and> list_all (seg_ok b) (log_segments m) \<and> sorted_wrt (<) (map seq (committed b)) \<and>
    (\<forall>e \<in> set (committed b). 0 < seq e \<and> seq e \<le> head_seq m) \<and> log_serial init_spec (entry_txns (committed b)) \<and> packs_there b m"
  using publishers.run_log [OF publishers.intro [OF assms(1,2)] assms(3,4) refl] unfolding assms(5) by blast

theorem publish_log_serial_witness:
  "log_serial init_spec (entry_txns (committed (bucket (run example_env (example_push_events @ example_more_events) example_world)))) \<and>
   map seq (committed (bucket (run example_env (example_push_events @ example_more_events) example_world))) = [1, 2]"
proof
  show "log_serial init_spec (entry_txns (committed (bucket (run example_env (example_push_events @ example_more_events) example_world))))"
    using publish_log_serial [OF file_env_git example_calm(2) [unfolded example_world_def example_env_def] example_short(2) [unfolded example_env_def] refl]
    unfolding example_world_def example_env_def by blast
  show "map seq (committed (bucket (run example_env (example_push_events @ example_more_events) example_world))) = [1, 2]" by code_simp
qed

text \<open>
  C1: an acknowledged push is not lost, as long as no response to an applied swap of the manifest is. Consider any run of publishers
  on one repository from its creation on: any number of instances that open, sync, publish and crash, in a repository
  without checkpoints and maintenance. Suppose the three conditions of a calm run: no response to an applied swap of the
  manifest is lost, git applies every committed transaction locally, and every batch begun has validated
  updates with names the ref files can hold that leave HEAD sound; and that the run is too short to wrap a 64-bit counter. Once a waiter has been told that its request was
  committed under a number, the log holds the request's transaction under that number, at that
  moment and after all further events of the run.
\<close>

theorem acknowledged_push_kept:
  assumes "update_ref_ok (e_peel env) (e_git env)" "peel_hex (e_peel env)"
    and "calm env (first_world env now rid fmt) (evs @ later)" "Suc (length (evs @ later)) * Suc (e_max_batch env) < 2 ^ 64 - 1"
    and "w = run env evs (first_world env now rid fmt)" "(i, r, Inr res) \<in> set (answers w)" "res_seq res \<noteq> 0"
  shows "\<exists>e \<in> set (committed (bucket (run env later w))). seq e = res_seq res \<and> txn e = Some (req_txn r)"
  using publishers.run_keeps(2) [OF publishers.intro [OF assms(1,2)] assms(3,4,5) refl assms(6,7)] .

theorem acknowledged_push_kept_witness:
  "\<exists>e \<in> set (committed (bucket (run example_env example_more_events (run example_env example_push_events example_world)))).
     seq e = 1 \<and> txn e = Some (req_txn (example_request [] (CHR ''a'')))"
  using acknowledged_push_kept [OF file_env_git example_calm(2) [unfolded example_world_def example_env_def] example_short(2) [unfolded example_env_def] refl,
      folded example_env_def, folded example_world_def, unfolded example_acked, of 0 "example_request [] (CHR ''a'')"]
  by fastforce

text \<open>
  C3: a handle that is current serves exactly the committed refs. In any calm run of publishers on one repository from its creation on (no checkpoint or
  maintenance; no lost response to an applied swap of the manifest; git applies committed transactions
  locally; batches with validated updates, names the ref files can hold and a sound HEAD; no 64-bit counter
  wraps), whenever an open handle holds
  the version of the manifest in the bucket, so that its next freshness check answers "unchanged",
  the refs and HEAD in its directory are the replay of all that was committed, on an empty
  repository, however the handle got there (own commits, syncs between them, a cached directory of
  an earlier run). (After a lost response it need not be so: see \<open>lost_response_drops_push\<close>.)
\<close>

theorem current_handle_reads_log:
  assumes "update_ref_ok (e_peel env) (e_git env)" "peel_hex (e_peel env)"
    and "calm env (first_world env now rid fmt) evs" "Suc (length evs) * Suc (e_max_batch env) < 2 ^ 64 - 1"
    and "w = run env evs (first_world env now rid fmt)" "w_pc (writers w i) \<noteq> Dead" "\<not> is_opening (w_lock (writers w i))"
    and "h = w_handle (writers w i)" "h_version h = map_option fst (current (bucket w))"
  shows "spec_of (read_refs (e_peel env) (h_dir h)) = spec_txns init_spec (entry_txns (committed (bucket w)))"
  using publishers.run_reads [OF publishers.intro [OF assms(1,2)] assms(3-9)] .

theorem current_handle_reads_log_witness:
  "sp_refs (spec_of (read_refs (\<lambda>_. None) (h_dir (w_handle (writers (run example_env example_push_events example_world) 0))))) ''refs/heads/main'' =
     Some (oid (CHR ''a''))"
proof -
  let ?w = "run example_env example_push_events example_world"
  have open_: "w_pc (writers ?w 0) \<noteq> Dead" "\<not> is_opening (w_lock (writers ?w 0))" "h_version (w_handle (writers ?w 0)) = map_option fst (current (bucket ?w))"
    by code_simp+
  have "spec_of (read_refs (e_peel example_env) (h_dir (w_handle (writers ?w 0)))) = spec_txns init_spec (entry_txns (committed (bucket ?w)))"
    using current_handle_reads_log [OF file_env_git example_calm(1) [unfolded example_world_def example_env_def] example_short(1) [unfolded example_env_def] refl
        _ _ refl, of 0] open_ unfolding example_world_def example_env_def by blast
  moreover have "sp_refs (spec_txns init_spec (entry_txns (committed (bucket ?w)))) ''refs/heads/main'' = Some (oid (CHR ''a''))" by code_simp
  moreover have "e_peel example_env = (\<lambda>_. None)" by (simp add: example_env_def file_env_def)
  ultimately show ?thesis by simp
qed

section \<open>Why the response to a manifest swap must not be lost\<close>

text \<open>
  The runs above exclude one fault: the swap of the manifest takes effect and its response is lost.
  In the run below instance 0 loses the response to its commit of number 1. Instance 2 leaves an
  orphan under number 2. Instance 1 burns that number, commits under number 3, is acknowledged and
  sweeps the orphan. Then instance 0 recovers and publishes again.
\<close>

definition lost_response_events :: "event list" where
  "lost_response_events = [EvOpen 1 True, EvApply 1, EvOpen 2 True, EvApply 2,
     EvBegin 0 [example_request [] (CHR ''a'')]] @ steps 0 1 @ [EvApply 0] @ steps 0 3 @ [EvStep 0 1 Lost] @ steps 0 1 @
     [EvBegin 2 [example_request (oid (CHR ''a'')) (CHR ''c'')]] @ steps 2 1 @ [EvApply 2] @ steps 2 2 @ [EvCrash 2] @
     [EvBegin 1 [example_request (oid (CHR ''a'')) (CHR ''b'')]] @ steps 1 1 @ [EvApply 1] @ steps 1 14 @
     steps 0 3 @ [EvBegin 0 [example_request (oid (CHR ''a'')) (CHR ''d'')]] @ steps 0 1 @ [EvApply 0] @ steps 0 6"

text \<open>
  C7: a lost response can cost an acknowledged push. After a swap whose response was lost, the
  publisher reads its commit back and then asks for the manifest's version in a second request. When
  another instance commits between the two, the handle pairs its older manifest with the newer
  version, and its next commit replaces the newer manifest: in this run all three pushes are
  acknowledged, under the numbers 3, 1 and 2, and the log ends up without number 3.
\<close>

theorem lost_response_drops_push:
  "map (\<lambda>(i, r, res). (i, map new_oid (updates (req_txn r)), map_sum id res_seq res)) (answers (run example_env lost_response_events example_world)) =
     [(1, [oid (CHR ''b'')], Inr 3), (0, [oid (CHR ''a'')], Inr 1), (0, [oid (CHR ''d'')], Inr 2)] \<and>
   map (\<lambda>e. (seq e, map_option (\<lambda>t. map new_oid (updates t)) (txn e))) (committed (bucket (run example_env lost_response_events example_world))) =
     [(1, Some [oid (CHR ''a'')]), (2, Some [oid (CHR ''d'')])]"
proof
  show "map (\<lambda>(i, r, res). (i, map new_oid (updates (req_txn r)), map_sum id res_seq res)) (answers (run example_env lost_response_events example_world)) =
     [(1, [oid (CHR ''b'')], Inr 3), (0, [oid (CHR ''a'')], Inr 1), (0, [oid (CHR ''d'')], Inr 2)]" by code_simp
  show "map (\<lambda>e. (seq e, map_option (\<lambda>t. map new_oid (updates t)) (txn e))) (committed (bucket (run example_env lost_response_events example_world))) =
     [(1, Some [oid (CHR ''a'')]), (2, Some [oid (CHR ''d'')])]" by code_simp
qed

end
