(* ===== verification/Wal_Checkpoint.thy ===== *)
theory Wal_Checkpoint
  imports Wal_Safety
begin

text \<open>
  Checkpoints (\<^verbatim>\<open>crates/gitcask-wal/src/checkpoint.rs\<close>): when one is due, and writing one: a sync at
  the refs level, the two objects keyed by the head's number, and the swap of a manifest that points
  to them and drops the folded log segments, retried after a lost race. Other clients act between
  the requests (\<open>fold_turn\<close>), and every request may fail before or after its effect. The checkpoint
  object itself carries the pack list, which no reader of the refs looks at; it has no content here.
  The writing of the state file after the swap is taken to succeed.
\<close>

section \<open>When a checkpoint is due\<close>

datatype checkpoint_trigger = Entries | Age | TailBytes

record wal_config =
  snapshot_every_entries :: nat
  checkpoint_interval :: nat
  checkpoint_tail_bytes :: nat

definition tail_bytes :: "manifest \<Rightarrow> nat" where
  "tail_bytes m = sum_list (map seg_size (filter (\<lambda>s. checkpoint_seq m < last_seq s) (log_segments m)))"

definition folded_since :: "manifest \<Rightarrow> nat option" where
  "folded_since m = (case checkpoint m of Some c \<Rightarrow> cp_created_at c | None \<Rightarrow> updated_at m)"

definition checkpoint_due :: "nat \<Rightarrow> wal_config \<Rightarrow> manifest \<Rightarrow> checkpoint_trigger option" where
  "checkpoint_due now cfg m =
     (let head = head_seq m; cp = checkpoint_seq m
      in if head = 0 then None
         else if cp \<ge> head then None
         else if snapshot_every_entries cfg > 0 \<and> head - cp \<ge> snapshot_every_entries cfg then Some Entries
         else if checkpoint_tail_bytes cfg > 0 \<and> tail_bytes m > checkpoint_tail_bytes cfg then Some TailBytes
         else if checkpoint_interval cfg > 0 then
           (case folded_since m of Some t \<Rightarrow> if now - t \<ge> checkpoint_interval cfg then Some Age else None | None \<Rightarrow> None)
         else None)"

section \<open>Writing a checkpoint\<close>

text \<open>After the first sync: the checkpoint at the head that is already there, or the number to fold up to.\<close>

definition checkpoint_start :: "manifest \<Rightarrow> (wal_error, checkpoint_ref + nat) result" where
  "checkpoint_start m =
     (let fresh = (if head_seq m = 0 then Inl (Corrupt ''cannot checkpoint empty repo (head_seq=0)'') else Inr (Inr (head_seq m)))
      in case checkpoint m of
           Some c \<Rightarrow> if cp_seq c = head_seq m then Inr (Inl c) else fresh
         | None \<Rightarrow> fresh)"

definition checkpoint_of :: "nat \<Rightarrow> nat \<Rightarrow> checkpoint_ref" where
  "checkpoint_of now s = \<lparr>cp_seq = s, cp_key = checkpoint_key s, cp_created_at = Some now\<rparr>"

definition fold_manifest :: "nat \<Rightarrow> string \<Rightarrow> checkpoint_ref \<Rightarrow> manifest \<Rightarrow> manifest" where
  "fold_manifest now inst c m =
     m\<lparr>checkpoint := Some c, min_seq := cp_seq c + 1, log_segments := filter (\<lambda>s. last_seq s > cp_seq c) (log_segments m),
       updated_at := Some now, manifest_writer := inst, revision := revision m + 1\<rparr>"

definition fold_installed :: "manifest \<Rightarrow> version \<Rightarrow> handle \<Rightarrow> handle" where
  "fold_installed m v h =
     (let st = (h_state h)\<lparr>st_manifest_version := Some v, applied_seq := head_seq m\<rparr>;
          st' = st\<lparr>st_revision := revision m\<rparr>
      in h\<lparr>h_manifest := m, h_version := Some v, h_state := (if packs_ready st then st'\<lparr>packs_revision := revision m\<rparr> else st')\<rparr>)"

text \<open>
  One turn of the loop: what other clients do before the swap, its time and fault, and what they do
  before the re-sync after a lost race. Nothing else uses the handle during the call.
\<close>

record fold_turn =
  ft_before :: "wal_obj store_op list"
  ft_now :: nat
  ft_fault :: put_fault
  ft_resync :: "wal_obj store_op list"

function fold_loop ::
  "(string \<Rightarrow> string option) \<Rightarrow> nat \<Rightarrow> string \<Rightarrow> checkpoint_ref \<Rightarrow> (nat \<Rightarrow> fold_turn) \<Rightarrow> nat \<Rightarrow> handle \<Rightarrow> bucket \<Rightarrow>
   (wal_error, checkpoint_ref) result \<times> handle \<times> bucket" where
  "fold_loop peel max_retries inst c turns attempts h b =
     (let tn = turns attempts; m = h_manifest h; updated = fold_manifest (ft_now tn) inst c m;
          swap = (case put_with (ft_fault tn) (ft_now tn) MANIFEST (ManifestObj updated)
                    (case h_version h of Some v \<Rightarrow> Update v | None \<Rightarrow> Create) (run_ops (ft_before tn) b) of
                    (Inr om, b1) \<Rightarrow> (Inr c, fold_installed updated (meta_version om) h, b1)
                  | (Inl (PreconditionFailed k v), b1) \<Rightarrow>
                      if attempts + 1 \<ge> max_retries then (Inl (Retry (attempts + 1)), h, b1)
                      else (case sync_locked_inner peel (run_ops (ft_resync tn) b1) h of
                              (Inl e, h') \<Rightarrow> (Inl e, h', run_ops (ft_resync tn) b1)
                            | (Inr _, h') \<Rightarrow> fold_loop peel max_retries inst c turns (attempts + 1) h' (run_ops (ft_resync tn) b1))
                  | (Inl e, b1) \<Rightarrow> (Inl (WalStore e), h, b1))
      in case checkpoint m of
           Some c' \<Rightarrow> if cp_seq c' \<ge> head_seq m then (Inr c', h, b) else swap
         | None \<Rightarrow> swap)"
  by pat_completeness auto
termination by (relation "measure (\<lambda>(peel, max_retries, inst, c, turns, attempts, h, b). max_retries - attempts)") auto

declare fold_loop.simps [simp del]

definition write_checkpoint ::
  "(string \<Rightarrow> string option) \<Rightarrow> nat \<Rightarrow> string \<Rightarrow> nat \<Rightarrow> put_fault \<Rightarrow> put_fault \<Rightarrow> (nat \<Rightarrow> fold_turn) \<Rightarrow> handle \<Rightarrow> bucket \<Rightarrow>
   (wal_error, checkpoint_ref) result \<times> handle \<times> bucket" where
  "write_checkpoint peel max_retries inst now flt_refs flt_cp turns h b =
     (case sync_locked_inner peel b h of
        (Inl e, h1) \<Rightarrow> (Inl e, h1, b)
      | (Inr _, h1) \<Rightarrow>
          (case checkpoint_start (h_manifest h1) of
             Inl e \<Rightarrow> (Inl e, h1, b)
           | Inr (Inl c) \<Rightarrow> (Inr c, h1, b)
           | Inr (Inr s) \<Rightarrow>
               (case put_with flt_refs now (checkpoint_refs_key s) (RefsObj (read_refs peel (h_dir h1))) Overwrite b of
                  (r1, b1) \<Rightarrow>
                    (case put_with flt_cp now (checkpoint_key s) CheckpointObj Overwrite b1 of
                       (r2, b2) \<Rightarrow>
                         (case (r1, r2) of
                            (Inl e, _) \<Rightarrow> (Inl (WalStore e), h1, b2)
                          | (_, Inl e) \<Rightarrow> (Inl (WalStore e), h1, b2)
                          | _ \<Rightarrow> fold_loop peel max_retries inst (checkpoint_of now s) turns 0 h1 b2)))))"

section \<open>What a checkpoint must keep\<close>

text \<open>The refs the bucket stands for: those of the manifest's checkpoint, with the entries after it applied.\<close>

definition checkpoint_base :: "bucket \<Rightarrow> manifest \<Rightarrow> refs_spec" where
  "checkpoint_base b m =
     (if checkpoint_seq m = 0 then init_spec
      else case message_at dec_refs (checkpoint_refs_key (checkpoint_seq m)) b of Some s \<Rightarrow> spec_of s | None \<Rightarrow> init_spec)"

definition durable_refs :: "bucket \<Rightarrow> manifest \<Rightarrow> refs_spec" where
  "durable_refs b m =
     spec_txns (checkpoint_base b m) (entry_txns (filter (\<lambda>e. checkpoint_seq m < seq e \<and> seq e \<le> head_seq m) (log_of b (log_segments m))))"

definition refs_there :: "bucket \<Rightarrow> manifest \<Rightarrow> bool" where
  "refs_there b m \<longleftrightarrow> checkpoint_seq m = 0 \<or> (\<exists>s. message_at dec_refs (checkpoint_refs_key (checkpoint_seq m)) b = Some s \<and> refs_clean s)"

lemma cold_open_reads:
  assumes "peel_hex peel" "segs_ok b (log_segments m)" "txns_clean (log_of b (log_segments m))" "refs_there b m"
  obtains h' where "apply_delta peel b m v (new_handle m v default_state init_dir) = (Inr (), h')"
    "spec_of (read_refs peel (h_dir h')) = durable_refs b m"
proof -
  let ?h = "new_handle m v default_state init_dir"
  have h: "h_dir ?h = init_dir" "applied_seq (h_state ?h) = 0" by (simp_all add: new_handle_def default_state_def)
  have "case apply_delta peel b m v ?h of (r, h') \<Rightarrow> r = Inr () \<and> spec_of (read_refs peel (h_dir h')) = durable_refs b m"
    using apply_delta_spec [of peel ?h b m v] assms init_refs [of peel] unfolding h
    by (fastforce simp: refs_there_def durable_refs_def checkpoint_base_def split: prod.splits)
  then show ?thesis using that by (auto split: prod.splits)
qed

lemma filter_ranges:
  fixes lo mid hi :: nat
  assumes "sorted_wrt (<) (map seq es)" "lo \<le> mid" "mid \<le> hi"
  shows "filter (\<lambda>e. lo < seq e \<and> seq e \<le> hi) es = filter (\<lambda>e. lo < seq e \<and> seq e \<le> mid) es @ filter (\<lambda>e. mid < seq e \<and> seq e \<le> hi) es"
  using assms
proof (induction es)
  case (Cons e es)
  then have IH: "filter (\<lambda>e. lo < seq e \<and> seq e \<le> hi) es = filter (\<lambda>e. lo < seq e \<and> seq e \<le> mid) es @ filter (\<lambda>e. mid < seq e \<and> seq e \<le> hi) es" by simp
  have "filter (\<lambda>e. lo < seq e \<and> seq e \<le> mid) es = []" if "mid < seq e" using that Cons.prems(1) by (fastforce simp: filter_empty_conv)
  then show ?case using IH Cons.prems(2,3) by auto
qed simp

text \<open>Trimming the folded segments leaves the entries after the checkpoint.\<close>

lemma trimmed_log:
  assumes "segs_ok b ss"
  shows "filter (\<lambda>e. s < seq e \<and> seq e \<le> hi) (log_of b (filter (\<lambda>t. s < last_seq t) ss)) = filter (\<lambda>e. s < seq e \<and> seq e \<le> hi) (log_of b ss)"
  using assms
proof (induction ss)
  case (Cons t ss)
  have ok: "seg_ok b t" "segs_ok b ss" using Cons.prems by (simp_all add: segs_ok_def)
  have "filter (\<lambda>e. s < seq e \<and> seq e \<le> hi) (seg_entries b t) = []" if "\<not> s < last_seq t"
    using that seg_entry_range [OF ok(1)] by (fastforce simp: filter_empty_conv)
  then show ?case using Cons.IH [OF ok(2)] by simp
qed simp

text \<open>
  A checkpoint may be installed into any later manifest that has no later checkpoint. When the
  bucket holds, for some number between the manifest's own checkpoint and its head, the refs as the
  entries up to that number left them, then folding the manifest there (setting the checkpoint,
  dropping the segments up to it) changes nothing of the refs the bucket stands for; entries
  committed meanwhile stay in the trimmed log.
\<close>

theorem checkpoint_fold_keeps_refs:
  assumes "segs_ok b (log_segments m)" "checkpoint_seq m \<le> s" "s \<le> head_seq m" "0 < s"
    and "message_at dec_refs (checkpoint_refs_key s) b = Some snap"
    and "spec_of snap = spec_txns (checkpoint_base b m) (entry_txns (filter (\<lambda>e. checkpoint_seq m < seq e \<and> seq e \<le> s) (log_of b (log_segments m))))"
  shows "durable_refs b (fold_manifest now inst (checkpoint_of t s) m) = durable_refs b m"
proof -
  let ?m = "fold_manifest now inst (checkpoint_of t s) m"
  have m: "checkpoint_seq ?m = s" "head_seq ?m = head_seq m" "log_segments ?m = filter (\<lambda>t. s < last_seq t) (log_segments m)"
    by (simp_all add: fold_manifest_def checkpoint_seq_def checkpoint_of_def)
  have base: "checkpoint_base b ?m = spec_of snap" using assms(4,5) by (simp add: checkpoint_base_def m)
  show ?thesis
    unfolding durable_refs_def base m trimmed_log [OF assms(1)] assms(6) filter_ranges [OF log_of_sorted [OF assms(1)] assms(2,3)] by simp
qed

lemma sync_current:
  assumes "mem_view b MANIFEST = Some (v, ManifestObj m)" "h_version h = Some v"
  shows "sync_locked_inner peel b h = (Inr (), h)"
  using assms by (simp add: sync_locked_inner_def freshness_check_def get_message_if_changed_view sync_apply_def)

lemma checkpoint_keys: "checkpoint_refs_key s \<noteq> checkpoint_key s" "checkpoint_refs_key s \<noteq> MANIFEST" "checkpoint_key s \<noteq> MANIFEST"
  by (simp_all add: checkpoint_refs_key_def checkpoint_key_def)

text \<open>A put that is admitted, without a fault.\<close>

lemma admitted_put:
  assumes "mem_ok b" "room_for (Suc n) b" "admits md (mem_view b k)"
  obtains om b' where "put_with NoFault now k x md b = (Inr om, b')" "mem_view b' = (mem_view b)(k \<mapsto> (meta_version om, x))" "mem_ok b'" "room_for n b'"
proof -
  obtain om b' where p: "mem_put now k x md b = (Inr om, b')" using assms(3) by (simp add: mem_put_eq)
  have room: "mem_room b" using room_for_room [OF assms(2)] .
  have "mem_view b' = (mem_view b)(k \<mapsto> (meta_version om, x))"
    using assms(1) room by (cases rule: mem_hist.put_result [of b now k x md]) (use p in auto)
  moreover have "mem_ok b'" using mem.put_valid [OF assms(1) room, of now k x md] p by simp
  moreover have "room_for n b'" using mem_put_room [OF assms(2), of now k x md] p by simp
  ultimately show ?thesis using that p by (simp add: put_with_def)
qed

lemma quiet_checkpoint:
  assumes ok: "mem_ok b" "room_for 3 b" and m: "mem_view b MANIFEST = Some (v, ManifestObj m)" and h: "h_version h = Some v" "h_manifest h = m"
    and refs: "refs_clean (read_refs peel (h_dir h))" "spec_of (read_refs peel (h_dir h)) = durable_refs b m" and peel: "peel_hex peel"
    and cp: "checkpoint_seq m < head_seq m" and segs: "\<forall>s \<in> set (log_segments m). last_seq s \<le> head_seq m"
    and quiet: "ft_before (turns 0) = []" "ft_fault (turns 0) = NoFault"
  shows "\<exists>h' b' v' m' h2. write_checkpoint peel max_retries inst now NoFault NoFault turns h b = (Inr (checkpoint_of now (head_seq m)), h', b') \<and>
    mem_view b' MANIFEST = Some (v', ManifestObj m') \<and> h_version h' = Some v' \<and> h_manifest h' = m' \<and> h_dir h' = h_dir h \<and>
    log_segments m' = [] \<and> head_seq m' = head_seq m \<and> durable_refs b' m' = durable_refs b m \<and>
    apply_delta peel b' m' v' (new_handle m' v' default_state init_dir) = (Inr (), h2) \<and>
    spec_of (read_refs peel (h_dir h2)) = spec_of (read_refs peel (h_dir h))"
proof -
  let ?s = "head_seq m" and ?snap = "read_refs peel (h_dir h)" and ?c = "checkpoint_of now (head_seq m)"
  let ?m = "fold_manifest (ft_now (turns 0)) inst ?c m"
  have start: "checkpoint_start m = Inr (Inr ?s)" using cp by (auto simp: checkpoint_start_def checkpoint_seq_def split: option.splits)
  have ov: "admits Overwrite y" for y :: "(version \<times> wal_obj) option" by simp
  have three: "room_for (Suc 2) b" using ok(2) by (simp add: numeral_3_eq_3)
  obtain o1 b1 where b1: "put_with NoFault now (checkpoint_refs_key ?s) (RefsObj ?snap) Overwrite b = (Inr o1, b1)"
    "mem_view b1 = (mem_view b)(checkpoint_refs_key ?s \<mapsto> (meta_version o1, RefsObj ?snap))" "mem_ok b1" "room_for 2 b1"
    by (rule admitted_put [OF ok(1) three ov])
  have two: "room_for (Suc 1) b1" using b1(4) by (simp add: numeral_2_eq_2)
  obtain o2 b2 where b2: "put_with NoFault now (checkpoint_key ?s) CheckpointObj Overwrite b1 = (Inr o2, b2)"
    "mem_view b2 = (mem_view b1)(checkpoint_key ?s \<mapsto> (meta_version o2, CheckpointObj))" "mem_ok b2" "room_for 1 b2"
    by (rule admitted_put [OF b1(3) two ov])
  have cur: "mem_view b2 MANIFEST = Some (v, ManifestObj m)" using m checkpoint_keys [of ?s] by (simp add: b1(2) b2(2))
  have one: "room_for (Suc 0) b2" and adm: "admits (Update v) (mem_view b2 MANIFEST)" using b2(4) cur by simp_all
  obtain om b' where b': "put_with NoFault (ft_now (turns 0)) MANIFEST (ManifestObj ?m) (Update v) b2 = (Inr om, b')"
    "mem_view b' = (mem_view b2)(MANIFEST \<mapsto> (meta_version om, ManifestObj ?m))"
    by (rule admitted_put [OF b2(3) one adm])
  have loop: "fold_loop peel max_retries inst ?c turns 0 h b2 = (Inr ?c, fold_installed ?m (meta_version om) h, b')"
    using cp by (subst fold_loop.simps) (auto simp: h quiet run_ops_def b'(1) checkpoint_seq_def split: option.splits)
  have w: "write_checkpoint peel max_retries inst now NoFault NoFault turns h b = (Inr ?c, fold_installed ?m (meta_version om) h, b')"
    by (simp add: write_checkpoint_def sync_current [OF m h(1)] h(2) start b1(1) b2(1) loop)
  have m': "log_segments ?m = []" "head_seq ?m = ?s" "checkpoint_seq ?m = ?s"
    using segs by (auto simp: fold_manifest_def checkpoint_of_def checkpoint_seq_def filter_empty_conv)
  have snap: "message_at dec_refs (checkpoint_refs_key ?s) b' = Some ?snap"
    using checkpoint_keys [of ?s] by (simp add: message_at_def b'(2) b2(2) b1(2))
  have d: "durable_refs b' ?m = durable_refs b m" using cp snap refs(2) by (simp add: durable_refs_def checkpoint_base_def m')
  have "refs_there b' ?m" using snap refs(1) by (simp add: refs_there_def m')
  moreover have "segs_ok b' (log_segments ?m)" "txns_clean (log_of b' (log_segments ?m))" by (simp_all add: m' segs_ok_def txns_clean_def)
  ultimately obtain h2 where "apply_delta peel b' ?m (meta_version om) (new_handle ?m (meta_version om) default_state init_dir) = (Inr (), h2)"
    "spec_of (read_refs peel (h_dir h2)) = durable_refs b' ?m" using cold_open_reads [OF peel] by metis
  moreover have "h_version (fold_installed ?m (meta_version om) h) = Some (meta_version om)" "h_manifest (fold_installed ?m (meta_version om) h) = ?m"
    "h_dir (fold_installed ?m (meta_version om) h) = h_dir h" by (simp_all add: fold_installed_def Let_def)
  ultimately show ?thesis using w b'(2) m' d refs(2) by auto
qed

text \<open>
  C11: a checkpoint changes how the refs are stored, not what they are. Written through a handle
  that holds the current manifest and its refs, which the ref files can hold, when the head is past the last checkpoint, with nobody interfering, it succeeds at the head; the
  new manifest has no log segments left, the handle holds it under its version with the same files,
  and the refs the bucket stands for are the same: a handle opened cold on the new bucket, without a
  local copy, reads exactly the refs the writer had.
\<close>

theorem write_checkpoint_exact:
  assumes ok: "mem_ok b" "room_for 3 b" and m: "mem_view b MANIFEST = Some (v, ManifestObj m)" and h: "h_version h = Some v" "h_manifest h = m"
    and refs: "refs_clean (read_refs peel (h_dir h))" "spec_of (read_refs peel (h_dir h)) = durable_refs b m" and peel: "peel_hex peel"
    and cp: "checkpoint_seq m < head_seq m" and segs: "\<forall>s \<in> set (log_segments m). last_seq s \<le> head_seq m"
    and quiet: "ft_before (turns 0) = []" "ft_fault (turns 0) = NoFault"
  shows "\<exists>h' b' v' m' h2. write_checkpoint peel max_retries inst now NoFault NoFault turns h b = (Inr (checkpoint_of now (head_seq m)), h', b') \<and>
    mem_view b' MANIFEST = Some (v', ManifestObj m') \<and> h_version h' = Some v' \<and> h_manifest h' = m' \<and> h_dir h' = h_dir h \<and>
    log_segments m' = [] \<and> head_seq m' = head_seq m \<and> durable_refs b' m' = durable_refs b m \<and>
    apply_delta peel b' m' v' (new_handle m' v' default_state init_dir) = (Inr (), h2) \<and>
    spec_of (read_refs peel (h_dir h2)) = spec_of (read_refs peel (h_dir h))"
  by (rule quiet_checkpoint [where turns = turns, OF assms])

text \<open>
  The triggers settle. When a checkpoint is due, writing one is not refused and not skipped; and
  a manifest folded at its head is not due for another, whatever the thresholds and the time.
\<close>

theorem checkpoint_due_settles:
  "(checkpoint_due now cfg m \<noteq> None \<longrightarrow> checkpoint_start m = Inr (Inr (head_seq m))) \<and>
   checkpoint_due now' cfg (fold_manifest t inst (checkpoint_of t (head_seq m)) m) = None"
  by (auto simp: checkpoint_due_def checkpoint_start_def checkpoint_seq_def fold_manifest_def checkpoint_of_def Let_def split: option.splits)

text \<open>With all three thresholds at zero no commit triggers a checkpoint.\<close>

lemma no_automatic_checkpoint:
  "snapshot_every_entries cfg = 0 \<Longrightarrow> checkpoint_tail_bytes cfg = 0 \<Longrightarrow> checkpoint_interval cfg = 0 \<Longrightarrow> checkpoint_due now cfg m = None"
  by (simp add: checkpoint_due_def Let_def)

section \<open>A checkpoint after a run of publishers\<close>

text \<open>Without a checkpoint, the refs the bucket stands for are the replay of its log.\<close>

lemma durable_cold:
  assumes "bucket_inv bnd b cv cm"
  shows "checkpoint_seq cm = 0" "durable_refs b cm = cold b cm"
proof -
  have B: "chain cm" "segs_ok b (log_segments cm)" "list_all listed_ok (log_segments cm)" using assms by (simp_all add: bucket_inv_def)
  show cp: "checkpoint_seq cm = 0" using B(1) by (simp add: chain_def checkpoint_seq_def)
  have "0 < seq e \<and> seq e \<le> head_seq cm" if "e \<in> set (log_of b (log_segments cm))" for e
    using head_bound(2) [OF B(2,1) that] log_of_range [OF _ that] B(2,3) by (fastforce simp: segs_ok_def list_all_iff listed_ok_def)
  then have "filter (\<lambda>e. 0 < seq e \<and> seq e \<le> head_seq cm) (log_of b (log_segments cm)) = log_of b (log_segments cm)" by (simp add: filter_id_conv)
  then show "durable_refs b cm = cold b cm" by (simp add: durable_refs_def checkpoint_base_def cold_def cp)
qed

context publishers
begin

lemma run_checkpoint:
  assumes "world_inv env bnd cv cm w" "bnd + 3 < 2 ^ 64" "w_pc (writers w i) \<noteq> Dead" "\<not> is_opening (w_lock (writers w i))"
    and "h = w_handle (writers w i)" "h_version h = map_option fst (current (bucket w))" "committed (bucket w) \<noteq> []"
    and "ft_before (turns 0) = []" "ft_fault (turns 0) = NoFault"
  shows "\<exists>h' b' v' m' h2. write_checkpoint (e_peel env) max_retries inst t NoFault NoFault turns h (bucket w) = (Inr (checkpoint_of t (head_seq (h_manifest h))), h', b') \<and>
    current b' = Some (v', m') \<and> log_segments m' = [] \<and>
    apply_delta (e_peel env) b' m' v' (new_handle m' v' default_state init_dir) = (Inr (), h2) \<and>
    spec_of (read_refs (e_peel env) (h_dir h2)) = spec_txns init_spec (entry_txns (committed (bucket w)))"
proof -
  let ?b = "bucket w"
  have B: "bucket_inv bnd ?b cv cm" and f: "files_inv env ?b cm (h_dir h) (applied_seq (h_state h))" and hi: "handle_inv env ?b cv cm h"
    using assms(1,3-5) by (simp_all add: world_inv_def writer_inv_def)
  have b: "mem_ok ?b" "mem_view ?b MANIFEST = Some (cv, ManifestObj cm)" "segs_ok ?b (log_segments cm)" "chain cm" using B by (simp_all add: bucket_inv_def)
  have room: "room_for 3 ?b" using B assms(2) by (simp add: bucket_inv_def room_for_def)
  have hv: "h_version h = Some cv" using assms(6) current_inv(1) [OF assms(1)] by simp
  then have hm: "h_manifest h = cm" using hi by (auto simp: handle_inv_def known_def)
  have cold: "spec_of (read_refs (e_peel env) (h_dir h)) = cold ?b cm" by (rule current_refs [OF B f hi hv])
  note d = durable_cold [OF B]
  have log: "committed ?b = log_of ?b (log_segments cm)" by (rule current_inv(2) [OF assms(1)])
  then have "hd (committed ?b) \<in> set (log_of ?b (log_segments cm))" using assms(7) by simp
  then have "0 < head_seq cm"
    using head_bound(2) [OF b(3,4)] log_of_range [of ?b "log_segments cm" "hd (committed ?b)"] B by (fastforce simp: bucket_inv_def segs_ok_def list_all_iff listed_ok_def)
  then have cp: "checkpoint_seq cm < head_seq cm" by (simp add: d(1))
  have clean: "refs_clean (read_refs (e_peel env) (h_dir h))" using f by (simp add: files_inv_def)
  have last: "\<forall>s \<in> set (log_segments cm). last_seq s \<le> head_seq cm" using head_bound(1) [OF b(3,4)] by blast
  have dur: "spec_of (read_refs (e_peel env) (h_dir h)) = durable_refs ?b cm" using cold d(2) by simp
  obtain h' b' v' m' h2 where q: "write_checkpoint (e_peel env) max_retries inst t NoFault NoFault turns h ?b = (Inr (checkpoint_of t (head_seq cm)), h', b')"
    "mem_view b' MANIFEST = Some (v', ManifestObj m')" "log_segments m' = []"
    "apply_delta (e_peel env) b' m' v' (new_handle m' v' default_state init_dir) = (Inr (), h2)"
    "spec_of (read_refs (e_peel env) (h_dir h2)) = spec_of (read_refs (e_peel env) (h_dir h))"
    using quiet_checkpoint [where turns = turns, OF b(1) room b(2) hv hm clean dur peel cp last assms(8,9)] by blast
  have "current b' = Some (v', m')" using q(2) by (simp add: current_def)
  moreover have "spec_of (read_refs (e_peel env) (h_dir h2)) = spec_txns init_spec (entry_txns (committed ?b))" using q(5) cold log by (simp add: cold_def)
  ultimately show ?thesis using q(1,3,4) hm by blast
qed

lemma run_log_grows:
  assumes "calm env (first_world env now rid fmt) (evs @ later)" "Suc (length (evs @ later)) * Suc (e_max_batch env) + 3 < 2 ^ 64 - 1"
    and "w = run env evs (first_world env now rid fmt)" "w' = run env later w"
  shows "prefix (committed (bucket w)) (committed (bucket w'))" "\<exists>bnd cv cm. world_inv env bnd cv cm w' \<and> bnd + 3 < 2 ^ 64"
proof -
  have n: "Suc (length (evs @ later)) * Suc (e_max_batch env) < 2 ^ 64 - 1" using assms(2) by simp
  show "prefix (committed (bucket w)) (committed (bucket w'))" by (rule run_keeps(1) [OF assms(1) n assms(3,4)])
  obtain cv cm where w0: "world_inv env 1 cv cm (first_world env now rid fmt)" using first_world_inv by blast
  have "1 + length (evs @ later) * Suc (e_max_batch env) < 2 ^ 64 - 1" using assms(2) by simp
  from run_good [OF w0 assms(1) this] obtain cv' cm' where
    "world_inv env (1 + length (evs @ later) * Suc (e_max_batch env)) cv' cm' w'" unfolding assms(3,4) by (auto simp: run_simps)
  moreover have "1 + length (evs @ later) * Suc (e_max_batch env) + 3 < 2 ^ 64" using assms(2) by simp
  ultimately show "\<exists>bnd cv cm. world_inv env bnd cv cm w' \<and> bnd + 3 < 2 ^ 64" by blast
qed

end

text \<open>
  C4: the log of publishers is append-only, and a checkpoint folds all of it. In any calm run of publishers on one repository from its creation
  on (no lost response to an applied swap of the manifest; git applies committed transactions locally; batches with validated
  updates, names the ref files can hold and a sound HEAD; no 64-bit counter wraps), without checkpoints on the way, what one moment's
  manifest lists is a prefix of what every later manifest lists, entry for entry: no instance's commit, retry, cleanup or
  crash removes, reorders or rewrites a committed entry. The first checkpoint after it drops the log: written by any open handle that is current,
  undisturbed, it succeeds at the head and leaves no segments, and a handle opened cold on the bucket then reads
  exactly the replay of all the entries that were committed.
\<close>

theorem committed_log_grows:
  assumes "update_ref_ok (e_peel env) (e_git env)" "peel_hex (e_peel env)"
    and "calm env (first_world env now rid fmt) (evs @ later)" "Suc (length (evs @ later)) * Suc (e_max_batch env) + 3 < 2 ^ 64 - 1"
    and "w = run env evs (first_world env now rid fmt)" "w' = run env later w"
  shows "prefix (committed (bucket w)) (committed (bucket w')) \<and>
    (\<forall>i h turns. w_pc (writers w' i) \<noteq> Dead \<longrightarrow> \<not> is_opening (w_lock (writers w' i)) \<longrightarrow> h = w_handle (writers w' i) \<longrightarrow>
       h_version h = map_option fst (current (bucket w')) \<longrightarrow> committed (bucket w') \<noteq> [] \<longrightarrow> ft_before (turns 0) = [] \<longrightarrow> ft_fault (turns 0) = NoFault \<longrightarrow>
       (\<exists>h' b' v' m' h2. write_checkpoint (e_peel env) max_retries inst t NoFault NoFault turns h (bucket w') =
            (Inr (checkpoint_of t (head_seq (h_manifest h))), h', b') \<and>
          current b' = Some (v', m') \<and> log_segments m' = [] \<and>
          apply_delta (e_peel env) b' m' v' (new_handle m' v' default_state init_dir) = (Inr (), h2) \<and>
          spec_of (read_refs (e_peel env) (h_dir h2)) = spec_txns init_spec (entry_txns (committed (bucket w')))))"
proof -
  have p: "publishers env" by (rule publishers.intro [OF assms(1,2)])
  note g = publishers.run_log_grows [OF p assms(3-6)]
  then obtain bnd cv cm where "world_inv env bnd cv cm w'" "bnd + 3 < 2 ^ 64" by blast
  from publishers.run_checkpoint [OF p this] g(1) show ?thesis by blast
qed

section \<open>Examples\<close>

definition quiet_turns :: "nat \<Rightarrow> fold_turn" where
  "quiet_turns = (\<lambda>_. \<lparr>ft_before = [], ft_now = 9, ft_fault = NoFault, ft_resync = []\<rparr>)"

text \<open>The bucket of the synchronization example, with a handle opened cold on it.\<close>

definition opened_handle :: handle where
  "opened_handle = snd (apply_delta (\<lambda>_. None) example_bucket example_manifest ''1'' (new_handle example_manifest ''1'' default_state init_dir))"

lemma run_ops_ok: "mem_ok s \<Longrightarrow> room_for (length ops) s \<Longrightarrow> mem_ok (run_ops ops s)"
  using run_ops_later [of s ops 0] by (simp add: store_later_def)

lemma example_bucket_ok: "mem_ok example_bucket" "room_for 3 example_bucket"
proof -
  show "mem_ok example_bucket" unfolding example_bucket_def by (rule run_ops_ok) (simp_all add: mem_new_ok, simp add: room_for_def mem_new_def)
  have "unat (counter example_bucket) = 3" by code_simp
  then show "room_for 3 example_bucket" by (simp add: room_for_def)
qed

lemma opened_example:
  "mem_view example_bucket MANIFEST = Some (''1'', ManifestObj example_manifest)" "h_version opened_handle = Some ''1''" "h_manifest opened_handle = example_manifest"
  "refs_clean (read_refs (\<lambda>_. None) (h_dir opened_handle))"
  "spec_of (read_refs (\<lambda>_. None) (h_dir opened_handle)) = durable_refs example_bucket example_manifest"
proof -
  have "map_option fst (mem_view example_bucket MANIFEST) = Some ''1''" by code_simp
  then show "mem_view example_bucket MANIFEST = Some (''1'', ManifestObj example_manifest)" using example_bucket_view(1) by auto
  show "h_version opened_handle = Some ''1''" "h_manifest opened_handle = example_manifest" "refs_clean (read_refs (\<lambda>_. None) (h_dir opened_handle))" by code_simp+
  have "peel_hex (\<lambda>_. None)" "txns_clean (log_of example_bucket (log_segments example_manifest))" "refs_there example_bucket example_manifest"
    unfolding example_segs(2) by (simp add: peel_hex_def, code_simp, simp add: refs_there_def checkpoint_seq_def example_manifest_def empty_manifest_def)
  then show "spec_of (read_refs (\<lambda>_. None) (h_dir opened_handle)) = durable_refs example_bucket example_manifest"
    using cold_open_reads [OF _ example_segs(1), of "\<lambda>_. None" "''1''"] unfolding opened_handle_def by (metis snd_conv)
qed

theorem write_checkpoint_exact_witness:
  "\<exists>h' b' v' m'. write_checkpoint (\<lambda>_. None) 3 ''a'' 9 NoFault NoFault quiet_turns opened_handle example_bucket = (Inr (checkpoint_of 9 3), h', b') \<and>
     mem_view b' MANIFEST = Some (v', ManifestObj m') \<and> log_segments m' = [] \<and> durable_refs b' m' = durable_refs example_bucket example_manifest"
proof -
  have "peel_hex (\<lambda>_. None)" "checkpoint_seq example_manifest < head_seq example_manifest" "\<forall>s \<in> set (log_segments example_manifest). last_seq s \<le> head_seq example_manifest"
    "ft_before (quiet_turns 0) = []" "ft_fault (quiet_turns 0) = NoFault" "head_seq example_manifest = 3"
    by (simp_all add: peel_hex_def quiet_turns_def checkpoint_seq_def example_manifest_def empty_manifest_def)
  then show ?thesis
    using write_checkpoint_exact [OF example_bucket_ok opened_example(1-5), of quiet_turns 3 "''a''" 9] by auto
qed

theorem checkpoint_due_settles_witness:
  "checkpoint_due 9 \<lparr>snapshot_every_entries = 2, checkpoint_interval = 0, checkpoint_tail_bytes = 0\<rparr> example_manifest = Some Entries \<and>
   checkpoint_start example_manifest = Inr (Inr 3)"
proof -
  have "checkpoint_due 9 \<lparr>snapshot_every_entries = 2, checkpoint_interval = 0, checkpoint_tail_bytes = 0\<rparr> example_manifest = Some Entries" "head_seq example_manifest = 3"
    by code_simp+
  then show ?thesis
    using checkpoint_due_settles [of 9 "\<lparr>snapshot_every_entries = 2, checkpoint_interval = 0, checkpoint_tail_bytes = 0\<rparr>" example_manifest] by simp
qed

text \<open>The same bucket with the refs of the first entry stored: its log may be folded there.\<close>

definition first_refs :: ref_snapshot where
  "first_refs = \<lparr>snap_refs = [\<lparr>ref_name = ''refs/heads/main'', ref_oid = oid (CHR ''a''), ref_peeled = []\<rparr>], snap_head_target = ''refs/heads/main'', snap_head_oid = []\<rparr>"

definition folded_bucket :: bucket where
  "folded_bucket = run_op example_bucket (PutOp 0 (checkpoint_refs_key 1) (RefsObj first_refs) Overwrite)"

lemma first_refs_spec:
  "spec_of first_refs = spec_txns init_spec (entry_txns [push_entry 5 ''a'' 1 (example_push [] (oid (CHR ''a'')))])"
proof -
  have "all_zero (oid (CHR ''a'')) = False" "oid (CHR ''a'') \<noteq> []" by code_simp+
  then show ?thesis
    by (auto simp: first_refs_def spec_of_def init_spec_def spec_txns_def spec_update_def example_push_def is_delete_def entry_txns_def map_filter_simps push_entry_def fun_eq_iff)
qed

lemma folded_log: "log_of folded_bucket (log_segments example_manifest) = log_of example_bucket (log_segments example_manifest)"
  "segs_ok folded_bucket (log_segments example_manifest)"
proof -
  have k: "log_segment_key q \<noteq> checkpoint_refs_key 1" for q by (simp add: log_segment_key_def log_segment_key_w_def checkpoint_refs_key_def)
  have v: "mem_view folded_bucket (log_segment_key q) = mem_view example_bucket (log_segment_key q)" for q
    using mem.put_other [OF example_bucket_ok(1) _ k, of 0] example_bucket_ok(2) by (simp add: folded_bucket_def room_for_def mem_room_def)
  then show "log_of folded_bucket (log_segments example_manifest) = log_of example_bucket (log_segments example_manifest)"
    by (simp add: log_of_def seg_entries_def example_manifest_def)
  show "segs_ok folded_bucket (log_segments example_manifest)" using example_segs(1) v by (simp add: segs_ok_def seg_ok_def example_manifest_def)
qed

theorem checkpoint_fold_keeps_refs_witness:
  "durable_refs folded_bucket (fold_manifest 9 ''a'' (checkpoint_of 9 1) example_manifest) = durable_refs folded_bucket example_manifest"
proof -
  have "message_at dec_refs (checkpoint_refs_key 1) folded_bucket = Some first_refs" by code_simp
  moreover have "checkpoint_seq example_manifest = 0" "head_seq example_manifest = 3" by (simp_all add: checkpoint_seq_def example_manifest_def empty_manifest_def)
  moreover have "filter (\<lambda>e. 0 < seq e \<and> seq e \<le> 1) (log_of folded_bucket (log_segments example_manifest)) = [push_entry 5 ''a'' 1 (example_push [] (oid (CHR ''a'')))]"
    unfolding folded_log(1) example_segs(2) by simp
  ultimately show ?thesis
    using checkpoint_fold_keeps_refs [OF folded_log(2), of 1 first_refs 9 "''a''" 9] first_refs_spec by (simp add: checkpoint_base_def)
qed

theorem committed_log_grows_witness:
  "prefix (committed (bucket (run example_env example_push_events example_world)))
     (committed (bucket (run example_env example_more_events (run example_env example_push_events example_world)))) \<and>
   length (committed (bucket (run example_env example_push_events example_world))) = 1 \<and>
   (\<exists>h' b' v' m'. write_checkpoint (\<lambda>_. None) 3 ''a'' 9 NoFault NoFault quiet_turns
        (w_handle (writers (run example_env example_more_events (run example_env example_push_events example_world)) 1))
        (bucket (run example_env example_more_events (run example_env example_push_events example_world))) = (Inr (checkpoint_of 9 2), h', b') \<and>
      current b' = Some (v', m') \<and> log_segments m' = [])"
proof -
  let ?w = "run example_env example_push_events example_world"
  let ?w' = "run example_env example_more_events ?w"
  have one: "length (committed (bucket ?w)) = 1" by code_simp
  have h: "w_pc (writers ?w' 1) \<noteq> Dead" "\<not> is_opening (w_lock (writers ?w' 1))" "h_version (w_handle (writers ?w' 1)) = map_option fst (current (bucket ?w'))"
    "committed (bucket ?w') \<noteq> []" "head_seq (h_manifest (w_handle (writers ?w' 1))) = 2" by code_simp+
  have q: "ft_before (quiet_turns 0) = []" "ft_fault (quiet_turns 0) = NoFault" by (simp_all add: quiet_turns_def)
  have e: "e_peel example_env = (\<lambda>_. None)" by (simp add: example_env_def file_env_def)
  have short: "Suc (length (example_push_events @ example_more_events)) * Suc (e_max_batch example_env) + 3 < 2 ^ 64 - 1"
    by (simp add: example_push_events_def example_more_events_def example_env_def file_env_def)
  note c = committed_log_grows [OF file_env_git example_calm(2) [unfolded example_world_def example_env_def] short [unfolded example_env_def] refl refl,
      of 3 "''a''" 9, folded example_env_def, folded example_world_def, unfolded e]
  then have "prefix (committed (bucket ?w)) (committed (bucket ?w'))" by blast
  moreover have "\<exists>h' b' v' m'. write_checkpoint (\<lambda>_. None) 3 ''a'' 9 NoFault NoFault quiet_turns (w_handle (writers ?w' 1)) (bucket ?w') = (Inr (checkpoint_of 9 2), h', b') \<and>
      current b' = Some (v', m') \<and> log_segments m' = []"
    using c h q unfolding h(5) [symmetric] by blast
  ultimately show ?thesis using one by blast
qed

section \<open>A late checkpoint\<close>

text \<open>
  The loop tests only whether the manifest's checkpoint is at the head. Here the writer has stored
  the refs of entry 1 when others commit entry 2 (which creates a branch), checkpoint it, and commit
  entry 3; its swap is refused, it syncs, and the next swap installs its own, older checkpoint.
\<close>

definition branch_push :: publish_request where
  "branch_push = (let r = example_push [] (oid (CHR ''c'')) in r\<lparr>req_txn := (req_txn r)\<lparr>updates := map (\<lambda>u. u\<lparr>upd_name := ''refs/heads/x''\<rparr>) (updates (req_txn r))\<rparr>\<rparr>)"

definition segment_at :: "nat \<Rightarrow> log_segment_ref" where
  "segment_at s = \<lparr>seg_key = log_segment_key s, first_seq = s, last_seq = s, seg_size = 0, sealed = True\<rparr>"

definition one_entry :: manifest where
  "one_entry = empty_manifest\<lparr>head_seq := 1, revision := 2, log_segments := [segment_at 1]\<rparr>"

definition two_entries :: manifest where
  "two_entries = one_entry\<lparr>head_seq := 2, revision := 3, log_segments := [segment_at 1, segment_at 2]\<rparr>"

definition two_folded :: manifest where "two_folded = fold_manifest 2 ''b'' (checkpoint_of 2 2) two_entries"

definition three_entries :: manifest where
  "three_entries = two_folded\<lparr>head_seq := 3, revision := 5, log_segments := [segment_at 3]\<rparr>"

definition two_refs :: ref_snapshot where
  "two_refs = first_refs\<lparr>snap_refs := snap_refs first_refs @ [\<lparr>ref_name = ''refs/heads/x'', ref_oid = oid (CHR ''c''), ref_peeled = []\<rparr>]\<rparr>"

definition late_bucket :: bucket where
  "late_bucket = run_ops
     [PutOp 0 MANIFEST (ManifestObj one_entry) Create,
      PutOp 0 (log_segment_key 1) (SegmentObj [push_entry 1 ''b'' 1 (example_push [] (oid (CHR ''a'')))]) Create] mem_new"

definition late_others :: "wal_obj store_op list" where
  "late_others =
     [PutOp 1 (log_segment_key 2) (SegmentObj [push_entry 1 ''b'' 2 branch_push]) Create,
      PutOp 1 MANIFEST (ManifestObj two_entries) Overwrite,
      PutOp 2 (checkpoint_refs_key 2) (RefsObj two_refs) Overwrite, PutOp 2 (checkpoint_key 2) CheckpointObj Overwrite,
      PutOp 2 MANIFEST (ManifestObj two_folded) Overwrite,
      PutOp 3 (log_segment_key 3) (SegmentObj [push_entry 3 ''b'' 3 (example_push (oid (CHR ''a'')) (oid (CHR ''b'')))]) Create,
      PutOp 3 MANIFEST (ManifestObj three_entries) Overwrite]"

definition late_turns :: "nat \<Rightarrow> fold_turn" where
  "late_turns n = (quiet_turns n)\<lparr>ft_before := (if n = 0 then late_others else [])\<rparr>"

definition late_handle :: handle where
  "late_handle = snd (apply_delta (\<lambda>_. None) late_bucket one_entry ''1'' (new_handle one_entry ''1'' default_state init_dir))"

text \<open>The branch as the bucket's current manifest has it.\<close>

definition branch_x :: "bucket \<Rightarrow> string option option" where
  "branch_x b = map_option (\<lambda>(v, m). sp_refs (durable_refs b m) ''refs/heads/x'') (current b)"

text \<open>The run in stages: after the two objects, after the others, the handle after the re-sync, after the swap.\<close>

definition late_stored :: bucket where
  "late_stored = snd (put_with NoFault 9 (checkpoint_key 1) CheckpointObj Overwrite
     (snd (put_with NoFault 9 (checkpoint_refs_key 1) (RefsObj (read_refs (\<lambda>_. None) (h_dir late_handle))) Overwrite late_bucket)))"

definition late_synced :: handle where
  "late_synced = snd (sync_locked_inner (\<lambda>_. None) (run_ops late_others late_stored) late_handle)"

definition late_swapped :: bucket where
  "late_swapped = snd (mem_put 9 MANIFEST (ManifestObj (fold_manifest 9 ''a'' (checkpoint_of 9 1) (h_manifest late_synced))) (Update (the (h_version late_synced)))
     (run_ops late_others late_stored))"

lemma late_start:
  "sync_locked_inner (\<lambda>_. None) late_bucket late_handle = (Inr (), late_handle)"
  "checkpoint_start (h_manifest late_handle) = Inr (Inr 1)" "checkpoint (h_manifest late_handle) = None" "h_version late_handle = Some ''1''"
  by code_simp+

lemma late_stores:
  "isl (fst (put_with NoFault 9 (checkpoint_refs_key 1) (RefsObj (read_refs (\<lambda>_. None) (h_dir late_handle))) Overwrite late_bucket)) = False"
  "isl (fst (put_with NoFault 9 (checkpoint_key 1) CheckpointObj Overwrite
     (snd (put_with NoFault 9 (checkpoint_refs_key 1) (RefsObj (read_refs (\<lambda>_. None) (h_dir late_handle))) Overwrite late_bucket)))) = False"
  "map_option fst (mem_view (run_ops late_others late_stored) MANIFEST) = Some ''11''"
  by code_simp+

lemma late_resync: "fst (sync_locked_inner (\<lambda>_. None) (run_ops late_others late_stored) late_handle) = Inr ()"
  by code_simp

lemma late_resynced:
  "checkpoint (h_manifest late_synced) = Some (checkpoint_of 2 2)" "head_seq (h_manifest late_synced) = 3" "h_version late_synced = Some ''11''"
  by code_simp+

lemma late_run:
  "write_checkpoint (\<lambda>_. None) 3 ''a'' 9 NoFault NoFault late_turns late_handle late_bucket =
     (Inr (checkpoint_of 9 1), fold_installed (fold_manifest 9 ''a'' (checkpoint_of 9 1) (h_manifest late_synced)) (next_version (run_ops late_others late_stored)) late_synced, late_swapped)"
proof -
  let ?p = "\<lambda>_ :: string. None :: string option" and ?b = "run_ops late_others late_stored" and ?c = "checkpoint_of 9 1"
  obtain x where x: "mem_view ?b MANIFEST = Some (''11'', x)" using late_stores(3) by auto
  have turns: "ft_before (late_turns 0) = late_others" "ft_before (late_turns 1) = []" "ft_now (late_turns n) = 9" "ft_fault (late_turns n) = NoFault" "ft_resync (late_turns n) = []" for n
    by (simp_all add: late_turns_def quiet_turns_def)
  have sync: "sync_locked_inner ?p ?b late_handle = (Inr (), late_synced)" using late_resync unfolding late_synced_def by (metis prod.collapse)
  have swap: "mem_put 9 MANIFEST (ManifestObj (fold_manifest 9 ''a'' ?c (h_manifest late_synced))) (Update ''11'') ?b =
      (Inr \<lparr>meta_key = MANIFEST, meta_size = size (ManifestObj (fold_manifest 9 ''a'' ?c (h_manifest late_synced))), meta_version = next_version ?b, last_modified = 9\<rparr>, late_swapped)"
    using x by (simp add: late_swapped_def late_resynced(3) mem_put_eq)
  have second: "fold_loop ?p 3 ''a'' ?c late_turns 1 late_synced ?b =
      (Inr ?c, fold_installed (fold_manifest 9 ''a'' ?c (h_manifest late_synced)) (next_version ?b) late_synced, late_swapped)"
    by (subst fold_loop.simps) (simp add: Let_def turns late_resynced checkpoint_of_def [of 2 2] put_with_def run_ops_def [of "[]"] swap del: One_nat_def)
  have first: "fold_loop ?p 3 ''a'' ?c late_turns 0 late_handle late_stored = fold_loop ?p 3 ''a'' ?c late_turns 1 late_synced ?b"
    using x by (subst fold_loop.simps) (simp add: Let_def turns late_start(3,4) put_with_def run_ops_def [of "[]"] mem_put_eq sync)
  obtain o1 b1 where b1: "put_with NoFault 9 (checkpoint_refs_key 1) (RefsObj (read_refs ?p (h_dir late_handle))) Overwrite late_bucket = (Inr o1, b1)"
    using late_stores(1) by (metis prod.collapse isl_def sum.exhaust)
  obtain o2 where b2: "put_with NoFault 9 (checkpoint_key 1) CheckpointObj Overwrite b1 = (Inr o2, late_stored)"
    using late_stores(2) b1 unfolding late_stored_def by (metis prod.collapse isl_def sum.exhaust snd_conv)
  show ?thesis by (simp add: write_checkpoint_def late_start(1,2) b1 b2 first second del: One_nat_def)
qed

text \<open>
  C12: a late checkpoint can drop committed entries. Others commit a branch and checkpoint past it
  while a checkpoint is being written; the writer's retry succeeds and reports its checkpoint at
  entry 1, and the manifest it leaves behind has lost the branch: neither its checkpoint nor its log
  contains entry 2.
\<close>

theorem late_checkpoint_drops_entries:
  "branch_x (run_ops late_others late_bucket) = Some (Some (oid (CHR ''c''))) \<and>
   (case write_checkpoint (\<lambda>_. None) 3 ''a'' 9 NoFault NoFault late_turns late_handle late_bucket of
      (r, h', b') \<Rightarrow> r = Inr (checkpoint_of 9 1) \<and> branch_x b' = Some None \<and> map_option (map first_seq \<circ> log_segments \<circ> snd) (current b') = Some [3])"
proof -
  have "branch_x (run_ops late_others late_bucket) = Some (Some (oid (CHR ''c'')))" by code_simp
  moreover have "branch_x late_swapped = Some None" "map_option (map first_seq \<circ> log_segments \<circ> snd) (current late_swapped) = Some [3]" by code_simp+
  ultimately show ?thesis unfolding late_run by simp
qed

end
