(* ===== verification/Wal_Packs.thy ===== *)
theory Wal_Packs
  imports Wal_Checkpoint "HOL-Library.Multiset"
begin

text \<open>
  Packs on the local disk (\<^verbatim>\<open>crates/gitcask-wal/src/sync.rs\<close>, \<^verbatim>\<open>handle.rs\<close>, and the file operations of
  \<^verbatim>\<open>crates/gitcask-git/src/ingest.rs\<close>): striped downloads of objects as bytes; and, with packs as
  opaque objects, the installation of packs and side files, the reconciling of the disk with the
  manifest, syncs at both levels, and re-materializing. Downloads of several packs, concurrent in
  the program, touch different files and are taken one after the other. Writes to the local disk
  are taken to succeed, except where an installation is cut off. The commit graph, an accelerator
  that is rebuilt at will, and progress reports are left out.
\<close>

section \<open>Striped downloads\<close>

text \<open>
  \<open>download_object\<close>: objects up to a chunk are read whole; larger ones as concurrent range reads,
  each written to its place in a file of the known_size size. \<open>order\<close> is the order in which the stripes
  complete, which the program does not fix.
\<close>

definition CHUNK :: nat where "CHUNK = 32 * 1024 * 1024"

definition bytes_slice :: "nat \<Rightarrow> nat \<Rightarrow> string \<Rightarrow> string" where
  "bytes_slice s e d = take (e - s) (drop s d)"

definition write_at :: "nat \<Rightarrow> string \<Rightarrow> string \<Rightarrow> string" where
  "write_at s bs buf = take s buf @ bs @ drop (s + length bs) buf"

definition stripe_starts :: "nat \<Rightarrow> nat \<Rightarrow> nat list" where
  "stripe_starts chunk n = map (\<lambda>i. i * chunk) [0..<(n + chunk - 1) div chunk]"

definition read_stripe :: "nat \<Rightarrow> nat \<Rightarrow> string \<Rightarrow> string mem_store \<Rightarrow> nat \<Rightarrow> (wal_error, string) result" where
  "read_stripe chunk n key st start =
     (let stop = min (start + chunk) n
      in case mem_get bytes_slice key (default_get\<lparr>range := Some (start, stop)\<rparr>) st of
           Inl e \<Rightarrow> Inl (WalStore e)
         | Inr (NotModified v) \<Rightarrow> Inl (Corrupt ''unexpected 304'')
         | Inr (Object om bs) \<Rightarrow> if length bs \<noteq> stop - start then Inl (Corrupt ''short range read'') else Inr bs)"

fun write_stripes :: "nat \<Rightarrow> nat \<Rightarrow> string \<Rightarrow> string mem_store \<Rightarrow> nat list \<Rightarrow> string \<Rightarrow> (wal_error, string) result" where
  "write_stripes chunk n key st [] buf = Inr buf"
| "write_stripes chunk n key st (s # ss) buf =
     (case read_stripe chunk n key st s of
        Inl e \<Rightarrow> Inl e
      | Inr bs \<Rightarrow> write_stripes chunk n key st ss (write_at s bs buf))"

definition download_with ::
  "nat \<Rightarrow> (nat list \<Rightarrow> nat list) \<Rightarrow> string \<Rightarrow> nat option \<Rightarrow> string mem_store \<Rightarrow> (wal_error, string) result" where
  "download_with chunk order key known_size st =
     (case (case known_size of Some n \<Rightarrow> Some n | None \<Rightarrow> map_option meta_size (mem_head key st)) of
        None \<Rightarrow> Inl (WalStore (NotFound key))
      | Some n \<Rightarrow>
          if n \<le> chunk then
            (case mem_get bytes_slice key default_get st of
               Inl e \<Rightarrow> Inl (WalStore e)
             | Inr (NotModified v) \<Rightarrow> Inl (Corrupt ''unexpected 304'')
             | Inr (Object om d) \<Rightarrow> Inr d)
          else write_stripes chunk n key st (order (stripe_starts chunk n)) (replicate n (CHR 0x00)))"

definition download_object :: "(nat list \<Rightarrow> nat list) \<Rightarrow> string \<Rightarrow> nat option \<Rightarrow> string mem_store \<Rightarrow> (wal_error, string) result" where
  "download_object = download_with CHUNK"

lemma stripe_starts_set: "0 < chunk \<Longrightarrow> set (stripe_starts chunk n) = {s. chunk dvd s \<and> s < n}"
proof -
  assume c: "0 < chunk"
  have "i < (n + chunk - 1) div chunk \<longleftrightarrow> i * chunk < n" for i
  proof -
    have "i < (n + chunk - 1) div chunk \<longleftrightarrow> Suc i * chunk \<le> n + chunk - 1"
      unfolding Suc_le_eq [symmetric] by (rule less_eq_div_iff_mult_less_eq [OF c])
    also have "\<dots> \<longleftrightarrow> i * chunk < n" using c by (simp, linarith)
    finally show ?thesis .
  qed
  then have "set (stripe_starts chunk n) = (\<lambda>i. i * chunk) ` {i. i * chunk < n}" by (auto simp: stripe_starts_def)
  also have "\<dots> = {s. chunk dvd s \<and> s < n}" unfolding dvd_def by (auto simp: mult.commute)
  finally show ?thesis .
qed

lemma read_stripe_view:
  assumes "mem_view st key = Some (v, d)" "s < n" "0 < chunk"
  shows "read_stripe chunk n key st s =
    (if length d < min (s + chunk) n then Inl (Corrupt ''short range read'') else Inr (bytes_slice s (min (s + chunk) n) d))"
proof -
  obtain t where t: "map_of (objects st) key = Some (v, d, t)" using assms(1) by (auto simp: mem_view_def)
  let ?e = "min (s + chunk) n"
  have e: "s < ?e" using assms(2,3) by simp
  then have "\<not> min ?e (length d) < min s (length d)" by linarith
  then have r: "read_stripe chunk n key st s =
      (if length (bytes_slice (min s (length d)) (min ?e (length d)) d) \<noteq> ?e - s then Inl (Corrupt ''short range read'')
       else Inr (bytes_slice (min s (length d)) (min ?e (length d)) d))"
    unfolding read_stripe_def mem_get_def Let_def by (simp add: t default_get_def)
  show ?thesis
  proof (cases "length d < ?e")
    case True
    then have "length d - min s (length d) < ?e - s" using e by linarith
    then show ?thesis using r True by (simp add: bytes_slice_def)
  next
    case False
    then have "min s (length d) = s" "min ?e (length d) = ?e" using e by linarith+
    then show ?thesis using r False by (simp add: bytes_slice_def)
  qed
qed

lemma nth_write_at:
  assumes "s + length bs \<le> length buf" "i < length buf"
  shows "length (write_at s bs buf) = length buf" "write_at s bs buf ! i = (if s \<le> i \<and> i < s + length bs then bs ! (i - s) else buf ! i)"
  using assms by (auto simp: write_at_def nth_append)

text \<open>Whatever the order, every position holds the source's byte as soon as its stripe is written.\<close>

lemma write_stripes_pos:
  assumes "mem_view st key = Some (v, d)" "0 < chunk" "n \<le> length d" "\<forall>s \<in> set ss. chunk dvd s \<and> s < n" "length buf = n"
  shows "\<exists>buf'. write_stripes chunk n key st ss buf = Inr buf' \<and> length buf' = n \<and>
    (\<forall>i < n. buf' ! i = (if i div chunk * chunk \<in> set ss then d ! i else buf ! i))"
  using assms(4,5)
proof (induction ss arbitrary: buf)
  case (Cons s ss)
  let ?bs = "bytes_slice s (min (s + chunk) n) d"
  have s: "chunk dvd s" "s < n" using Cons.prems(1) by simp_all
  have r: "read_stripe chunk n key st s = Inr ?bs" using read_stripe_view [OF assms(1) s(2) assms(2)] assms(3) by auto
  have len: "length ?bs = min (s + chunk) n - s" using assms(3) by (simp add: bytes_slice_def)
  then have fits: "s + length ?bs \<le> length buf" using Cons.prems(2) s(2) by simp
  have mine: "s \<le> i \<and> i < s + length ?bs \<longleftrightarrow> i div chunk * chunk = s" if "i < n" for i
  proof -
    obtain k where k: "s = k * chunk" using s(1) by (auto simp: dvd_def mult.commute)
    have "s \<le> i \<and> i < s + length ?bs \<longleftrightarrow> chunk * k \<le> i \<and> i < chunk * Suc k" using len that s(2) k by (auto simp: mult.commute)
    also have "\<dots> \<longleftrightarrow> i div chunk = k" using dividend_less_times_div [OF assms(2), of i] times_div_less_eq_dividend [of chunk i] by (auto intro: div_nat_eqI)
    finally show ?thesis using k assms(2) by simp
  qed
  obtain buf' where f: "write_stripes chunk n key st ss (write_at s ?bs buf) = Inr buf'" "length buf' = n"
    "\<forall>i < n. buf' ! i = (if i div chunk * chunk \<in> set ss then d ! i else write_at s ?bs buf ! i)"
    using Cons.IH [of "write_at s ?bs buf"] Cons.prems nth_write_at(1) [OF fits, of s] s by auto
  have "?bs ! (i - s) = d ! i" if "s \<le> i" "i < s + length ?bs" for i using that len assms(3) by (auto simp: bytes_slice_def)
  then have "write_at s ?bs buf ! i = (if i div chunk * chunk = s then d ! i else buf ! i)" if "i < n" for i
    using nth_write_at(2) [OF fits, of i] that Cons.prems(2) mine [OF that] by auto
  then show ?case using f r by auto
qed simp

lemma write_stripes_short:
  assumes "mem_view st key = Some (v, d)" "\<forall>s \<in> set ss. s < n" "\<exists>s \<in> set ss. length d < min (s + chunk) n" "0 < chunk"
  shows "write_stripes chunk n key st ss buf = Inl (Corrupt ''short range read'')"
  using assms(2,3)
proof (induction ss arbitrary: buf)
  case (Cons s ss)
  then show ?case using read_stripe_view [OF assms(1) _ assms(4), of s n] by auto
qed simp

text \<open>
  A striped download is exact. In whatever order the stripes complete, downloading an object with
  no size given, or with its own, yields its bytes. With another size: up to the chunk size the size
  has no effect; beyond it a size too large is detected, and one too small cuts the object.
\<close>

theorem striped_download_exact:
  assumes "mem_view st key = Some (v, d)" "0 < chunk" "\<forall>xs. mset (order xs) = mset xs"
  shows "download_with chunk order key known_size st =
    (case known_size of
       None \<Rightarrow> Inr d
     | Some n \<Rightarrow> if n \<le> chunk then Inr d else if length d < n then Inl (Corrupt ''short range read'') else Inr (take n d))"
proof -
  obtain t where obj: "map_of (objects st) key = Some (v, d, t)" using assms(1) by (auto simp: mem_view_def)
  have order: "set (order xs) = set xs" for xs using assms(3) by (metis set_mset_mset)
  have starts: "\<forall>s \<in> set (order (stripe_starts chunk n)). chunk dvd s \<and> s < n" for n using stripe_starts_set [OF assms(2), of n] order by simp
  have whole: "write_stripes chunk n key st (order (stripe_starts chunk n)) (replicate n (CHR 0x00)) = Inr (take n d)" if le: "n \<le> length d" for n
  proof -
    obtain f where f: "write_stripes chunk n key st (order (stripe_starts chunk n)) (replicate n (CHR 0x00)) = Inr f" "length f = n"
      "\<forall>i < n. f ! i = (if i div chunk * chunk \<in> set (order (stripe_starts chunk n)) then d ! i else replicate n (CHR 0x00) ! i)"
      using write_stripes_pos [OF assms(1,2) le starts length_replicate] by blast
    have "i div chunk * chunk < n" if "i < n" for i using that by (meson div_times_less_eq_dividend le_less_trans)
    then have "f = take n d" using f(2,3) le by (intro nth_equalityI) (auto simp: order stripe_starts_set [OF assms(2)])
    then show ?thesis using f(1) by simp
  qed
  have short: "write_stripes chunk n key st (order (stripe_starts chunk n)) (replicate n (CHR 0x00)) = Inl (Corrupt ''short range read'')" if "length d < n" for n
  proof (rule write_stripes_short [OF assms(1)])
    let ?s = "(n - 1) div chunk * chunk"
    have "?s \<le> n - 1" by (rule div_times_less_eq_dividend)
    moreover have "n - 1 < ?s + chunk" using dividend_less_times_div [OF assms(2), of "n - 1"] by (simp add: ac_simps)
    ultimately have "?s < n" "length d < min (?s + chunk) n" using that by linarith+
    then have "?s \<in> set (order (stripe_starts chunk n))" "length d < min (?s + chunk) n"
      by (simp_all add: order stripe_starts_set [OF assms(2)])
    then show "\<exists>s \<in> set (order (stripe_starts chunk n)). length d < min (s + chunk) n" by blast
  qed (use starts assms(2) in blast)+
  show ?thesis using whole short obj by (auto simp: download_with_def mem_head_def mem_get_def default_get_def split: option.splits)
qed

section \<open>Packs on the local disk\<close>

text \<open>
  The pack directory as the list of its files: the name's checksum and the extension. \<open>from_hex\<close> is gix's
  reading of a checksum, which returns the name the local files use.
\<close>

type_synonym pack_files = "(string \<times> string) list"

definition rev_key :: "string \<Rightarrow> string" where "rev_key c = WAL_DIR @ c @ ''.rev''"
definition bitmap_key :: "string \<Rightarrow> string" where "bitmap_key c = WAL_DIR @ c @ ''.bitmap''"
definition commit_graph_key :: "string \<Rightarrow> string" where "commit_graph_key c = WAL_DIR @ c @ ''.commit-graph''"

definition side_files :: "pack_ref \<Rightarrow> (bool \<times> string \<times> string) list" where
  "side_files p =
     [(has_rev p, ''rev'', rev_key (checksum p)), (has_bitmap p, ''bitmap'', bitmap_key (checksum p)),
      (has_commit_graph p, ''commit-graph'', commit_graph_key (checksum p))]"

text \<open>A request for an object fails when it is not there, or when the connection does (\<open>fails\<close>).\<close>

definition fetch_object :: "(string \<Rightarrow> store_error option) \<Rightarrow> bucket \<Rightarrow> string \<Rightarrow> (wal_error, unit) result" where
  "fetch_object fails b key =
     (case fails key of
        Some e \<Rightarrow> Inl (WalStore e)
      | None \<Rightarrow> (case mem_head key b of None \<Rightarrow> Inl (WalStore (NotFound key)) | Some om \<Rightarrow> Inr ()))"

text \<open>Side files of a pack that is there: those missing are fetched, failures are only logged.\<close>

definition add_side :: "(string \<Rightarrow> store_error option) \<Rightarrow> bucket \<Rightarrow> string \<Rightarrow> pack_files \<Rightarrow> bool \<times> string \<times> string \<Rightarrow> pack_files" where
  "add_side fails b c files = (\<lambda>(flag, ext, key).
     if \<not> flag \<or> (c, ext) \<in> set files then files
     else case fetch_object fails b key of Inl e \<Rightarrow> files | Inr _ \<Rightarrow> files @ [(c, ext)])"

definition advertised :: "pack_ref \<Rightarrow> (string \<times> string) list" where
  "advertised p = map snd (filter fst (side_files p))"

fun fetch_all :: "(string \<Rightarrow> store_error option) \<Rightarrow> bucket \<Rightarrow> string list \<Rightarrow> (wal_error, unit) result" where
  "fetch_all fails b [] = Inr ()"
| "fetch_all fails b (k # ks) = (case fetch_object fails b k of Inl e \<Rightarrow> Inl e | Inr _ \<Rightarrow> fetch_all fails b ks)"

text \<open>\<open>install_pack\<close>: the downloaded files are renamed into place one after the other.\<close>

definition install_names :: "pack_ref \<Rightarrow> (string \<times> string) list" where
  "install_names p = map (\<lambda>ext. (checksum p, ext)) ([''pack'', ''idx''] @ map fst (advertised p))"

definition install_pack :: "pack_ref \<Rightarrow> pack_files \<Rightarrow> pack_files" where
  "install_pack p files = files @ install_names p"

definition download_and_install_pack ::
  "(string \<Rightarrow> string option) \<Rightarrow> (string \<Rightarrow> store_error option) \<Rightarrow> bucket \<Rightarrow> pack_ref \<Rightarrow> pack_files \<Rightarrow> (wal_error, unit) result \<times> pack_files" where
  "download_and_install_pack from_hex fails b p files =
     (case from_hex (checksum p) of
        None \<Rightarrow> (Inl (Corrupt ''invalid pack checksum''), files)
      | Some c \<Rightarrow>
          if (c, ''pack'') \<in> set files then (Inr (), foldl (add_side fails b c) files (side_files p))
          else case fetch_all fails b ([pack_key (checksum p), idx_key (checksum p)] @ map snd (advertised p)) of
                 Inl e \<Rightarrow> (Inl e, files)
               | Inr _ \<Rightarrow> (Inr (), install_pack p files))"

text \<open>\<open>LocalRepo::packs\<close> and \<open>remove_pack\<close>.\<close>

definition local_packs :: "(string \<Rightarrow> string option) \<Rightarrow> pack_files \<Rightarrow> string list" where
  "local_packs from_hex files = List.map_filter (\<lambda>(c, ext). if ext = ''pack'' then from_hex c else None) files"

definition remove_pack :: "string \<Rightarrow> pack_files \<Rightarrow> pack_files" where
  "remove_pack c files = filter (\<lambda>(c', ext). \<not> (c' = c \<and> ext \<in> set [''pack'', ''idx'', ''rev'', ''bitmap'', ''commit-graph''])) files"

section \<open>Reconciling\<close>

text \<open>The side files of one installed pack that the manifest advertises.\<close>

definition converge :: "(string \<Rightarrow> string option) \<Rightarrow> (string \<Rightarrow> store_error option) \<Rightarrow> bucket \<Rightarrow> pack_files \<Rightarrow> pack_ref \<Rightarrow> pack_files" where
  "converge from_hex fails b files p =
     (case from_hex (checksum p) of None \<Rightarrow> files | Some c \<Rightarrow> foldl (add_side fails b c) files (side_files p))"

text \<open>The downloads are tasks of their own: all of them run, and the first error is reported.\<close>

fun download_missing ::
  "(string \<Rightarrow> string option) \<Rightarrow> (string \<Rightarrow> store_error option) \<Rightarrow> bucket \<Rightarrow> pack_ref list \<Rightarrow> pack_files \<Rightarrow> (wal_error, unit) result \<times> pack_files" where
  "download_missing from_hex fails b [] files = (Inr (), files)"
| "download_missing from_hex fails b (p # ps) files =
     (case download_and_install_pack from_hex fails b p files of
        (r, files1) \<Rightarrow> (case download_missing from_hex fails b ps files1 of (r', files2) \<Rightarrow> (case r of Inl e \<Rightarrow> Inl e | Inr _ \<Rightarrow> r', files2)))"

fun parse_all :: "(string \<Rightarrow> string option) \<Rightarrow> string list \<Rightarrow> (wal_error, (string \<times> string) list) result" where
  "parse_all from_hex [] = Inr []"
| "parse_all from_hex (s # ss) =
     (case from_hex s of
        None \<Rightarrow> Inl (Corrupt ''invalid supersedes checksum'')
      | Some c \<Rightarrow> (case parse_all from_hex ss of Inl e \<Rightarrow> Inl e | Inr r \<Rightarrow> Inr ((s, c) # r)))"

definition remove_superseded :: "pack_files \<Rightarrow> string \<times> string \<Rightarrow> pack_files" where
  "remove_superseded files = (\<lambda>(s, c). if (c, ''pack'') \<in> set files then remove_pack c files else files)"

definition set_pending :: "string list \<Rightarrow> handle \<Rightarrow> handle" where
  "set_pending ss h = h\<lparr>h_state := (h_state h)\<lparr>pending_pack_removals := ss\<rparr>\<rparr>"

text \<open>The removals: taken from the state, dropped when live again, put back while readers are active.\<close>

definition remove_phase ::
  "(string \<Rightarrow> string option) \<Rightarrow> bool \<Rightarrow> manifest \<Rightarrow> handle \<Rightarrow> pack_files \<Rightarrow> (wal_error, unit) result \<times> handle \<times> pack_files" where
  "remove_phase from_hex readers m h files =
     (case parse_all from_hex (filter (\<lambda>s. s \<notin> checksum ` set (packs m)) (pending_pack_removals (h_state h))) of
        Inl e \<Rightarrow> (Inl e, set_pending [] h, files)
      | Inr to_remove \<Rightarrow>
          if readers then (Inr (), set_pending (map fst to_remove) h, files)
          else (Inr (), set_pending [] h, foldl remove_superseded files to_remove))"

definition reconcile_packs ::
  "(string \<Rightarrow> string option) \<Rightarrow> (string \<Rightarrow> store_error option) \<Rightarrow> bool \<Rightarrow> bucket \<Rightarrow> manifest \<Rightarrow> handle \<Rightarrow> pack_files \<Rightarrow>
   (wal_error, unit) result \<times> handle \<times> pack_files" where
  "reconcile_packs from_hex fails readers b m h files =
     (let installed = set (local_packs from_hex files);
          files1 = foldl (converge from_hex fails b) files (filter (\<lambda>p. checksum p \<in> installed) (packs m))
      in case download_missing from_hex fails b (filter (\<lambda>p. checksum p \<notin> installed) (packs m)) files1 of
           (Inl e, files2) \<Rightarrow> (Inl e, h, files2)
         | (Inr _, files2) \<Rightarrow>
             (case remove_phase from_hex readers m h files2 of
                (Inl e, h1, files3) \<Rightarrow> (Inl e, h1, files3)
              | (Inr _, h1, files3) \<Rightarrow> (Inr (), h1\<lparr>h_state := (h_state h1)\<lparr>packs_revision := revision m\<rparr>\<rparr>, files3)))"

datatype sync_level = Refs | Full

definition level_satisfied :: "sync_level \<Rightarrow> handle \<Rightarrow> bool" where
  "level_satisfied level h = (case level of Refs \<Rightarrow> True | Full \<Rightarrow> packs_ready (h_state h))"

definition sync_packs_phase ::
  "(string \<Rightarrow> string option) \<Rightarrow> (string \<Rightarrow> store_error option) \<Rightarrow> bool \<Rightarrow> bucket \<Rightarrow> sync_level \<Rightarrow> handle \<Rightarrow> pack_files \<Rightarrow>
   (wal_error, unit) result \<times> handle \<times> pack_files" where
  "sync_packs_phase from_hex fails readers b level h files =
     (if level_satisfied level h then (Inr (), h, files) else reconcile_packs from_hex fails readers b (h_manifest h) h files)"

text \<open>While the freshness window is open (\<open>ttl\<close>), the manifest is not read again.\<close>

definition sync_impl_level ::
  "(string \<Rightarrow> string option) \<Rightarrow> (string \<Rightarrow> string option) \<Rightarrow> (string \<Rightarrow> store_error option) \<Rightarrow> bool \<Rightarrow> bool \<Rightarrow> bucket \<Rightarrow> sync_level \<Rightarrow> handle \<Rightarrow> pack_files \<Rightarrow>
   (wal_error, unit) result \<times> handle \<times> pack_files" where
  "sync_impl_level from_hex peel fails readers ttl b level h files =
     (case (if ttl then (Inr (), h) else sync_locked_inner peel b h) of
        (Inl e, h1) \<Rightarrow> (Inl e, h1, files)
      | (Inr _, h1) \<Rightarrow> (if level = Full then sync_packs_phase from_hex fails readers b level h1 files else (Inr (), h1, files)))"

definition materialize_from_scratch ::
  "(string \<Rightarrow> string option) \<Rightarrow> (string \<Rightarrow> string option) \<Rightarrow> (string \<Rightarrow> store_error option) \<Rightarrow> bool \<Rightarrow> bucket \<Rightarrow> manifest \<Rightarrow> version \<Rightarrow> handle \<Rightarrow> pack_files \<Rightarrow>
   (wal_error, unit) result \<times> handle \<times> pack_files" where
  "materialize_from_scratch from_hex peel fails readers b m v h files =
     (case apply_delta peel b m v (set_applied 0 h) of
        (Inl e, h1) \<Rightarrow> (Inl e, h1, files)
      | (Inr _, h1) \<Rightarrow> reconcile_packs from_hex fails readers b m h1 files)"

definition rematerialize ::
  "(string \<Rightarrow> string option) \<Rightarrow> (string \<Rightarrow> string option) \<Rightarrow> (string \<Rightarrow> store_error option) \<Rightarrow> bool \<Rightarrow> bucket \<Rightarrow> handle \<Rightarrow> pack_files \<Rightarrow>
   (wal_error, unit) result \<times> handle \<times> pack_files" where
  "rematerialize from_hex peel fails readers b h files =
     (case get_message dec_manifest MANIFEST b of
        Inl e \<Rightarrow> (Inl (WalCoord e), h, files)
      | Inr None \<Rightarrow> (Inl WalNotFound, h, files)
      | Inr (Some (om, m)) \<Rightarrow>
          (case materialize_from_scratch from_hex peel fails readers b m (meta_version om) h files of
             (Inl e, h1, files1) \<Rightarrow> (Inl e, h1, files1)
           | (Inr _, h1, files1) \<Rightarrow> (Inr (), h1\<lparr>h_manifest := m, h_version := Some (meta_version om)\<rparr>, files1)))"

section \<open>What reconciling keeps and what it brings\<close>

text \<open>The checksums in play are read as they are written, or not at all.\<close>

definition names_ok :: "(string \<Rightarrow> string option) \<Rightarrow> string set \<Rightarrow> bool" where
  "names_ok from_hex cs \<longleftrightarrow> (\<forall>c \<in> cs. from_hex c = None \<or> from_hex c = Some c)"

abbreviation live :: "manifest \<Rightarrow> string set" where "live m \<equiv> checksum ` set (packs m)"

lemma add_side_keeps: "set files \<subseteq> set (add_side fails b c files x)"
  by (cases x) (auto simp: add_side_def split: sum.splits)

lemma add_sides_keep: "set files \<subseteq> set (foldl (add_side fails b c) files xs)"
  by (induction xs arbitrary: files) (use add_side_keeps in fastforce)+

lemma add_sides_only:
  assumes "(c', ext) \<in> set (foldl (add_side fails b c) files xs)" "(c', ext) \<notin> set files"
  shows "c' = c \<and> ext \<in> (fst \<circ> snd) ` set xs"
  using assms
proof (induction xs arbitrary: files)
  case (Cons x xs)
  have "(c', ext) \<in> set (add_side fails b c files x) \<Longrightarrow> c' = c \<and> ext = fst (snd x)"
    using Cons.prems(2) by (cases x) (auto simp: add_side_def split: sum.splits if_splits)
  then show ?case using Cons.IH [of "add_side fails b c files x"] Cons.prems(1) by auto
qed simp

lemma converge_keeps: "set files \<subseteq> set (foldl (converge from_hex fails b) files ps)"
proof (induction ps arbitrary: files)
  case (Cons p ps)
  have "set files \<subseteq> set (converge from_hex fails b files p)" using add_sides_keep by (auto simp: converge_def split: option.splits)
  then show ?case using Cons [of "converge from_hex fails b files p"] by auto
qed simp

lemma side_exts: "(fst \<circ> snd) ` set (side_files p) = {''rev'', ''bitmap'', ''commit-graph''}"
  by (auto simp: side_files_def)

text \<open>Only side files are added to a pack that is there.\<close>

lemma converge_only: "(c, ext) \<in> set (foldl (converge from_hex fails b) files ps) \<Longrightarrow> (c, ext) \<notin> set files \<Longrightarrow> ext \<in> {''rev'', ''bitmap'', ''commit-graph''}"
proof (induction ps arbitrary: files)
  case (Cons p ps)
  have "ext \<in> {''rev'', ''bitmap'', ''commit-graph''}" if "(c, ext) \<in> set (converge from_hex fails b files p)"
  proof (cases "from_hex (checksum p)")
    case (Some q)
    then show ?thesis using add_sides_only [of c ext fails b q files "side_files p"] that Cons.prems(2) unfolding side_exts by (simp add: converge_def)
  qed (use that Cons.prems(2) in \<open>simp add: converge_def\<close>)
  then show ?case using Cons.IH [of "converge from_hex fails b files p"] Cons.prems(1) by auto
qed simp

lemma install_keeps: "set files \<subseteq> set (snd (download_and_install_pack from_hex fails b p files))"
  using add_sides_keep by (auto simp: download_and_install_pack_def install_pack_def split: option.splits sum.splits)

lemma install_only:
  assumes "(c, ext) \<in> set (snd (download_and_install_pack from_hex fails b p files))" "(c, ext) \<notin> set files"
  shows "c = checksum p \<or> ext \<in> {''rev'', ''bitmap'', ''commit-graph''}"
proof (cases "from_hex (checksum p)")
  case (Some q)
  then show ?thesis
    using assms add_sides_only [of c ext fails b q files "side_files p"] unfolding side_exts
    by (auto simp: download_and_install_pack_def install_pack_def install_names_def split: sum.splits if_splits)
qed (use assms in \<open>simp add: download_and_install_pack_def\<close>)

lemma download_keeps: "set files \<subseteq> set (snd (download_missing from_hex fails b ps files))"
proof (induction ps arbitrary: files)
  case (Cons p ps)
  then show ?case using install_keeps [of files from_hex fails b p] by (fastforce split: prod.splits)
qed simp

lemma download_only:
  "(c, ext) \<in> set (snd (download_missing from_hex fails b ps files)) \<Longrightarrow> (c, ext) \<notin> set files \<Longrightarrow>
   c \<in> checksum ` set ps \<or> ext \<in> {''rev'', ''bitmap'', ''commit-graph''}"
proof (induction ps arbitrary: files)
  case (Cons p ps)
  obtain r files1 where p: "download_and_install_pack from_hex fails b p files = (r, files1)" by force
  then have "(c, ext) \<in> set (snd (download_missing from_hex fails b ps files1))" using Cons.prems(1) by (auto split: prod.splits)
  then show ?case using Cons.IH [of files1] install_only [of c ext from_hex fails b p files] Cons.prems(2) p by auto
qed simp

lemma removed_only:
  assumes "(c, ext) \<in> set files" "c \<notin> snd ` set xs"
  shows "(c, ext) \<in> set (foldl remove_superseded files xs)"
  using assms by (induction xs arbitrary: files) (auto simp: remove_superseded_def remove_pack_def)

lemma removed_subset: "set (foldl remove_superseded files xs) \<subseteq> set files"
proof (induction xs arbitrary: files)
  case (Cons x xs)
  have "set (remove_superseded files x) \<subseteq> set files" by (auto simp: remove_superseded_def remove_pack_def split: prod.splits)
  then show ?case using Cons [of "remove_superseded files x"] by auto
qed simp

lemma removed_gone: "c \<in> snd ` set xs \<Longrightarrow> (c, ''pack'') \<notin> set (foldl remove_superseded files xs)"
proof (induction xs arbitrary: files)
  case (Cons x xs)
  have "(c, ''pack'') \<notin> set (remove_superseded files x)" if "c = snd x" using that by (auto simp: remove_superseded_def remove_pack_def split: prod.splits)
  then show ?case using Cons.IH [of "remove_superseded files x"] Cons.prems removed_subset [of "remove_superseded files x" xs] by auto
qed simp

lemma parse_all_names:
  "names_ok from_hex (set ss) \<Longrightarrow> parse_all from_hex ss = Inr xs \<Longrightarrow> map fst xs = ss \<and> map snd xs = ss"
  by (induction ss arbitrary: xs) (auto simp: names_ok_def split: option.splits sum.splits)

lemma parse_all_ok: "\<forall>s \<in> set ss. from_hex s = Some s \<Longrightarrow> parse_all from_hex ss = Inr (map (\<lambda>s. (s, s)) ss)"
  by (induction ss) auto

text \<open>
  C15: reconciling never takes away what is needed. Whatever is on the disk, whatever the bucket holds
  and whichever downloads fail: of the files there, it removes none of a pack the manifest lists, none
  of a pack that no compaction has superseded, and none at all while readers are active.
\<close>

theorem reconcile_keeps:
  assumes "names_ok from_hex (set (pending_pack_removals (h_state h)))" "(c, ext) \<in> set files"
    and "c \<in> live m \<or> c \<notin> set (pending_pack_removals (h_state h)) \<or> readers"
  shows "(c, ext) \<in> set (snd (snd (reconcile_packs from_hex fails readers b m h files)))"
proof -
  let ?ps = "filter (\<lambda>s. s \<notin> live m) (pending_pack_removals (h_state h))"
  define files1 where "files1 = foldl (converge from_hex fails b) files (filter (\<lambda>p. checksum p \<in> set (local_packs from_hex files)) (packs m))"
  obtain r files2 where d: "download_missing from_hex fails b (filter (\<lambda>p. checksum p \<notin> set (local_packs from_hex files)) (packs m)) files1 = (r, files2)" by force
  have "(c, ext) \<in> set files1" using assms(2) converge_keeps unfolding files1_def by (rule rev_subsetD)
  then have kept: "(c, ext) \<in> set files2" using download_keeps [of files1 from_hex fails b] d by (metis snd_conv subsetD)
  have removal: "(c, ext) \<in> set (snd (snd (remove_phase from_hex readers m h files2)))"
  proof (cases "parse_all from_hex ?ps")
    case (Inr xs)
    have "names_ok from_hex (set ?ps)" using assms(1) by (simp add: names_ok_def)
    then have "snd ` set xs = set ?ps" using parse_all_names [OF _ Inr] by (metis list.set_map)
    then show ?thesis using Inr kept assms(3) removed_only [of c ext files2 xs] by (auto simp: remove_phase_def)
  qed (use kept in \<open>simp add: remove_phase_def\<close>)
  then show ?thesis using d kept by (auto simp: reconcile_packs_def Let_def files1_def split: sum.splits prod.splits)
qed

text \<open>The objects of a pack are in the bucket and can be fetched.\<close>

definition pack_stored :: "(string \<Rightarrow> store_error option) \<Rightarrow> bucket \<Rightarrow> pack_ref \<Rightarrow> bool" where
  "pack_stored fails b p \<longleftrightarrow>
     list_all (\<lambda>k. fails k = None \<and> mem_view b k \<noteq> None) ([pack_key (checksum p), idx_key (checksum p)] @ map snd (advertised p))"

lemma fetch_object_ok: "fails k = None \<Longrightarrow> mem_view b k \<noteq> None \<Longrightarrow> fetch_object fails b k = Inr ()"
  by (auto simp: fetch_object_def mem_head_def mem_view_def split: option.splits)

lemma fetch_all_ok: "list_all (\<lambda>k. fails k = None \<and> mem_view b k \<noteq> None) ks \<Longrightarrow> fetch_all fails b ks = Inr ()"
  by (induction ks) (auto simp: fetch_object_ok)

lemma add_side_brings:
  assumes "fst x" "fails (snd (snd x)) = None" "mem_view b (snd (snd x)) \<noteq> None"
  shows "(c, fst (snd x)) \<in> set (add_side fails b c files x)"
  using fetch_object_ok [of fails _ b, OF assms(2,3)] assms(1) by (cases x) (auto simp: add_side_def)

lemma add_sides_bring:
  assumes "\<forall>x \<in> set xs. fst x \<longrightarrow> fails (snd (snd x)) = None \<and> mem_view b (snd (snd x)) \<noteq> None" "x \<in> set xs" "fst x"
  shows "(c, fst (snd x)) \<in> set (foldl (add_side fails b c) files xs)"
  using assms
proof (induction xs arbitrary: files)
  case (Cons y ys)
  then show ?case using add_side_brings [of y fails b c files] add_sides_keep [of "add_side fails b c files y" fails b c ys] by (cases "x = y") auto
qed simp

lemma sides_stored:
  assumes "pack_stored fails b p"
  shows "(\<lambda>ext. (checksum p, ext)) ` fst ` set (advertised p) \<subseteq> set (foldl (add_side fails b (checksum p)) files (side_files p))"
  using assms add_sides_bring [of "side_files p" fails b _ "checksum p" files]
  by (fastforce simp: pack_stored_def advertised_def list_all_iff)

text \<open>What is on the disk of a pack: the pack, its index, the side files the manifest advertises.\<close>

definition pack_complete :: "pack_files \<Rightarrow> pack_ref \<Rightarrow> bool" where
  "pack_complete files p \<longleftrightarrow> set (install_names p) \<subseteq> set files"

lemma complete_mono: "pack_complete files p \<Longrightarrow> set files \<subseteq> set files' \<Longrightarrow> pack_complete files' p"
  by (auto simp: pack_complete_def)

lemma install_complete:
  assumes "pack_stored fails b p" "from_hex (checksum p) = Some (checksum p)" "(checksum p, ''pack'') \<in> set files \<longrightarrow> (checksum p, ''idx'') \<in> set files"
  shows "\<exists>files'. download_and_install_pack from_hex fails b p files = (Inr (), files') \<and> pack_complete files' p"
proof (cases "(checksum p, ''pack'') \<in> set files")
  case True
  then show ?thesis
    using assms sides_stored [OF assms(1), of files] add_sides_keep [of files fails b "checksum p" "side_files p"]
    by (auto simp: download_and_install_pack_def pack_complete_def install_names_def)
next
  case False
  have "fetch_all fails b ([pack_key (checksum p), idx_key (checksum p)] @ map snd (advertised p)) = Inr ()"
    using assms(1) unfolding pack_stored_def by (rule fetch_all_ok)
  then show ?thesis using assms(2) False by (simp add: download_and_install_pack_def pack_complete_def install_pack_def del: fetch_all.simps)
qed

lemma download_complete:
  assumes "\<forall>p \<in> set ps. pack_stored fails b p \<and> from_hex (checksum p) = Some (checksum p)"
    and "\<forall>p \<in> set ps. (checksum p, ''pack'') \<in> set files \<longrightarrow> (checksum p, ''idx'') \<in> set files"
  shows "\<exists>files'. download_missing from_hex fails b ps files = (Inr (), files') \<and> (\<forall>p \<in> set ps. pack_complete files' p)"
  using assms
proof (induction ps arbitrary: files)
  case (Cons p ps)
  then obtain files1 where p: "download_and_install_pack from_hex fails b p files = (Inr (), files1)" "pack_complete files1 p"
    using install_complete [of fails b p from_hex files] by auto
  have "(checksum q, ''idx'') \<in> set files1" if q: "q \<in> set ps" "(checksum q, ''pack'') \<in> set files1" for q
  proof (cases "(checksum q, ''pack'') \<in> set files")
    case True
    then show ?thesis using Cons.prems(2) q(1) install_keeps [of files from_hex fails b p] p(1) by auto
  next
    case False
    then have "checksum q = checksum p" using install_only [of "checksum q" "''pack''" from_hex fails b p files] p(1) q(2) by auto
    then show ?thesis using p(2) by (auto simp: pack_complete_def install_names_def)
  qed
  then obtain files2 where f: "download_missing from_hex fails b ps files1 = (Inr (), files2)" "\<forall>q \<in> set ps. pack_complete files2 q"
    using Cons.IH [of files1] Cons.prems(1) by auto
  then show ?case using p complete_mono [OF p(2)] download_keeps [of files1 from_hex fails b ps] by auto
qed simp

lemma converge_complete:
  assumes "\<forall>p \<in> set ps. pack_stored fails b p \<and> from_hex (checksum p) = Some (checksum p) \<and> {(checksum p, ''pack''), (checksum p, ''idx'')} \<subseteq> set files" "p \<in> set ps"
  shows "pack_complete (foldl (converge from_hex fails b) files ps) p"
  using assms
proof (induction ps arbitrary: files)
  case (Cons q qs)
  have keep: "set files \<subseteq> set (converge from_hex fails b files q)" using converge_keeps [of files from_hex fails b "[q]"] by simp
  have "pack_complete (converge from_hex fails b files q) q" 
    using Cons.prems(1) sides_stored [of fails b q files] keep by (auto simp: pack_complete_def install_names_def converge_def)
  then have "pack_complete (foldl (converge from_hex fails b) files (q # qs)) q" using complete_mono converge_keeps by fastforce
  then show ?case using Cons.IH [of "converge from_hex fails b files q"] Cons.prems keep by (cases "p = q") auto
qed simp

lemma local_packs_set: "set (local_packs from_hex files) = {c. \<exists>c'. (c', ''pack'') \<in> set files \<and> from_hex c' = Some c}"
  by (force simp: local_packs_def set_map_filter split: if_splits)

text \<open>
  C14: a reconciled copy is complete. When the objects of every live pack can be fetched, and no pack
  file is there without its index, then reconciling succeeds: the disk has the pack, the index and
  every advertised side file of every live pack; superseded packs that are not live are gone and
  forgotten, unless readers are active, when they stay on the list; the revision is recorded.
\<close>

theorem reconcile_complete:
  assumes stored: "\<forall>p \<in> set (packs m). pack_stored fails b p \<and> from_hex (checksum p) = Some (checksum p)"
    and pending: "\<forall>s \<in> set (pending_pack_removals (h_state h)). from_hex s = Some s" and names: "names_ok from_hex (fst ` set files)"
    and whole: "\<forall>c. (c, ''pack'') \<in> set files \<longrightarrow> (c, ''idx'') \<in> set files"
  shows "\<exists>files'. reconcile_packs from_hex fails readers b m h files =
      (Inr (), h\<lparr>h_state := (h_state h)\<lparr>pending_pack_removals := (if readers then filter (\<lambda>s. s \<notin> live m) (pending_pack_removals (h_state h)) else []),
         packs_revision := revision m\<rparr>\<rparr>, files') \<and>
    (\<forall>p \<in> set (packs m). pack_complete files' p) \<and>
    (\<forall>s \<in> set (pending_pack_removals (h_state h)). s \<notin> live m \<longrightarrow> \<not> readers \<longrightarrow> (s, ''pack'') \<notin> set files')"
proof -
  let ?in = "filter (\<lambda>p. checksum p \<in> set (local_packs from_hex files)) (packs m)" and ?out = "filter (\<lambda>p. checksum p \<notin> set (local_packs from_hex files)) (packs m)"
  let ?ps = "filter (\<lambda>s. s \<notin> live m) (pending_pack_removals (h_state h))"
  define files1 where "files1 = foldl (converge from_hex fails b) files ?in"
  have there: "{(checksum p, ''pack''), (checksum p, ''idx'')} \<subseteq> set files" if "p \<in> set ?in" for p
    using that names whole by (force simp: local_packs_set names_ok_def)
  have c1: "pack_complete files1 p" if "p \<in> set ?in" for p
    unfolding files1_def using there that stored by (intro converge_complete) auto
  have k1: "set files \<subseteq> set files1" unfolding files1_def by (rule converge_keeps)
  have "(c, ''idx'') \<in> set files1" if "(c, ''pack'') \<in> set files1" for c
    using that whole converge_only [of c "''pack''" from_hex fails b files ?in] k1 by (auto simp: files1_def [symmetric])
  then obtain files2 where f2: "download_missing from_hex fails b ?out files1 = (Inr (), files2)" "\<forall>p \<in> set ?out. pack_complete files2 p"
    using download_complete [of ?out fails b from_hex files1] stored by auto
  have k2: "set files1 \<subseteq> set files2" using download_keeps [of files1 from_hex fails b ?out] f2(1) by simp
  have c2: "pack_complete files2 p" if "p \<in> set (packs m)" for p
    using that f2(2) c1 complete_mono [OF _ k2] by (cases "p \<in> set ?in") auto
  have parsed: "parse_all from_hex ?ps = Inr (map (\<lambda>s. (s, s)) ?ps)" using pending by (intro parse_all_ok) auto
  let ?files = "if readers then files2 else foldl remove_superseded files2 (map (\<lambda>s. (s, s)) ?ps)"
  have run: "reconcile_packs from_hex fails readers b m h files =
      (Inr (), h\<lparr>h_state := (h_state h)\<lparr>pending_pack_removals := (if readers then ?ps else []), packs_revision := revision m\<rparr>\<rparr>, ?files)"
    using f2(1) parsed by (simp add: reconcile_packs_def Let_def files1_def remove_phase_def set_pending_def o_def)
  have "pack_complete ?files p" if p: "p \<in> set (packs m)" for p
  proof -
    have "(checksum p, ext) \<in> set (foldl remove_superseded files2 (map (\<lambda>s. (s, s)) ?ps))" if "(checksum p, ext) \<in> set files2" for ext
      by (rule removed_only [OF that]) (use p in auto)
    then show ?thesis using c2 [OF p] by (auto simp: pack_complete_def install_names_def)
  qed
  moreover have "(s, ''pack'') \<notin> set ?files" if "s \<in> set ?ps" "\<not> readers" for s
    using removed_gone [of s "map (\<lambda>s. (s, s)) ?ps" files2] that by force
  ultimately show ?thesis using run by auto
qed

text \<open>Then the next full sync at the same revision has nothing to do.\<close>

lemma full_sync_settles:
  assumes "\<forall>p \<in> set (packs (h_manifest h)). pack_stored fails b p \<and> from_hex (checksum p) = Some (checksum p)"
    and "\<forall>s \<in> set (pending_pack_removals (h_state h)). from_hex s = Some s" "names_ok from_hex (fst ` set files)"
    and "\<forall>c. (c, ''pack'') \<in> set files \<longrightarrow> (c, ''idx'') \<in> set files" "st_revision (h_state h) = revision (h_manifest h)"
    and "sync_packs_phase from_hex fails False b Full h files = (r, h', files')"
  shows "r = Inr () \<and> sync_packs_phase from_hex fails' readers b' Full h' files' = (Inr (), h', files')"
  using reconcile_complete [OF assms(1-4), of False] assms(5,6)
  by (auto simp: sync_packs_phase_def level_satisfied_def packs_ready_def split: if_splits)

section \<open>An interrupted installation\<close>

lemma in_installs: "(c, ext) \<in> set (concat (map install_names qs)) \<longleftrightarrow> (\<exists>q \<in> set qs. c = checksum q \<and> ext \<in> {''pack'', ''idx''} \<union> fst ` set (advertised q))"
  by (auto simp: install_names_def)

text \<open>
  C16: an installation that is cut off after its first rename is never repaired. The pack file is then
  there without its index; since a pack counts as installed by its pack file, every later reconciling
  reports success and records the revision, and the index is still missing, although it is in the
  bucket; from the same disk without the pack file it would be fetched.
\<close>

theorem torn_install_never_repaired:
  assumes stored: "\<forall>p \<in> set (packs m). pack_stored fails b p \<and> from_hex (checksum p) = Some (checksum p)"
    and pending: "pending_pack_removals (h_state h) = []" and whole: "files = concat (map install_names (filter (\<lambda>q. checksum q \<noteq> checksum p) (packs m)))"
    and p: "p \<in> set (packs m)"
  shows "(case reconcile_packs from_hex fails readers b m h (files @ take 1 (install_names p)) of (r, h', files') \<Rightarrow>
      r = Inr () \<and> packs_revision (h_state h') = revision m \<and> (checksum p, ''idx'') \<notin> set files') \<and>
    (case reconcile_packs from_hex fails readers b m h files of (r, h', files') \<Rightarrow> r = Inr () \<and> pack_complete files' p)"
proof
  show "case reconcile_packs from_hex fails readers b m h files of (r, h', files') \<Rightarrow> r = Inr () \<and> pack_complete files' p"
  proof -
    have "names_ok from_hex (fst ` set files)" unfolding names_ok_def
    proof
      fix c
      assume "c \<in> fst ` set files"
      then obtain ext where "(c, ext) \<in> set files" by auto
      then show "from_hex c = None \<or> from_hex c = Some c" unfolding whole in_installs using stored by auto
    qed
    moreover have "\<forall>c. (c, ''pack'') \<in> set files \<longrightarrow> (c, ''idx'') \<in> set files" unfolding whole in_installs by blast
    ultimately show ?thesis using reconcile_complete [OF stored, of h files readers] pending p by auto
  qed
  let ?files = "files @ take 1 (install_names p)"
  let ?in = "filter (\<lambda>p. checksum p \<in> set (local_packs from_hex ?files)) (packs m)" and ?out = "filter (\<lambda>p. checksum p \<notin> set (local_packs from_hex ?files)) (packs m)"
  have one: "take 1 (install_names p) = [(checksum p, ''pack'')]" by (simp add: install_names_def)
  have all: "checksum q \<in> set (local_packs from_hex ?files)" if "q \<in> set (packs m)" for q
  proof -
    have "(checksum q, ''pack'') \<in> set ?files" unfolding set_append Un_iff one whole in_installs using that by auto
    then show ?thesis using stored that unfolding local_packs_set by blast
  qed
  then have out: "?out = []" by (simp add: filter_empty_conv)
  define files1 where "files1 = foldl (converge from_hex fails b) ?files ?in"
  have "(checksum p, ''idx'') \<notin> set ?files" unfolding set_append Un_iff one whole in_installs by auto
  then have idx: "(checksum p, ''idx'') \<notin> set files1"
    using converge_only [of "checksum p" "''idx''" from_hex fails b ?files ?in] unfolding files1_def by auto
  have "reconcile_packs from_hex fails readers b m h ?files = (Inr (), h\<lparr>h_state := (h_state h)\<lparr>pending_pack_removals := [], packs_revision := revision m\<rparr>\<rparr>, files1)"
    unfolding reconcile_packs_def Let_def out files1_def by (simp add: remove_phase_def pending set_pending_def)
  then show "case reconcile_packs from_hex fails readers b m h ?files of (r, h', files') \<Rightarrow>
      r = Inr () \<and> packs_revision (h_state h') = revision m \<and> (checksum p, ''idx'') \<notin> set files'" using idx by simp
qed

section \<open>Repair\<close>

lemma writes_ref_filter:
  "\<not> writes_ref (concat (map updates (entry_txns es))) n \<Longrightarrow> \<not> writes_ref (concat (map updates (entry_txns (filter P es)))) n"
  by (induction es) auto

lemma set_applied_fields [simp]: "h_dir (set_applied n h) = h_dir h" "applied_seq (h_state (set_applied n h)) = n"
  by (simp_all add: set_applied_def)

text \<open>
  What a repair repairs. Whatever refs and packs the local copy has, re-materializing rereads the
  manifest and, when it has a checkpoint, brings exactly the refs the bucket stands for. Without a
  checkpoint it replays the log on top of the local refs: a ref that no entry mentions stays as it is.
\<close>

theorem rematerialize_refs:
  assumes m: "mem_view b MANIFEST = Some (v, ManifestObj m)" and segs: "segs_ok b (log_segments m)" "txns_clean (log_of b (log_segments m))"
    and refs: "refs_there b m" "refs_clean (read_refs peel (h_dir h))" and peel: "peel_hex peel"
    and "rematerialize from_hex peel fails readers b h files = (Inr (), h', files')"
  shows "h_manifest h' = m \<and> h_version h' = Some v \<and>
    (checkpoint_seq m \<noteq> 0 \<longrightarrow> spec_of (read_refs peel (h_dir h')) = durable_refs b m) \<and>
    (checkpoint_seq m = 0 \<longrightarrow> (\<forall>n. \<not> writes_ref (concat (map updates (entry_txns (log_of b (log_segments m))))) n \<longrightarrow>
       sp_refs (spec_of (read_refs peel (h_dir h'))) n = sp_refs (spec_of (read_refs peel (h_dir h))) n))"
proof -
  let ?es = "filter (\<lambda>e. 0 < seq e \<and> seq e \<le> head_seq m) (log_of b (log_segments m))"
  obtain h1 where d: "apply_delta peel b m v (set_applied 0 h) = (Inr (), h1)"
    "checkpoint_seq m \<noteq> 0 \<longrightarrow> spec_of (read_refs peel (h_dir h1)) = durable_refs b m"
    "checkpoint_seq m = 0 \<longrightarrow> spec_of (read_refs peel (h_dir h1)) = spec_txns (spec_of (read_refs peel (h_dir h))) (entry_txns ?es)"
    using apply_delta_spec [of peel "set_applied 0 h" b m v] assms(2-6)
    by (fastforce simp: refs_there_def durable_refs_def checkpoint_base_def split: prod.splits)
  have get: "get_message dec_manifest MANIFEST b = Inr (Some (om, m))" if "mem_head MANIFEST b = Some om" for om
    using m that by (auto simp: get_message_def get_bytes_def decode_message_def plain_get_def mem_get_def mem_view_def mem_head_def default_get_def split: option.splits)
  obtain om where om: "mem_head MANIFEST b = Some om" "meta_version om = v" using m by (auto simp: mem_head_def mem_view_def)
  obtain r h2 files2 where rec: "reconcile_packs from_hex fails readers b m h1 files = (r, h2, files2)" by (metis prod_cases3)
  have "h_dir h2 = h_dir h1" using rec
    by (auto simp: reconcile_packs_def Let_def remove_phase_def set_pending_def split: prod.splits sum.splits if_splits)
  then have h': "h_dir h' = h_dir h1" "h_manifest h' = m" "h_version h' = Some v"
    using assms(7) d(1) rec om by (auto simp: rematerialize_def get [OF om(1)] materialize_from_scratch_def split: sum.splits)
  have "sp_refs (spec_of (read_refs peel (h_dir h'))) n = sp_refs (spec_of (read_refs peel (h_dir h))) n"
    if "checkpoint_seq m = 0" "\<not> writes_ref (concat (map updates (entry_txns (log_of b (log_segments m))))) n" for n
  proof -
    have "spec_of (read_refs peel (h_dir h')) = foldl spec_update (spec_of (read_refs peel (h_dir h))) (concat (map updates (entry_txns ?es)))"
      using d(3) that(1) h'(1) by (simp add: spec_txns_def)
    then show ?thesis using updates_same_off [of "concat (map updates (entry_txns ?es))"] writes_ref_filter [OF that(2)] by (simp add: same_off_def)
  qed
  then show ?thesis using h' d(2) by simp
qed

section \<open>Examples\<close>

text \<open>A download in three stripes that complete in reverse order.\<close>

theorem striped_download_exact_witness:
  "download_with 4 rev ''k'' None (snd (mem_put 1 ''k'' ''abcdefghij'' Create mem_new)) = Inr ''abcdefghij''"
proof -
  have "mem_view (snd (mem_put 1 ''k'' ''abcdefghij'' Create mem_new)) ''k'' = Some (''1'', ''abcdefghij'')" by code_simp
  from striped_download_exact [OF this, of 4 rev None] show ?thesis by simp
qed

text \<open>A manifest with two packs in the bucket, one of them with a reverse index; a third one is superseded.\<close>

definition a_pack :: "string \<Rightarrow> pack_ref" where
  "a_pack c = \<lparr>checksum = c, pack_size = 0, idx_size = 0, has_rev = (c = ''b''), has_bitmap = False, object_count = 1, pack_seq = 1, tier = 0,
     has_commit_graph = False, pack_kind = Objects, derived_from = []\<rparr>"

definition two_packs :: manifest where "two_packs = empty_manifest\<lparr>packs := [a_pack ''a'', a_pack ''b'']\<rparr>"

definition packs_bucket :: bucket where
  "packs_bucket = run_ops (map (\<lambda>k. PutOp 0 k PackObj Create) [pack_key ''a'', idx_key ''a'', pack_key ''b'', idx_key ''b'', rev_key ''b'']) mem_new"

definition superseded_handle :: handle where
  "superseded_handle = set_pending [''c''] (new_handle two_packs ''1'' default_state init_dir)"

lemma two_packs_stored: "\<forall>p \<in> set (packs two_packs). pack_stored (\<lambda>_. None) packs_bucket p \<and> Some (checksum p) = Some (checksum p)"
proof -
  have "list_all (pack_stored (\<lambda>_. None) packs_bucket) (packs two_packs)" by code_simp
  then show ?thesis by (simp add: list_all_iff)
qed

theorem reconcile_keeps_witness:
  "(''a'', ''pack'') \<in> set (snd (snd (reconcile_packs Some (\<lambda>_. Some transient) False packs_bucket two_packs superseded_handle [(''a'', ''pack''), (''c'', ''pack'')])))"
proof -
  have "live two_packs = {''a'', ''b''}" by (auto simp: two_packs_def a_pack_def)
  then show ?thesis
    using reconcile_keeps [of Some superseded_handle "''a''" "''pack''" "[(''a'', ''pack''), (''c'', ''pack'')]" two_packs False] by (simp add: names_ok_def)
qed

theorem reconcile_complete_witness:
  "\<exists>files'. fst (reconcile_packs Some (\<lambda>_. None) False packs_bucket two_packs superseded_handle [(''c'', ''pack''), (''c'', ''idx'')]) = Inr () \<and>
    snd (snd (reconcile_packs Some (\<lambda>_. None) False packs_bucket two_packs superseded_handle [(''c'', ''pack''), (''c'', ''idx'')])) = files' \<and>
    pack_complete files' (a_pack ''b'') \<and> (''c'', ''pack'') \<notin> set files'"
proof -
  have "''c'' \<notin> live two_packs" "a_pack ''b'' \<in> set (packs two_packs)" by (auto simp: two_packs_def a_pack_def)
  moreover have "pending_pack_removals (h_state superseded_handle) = [''c'']" by (simp add: superseded_handle_def set_pending_def)
  ultimately show ?thesis
    using reconcile_complete [OF two_packs_stored, of superseded_handle "[(''c'', ''pack''), (''c'', ''idx'')]" False] by (auto simp: names_ok_def)
qed

theorem torn_install_never_repaired_witness:
  "(''a'', ''idx'') \<notin> set (snd (snd (reconcile_packs Some (\<lambda>_. None) False packs_bucket two_packs (new_handle two_packs ''1'' default_state init_dir)
     (install_names (a_pack ''b'') @ [(''a'', ''pack'')]))))"
proof -
  have p: "a_pack ''a'' \<in> set (packs two_packs)" and c: "checksum (a_pack ''a'') = ''a''"
    and one: "take 1 (install_names (a_pack ''a'')) = [(''a'', ''pack'')]" 
    and rest: "install_names (a_pack ''b'') = concat (map install_names (filter (\<lambda>q. checksum q \<noteq> checksum (a_pack ''a'')) (packs two_packs)))"
    by (simp_all add: two_packs_def a_pack_def install_names_def)
  have e: "pending_pack_removals (h_state (new_handle two_packs ''1'' default_state init_dir)) = []" by (simp add: new_handle_def default_state_def)
  show ?thesis using torn_install_never_repaired [OF two_packs_stored e rest p, of False] unfolding one c by (auto split: prod.splits)
qed

text \<open>A copy with a branch that is in no entry of the log.\<close>

definition stray_handle :: handle where
  "stray_handle = opened_handle\<lparr>h_dir := (h_dir opened_handle)\<lparr>loose_files := [(''refs/heads/stray'', oid (CHR ''d'') @ nl)]\<rparr>\<rparr>"

theorem rematerialize_refs_witness:
  "\<exists>h' files'. rematerialize Some (\<lambda>_. None) (\<lambda>_. None) False example_bucket stray_handle [] = (Inr (), h', files') \<and>
     sp_refs (spec_of (read_refs (\<lambda>_. None) (h_dir h'))) ''refs/heads/stray'' = Some (oid (CHR ''d''))"
proof -
  have ok: "isl (fst (rematerialize Some (\<lambda>_. None) (\<lambda>_. None) False example_bucket stray_handle [])) = False" by code_simp
  have clean: "refs_clean (read_refs (\<lambda>_. None) (h_dir stray_handle))" by code_simp
  have stray: "sp_refs (spec_of (read_refs (\<lambda>_. None) (h_dir stray_handle))) ''refs/heads/stray'' = Some (oid (CHR ''d''))" by code_simp
  have log: "txns_clean (log_of example_bucket (log_segments example_manifest))"
    "\<not> writes_ref (concat (map updates (entry_txns (log_of example_bucket (log_segments example_manifest))))) ''refs/heads/stray''"
    unfolding example_segs(2) by code_simp+
  have "checkpoint_seq example_manifest = 0" "refs_there example_bucket example_manifest" "peel_hex (\<lambda>_. None)"
    by (simp_all add: refs_there_def checkpoint_seq_def example_manifest_def empty_manifest_def peel_hex_def)
  moreover obtain r h' files' where r: "rematerialize Some (\<lambda>_. None) (\<lambda>_. None) False example_bucket stray_handle [] = (r, h', files')"
    by (metis prod_cases3)
  moreover have "r = Inr ()" using ok unfolding r by (cases r) simp_all
  ultimately show ?thesis
    using rematerialize_refs [OF opened_example(1) example_segs(1) log(1) _ clean] log(2) stray by auto
qed

end
