(* ===== verification/Wal_Compact.thy ===== *)
theory Wal_Compact
  imports Wal_Packs
begin

text \<open>
  The publishers of packs (\<^verbatim>\<open>crates/gitcask-wal/src/publish.rs\<close>): compaction (\<open>publish_compact_impl\<close>), adding a
  pack that is already built (\<open>add_pack_impl\<close>) and advertising side files (\<open>annotate_pack_impl\<close>). Each
  is one sequence of requests, with other clients acting before every one of them; the list of turns
  bounds the requests, and \<open>None\<close> means that it ran out. A call has the handle to itself: the manifest
  and its version are read together.
\<close>

section \<open>Requests\<close>

text \<open>
  Every request to the bucket takes one turn: what other clients have done by then (any function of
  the bucket they find), the time, and what becomes of the request. The local side of a sync has its
  own circumstances: failing downloads and active readers.
\<close>

record req_turn =
  rt_others :: "bucket \<Rightarrow> bucket"
  rt_now :: nat
  rt_fault :: fault
  rt_fails :: "string \<Rightarrow> store_error option"
  rt_readers :: bool

text \<open>The parts of a running compaction: the handle, the packs on its disk, the bucket.\<close>

type_synonym local_state = "handle \<times> pack_files \<times> bucket"

definition turn_delete :: "req_turn \<Rightarrow> string \<Rightarrow> version \<Rightarrow> bucket \<Rightarrow> bucket" where
  "turn_delete t k v b = try_delete (rt_fault t) k v (rt_others t b)"

section \<open>Claiming a log slot\<close>

text \<open>
  \<open>claim_log_slot\<close> for entries \<open>enc\<close> that depend on their number, and the probing of a foreign
  segment; \<open>None\<close> when the turns end first, since other clients can free and take the slot again and
  again.
\<close>

fun claim_log_slot ::
    "(nat \<Rightarrow> log_entry list) \<Rightarrow> (log_entry list \<Rightarrow> nat) \<Rightarrow> req_turn list \<Rightarrow> nat \<Rightarrow> (string \<times> version) list \<Rightarrow> bucket \<Rightarrow> (claim_outcome \<times> req_turn list \<times> bucket) option"
  and probe_slot ::
    "(nat \<Rightarrow> log_entry list) \<Rightarrow> (log_entry list \<Rightarrow> nat) \<Rightarrow> req_turn list \<Rightarrow> nat \<Rightarrow> (string \<times> version) list \<Rightarrow> nat \<Rightarrow> bucket \<Rightarrow> (claim_outcome \<times> req_turn list \<times> bucket) option" where
  "claim_log_slot enc frame_len [] s burnt b = None"
| "claim_log_slot enc frame_len (t # ts) s burnt b =
     (let key = log_segment_key s
      in case put_with (put_fault_of (rt_fault t) key) (rt_now t) key (SegmentObj (enc s)) Create (rt_others t b) of
           (Inr om, b') \<Rightarrow> Some (Claimed \<lparr>slot_key = key, slot_version = meta_version om, slot_first = s, burned = burnt\<rparr> (frame_len (enc s)), ts, b')
         | (Inl (PreconditionFailed k v), b') \<Rightarrow> probe_slot enc frame_len ts s burnt 0 b'
         | (Inl e, b') \<Rightarrow> Some (ClaimFailed (WalStore e), ts, b'))"
| "probe_slot enc frame_len [] s burnt probes b = None"
| "probe_slot enc frame_len (t # ts) s burnt probes b =
     (let b1 = rt_others t b
      in case (if rt_fault t = Fail then Inl (WalStore transient) else read_manifest_fresh b1) of
           Inl e \<Rightarrow> Some (ClaimFailed e, ts, b1)
         | Inr fresh \<Rightarrow>
             if s \<le> (case fresh of None \<Rightarrow> 0 | Some m \<Rightarrow> head_seq m) then Some (Contended, ts, b1)
             else (case ts of
                     [] \<Rightarrow> None
                   | t' # ts' \<Rightarrow>
                       (let b2 = rt_others t' b1; key = log_segment_key s
                        in if rt_fault t' = Fail then Some (ClaimFailed (WalStore transient), ts', b2)
                           else (case mem_head key b2 of
                                   None \<Rightarrow> claim_log_slot enc frame_len ts' s burnt b2
                                 | Some om \<Rightarrow>
                                     if probes + 1 < ORPHAN_GRACE_PROBES then probe_slot enc frame_len ts' s burnt (probes + 1) b2
                                     else if MAX_BURN \<le> length (burnt @ [(key, meta_version om)])
                                          then Some (ClaimFailed (Corrupt ''consecutive orphaned log segments''), ts', b2)
                                          else claim_log_slot enc frame_len ts' (s + 1) (burnt @ [(key, meta_version om)]) b2))))"

section \<open>Compaction\<close>

record compact_job =
  cj_from_hex :: "string \<Rightarrow> string option"
  cj_peel :: "string \<Rightarrow> string option"
  cj_frame_len :: "log_entry list \<Rightarrow> nat"
  cj_instance :: string
  cj_max_retries :: nat
  cj_pack :: pack_ref
  cj_supersedes :: "string list"

definition compact_entry :: "compact_job \<Rightarrow> nat \<Rightarrow> nat \<Rightarrow> log_entry" where
  "compact_entry job now s =
     \<lparr>seq = s, kind = Compact, pack = Some ((cj_pack job)\<lparr>pack_seq := s\<rparr>), txn = None, supersedes = cj_supersedes job,
      entry_checkpoint = None, created_at = Some now, entry_writer = cj_instance job, meta = []\<rparr>"

definition compact_manifest :: "compact_job \<Rightarrow> nat \<Rightarrow> log_slot \<Rightarrow> nat \<Rightarrow> manifest \<Rightarrow> manifest" where
  "compact_manifest job now slot flen m =
     m\<lparr>head_seq := slot_first slot,
       packs := sort_key pack_seq
         (filter (\<lambda>p. checksum p \<notin> set (cj_supersedes job) \<and> checksum p \<noteq> checksum (cj_pack job)) (packs m) @ [(cj_pack job)\<lparr>pack_seq := slot_first slot\<rparr>]),
       log_segments := sort_key first_seq
         (log_segments m @ [\<lparr>seg_key = slot_key slot, first_seq = slot_first slot, last_seq = slot_first slot, seg_size = flen, sealed = True\<rparr>]),
       updated_at := Some now, manifest_writer := cj_instance job, revision := revision m + 1\<rparr>"

text \<open>Every upload runs; the first error is reported.\<close>

fun upload_all :: "req_turn list \<Rightarrow> string list \<Rightarrow> bucket \<Rightarrow> ((wal_error, unit) result \<times> req_turn list \<times> bucket) option" where
  "upload_all ts [] b = Some (Inr (), ts, b)"
| "upload_all [] (k # ks) b = None"
| "upload_all (t # ts) (k # ks) b =
     (case put_immutable_create (rt_fault t) (rt_now t) k (rt_others t b) of
        (r, b1) \<Rightarrow>
          (case upload_all ts ks b1 of
             None \<Rightarrow> None
           | Some (r', ts', b2) \<Rightarrow> Some (case r of Inl e \<Rightarrow> Inl e | Inr _ \<Rightarrow> r', ts', b2)))"

definition compact_keys :: "pack_ref \<Rightarrow> pack_files \<Rightarrow> string list" where
  "compact_keys p files =
     [pack_key (checksum p), idx_key (checksum p)] @
     map (snd \<circ> snd) (filter (\<lambda>(flag, ext, key). flag \<and> (checksum p, ext) \<in> set files) (side_files p))"

fun sweep :: "req_turn list \<Rightarrow> (string \<times> version) list \<Rightarrow> bucket \<Rightarrow> (req_turn list \<times> bucket) option" where
  "sweep ts [] b = Some (ts, b)"
| "sweep [] (kv # kvs) b = None"
| "sweep (t # ts) ((k, v) # kvs) b = sweep ts kvs (turn_delete t k v b)"

text \<open>What the swap of the manifest came to: done, a lost race, or an error.\<close>

datatype swap_end = Swapped manifest version | Raced | SwapFailed wal_error

definition swap_landed :: "log_slot \<Rightarrow> store_error \<Rightarrow> req_turn list \<Rightarrow> bucket \<Rightarrow> (swap_end \<times> req_turn list \<times> bucket) option" where
  "swap_landed slot e ts b =
     (case ts of
        [] \<Rightarrow> None
      | t # ts1 \<Rightarrow>
          (let b1 = rt_others t b
           in case (if rt_fault t = Fail then Inl (WalStore transient) else read_manifest_fresh b1) of
                Inr (Some fresh) \<Rightarrow>
                  if lists_slot slot fresh then
                    (case ts1 of
                       [] \<Rightarrow> None
                     | t' # ts2 \<Rightarrow>
                         (let b2 = rt_others t' b1
                          in if rt_fault t' = Fail then Some (SwapFailed (WalStore transient), ts2, b2)
                             else case mem_head MANIFEST b2 of
                                    None \<Rightarrow> Some (SwapFailed (Corrupt ''manifest vanished after commit''), ts2, b2)
                                  | Some om \<Rightarrow> Some (Swapped fresh (meta_version om), ts2, b2)))
                  else Some (SwapFailed (WalStore e), ts1, b1)
              | _ \<Rightarrow> Some (SwapFailed (WalStore e), ts1, b1)))"

definition compact_swap :: "compact_job \<Rightarrow> log_slot \<Rightarrow> nat \<Rightarrow> handle \<Rightarrow> req_turn list \<Rightarrow> bucket \<Rightarrow> (swap_end \<times> req_turn list \<times> bucket) option" where
  "compact_swap job slot flen h ts b =
     (case ts of
        [] \<Rightarrow> None
      | t # ts1 \<Rightarrow>
          (let updated = compact_manifest job (rt_now t) slot flen (h_manifest h)
           in case put_with (put_fault_of (rt_fault t) MANIFEST) (rt_now t) MANIFEST (ManifestObj updated)
                     (case h_version h of Some v \<Rightarrow> Update v | None \<Rightarrow> Create) (rt_others t b) of
                (Inr om, b1) \<Rightarrow> Some (Swapped updated (meta_version om), ts1, b1)
              | (Inl (PreconditionFailed k v), b1) \<Rightarrow> Some (Raced, ts1, b1)
              | (Inl e, b1) \<Rightarrow> swap_landed slot e ts1 b1))"

definition compact_installed :: "compact_job \<Rightarrow> nat \<Rightarrow> manifest \<Rightarrow> version \<Rightarrow> nat \<Rightarrow> handle \<Rightarrow> handle" where
  "compact_installed job now m v s h =
     (let st = (h_state h)\<lparr>st_manifest_version := Some v, applied_seq := s,
            pending_pack_removals := foldl add_removal (pending_pack_removals (h_state h)) (cj_supersedes job)\<rparr>;
          st' = st\<lparr>st_revision := revision m\<rparr>
      in h\<lparr>h_manifest := m, h_version := Some v, h_last_entry_time := note_entry_time (h_last_entry_time h) (Some now),
           h_state := (if packs_ready st then st'\<lparr>packs_revision := revision m\<rparr> else st')\<rparr>)"

text \<open>One turn of the loop: sync after the first, claim, swap, install and clean up.\<close>

datatype attempt_end = Finished "(wal_error, nat) result" | Again

definition compact_commit :: "compact_job \<Rightarrow> req_turn list \<Rightarrow> local_state \<Rightarrow> (attempt_end \<times> req_turn list \<times> local_state) option" where
  "compact_commit job ts = (\<lambda>(h, files, b).
     case ts of
       [] \<Rightarrow> None
     | t # _ \<Rightarrow>
         (case claim_log_slot (\<lambda>s. [compact_entry job (rt_now t) s]) (cj_frame_len job) ts (head_seq (h_manifest h) + 1) [] b of
            None \<Rightarrow> None
          | Some (ClaimFailed e, ts1, b1) \<Rightarrow> Some (Finished (Inl e), ts1, h, files, b1)
          | Some (Contended, ts1, b1) \<Rightarrow> Some (Again, ts1, h, files, b1)
          | Some (Claimed slot flen, ts1, b1) \<Rightarrow>
              (case compact_swap job slot flen h ts1 b1 of
                 None \<Rightarrow> None
               | Some (SwapFailed e, ts2, b2) \<Rightarrow> Some (Finished (Inl e), ts2, h, files, b2)
               | Some (Raced, ts2, b2) \<Rightarrow>
                   (case sweep ts2 [(slot_key slot, slot_version slot)] b2 of
                      None \<Rightarrow> None
                    | Some (ts3, b3) \<Rightarrow> Some (Again, ts3, h, files, b3))
               | Some (Swapped m v, ts2, b2) \<Rightarrow>
                   (case sweep ts2 (burned slot) b2 of
                      None \<Rightarrow> None
                    | Some (ts3, b3) \<Rightarrow>
                        Some (Finished (Inr (slot_first slot)), ts3, compact_installed job (rt_now t) m v (slot_first slot) h, files, b3)))))"

definition compact_attempt :: "compact_job \<Rightarrow> nat \<Rightarrow> req_turn list \<Rightarrow> local_state \<Rightarrow> (attempt_end \<times> req_turn list \<times> local_state) option" where
  "compact_attempt job attempts ts st =
     (if attempts = 0 then compact_commit job ts st
      else case (ts, st) of
             ([], _) \<Rightarrow> None
           | (t # ts1, h, files, b) \<Rightarrow>
               (let b1 = rt_others t b
                in if rt_fault t = Fail then Some (Finished (Inl (WalCoord (CoordStore transient))), ts1, h, files, b1)
                   else case sync_impl_level (cj_from_hex job) (cj_peel job) (rt_fails t) (rt_readers t) (rt_fault t = TtlActive) b1 Full h files of
                          (Inl e, h1, files1) \<Rightarrow> Some (Finished (Inl e), ts1, h1, files1, b1)
                        | (Inr _, h1, files1) \<Rightarrow> compact_commit job ts1 (h1, files1, b1)))"

function compact_loop :: "compact_job \<Rightarrow> nat \<Rightarrow> req_turn list \<Rightarrow> local_state \<Rightarrow> ((wal_error, nat) result \<times> local_state) option" where
  "compact_loop job attempts ts st =
     (case compact_attempt job attempts ts st of
        None \<Rightarrow> None
      | Some (Finished r, ts', st') \<Rightarrow> Some (r, st')
      | Some (Again, ts', st') \<Rightarrow>
          if attempts + 1 \<ge> cj_max_retries job then Some (Inl (Retry (attempts + 1)), st')
          else compact_loop job (attempts + 1) ts' st')"
  by pat_completeness auto
termination by (relation "measure (\<lambda>(job, attempts, ts, st). cj_max_retries job - attempts)") auto

declare compact_loop.simps [simp del]

definition publish_compact :: "compact_job \<Rightarrow> req_turn list \<Rightarrow> local_state \<Rightarrow> ((wal_error, nat) result \<times> local_state) option" where
  "publish_compact job ts = (\<lambda>(h, files, b).
     case upload_all ts (compact_keys (cj_pack job) files) b of
       None \<Rightarrow> None
     | Some (Inl e, ts1, b1) \<Rightarrow> Some (Inl e, h, files, b1)
     | Some (Inr _, ts1, b1) \<Rightarrow> compact_loop job 0 ts1 (h, files, b1))"

section \<open>Publishing a pack that is already built\<close>

record pack_info =
  pi_checksum :: string
  pi_pack_size :: nat
  pi_idx_size :: nat
  pi_object_count :: nat
  pi_has_rev :: bool
  pi_has_bitmap :: bool
  pi_has_commit_graph :: bool

definition pack_ref_from_info :: "pack_info \<Rightarrow> nat \<Rightarrow> nat \<Rightarrow> pack_ref" where
  "pack_ref_from_info p s level =
     \<lparr>checksum = pi_checksum p, pack_size = pi_pack_size p, idx_size = pi_idx_size p, has_rev = pi_has_rev p, has_bitmap = pi_has_bitmap p,
      object_count = pi_object_count p, pack_seq = s, tier = level, has_commit_graph = pi_has_commit_graph p, pack_kind = Objects, derived_from = []\<rparr>"

text \<open>The checksum in \<open>pack-<checksum>.pack\<close>.\<close>

definition pack_name_checksum :: "string \<Rightarrow> string option" where
  "pack_name_checksum name =
     (if starts_with ''pack-'' name \<and> ends_with ''.pack'' (drop 5 name) then Some (take (length name - 10) (drop 5 name)) else None)"

text \<open>\<open>stat\<close> gives the sizes of the files and the number of objects the index states.\<close>

definition local_info :: "(string \<Rightarrow> nat \<times> nat \<times> nat) \<Rightarrow> string \<Rightarrow> pack_files \<Rightarrow> pack_info" where
  "local_info stat c files =
     (case stat c of (n, i, k) \<Rightarrow>
        \<lparr>pi_checksum = c, pi_pack_size = n, pi_idx_size = i, pi_object_count = k, pi_has_rev = (c, ''rev'') \<in> set files,
         pi_has_bitmap = (c, ''bitmap'') \<in> set files, pi_has_commit_graph = (c, ''commit-graph'') \<in> set files\<rparr>)"

definition add_file :: "pack_files \<Rightarrow> string \<times> string \<Rightarrow> pack_files" where
  "add_file files f = (if f \<in> set files then files else files @ [f])"

definition add_pack ::
  "compact_job \<Rightarrow> (string \<Rightarrow> nat \<times> nat \<times> nat) \<Rightarrow> nat \<Rightarrow> string \<Rightarrow> req_turn list \<Rightarrow> local_state \<Rightarrow> ((wal_error, nat) result \<times> local_state) option" where
  "add_pack job stat level name ts st =
     (case pack_name_checksum name of
        None \<Rightarrow> Some (Inl (Corrupt ''pack file must be named pack-<checksum>.pack''), st)
      | Some hex \<Rightarrow>
          (case cj_from_hex job hex of
             None \<Rightarrow> Some (Inl (Corrupt ''bad pack name''), st)
           | Some c \<Rightarrow>
               (case st of (h, files, b) \<Rightarrow>
                  let files1 = add_file (add_file files (c, ''pack'')) (c, ''idx'')
                  in if c \<in> set (local_packs (cj_from_hex job) files1)
                     then publish_compact (job\<lparr>cj_pack := pack_ref_from_info (local_info stat c files1) 0 level, cj_supersedes := []\<rparr>) ts (h, files1, b)
                     else Some (Inl (Corrupt ''pack not visible after install''), h, files1, b))))"

section \<open>Annotating a pack\<close>

text \<open>The side files to advertise: reverse index, bitmap, commit graph.\<close>

record side_flags =
  sf_rev :: bool
  sf_bitmap :: bool
  sf_commit_graph :: bool

definition advertise :: "side_flags \<Rightarrow> pack_ref \<Rightarrow> pack_ref" where
  "advertise fl p =
     p\<lparr>has_rev := has_rev p \<or> sf_rev fl, has_bitmap := has_bitmap p \<or> sf_bitmap fl, has_commit_graph := has_commit_graph p \<or> sf_commit_graph fl\<rparr>"

fun annotate_first :: "string \<Rightarrow> side_flags \<Rightarrow> pack_ref list \<Rightarrow> (pack_ref \<times> pack_ref list) option" where
  "annotate_first c fl [] = None"
| "annotate_first c fl (p # ps) =
     (if checksum p = c then Some (advertise fl p, advertise fl p # ps)
      else case annotate_first c fl ps of None \<Rightarrow> None | Some (q, qs) \<Rightarrow> Some (q, p # qs))"

definition annotated :: "nat \<Rightarrow> string \<Rightarrow> string \<Rightarrow> side_flags \<Rightarrow> manifest \<Rightarrow> (pack_ref \<times> manifest) option" where
  "annotated now inst c fl m =
     (case annotate_first c fl (packs m) of
        None \<Rightarrow> None
      | Some (p, ps) \<Rightarrow> Some (p, m\<lparr>packs := ps, updated_at := Some now, manifest_writer := inst, revision := revision m + 1\<rparr>))"

definition annotate_keys :: "string \<Rightarrow> side_flags \<Rightarrow> string list" where
  "annotate_keys c fl =
     (if sf_rev fl then [rev_key c] else []) @ (if sf_bitmap fl then [bitmap_key c] else []) @ (if sf_commit_graph fl then [commit_graph_key c] else [])"

definition annotate_installed :: "manifest \<Rightarrow> version \<Rightarrow> handle \<Rightarrow> handle" where
  "annotate_installed m v h =
     h\<lparr>h_manifest := m, h_version := Some v, h_state := (h_state h)\<lparr>st_manifest_version := Some v, st_revision := revision m\<rparr>\<rparr>"

text \<open>A sync at the refs level, as one turn.\<close>

definition turn_sync :: "(string \<Rightarrow> string option) \<Rightarrow> req_turn \<Rightarrow> handle \<Rightarrow> bucket \<Rightarrow> (wal_error, unit) result \<times> handle \<times> bucket" where
  "turn_sync peel t h b =
     (let b1 = rt_others t b
      in if rt_fault t = TtlActive then (Inr (), h, b1)
         else if rt_fault t = Fail then (Inl (WalCoord (CoordStore transient)), h, b1)
         else case sync_locked_inner peel b1 h of (r, h1) \<Rightarrow> (r, h1, b1))"

function annotate_loop ::
  "(string \<Rightarrow> string option) \<Rightarrow> nat \<Rightarrow> string \<Rightarrow> string \<Rightarrow> side_flags \<Rightarrow> nat \<Rightarrow> req_turn list \<Rightarrow> handle \<Rightarrow> bucket \<Rightarrow> ((wal_error, pack_ref) result \<times> handle \<times> bucket) option" where
  "annotate_loop peel max_retries inst c fl attempts ts h b =
     (case ts of
        [] \<Rightarrow> None
      | t # ts1 \<Rightarrow>
          (case annotated (rt_now t) inst c fl (h_manifest h) of
             None \<Rightarrow> Some (Inl (Corrupt ''pack left the live set''), h, b)
           | Some (p, m) \<Rightarrow>
               (case put_with (put_fault_of (rt_fault t) MANIFEST) (rt_now t) MANIFEST (ManifestObj m)
                       (case h_version h of Some v \<Rightarrow> Update v | None \<Rightarrow> Create) (rt_others t b) of
                  (Inr om, b1) \<Rightarrow> Some (Inr p, annotate_installed m (meta_version om) h, b1)
                | (Inl (PreconditionFailed k v), b1) \<Rightarrow>
                    if attempts + 1 \<ge> max_retries then Some (Inl (Retry (attempts + 1)), h, b1)
                    else (case ts1 of
                            [] \<Rightarrow> None
                          | t' # ts2 \<Rightarrow>
                              (case turn_sync peel t' h b1 of
                                 (Inl e, h1, b2) \<Rightarrow> Some (Inl e, h1, b2)
                               | (Inr _, h1, b2) \<Rightarrow> annotate_loop peel max_retries inst c fl (attempts + 1) ts2 h1 b2))
                | (Inl e, b1) \<Rightarrow> Some (Inl (WalStore e), h, b1))))"
  by pat_completeness auto
termination by (relation "measure (\<lambda>(peel, max_retries, inst, c, fl, attempts, ts, h, b). max_retries - attempts)") auto

declare annotate_loop.simps [simp del]

definition annotate_pack ::
  "(string \<Rightarrow> string option) \<Rightarrow> nat \<Rightarrow> string \<Rightarrow> string \<Rightarrow> side_flags \<Rightarrow> req_turn list \<Rightarrow> handle \<Rightarrow> bucket \<Rightarrow> ((wal_error, pack_ref) result \<times> handle \<times> bucket) option" where
  "annotate_pack peel max_retries inst c fl ts h b =
     (case ts of
        [] \<Rightarrow> None
      | t # ts1 \<Rightarrow>
          (case turn_sync peel t h b of
             (Inl e, h1, b1) \<Rightarrow> Some (Inl e, h1, b1)
           | (Inr _, h1, b1) \<Rightarrow>
               if c \<notin> live (h_manifest h1) then Some (Inl (Corrupt ''pack is not in the live set''), h1, b1)
               else (case upload_all ts1 (annotate_keys c fl) b1 of
                       None \<Rightarrow> None
                     | Some (Inl e, ts2, b2) \<Rightarrow> Some (Inl e, h1, b2)
                     | Some (Inr _, ts2, b2) \<Rightarrow> annotate_loop peel max_retries inst c fl 0 ts2 h1 b2)))"

section \<open>Orderly company\<close>

text \<open>
  What is asked of the other clients: the store's laws (versions are not issued twice), and that the
  manifest stays or is replaced by one of a higher revision. \<open>n\<close> bounds the objects they write in a turn.
\<close>

definition advances :: "bucket \<Rightarrow> bucket \<Rightarrow> bool" where
  "advances b b' \<longleftrightarrow> store_later b b' \<and> (\<forall>v m. mem_view b MANIFEST = Some (v, ManifestObj m) \<longrightarrow>
     (\<exists>v' m'. mem_view b' MANIFEST = Some (v', ManifestObj m') \<and> (v' = v \<and> m' = m \<or> v' \<notin> mem_issued b \<and> revision m < revision m')))"

definition polite :: "nat \<Rightarrow> (bucket \<Rightarrow> bucket) \<Rightarrow> bool" where
  "polite n f \<longleftrightarrow> (\<forall>b j. mem_ok b \<longrightarrow> room_for (n + j) b \<longrightarrow> advances b (f b) \<and> room_for j (f b))"

text \<open>The turns ahead, from a bucket: requests may be refused without reason, but none is lost.\<close>

definition orderly :: "nat \<Rightarrow> req_turn list \<Rightarrow> bucket \<Rightarrow> bool" where
  "orderly n ts b \<longleftrightarrow> mem_ok b \<and> room_for (Suc n * length ts) b \<and> (\<forall>t \<in> set ts. polite n (rt_others t) \<and> rt_fault t \<noteq> Fail \<and> rt_fault t \<noteq> Lost)"

text \<open>A request that does not touch the manifest.\<close>

definition minor :: "bucket \<Rightarrow> bucket \<Rightarrow> bool" where
  "minor b b' \<longleftrightarrow> b' = b \<or> (\<exists>now k x md. k \<noteq> MANIFEST \<and> b' = snd (mem_put now k x md b)) \<or> (\<exists>k v. k \<noteq> MANIFEST \<and> b' = snd (mem_delete k v b))"

lemma advances_refl: "mem_ok b \<Longrightarrow> advances b b"
  by (simp add: advances_def store_later_refl)

lemma advances_trans:
  assumes "advances b b'" "advances b' b''"
  shows "advances b b''"
proof -
  have l: "store_later b b'" "store_later b' b''" using assms by (simp_all add: advances_def)
  have later: "store_later b b''" "mem_issued b \<subseteq> mem_issued b'" using store_later_trans [OF l] l(1) by (simp_all add: store_later_def)
  moreover have "\<exists>v'' m''. mem_view b'' MANIFEST = Some (v'', ManifestObj m'') \<and> (v'' = v \<and> m'' = m \<or> v'' \<notin> mem_issued b \<and> revision m < revision m'')"
    if m: "mem_view b MANIFEST = Some (v, ManifestObj m)" for v m
  proof -
    obtain v' m' where 1: "mem_view b' MANIFEST = Some (v', ManifestObj m')" "v' = v \<and> m' = m \<or> v' \<notin> mem_issued b \<and> revision m < revision m'"
      using assms(1) m unfolding advances_def by blast
    obtain v'' m'' where 2: "mem_view b'' MANIFEST = Some (v'', ManifestObj m'')" "v'' = v' \<and> m'' = m' \<or> v'' \<notin> mem_issued b' \<and> revision m' < revision m''"
      using assms(2) 1(1) unfolding advances_def by blast
    show ?thesis using 1(2) 2 later(2) by auto
  qed
  ultimately show ?thesis by (simp add: advances_def)
qed

lemma advances_ok: "advances b b' \<Longrightarrow> mem_ok b'"
  by (simp add: advances_def store_later_def)

lemma minor_advances:
  assumes "mem_ok b" "room_for (Suc j) b" "minor b b'"
  shows "advances b b' \<and> room_for j b' \<and> mem_view b' MANIFEST = mem_view b MANIFEST"
proof -
  have room: "mem_room b" "room_for j b" using room_for_room [OF assms(2)] room_for_mono [OF assms(2)] by simp_all
  have put: "mem_view (snd (mem_put now k x md b)) MANIFEST = mem_view b MANIFEST" if "k \<noteq> MANIFEST" for now k x md
    using mem.put_other [OF assms(1) room(1)] that by metis
  have del: "mem_view (snd (mem_delete k v b)) MANIFEST = mem_view b MANIFEST" if "k \<noteq> MANIFEST" for k v using that by (simp add: mem_delete_view)
  from assms(3) consider "b' = b" | now k x md where "k \<noteq> MANIFEST" "b' = snd (mem_put now k x md b)" | k v where "k \<noteq> MANIFEST" "b' = snd (mem_delete k v b)"
    unfolding minor_def by blast
  then show ?thesis
  proof cases
    case 1
    then show ?thesis using assms(1) room advances_refl by simp
  next
    case 2
    then show ?thesis using put_later [OF assms(1) room(1)] put [OF 2(1)] mem_put_room [OF assms(2)] by (simp add: advances_def)
  next
    case 3
    have "room_for j (snd (mem_delete k v b))" using room(2) by (simp add: room_for_def)
    then show ?thesis using 3 delete_later [OF assms(1)] del [OF 3(1)] by (simp add: advances_def)
  qed
qed

lemma orderly_others:
  assumes "orderly n (t # ts) b"
  shows "advances b (rt_others t b)" "mem_ok (rt_others t b)" "room_for (Suc (Suc n * length ts)) (rt_others t b)"
proof -
  have "mem_ok b" "room_for (n + Suc (Suc n * length ts)) b" "polite n (rt_others t)" using assms by (simp_all add: orderly_def)
  then show "advances b (rt_others t b)" "room_for (Suc (Suc n * length ts)) (rt_others t b)" unfolding polite_def by blast+
  then show "mem_ok (rt_others t b)" by (simp add: advances_ok)
qed

lemma orderly_turn:
  assumes "orderly n (t # ts) b" "minor (rt_others t b) b'"
  shows "advances b b' \<and> orderly n ts b'"
proof -
  note o = orderly_others [OF assms(1)]
  have m: "advances (rt_others t b) b'" "room_for (Suc n * length ts) b'" using minor_advances [OF o(2,3) assms(2)] by simp_all
  then show ?thesis using assms(1) advances_trans [OF o(1)] advances_ok [OF m(1)] by (simp add: orderly_def)
qed

lemma minor_refl [simp]: "minor b b"
  by (simp add: minor_def)

lemma minor_put: "put_with flt now k x md b = (r, b') \<Longrightarrow> k \<noteq> MANIFEST \<Longrightarrow> minor b b'"
proof -
  assume p: "put_with flt now k x md b = (r, b')" and k: "k \<noteq> MANIFEST"
  then have "b' = b \<or> b' = snd (mem_put now k x md b)" by (cases flt) (auto simp: put_with_def)
  then show ?thesis using k unfolding minor_def by blast
qed

lemma minor_immutable:
  assumes "put_immutable_create flt now k b = (r, b')" "k \<noteq> MANIFEST"
  shows "minor b b'"
proof -
  obtain r1 b1 where p: "put_with (put_fault_of flt k) now k PackObj Create b = (r1, b1)" by force
  have "b1 = b" if "r1 = Inl (PreconditionFailed k' v)" for k' v
    using p that by (cases flt) (auto simp: put_with_def mem_put_eq split: if_splits)
  then have "b' = b1 \<or> b1 = b \<and> b' = snd (mem_put now k PackObj Overwrite b)"
    using assms(1) p by (auto simp: put_immutable_create_def split: sum.splits store_error.splits option.splits prod.splits)
  then show ?thesis using minor_put [OF p assms(2)] assms(2) unfolding minor_def by blast
qed

lemma minor_delete: "k \<noteq> MANIFEST \<Longrightarrow> minor (rt_others t b) (turn_delete t k v b)"
  by (auto simp: turn_delete_def try_delete_def minor_def)

text \<open>
  How the bucket comes from one state to another over some turns: in each, the others act and then
  the call makes one request that does not touch the manifest.
\<close>

inductive ran_over :: "req_turn list \<Rightarrow> bucket \<Rightarrow> bucket \<Rightarrow> bool" where
  stay: "ran_over [] b b"
| turn: "minor (rt_others t b) b1 \<Longrightarrow> ran_over ts b1 b2 \<Longrightarrow> ran_over (t # ts) b b2"

inductive_cases between_NilE [elim!]: "ran_over [] b b'"
inductive_cases between_ConsE [elim!]: "ran_over (t # ts) b b'"

lemma between_append: "ran_over xs b b1 \<Longrightarrow> ran_over ys b1 b2 \<Longrightarrow> ran_over (xs @ ys) b b2"
  by (induction xs b b1 rule: ran_over.induct) (auto intro: ran_over.intros)

lemma between_one: "minor (rt_others t b) b' \<Longrightarrow> ran_over [t] b b'"
  by (auto intro: ran_over.intros)

lemma between_orderly: "ran_over used b b' \<Longrightarrow> orderly n (used @ ts) b \<Longrightarrow> advances b b' \<and> orderly n ts b'"
proof (induction used b b' rule: ran_over.induct)
  case (stay b)
  then show ?case using advances_refl by (simp add: orderly_def)
next
  case (turn t b b1 us b2)
  then have "advances b b1 \<and> orderly n (us @ ts) b1" using orderly_turn by simp
  then show ?case using turn advances_trans by blast
qed

lemma upload_between:
  "upload_all ts ks b = Some (r, ts', b') \<Longrightarrow> MANIFEST \<notin> set ks \<Longrightarrow> \<exists>used. ts = used @ ts' \<and> ran_over used b b'"
proof (induction ts ks b arbitrary: r rule: upload_all.induct)
  case (1 ts b)
  then show ?case using ran_over.stay by auto
next
  case (3 t ts k ks b)
  obtain r1 b1 where p: "put_immutable_create (rt_fault t) (rt_now t) k (rt_others t b) = (r1, b1)" by force
  then have "minor (rt_others t b) b1" using minor_immutable "3.prems"(2) by auto
  moreover obtain r2 where "upload_all ts ks b1 = Some (r2, ts', b')" using "3.prems"(1) p by (auto split: option.splits prod.splits)
  then obtain used where "ts = used @ ts'" "ran_over used b1 b'" using "3.IH" [OF p [symmetric]] "3.prems"(2) by auto
  ultimately show ?case by (intro exI [of _ "t # used"]) (auto intro: ran_over.turn)
qed simp

lemma upload_orderly:
  "upload_all ts ks b = Some (r, ts', b') \<Longrightarrow> orderly n ts b \<Longrightarrow> MANIFEST \<notin> set ks \<Longrightarrow> advances b b' \<and> orderly n ts' b'"
  using upload_between between_orderly by blast

lemma sweep_between:
  "sweep ts kvs b = Some (ts', b') \<Longrightarrow> \<forall>(k, v) \<in> set kvs. k \<noteq> MANIFEST \<Longrightarrow> \<exists>used. ts = used @ ts' \<and> ran_over used b b'"
proof (induction ts kvs b rule: sweep.induct)
  case (1 ts b)
  then show ?case using ran_over.stay by auto
next
  case (3 t ts k v kvs b)
  then obtain used where "ts = used @ ts'" "ran_over used (turn_delete t k v b) b'" by auto
  moreover have "minor (rt_others t b) (turn_delete t k v b)" using minor_delete "3.prems"(2) by simp
  ultimately show ?case by (intro exI [of _ "t # used"]) (auto intro: ran_over.turn)
qed simp

section \<open>A handle that knows where it stands\<close>

text \<open>
  The handle's version stands for its manifest: when the version is current, so is the manifest, and
  otherwise the current one has a higher revision.
\<close>

definition paired :: "bucket \<Rightarrow> handle \<Rightarrow> bool" where
  "paired b h \<longleftrightarrow> (\<exists>v vc mc. h_version h = Some v \<and> v \<in> mem_issued b \<and> mem_view b MANIFEST = Some (vc, ManifestObj mc) \<and>
     (v = vc \<and> h_manifest h = mc \<or> v \<noteq> vc \<and> revision (h_manifest h) < revision mc))"

lemma paired_advances:
  assumes "paired b h" "advances b b'"
  shows "paired b' h"
proof -
  obtain v vc mc where p: "h_version h = Some v" "v \<in> mem_issued b" "mem_view b MANIFEST = Some (vc, ManifestObj mc)"
    "v = vc \<and> h_manifest h = mc \<or> v \<noteq> vc \<and> revision (h_manifest h) < revision mc" using assms(1) unfolding paired_def by blast
  obtain v' m' where "mem_view b' MANIFEST = Some (v', ManifestObj m')" "v' = vc \<and> m' = mc \<or> v' \<notin> mem_issued b \<and> revision mc < revision m'"
    using assms(2) p(3) unfolding advances_def by blast
  moreover have "v \<in> mem_issued b'" using assms(2) p(2) by (auto simp: advances_def store_later_def)
  ultimately show ?thesis using p(1,2,4) unfolding paired_def by (metis less_trans)
qed

lemma paired_same: "paired b h \<Longrightarrow> h_version h' = h_version h \<Longrightarrow> h_manifest h' = h_manifest h \<Longrightarrow> paired b h'"
  by (simp add: paired_def)

lemma sync_paired:
  assumes "mem_ok b" "paired b h" "sync_locked_inner peel b h = (Inr (), h')"
  shows "paired b h'"
proof -
  obtain v vc mc where p: "h_version h = Some v" "v \<in> mem_issued b" "mem_view b MANIFEST = Some (vc, ManifestObj mc)"
    "v = vc \<and> h_manifest h = mc \<or> v \<noteq> vc \<and> revision (h_manifest h) < revision mc" using assms(2) unfolding paired_def by blast
  show ?thesis
  proof (cases "v = vc")
    case True
    then show ?thesis using sync_current [OF p(3), of h peel] p(1) assms(2,3) by simp
  next
    case False
    obtain om where om: "get_message dec_manifest MANIFEST b = Inr (Some (om, mc))" "meta_version om = vc"
      using p(3) by (auto simp: get_message_def get_bytes_def decode_message_def plain_get_def mem_get_def mem_view_def default_get_def split: option.splits)
    then have "freshness_check b (h_version h) = Inr (Some (vc, mc))"
      using p(1,3) False by (simp add: freshness_check_def get_message_if_changed_view)
    then obtain h1 where "h' = h1\<lparr>h_manifest := mc, h_version := Some vc\<rparr>"
      using assms(3) p(4) False by (auto simp: sync_locked_inner_def sync_apply_def split: prod.splits sum.splits)
    moreover have "vc \<in> mem_issued b" using mem_hist.view_issued [OF assms(1) p(3)] .
    ultimately show ?thesis using p(3) by (simp add: paired_def)
  qed
qed

lemma packs_phase_same:
  assumes "sync_packs_phase from_hex fails readers b level h files = (r, h', files')"
  shows "h_manifest h' = h_manifest h \<and> h_version h' = h_version h"
proof -
  have "h_manifest h1 = h_manifest h \<and> h_version h1 = h_version h" if "remove_phase from_hex readers m h fs = (q, h1, fs')" for m fs q h1 fs'
    using that by (auto simp: remove_phase_def set_pending_def split: sum.splits if_splits)
  then show ?thesis using assms by (fastforce simp: sync_packs_phase_def reconcile_packs_def Let_def split: if_splits prod.splits sum.splits)
qed

lemma sync_level_paired:
  assumes "mem_ok b" "paired b h" "sync_impl_level from_hex peel fails readers ttl b level h files = (Inr (), h', files')"
  shows "paired b h'"
proof -
  obtain r h1 where s: "(if ttl then (Inr (), h) else sync_locked_inner peel b h) = (r, h1)" by force
  then obtain h2 where h1: "(if ttl then (Inr (), h) else sync_locked_inner peel b h) = (Inr (), h1)"
    and h2: "h' = h1 \<or> sync_packs_phase from_hex fails readers b level h1 files = (Inr (), h', files')"
    using assms(3) by (auto simp: sync_impl_level_def split: sum.splits if_splits)
  have "paired b h1" using h1 assms(2) sync_paired [OF assms(1,2), of peel h1] by (auto split: if_splits)
  then show ?thesis using h2 packs_phase_same paired_same by metis
qed

section \<open>Compaction leaves the refs alone\<close>

lemma compact_segments:
  assumes "segs_ok b (log_segments m)" "\<forall>t \<in> set (log_segments m). last_seq t \<le> head_seq m" "head_seq m < slot_first slot"
  shows "log_segments (compact_manifest job now' slot flen m) = log_segments m @
    [\<lparr>seg_key = slot_key slot, first_seq = slot_first slot, last_seq = slot_first slot, seg_size = flen, sealed = True\<rparr>]"
proof -
  have "first_seq t \<le> slot_first slot" if "t \<in> set (log_segments m)" for t
    using that assms seg_ok_entries(3) [of b t] by (fastforce simp: segs_ok_def list_all_iff)
  then show ?thesis using segs_sorted_first [OF assms(1)] by (simp add: compact_manifest_def sort_key_id_if_sorted sorted_append)
qed

lemma compact_refs:
  assumes "segs_ok b (log_segments m)" "\<forall>t \<in> set (log_segments m). last_seq t \<le> head_seq m" "head_seq m < slot_first slot"
    and "\<forall>k \<noteq> MANIFEST. mem_view b' k = mem_view b k" "list_all listed_ok (log_segments m)" "slot_key slot = log_segment_key (slot_first slot)"
    and "mem_view b (slot_key slot) = Some (v, SegmentObj [compact_entry job now (slot_first slot)])"
  shows "durable_refs b' (compact_manifest job now' slot flen m) = durable_refs b m"
proof -
  let ?m = "compact_manifest job now' slot flen m" and ?s = "slot_first slot"
  let ?seg = "\<lparr>seg_key = slot_key slot, first_seq = ?s, last_seq = ?s, seg_size = flen, sealed = True\<rparr>"
  have segs: "log_segments ?m = log_segments m @ [?seg]" by (rule compact_segments [OF assms(1-3)])
  have cp: "checkpoint_seq ?m = checkpoint_seq m" "head_seq ?m = ?s" by (simp_all add: compact_manifest_def checkpoint_seq_def)
  have "mem_view b' (seg_key t) = mem_view b (seg_key t)" if "t \<in> set (log_segments m)" for t
    using that assms(4,5) pack_key_not_log(5) by (metis list_all_iff listed_ok_def)
  then have "log_of b' (log_segments m) = log_of b (log_segments m)" by (auto simp: log_of_def seg_entries_def intro!: arg_cong [of _ _ concat] map_cong)
  moreover have "mem_view b' (slot_key slot) = mem_view b (slot_key slot)" using assms(4,6) pack_key_not_log(5) by metis
  ultimately have log: "log_of b' (log_segments ?m) = log_of b (log_segments m) @ [compact_entry job now ?s]"
    using assms(7) unfolding segs by (simp add: seg_entries_def)
  have old: "seq e \<le> head_seq m" if "e \<in> set (log_of b (log_segments m))" for e
    using log_of_range [of b "log_segments m" e] that assms(1,2) by (fastforce simp: segs_ok_def)
  have "filter (\<lambda>e. checkpoint_seq m < seq e \<and> seq e \<le> ?s) (log_of b (log_segments m)) = filter (\<lambda>e. checkpoint_seq m < seq e \<and> seq e \<le> head_seq m) (log_of b (log_segments m))"
    using old assms(3) by (fastforce intro: filter_cong)
  moreover have "checkpoint_base b' ?m = checkpoint_base b m"
  proof -
    have "checkpoint_refs_key k \<noteq> MANIFEST" for k by (rule checkpoint_keys)
    then show ?thesis using assms(4) by (simp add: checkpoint_base_def cp message_at_def)
  qed
  ultimately show ?thesis unfolding durable_refs_def cp log by (simp add: compact_entry_def)
qed

lemma compact_live: "live (compact_manifest job now slot flen m) = live m - set (cj_supersedes job) \<union> {checksum (cj_pack job)}"
  by (auto simp: compact_manifest_def)

text \<open>What a claim comes to: it used up some turns, and a claimed slot was created with its entries by the last of them.\<close>

definition claim_spec ::
  "(nat \<Rightarrow> log_entry list) \<Rightarrow> (log_entry list \<Rightarrow> nat) \<Rightarrow> nat \<Rightarrow> req_turn list \<Rightarrow> bucket \<Rightarrow> claim_outcome \<Rightarrow> req_turn list \<Rightarrow> bucket \<Rightarrow> bool" where
  "claim_spec enc frame_len s ts b out ts' b' \<longleftrightarrow> (\<exists>used. ts = used @ ts' \<and> ran_over used b b') \<and>
     (\<forall>slot flen. out = Claimed slot flen \<longrightarrow> s \<le> slot_first slot \<and> slot_key slot = log_segment_key (slot_first slot) \<and>
        (\<forall>(k, v) \<in> set (burned slot). k \<noteq> MANIFEST) \<and> flen = frame_len (enc (slot_first slot)) \<and>
        (\<exists>pre t b0 om. ts = pre @ t # ts' \<and> ran_over pre b b0 \<and>
           mem_put (rt_now t) (slot_key slot) (SegmentObj (enc (slot_first slot))) Create (rt_others t b0) = (Inr om, b')))"

lemma claim_spec_later:
  assumes "ran_over used b b1" "claim_spec enc frame_len s1 ts1 b1 out ts' b'" "s \<le> s1"
  shows "claim_spec enc frame_len s (used @ ts1) b out ts' b'"
proof -
  have "\<exists>us. used @ ts1 = us @ ts' \<and> ran_over us b b'"
    using assms(1,2) between_append unfolding claim_spec_def by (metis append_assoc)
  moreover have "s \<le> slot_first slot \<and> slot_key slot = log_segment_key (slot_first slot) \<and>
      (\<forall>(k, v) \<in> set (burned slot). k \<noteq> MANIFEST) \<and> flen = frame_len (enc (slot_first slot)) \<and>
      (\<exists>pre t b0 om. used @ ts1 = pre @ t # ts' \<and> ran_over pre b b0 \<and>
         mem_put (rt_now t) (slot_key slot) (SegmentObj (enc (slot_first slot))) Create (rt_others t b0) = (Inr om, b'))" if claimed: "out = Claimed slot flen" for slot flen
  proof -
    obtain pre t b0 om where c: "ts1 = pre @ t # ts'" "ran_over pre b1 b0"
      "mem_put (rt_now t) (slot_key slot) (SegmentObj (enc (slot_first slot))) Create (rt_others t b0) = (Inr om, b')"
      using assms(2) claimed unfolding claim_spec_def by blast
    have "\<exists>pre t b0 om. used @ ts1 = pre @ t # ts' \<and> ran_over pre b b0 \<and>
         mem_put (rt_now t) (slot_key slot) (SegmentObj (enc (slot_first slot))) Create (rt_others t b0) = (Inr om, b')"
      using c(1,3) between_append [OF assms(1) c(2)] by (intro exI [of _ "used @ pre"] exI [of _ t] exI [of _ b0] exI [of _ om]) simp
    then show ?thesis using assms(2,3) claimed unfolding claim_spec_def by fastforce
  qed
  ultimately show ?thesis unfolding claim_spec_def by blast
qed

definition claims_ok :: "(nat \<Rightarrow> log_entry list) \<Rightarrow> (log_entry list \<Rightarrow> nat) \<Rightarrow> req_turn list \<Rightarrow> bool" where
  "claims_ok enc frame_len ts \<longleftrightarrow> (\<forall>s burnt probes b out ts' b'. (\<forall>(k, v) \<in> set burnt. k \<noteq> MANIFEST) \<longrightarrow>
     (claim_log_slot enc frame_len ts s burnt b = Some (out, ts', b') \<longrightarrow> claim_spec enc frame_len s ts b out ts' b') \<and>
     (probe_slot enc frame_len ts s burnt probes b = Some (out, ts', b') \<longrightarrow> claim_spec enc frame_len s ts b out ts' b'))"

lemma claims_okD:
  assumes "claims_ok enc frame_len ts" "\<forall>(k, v) \<in> set burnt. k \<noteq> MANIFEST"
  shows "claim_log_slot enc frame_len ts s burnt b = Some (out, ts', b') \<Longrightarrow> claim_spec enc frame_len s ts b out ts' b'"
    and "probe_slot enc frame_len ts s burnt probes b = Some (out, ts', b') \<Longrightarrow> claim_spec enc frame_len s ts b out ts' b'"
  using assms unfolding claims_ok_def by blast+

lemma claim_turn:
  assumes "claims_ok enc frame_len ts" "claim_log_slot enc frame_len (t # ts) s burnt b = Some (out, ts', b')" "\<forall>(k, v) \<in> set burnt. k \<noteq> MANIFEST"
  shows "claim_spec enc frame_len s (t # ts) b out ts' b'"
proof -
  let ?k = "log_segment_key s" and ?b = "rt_others t b"
  obtain r b1 where p: "put_with (put_fault_of (rt_fault t) ?k) (rt_now t) ?k (SegmentObj (enc s)) Create ?b = (r, b1)" by force
  have one: "ran_over [t] b b1" using between_one minor_put [OF p] pack_key_not_log(5) [of s] by auto
  consider om where "r = Inr om" | k v where "r = Inl (PreconditionFailed k v)" | e where "r = Inl e" "\<forall>k v. e \<noteq> PreconditionFailed k v" by (metis sumE)
  then show ?thesis
  proof cases
    case 1
    then have "mem_put (rt_now t) ?k (SegmentObj (enc s)) Create ?b = (Inr om, b1)" using p by (cases "rt_fault t") (auto simp: put_with_def)
    moreover have "out = Claimed \<lparr>slot_key = ?k, slot_version = meta_version om, slot_first = s, burned = burnt\<rparr> (frame_len (enc s))" "ts' = ts" "b' = b1"
      using assms(2) p 1 by (auto simp: Let_def)
    ultimately show ?thesis using one assms(3) by (auto simp: claim_spec_def intro: ran_over.stay)
  next
    case 2
    then have "probe_slot enc frame_len ts s burnt 0 b1 = Some (out, ts', b')" using assms(2) p by (simp add: Let_def)
    then have "claim_spec enc frame_len s ts b1 out ts' b'" using claims_okD(2) [OF assms(1,3)] by blast
    then show ?thesis using claim_spec_later [OF one] by fastforce
  next
    case 3
    then have "out = ClaimFailed (WalStore e) \<and> ts' = ts \<and> b' = b1" using assms(2) p by (cases e) (auto simp: Let_def)
    then show ?thesis using one by (auto simp: claim_spec_def)
  qed
qed

lemma probe_turns:
  assumes "\<And>t2 ts2. ts = t2 # ts2 \<Longrightarrow> claims_ok enc frame_len ts2" "probe_slot enc frame_len (t # ts) s burnt probes b = Some (out, ts', b')"
    and "\<forall>(k, v) \<in> set burnt. k \<noteq> MANIFEST"
  shows "claim_spec enc frame_len s (t # ts) b out ts' b'"
proof -
  let ?b = "rt_others t b" and ?key = "log_segment_key s"
  let ?read = "if rt_fault t = Fail then Inl (WalStore transient) else read_manifest_fresh ?b"
  have one: "ran_over [t] b ?b" by (simp add: between_one)
  show ?thesis
  proof (cases "\<exists>fresh. ?read = Inr fresh \<and> \<not> s \<le> (case fresh of None \<Rightarrow> 0 | Some m \<Rightarrow> head_seq m)")
    case False
    then have "(\<forall>slot flen. out \<noteq> Claimed slot flen) \<and> ts' = ts \<and> b' = ?b" using assms(2) by (auto simp: Let_def split: sum.splits if_splits)
    then show ?thesis using one by (auto simp: claim_spec_def)
  next
    case True
    then obtain fresh where f: "?read = Inr fresh" and new: "\<not> s \<le> (case fresh of None \<Rightarrow> 0 | Some m \<Rightarrow> head_seq m)" by blast
    obtain t2 ts2 where ts: "ts = t2 # ts2" using assms(2) f new by (cases ts) (auto simp: Let_def)
    let ?b2 = "rt_others t2 ?b"
    have two: "ran_over [t, t2] b ?b2" using between_append [OF one between_one [of t2 ?b ?b2]] by simp
    note ih = claims_okD [OF assms(1) [OF ts]]
    have run: "(if rt_fault t2 = Fail then Some (ClaimFailed (WalStore transient), ts2, ?b2)
      else case mem_head ?key ?b2 of
        None \<Rightarrow> claim_log_slot enc frame_len ts2 s burnt ?b2
      | Some om \<Rightarrow>
          if probes + 1 < ORPHAN_GRACE_PROBES then probe_slot enc frame_len ts2 s burnt (probes + 1) ?b2
          else if MAX_BURN \<le> length (burnt @ [(?key, meta_version om)])
               then Some (ClaimFailed (Corrupt ''consecutive orphaned log segments''), ts2, ?b2)
               else claim_log_slot enc frame_len ts2 (s + 1) (burnt @ [(?key, meta_version om)]) ?b2) = Some (out, ts', b')"
      using assms(2) f new by (simp add: ts Let_def)
    have later: "claim_spec enc frame_len s (t # ts) b out ts' b'" if "claim_spec enc frame_len s1 ts2 ?b2 out ts' b'" "s \<le> s1" for s1
      using claim_spec_later [OF two that] by (simp add: ts)
    have stop: "claim_spec enc frame_len s (t # ts) b (ClaimFailed e) ts2 ?b2" for e using two by (auto simp: claim_spec_def ts)
    show ?thesis
    proof (cases "mem_head ?key ?b2")
      case None
      then show ?thesis using run ih(1) [OF assms(3)] later [of s] stop by (fastforce split: if_splits)
    next
      case (Some om)
      have burnt: "\<forall>(k, v) \<in> set (burnt @ [(?key, meta_version om)]). k \<noteq> MANIFEST" using assms(3) pack_key_not_log(5) [of s] by auto
      consider "rt_fault t2 = Fail" | "rt_fault t2 \<noteq> Fail" "probes + 1 < ORPHAN_GRACE_PROBES"
        | "rt_fault t2 \<noteq> Fail" "\<not> probes + 1 < ORPHAN_GRACE_PROBES" "MAX_BURN \<le> length (burnt @ [(?key, meta_version om)])"
        | "rt_fault t2 \<noteq> Fail" "\<not> probes + 1 < ORPHAN_GRACE_PROBES" "\<not> MAX_BURN \<le> length (burnt @ [(?key, meta_version om)])" by blast
      then show ?thesis
      proof cases
        case 2
        then show ?thesis using run Some ih(2) [OF assms(3)] later [of s] by simp
      next
        case 4
        then have "claim_log_slot enc frame_len ts2 (s + 1) (burnt @ [(?key, meta_version om)]) ?b2 = Some (out, ts', b')" using run Some by simp
        then show ?thesis using later [of "s + 1"] ih(1) [OF burnt] by simp
      qed (use run Some stop in auto)
    qed
  qed
qed

lemma claims_all: "claims_ok enc frame_len ts"
proof (induction ts rule: measure_induct_rule [of length])
  case (less ts)
  show ?case
  proof (cases ts)
    case Nil
    then show ?thesis by (simp add: claims_ok_def)
  next
    case (Cons t ts1)
    then have ih: "claims_ok enc frame_len ts1" "\<And>t2 ts2. ts1 = t2 # ts2 \<Longrightarrow> claims_ok enc frame_len ts2" using less by simp_all
    show ?thesis unfolding Cons claims_ok_def
    proof (intro allI impI conjI)
      fix s probes b out ts' b' and burnt :: "(string \<times> version) list"
      assume o: "\<forall>(k, v) \<in> set burnt. k \<noteq> MANIFEST"
      show "claim_spec enc frame_len s (t # ts1) b out ts' b'" if "claim_log_slot enc frame_len (t # ts1) s burnt b = Some (out, ts', b')"
        using claim_turn [OF ih(1) that o] .
      show "claim_spec enc frame_len s (t # ts1) b out ts' b'" if "probe_slot enc frame_len (t # ts1) s burnt probes b = Some (out, ts', b')"
        using probe_turns [OF ih(2) that o] .
    qed
  qed
qed

lemma orderly_after_put:
  assumes "orderly n (t # ts) b" "mem_put now k x md (rt_others t b) = (r, b')"
  shows "orderly n ts b'"
proof -
  note o = orderly_others [OF assms(1)]
  have b': "b' = snd (mem_put now k x md (rt_others t b))" using assms(2) by simp
  have "mem_ok b'" unfolding b' using mem.put_valid [OF o(2) room_for_room [OF o(3)]] .
  moreover have "room_for (Suc n * length ts) b'" unfolding b' using mem_put_room [OF o(3)] .
  ultimately show ?thesis using assms(1) by (simp add: orderly_def)
qed

text \<open>A conditional write of the manifest, over a version the handle has: refused, or it replaces the handle's own manifest.\<close>

lemma paired_swap:
  assumes "orderly n (t # ts) b" "paired b h"
    and "put_with (put_fault_of (rt_fault t) MANIFEST) now MANIFEST (ManifestObj m) (case h_version h of Some v \<Rightarrow> Update v | None \<Rightarrow> Create) (rt_others t b) = (r, b')"
  shows "orderly n ts b' \<and> advances b (rt_others t b) \<and>
    ((\<exists>k v. r = Inl (PreconditionFailed k v)) \<and> b' = rt_others t b \<or>
     (\<exists>om v. r = Inr om \<and> mem_view (rt_others t b) MANIFEST = Some (v, ManifestObj (h_manifest h)) \<and>
        mem_put now MANIFEST (ManifestObj m) (Update v) (rt_others t b) = (r, b') \<and>
        mem_view b' = (mem_view (rt_others t b))(MANIFEST \<mapsto> (meta_version om, ManifestObj m))))"
proof -
  let ?bm = "rt_others t b"
  note o = orderly_others [OF assms(1)]
  obtain v vc mc where p: "h_version h = Some v" "mem_view ?bm MANIFEST = Some (vc, ManifestObj mc)" "v = vc \<longrightarrow> h_manifest h = mc"
    using paired_advances [OF assms(2) o(1)] unfolding paired_def by blast
  have flt: "rt_fault t \<noteq> Fail" "rt_fault t \<noteq> Lost" using assms(1) by (simp_all add: orderly_def)
  show ?thesis
  proof (cases "rt_fault t = Spurious")
    case True
    then show ?thesis using assms(3) orderly_turn [OF assms(1) minor_refl] by (auto simp: put_with_def)
  next
    case False
    then have put: "mem_put now MANIFEST (ManifestObj m) (Update v) ?bm = (r, b')" using assms(3) flt p(1) by (cases "rt_fault t") (simp_all add: put_with_def)
    have after: "orderly n ts b'" using orderly_after_put [OF assms(1) put] .
    from o(2) room_for_room [OF o(3)] show ?thesis
      by (cases rule: mem_hist.put_result [of ?bm now MANIFEST "ManifestObj m" "Update v"]) (use after put o(1) p in auto)
  qed
qed

lemma swap_done:
  assumes "orderly n ts b" "paired b h" "compact_swap job slot flen h ts b = Some (out, ts', b')"
  obtains t where "ts = t # ts'" "orderly n ts' b'" "out = Raced" "b' = rt_others t b"
  | t om v where "ts = t # ts'" "orderly n ts' b'" "out = Swapped (compact_manifest job (rt_now t) slot flen (h_manifest h)) (meta_version om)"
      "mem_view (rt_others t b) MANIFEST = Some (v, ManifestObj (h_manifest h))"
      "mem_put (rt_now t) MANIFEST (ManifestObj (compact_manifest job (rt_now t) slot flen (h_manifest h))) (Update v) (rt_others t b) = (Inr om, b')"
proof -
  obtain t ts1 where ts: "ts = t # ts1" using assms(3) by (cases ts) (simp_all add: compact_swap_def)
  let ?m = "compact_manifest job (rt_now t) slot flen (h_manifest h)"
  obtain r b1 where r: "put_with (put_fault_of (rt_fault t) MANIFEST) (rt_now t) MANIFEST (ManifestObj ?m)
      (case h_version h of Some v \<Rightarrow> Update v | None \<Rightarrow> Create) (rt_others t b) = (r, b1)" by force
  note p = paired_swap [OF assms(1) [unfolded ts] assms(2) r]
  then consider k v where "r = Inl (PreconditionFailed k v)" "b1 = rt_others t b"
    | om v where "r = Inr om" "mem_view (rt_others t b) MANIFEST = Some (v, ManifestObj (h_manifest h))"
      "mem_put (rt_now t) MANIFEST (ManifestObj ?m) (Update v) (rt_others t b) = (Inr om, b1)" by blast
  then show thesis
  proof cases
    case 1
    then have "out = Raced" "ts' = ts1" "b' = b1" using assms(3) r by (simp_all add: compact_swap_def ts Let_def)
    then show thesis using that(1) 1 p ts by blast
  next
    case 2
    then have "out = Swapped ?m (meta_version om)" "ts' = ts1" "b' = b1" using assms(3) r by (simp_all add: compact_swap_def ts Let_def)
    then show thesis using that(2) 2 p ts by blast
  qed
qed

text \<open>
  A finished compaction: over which turns it ran, from the bucket it started on to the one it left. The
  turn \<open>tc\<close> stored the entry, and the next one, \<open>tm\<close>, swapped the manifest.
\<close>

definition compact_done :: "compact_job \<Rightarrow> req_turn list \<Rightarrow> bucket \<Rightarrow> nat \<Rightarrow> handle \<Rightarrow> bucket \<Rightarrow> bool" where
  "compact_done job ts b s h' b' \<longleftrightarrow> (\<exists>pre tc tm post rest b0 bc bs omc om m v t slot.
     ts = pre @ tc # tm # post @ rest \<and> ran_over pre b b0 \<and>
     mem_put (rt_now tc) (log_segment_key s) (SegmentObj [compact_entry job t s]) Create (rt_others tc b0) = (Inr omc, bc) \<and>
     mem_view (rt_others tm bc) MANIFEST = Some (v, ManifestObj m) \<and>
     mem_put (rt_now tm) MANIFEST (ManifestObj (h_manifest h')) (Update v) (rt_others tm bc) = (Inr om, bs) \<and> ran_over post bs b' \<and>
     slot_first slot = s \<and> slot_key slot = log_segment_key s \<and> head_seq m < s \<and>
     h_manifest h' = compact_manifest job (rt_now tm) slot (cj_frame_len job [compact_entry job t s]) m \<and>
     h_version h' = Some (meta_version om) \<and> applied_seq (h_state h') = s)"

lemma compact_done_later:
  assumes "ran_over used b0 b" "compact_done job ts b s h' b'"
  shows "compact_done job (used @ ts) b0 s h' b'"
proof -
  obtain pre tc tm post rest b1 bc bs omc om m v t slot where d: "ts = pre @ tc # tm # post @ rest" "ran_over pre b b1"
    and r: "mem_put (rt_now tc) (log_segment_key s) (SegmentObj [compact_entry job t s]) Create (rt_others tc b1) = (Inr omc, bc) \<and>
     mem_view (rt_others tm bc) MANIFEST = Some (v, ManifestObj m) \<and>
     mem_put (rt_now tm) MANIFEST (ManifestObj (h_manifest h')) (Update v) (rt_others tm bc) = (Inr om, bs) \<and> ran_over post bs b' \<and>
     slot_first slot = s \<and> slot_key slot = log_segment_key s \<and> head_seq m < s \<and>
     h_manifest h' = compact_manifest job (rt_now tm) slot (cj_frame_len job [compact_entry job t s]) m \<and>
     h_version h' = Some (meta_version om) \<and> applied_seq (h_state h') = s"
    using assms(2) unfolding compact_done_def by blast
  have "used @ ts = (used @ pre) @ tc # tm # post @ rest" using d(1) by simp
  then show ?thesis using between_append [OF assms(1) d(2)] r unfolding compact_done_def by blast
qed

text \<open>An attempt that has to start again has used up turns and left the manifest alone.\<close>

lemma commit_done:
  assumes "orderly n ts b" "paired b h" "compact_commit job ts (h, files, b) = Some (out, ts', h', files', b')"
  shows "(out = Again \<longrightarrow> h' = h \<and> (\<exists>used. ts = used @ ts' \<and> ran_over used b b')) \<and> (\<forall>s. out = Finished (Inr s) \<longrightarrow> compact_done job ts b s h' b')"
proof -
  obtain t ts0 where ts: "ts = t # ts0" using assms(3) by (cases ts) (simp_all add: compact_commit_def)
  let ?enc = "\<lambda>s. [compact_entry job (rt_now t) s]"
  obtain c ts1 b1 where c: "claim_log_slot ?enc (cj_frame_len job) ts (head_seq (h_manifest h) + 1) [] b = Some (c, ts1, b1)"
    using assms(3) unfolding ts by (auto simp: compact_commit_def split: option.splits)
  have spec: "claim_spec ?enc (cj_frame_len job) (head_seq (h_manifest h) + 1) ts b c ts1 b1" using claims_okD(1) [OF claims_all _ c] by simp
  then obtain used where u: "ts = used @ ts1" "ran_over used b b1" by (auto simp: claim_spec_def)
  then have 1: "advances b b1" "orderly n ts1 b1" using between_orderly assms(1) by blast+
  show ?thesis
  proof (cases c)
    case (Claimed slot flen)
    obtain pre tc b0 omc where slot: "head_seq (h_manifest h) < slot_first slot" "slot_key slot = log_segment_key (slot_first slot)"
      "\<forall>(k, v) \<in> set (burned slot). k \<noteq> MANIFEST" "flen = cj_frame_len job (?enc (slot_first slot))" "ts = pre @ tc # ts1" "ran_over pre b b0"
      "mem_put (rt_now tc) (slot_key slot) (SegmentObj (?enc (slot_first slot))) Create (rt_others tc b0) = (Inr omc, b1)"
      using spec Claimed by (auto simp: claim_spec_def)
    obtain q ts2 b2 where q: "compact_swap job slot flen h ts1 b1 = Some (q, ts2, b2)"
      using assms(3) c Claimed unfolding ts by (auto simp: compact_commit_def split: option.splits)
    from 1(2) paired_advances [OF assms(2) 1(1)] q show ?thesis
    proof (cases rule: swap_done)
      case (1 tm)
      obtain ts3 b3 where w: "sweep ts2 [(slot_key slot, slot_version slot)] b2 = Some (ts3, b3)" "out = Again" "ts' = ts3" "h' = h" "b' = b3"
        using assms(3) c Claimed q 1(3) unfolding ts by (auto simp: compact_commit_def simp del: sweep.simps split: option.splits)
      have "slot_key slot \<noteq> MANIFEST" using slot(2) pack_key_not_log(5) by metis
      then obtain us where us: "ts2 = us @ ts'" "ran_over us b2 b'" using sweep_between [OF w(1)] w(3,5) by auto
      have "ran_over ([tm] @ us) b1 b'" using between_append [OF between_one us(2), of tm b1] 1(4) by simp
      then have "ran_over (used @ [tm] @ us) b b'" by (rule between_append [OF u(2)])
      then show ?thesis using w(2,4) u(1) 1(1) us(1) by (intro conjI impI exI [of _ "used @ [tm] @ us"]) auto
    next
      case (2 tm om v)
      obtain ts3 b3 where w: "sweep ts2 (burned slot) b2 = Some (ts3, b3)" "out = Finished (Inr (slot_first slot))" "b' = b3" "ts' = ts3"
        "h' = compact_installed job (rt_now t) (compact_manifest job (rt_now tm) slot flen (h_manifest h)) (meta_version om) (slot_first slot) h"
        using assms(3) c Claimed q 2(3) unfolding ts by (auto simp: compact_commit_def split: option.splits)
      have h': "h_manifest h' = compact_manifest job (rt_now tm) slot flen (h_manifest h)" "h_version h' = Some (meta_version om)" "applied_seq (h_state h') = slot_first slot"
        by (simp_all add: w(5) compact_installed_def Let_def)
      obtain post where post: "ts2 = post @ ts3" "ran_over post b2 b'" using sweep_between [OF w(1) slot(3)] w(3) by auto
      have "ts = pre @ tc # tm # post @ ts3" using slot(5) 2(1) post(1) by simp
      then have "compact_done job ts b (slot_first slot) h' b'" unfolding compact_done_def
        using slot(1,2,6) slot(7) [unfolded slot(2)] slot(4) 2(4) 2(5) [folded h'(1)] h' post(2) by blast
      then show ?thesis using w(2) by simp
    qed
  next
    case Contended
    then have "out = Again" "ts' = ts1" "h' = h" "b' = b1" using assms(3) c unfolding ts by (auto simp: compact_commit_def)
    then show ?thesis using u by blast
  next
    case (ClaimFailed e)
    then show ?thesis using assms(3) c unfolding ts by (auto simp: compact_commit_def)
  qed
qed

lemma attempt_done:
  assumes "orderly n ts b" "paired b h" "compact_attempt job attempts ts (h, files, b) = Some (out, ts', h', files', b')"
  shows "(out = Again \<longrightarrow> paired b' h' \<and> (\<exists>used. ts = used @ ts' \<and> ran_over used b b')) \<and> (\<forall>s. out = Finished (Inr s) \<longrightarrow> compact_done job ts b s h' b')"
proof (cases "attempts = 0")
  case True
  then have "compact_commit job ts (h, files, b) = Some (out, ts', h', files', b')" using assms(3) by (simp add: compact_attempt_def)
  from commit_done [OF assms(1,2) this] show ?thesis using paired_advances [OF assms(2)] between_orderly assms(1) by blast
next
  case False
  obtain t ts1 where ts: "ts = t # ts1" using assms(3) False by (cases ts) (simp_all add: compact_attempt_def)
  let ?b = "rt_others t b"
  have one: "ran_over [t] b ?b" "advances b ?b" "orderly n ts1 ?b" using between_one orderly_turn [OF assms(1) [unfolded ts] minor_refl] by simp_all
  obtain r h1 files1 where s: "sync_impl_level (cj_from_hex job) (cj_peel job) (rt_fails t) (rt_readers t) (rt_fault t = TtlActive) ?b Full h files = (r, h1, files1)"
    by (metis prod_cases3)
  have nf: "rt_fault t \<noteq> Fail" using assms(1) ts by (simp add: orderly_def)
  show ?thesis
  proof (cases r)
    case (Inl e)
    then show ?thesis using assms(3) False nf s by (auto simp: compact_attempt_def ts Let_def)
  next
    case (Inr u)
    then have run: "compact_commit job ts1 (h1, files1, ?b) = Some (out, ts', h', files', b')" using assms(3) False nf s by (simp add: compact_attempt_def ts Let_def)
    have p1: "paired ?b h1" using sync_level_paired [OF _ paired_advances [OF assms(2) one(2)]] s Inr one(3) by (simp add: orderly_def)
    note c = commit_done [OF one(3) p1 run]
    have "paired b' h' \<and> (\<exists>used. ts = used @ ts' \<and> ran_over used b b')" if "out = Again"
    proof -
      obtain used where u: "ts1 = used @ ts'" "ran_over used ?b b'" "h' = h1" using c \<open>out = Again\<close> by blast
      then have "paired b' h'" using paired_advances [OF p1] between_orderly one(3) by blast
      then show ?thesis using u between_append [OF one(1) u(2)] ts by (intro conjI exI [of _ "[t] @ used"]) simp_all
    qed
    moreover have "compact_done job ts b s h' b'" if "out = Finished (Inr s)" for s
      using c that compact_done_later [OF one(1)] ts by fastforce
    ultimately show ?thesis by blast
  qed
qed

lemma loop_done:
  "compact_loop job attempts ts (h, files, b) = Some (Inr s, h', files', b') \<Longrightarrow> orderly n ts b \<Longrightarrow> paired b h \<Longrightarrow> compact_done job ts b s h' b'"
proof (induction job attempts ts "(h, files, b)" arbitrary: h files b rule: compact_loop.induct)
  case (1 job attempts ts h files b)
  obtain out ts1 h1 files1 b1 where a: "compact_attempt job attempts ts (h, files, b) = Some (out, ts1, h1, files1, b1)"
    using "1.prems"(1) by (subst (asm) compact_loop.simps) (auto split: option.splits)
  note d = attempt_done [OF "1.prems"(2,3) a]
  show ?case
  proof (cases out)
    case (Finished r)
    then show ?thesis using "1.prems"(1) a d by (subst (asm) compact_loop.simps) auto
  next
    case Again
    then have go: "\<not> attempts + 1 \<ge> cj_max_retries job \<and> compact_loop job (attempts + 1) ts1 (h1, files1, b1) = Some (Inr s, h', files', b')"
      using "1.prems"(1) a by (subst (asm) compact_loop.simps) (auto split: if_splits)
    obtain used where u: "ts = used @ ts1" "ran_over used b b1" "paired b1 h1" using d Again by blast
    then have "orderly n ts1 b1" using between_orderly "1.prems"(2) by blast
    then have "compact_done job ts1 b1 s h' b'" using "1.hyps" [OF a refl Again refl] go u(3) by blast
    then show ?thesis using compact_done_later [OF u(2)] u(1) by simp
  qed
qed

lemma compact_keys_ok: "MANIFEST \<notin> set (compact_keys p files)"
  by (auto simp: compact_keys_def side_files_def pack_key_def idx_key_def rev_key_def bitmap_key_def commit_graph_key_def)

text \<open>A manifest whose log is whole and ends at its head.\<close>

definition intact :: "bucket \<Rightarrow> manifest \<Rightarrow> bool" where
  "intact b m \<longleftrightarrow> segs_ok b (log_segments m) \<and> list_all listed_ok (log_segments m) \<and> (\<forall>t \<in> set (log_segments m). last_seq t \<le> head_seq m)"


section \<open>Annotation changes nothing but the flags\<close>

text \<open>The pack as it is advertised after an annotation, in the list it was found in.\<close>

lemma annotate_first_spec:
  "annotate_first c fl ps = Some (p, qs) \<Longrightarrow> map checksum qs = map checksum ps \<and> checksum p = c \<and> p \<in> set qs \<and> (\<exists>q \<in> set ps. p = advertise fl q) \<and>
     length qs = length ps \<and> (\<forall>i < length ps. qs ! i = ps ! i \<or> qs ! i = advertise fl (ps ! i))"
proof (induction ps arbitrary: p qs)
  case (Cons x xs)
  show ?case
  proof (cases "checksum x = c")
    case True
    then show ?thesis using Cons.prems by (auto simp: advertise_def nth_Cons')
  next
    case False
    then obtain qs' where q: "annotate_first c fl xs = Some (p, qs')" "qs = x # qs'" using Cons.prems by (auto split: option.splits)
    then show ?thesis using Cons.IH [OF q(1)] by (auto simp: nth_Cons')
  qed
qed simp

lemma same_log_refs:
  assumes "\<forall>k \<noteq> MANIFEST. mem_view b' k = mem_view b k" "list_all listed_ok (log_segments m)"
    and "checkpoint m' = checkpoint m" "log_segments m' = log_segments m" "head_seq m' = head_seq m"
  shows "durable_refs b' m' = durable_refs b m"
proof -
  have "mem_view b' (seg_key t) = mem_view b (seg_key t)" if "t \<in> set (log_segments m)" for t
    using that assms(1,2) pack_key_not_log(5) by (metis list_all_iff listed_ok_def)
  then have log: "log_of b' (log_segments m) = log_of b (log_segments m)" by (auto simp: log_of_def seg_entries_def intro!: arg_cong [of _ _ concat] map_cong)
  have "checkpoint_refs_key k \<noteq> MANIFEST" for k by (rule checkpoint_keys)
  then have "checkpoint_base b' m' = checkpoint_base b m" using assms(1,3) by (simp add: checkpoint_base_def checkpoint_seq_def message_at_def)
  then show ?thesis using assms(3-5) log by (simp add: durable_refs_def checkpoint_seq_def)
qed

lemma turn_sync_paired:
  assumes "orderly n (t # ts) b" "paired b h" "turn_sync peel t h b = (Inr (), h', b')"
  shows "advances b b' \<and> orderly n ts b' \<and> paired b' h'"
proof -
  let ?b = "rt_others t b"
  have 1: "advances b ?b" "orderly n ts ?b" using orderly_turn [OF assms(1) minor_refl] by simp_all
  have p: "paired ?b h" using paired_advances [OF assms(2) 1(1)] .
  have "b' = ?b" "h' = h \<or> sync_locked_inner peel ?b h = (Inr (), h')" using assms(3) by (auto simp: turn_sync_def Let_def split: if_splits prod.splits)
  moreover have "mem_ok ?b" using 1(2) by (simp add: orderly_def)
  ultimately show ?thesis using 1 p sync_paired by blast
qed

definition annotate_done :: "string \<Rightarrow> side_flags \<Rightarrow> bucket \<Rightarrow> pack_ref \<Rightarrow> handle \<Rightarrow> bucket \<Rightarrow> bool" where
  "annotate_done c fl b p h' b' \<longleftrightarrow> (\<exists>bm m v v' now inst. advances b bm \<and> mem_view bm MANIFEST = Some (v, ManifestObj m) \<and>
     annotated now inst c fl m = Some (p, h_manifest h') \<and> mem_view b' = (mem_view bm)(MANIFEST \<mapsto> (v', ManifestObj (h_manifest h'))) \<and> h_version h' = Some v')"

lemma annotate_loop_done:
  "annotate_loop peel max_retries inst c fl attempts ts h b = Some (Inr p, h', b') \<Longrightarrow> orderly n ts b \<Longrightarrow> paired b h \<Longrightarrow> annotate_done c fl b p h' b'"
proof (induction peel max_retries inst c fl attempts ts h b rule: annotate_loop.induct)
  case (1 peel max_retries inst c fl attempts ts h b)
  note run = "1.prems"(1) [unfolded annotate_loop.simps [of peel max_retries inst c fl attempts ts h b]]
  obtain t ts1 where ts: "ts = t # ts1" using run by (cases ts) simp_all
  obtain q m where a: "annotated (rt_now t) inst c fl (h_manifest h) = Some (q, m)"
    using run ts by (cases "annotated (rt_now t) inst c fl (h_manifest h)") auto
  let ?mode = "case h_version h of Some v \<Rightarrow> Update v | None \<Rightarrow> Create"
  obtain r b1 where r: "put_with (put_fault_of (rt_fault t) MANIFEST) (rt_now t) MANIFEST (ManifestObj m) ?mode (rt_others t b) = (r, b1)" by force
  note s = paired_swap [OF "1.prems"(2) [unfolded ts] "1.prems"(3) r]
  show ?case
  proof (cases r)
    case (Inr om)
    then have "p = q" "h' = annotate_installed m (meta_version om) h" "b' = b1"
      using run a r by (simp_all add: ts)
    then show ?thesis using s Inr a unfolding annotate_done_def annotate_installed_def by auto
  next
    case (Inl e)
    then obtain k v where e: "e = PreconditionFailed k v" and b1: "b1 = rt_others t b" and o1: "orderly n ts1 b1" "advances b b1" using s by auto
    have lt: "\<not> attempts + 1 \<ge> max_retries" using run a r Inl e by (auto simp: ts)
    obtain t2 ts2 where t2: "ts1 = t2 # ts2" using run a r Inl e lt by (cases ts1) (simp_all add: ts)
    obtain u h1 b2 where y: "turn_sync peel t2 h b1 = (u, h1, b2)" by (metis prod_cases3)
    have u: "u = Inr ()" and rest: "annotate_loop peel max_retries inst c fl (attempts + 1) ts2 h1 b2 = Some (Inr p, h', b')"
      using run a r Inl e lt y by (auto simp: ts t2 split: sum.splits)
    have "paired b1 h" using paired_advances [OF "1.prems"(3) o1(2)] .
    then have z: "advances b1 b2" "orderly n ts2 b2" "paired b2 h1" using turn_sync_paired [of n t2 ts2 b1 h peel h1 b2] o1(1) t2 y u by simp_all
    have "annotate_done c fl b2 p h' b'" using "1.IH" [OF ts a refl r [symmetric] Inl e lt t2 y [symmetric] u refl] rest z(2,3) by blast
    then show ?thesis unfolding annotate_done_def using o1(2) z(1) advances_trans by meson
  qed
qed

lemma annotate_keys_ok: "MANIFEST \<notin> set (annotate_keys c fl)"
  by (auto simp: annotate_keys_def rev_key_def bitmap_key_def commit_graph_key_def)

text \<open>
  An annotation changes nothing but flags. When one succeeds, among orderly company and after any
  number of retries, it replaced the manifest that was current then by the same one with the
  side files of the pack advertised: the same packs in the same order, the same log, the same refs.
\<close>

theorem annotate_only_flags:
  assumes "orderly n ts b" "paired b h" "annotate_pack peel max_retries inst c fl ts h b = Some (Inr p, h', b')"
  shows "\<exists>bm m v v'. advances b bm \<and> mem_view bm MANIFEST = Some (v, ManifestObj m) \<and>
    mem_view b' = (mem_view bm)(MANIFEST \<mapsto> (v', ManifestObj (h_manifest h'))) \<and> h_version h' = Some v' \<and>
    checksum p = c \<and> p \<in> set (packs (h_manifest h')) \<and> (\<exists>q \<in> set (packs m). p = advertise fl q) \<and>
    map checksum (packs (h_manifest h')) = map checksum (packs m) \<and> log_segments (h_manifest h') = log_segments m \<and> head_seq (h_manifest h') = head_seq m \<and>
    (list_all listed_ok (log_segments m) \<longrightarrow> durable_refs b' (h_manifest h') = durable_refs bm m)"
proof -
  obtain t ts1 where ts: "ts = t # ts1" using assms(3) by (cases ts) (simp_all add: annotate_pack_def)
  obtain u h1 b1 where y: "turn_sync peel t h b = (u, h1, b1)" by (metis prod_cases3)
  have u: "u = Inr ()" and rest: "(case upload_all ts1 (annotate_keys c fl) b1 of
        None \<Rightarrow> None
      | Some (Inl e, ts2, b2) \<Rightarrow> Some (Inl e, h1, b2)
      | Some (Inr _, ts2, b2) \<Rightarrow> annotate_loop peel max_retries inst c fl 0 ts2 h1 b2) = Some (Inr p, h', b')"
    using assms(3) y by (auto simp: annotate_pack_def ts split: sum.splits if_splits)
  have 1: "advances b b1" "orderly n ts1 b1" "paired b1 h1" using turn_sync_paired [OF assms(1) [unfolded ts] assms(2)] y u by simp_all
  obtain r ts2 b2 where up: "upload_all ts1 (annotate_keys c fl) b1 = Some (r, ts2, b2)" using rest by (auto split: option.splits)
  have 2: "advances b1 b2" "orderly n ts2 b2" using upload_orderly [OF up 1(2) annotate_keys_ok] by simp_all
  have "annotate_loop peel max_retries inst c fl 0 ts2 h1 b2 = Some (Inr p, h', b')" using rest up by (cases r) auto
  from annotate_loop_done [OF this 2(2) paired_advances [OF 1(3) 2(1)]]
  obtain bm m v v' now i where d: "advances b2 bm" "mem_view bm MANIFEST = Some (v, ManifestObj m)" "annotated now i c fl m = Some (p, h_manifest h')"
    "mem_view b' = (mem_view bm)(MANIFEST \<mapsto> (v', ManifestObj (h_manifest h')))" "h_version h' = Some v'" unfolding annotate_done_def by blast
  obtain ps where ps: "annotate_first c fl (packs m) = Some (p, ps)"
    "h_manifest h' = m\<lparr>packs := ps, updated_at := Some now, manifest_writer := i, revision := revision m + 1\<rparr>"
    using d(3) by (auto simp: annotated_def split: option.splits)
  have "durable_refs b' (h_manifest h') = durable_refs bm m" if "list_all listed_ok (log_segments m)"
    by (rule same_log_refs [OF _ that]) (simp_all add: d(4) ps(2))
  moreover have "advances b bm" using 1(1) 2(1) d(1) advances_trans by blast
  ultimately show ?thesis using d annotate_first_spec [OF ps(1)] by (intro exI [of _ bm] exI [of _ m] exI [of _ v] exI [of _ v']) (auto simp: ps(2))
qed

section \<open>Alone with the bucket\<close>

definition quiet_turn :: "nat \<Rightarrow> req_turn" where
  "quiet_turn now = \<lparr>rt_others = (\<lambda>b. b), rt_now = now, rt_fault = Fine, rt_fails = (\<lambda>_. None), rt_readers = False\<rparr>"

lemma quiet_immutable:
  assumes "mem_ok b" "room_for (Suc j) b"
  obtains b' where "put_immutable_create Fine now k b = (Inr (), b')" "mem_ok b'" "room_for j b'" "\<forall>k'. k' \<noteq> k \<longrightarrow> mem_view b' k' = mem_view b k'"
proof (cases "mem_view b k")
  case None
  have adm: "admits Create (mem_view b k)" using None by simp
  obtain om b' where "put_with NoFault now k PackObj Create b = (Inr om, b')" "mem_view b' = (mem_view b)(k \<mapsto> (meta_version om, PackObj))" "mem_ok b'" "room_for j b'"
    by (rule admitted_put [OF assms adm])
  then show ?thesis using that [of b'] by (simp add: put_immutable_create_def)
next
  case (Some x)
  then have "mem_put now k PackObj Create b = (Inl (PreconditionFailed k (Some (fst x))), b)" "mem_head k b \<noteq> None"
    by (auto simp: mem_put_eq mem_head_def mem_view_def)
  then show ?thesis using that [of b] assms room_for_mono [OF assms(2)] by (auto simp: put_immutable_create_def put_with_def)
qed

lemma quiet_uploads:
  "mem_ok b \<Longrightarrow> room_for (length ks + j) b \<Longrightarrow>
   \<exists>b'. upload_all (replicate (length ks + n) (quiet_turn now)) ks b = Some (Inr (), replicate n (quiet_turn now), b') \<and> mem_ok b' \<and> room_for j b' \<and>
     (\<forall>k. k \<notin> set ks \<longrightarrow> mem_view b' k = mem_view b k)"
proof (induction ks arbitrary: b)
  case (Cons k ks)
  have room: "room_for (Suc (length ks + j)) b" using Cons.prems(2) by simp
  obtain b1 where 1: "put_immutable_create Fine now k b = (Inr (), b1)" "mem_ok b1" "room_for (length ks + j) b1" "\<forall>k'. k' \<noteq> k \<longrightarrow> mem_view b1 k' = mem_view b k'"
    by (rule quiet_immutable [OF Cons.prems(1) room])
  obtain b' where "upload_all (replicate (length ks + n) (quiet_turn now)) ks b1 = Some (Inr (), replicate n (quiet_turn now), b')" "mem_ok b'" "room_for j b'"
    "\<forall>k. k \<notin> set ks \<longrightarrow> mem_view b' k = mem_view b1 k" using Cons.IH [OF 1(2,3)] by blast
  then show ?case using 1(1,4) by (intro exI [of _ b']) (simp add: quiet_turn_def)
qed simp

lemma quiet_commit:
  assumes "mem_ok b" "room_for 2 b" "mem_view b MANIFEST = Some (v, ManifestObj (h_manifest h))" "h_version h = Some v"
    and "mem_view b (log_segment_key (head_seq (h_manifest h) + 1)) = None"
  shows "\<exists>h' b'. compact_commit job (replicate 2 (quiet_turn now)) (h, files, b) = Some (Finished (Inr (head_seq (h_manifest h) + 1)), [], h', files, b')"
proof -
  let ?s = "head_seq (h_manifest h) + 1"
  have two: "room_for (Suc 1) b" and free: "admits Create (mem_view b (log_segment_key ?s))" using assms(2,5) by (simp_all add: numeral_2_eq_2)
  obtain om b1 where 1: "put_with NoFault now (log_segment_key ?s) (SegmentObj [compact_entry job now ?s]) Create b = (Inr om, b1)"
    "mem_view b1 = (mem_view b)(log_segment_key ?s \<mapsto> (meta_version om, SegmentObj [compact_entry job now ?s]))" "mem_ok b1" "room_for 1 b1"
    by (rule admitted_put [OF assms(1) two free])
  have one: "room_for (Suc 0) b1" and cur: "admits (Update v) (mem_view b1 MANIFEST)" using 1(2,4) assms(3) pack_key_not_log(5) [of ?s] by simp_all
  let ?slot = "\<lparr>slot_key = log_segment_key ?s, slot_version = meta_version om, slot_first = ?s, burned = []\<rparr>"
  let ?m = "compact_manifest job now ?slot (cj_frame_len job [compact_entry job now ?s]) (h_manifest h)"
  obtain om2 b2 where 2: "put_with NoFault now MANIFEST (ManifestObj ?m) (Update v) b1 = (Inr om2, b2)" by (rule admitted_put [OF 1(3) one cur])
  have "claim_log_slot (\<lambda>s. [compact_entry job now s]) (cj_frame_len job) (replicate 2 (quiet_turn now)) ?s [] b =
      Some (Claimed ?slot (cj_frame_len job [compact_entry job now ?s]), [quiet_turn now], b1)"
    using 1(1) by (simp add: quiet_turn_def numeral_2_eq_2 Let_def)
  then show ?thesis using 2 assms(4) by (simp add: compact_commit_def compact_swap_def numeral_2_eq_2 quiet_turn_def Let_def)
qed

text \<open>
  A compaction that is left alone succeeds at once: from a handle that holds the current manifest, with
  the next log slot free, four requests and one for each side file are enough.
\<close>

lemma quiet_compact:
  assumes "mem_ok b" "room_for (length (compact_keys (cj_pack job) files) + 2) b" "mem_view b MANIFEST = Some (v, ManifestObj (h_manifest h))" "h_version h = Some v"
    and "mem_view b (log_segment_key (head_seq (h_manifest h) + 1)) = None"
  shows "\<exists>h' b'. publish_compact job (replicate (length (compact_keys (cj_pack job) files) + 2) (quiet_turn now)) (h, files, b) =
    Some (Inr (head_seq (h_manifest h) + 1), h', files, b')"
proof -
  let ?ks = "compact_keys (cj_pack job) files"
  obtain b1 where 1: "upload_all (replicate (length ?ks + 2) (quiet_turn now)) ?ks b = Some (Inr (), replicate 2 (quiet_turn now), b1)" "mem_ok b1" "room_for 2 b1"
    "\<forall>k. k \<notin> set ?ks \<longrightarrow> mem_view b1 k = mem_view b k" using quiet_uploads [OF assms(1,2)] by blast
  have "log_segment_key q \<notin> set ?ks" for q
    by (auto simp: compact_keys_def side_files_def pack_key_def idx_key_def rev_key_def bitmap_key_def commit_graph_key_def log_segment_key_def log_segment_key_w_def)
  then have keep: "mem_view b1 MANIFEST = Some (v, ManifestObj (h_manifest h))" "mem_view b1 (log_segment_key (head_seq (h_manifest h) + 1)) = None"
    using 1(4) assms(3,5) compact_keys_ok by auto
  obtain h' b' where c: "compact_commit job (replicate 2 (quiet_turn now)) (h, files, b1) = Some (Finished (Inr (head_seq (h_manifest h) + 1)), [], h', files, b')"
    using quiet_commit [OF 1(2,3) keep(1) assms(4) keep(2)] by blast
  then show ?thesis using 1(1) by (subst publish_compact_def) (simp add: compact_loop.simps [of job 0] compact_attempt_def)
qed

section \<open>Examples\<close>

definition example_job :: compact_job where
  "example_job = \<lparr>cj_from_hex = Some, cj_peel = (\<lambda>_. None), cj_frame_len = length, cj_instance = ''a'', cj_max_retries = 3, cj_pack = a_pack ''a'', cj_supersedes = [''c'']\<rparr>"

lemma quiet_orderly: "orderly 0 (replicate 4 (quiet_turn 9)) example_bucket"
proof -
  have "unat (counter example_bucket) = 3" by code_simp
  moreover have "polite 0 (\<lambda>b. b)" by (simp add: polite_def advances_refl)
  ultimately show ?thesis using example_bucket_ok(1) by (simp add: orderly_def quiet_turn_def room_for_def)
qed

lemma example_paired: "paired example_bucket opened_handle"
  using opened_example(1-3) mem_hist.view_issued [OF example_bucket_ok(1) opened_example(1)] by (simp add: paired_def)

lemma example_alone:
  "room_for (length (compact_keys (cj_pack example_job) []) + 2) example_bucket" "mem_view example_bucket (log_segment_key (head_seq (h_manifest opened_handle) + 1)) = None"
  "length (compact_keys (cj_pack example_job) []) + 2 = 4" "head_seq (h_manifest opened_handle) + 1 = 4"
proof -
  show four: "length (compact_keys (cj_pack example_job) []) + 2 = 4" by code_simp
  have "unat (counter example_bucket) = 3" by code_simp
  then show "room_for (length (compact_keys (cj_pack example_job) []) + 2) example_bucket" unfolding four by (simp add: room_for_def)
  show n: "head_seq (h_manifest opened_handle) + 1 = 4" using opened_example(3) by (simp add: example_manifest_def)
  have "map_option fst (mem_view example_bucket (log_segment_key 4)) = None" by code_simp
  then show "mem_view example_bucket (log_segment_key (head_seq (h_manifest opened_handle) + 1)) = None" unfolding n by simp
qed


definition packs_only :: bucket where "packs_only = run_op mem_new (PutOp 0 MANIFEST (ManifestObj two_packs) Create)"
definition packs_handle :: handle where "packs_handle = new_handle two_packs ''1'' default_state init_dir"
definition only_rev :: side_flags where "only_rev = \<lparr>sf_rev = True, sf_bitmap = False, sf_commit_graph = False\<rparr>"

lemma packs_only_ok: "mem_ok packs_only" "room_for 3 packs_only" "mem_view packs_only MANIFEST = Some (''1'', ManifestObj two_packs)" "paired packs_only packs_handle"
proof -
  show ok: "mem_ok packs_only" unfolding packs_only_def using run_ops_ok [of mem_new "[PutOp 0 MANIFEST (ManifestObj two_packs) Create]"] mem_new_ok
    by (simp add: run_ops_def room_for_def mem_new_def)
  have "unat (counter packs_only) = 1" by code_simp
  then show "room_for 3 packs_only" by (simp add: room_for_def)
  have "map_option fst (mem_view packs_only MANIFEST) = Some ''1''" by code_simp
  then show v: "mem_view packs_only MANIFEST = Some (''1'', ManifestObj two_packs)"
    by (auto simp: packs_only_def mem_put_eq mem_view_def mem_new_def map_of_bt_insert)
  show "paired packs_only packs_handle" using v mem_hist.view_issued [OF ok v] by (simp add: paired_def packs_handle_def new_handle_def)
qed

theorem annotate_only_flags_witness:
  "\<exists>p h' b'. annotate_pack (\<lambda>_. None) 3 ''i'' ''a'' only_rev (replicate 3 (quiet_turn 9)) packs_handle packs_only = Some (Inr p, h', b') \<and>
     checksum p = ''a'' \<and> p \<in> set (packs (h_manifest h'))"
proof -
  have h: "h_version packs_handle = Some ''1''" "h_manifest packs_handle = two_packs" by (simp_all add: packs_handle_def new_handle_def)
  have sync: "turn_sync (\<lambda>_. None) (quiet_turn 9) packs_handle packs_only = (Inr (), packs_handle, packs_only)"
    using sync_current [OF packs_only_ok(3) h(1)] by (simp add: turn_sync_def quiet_turn_def)
  have keys: "annotate_keys ''a'' only_rev = [rev_key ''a'']" by (simp add: annotate_keys_def only_rev_def)
  have room: "room_for (length [rev_key ''a''] + 1) packs_only" using packs_only_ok(2) by (rule room_for_mono) simp
  obtain b1 where 1: "upload_all (replicate 2 (quiet_turn 9)) [rev_key ''a''] packs_only = Some (Inr (), [quiet_turn 9], b1)" "mem_ok b1" "room_for 1 b1"
    "mem_view b1 MANIFEST = Some (''1'', ManifestObj two_packs)"
    using quiet_uploads [OF packs_only_ok(1) room, of 1 9] packs_only_ok(3) by (auto simp: numeral_2_eq_2 rev_key_def)
  have one: "room_for (Suc 0) b1" and cur: "admits (Update ''1'') (mem_view b1 MANIFEST)" using 1(3,4) by simp_all
  obtain p m where a: "annotated 9 ''i'' ''a'' only_rev two_packs = Some (p, m)" by (simp add: annotated_def two_packs_def a_pack_def)
  obtain om b2 where 2: "put_with NoFault 9 MANIFEST (ManifestObj m) (Update ''1'') b1 = (Inr om, b2)" by (rule admitted_put [OF 1(2) one cur])
  have loop: "annotate_loop (\<lambda>_. None) 3 ''i'' ''a'' only_rev 0 [quiet_turn 9] packs_handle b1 = Some (Inr p, annotate_installed m (meta_version om) packs_handle, b2)"
    using a 2 h by (subst annotate_loop.simps) (simp add: quiet_turn_def)
  have "''a'' \<in> live two_packs" by (simp add: two_packs_def a_pack_def)
  then have r: "annotate_pack (\<lambda>_. None) 3 ''i'' ''a'' only_rev (replicate 3 (quiet_turn 9)) packs_handle packs_only =
      Some (Inr p, annotate_installed m (meta_version om) packs_handle, b2)"
    using sync 1(1) loop h(2) by (simp add: annotate_pack_def keys numeral_3_eq_3 numeral_2_eq_2)
  have "orderly 0 (replicate 3 (quiet_turn 9)) packs_only"
    using packs_only_ok(1,2) by (simp add: orderly_def quiet_turn_def polite_def advances_refl)
  from annotate_only_flags [OF this packs_only_ok(4) r] r show ?thesis by blast
qed

end
