(* ===== verification/Git_Pkt.thy ===== *)
theory Git_Pkt
  imports Git_Refs
begin

text \<open>
  Git's wire format (\<^verbatim>\<open>crates/gitcask-git/src/pkt.rs\<close>): pkt-lines, the sideband, the detection of the
  protocol version, and the strings of the Rust library its users rely on. A reader is a parameter,
  what it promises is the locale \<open>byte_reader\<close>: a string in memory and a request body that arrives in
  pieces are interpretations. Loops over lines share \<open>line_loop\<close>, and are proved about once, over the
  bytes still to come. Writers are the bytes written so far; their failures are not modelled.
\<close>

section \<open>Strings of the Rust library\<close>

text \<open>
  \<open>String::from_utf8_lossy\<close>: the bytes of well-formed UTF-8 as they are, every maximal ill-formed
  piece replaced by the encoding of U+FFFD.
\<close>

definition byte :: "char \<Rightarrow> nat" where
  "byte c = of_char c"

definition u_replacement :: string where
  "u_replacement = [CHR 0xEF, CHR 0xBF, CHR 0xBD]"

definition utf8_width :: "char \<Rightarrow> nat" where
  "utf8_width a =
     (if byte a < 0x80 then 1
      else if 0xC2 \<le> byte a \<and> byte a \<le> 0xDF then 2
      else if 0xE0 \<le> byte a \<and> byte a \<le> 0xEF then 3
      else if 0xF0 \<le> byte a \<and> byte a \<le> 0xF4 then 4 else 0)"

definition utf8_cont :: "char \<Rightarrow> bool" where
  "utf8_cont c \<longleftrightarrow> 0x80 \<le> byte c \<and> byte c \<le> 0xBF"

definition utf8_second :: "char \<Rightarrow> char \<Rightarrow> bool" where
  "utf8_second a b \<longleftrightarrow>
     (if byte a = 0xE0 then 0xA0 else if byte a = 0xF0 then 0x90 else 0x80) \<le> byte b \<and>
     byte b \<le> (if byte a = 0xED then 0x9F else if byte a = 0xF4 then 0x8F else 0xBF)"

text \<open>The length of the well-formed character at the start, or else of the ill-formed piece.\<close>

fun utf8_piece :: "string \<Rightarrow> bool \<times> nat" where
  "utf8_piece [] = (False, 0)"
| "utf8_piece (a # s) =
     (case (utf8_width a, s) of
        (Suc 0, _) \<Rightarrow> (True, 1)
      | (Suc (Suc 0), b # _) \<Rightarrow> if utf8_cont b then (True, 2) else (False, 1)
      | (Suc (Suc (Suc 0)), b # t) \<Rightarrow>
          if utf8_second a b then (case t of c # _ \<Rightarrow> if utf8_cont c then (True, 3) else (False, 2) | [] \<Rightarrow> (False, 2))
          else (False, 1)
      | (Suc (Suc (Suc (Suc 0))), b # t) \<Rightarrow>
          if utf8_second a b then
            (case t of
               c # t' \<Rightarrow>
                 if utf8_cont c then (case t' of d # _ \<Rightarrow> if utf8_cont d then (True, 4) else (False, 3) | [] \<Rightarrow> (False, 3))
                 else (False, 2)
             | [] \<Rightarrow> (False, 2))
          else (False, 1)
      | _ \<Rightarrow> (False, 1))"

function from_utf8_lossy :: "string \<Rightarrow> string" where
  "from_utf8_lossy s =
     (if s = [] then []
      else let (ok, n) = utf8_piece s
           in (if ok then take n s else u_replacement) @ from_utf8_lossy (drop n s))"
  by pat_completeness auto

lemma utf8_piece_pos: "s \<noteq> [] \<Longrightarrow> 0 < snd (utf8_piece s)"
  by (cases s) (auto split: nat.splits list.splits)

termination from_utf8_lossy
proof (relation "measure length")
  fix s :: string and x ok n
  assume "s \<noteq> []" "x = utf8_piece s" "(ok, n) = x"
  then show "(drop n s, s) \<in> measure length"
    using utf8_piece_pos [of s] by (cases "utf8_piece s") auto
qed simp

declare from_utf8_lossy.simps [simp del]

text \<open>A string value of the program: well-formed UTF-8.\<close>

definition utf8 :: "string \<Rightarrow> bool" where
  "utf8 s \<longleftrightarrow> from_utf8_lossy s = s"

definition ascii :: "string \<Rightarrow> bool" where
  "ascii s \<longleftrightarrow> list_all (\<lambda>c. byte c < 0x80) s"

text \<open>\<open>trim_end_matches\<close> of line feeds, \<open>str_strip_prefix\<close>, \<open>split_once\<close>, \<open>split\<close> at the characters of a class.\<close>

definition trim_end_nl :: "string \<Rightarrow> string" where
  "trim_end_nl s = rev (dropWhile (\<lambda>c. c = CHR 0x0A) (rev s))"

definition str_strip_prefix :: "string \<Rightarrow> string \<Rightarrow> string option" where
  "str_strip_prefix p s = (if starts_with p s then Some (drop (length p) s) else None)"

definition split_once :: "char \<Rightarrow> string \<Rightarrow> (string \<times> string) option" where
  "split_once c s =
     (if c \<in> set s then Some (takeWhile (\<lambda>x. x \<noteq> c) s, tl (dropWhile (\<lambda>x. x \<noteq> c) s)) else None)"

fun split_class :: "(char \<Rightarrow> bool) \<Rightarrow> string \<Rightarrow> string list" where
  "split_class p [] = [[]]"
| "split_class p (x # xs) =
     (if p x then [] # split_class p xs
      else (case split_class p xs of [] \<Rightarrow> [[x]] | w # ws \<Rightarrow> (x # w) # ws))"

text \<open>\<open>split_inclusive\<close> at line feeds: every piece but perhaps the last ends with one.\<close>

fun split_lines :: "string \<Rightarrow> string list" where
  "split_lines [] = []"
| "split_lines (x # xs) =
     (if x = CHR 0x0A then [x] # split_lines xs
      else (case split_lines xs of [] \<Rightarrow> [[x]] | w # ws \<Rightarrow> (x # w) # ws))"

definition ascii_lower :: "char \<Rightarrow> char" where
  "ascii_lower c = (if 0x41 \<le> byte c \<and> byte c \<le> 0x5A then char_of (byte c + 32) else c)"

section \<open>Pkt-lines (pkt.rs)\<close>

definition MAX_PKT_DATA :: nat where
  "MAX_PKT_DATA = 65516"

datatype pkt_line = Data string | Flush | Delim | ResponseEnd

definition as_data :: "pkt_line \<Rightarrow> string option" where
  "as_data p = (case p of Data b \<Rightarrow> Some b | _ \<Rightarrow> None)"

datatype protocol = V0 | V2

definition ascii_whitespace :: "char \<Rightarrow> bool" where
  "ascii_whitespace c \<longleftrightarrow> c \<in> {CHR 0x20, CHR 0x09, CHR 0x0A, CHR 0x0C, CHR 0x0D}"

definition from_git_protocol_header :: "string option \<Rightarrow> protocol" where
  "from_git_protocol_header header =
     (case header of
        Some h \<Rightarrow>
          if list_ex (\<lambda>part. map ascii_lower (rust_trim part) = ''version=2'')
               (split_class (\<lambda>c. c = CHR '';'' \<or> ascii_whitespace c) h)
          then V2 else V0
      | None \<Rightarrow> V0)"

definition git_protocol_env :: "protocol \<Rightarrow> string" where
  "git_protocol_env p = (case p of V2 \<Rightarrow> ''version=2'' | V0 \<Rightarrow> ''version=0'')"

subsection \<open>Reading\<close>

text \<open>
  A reader is asked for at most so many bytes and answers with an error, or with bytes and the reader
  after them; no bytes means the end. How the transport cuts the stream is up to the reader.
\<close>

type_synonym 'r read = "'r \<Rightarrow> nat \<Rightarrow> (string, string \<times> 'r) result"

function read_exact_or_eof :: "'r read \<Rightarrow> nat \<Rightarrow> 'r \<Rightarrow> (git_error, string \<times> 'r) result" where
  "read_exact_or_eof rd n r =
     (if n = 0 then Inr ([], r)
      else case rd r n of
             Inl e \<Rightarrow> Inl (Io e)
           | Inr (b, r') \<Rightarrow>
               if b = [] then Inr ([], r')
               else (case read_exact_or_eof rd (n - length b) r' of
                       Inl e \<Rightarrow> Inl e | Inr (bs, r'') \<Rightarrow> Inr (b @ bs, r'')))"
  by pat_completeness auto

termination read_exact_or_eof
  by (relation "measure (\<lambda>(rd, n, r). n)") auto

declare read_exact_or_eof.simps [simp del]

text \<open>\<open>read_exact\<close> of the library: the end of the stream before so many bytes is an error.\<close>

definition read_exact :: "'r read \<Rightarrow> nat \<Rightarrow> 'r \<Rightarrow> (git_error, string \<times> 'r) result" where
  "read_exact rd n r =
     (case read_exact_or_eof rd n r of
        Inl e \<Rightarrow> Inl e
      | Inr (bs, r') \<Rightarrow> if length bs < n then Inl (Io ''early eof'') else Inr (bs, r'))"

definition hex_digit :: "nat \<Rightarrow> char" where
  "hex_digit d = ''0123456789abcdef'' ! d"

fun hex_str :: "nat \<Rightarrow> string" where
  "hex_str n = (if n < 16 then [hex_digit n] else hex_str (n div 16) @ [hex_digit (n mod 16)])"

declare hex_str.simps [simp del]

definition hex_value :: "char \<Rightarrow> nat option" where
  "hex_value b =
     (if byte CHR ''0'' \<le> byte b \<and> byte b \<le> byte CHR ''9'' then Some (byte b - byte CHR ''0'')
      else if byte CHR ''a'' \<le> byte b \<and> byte b \<le> byte CHR ''f'' then Some (byte b - byte CHR ''a'' + 10)
      else if byte CHR ''A'' \<le> byte b \<and> byte b \<le> byte CHR ''F'' then Some (byte b - byte CHR ''A'' + 10)
      else None)"

fun parse_pkt_len :: "nat \<Rightarrow> string \<Rightarrow> (git_error, nat) result" where
  "parse_pkt_len val [] = Inr val"
| "parse_pkt_len val (b # bs) =
     (case hex_value b of
        None \<Rightarrow> Inl (Protocol (''non-hex pkt-line char 0x'' @ hex_str (byte b)))
      | Some d \<Rightarrow> parse_pkt_len (val * 16 + d) bs)"

definition read_pkt_line :: "'r read \<Rightarrow> 'r \<Rightarrow> (git_error, pkt_line option \<times> 'r) result" where
  "read_pkt_line rd r =
     (case read_exact_or_eof rd 4 r of
        Inl e \<Rightarrow> Inl e
      | Inr (hdr, r') \<Rightarrow>
          if length hdr = 0 then Inr (None, r')
          else if length hdr < 4 then Inl (Protocol ''short pkt-line header'')
          else (case parse_pkt_len 0 hdr of
                  Inl e \<Rightarrow> Inl e
                | Inr len \<Rightarrow>
                    if len = 0 then Inr (Some Flush, r')
                    else if len = 1 then Inr (Some Delim, r')
                    else if len = 2 then Inr (Some ResponseEnd, r')
                    else if len < 4 then Inl (Protocol (''invalid pkt-line length '' @ nat_str len))
                    else (case read_exact rd (len - 4) r' of
                            Inl e \<Rightarrow> Inl e
                          | Inr (buf, r'') \<Rightarrow> Inr (Some (Data buf), r''))))"

subsection \<open>Writing\<close>

text \<open>A writer is what has been written to it.\<close>

definition pkt_len_hex :: "nat \<Rightarrow> string" where
  "pkt_len_hex len = (let h = hex_str len in replicate (4 - length h) (CHR ''0'') @ h)"

function write_frames :: "string \<Rightarrow> string \<Rightarrow> nat \<Rightarrow> string" where
  "write_frames w dat off =
     (if off < length dat then
        (let chunk = min (length dat - off) MAX_PKT_DATA
         in write_frames (w @ pkt_len_hex (chunk + 4) @ take chunk (drop off dat)) dat (off + chunk))
      else w)"
  by pat_completeness auto

termination write_frames
  by (relation "measure (\<lambda>(w, dat, off). length dat - off)") (auto simp: MAX_PKT_DATA_def)

declare write_frames.simps [simp del]

definition write_pkt_line :: "string \<Rightarrow> string \<Rightarrow> string" where
  "write_pkt_line w dat = (if dat = [] then w @ ''0004'' else write_frames w dat 0)"

definition write_flush :: "string \<Rightarrow> string" where
  "write_flush w = w @ ''0000''"

definition write_delim :: "string \<Rightarrow> string" where
  "write_delim w = w @ ''0001''"

definition write_response_end :: "string \<Rightarrow> string" where
  "write_response_end w = w @ ''0002''"

text \<open>The sideband multiplexer: every frame starts with the number of its channel.\<close>

function channel_frames :: "nat \<Rightarrow> string \<Rightarrow> string \<Rightarrow> nat \<Rightarrow> string" where
  "channel_frames channel w buf off =
     (if off < length buf then
        (let chunk = min (length buf - off) (MAX_PKT_DATA - 1)
         in channel_frames channel
              (w @ pkt_len_hex (chunk + 4 + 1) @ [char_of channel] @ take chunk (drop off buf)) buf (off + chunk))
      else w)"
  by pat_completeness auto

termination channel_frames
  by (relation "measure (\<lambda>(channel, w, buf, off). length buf - off)") (auto simp: MAX_PKT_DATA_def)

declare channel_frames.simps [simp del]

definition write_channel :: "nat \<Rightarrow> string \<Rightarrow> string \<Rightarrow> string" where
  "write_channel channel w buf =
     (if buf = [] then w @ pkt_len_hex (4 + 1) @ [char_of channel] else channel_frames channel w buf 0)"

definition write_data :: "string \<Rightarrow> string \<Rightarrow> string" where
  "write_data = write_channel 1"

definition write_progress :: "string \<Rightarrow> string \<Rightarrow> string" where
  "write_progress = write_channel 2"

definition write_error :: "string \<Rightarrow> string \<Rightarrow> string" where
  "write_error = write_channel 3"

definition sideband_flush :: "string \<Rightarrow> string" where
  "sideband_flush w = w @ ''0000''"

text \<open>The encoders that append to a buffer.\<close>

definition encode_data :: "string \<Rightarrow> string \<Rightarrow> string" where
  "encode_data buf dat =
     (let total = length dat + 4
      in buf @ [hex_digit (and (drop_bit 12 total) 0xf), hex_digit (and (drop_bit 8 total) 0xf),
                hex_digit (and (drop_bit 4 total) 0xf), hex_digit (and total 0xf)] @ dat)"

definition encode_flush :: "string \<Rightarrow> string" where
  "encode_flush buf = buf @ ''0000''"

definition encode_delim :: "string \<Rightarrow> string" where
  "encode_delim buf = buf @ ''0001''"

definition encode_section :: "string \<Rightarrow> string \<Rightarrow> string list \<Rightarrow> string" where
  "encode_section buf sec lines = encode_flush (foldl encode_data (encode_data buf (sec @ nl)) lines)"

section \<open>Lemmas on strings\<close>

lemma ascii_Nil [simp]: "ascii []" by (simp add: ascii_def)

lemma ascii_Cons [simp]: "ascii (c # s) \<longleftrightarrow> byte c < 0x80 \<and> ascii s" by (simp add: ascii_def)

lemma ascii_append [simp]: "ascii (s @ t) \<longleftrightarrow> ascii s \<and> ascii t" by (simp add: ascii_def)

lemma lossy_Nil [simp]: "from_utf8_lossy [] = []" by (subst from_utf8_lossy.simps) simp

lemma lossy_ascii_Cons: "byte c < 0x80 \<Longrightarrow> from_utf8_lossy (c # s) = c # from_utf8_lossy s"
  by (subst from_utf8_lossy.simps) (simp add: utf8_width_def)

lemma lossy_ascii_append: "ascii a \<Longrightarrow> from_utf8_lossy (a @ s) = a @ from_utf8_lossy s"
  by (induction a) (simp_all add: lossy_ascii_Cons)

lemma utf8_ascii: "ascii s \<Longrightarrow> utf8 s"
  using lossy_ascii_append [of s "[]"] by (simp add: utf8_def)

lemma utf8_Nil [simp]: "utf8 []" by (simp add: utf8_def)

lemma utf8_ascii_append: "ascii a \<Longrightarrow> utf8 (a @ s) \<longleftrightarrow> utf8 s"
  by (simp add: utf8_def lossy_ascii_append)

text \<open>A well-formed piece does not depend on what follows, and an ill-formed one is not its replacement.\<close>

lemma piece_append: "utf8_piece s = (True, n) \<Longrightarrow> utf8_piece (s @ t) = (True, n)"
  by (cases s) (auto split: nat.splits list.splits if_splits)

lemma piece_le: "utf8_piece s = (b, n) \<Longrightarrow> n \<le> length s"
  by (cases s) (auto split: nat.splits list.splits if_splits)

lemma piece_of_replacement: "utf8_piece (u_replacement @ t) = (True, 3)"
proof -
  have "utf8_width (CHR 0xEF) = 3" "utf8_second (CHR 0xEF) (CHR 0xBF)" "utf8_cont (CHR 0xBD)"
    by (code_simp)+
  then show ?thesis by (simp add: u_replacement_def eval_nat_numeral)
qed

lemma utf8_cases:
  assumes "utf8 s" "s \<noteq> []"
  obtains n where "utf8_piece s = (True, n)" "0 < n" "n \<le> length s" "utf8 (drop n s)"
proof -
  obtain ok n where p: "utf8_piece s = (ok, n)" by fastforce
  have n: "0 < n" "n \<le> length s" using utf8_piece_pos [OF assms(2)] piece_le p by auto
  have eq: "(if ok then take n s else u_replacement) @ from_utf8_lossy (drop n s) = s"
    using assms p from_utf8_lossy.simps [of s] by (simp add: utf8_def split: if_splits)
  have ok: ok
  proof (rule ccontr)
    assume "\<not> ok"
    with eq have "s = u_replacement @ from_utf8_lossy (drop n s)" by simp
    then have "utf8_piece s = (True, 3)" using piece_of_replacement by metis
    with p \<open>\<not> ok\<close> show False by simp
  qed
  then have "from_utf8_lossy (drop n s) = drop n s"
    using eq by (metis append_take_drop_id same_append_eq)
  then show ?thesis using that p ok n by (simp add: utf8_def)
qed

lemma lossy_append: "utf8 s \<Longrightarrow> from_utf8_lossy (s @ t) = s @ from_utf8_lossy t"
proof (induction "length s" arbitrary: s rule: less_induct)
  case less
  show ?case
  proof (cases "s = []")
    case False
    with less.prems obtain n where n: "utf8_piece s = (True, n)" "0 < n" "n \<le> length s" "utf8 (drop n s)"
      by (rule utf8_cases)
    have "from_utf8_lossy (s @ t) = take n s @ from_utf8_lossy (drop n s @ t)"
      using n False by (subst from_utf8_lossy.simps) (simp add: piece_append)
    also have "\<dots> = take n s @ drop n s @ from_utf8_lossy t" using less.hyps [of "drop n s"] n False by simp
    finally show ?thesis by simp
  qed simp
qed

lemma utf8_append: "utf8 s \<Longrightarrow> utf8 t \<Longrightarrow> utf8 (s @ t)"
  by (simp add: utf8_def lossy_append)

lemma trim_end_nl_one: "s = [] \<or> last s \<noteq> CHR 0x0A \<Longrightarrow> trim_end_nl (s @ nl) = s"
  by (cases s rule: rev_cases) (auto simp: trim_end_nl_def)

lemma trim_end_nl_none: "s = [] \<or> last s \<noteq> CHR 0x0A \<Longrightarrow> trim_end_nl s = s"
  by (cases s rule: rev_cases) (auto simp: trim_end_nl_def)

lemma str_strip_prefix_append [simp]: "str_strip_prefix p (p @ s) = Some s"
  by (simp add: str_strip_prefix_def)

lemma split_once_append: "c \<notin> set a \<Longrightarrow> split_once c (a @ c # b) = Some (a, b)"
  by (induction a) (auto simp: split_once_def)

lemma split_lines_concat: "concat (split_lines s) = s"
  by (induction s) (auto split: list.splits)

lemma split_lines_line:
  "CHR 0x0A \<notin> set l \<Longrightarrow> split_lines (l @ CHR 0x0A # s) = (l @ nl) # split_lines s"
  by (induction l) auto

section \<open>Lemmas on frames\<close>

text \<open>The four digits of a frame's header.\<close>

definition hex4 :: "nat \<Rightarrow> string" where
  "hex4 n = [hex_digit (n div 4096 mod 16), hex_digit (n div 256 mod 16), hex_digit (n div 16 mod 16), hex_digit (n mod 16)]"

lemma length_hex4 [simp]: "length (hex4 n) = 4" by (simp add: hex4_def)

lemma hex4_nonempty [simp]: "hex4 n \<noteq> []" by (simp add: hex4_def)

lemma hex_value_digit: "n < 16 \<Longrightarrow> hex_value (hex_digit n) = Some n"
proof -
  have "\<forall>n < 16. hex_value (hex_digit n) = Some n" by code_simp
  then show "n < 16 \<Longrightarrow> ?thesis" by blast
qed

lemma hex4_value: "parse_pkt_len 0 (hex4 n) = Inr (n mod 65536)"
proof -
  have "n mod 65536 = 4096 * (n div 4096 mod 16) + n mod 4096"
    "n mod 4096 = 256 * (n div 256 mod 16) + n mod 256"
    "n mod 256 = 16 * (n div 16 mod 16) + n mod 16"
    using mod_mult2_eq [of n 4096 16] mod_mult2_eq [of n 256 16] mod_mult2_eq [of n 16 16] by simp_all
  moreover have "x = 4096 * a + y \<Longrightarrow> y = 256 * b + z \<Longrightarrow> z = 16 * c + d \<Longrightarrow> ((a * 16 + b) * 16 + c) * 16 + d = x"
    for a b c d x y z :: nat by simp
  ultimately have "((n div 4096 mod 16 * 16 + n div 256 mod 16) * 16 + n div 16 mod 16) * 16 + n mod 16 = n mod 65536"
    by blast
  then show ?thesis by (simp add: hex4_def hex_value_digit)
qed

lemma hex_str_digits: "hex_str n = (if n < 16 then [] else hex_str (n div 16)) @ [hex_digit (n mod 16)]"
  by (subst hex_str.simps) simp

lemma hex_str_short:
  "n < 16 \<Longrightarrow> hex_str n = [hex_digit n]"
  "16 \<le> n \<Longrightarrow> hex_str n = hex_str (n div 16) @ [hex_digit (n mod 16)]"
  using hex_str_digits [of n] by auto

lemma pkt_len_hex4: "n < 65536 \<Longrightarrow> pkt_len_hex n = hex4 n"
proof -
  assume n: "n < 65536"
  have d: "n div 16 div 16 = n div 256" "n div 256 div 16 = n div 4096"
    by (simp_all add: div_mult2_eq [symmetric])
  have z: "hex_digit 0 = CHR ''0''" by (simp add: hex_digit_def)
  consider "n < 16" | "16 \<le> n" "n < 256" | "256 \<le> n" "n < 4096" | "4096 \<le> n" by linarith
  then show ?thesis
  proof cases
    case 1
    then have h: "hex_str n = [hex_digit n]" by (rule hex_str_short)
    from 1 have "n div 16 = 0" "n div 256 = 0" "n div 4096 = 0" "n mod 16 = n" by simp_all
    then show ?thesis unfolding pkt_len_hex_def hex4_def h by (simp add: z numeral_3_eq_3)
  next
    case 2
    then have k: "n div 16 < 16" by simp
    have h: "hex_str n = [hex_digit (n div 16), hex_digit (n mod 16)]"
      using hex_str_short(2) [OF 2(1)] hex_str_short(1) [OF k] by simp
    from 2 k have "n div 256 = 0" "n div 4096 = 0" "n div 16 mod 16 = n div 16" by simp_all
    then show ?thesis unfolding pkt_len_hex_def hex4_def h by (simp add: z numeral_2_eq_2)
  next
    case 3
    then have k: "16 \<le> n div 16" "n div 256 < 16" "16 \<le> n" by simp_all
    have h: "hex_str n = [hex_digit (n div 256), hex_digit (n div 16 mod 16), hex_digit (n mod 16)]"
      using hex_str_short(2) [OF k(3)] hex_str_short(2) [OF k(1)] hex_str_short(1) [OF k(2)] d by simp
    from 3 k have "n div 4096 = 0" "n div 256 mod 16 = n div 256" by simp_all
    then show ?thesis unfolding pkt_len_hex_def hex4_def h by (simp add: z)
  next
    case 4
    then have k: "16 \<le> n div 16" "16 \<le> n div 256" "n div 4096 < 16" "16 \<le> n" using n by simp_all
    have h: "hex_str n =
        [hex_digit (n div 4096), hex_digit (n div 256 mod 16), hex_digit (n div 16 mod 16), hex_digit (n mod 16)]"
      using hex_str_short(2) [OF k(4)] hex_str_short(2) [OF k(1)] hex_str_short(2) [OF k(2)]
        hex_str_short(1) [OF k(3)] d by simp
    from k have "n div 4096 mod 16 = n div 4096" by simp
    then show ?thesis unfolding pkt_len_hex_def hex4_def h by simp
  qed
qed

lemma encode_data_hex4: "encode_data buf dat = buf @ hex4 (length dat + 4) @ dat"
proof -
  have m: "and k 15 = k mod 16" for k :: nat
    using take_bit_eq_mask [of 4 k] by (simp add: mask_eq_exp_minus_1 take_bit_eq_mod)
  show ?thesis by (simp add: encode_data_def hex4_def m drop_bit_eq_div Let_def)
qed

section \<open>Readers\<close>

text \<open>
  What a reader promises: the bytes come in order and none is lost, no more than asked for, and none
  only at the end. A healthy reader does not fail. \<open>rest\<close> is what is still to come.
\<close>

locale byte_reader =
  fixes rd :: "'r read" and rest :: "'r \<Rightarrow> string" and healthy :: "'r \<Rightarrow> bool"
  assumes rd_rest: "rd r n = Inr (b, r') \<Longrightarrow> rest r = b @ rest r'"
    and rd_length: "rd r n = Inr (b, r') \<Longrightarrow> length b \<le> n"
    and rd_eof: "rd r n = Inr ([], r') \<Longrightarrow> 0 < n \<Longrightarrow> rest r = []"
    and rd_healthy: "healthy r \<Longrightarrow> \<exists>b r'. rd r n = Inr (b, r') \<and> healthy r'"

text \<open>The input as one string in memory, and what a result is when the reader is replaced by its rest.\<close>

definition str_read :: "string read" where
  "str_read s n = Inr (take n s, drop n s)"

definition on_rest :: "('r \<Rightarrow> string) \<Rightarrow> (git_error, 'a \<times> 'r) result \<Rightarrow> (git_error, 'a \<times> string) result" where
  "on_rest rest x = map_sum id (map_prod id rest) x"

definition leaves_ok :: "('r \<Rightarrow> bool) \<Rightarrow> (git_error, 'a \<times> 'r) result \<Rightarrow> bool" where
  "leaves_ok healthy x = (case x of Inl e \<Rightarrow> True | Inr (a, r) \<Rightarrow> healthy r)"

lemma on_rest_simps [simp]:
  "on_rest rest (Inl e) = Inl e" "on_rest rest (Inr (a, r)) = Inr (a, rest r)"
  by (simp_all add: on_rest_def)

lemma leaves_ok_simps [simp]:
  "leaves_ok healthy (Inl e)" "leaves_ok healthy (Inr (a, r)) = healthy r"
  by (simp_all add: leaves_ok_def)

lemma on_rest_eq_Inl: "on_rest rest x = Inl e \<longleftrightarrow> x = Inl e"
  by (cases x) (auto simp: on_rest_def)

lemma on_rest_eq_Inr: "on_rest rest x = Inr (a, s) \<longleftrightarrow> (\<exists>r. x = Inr (a, r) \<and> rest r = s)"
  by (cases x) (auto simp: on_rest_def)

context byte_reader
begin

lemma exact_or_eof:
  "healthy r \<Longrightarrow> \<exists>r'. read_exact_or_eof rd n r = Inr (take n (rest r), r') \<and> rest r' = drop n (rest r) \<and> healthy r'"
proof (induction n arbitrary: r rule: less_induct)
  case (less n)
  show ?case
  proof (cases "n = 0")
    case True
    then show ?thesis using less.prems by (subst read_exact_or_eof.simps) simp
  next
    case False
    obtain b r1 where b: "rd r n = Inr (b, r1)" "healthy r1" using rd_healthy less.prems by blast
    then have rest: "rest r = b @ rest r1" "length b \<le> n" using rd_rest rd_length by blast+
    show ?thesis
    proof (cases "b = []")
      case True
      then have "rest r = []" using rd_eof b False by blast
      then show ?thesis using True b rest False by (subst read_exact_or_eof.simps) simp
    next
      case nonempty: False
      then have "n - length b < n" using False by (cases b) auto
      then obtain r2 where r2: "read_exact_or_eof rd (n - length b) r1 = Inr (take (n - length b) (rest r1), r2)"
        "rest r2 = drop (n - length b) (rest r1)" "healthy r2"
        using less.IH b(2) by blast
      then have "read_exact_or_eof rd n r = Inr (b @ take (n - length b) (rest r1), r2)"
        using b False nonempty by (subst read_exact_or_eof.simps) simp
      then show ?thesis using r2 rest by simp
    qed
  qed
qed

end

interpretation mem: byte_reader str_read "\<lambda>s. s" "\<lambda>s. True"
  by unfold_locales (auto simp: str_read_def)

lemma str_exact_or_eof: "read_exact_or_eof str_read n s = Inr (take n s, drop n s)"
  using mem.exact_or_eof by simp

lemma str_exact:
  "read_exact str_read n s = (if length s < n then Inl (Io ''early eof'') else Inr (take n s, drop n s))"
  by (simp add: read_exact_def str_exact_or_eof)

context byte_reader
begin

lemma exact:
  "healthy r \<Longrightarrow> on_rest rest (read_exact rd n r) = read_exact str_read n (rest r) \<and> leaves_ok healthy (read_exact rd n r)"
  using exact_or_eof [of r n] by (auto simp: read_exact_def str_exact_or_eof)

text \<open>However the transport cuts the stream, the lines are those of the stream.\<close>

lemma pkt_line:
  assumes "healthy r"
  shows "on_rest rest (read_pkt_line rd r) = read_pkt_line str_read (rest r)"
    and "leaves_ok healthy (read_pkt_line rd r)"
proof -
  obtain r1 where r1: "read_exact_or_eof rd 4 r = Inr (take 4 (rest r), r1)" "rest r1 = drop 4 (rest r)" "healthy r1"
    using exact_or_eof assms by blast
  have e: "on_rest rest (read_exact rd n r1) = read_exact str_read n (drop 4 (rest r))"
    "leaves_ok healthy (read_exact rd n r1)" for n
    using exact [OF r1(3), of n] r1(2) by simp_all
  have "on_rest rest (read_pkt_line rd r) = read_pkt_line str_read (rest r) \<and> leaves_ok healthy (read_pkt_line rd r)"
  proof (cases "parse_pkt_len 0 (take 4 (rest r))")
    case (Inr len)
    then show ?thesis using r1 e(2) [of "len - 4"] e(1) [of "len - 4", symmetric]
      by (cases "read_exact rd (len - 4) r1") (auto simp: read_pkt_line_def str_exact_or_eof)
  qed (use r1 in \<open>auto simp: read_pkt_line_def str_exact_or_eof\<close>)
  then show "on_rest rest (read_pkt_line rd r) = read_pkt_line str_read (rest r)"
    "leaves_ok healthy (read_pkt_line rd r)" by blast+
qed

end

section \<open>Loops over lines\<close>

text \<open>
  The parsers of requests are loops that read a line and go on, stop or fail. A loop that never
  stops has no value.
\<close>

datatype 's loop_turn = Go 's | Stop 's | Fail git_error

partial_function (option) line_loop ::
  "'r read \<Rightarrow> (pkt_line option \<Rightarrow> 's \<Rightarrow> 's loop_turn) \<Rightarrow> 's \<Rightarrow> 'r \<Rightarrow> (git_error, 's \<times> 'r) result option" where
  "line_loop rd f s r =
     (case read_pkt_line rd r of
        Inl e \<Rightarrow> Some (Inl e)
      | Inr (l, r') \<Rightarrow>
          (case f l s of Go s' \<Rightarrow> line_loop rd f s' r' | Stop s' \<Rightarrow> Some (Inr (s', r')) | Fail e \<Rightarrow> Some (Inl e)))"

declare line_loop.simps [code]

text \<open>A line on the wire.\<close>

fun pkt_bytes :: "pkt_line \<Rightarrow> string" where
  "pkt_bytes (Data d) = encode_data [] d"
| "pkt_bytes Flush = encode_flush []"
| "pkt_bytes Delim = encode_delim []"
| "pkt_bytes ResponseEnd = ''0002''"

definition line_ok :: "pkt_line \<Rightarrow> bool" where
  "line_ok l = (case l of Data d \<Rightarrow> length d < 65532 | _ \<Rightarrow> True)"

definition wire :: "pkt_line list \<Rightarrow> string" where
  "wire ls = concat (map pkt_bytes ls)"

lemma wire_simps [simp]:
  "wire [] = []" "wire (l # ls) = pkt_bytes l @ wire ls" "wire (ls @ ms) = wire ls @ wire ms"
  by (simp_all add: wire_def)

lemma encode_data_buf: "encode_data buf d = buf @ pkt_bytes (Data d)"
  by (simp add: encode_data_hex4)

lemma encode_data_fold: "foldl encode_data buf ds = buf @ wire (map Data ds)"
  by (induction ds arbitrary: buf) (simp_all add: encode_data_hex4)

lemma four_digits:
  "parse_pkt_len 0 ''0000'' = Inr 0" "parse_pkt_len 0 ''0001'' = Inr 1" "parse_pkt_len 0 ''0002'' = Inr 2"
  by (code_simp)+

lemma read_header:
  "length h = 4 \<Longrightarrow> parse_pkt_len 0 h = Inr n \<Longrightarrow> n \<noteq> 3 \<Longrightarrow>
   read_pkt_line str_read (h @ t) =
     (if n = 0 then Inr (Some Flush, t) else if n = 1 then Inr (Some Delim, t) else if n = 2 then Inr (Some ResponseEnd, t)
      else if length t < n - 4 then Inl (Io ''early eof'') else Inr (Some (Data (take (n - 4) t)), drop (n - 4) t))"
  by (auto simp: read_pkt_line_def str_exact_or_eof str_exact)

lemma read_pkt_bytes [simp]: "line_ok l \<Longrightarrow> read_pkt_line str_read (pkt_bytes l @ t) = Inr (Some l, t)"
proof (cases l)
  case (Data d)
  assume "line_ok l"
  with Data have "length d < 65532" by (simp add: line_ok_def)
  then have "parse_pkt_len 0 (hex4 (length d + 4)) = Inr (length d + 4)" by (simp add: hex4_value)
  with Data show ?thesis using read_header [of "hex4 (length d + 4)" "length d + 4" "d @ t"]
    by (simp add: encode_data_hex4)
qed (use read_header [OF _ four_digits(1)] read_header [OF _ four_digits(2)] read_header [OF _ four_digits(3)]
       in \<open>simp_all add: encode_flush_def encode_delim_def\<close>)

lemma read_eof [simp]: "read_pkt_line str_read [] = Inr (None, [])"
  by (simp add: read_pkt_line_def str_exact_or_eof)

lemma line_loop_line [simp]:
  "line_ok l \<Longrightarrow> line_loop str_read f s (pkt_bytes l @ t) =
     (case f (Some l) s of Go s' \<Rightarrow> line_loop str_read f s' t | Stop s' \<Rightarrow> Some (Inr (s', t)) | Fail e \<Rightarrow> Some (Inl e))"
  by (subst line_loop.simps) simp

text \<open>A loop over lines on which it goes on.\<close>

lemma line_loop_go:
  assumes "list_all line_ok ls" "\<And>l s. l \<in> set ls \<Longrightarrow> P l s \<Longrightarrow> f (Some l) s = Go (g l s)"
    and "\<And>l s l'. l \<in> set ls \<Longrightarrow> l' \<in> set ls \<Longrightarrow> P l s \<Longrightarrow> P l' s \<Longrightarrow> P l' (g l s)"
    and "\<And>l. l \<in> set ls \<Longrightarrow> P l s"
  shows "line_loop str_read f s (wire ls @ t) = line_loop str_read f (fold g ls s) t"
  using assms
proof (induction ls arbitrary: s)
  case (Cons l ls)
  have "f (Some l) s = Go (g l s)" using Cons.prems(2) Cons.prems(4) by simp
  moreover have "line_loop str_read f (g l s) (wire ls @ t) = line_loop str_read f (fold g ls (g l s)) t"
  proof (rule Cons.IH)
    show "list_all line_ok ls" using Cons.prems(1) by simp
    show "\<And>l' s. l' \<in> set ls \<Longrightarrow> P l' s \<Longrightarrow> f (Some l') s = Go (g l' s)" using Cons.prems(2) by simp
    show "\<And>l s l'. l \<in> set ls \<Longrightarrow> l' \<in> set ls \<Longrightarrow> P l s \<Longrightarrow> P l' s \<Longrightarrow> P l' (g l s)" using Cons.prems(3) by simp
    show "\<And>l'. l' \<in> set ls \<Longrightarrow> P l' (g l s)" using Cons.prems(3, 4) by simp
  qed
  ultimately show ?case using Cons.prems(1) by simp
qed simp

text \<open>A line that is read is at least four bytes long, so a loop that stops at the end of the input stops.\<close>

lemma read_consumes: "read_pkt_line str_read s = Inr (Some l, t) \<Longrightarrow> length t < length s"
  by (auto simp: read_pkt_line_def str_exact_or_eof str_exact split: if_splits sum.splits)

lemma str_loop_returns:
  assumes "\<And>s s'. f None s \<noteq> Go s'"
  shows "\<exists>x. line_loop str_read f s i = Some x"
proof (induction "length i" arbitrary: i s rule: less_induct)
  case less
  show ?case
  proof (cases "read_pkt_line str_read i")
    case (Inl e)
    then show ?thesis by (subst line_loop.simps) simp
  next
    case (Inr p)
    obtain l t where p: "p = (l, t)" by fastforce
    show ?thesis
    proof (cases "f l s")
      case (Go s')
      then have "length t < length i" using Inr p assms read_consumes by (cases l) auto
      then show ?thesis using Inr p Go less by (subst line_loop.simps) simp
    qed (use Inr p in \<open>subst line_loop.simps, simp\<close>)+
  qed
qed

text \<open>Loops over any reader are loops over its bytes.\<close>

definition on_rest_opt :: "('r \<Rightarrow> string) \<Rightarrow> (git_error, 'a \<times> 'r) result option \<Rightarrow> (git_error, 'a \<times> string) result option" where
  "on_rest_opt rest x = map_option (on_rest rest) x"

lemma on_rest_opt_simps [simp]:
  "on_rest_opt rest None = None" "on_rest_opt rest (Some x) = Some (on_rest rest x)"
  by (simp_all add: on_rest_opt_def)

context byte_reader
begin

lemma loop:
  assumes "healthy r" and f: "\<And>s s'. f None s \<noteq> Go s'"
  shows "on_rest_opt rest (line_loop rd f s r) = line_loop str_read f s (rest r) \<and>
    (\<forall>x. line_loop rd f s r = Some x \<longrightarrow> leaves_ok healthy x)"
  using assms(1)
proof (induction "length (rest r)" arbitrary: r s rule: less_induct)
  case less
  note l = pkt_line [OF less.prems]
  show ?case
  proof (cases "read_pkt_line rd r")
    case (Inl e)
    then show ?thesis using l(1) [symmetric] by (subst (1 2 3) line_loop.simps) simp
  next
    case (Inr p)
    obtain m r' where p: "p = (m, r')" by fastforce
    have h: "healthy r'" using Inr p l(2) by simp
    have s: "read_pkt_line str_read (rest r) = Inr (m, rest r')" using l(1) Inr p by simp
    show ?thesis
    proof (cases "f m s")
      case (Go s')
      then have "length (rest r') < length (rest r)" using s f read_consumes by (cases m) auto
      then show ?thesis using Inr p s Go less.hyps [OF _ h, of s'] by (subst (1 2 3) line_loop.simps) simp
    qed (use Inr p s h in \<open>subst (1 2 3) line_loop.simps, simp\<close>)+
  qed
qed

end

section \<open>Round trips of frames\<close>

text \<open>The frames of a long write: full ones, and the rest.\<close>

function chunks_of :: "nat \<Rightarrow> string \<Rightarrow> string list" where
  "chunks_of n s = (if s = [] then [] else if n = 0 then [s] else take n s # chunks_of n (drop n s))"
  by pat_completeness auto

termination chunks_of by (relation "measure (\<lambda>(n, s). length s)") auto

declare chunks_of.simps [simp del]

lemma chunks_of_Nil [simp]: "chunks_of n [] = []"
  by (subst chunks_of.simps) simp

lemma chunks_of_cut: "s \<noteq> [] \<Longrightarrow> 0 < n \<Longrightarrow> chunks_of n s = take n s # chunks_of n (drop n s)"
  by (subst chunks_of.simps) simp

lemma chunks_of_short: "s \<noteq> [] \<Longrightarrow> length s \<le> n \<Longrightarrow> chunks_of n s = [s]"
  by (subst chunks_of.simps) auto

lemma chunks_of_concat: "concat (chunks_of n s) = s"
  by (induction n s rule: chunks_of.induct) (subst chunks_of.simps, simp)

lemma chunks_of_sizes: "0 < n \<Longrightarrow> c \<in> set (chunks_of n s) \<Longrightarrow> c \<noteq> [] \<and> length c \<le> n"
proof (induction n s rule: chunks_of.induct)
  case (1 n s)
  show ?case
  proof (cases "s = []")
    case False
    then have "c = take n s \<or> c \<in> set (chunks_of n (drop n s))" using "1.prems" by (auto simp: chunks_of_cut)
    then show ?thesis using 1 False by auto
  qed (use 1 in simp)
qed

text \<open>A loop that appends the encoding of one piece after the other.\<close>

lemma chunk_loop:
  assumes n: "0 < n"
    and g: "\<And>w off. g w off =
      (if off < length d then (let chunk = min (length d - off) n in g (w @ e (take chunk (drop off d))) (off + chunk)) else w)"
  shows "g w off = w @ concat (map e (chunks_of n (drop off d)))"
proof (induction "length d - off" arbitrary: w off rule: less_induct)
  case less
  show ?case
  proof (cases "off < length d")
    case True
    define chunk where "chunk = min (length d - off) n"
    have t: "take n (drop off d) = take chunk (drop off d)" "drop n (drop off d) = drop (off + chunk) d"
      by (auto simp: chunk_def min_def add.commute)
    have "g w off = g (w @ e (take chunk (drop off d))) (off + chunk)"
      using True by (subst g) (simp add: chunk_def Let_def)
    also have "\<dots> = w @ e (take chunk (drop off d)) @ concat (map e (chunks_of n (drop (off + chunk) d)))"
      using less [of "off + chunk"] True n by (simp add: chunk_def)
    finally show ?thesis using True n t by (simp add: chunks_of_cut)
  qed (subst g, simp)
qed

lemma frames_wire: "list_all (\<lambda>c. length c + 4 < 65536) cs \<Longrightarrow>
  concat (map (\<lambda>c. pkt_len_hex (length c + 4) @ c) cs) = wire (map Data cs)"
  by (induction cs) (simp_all add: encode_data_hex4 pkt_len_hex4)

lemma write_pkt_line_wire:
  "write_pkt_line w d = w @ wire (map Data (if d = [] then [[]] else chunks_of MAX_PKT_DATA d))"
proof -
  have "write_frames w d off =
      (if off < length d then (let chunk = min (length d - off) MAX_PKT_DATA
        in write_frames (w @ pkt_len_hex (length (take chunk (drop off d)) + 4) @ take chunk (drop off d)) d (off + chunk))
       else w)" for w off
    by (subst write_frames.simps) (simp add: Let_def)
  then have "write_frames w d 0 = w @ concat (map (\<lambda>c. pkt_len_hex (length c + 4) @ c) (chunks_of MAX_PKT_DATA (drop 0 d)))"
    by (intro chunk_loop) (auto simp: MAX_PKT_DATA_def)
  moreover have "list_all (\<lambda>c. length c + 4 < 65536) (chunks_of MAX_PKT_DATA d)"
    using chunks_of_sizes [of MAX_PKT_DATA _ d] by (fastforce simp: list_all_iff MAX_PKT_DATA_def)
  moreover have "hex4 4 = ''0004''" by (simp add: hex4_def hex_digit_def)
  ultimately show ?thesis by (simp add: write_pkt_line_def frames_wire encode_data_hex4)
qed

definition channel_parts :: "string \<Rightarrow> string list" where
  "channel_parts buf = (if buf = [] then [[]] else chunks_of (MAX_PKT_DATA - 1) buf)"

lemma channel_parts_props:
  "concat (channel_parts buf) = buf" "p \<in> set (channel_parts buf) \<Longrightarrow> length p \<le> MAX_PKT_DATA - 1"
  using chunks_of_sizes [of "MAX_PKT_DATA - 1" p buf]
  by (auto simp: channel_parts_def chunks_of_concat MAX_PKT_DATA_def split: if_splits)

lemma write_channel_wire:
  "write_channel c w buf = w @ wire (map Data (map (Cons (char_of c)) (channel_parts buf)))"
proof -
  let ?e = "\<lambda>p. pkt_len_hex (length p + 4 + 1) @ [char_of c] @ p"
  have "channel_frames c w buf off =
      (if off < length buf then (let chunk = min (length buf - off) (MAX_PKT_DATA - 1)
        in channel_frames c (w @ ?e (take chunk (drop off buf))) buf (off + chunk))
       else w)" for w off
    by (subst channel_frames.simps) (simp add: Let_def)
  then have "channel_frames c w buf 0 = w @ concat (map ?e (chunks_of (MAX_PKT_DATA - 1) (drop 0 buf)))"
    by (intro chunk_loop) (auto simp: MAX_PKT_DATA_def)
  then have "write_channel c w buf = w @ concat (map ?e (channel_parts buf))"
    by (simp add: write_channel_def channel_parts_def)
  also have "map ?e (channel_parts buf) = map (\<lambda>c. pkt_len_hex (length c + 4) @ c) (map (Cons (char_of c)) (channel_parts buf))"
    by (simp add: add.commute)
  also have "concat \<dots> = wire (map Data (map (Cons (char_of c)) (channel_parts buf)))"
    using channel_parts_props(2) [of _ buf] by (intro frames_wire) (fastforce simp: list_all_iff MAX_PKT_DATA_def)
  finally show ?thesis .
qed

section \<open>Streams of lines\<close>

text \<open>All lines of a stream up to its end, and the bytes a channel of a sideband stream carries.\<close>

definition collect :: "pkt_line option \<Rightarrow> pkt_line list \<Rightarrow> pkt_line list loop_turn" where
  "collect l ls = (case l of None \<Rightarrow> Stop ls | Some x \<Rightarrow> Go (ls @ [x]))"

definition all_lines :: "'r read \<Rightarrow> 'r \<Rightarrow> (git_error, pkt_line list \<times> 'r) result option" where
  "all_lines rd r = line_loop rd collect [] r"

definition demux :: "nat \<Rightarrow> pkt_line list \<Rightarrow> string" where
  "demux c ls = concat (map (\<lambda>l. case l of Data (b # d) \<Rightarrow> if b = char_of c then d else [] | _ \<Rightarrow> []) ls)"

lemma demux_simps [simp]: "demux c [] = []" "demux c (ls @ ms) = demux c ls @ demux c ms"
  "demux c (Flush # ls) = demux c ls"
  by (simp_all add: demux_def)

lemma all_lines_wire: "list_all line_ok ls \<Longrightarrow> all_lines str_read (wire ls) = Some (Inr (ls, []))"
proof -
  assume ls: "list_all line_ok ls"
  have "line_loop str_read collect acc (wire ls) = Some (Inr (acc @ ls, []))" for acc
    using ls
  proof (induction ls arbitrary: acc)
    case Nil
    show ?case by (subst line_loop.simps) (simp add: collect_def)
  qed (simp add: collect_def)
  then show ?thesis by (simp add: all_lines_def)
qed

lemma char_of_inj: "a < 256 \<Longrightarrow> b < 256 \<Longrightarrow> char_of (a :: nat) = char_of b \<longleftrightarrow> a = b"
  by (metis of_char_of mod_less)

lemma demux_channel:
  "c < 256 \<Longrightarrow> k < 256 \<Longrightarrow> demux c (map Data (map (Cons (char_of k)) ps)) = (if c = k then concat ps else [])"
  by (induction ps) (auto simp: demux_def char_of_inj)

text \<open>
  A client that reads the frames of any sequence of writes to a sideband gets, for every channel,
  exactly the bytes written to it in their order; every frame fits into a pkt-line.
\<close>

theorem sideband_demux:
  assumes "\<forall>(c, buf) \<in> set ws. c < 256"
  shows "\<exists>ls. all_lines str_read (sideband_flush (foldl (\<lambda>w (c, buf). write_channel c w buf) [] ws)) =
      Some (Inr (ls @ [Flush], [])) \<and>
    (\<forall>c < 256. demux c ls = concat (map snd (filter (\<lambda>(k, buf). k = c) ws))) \<and>
    (\<forall>l \<in> set ls. \<exists>d. l = Data d \<and> d \<noteq> [] \<and> length d \<le> MAX_PKT_DATA)"
proof -
  let ?f = "\<lambda>(c, buf). map Data (map (Cons (char_of c)) (channel_parts buf))"
  define ls where "ls = concat (map ?f ws)"
  have "foldl (\<lambda>w (c, buf). write_channel c w buf) w ws = w @ wire (concat (map ?f ws))" for w
    by (induction ws arbitrary: w) (auto simp: write_channel_wire)
  then have w: "sideband_flush (foldl (\<lambda>w (c, buf). write_channel c w buf) [] ws) = wire (ls @ [Flush])"
    by (simp add: sideband_flush_def ls_def encode_flush_def)
  have d: "\<exists>d. l = Data d \<and> d \<noteq> [] \<and> length d \<le> MAX_PKT_DATA" if "l \<in> set ls" for l
    using that channel_parts_props(2) by (fastforce simp: ls_def MAX_PKT_DATA_def)
  then have "list_all line_ok (ls @ [Flush])"
    by (fastforce simp: list_all_iff line_ok_def MAX_PKT_DATA_def)
  then have a: "all_lines str_read (wire (ls @ [Flush])) = Some (Inr (ls @ [Flush], []))" by (rule all_lines_wire)
  have "demux c ls = concat (map snd (filter (\<lambda>(k, buf). k = c) ws))" if c: "c < 256" for c
    using assms unfolding ls_def
    by (induction ws) (use c in \<open>auto simp: demux_channel channel_parts_props(1) simp del: map_map\<close>)
  with a d w show ?thesis by metis
qed

theorem sideband_demux_witness:
  "\<exists>ls. all_lines str_read (sideband_flush
      (foldl (\<lambda>w (c, buf). write_channel c w buf) [] [(2, ''hello''), (1, ''PACK''), (2, ''bye'')])) = Some (Inr (ls @ [Flush], [])) \<and>
    demux 1 ls = ''PACK'' \<and> demux 2 ls = ''hellobye'' \<and> demux 3 ls = []"
  using sideband_demux [of "[(2, ''hello''), (1, ''PACK''), (2, ''bye'')]"] by fastforce
section \<open>Request bodies\<close>

text \<open>
  A request body as the transport delivers it: pieces of any size, or an error. A piece larger than
  the request is cut, empty pieces are passed over.
\<close>

fun chunk_read :: "(string, string) result list read" where
  "chunk_read [] n = Inr ([], [])"
| "chunk_read (Inl e # cs) n = Inl e"
| "chunk_read (Inr b # cs) n =
     (if b = [] then chunk_read cs n
      else if length b \<le> n then Inr (b, cs) else Inr (take n b, Inr (drop n b) # cs))"

definition chunk_rest :: "(string, string) result list \<Rightarrow> string" where
  "chunk_rest cs = concat (map (case_sum (\<lambda>e. []) (\<lambda>b. b)) cs)"

definition chunk_healthy :: "(string, string) result list \<Rightarrow> bool" where
  "chunk_healthy cs = list_all (case_sum (\<lambda>e. False) (\<lambda>b. True)) cs"

lemma chunk_read_bytes:
  "chunk_read r n = Inr (b, r') \<Longrightarrow>
     chunk_rest r = b @ chunk_rest r' \<and> length b \<le> n \<and> (0 < n \<longrightarrow> b = [] \<longrightarrow> chunk_rest r = [])"
  by (induction r n rule: chunk_read.induct) (auto simp: chunk_rest_def split: if_splits)

lemma chunk_read_healthy: "chunk_healthy r \<Longrightarrow> \<exists>b r'. chunk_read r n = Inr (b, r') \<and> chunk_healthy r'"
  by (induction r n rule: chunk_read.induct) (auto simp: chunk_healthy_def)

interpretation body: byte_reader chunk_read chunk_rest chunk_healthy
proof
  fix r n b r'
  assume "chunk_read r n = Inr (b, r')"
  from chunk_read_bytes [OF this] show "chunk_rest r = b @ chunk_rest r'" "length b \<le> n" by blast+
next
  fix r n r'
  assume "chunk_read r n = Inr ([], r')" "0 < n"
  with chunk_read_bytes show "chunk_rest r = []" by blast
next
  fix r n
  assume "chunk_healthy r"
  then show "\<exists>b r'. chunk_read r n = Inr (b, r') \<and> chunk_healthy r'" by (rule chunk_read_healthy)
qed

lemma collect_stops: "collect None s \<noteq> Go s'"
  by (simp add: collect_def)

text \<open>
  Whatever is written as data lines comes back, however the transport cuts the bytes: the frames
  of each write, none larger than a pkt-line may be, joined are what was written.
\<close>

theorem pkt_write_read:
  assumes "chunk_healthy cs" "chunk_rest cs = foldl write_pkt_line [] ds"
  shows "\<exists>gs cs'. all_lines chunk_read cs = Some (Inr (map Data (concat gs), cs')) \<and> chunk_rest cs' = [] \<and>
    map concat gs = ds \<and> (\<forall>g \<in> set gs. g \<noteq> [] \<and> (\<forall>d \<in> set g. length d \<le> MAX_PKT_DATA))"
proof -
  define g where "g d = (if d = [] then [[]] else chunks_of MAX_PKT_DATA d)" for d :: string
  have "foldl write_pkt_line w ds = w @ wire (map Data (concat (map g ds)))" for w
    by (induction ds arbitrary: w) (simp_all add: write_pkt_line_wire g_def)
  then have w: "chunk_rest cs = wire (map Data (concat (map g ds)))" using assms by simp
  have le: "g d \<noteq> [] \<and> (\<forall>x \<in> set (g d). length x \<le> MAX_PKT_DATA)" for d
  proof (cases "d = []")
    case False
    have n: "0 < MAX_PKT_DATA" by (simp add: MAX_PKT_DATA_def)
    with False have "chunks_of MAX_PKT_DATA d \<noteq> []" by (metis chunks_of_concat concat.simps(1))
    with False n chunks_of_sizes show ?thesis by (simp add: g_def)
  qed (simp add: g_def)
  then have "list_all (\<lambda>d. length d < 65532) (g d)" for d
    by (fastforce simp: list_all_iff MAX_PKT_DATA_def intro: le_less_trans [of _ 65516 65532])
  then have "list_all line_ok (map Data (concat (map g ds)))"
    by (auto simp: line_ok_def list_all_iff)
  then have "all_lines str_read (chunk_rest cs) = Some (Inr (map Data (concat (map g ds)), []))"
    unfolding w by (rule all_lines_wire)
  then have "on_rest_opt chunk_rest (all_lines chunk_read cs) = Some (Inr (map Data (concat (map g ds)), []))"
    using body.loop [of cs collect "[]"] assms(1) collect_stops by (simp add: all_lines_def)
  then obtain cs' where "all_lines chunk_read cs = Some (Inr (map Data (concat (map g ds)), cs'))" "chunk_rest cs' = []"
    by (auto simp: on_rest_opt_def on_rest_eq_Inr)
  moreover have "map concat (map g ds) = ds" by (induction ds) (simp_all add: g_def chunks_of_concat)
  ultimately show ?thesis using le by (intro exI [of _ "map g ds"] exI [of _ cs']) auto
qed

theorem pkt_write_read_witness:
  "\<exists>gs cs'. all_lines chunk_read [Inr ''00'', Inr ''06hi00'', Inr [], Inr ''04''] = Some (Inr (map Data (concat gs), cs')) \<and>
    map concat gs = [''hi'', []]"
proof -
  have h: "chunk_healthy [Inr ''00'', Inr ''06hi00'', Inr [], Inr ''04'']" by (simp add: chunk_healthy_def)
  have r: "chunk_rest [Inr ''00'', Inr ''06hi00'', Inr [], Inr ''04''] = foldl write_pkt_line [] [''hi'', []]"
    by (simp add: write_pkt_line_wire chunks_of_short MAX_PKT_DATA_def encode_data_hex4 hex4_def hex_digit_def chunk_rest_def)
  show ?thesis using pkt_write_read [OF h r] by (elim exE conjE) (intro exI conjI, assumption+)
qed

text \<open>A data line beyond four hex digits is written with a header that names another length.\<close>

lemma encode_data_overflow:
  "length d = 65532 \<Longrightarrow> read_pkt_line str_read (encode_data [] d) = Inr (Some Flush, d)"
  using read_header [of "hex4 65536" 0 d] hex4_value [of 65536] by (simp add: encode_data_hex4)

end
