(* ===== verification/Git_Receive.thy ===== *)
theory Git_Receive
  imports Git_Pkt
begin

text \<open>
  A push on the wire (\<^verbatim>\<open>crates/gitcask-git/src/receive.rs\<close> and the answers in
  \<^verbatim>\<open>crates/gitcask-server/src/smart.rs\<close>): the parser of the commands, capabilities and options, the reader
  it leaves for the pack, the report to the client, and refusals. The parser takes any reader; it is
  proved to return, to find what a client sent, and to accept validated updates only.
\<close>

section \<open>Parsing a push (receive.rs)\<close>

record receive_caps =
  rc_report_status :: bool
  rc_report_status_v2 :: bool
  rc_side_band_64k :: bool
  rc_atomic :: bool
  rc_quiet :: bool
  rc_push_options :: bool
  rc_ofs_delta :: bool
  rc_agent :: "string option"
  rc_object_format :: "string option"
  rc_shallow :: "string list"

definition caps_default :: receive_caps where
  "caps_default = \<lparr>rc_report_status = False, rc_report_status_v2 = False, rc_side_band_64k = False, rc_atomic = False,
     rc_quiet = False, rc_push_options = False, rc_ofs_delta = False, rc_agent = None, rc_object_format = None, rc_shallow = []\<rparr>"

text \<open>A reader that first gives out what an earlier one read too far.\<close>

type_synonym 'r prefixed = "string \<times> 'r"

definition prefixed_read :: "'r read \<Rightarrow> 'r prefixed read" where
  "prefixed_read rd pr n =
     (case pr of (pre, inner) \<Rightarrow>
        if pre \<noteq> [] then
          (let k = min (length pre) n in Inr (take k pre, (drop k pre, inner)))
        else (case rd inner n of Inl e \<Rightarrow> Inl e | Inr (b, inner') \<Rightarrow> Inr (b, ([], inner'))))"

definition parse_command_line :: "string \<Rightarrow> (git_error, ref_update \<times> string) result" where
  "parse_command_line b =
     (let cmd = takeWhile (\<lambda>c. c \<noteq> CHR 0x00) b;
          caps = tl (dropWhile (\<lambda>c. c \<noteq> CHR 0x00) b)
      in case splitn 3 (CHR 0x20) (trim_end_nl (from_utf8_lossy cmd)) of
           [old, new, name] \<Rightarrow>
             (let u = \<lparr>upd_name = name, old_oid = old, new_oid = new, new_symbolic_target = [], new_peeled = []\<rparr>
              in case validate_ref_update u of Inl e \<Rightarrow> Inl e | Inr _ \<Rightarrow> Inr (u, from_utf8_lossy caps))
         | [old] \<Rightarrow> Inl (Protocol ''missing new oid'')
         | _ \<Rightarrow> Inl (Protocol ''missing ref name''))"

definition apply_cap :: "receive_caps \<Rightarrow> string \<Rightarrow> receive_caps" where
  "apply_cap caps t =
     (let tok = rust_trim t
      in if tok = [] then caps
         else if tok = ''report-status'' then caps\<lparr>rc_report_status := True\<rparr>
         else if tok = ''report-status-v2'' then caps\<lparr>rc_report_status_v2 := True\<rparr>
         else if tok = ''side-band-64k'' then caps\<lparr>rc_side_band_64k := True\<rparr>
         else if tok = ''atomic'' then caps\<lparr>rc_atomic := True\<rparr>
         else if tok = ''quiet'' then caps\<lparr>rc_quiet := True\<rparr>
         else if tok = ''push-options'' then caps\<lparr>rc_push_options := True\<rparr>
         else if tok = ''ofs-delta'' then caps\<lparr>rc_ofs_delta := True\<rparr>
         else if starts_with ''agent='' tok then caps\<lparr>rc_agent := Some (drop 6 tok)\<rparr>
         else if starts_with ''object-format='' tok then caps\<lparr>rc_object_format := Some (drop 14 tok)\<rparr>
         else caps)"

definition apply_caps :: "receive_caps \<Rightarrow> string \<Rightarrow> receive_caps" where
  "apply_caps caps s = foldl apply_cap caps (split_class (\<lambda>c. c = CHR 0x20 \<or> c = CHR 0x0A) s)"

text \<open>
  The three loops of the parser: shallow announcements up to the first other line, command lines,
  push options.
\<close>

definition announce :: "string \<Rightarrow> receive_caps \<Rightarrow> receive_caps" where
  "announce b caps = caps\<lparr>rc_shallow := rc_shallow caps @ [rust_trim (from_utf8_lossy (drop 8 b))]\<rparr>"

definition shallow_turn :: "pkt_line option \<Rightarrow> receive_caps \<times> pkt_line option \<Rightarrow> (receive_caps \<times> pkt_line option) loop_turn" where
  "shallow_turn l st =
     (case l of
        Some (Data b) \<Rightarrow> if starts_with ''shallow '' b then Go (announce b (fst st), None) else Stop (fst st, l)
      | _ \<Rightarrow> Stop (fst st, l))"

definition command_turn :: "pkt_line option \<Rightarrow> receive_caps \<times> ref_update list \<Rightarrow> (receive_caps \<times> ref_update list) loop_turn" where
  "command_turn l st =
     (case l of
        Some (Data b) \<Rightarrow>
          if starts_with ''shallow '' b then Go (announce b (fst st), snd st)
          else (case parse_command_line b of Inl e \<Rightarrow> Fail e | Inr (u, _) \<Rightarrow> Go (fst st, snd st @ [u]))
      | _ \<Rightarrow> Stop st)"

definition option_turn :: "pkt_line option \<Rightarrow> string list \<Rightarrow> string list loop_turn" where
  "option_turn l opts =
     (case l of Some (Data b) \<Rightarrow> Go (opts @ [trim_end_nl (from_utf8_lossy b)]) | _ \<Rightarrow> Stop opts)"

text \<open>The rest of the parser after the first line that is not an announcement.\<close>

definition parse_options :: "'r read \<Rightarrow> receive_caps \<Rightarrow> 'r \<Rightarrow> (git_error, string list \<times> 'r) result option" where
  "parse_options rd caps r = (if rc_push_options caps then line_loop rd option_turn [] r else Some (Inr ([], r)))"

definition parse_commands ::
  "'r read \<Rightarrow> receive_caps \<Rightarrow> string \<Rightarrow> 'r \<Rightarrow> (git_error, ref_transaction \<times> receive_caps \<times> 'r prefixed) result option" where
  "parse_commands rd caps b r =
     (case parse_command_line b of
        Inl e \<Rightarrow> Some (Inl e)
      | Inr (u, cap_str) \<Rightarrow>
          (let caps1 = apply_caps caps cap_str
           in case line_loop rd command_turn (caps1, [u]) r of
                None \<Rightarrow> None
              | Some (Inl e) \<Rightarrow> Some (Inl e)
              | Some (Inr ((caps2, us), r2)) \<Rightarrow>
                  (case parse_options rd caps2 r2 of
                     None \<Rightarrow> None
                   | Some (Inl e) \<Rightarrow> Some (Inl e)
                   | Some (Inr (opts, r3)) \<Rightarrow>
                       Some (Inr (\<lparr>updates = us, push_options = opts, txn_atomic = rc_atomic caps1\<rparr>, caps2, ([], r3))))))"

definition parse :: "'r read \<Rightarrow> 'r \<Rightarrow> (git_error, ref_transaction \<times> receive_caps \<times> 'r prefixed) result option" where
  "parse rd r =
     (case line_loop rd shallow_turn (caps_default, None) r of
        None \<Rightarrow> None
      | Some (Inl e) \<Rightarrow> Some (Inl e)
      | Some (Inr ((caps, first), r1)) \<Rightarrow>
          (case first of
             None \<Rightarrow> Some (Inr (\<lparr>updates = [], push_options = [], txn_atomic = False\<rparr>, caps, ([], r1)))
           | Some Flush \<Rightarrow> Some (Inr (\<lparr>updates = [], push_options = [], txn_atomic = False\<rparr>, caps, ([], r1)))
           | Some (Data b) \<Rightarrow> parse_commands rd caps b r1
           | Some _ \<Rightarrow> Some (Inl (Protocol ''unexpected delim before commands''))))"

section \<open>The report (receive.rs, smart.rs)\<close>

definition unpack_line :: "(string, unit) result \<Rightarrow> string" where
  "unpack_line unpack = (case unpack of Inr _ \<Rightarrow> ''unpack ok'' @ nl | Inl msg \<Rightarrow> ''unpack ng '' @ msg @ nl)"

definition ref_line :: "string \<times> (string, unit) result \<Rightarrow> string" where
  "ref_line p = (case p of (name, Inr _) \<Rightarrow> ''ok '' @ name @ nl | (name, Inl msg) \<Rightarrow> ''ng '' @ name @ '' '' @ msg @ nl)"

definition report_status ::
  "receive_caps \<Rightarrow> (string, unit) result \<Rightarrow> (string \<times> (string, unit) result) list \<Rightarrow> string \<Rightarrow> string" where
  "report_status caps unpack per_ref out =
     (let body = foldl (\<lambda>b p. b @ ref_line p) (unpack_line unpack) per_ref;
          framed = encode_flush (foldl encode_data [] (split_lines body))
      in if rc_side_band_64k caps then sideband_flush (write_data out framed) else out @ framed)"

text \<open>One sideband packet of the server (smart.rs), and the answer to a refused push.\<close>

definition sideband_pkt :: "nat \<Rightarrow> string \<Rightarrow> string" where
  "sideband_pkt band txt =
     (let dat = char_of band # txt @ (if ends_with nl txt then [] else nl)
      in foldl encode_data [] (chunks_of MAX_PKT_DATA dat))"

definition refusal_report :: "receive_caps \<Rightarrow> ref_transaction \<Rightarrow> string \<Rightarrow> string" where
  "refusal_report caps txn msg =
     (let per_ref = map (\<lambda>u. (upd_name u, Inl msg)) (updates txn)
      in (if rc_side_band_64k caps then sideband_pkt 2 (msg @ nl) else []) @ report_status caps (Inl msg) per_ref [])"

text \<open>Before a push is worked on, all-zero ids become empty ones (smart.rs).\<close>

definition is_zero_oid :: "string \<Rightarrow> bool" where
  "is_zero_oid hex \<longleftrightarrow> list_all (\<lambda>c. c = CHR ''0'') hex \<and> hex \<noteq> []"

definition normalize_update :: "ref_update \<Rightarrow> ref_update" where
  "normalize_update u =
     (let u1 = (if is_zero_oid (old_oid u) then u\<lparr>old_oid := []\<rparr> else u)
      in if is_zero_oid (new_oid u1) then u1\<lparr>new_oid := []\<rparr> else u1)"

definition txn_normalized :: "ref_transaction \<Rightarrow> ref_transaction" where
  "txn_normalized txn = txn\<lparr>updates := map normalize_update (updates txn)\<rparr>"

section \<open>Lemmas on the parser\<close>

lemma turns_stop:
  "shallow_turn None s \<noteq> Go s'" "command_turn None t \<noteq> Go t'" "option_turn None u \<noteq> Go u'"
  by (simp_all add: shallow_turn_def command_turn_def option_turn_def)

text \<open>A reader with a prefix is a reader.\<close>

locale prefixed_reader = byte_reader

sublocale prefixed_reader \<subseteq> pre: byte_reader "prefixed_read rd" "\<lambda>(p, r). p @ rest r" "\<lambda>(p, r). healthy r"
proof
  fix r n b r'
  assume "prefixed_read rd r n = Inr (b, r')"
  then show "(case r of (p, x) \<Rightarrow> p @ rest x) = b @ (case r' of (p, x) \<Rightarrow> p @ rest x)" "length b \<le> n"
    using rd_rest rd_length
    by (auto simp: prefixed_read_def Let_def split: prod.splits if_splits sum.splits)
next
  fix r n r'
  assume "prefixed_read rd r n = Inr ([], r')" "0 < n"
  then show "(case r of (p, x) \<Rightarrow> p @ rest x) = []"
    using rd_eof by (auto simp: prefixed_read_def Let_def min_def split: prod.splits if_splits sum.splits)
next
  fix r :: "'a prefixed" and n
  assume "case r of (p, x) \<Rightarrow> healthy x"
  then show "\<exists>b r'. prefixed_read rd r n = Inr (b, r') \<and> (case r' of (p, x) \<Rightarrow> healthy x)"
  proof (cases "fst r = []")
    case True
    obtain b x where "rd (snd r) n = Inr (b, x)" "healthy x"
      using rd_healthy [of "snd r" n] \<open>case r of (p, x) \<Rightarrow> healthy x\<close> by (cases r) auto
    then show ?thesis using True by (cases r) (auto simp: prefixed_read_def)
  qed (use \<open>case r of (p, x) \<Rightarrow> healthy x\<close> in \<open>cases r, auto simp: prefixed_read_def Let_def\<close>)
qed

text \<open>A result of the parser over the bytes instead of the reader.\<close>

definition parsed_rest ::
  "('r \<Rightarrow> string) \<Rightarrow> (git_error, 'a \<times> 'b \<times> 'r prefixed) result option \<Rightarrow> (git_error, 'a \<times> 'b \<times> string prefixed) result option" where
  "parsed_rest rest = map_option (map_sum id (map_prod id (map_prod id (map_prod id rest))))"

lemma parsed_rest_simps [simp]:
  "parsed_rest rest (Some (Inl e)) = Some (Inl e)"
  "parsed_rest rest (Some (Inr (a, b, p, r))) = Some (Inr (a, b, p, rest r))"
  by (simp_all add: parsed_rest_def)

context byte_reader
begin

lemma loop_cases:
  assumes "healthy r" "\<And>s s'. f None s \<noteq> Go s'"
  obtains (fails) e where "line_loop rd f s r = Some (Inl e)" "line_loop str_read f s (rest r) = Some (Inl e)"
  | (ends) s' r' where "line_loop rd f s r = Some (Inr (s', r'))" "healthy r'"
      "line_loop str_read f s (rest r) = Some (Inr (s', rest r'))"
proof -
  obtain x where x: "line_loop str_read f s (rest r) = Some x" using str_loop_returns [of f s "rest r"] assms(2) by blast
  have "on_rest_opt rest (line_loop rd f s r) = line_loop str_read f s (rest r) \<and>
      (\<forall>x. line_loop rd f s r = Some x \<longrightarrow> leaves_ok healthy x)"
    by (rule loop) (use assms in auto)
  with x obtain y where y: "line_loop rd f s r = Some y" "on_rest rest y = x" "leaves_ok healthy y"
    by (cases "line_loop rd f s r") auto
  show ?thesis
  proof (cases y)
    case (Inl e)
    then show ?thesis using fails x y by simp
  next
    case (Inr p)
    then show ?thesis using ends x y by (cases p) simp
  qed
qed

lemma parse_commands_bytes:
  assumes h: "healthy r"
  shows "parsed_rest rest (parse_commands rd caps b r) = parse_commands str_read caps b (rest r) \<and>
    parse_commands rd caps b r \<noteq> None"
proof (cases "parse_command_line b")
  case (Inr p)
  obtain u c where p: "p = (u, c)" by fastforce
  from h turns_stop(2) show ?thesis
  proof (cases rule: loop_cases [where f = command_turn and r = r and s = "(apply_caps caps c, [u])"])
    case (ends s' r')
    obtain caps2 us where s': "s' = (caps2, us)" by fastforce
    show ?thesis
    proof (cases "rc_push_options caps2")
      case True
      from ends(2) turns_stop(3) show ?thesis
        by (cases rule: loop_cases [where f = option_turn and r = r' and s = "[]"])
          (use Inr p ends s' True in \<open>simp_all add: parse_commands_def parse_options_def\<close>)
    qed (use Inr p ends s' in \<open>simp add: parse_commands_def parse_options_def\<close>)
  qed (use Inr p in \<open>simp add: parse_commands_def\<close>)
qed (simp add: parse_commands_def)

text \<open>The parser returns on every input, with what it finds in the bytes.\<close>

lemma parse_bytes:
  assumes h: "healthy r"
  shows "parsed_rest rest (parse rd r) = parse str_read (rest r) \<and> parse rd r \<noteq> None"
  using h turns_stop(1)
proof (cases rule: loop_cases [where f = shallow_turn and r = r and s = "(caps_default, None)"])
  case (ends s' r')
  obtain caps first where s': "s' = (caps, first)" by fastforce
  show ?thesis using ends s' parse_commands_bytes [OF ends(2)]
    by (auto simp: parse_def split: option.splits pkt_line.splits)
qed (simp add: parse_def)

end

interpretation push_body: prefixed_reader chunk_read chunk_rest chunk_healthy
  by unfold_locales

section \<open>What a client sends\<close>

text \<open>A command of a client, and its request: announcements, commands, options if it asks for them, the pack.\<close>

definition command_bytes :: "ref_update \<Rightarrow> string" where
  "command_bytes u = old_oid u @ [CHR 0x20] @ new_oid u @ [CHR 0x20] @ upd_name u"

definition request_lines :: "string list \<Rightarrow> ref_update \<Rightarrow> string \<Rightarrow> ref_update list \<Rightarrow> string list \<Rightarrow> pkt_line list" where
  "request_lines sh u caps us opts =
     map (\<lambda>x. Data (''shallow '' @ x @ nl)) sh @ [Data (command_bytes u @ [CHR 0x00] @ caps)] @
     map (\<lambda>v. Data (command_bytes v @ nl)) us @ [Flush] @
     (if rc_push_options (apply_caps caps_default caps) then map (\<lambda>x. Data (x @ nl)) opts @ [Flush] else [])"

definition update_sent :: "ref_update \<Rightarrow> bool" where
  "update_sent u \<longleftrightarrow> validate_ref_update u = Inr () \<and> new_symbolic_target u = [] \<and> new_peeled u = [] \<and> utf8 (upd_name u)"

lemma oid_bytes: "validate_oid s \<Longrightarrow> c \<in> set s \<Longrightarrow> is_hexdigit c"
proof -
  assume v: "validate_oid s" and c: "c \<in> set s"
  have z: "is_hexdigit CHR ''0''" by code_simp
  from v c have "all_zero s \<or> list_all is_hexdigit s" by (auto simp: validate_oid_def)
  with c z show ?thesis unfolding all_zero_def list_all_iff by metis
qed

lemma hexdigit_byte: "is_hexdigit c \<Longrightarrow> byte c < 0x80 \<and> c \<noteq> CHR 0x20 \<and> c \<noteq> CHR 0x00 \<and> c \<noteq> CHR 0x0A"
proof -
  have "list_all (\<lambda>c. byte c < 0x80 \<and> c \<noteq> CHR 0x20 \<and> c \<noteq> CHR 0x00 \<and> c \<noteq> CHR 0x0A) ''0123456789abcdefABCDEF''"
    by code_simp
  then show "is_hexdigit c \<Longrightarrow> ?thesis" unfolding is_hexdigit_def list_all_iff by blast
qed

lemma name_bytes: "validate_ref_name n \<Longrightarrow> c \<in> set n \<Longrightarrow> c \<noteq> CHR 0x20 \<and> c \<noteq> CHR 0x00 \<and> c \<noteq> CHR 0x0A"
proof -
  assume "validate_ref_name n" "c \<in> set n"
  then consider "n = HEAD" | "\<not> list_ex bad_ref_byte n" by (auto simp: validate_ref_name_def)
  then show ?thesis
  proof cases
    case 2
    with \<open>c \<in> set n\<close> show ?thesis by (auto simp: list_ex_iff bad_ref_byte_def)
  qed (use \<open>c \<in> set n\<close> in auto)
qed

lemma update_sentD:
  assumes "update_sent u"
  shows "validate_ref_name (upd_name u)" "validate_oid (old_oid u)" "validate_oid (new_oid u)"
  using assms by (auto simp: update_sent_def validate_ref_update_def split: if_splits)

lemma splitn_three:
  "c \<notin> set x \<Longrightarrow> c \<notin> set y \<Longrightarrow> splitn 3 c (x @ [c] @ y @ [c] @ z) = [x, y, z]"
  by (simp add: numeral_3_eq_3 cut_at)

lemma command_bytes_props:
  assumes "update_sent u"
  shows "CHR 0x00 \<notin> set (command_bytes u)" "utf8 (command_bytes u)" "last (command_bytes u) \<noteq> CHR 0x0A"
    "splitn 3 (CHR 0x20) (command_bytes u) = [old_oid u, new_oid u, upd_name u]"
    "\<not> starts_with ''shallow '' (command_bytes u @ t)"
proof -
  note v = update_sentD [OF assms]
  have o: "\<forall>c \<in> set (old_oid u) \<union> set (new_oid u). byte c < 0x80 \<and> c \<noteq> CHR 0x20 \<and> c \<noteq> CHR 0x00 \<and> c \<noteq> CHR 0x0A"
    using oid_bytes [OF v(2)] oid_bytes [OF v(3)] hexdigit_byte by blast
  note n = name_bytes [OF v(1)]
  show "CHR 0x00 \<notin> set (command_bytes u)" using o n by (auto simp: command_bytes_def)
  have b: "byte (CHR 0x20) < 0x80" by (simp add: byte_def)
  have "ascii (old_oid u @ [CHR 0x20] @ new_oid u @ [CHR 0x20])" using o b by (auto simp: ascii_def list_all_iff)
  then show "utf8 (command_bytes u)" using assms
    using utf8_ascii_append [of "old_oid u @ [CHR 0x20] @ new_oid u @ [CHR 0x20]" "upd_name u"]
    by (simp add: command_bytes_def update_sent_def)
  show "last (command_bytes u) \<noteq> CHR 0x0A" using n by (auto simp: command_bytes_def last_append)
  show "splitn 3 (CHR 0x20) (command_bytes u) = [old_oid u, new_oid u, upd_name u]"
    unfolding command_bytes_def by (rule splitn_three) (use o in blast)+
  show "\<not> starts_with ''shallow '' (command_bytes u @ t)"
  proof (cases "old_oid u")
    case (Cons c cs)
    then have "is_hexdigit c" using oid_bytes [OF v(2)] by simp
    moreover have "\<not> is_hexdigit CHR ''s''" by code_simp
    ultimately show ?thesis using Cons by (auto simp: command_bytes_def)
  qed (simp add: command_bytes_def)
qed

lemma parse_command_by:
  "takeWhile (\<lambda>c. c \<noteq> CHR 0x00) b = cmd \<Longrightarrow> tl (dropWhile (\<lambda>c. c \<noteq> CHR 0x00) b) = caps \<Longrightarrow>
   splitn 3 (CHR 0x20) (trim_end_nl (from_utf8_lossy cmd)) = [old_oid u, new_oid u, upd_name u] \<Longrightarrow> update_sent u \<Longrightarrow>
   parse_command_line b = Inr (u, from_utf8_lossy caps)"
  by (cases u) (simp add: parse_command_line_def update_sent_def)

lemma parse_command_sent:
  assumes u: "update_sent u"
  shows "parse_command_line (command_bytes u @ nl) = Inr (u, [])"
    and "utf8 caps \<Longrightarrow> parse_command_line (command_bytes u @ [CHR 0x00] @ caps) = Inr (u, caps)"
proof -
  note p = command_bytes_props [OF u]
  have "utf8 (command_bytes u @ nl)" using utf8_append [OF p(2)] utf8_ascii [of nl] by (simp add: byte_def)
  then have "trim_end_nl (from_utf8_lossy (command_bytes u @ nl)) = command_bytes u"
    using p(3) by (simp add: utf8_def trim_end_nl_one)
  moreover have "takeWhile (\<lambda>c. c \<noteq> CHR 0x00) (command_bytes u @ nl) = command_bytes u @ nl"
    "dropWhile (\<lambda>c. c \<noteq> CHR 0x00) (command_bytes u @ nl) = []"
    using p(1) by (auto simp: takeWhile_eq_all_conv dropWhile_eq_Nil_conv)
  ultimately show "parse_command_line (command_bytes u @ nl) = Inr (u, [])"
    using parse_command_by [of "command_bytes u @ nl" "command_bytes u @ nl" "[]" u] p(4) u by simp
  assume c: "utf8 caps"
  have "takeWhile (\<lambda>c. c \<noteq> CHR 0x00) (command_bytes u @ [CHR 0x00] @ caps) = command_bytes u"
    "tl (dropWhile (\<lambda>c. c \<noteq> CHR 0x00) (command_bytes u @ [CHR 0x00] @ caps)) = caps"
    using p(1) by (simp_all add: cut_at)
  moreover have "trim_end_nl (from_utf8_lossy (command_bytes u)) = command_bytes u"
    using p(2, 3) by (simp add: utf8_def trim_end_nl_none)
  ultimately show "parse_command_line (command_bytes u @ [CHR 0x00] @ caps) = Inr (u, caps)"
    using parse_command_by [of "command_bytes u @ [CHR 0x00] @ caps" "command_bytes u" caps u] p(4) u c
    by (simp add: utf8_def)
qed

text \<open>The loops of the parser on what a client sends.\<close>

definition announced :: "string \<Rightarrow> bool" where
  "announced x \<longleftrightarrow> utf8 x \<and> trimmed x \<and> 3 \<le> length x"

lemma announce_sent: "announced x \<Longrightarrow> announce (''shallow '' @ x @ nl) caps = caps\<lparr>rc_shallow := rc_shallow caps @ [x]\<rparr>"
proof -
  assume x: "announced x"
  have "utf8 (x @ nl)" using x utf8_append [of x nl] utf8_ascii [of nl] by (simp add: announced_def byte_def)
  then show ?thesis using x trim_nl [of x] by (simp add: announce_def announced_def utf8_def)
qed

lemma shallow_loop:
  assumes "list_all announced sh" "list_all line_ok (map (\<lambda>x. Data (''shallow '' @ x @ nl)) sh)"
    "line_ok (Data b)" "\<not> starts_with ''shallow '' b"
  shows "line_loop str_read shallow_turn (caps, l) (wire (map (\<lambda>x. Data (''shallow '' @ x @ nl)) sh) @ pkt_bytes (Data b) @ t) =
    Some (Inr ((caps\<lparr>rc_shallow := rc_shallow caps @ sh\<rparr>, Some (Data b)), t))"
  using assms(1,2)
proof (induction sh arbitrary: caps l)
  case Nil
  show ?case using assms(3,4) by (simp add: shallow_turn_def del: pkt_bytes.simps)
next
  case (Cons x sh)
  have "shallow_turn (Some (Data (''shallow '' @ x @ nl))) (caps, l) = Go (caps\<lparr>rc_shallow := rc_shallow caps @ [x]\<rparr>, None)"
    using announce_sent [of x caps] Cons.prems(1) by (simp add: shallow_turn_def)
  with Cons show ?case by (simp del: pkt_bytes.simps append_Cons)
qed

lemma command_loop:
  assumes "list_all update_sent us" "list_all line_ok (map (\<lambda>v. Data (command_bytes v @ nl)) us)"
  shows "line_loop str_read command_turn (caps, vs) (wire (map (\<lambda>v. Data (command_bytes v @ nl)) us) @ pkt_bytes Flush @ t) =
    Some (Inr ((caps, vs @ us), t))"
  using assms
proof (induction us arbitrary: vs)
  case Nil
  show ?case by (simp add: command_turn_def line_ok_def del: pkt_bytes.simps)
next
  case (Cons u us)
  have "command_turn (Some (Data (command_bytes u @ nl))) (caps, vs) = Go (caps, vs @ [u])"
    using Cons.prems(1) parse_command_sent(1) [of u] command_bytes_props(5) [of u nl] by (simp add: command_turn_def)
  with Cons show ?case by (simp del: pkt_bytes.simps)
qed

definition option_sent :: "string \<Rightarrow> bool" where
  "option_sent x \<longleftrightarrow> utf8 x \<and> (x = [] \<or> last x \<noteq> CHR 0x0A)"

lemma option_loop:
  assumes "list_all option_sent xs" "list_all line_ok (map (\<lambda>x. Data (x @ nl)) xs)"
  shows "line_loop str_read option_turn vs (wire (map (\<lambda>x. Data (x @ nl)) xs) @ pkt_bytes Flush @ t) =
    Some (Inr (vs @ xs, t))"
  using assms
proof (induction xs arbitrary: vs)
  case Nil
  show ?case by (simp add: option_turn_def line_ok_def del: pkt_bytes.simps)
next
  case (Cons x xs)
  have "utf8 (x @ nl)" using Cons.prems(1) utf8_append [of x nl] utf8_ascii [of nl] by (simp add: option_sent_def byte_def)
  then have "option_turn (Some (Data (x @ nl))) vs = Go (vs @ [x])"
    using Cons.prems(1) by (simp add: option_turn_def utf8_def option_sent_def trim_end_nl_one)
  with Cons show ?case by (simp del: pkt_bytes.simps)
qed

text \<open>Capabilities do not depend on the announcements.\<close>

lemma apply_caps_shallow: "apply_caps (caps\<lparr>rc_shallow := sh\<rparr>) s = (apply_caps caps s)\<lparr>rc_shallow := sh\<rparr>"
proof -
  have "apply_cap (caps\<lparr>rc_shallow := sh\<rparr>) t = (apply_cap caps t)\<lparr>rc_shallow := sh\<rparr>" for t caps
    by (cases caps) (simp add: apply_cap_def Let_def)
  then have "foldl apply_cap (caps\<lparr>rc_shallow := sh\<rparr>) ts = (foldl apply_cap caps ts)\<lparr>rc_shallow := sh\<rparr>" for ts
    by (induction ts arbitrary: caps) simp_all
  then show ?thesis by (simp add: apply_caps_def)
qed

lemma parse_str_sent:
  assumes "list_all announced sh" "list_all update_sent (u # us)" "utf8 caps" "list_all option_sent opts"
    and "list_all line_ok (request_lines sh u caps us opts)"
  shows "parse str_read (wire (request_lines sh u caps us opts) @ pack) =
    Some (Inr (\<lparr>updates = u # us,
                push_options = (if rc_push_options (apply_caps caps_default caps) then opts else []),
                txn_atomic = rc_atomic (apply_caps caps_default caps)\<rparr>,
              (apply_caps caps_default caps)\<lparr>rc_shallow := sh\<rparr>, [], pack))"
proof -
  let ?b = "command_bytes u @ [CHR 0x00] @ caps" and ?po = "rc_push_options (apply_caps caps_default caps)"
  define t2 where "t2 = (if ?po then wire (map (\<lambda>x. Data (x @ nl)) opts) @ pkt_bytes Flush else []) @ pack"
  define t1 where "t1 = wire (map (\<lambda>v. Data (command_bytes v @ nl)) us) @ pkt_bytes Flush @ t2"
  have w: "wire (request_lines sh u caps us opts) @ pack =
      wire (map (\<lambda>x. Data (''shallow '' @ x @ nl)) sh) @ pkt_bytes (Data ?b) @ t1"
    by (simp add: request_lines_def t1_def t2_def del: pkt_bytes.simps)
  have ok: "list_all line_ok (map (\<lambda>x. Data (''shallow '' @ x @ nl)) sh)" "line_ok (Data ?b)"
    "list_all line_ok (map (\<lambda>v. Data (command_bytes v @ nl)) us)" "?po \<Longrightarrow> list_all line_ok (map (\<lambda>x. Data (x @ nl)) opts)"
    using assms(5) by (auto simp: request_lines_def list_all_iff)
  have b: "\<not> starts_with ''shallow '' ?b" "parse_command_line ?b = Inr (u, caps)"
    using assms(2,3) command_bytes_props(5) [of u "[CHR 0x00] @ caps"] parse_command_sent(2) by simp_all
  let ?c = "(apply_caps caps_default caps)\<lparr>rc_shallow := sh\<rparr>"
  have c: "apply_caps (caps_default\<lparr>rc_shallow := rc_shallow caps_default @ sh\<rparr>) caps = ?c"
    using apply_caps_shallow [of sh caps_default caps] by (simp add: caps_default_def)
  have "parse_options str_read ?c t2 = Some (Inr (if ?po then opts else [], pack))"
    using option_loop [OF assms(4) ok(4), of "[]" pack] by (simp add: parse_options_def t2_def del: pkt_bytes.simps)
  moreover have "line_loop str_read command_turn (?c, [u]) t1 = Some (Inr ((?c, u # us), t2))"
    using command_loop [OF _ ok(3), of ?c "[u]" t2] assms(2) by (simp add: t1_def del: pkt_bytes.simps)
  ultimately have "parse_commands str_read (caps_default\<lparr>rc_shallow := rc_shallow caps_default @ sh\<rparr>) ?b t1 =
      Some (Inr (\<lparr>updates = u # us, push_options = (if ?po then opts else []), txn_atomic = rc_atomic ?c\<rparr>, ?c, [], pack))"
    using b(2) c by (simp add: parse_commands_def Let_def)
  then show ?thesis
    unfolding w parse_def using shallow_loop [OF assms(1) ok(1,2) b(1)] by simp
qed
text \<open>What every turn keeps, a loop keeps.\<close>

lemma line_loop_keeps:
  fixes rd :: "'r read" and f :: "pkt_line option \<Rightarrow> 's \<Rightarrow> 's loop_turn"
  assumes L: "line_loop rd f s r = Some (Inr (s', r'))" and s: "P s"
    and k: "\<And>l s s'. P s \<Longrightarrow> f l s = Go s' \<or> f l s = Stop s' \<Longrightarrow> P s'"
  shows "P s'"
proof -
  let ?Q = "\<lambda>(rd :: 'r read) (f :: pkt_line option \<Rightarrow> 's \<Rightarrow> 's loop_turn) s (r :: 'r) (y :: (git_error, 's \<times> 'r) result). (\<forall>l s s'. P s \<longrightarrow> f l s = Go s' \<or> f l s = Stop s' \<longrightarrow> P s') \<longrightarrow> P s \<longrightarrow>
    (case y of Inl e \<Rightarrow> True | Inr (s', r') \<Rightarrow> P s')"
  have "?Q rd f s r (Inr (s', r'))"
  proof (rule line_loop.raw_induct [where P = ?Q, OF _ L], goal_cases)
    case (1 loop rd f s r y)
    show ?case
    proof (intro impI)
      assume keeps: "\<forall>l s s'. P s \<longrightarrow> f l s = Go s' \<or> f l s = Stop s' \<longrightarrow> P s'" and "P s"
      show "case y of Inl e \<Rightarrow> True | Inr (s', r') \<Rightarrow> P s'"
      proof (cases "read_pkt_line rd r")
        case (Inr p)
        obtain l r1 where p: "p = (l, r1)" by fastforce
        show ?thesis
        proof (cases "f l s")
          case (Go s1)
          then have "P s1" using keeps \<open>P s\<close> by blast
          moreover have "loop rd f s1 r1 = Some y" using 1(2) Inr p Go by simp
          ultimately show ?thesis using 1(1) [of rd f s1 r1 y] keeps by blast
        next
          case (Stop s1)
          then have "P s1" using keeps \<open>P s\<close> by blast
          moreover have "y = Inr (s1, r1)" using 1(2) Inr p Stop by simp
          ultimately show ?thesis by simp
        next
          case (Fail e)
          then have "y = Inl e" using 1(2) Inr p by simp
          then show ?thesis by simp
        qed
      qed (use 1(2) in auto)
    qed
  qed
  then show ?thesis using s k by auto
qed

lemma parse_command_valid: "parse_command_line b = Inr (u, c) \<Longrightarrow> validate_ref_update u = Inr ()"
  by (auto simp: parse_command_line_def Let_def split: list.splits sum.splits)

lemma command_loop_valid:
  assumes "line_loop rd command_turn (caps, us) r = Some (Inr ((caps', us'), r'))" "\<forall>u \<in> set us. validate_ref_update u = Inr ()"
  shows "\<forall>u \<in> set us'. validate_ref_update u = Inr ()"
proof -
  have "(\<lambda>(caps, us). \<forall>u \<in> set us. validate_ref_update u = Inr ()) (caps', us')"
    using assms(1)
    by (rule line_loop_keeps)
      (use assms(2) in \<open>auto simp: command_turn_def dest: parse_command_valid split: option.splits pkt_line.splits if_splits sum.splits\<close>)
  then show ?thesis by simp
qed

lemma parse_valid:
  assumes "parse rd r = Some (Inr (txn, caps, pr))" "u \<in> set (updates txn)"
  shows "validate_ref_update u = Inr ()"
proof -
  obtain caps0 first r0 where f: "line_loop rd shallow_turn (caps_default, None) r = Some (Inr ((caps0, first), r0))"
    using assms(1) by (auto simp: parse_def split: option.splits sum.splits)
  then obtain b where "first = Some (Data b)" "parse_commands rd caps0 b r0 = Some (Inr (txn, caps, pr))"
    using assms by (auto simp: parse_def split: option.splits pkt_line.splits)
  then obtain v c caps2 us r2 where "parse_command_line b = Inr (v, c)"
    "line_loop rd command_turn (apply_caps caps0 c, [v]) r0 = Some (Inr ((caps2, us), r2))" "updates txn = us"
    by (auto simp: parse_commands_def Let_def split: option.splits sum.splits)
  then have "\<forall>u \<in> set us. validate_ref_update u = Inr ()"
    using command_loop_valid [of rd "apply_caps caps0 c" "[v]" r0 caps2 us r2] parse_command_valid by simp
  with assms(2) \<open>updates txn = us\<close> show ?thesis by blast
qed

lemma parsed_rest_Inr:
  "parsed_rest rest x = Some (Inr (a, b, p, s)) \<Longrightarrow> \<exists>r. x = Some (Inr (a, b, p, r)) \<and> rest r = s"
proof (cases x)
  case (Some y)
  assume "parsed_rest rest x = Some (Inr (a, b, p, s))"
  with Some show ?thesis by (cases y) (auto simp: parsed_rest_def)
qed (simp add: parsed_rest_def)

text \<open>
  C23: A push arrives exactly as the client made it, however the transport cuts the request: the parser
  finds the announcements, all commands in order, the capabilities and, when they were asked for, the
  options, and leaves a reader that gives the bytes of the pack.
\<close>

theorem receive_parse_exact:
  assumes "chunk_healthy cs" "chunk_rest cs = wire (request_lines sh u caps us opts) @ pack"
    and "list_all announced sh" "list_all update_sent (u # us)" "utf8 caps" "list_all option_sent opts"
    and "list_all line_ok (request_lines sh u caps us opts)"
  shows "\<exists>cs'. parse chunk_read cs =
      Some (Inr (\<lparr>updates = u # us,
                  push_options = (if rc_push_options (apply_caps caps_default caps) then opts else []),
                  txn_atomic = rc_atomic (apply_caps caps_default caps)\<rparr>,
                (apply_caps caps_default caps)\<lparr>rc_shallow := sh\<rparr>, [], cs')) \<and>
    chunk_rest cs' = pack"
  by (rule parsed_rest_Inr) (use parse_str_sent [OF assms(3-7), of pack] body.parse_bytes [OF assms(1)] assms(2) in simp)

text \<open>
  The parser returns on every request body, and whatever the bytes are, every update it accepts has
  passed the validation of names and ids.
\<close>

theorem receive_parse_safe:
  assumes "chunk_healthy cs"
  shows "\<exists>x. parse chunk_read cs = Some x \<and>
    (\<forall>txn caps pr. x = Inr (txn, caps, pr) \<longrightarrow> (\<forall>u \<in> set (updates txn). validate_ref_update u = Inr ()))"
  using body.parse_bytes [OF assms] parse_valid [of chunk_read cs] by (cases "parse chunk_read cs") auto

theorem receive_parse_exact_witness:
  "\<exists>cs'. parse chunk_read [Inr (wire (request_lines [replicate 40 CHR ''c'']
        \<lparr>upd_name = ''refs/heads/main'', old_oid = replicate 40 CHR ''0'', new_oid = replicate 40 CHR ''a'',
          new_symbolic_target = [], new_peeled = []\<rparr> ''report-status atomic push-options'' [] [''ci=1''])), Inr ''PACK''] =
      Some (Inr (\<lparr>updates = [\<lparr>upd_name = ''refs/heads/main'', old_oid = replicate 40 CHR ''0'',
          new_oid = replicate 40 CHR ''a'', new_symbolic_target = [], new_peeled = []\<rparr>],
          push_options = [''ci=1''], txn_atomic = True\<rparr>,
        (apply_caps caps_default ''report-status atomic push-options'')\<lparr>rc_shallow := [replicate 40 CHR ''c'']\<rparr>, [], cs')) \<and>
    chunk_rest cs' = ''PACK''"
proof -
  let ?u = "\<lparr>upd_name = ''refs/heads/main'', old_oid = replicate 40 CHR ''0'', new_oid = replicate 40 CHR ''a'',
    new_symbolic_target = [], new_peeled = []\<rparr>" and ?c = "''report-status atomic push-options''" and ?s = "[replicate 40 CHR ''c'']"
  have h: "chunk_healthy [Inr (wire (request_lines ?s ?u ?c [] [''ci=1''])), Inr ''PACK'']" by (simp add: chunk_healthy_def)
  have r: "chunk_rest [Inr (wire (request_lines ?s ?u ?c [] [''ci=1''])), Inr ''PACK''] = wire (request_lines ?s ?u ?c [] [''ci=1'']) @ ''PACK''"
    by (simp add: chunk_rest_def)
  have 1: "list_all announced ?s" by code_simp
  have 2: "list_all update_sent [?u]" by code_simp
  have 3: "utf8 ?c" by code_simp
  have 4: "list_all option_sent [''ci=1'']" by code_simp
  have 5: "list_all line_ok (request_lines ?s ?u ?c [] [''ci=1''])"
    by (simp add: request_lines_def line_ok_def command_bytes_def)
  have c: "rc_push_options (apply_caps caps_default ?c)" "rc_atomic (apply_caps caps_default ?c)" by (code_simp)+
  show ?thesis using receive_parse_exact [OF h r 1 2 3 4 5] c by simp
qed

theorem receive_parse_safe_witness:
  "\<exists>x. parse chunk_read [Inr ''0008junk'', Inr ''0000''] = Some x \<and>
    (\<forall>txn caps pr. x = Inr (txn, caps, pr) \<longrightarrow> (\<forall>u \<in> set (updates txn). validate_ref_update u = Inr ()))"
  by (rule receive_parse_safe) (simp add: chunk_healthy_def)

section \<open>What a client sees of a report\<close>

definition report_seen :: "receive_caps \<Rightarrow> string \<Rightarrow> pkt_line list option" where
  "report_seen caps s =
     (let decode = (\<lambda>s. case all_lines str_read s of Some (Inr (ls, [])) \<Rightarrow> Some ls | _ \<Rightarrow> None)
      in if rc_side_band_64k caps then (case decode s of Some ls \<Rightarrow> decode (demux 1 ls) | None \<Rightarrow> None) else decode s)"

lemma split_lines_ok: "list_all (\<lambda>l. length l < 65532) (split_lines s) \<Longrightarrow> list_all line_ok (map Data (split_lines s))"
  by (simp add: list_all_iff line_ok_def)

lemma report_body: "foldl (\<lambda>b p. b @ ref_line p) a per_ref = a @ concat (map ref_line per_ref)"
  by (induction per_ref arbitrary: a) simp_all

lemma channel_frames_ok: "list_all line_ok (map Data (map (Cons c) (channel_parts buf)))"
  using channel_parts_props(2) [of _ buf] by (fastforce simp: list_all_iff line_ok_def MAX_PKT_DATA_def)

text \<open>After lines that carry nothing on the first channel, the client sees the lines of the report.\<close>

lemma report_seen_body:
  assumes "list_all (\<lambda>l. length l < 65532) (split_lines (unpack_line unpack @ concat (map ref_line per_ref)))"
    and "list_all line_ok ls" "demux 1 ls = []" "rc_side_band_64k caps \<or> ls = []"
  shows "report_seen caps (wire ls @ report_status caps unpack per_ref []) =
    Some (map Data (split_lines (unpack_line unpack @ concat (map ref_line per_ref))) @ [Flush])"
proof -
  define ms where "ms = map Data (split_lines (unpack_line unpack @ concat (map ref_line per_ref))) @ [Flush]"
  have f: "encode_flush (foldl encode_data [] (split_lines (unpack_line unpack @ concat (map ref_line per_ref)))) = wire ms"
    by (simp add: encode_data_fold encode_flush_def ms_def)
  have d: "all_lines str_read (wire ms) = Some (Inr (ms, []))"
    using split_lines_ok [OF assms(1)] by (intro all_lines_wire) (simp add: ms_def line_ok_def)
  show ?thesis
  proof (cases "rc_side_band_64k caps")
    case True
    let ?fs = "map Data (map (Cons (char_of (1 :: nat))) (channel_parts (wire ms)))"
    have w: "wire ls @ report_status caps unpack per_ref [] = wire (ls @ ?fs @ [Flush])"
      using True f unfolding report_status_def Let_def report_body write_data_def
      by (simp add: write_channel_wire sideband_flush_def encode_flush_def)
    have "all_lines str_read (wire (ls @ ?fs @ [Flush])) = Some (Inr (ls @ ?fs @ [Flush], []))"
      using assms(2) channel_frames_ok [of "char_of (1 :: nat)" "wire ms"]
      by (intro all_lines_wire) (simp add: line_ok_def [of Flush] del: map_map)
    moreover have "demux 1 (ls @ ?fs @ [Flush]) = wire ms"
      using assms(3) demux_channel [of 1 1 "channel_parts (wire ms)"] channel_parts_props(1) by simp
    ultimately show ?thesis unfolding w using True d by (simp add: report_seen_def ms_def)
  next
    case False
    then have "wire ls @ report_status caps unpack per_ref [] = wire ms"
      using assms(4) f by (simp add: report_status_def report_body)
    then show ?thesis using False d by (simp add: report_seen_def ms_def)
  qed
qed

lemma split_lines_lines:
  "\<forall>l \<in> set ls. CHR 0x0A \<notin> set l \<Longrightarrow> split_lines (concat (map (\<lambda>l. l @ nl) ls)) = map (\<lambda>l. l @ nl) ls"
  by (induction ls) (simp_all add: split_lines_line)

text \<open>The text of a status line, without its line feed.\<close>

definition unpack_text :: "(string, unit) result \<Rightarrow> string" where
  "unpack_text unpack = (case unpack of Inr _ \<Rightarrow> ''unpack ok'' | Inl msg \<Rightarrow> ''unpack ng '' @ msg)"

definition ref_text :: "string \<times> (string, unit) result \<Rightarrow> string" where
  "ref_text p = (case p of (name, Inr _) \<Rightarrow> ''ok '' @ name | (name, Inl msg) \<Rightarrow> ''ng '' @ name @ '' '' @ msg)"

lemma line_text: "unpack_line unpack = unpack_text unpack @ nl" "ref_line p = ref_text p @ nl"
  by (simp_all add: unpack_line_def unpack_text_def ref_line_def ref_text_def split: sum.splits prod.splits)

lemma report_split:
  assumes "\<forall>t \<in> set (unpack_text unpack # map ref_text per_ref). CHR 0x0A \<notin> set t"
  shows "split_lines (unpack_line unpack @ concat (map ref_line per_ref)) = unpack_line unpack # map ref_line per_ref"
proof -
  have "ref_line = (\<lambda>p. ref_text p @ nl)" by (rule ext) (rule line_text)
  then have "unpack_line unpack @ concat (map ref_line per_ref) = concat (map (\<lambda>l. l @ nl) (unpack_text unpack # map ref_text per_ref))"
    by (simp add: line_text comp_def)
  then show ?thesis using split_lines_lines [OF assms] by (simp add: line_text)
qed

text \<open>
  With or without the sideband, a client reads from a report exactly the verdict on the pack and one
  line per ref in order, as long as names and reasons are single lines that fit into a pkt-line.
\<close>

theorem report_status_exact:
  assumes "\<forall>t \<in> set (unpack_text unpack # map ref_text per_ref). CHR 0x0A \<notin> set t \<and> length t < 65531"
  shows "report_seen caps (report_status caps unpack per_ref []) =
    Some (Data (unpack_line unpack) # map (\<lambda>p. Data (ref_line p)) per_ref @ [Flush])"
proof -
  have s: "split_lines (unpack_line unpack @ concat (map ref_line per_ref)) = unpack_line unpack # map ref_line per_ref"
    using assms by (intro report_split) blast
  have l: "list_all (\<lambda>l. length l < 65532) (unpack_line unpack # map ref_line per_ref)"
    using assms by (auto simp: line_text list_all_iff)
  show ?thesis using report_seen_body [of unpack per_ref "[]" caps] s l by simp
qed

theorem report_status_exact_witness:
  "report_seen (caps_default\<lparr>rc_side_band_64k := True\<rparr>)
     (report_status (caps_default\<lparr>rc_side_band_64k := True\<rparr>) (Inr ()) [(''refs/heads/main'', Inr ()), (''refs/heads/x'', Inl ''stale'')] []) =
   Some [Data (''unpack ok'' @ nl), Data (''ok refs/heads/main'' @ nl), Data (''ng refs/heads/x stale'' @ nl), Flush]"
  using report_status_exact [of "Inr ()" "[(''refs/heads/main'', Inr ()), (''refs/heads/x'', Inl ''stale'')]"
      "caps_default\<lparr>rc_side_band_64k := True\<rparr>"]
  by (simp add: unpack_text_def ref_text_def unpack_line_def ref_line_def)

text \<open>A refusal: the reason goes out on the second channel, and then the report.\<close>

lemma refusal_seen:
  assumes "list_all (\<lambda>l. length l < 65532) (split_lines (unpack_line (Inl msg) @ concat (map (\<lambda>u. ref_line (upd_name u, Inl msg)) (updates txn))))"
    and "length msg < 65500"
  shows "report_seen caps (refusal_report caps txn msg) =
    Some (map Data (split_lines (unpack_line (Inl msg) @ concat (map (\<lambda>u. ref_line (upd_name u, Inl msg)) (updates txn)))) @ [Flush])"
proof -
  let ?ls = "if rc_side_band_64k caps then [Data (char_of (2 :: nat) # msg @ nl)] else []"
  have "chunks_of MAX_PKT_DATA (char_of (2 :: nat) # msg @ nl) = [char_of (2 :: nat) # msg @ nl]"
    using assms(2) by (intro chunks_of_short) (simp_all add: MAX_PKT_DATA_def)
  moreover have "ends_with nl (msg @ nl)" by (auto simp: ends_with_iff)
  ultimately have "sideband_pkt 2 (msg @ nl) = wire [Data (char_of (2 :: nat) # msg @ nl)]"
    by (simp add: sideband_pkt_def)
  then have "refusal_report caps txn msg =
      wire ?ls @ report_status caps (Inl msg) (map (\<lambda>u. (upd_name u, Inl msg)) (updates txn)) []"
    by (simp add: refusal_report_def)
  moreover have "list_all line_ok ?ls" using assms(2) by (simp add: line_ok_def)
  moreover have "demux 1 ?ls = []" using char_of_inj [of 2 1] by (simp add: demux_def)
  ultimately show ?thesis
    using report_seen_body [of "Inl msg" "map (\<lambda>u. (upd_name u, Inl msg)) (updates txn)" ?ls caps] assms(1)
    by (simp add: comp_def)
qed

text \<open>
  C29: The reason of a refusal must be one line. One with a line feed inside, as the standard error of a
  failed git command has it, reaches the client in pieces: each ref's reason is cut at the line feed, and
  what follows is a status line of its own that names no ref.
\<close>

theorem refusal_splits_reason:
  assumes "CHR 0x0A \<notin> set a" "CHR 0x0A \<notin> set b" "length a + length b < 65000"
    and "\<forall>u \<in> set (updates txn). CHR 0x0A \<notin> set (upd_name u) \<and> length (upd_name u) + length a < 65000"
  shows "report_seen caps (refusal_report caps txn (a @ nl @ b)) =
    Some (Data (''unpack ng '' @ a @ nl) # Data (b @ nl) #
      concat (map (\<lambda>u. [Data (''ng '' @ upd_name u @ '' '' @ a @ nl), Data (b @ nl)]) (updates txn)) @ [Flush])"
proof -
  let ?ts = "(''unpack ng '' @ a) # b # concat (map (\<lambda>u. [''ng '' @ upd_name u @ '' '' @ a, b]) (updates txn))"
  have body: "unpack_line (Inl (a @ nl @ b)) @ concat (map (\<lambda>u. ref_line (upd_name u, Inl (a @ nl @ b))) (updates txn)) =
      concat (map (\<lambda>l. l @ nl) ?ts)"
  proof -
    have "concat (map (\<lambda>u. ref_line (upd_name u, Inl (a @ nl @ b))) us) =
        concat (map (\<lambda>l. l @ nl) (concat (map (\<lambda>u. [''ng '' @ upd_name u @ '' '' @ a, b]) us)))" for us
      by (induction us) (simp_all add: ref_line_def)
    then show ?thesis by (simp add: unpack_line_def)
  qed
  have t: "\<forall>t \<in> set ?ts. CHR 0x0A \<notin> set t \<and> length t < 65531" using assms by auto
  then have s: "split_lines (concat (map (\<lambda>l. l @ nl) ?ts)) = map (\<lambda>l. l @ nl) ?ts"
    using split_lines_lines by blast
  have l: "list_all (\<lambda>l. length l < 65532) (map (\<lambda>l. l @ nl) ?ts)" using t by (auto simp: list_all_iff)
  show ?thesis using refusal_seen [of "a @ nl @ b" txn caps] body s l assms(3)
    by (simp add: map_concat comp_def)
qed

theorem refusal_splits_reason_witness:
  "report_seen caps_default (refusal_report caps_default
     \<lparr>updates = [\<lparr>upd_name = ''refs/heads/main'', old_oid = [], new_oid = replicate 40 CHR ''a'',
        new_symbolic_target = [], new_peeled = []\<rparr>], push_options = [], txn_atomic = False\<rparr>
     (''unpack failed: subprocess exited: error: object corrupt'' @ nl @ ''fatal: fsck error'')) =
   Some [Data (''unpack ng unpack failed: subprocess exited: error: object corrupt'' @ nl), Data (''fatal: fsck error'' @ nl),
     Data (''ng refs/heads/main unpack failed: subprocess exited: error: object corrupt'' @ nl), Data (''fatal: fsck error'' @ nl), Flush]"
  using refusal_splits_reason [of "''unpack failed: subprocess exited: error: object corrupt''" "''fatal: fsck error''"
      "\<lparr>updates = [\<lparr>upd_name = ''refs/heads/main'', old_oid = [], new_oid = replicate 40 CHR ''a'',
        new_symbolic_target = [], new_peeled = []\<rparr>], push_options = [], txn_atomic = False\<rparr>" caps_default]
  by simp

text \<open>
  A text longer than one frame is cut by \<open>sideband_pkt\<close> without the band in front of the later frames:
  their first byte, a byte of the text, is taken for the band.
\<close>

lemma sideband_pkt_long:
  assumes "length p = MAX_PKT_DATA - 1" "c \<noteq> CHR 0x0A" "c \<noteq> char_of band"
  shows "sideband_pkt band (p @ [c]) = wire [Data (char_of band # p), Data [c, CHR 0x0A]]"
    and "demux band [Data (char_of band # p), Data [c, CHR 0x0A]] = p"
proof -
  have l: "length (char_of band # p) = MAX_PKT_DATA" "0 < MAX_PKT_DATA" "length [c, CHR 0x0A] \<le> MAX_PKT_DATA"
    using assms(1) by (simp_all add: MAX_PKT_DATA_def)
  have "chunks_of MAX_PKT_DATA ((char_of band # p) @ [c, CHR 0x0A]) = [char_of band # p, [c, CHR 0x0A]]"
    using l by (subst chunks_of_cut) (simp_all add: chunks_of_short flip: l(1))
  moreover have "\<not> ends_with nl (p @ [c])" using assms(2) by (auto simp: ends_with_iff)
  ultimately show "sideband_pkt band (p @ [c]) = wire [Data (char_of band # p), Data [c, CHR 0x0A]]"
    by (simp add: sideband_pkt_def encode_data_hex4)
  show "demux band [Data (char_of band # p), Data [c, CHR 0x0A]] = p" using assms(3) by (simp add: demux_def)
qed

text \<open>All-zero ids are empty after normalization, the others and the names are as sent.\<close>

lemma normalize_update_exact:
  "upd_name (normalize_update u) = upd_name u"
  "old_oid (normalize_update u) = (if is_zero_oid (old_oid u) then [] else old_oid u)"
  "new_oid (normalize_update u) = (if is_zero_oid (new_oid u) then [] else new_oid u)"
  by (simp_all add: normalize_update_def Let_def)

end
