(* ===== verification/Git_Upload.thy ===== *)
theory Git_Upload
  imports Git_Receive "HOL-Library.Product_Lexorder"
begin

text \<open>
  Listing and fetching on the wire (\<^verbatim>\<open>crates/gitcask-git/src/pkt.rs\<close>, \<^verbatim>\<open>advertise.rs\<close>, \<^verbatim>\<open>types.rs\<close> and the
  handler in \<^verbatim>\<open>crates/gitcask-server/src/smart.rs\<close>): commands of protocol version 2, \<open>ls-refs\<close> by ranges of
  the sorted refs, the version 0 advertisement, fetch requests as they are read and as they are handed to
  git. Synchronization, caches and the pack itself are not part of the handler here.
\<close>

section \<open>Commands of protocol version 2 (pkt.rs)\<close>

record v2_command =
  v2_name :: string
  v2_caps :: "string \<Rightarrow> string option"
  v2_args :: "string list"

definition v2_default :: v2_command where
  "v2_default = \<lparr>v2_name = [], v2_caps = (\<lambda>k. None), v2_args = []\<rparr>"

definition cap :: "string \<Rightarrow> v2_command \<Rightarrow> string option" where
  "cap key cmd = v2_caps cmd key"

definition has_cap :: "string \<Rightarrow> v2_command \<Rightarrow> bool" where
  "has_cap key cmd \<longleftrightarrow> v2_caps cmd key \<noteq> None"

text \<open>One line of the preamble. The state is the command, and whether its name has been seen.\<close>

definition preamble_line :: "string \<Rightarrow> v2_command \<times> bool \<Rightarrow> v2_command \<times> bool" where
  "preamble_line b st =
     (case st of (cmd, saw) \<Rightarrow>
        let s = rust_trim_end (from_utf8_lossy b)
        in case str_strip_prefix ''command='' s of
             Some rest \<Rightarrow> (cmd\<lparr>v2_name := rest\<rparr>, True)
           | None \<Rightarrow>
               (case split_once (CHR ''='') s of
                  Some (k, v) \<Rightarrow> (cmd\<lparr>v2_caps := (v2_caps cmd)(k \<mapsto> v)\<rparr>, saw)
                | None \<Rightarrow>
                    (let cmd1 = (if s \<noteq> [] \<and> CHR 0x20 \<notin> set s \<and> v2_caps cmd s = None
                                 then cmd\<lparr>v2_caps := (v2_caps cmd)(s \<mapsto> [])\<rparr> else cmd)
                     in (cmd1\<lparr>v2_args := v2_args cmd1 @ [s]\<rparr>, saw))))"

definition preamble_turn :: "pkt_line option \<Rightarrow> v2_command \<times> bool \<Rightarrow> (v2_command \<times> bool) loop_turn" where
  "preamble_turn l st = (case l of Some (Data b) \<Rightarrow> Go (preamble_line b st) | _ \<Rightarrow> Stop st)"

definition read_command :: "'r read \<Rightarrow> 'r \<Rightarrow> (git_error, v2_command \<times> 'r) result option" where
  "read_command rd r =
     (case line_loop rd preamble_turn (v2_default, False) r of
        None \<Rightarrow> None
      | Some (Inl e) \<Rightarrow> Some (Inl e)
      | Some (Inr ((cmd, saw), r')) \<Rightarrow>
          if \<not> saw \<and> v2_name cmd = [] then Some (Inl (Protocol ''v2 request missing command='')) else Some (Inr (cmd, r')))"

text \<open>
  The arguments of \<open>ls-refs\<close>. The capabilities are a hash map, visited in an order that is not
  specified: \<open>it\<close> is the order of the visit.
\<close>

record ls_refs_args =
  la_prefixes :: "string list"
  la_symrefs :: bool
  la_peel :: bool
  la_unborn :: bool

definition ls_refs_default :: ls_refs_args where
  "ls_refs_default = \<lparr>la_prefixes = [], la_symrefs = False, la_peel = False, la_unborn = False\<rparr>"

definition parse_ls_refs_line :: "ls_refs_args \<Rightarrow> string \<Rightarrow> ls_refs_args" where
  "parse_ls_refs_line req line =
     (case str_strip_prefix ''ref-prefix '' line of
        Some p \<Rightarrow> req\<lparr>la_prefixes := la_prefixes req @ [p]\<rparr>
      | None \<Rightarrow>
          (case str_strip_prefix ''ref-prefix='' line of
             Some p \<Rightarrow> req\<lparr>la_prefixes := la_prefixes req @ [p]\<rparr>
           | None \<Rightarrow>
               if line = ''symrefs'' then req\<lparr>la_symrefs := True\<rparr>
               else if line = ''peel'' then req\<lparr>la_peel := True\<rparr>
               else if line = ''unborn'' then req\<lparr>la_unborn := True\<rparr> else req))"

definition parse_ls_refs_cap :: "ls_refs_args \<Rightarrow> string \<times> string \<Rightarrow> ls_refs_args" where
  "parse_ls_refs_cap req kv =
     (case kv of (key, val) \<Rightarrow>
        if key = ''ref-prefix'' \<and> val \<noteq> [] then req\<lparr>la_prefixes := la_prefixes req @ [val]\<rparr>
        else if val = [] then parse_ls_refs_line req key else req)"

definition parse_ls_refs :: "(string \<times> string) list \<Rightarrow> v2_command \<Rightarrow> ls_refs_args" where
  "parse_ls_refs it cmd = foldl parse_ls_refs_cap (foldl parse_ls_refs_line ls_refs_default (v2_args cmd)) it"

definition ls_refs_turn :: "pkt_line option \<Rightarrow> ls_refs_args \<Rightarrow> ls_refs_args loop_turn" where
  "ls_refs_turn l req =
     (case l of
        Some (Data d) \<Rightarrow> Go (parse_ls_refs_line req (rust_trim_end (from_utf8_lossy d)))
      | Some Delim \<Rightarrow> Go req
      | _ \<Rightarrow> Stop req)"

definition read_ls_refs_args :: "'r read \<Rightarrow> ls_refs_args \<Rightarrow> 'r \<Rightarrow> (git_error, ls_refs_args \<times> 'r) result option" where
  "read_ls_refs_args rd req r = line_loop rd ls_refs_turn req r"

definition parse_object_info :: "v2_command \<Rightarrow> string list" where
  "parse_object_info cmd = List.map_filter (str_strip_prefix ''oid '') (v2_args cmd)"

section \<open>Listing refs (advertise.rs, types.rs)\<close>

record ls_refs_line =
  ll_name :: string
  ll_oid :: string
  ll_peeled :: string
  ll_symref :: "string option"

definition render :: "ls_refs_args \<Rightarrow> ls_refs_line \<Rightarrow> string" where
  "render args l =
     ll_oid l @ '' '' @ ll_name l @
     (if la_symrefs args \<or> ll_oid l = ''unborn'' then (case ll_symref l of Some t \<Rightarrow> '' symref-target:'' @ t | None \<Rightarrow> []) else []) @
     (if la_peel args \<and> ll_peeled l \<noteq> [] then '' peeled:'' @ ll_peeled l else []) @ nl"

text \<open>The range of the refs with a prefix in a list sorted by name: \<open>partition_point\<close>, then a scan.\<close>

definition prefix_range :: "git_ref list \<Rightarrow> string \<Rightarrow> nat \<times> nat" where
  "prefix_range refs p =
     (let start = length (takeWhile (\<lambda>r. ref_name r < p) refs)
      in (start, start + length (takeWhile (\<lambda>r. starts_with p (ref_name r)) (drop start refs))))"

fun merge_ranges :: "git_ref list \<Rightarrow> git_ref list \<Rightarrow> nat \<Rightarrow> (nat \<times> nat) list \<Rightarrow> git_ref list" where
  "merge_ranges refs out cursor [] = out"
| "merge_ranges refs out cursor ((a0, b) # rs) =
     (let a = max a0 cursor
      in if a < b then merge_ranges refs (out @ take (b - a) (drop a refs)) b rs else merge_ranges refs out cursor rs)"

definition selected :: "git_ref list \<Rightarrow> string list \<Rightarrow> git_ref list" where
  "selected refs ps =
     (if ps = [] then refs else merge_ranges refs [] 0 (sort (map (prefix_range refs) ps)))"

definition head_line :: "string \<Rightarrow> string \<Rightarrow> ls_refs_line" where
  "head_line oid target =
     \<lparr>ll_name = HEAD, ll_oid = oid, ll_peeled = [], ll_symref = (if target = [] then None else Some target)\<rparr>"

definition ls_refs :: "ref_snapshot \<Rightarrow> ls_refs_args \<Rightarrow> ls_refs_line list" where
  "ls_refs snap args =
     (let target = snap_head_target snap;
          head_oid = (if target = [] then (if snap_head_oid snap = [] then None else Some (snap_head_oid snap))
                      else (case search_ref target (snap_refs snap) of
                              Inr i \<Rightarrow> Some (ref_oid (snap_refs snap ! i)) | Inl _ \<Rightarrow> None));
          lines = map (\<lambda>r. \<lparr>ll_name = ref_name r, ll_oid = ref_oid r, ll_peeled = ref_peeled r, ll_symref = None\<rparr>)
                    (filter (\<lambda>r. ref_name r \<noteq> HEAD) (selected (snap_refs snap) (la_prefixes args)));
          head_matches = (la_prefixes args = [] \<or> list_ex (\<lambda>p. starts_with p HEAD) (la_prefixes args))
      in lines @
         (if head_matches then
            (case head_oid of
               Some oid \<Rightarrow> [head_line oid target]
             | None \<Rightarrow> if la_unborn args \<and> target \<noteq> [] then [head_line ''unborn'' target] else [])
          else []))"

text \<open>The version 0 advertisement. \<open>ver\<close> is the version of the package.\<close>

datatype service = UploadPack | ReceivePack

datatype object_format = Sha1 | Sha256

definition format_str :: "object_format \<Rightarrow> string" where
  "format_str f = (case f of Sha1 \<Rightarrow> ''sha1'' | Sha256 \<Rightarrow> ''sha256'')"

definition zero_hex :: "object_format \<Rightarrow> string" where
  "zero_hex f = replicate (case f of Sha1 \<Rightarrow> 40 | Sha256 \<Rightarrow> 64) (CHR ''0'')"

definition capabilities_for :: "string \<Rightarrow> service \<Rightarrow> object_format \<Rightarrow> string" where
  "capabilities_for ver service format =
     (case service of
        UploadPack \<Rightarrow>
          ''multi_ack_detailed side-band-64k thin-pack ofs-delta shallow deepen-since deepen-not no-progress include-tag allow-tip-sha1-in-want allow-reachable-sha1-in-want filter object-format=''
      | ReceivePack \<Rightarrow>
          ''report-status report-status-v2 delete-refs side-band-64k quiet atomic ofs-delta push-options object-format='') @
     format_str format @ '' agent=gitcask/'' @ ver"

fun advertise_loop :: "string \<Rightarrow> bool \<times> string \<Rightarrow> git_ref list \<Rightarrow> bool \<times> string" where
  "advertise_loop caps st [] = st"
| "advertise_loop caps (first, out) (r # rs) =
     (let out1 = encode_data out (ref_oid r @ '' '' @ ref_name r @ (if first then CHR 0x00 # caps else []) @ nl);
          out2 = (if ref_peeled r \<noteq> [] \<and> ref_peeled r \<noteq> ref_oid r
                  then encode_data out1 (ref_peeled r @ '' '' @ ref_name r @ ''^{}'' @ nl) else out1)
      in advertise_loop caps (False, out2) rs)"

definition advertise_refs_v0 :: "string \<Rightarrow> object_format \<Rightarrow> ref_snapshot \<Rightarrow> service \<Rightarrow> string \<Rightarrow> string" where
  "advertise_refs_v0 ver format snap service out =
     (let caps0 = capabilities_for ver service format;
          caps_line = CHR 0x00 # caps0 @ nl;
          head_oid = (if snap_head_target snap = [] then snap_head_oid snap
                      else (case find (\<lambda>r. ref_name r = snap_head_target snap) (snap_refs snap) of
                              Some r \<Rightarrow> ref_oid r | None \<Rightarrow> []));
          caps = caps0 @ (if snap_head_target snap \<noteq> [] \<and> service = UploadPack
                          then '' symref=HEAD:'' @ snap_head_target snap else []);
          st = (if head_oid \<noteq> [] \<and> service = UploadPack
                then (False, encode_data out (head_oid @ '' HEAD'' @ [CHR 0x00] @ caps @ nl)) else (True, out));
          (first, out1) = advertise_loop caps st (snap_refs snap);
          out2 = (if first then encode_data out1 (zero_hex format @ '' capabilities^{}'' @ caps_line) else out1)
      in encode_flush out2)"

section \<open>Fetch requests (advertise.rs, smart.rs)\<close>

text \<open>
  Object ids belong to a library: \<open>'o\<close> is their type, \<open>from_hex\<close> and \<open>to_hex\<close> read and print them.
  Numbers are read by the standard library: \<open>u32\<close> and \<open>i64\<close> in decimal, a sign in front allowed.
\<close>

record 'o upload_pack_request =
  wants :: "'o list"
  haves :: "'o list"
  fr_done :: bool
  thin_pack :: bool
  no_progress :: bool
  include_tag :: bool
  fr_ofs_delta :: bool
  sideband_all :: bool
  wait_for_done :: bool
  fr_filter :: "string option"
  deepen :: "nat option"
  deepen_since :: "int option"
  deepen_not :: "string list"
  fr_shallow :: "'o list"
  want_refs :: "string list"

definition empty_request :: "'o upload_pack_request" where
  "empty_request = \<lparr>wants = [], haves = [], fr_done = False, thin_pack = False, no_progress = False, include_tag = False,
     fr_ofs_delta = False, sideband_all = False, wait_for_done = False, fr_filter = None, deepen = None, deepen_since = None,
     deepen_not = [], fr_shallow = [], want_refs = []\<rparr>"

definition parse_u32 :: "string \<Rightarrow> nat option" where
  "parse_u32 s =
     (let d = (case s of c # t \<Rightarrow> if c = CHR ''+'' then t else s | [] \<Rightarrow> [])
      in if d = [] \<or> \<not> list_all is_digit d \<or> 2 ^ 32 \<le> digits_value d then None else Some (digits_value d))"

definition parse_i64 :: "string \<Rightarrow> int option" where
  "parse_i64 s =
     (let neg = (case s of c # t \<Rightarrow> c = CHR ''-'' | [] \<Rightarrow> False);
          d = (case s of c # t \<Rightarrow> if c = CHR ''+'' \<or> c = CHR ''-'' then t else s | [] \<Rightarrow> []);
          v = (if neg then - int (digits_value d) else int (digits_value d))
      in if d = [] \<or> \<not> list_all is_digit d \<or> v < - (2 ^ 63) \<or> 2 ^ 63 \<le> v then None else Some v)"

definition int_str :: "int \<Rightarrow> string" where
  "int_str i = (if i < 0 then CHR ''-'' # nat_str (nat (- i)) else nat_str (nat i))"

text \<open>One line of a fetch request, its line feeds removed.\<close>

definition fetch_line :: "(string \<Rightarrow> 'o option) \<Rightarrow> string \<Rightarrow> 'o upload_pack_request \<Rightarrow> 'o upload_pack_request" where
  "fetch_line from_hex s req =
     (case str_strip_prefix ''want '' s of Some hex \<Rightarrow>
        (case from_hex hex of Some oid \<Rightarrow> req\<lparr>wants := wants req @ [oid]\<rparr> | None \<Rightarrow> req)
      | None \<Rightarrow>
     (case str_strip_prefix ''have '' s of Some hex \<Rightarrow>
        (case from_hex hex of Some oid \<Rightarrow> req\<lparr>haves := haves req @ [oid]\<rparr> | None \<Rightarrow> req)
      | None \<Rightarrow>
     if s = ''done'' then req\<lparr>fr_done := True\<rparr>
     else if s = ''thin-pack'' then req\<lparr>thin_pack := True\<rparr>
     else if s = ''no-progress'' then req\<lparr>no_progress := True\<rparr>
     else if s = ''include-tag'' then req\<lparr>include_tag := True\<rparr>
     else if s = ''ofs-delta'' then req\<lparr>fr_ofs_delta := True\<rparr>
     else if s = ''sideband-all'' then req\<lparr>sideband_all := True\<rparr>
     else if s = ''wait-for-done'' then req\<lparr>wait_for_done := True\<rparr>
     else
     (case str_strip_prefix ''filter '' s of Some spec \<Rightarrow> req\<lparr>fr_filter := Some spec\<rparr>
      | None \<Rightarrow>
     (case str_strip_prefix ''deepen '' s of Some n \<Rightarrow> req\<lparr>deepen := parse_u32 n\<rparr>
      | None \<Rightarrow>
     (case str_strip_prefix ''deepen-since '' s of Some t \<Rightarrow> req\<lparr>deepen_since := parse_i64 t\<rparr>
      | None \<Rightarrow>
     (case str_strip_prefix ''deepen-not '' s of Some r \<Rightarrow> req\<lparr>deepen_not := deepen_not req @ [r]\<rparr>
      | None \<Rightarrow>
     (case str_strip_prefix ''shallow '' s of Some hex \<Rightarrow>
        (case from_hex hex of Some oid \<Rightarrow> req\<lparr>fr_shallow := fr_shallow req @ [oid]\<rparr> | None \<Rightarrow> req)
      | None \<Rightarrow>
     (case str_strip_prefix ''want-ref '' s of Some r \<Rightarrow> req\<lparr>want_refs := want_refs req @ [r]\<rparr>
      | None \<Rightarrow> req))))))))"

definition fetch_turn :: "(string \<Rightarrow> 'o option) \<Rightarrow> pkt_line option \<Rightarrow> 'o upload_pack_request \<Rightarrow> 'o upload_pack_request loop_turn" where
  "fetch_turn from_hex l req =
     (case l of Some (Data b) \<Rightarrow> Go (fetch_line from_hex (trim_end_nl (from_utf8_lossy b)) req) | _ \<Rightarrow> Stop req)"

definition parse_fetch_request ::
  "(string \<Rightarrow> 'o option) \<Rightarrow> 'r read \<Rightarrow> 'r \<Rightarrow> (git_error, 'o upload_pack_request \<times> 'r) result option" where
  "parse_fetch_request from_hex rd r = line_loop rd (fetch_turn from_hex) empty_request r"

text \<open>The request handed to git: the texts of its lines, and the bytes.\<close>

definition flag :: "bool \<Rightarrow> string \<Rightarrow> string list" where
  "flag b s = (if b then [s] else [])"

definition fetch_texts :: "('o \<Rightarrow> string) \<Rightarrow> 'o upload_pack_request \<Rightarrow> string list" where
  "fetch_texts to_hex req =
     flag (thin_pack req) ''thin-pack'' @ flag (fr_ofs_delta req) ''ofs-delta'' @ flag (no_progress req) ''no-progress'' @
     flag (include_tag req) ''include-tag'' @ flag (sideband_all req) ''sideband-all'' @ flag (wait_for_done req) ''wait-for-done'' @
     (case fr_filter req of Some f \<Rightarrow> [''filter '' @ f] | None \<Rightarrow> []) @
     map (\<lambda>w. ''want '' @ to_hex w) (wants req) @ map (\<lambda>h. ''have '' @ to_hex h) (haves req) @
     map (\<lambda>s. ''shallow '' @ to_hex s) (fr_shallow req) @
     (case deepen req of Some d \<Rightarrow> [''deepen '' @ nat_str d] | None \<Rightarrow> []) @
     (case deepen_since req of Some ts \<Rightarrow> [''deepen-since '' @ int_str ts] | None \<Rightarrow> []) @
     map (\<lambda>n. ''deepen-not '' @ n) (deepen_not req) @ map (\<lambda>r. ''want-ref '' @ r) (want_refs req) @
     flag (fr_done req) ''done''"

definition build_v2_fetch_request :: "('o \<Rightarrow> string) \<Rightarrow> 'o upload_pack_request \<Rightarrow> object_format \<Rightarrow> string" where
  "build_v2_fetch_request to_hex req format =
     (let buf = encode_data (encode_data [] (''command=fetch'' @ nl)) (''object-format='' @ format_str format @ nl)
      in encode_flush (foldl encode_data (encode_delim buf) (map (\<lambda>t. t @ nl) (fetch_texts to_hex req))))"

section \<open>Answers (smart.rs)\<close>

definition parse_query :: "string \<Rightarrow> string \<Rightarrow> string option" where
  "parse_query query key =
     map_option snd (find (\<lambda>(k, v). k = key) (List.map_filter (split_once (CHR ''='')) (split_on (CHR ''&'') query)))"

text \<open>The capabilities of version 2; \<open>allow_filter\<close> is a setting of the server.\<close>

definition v2_capability_advert :: "string \<Rightarrow> bool \<Rightarrow> object_format \<Rightarrow> string \<Rightarrow> string" where
  "v2_capability_advert ver allow_filter format buf =
     encode_flush (foldl encode_data buf
       [''version 2'' @ nl, ''agent=gitcask/'' @ ver @ nl, ''ls-refs=unborn'' @ nl,
        ''fetch=shallow wait-for-done'' @ (if allow_filter then '' filter'' else []) @ '' sideband-all'' @ nl,
        ''server-option'' @ nl, ''object-format='' @ format_str format @ nl])"

text \<open>The body of the answer to \<open>ls-refs\<close>, from the command on, without the cache of answers.\<close>

definition answer_ls_refs ::
  "((string \<Rightarrow> string option) \<Rightarrow> (string \<times> string) list) \<Rightarrow> ref_snapshot \<Rightarrow> 'r read \<Rightarrow> v2_command \<Rightarrow> 'r \<Rightarrow>
   (git_error, string) result option" where
  "answer_ls_refs it snap rd cmd r =
     (case read_ls_refs_args rd (parse_ls_refs (it (v2_caps cmd)) cmd) r of
        None \<Rightarrow> None
      | Some (Inl e) \<Rightarrow> Some (Inl e)
      | Some (Inr (args, r')) \<Rightarrow>
          Some (Inr (encode_flush (foldl encode_data [] (map (render args) (ls_refs snap args))))))"

definition git_err_body :: "string \<Rightarrow> string" where
  "git_err_body msg = encode_flush (encode_data [] (''ERR '' @ msg @ nl))"

text \<open>
  The handler of a version 2 request, from its body on. The process may be about to stop (\<open>draining\<close>),
  \<open>max_wants\<close> bounds a fetch unless it is zero, \<open>object_size\<close> looks up an object. The pack of a fetch comes
  from git: the answer is the request it is handed.
\<close>

datatype 'o v2_answer =
    Body string
  | Draining
  | TooManyWants nat bool
  | Fetch "'o upload_pack_request"
  | UnknownCommand string

definition answer_fetch ::
  "bool \<Rightarrow> nat \<Rightarrow> (string \<Rightarrow> 'o option) \<Rightarrow> 'r read \<Rightarrow> 'r \<Rightarrow> (git_error, 'o v2_answer) result option" where
  "answer_fetch draining max_wants from_hex rd r =
     (if draining then Some (Inr Draining)
      else case parse_fetch_request from_hex rd r of
             None \<Rightarrow> None
           | Some (Inl e) \<Rightarrow> Some (Inl e)
           | Some (Inr (req, r')) \<Rightarrow>
               if 0 < max_wants \<and> max_wants < length (wants req) then Some (Inr (TooManyWants (length (wants req)) (sideband_all req)))
               else Some (Inr (Fetch req)))"

definition answer_object_info :: "(string \<Rightarrow> 'o option) \<Rightarrow> ('o \<Rightarrow> nat option) \<Rightarrow> v2_command \<Rightarrow> string" where
  "answer_object_info from_hex object_size cmd =
     encode_flush (foldl encode_data []
       (map (\<lambda>hex. ''size '' @
               int_str (case from_hex hex of None \<Rightarrow> -1
                        | Some oid \<Rightarrow> (case object_size oid of None \<Rightarrow> -1 | Some n \<Rightarrow> int n)) @ nl)
          (parse_object_info cmd)))"

definition upload_pack_v2 ::
  "bool \<Rightarrow> nat \<Rightarrow> ((string \<Rightarrow> string option) \<Rightarrow> (string \<times> string) list) \<Rightarrow> ref_snapshot \<Rightarrow> (string \<Rightarrow> 'o option) \<Rightarrow>
   ('o \<Rightarrow> nat option) \<Rightarrow> 'r read \<Rightarrow> 'r \<Rightarrow> (git_error, 'o v2_answer) result option" where
  "upload_pack_v2 draining max_wants it snap from_hex object_size rd r =
     (case read_command rd r of
        None \<Rightarrow> None
      | Some (Inl e) \<Rightarrow> Some (Inl e)
      | Some (Inr (cmd, r')) \<Rightarrow>
          if v2_name cmd = ''ls-refs'' then map_option (map_sum id Body) (answer_ls_refs it snap rd cmd r')
          else if v2_name cmd = ''fetch'' then answer_fetch draining max_wants from_hex rd r'
          else if v2_name cmd = ''object-info'' then Some (Inr (Body (answer_object_info from_hex object_size cmd)))
          else Some (Inr (UnknownCommand (v2_name cmd))))"

section \<open>Selection by ranges\<close>

lemma takeWhile_prefix:
  "sorted_wrt (<) (map ref_name rs) \<Longrightarrow> \<forall>r \<in> set rs. p \<le> ref_name r \<Longrightarrow>
   takeWhile (\<lambda>r. starts_with p (ref_name r)) rs = filter (\<lambda>r. starts_with p (ref_name r)) rs"
proof (induction rs)
  case (Cons r rs)
  show ?case
  proof (cases "starts_with p (ref_name r)")
    case False
    have "\<not> starts_with p (ref_name x)" if "x \<in> set rs" for x
      using Cons.prems that False past_prefix [of p "ref_name r" "ref_name x"] by auto
    with False show ?thesis by simp
  qed (use Cons in simp)
qed simp

lemma takeWhile_index:
  assumes "i < length xs" "takeWhile P xs = filter P xs"
  shows "i < length (takeWhile P xs) \<longleftrightarrow> P (xs ! i)"
proof
  assume "i < length (takeWhile P xs)"
  then show "P (xs ! i)" by (metis nth_mem set_takeWhileD takeWhile_nth)
next
  assume p: "P (xs ! i)"
  show "i < length (takeWhile P xs)"
  proof (rule ccontr)
    assume n: "\<not> i < length (takeWhile P xs)"
    have "\<forall>y \<in> set (dropWhile P xs). \<not> P y"
    proof -
      have "filter P (takeWhile P xs) @ filter P (dropWhile P xs) = takeWhile P xs"
        using assms(2) by (metis filter_append takeWhile_dropWhile_id)
      moreover have "filter P (takeWhile P xs) = takeWhile P xs" by (auto simp: filter_id_conv dest: set_takeWhileD)
      ultimately have "filter P (dropWhile P xs) = []" by simp
      then show ?thesis by (simp add: filter_empty_conv)
    qed
    moreover have "xs ! i \<in> set (dropWhile P xs)"
    proof -
      let ?k = "length (takeWhile P xs)"
      have "drop ?k xs ! (i - ?k) = xs ! i" "i - ?k < length (drop ?k xs)" using n assms(1) by simp_all
      then show ?thesis by (metis dropWhile_eq_drop nth_mem)
    qed
    ultimately show False using p by blast
  qed
qed

text \<open>The range of a prefix is where it matches.\<close>

lemma prefix_range_index:
  assumes s: "sorted_wrt (<) (map ref_name refs)" and i: "i < length refs" and r: "prefix_range refs p = (a, b)"
  shows "a \<le> i \<and> i < b \<longleftrightarrow> starts_with p (ref_name (refs ! i))"
proof -
  let ?lt = "\<lambda>r. ref_name r < p" and ?sw = "\<lambda>r. starts_with p (ref_name r)"
  have f: "takeWhile ?lt refs = filter ?lt refs"
    using search_prefix [OF s] .
  have a: "a = length (takeWhile ?lt refs)" and b: "b = a + length (takeWhile ?sw (drop a refs))"
    using r by (auto simp: prefix_range_def Let_def)
  have i1: "i < a \<longleftrightarrow> ref_name (refs ! i) < p" using takeWhile_index [OF i f] a by simp
  have d: "sorted_wrt (<) (map ref_name (drop a refs))" using s by (metis drop_map sorted_wrt_drop)
  have "\<forall>x \<in> set (drop a refs). p \<le> ref_name x"
  proof
    fix x
    assume "x \<in> set (drop a refs)"
    then obtain k where "k < length (drop a refs)" "drop a refs ! k = x" by (metis in_set_conv_nth)
    then obtain j where "j < length refs" "a \<le> j" "refs ! j = x" by (intro that [of "a + k"]) auto
    then show "p \<le> ref_name x" using takeWhile_index [OF _ f, of j] a by auto
  qed
  then have g: "takeWhile ?sw (drop a refs) = filter ?sw (drop a refs)" using d by (intro takeWhile_prefix)
  show ?thesis
  proof (cases "i < a")
    case True
    then have "ref_name (refs ! i) < p" using i1 by simp
    then have "\<not> starts_with p (ref_name (refs ! i))" using starts_with_le by fastforce
    with True show ?thesis by simp
  next
    case False
    then have "i - a < length (drop a refs)" "drop a refs ! (i - a) = refs ! i" using i by simp_all
    then have "i - a < length (takeWhile ?sw (drop a refs)) \<longleftrightarrow> starts_with p (ref_name (refs ! i))"
      using takeWhile_index [OF _ g] by metis
    with False b show ?thesis by auto
  qed
qed

definition in_ranges :: "(nat \<times> nat) list \<Rightarrow> nat \<Rightarrow> bool" where
  "in_ranges rs i = list_ex (\<lambda>(a, b). a \<le> i \<and> i < b) rs"

text \<open>Sorted ranges are merged into the indices they cover, in order and once each.\<close>

lemma upt_pieces: "c \<le> a \<Longrightarrow> a \<le> b \<Longrightarrow> b \<le> n \<Longrightarrow> [c..<n] = [c..<a] @ [a..<b] @ [b..<n]"
proof -
  have u: "i \<le> j \<Longrightarrow> j \<le> k \<Longrightarrow> [i..<k] = [i..<j] @ [j..<k]" for i j k
    using upt_add_eq_append [of i j "k - j"] by simp
  assume "c \<le> a" "a \<le> b" "b \<le> n"
  then show ?thesis using u [of c a n] u [of a b n] by simp
qed

lemma merge_ranges_index:
  assumes "sorted (map fst rs)" "\<forall>(a, b) \<in> set rs. b \<le> length refs" "c \<le> length refs"
  shows "merge_ranges refs out c rs = out @ map (nth refs) (filter (in_ranges rs) [c..<length refs])"
  using assms
proof (induction rs arbitrary: out c)
  case Nil
  have "filter (in_ranges []) [c..<length refs] = []" by (simp add: in_ranges_def filter_empty_conv)
  then show ?case by simp
next
  case (Cons r rs)
  obtain a0 b where r: "r = (a0, b)" by fastforce
  define a where "a = max a0 c"
  have b: "b \<le> length refs" and later: "\<forall>(a', b') \<in> set rs. a0 \<le> a'" using Cons.prems r by auto
  show ?case
  proof (cases "a < b")
    case True
    have "filter (in_ranges (r # rs)) [c..<a] = []"
      using later r by (auto simp: filter_empty_conv in_ranges_def list_ex_iff a_def max_def split: if_splits)
    moreover have "filter (in_ranges (r # rs)) [a..<b] = [a..<b]"
      using r by (auto simp: filter_id_conv in_ranges_def a_def)
    moreover have "filter (in_ranges (r # rs)) [b..<length refs] = filter (in_ranges rs) [b..<length refs]"
      using r by (intro filter_cong) (auto simp: in_ranges_def)
    ultimately have "filter (in_ranges (r # rs)) [c..<length refs] = [a..<b] @ filter (in_ranges rs) [b..<length refs]"
      using True b upt_pieces [of c a b "length refs"] by (simp add: a_def)
    moreover have "take (b - a) (drop a refs) = map (nth refs) [a..<b]"
      using b by (intro nth_equalityI) auto
    ultimately show ?thesis using Cons.IH [of b "out @ take (b - a) (drop a refs)"] Cons.prems True r b
      by (simp add: a_def)
  next
    case False
    then have "filter (in_ranges (r # rs)) [c..<length refs] = filter (in_ranges rs) [c..<length refs]"
      using r by (intro filter_cong) (auto simp: in_ranges_def a_def)
    then show ?thesis using Cons False r by (auto simp: a_def Let_def)
  qed
qed

lemma filter_nth: "map (nth xs) (filter (\<lambda>i. P (xs ! i)) [0..<length xs]) = filter P xs"
  using filter_map [of P "nth xs" "[0..<length xs]"] by (simp add: map_nth comp_def)

lemma selected_exact:
  assumes "sorted_wrt (<) (map ref_name refs)"
  shows "selected refs ps = filter (\<lambda>r. ps = [] \<or> list_ex (\<lambda>p. starts_with p (ref_name r)) ps) refs"
proof (cases "ps = []")
  case False
  let ?rs = "sort (map (prefix_range refs) ps)"
  have s: "sorted (map fst ?rs)"
  proof -
    have "sorted_wrt (\<lambda>x y. fst x \<le> fst y) ?rs"
      by (rule sorted_wrt_mono_rel [OF _ sorted_sort]) (auto simp: less_eq_prod_def)
    then show ?thesis by (simp add: sorted_wrt_map)
  qed
  have le: "\<forall>(a, b) \<in> set ?rs. b \<le> length refs"
  proof -
    have "snd (prefix_range refs p) \<le> length refs" for p
    proof -
      have "length (takeWhile Q (drop a refs)) \<le> length refs - a" for Q a
        by (metis length_drop length_takeWhile_le)
      moreover have "length (takeWhile (\<lambda>r. ref_name r < p) refs) \<le> length refs" by (rule length_takeWhile_le)
      ultimately show ?thesis by (simp add: prefix_range_def Let_def) (metis le_add_diff_inverse nat_add_left_cancel_le)
    qed
    then show ?thesis by (auto simp: case_prod_beta)
  qed
  have "filter (in_ranges ?rs) [0..<length refs] =
      filter (\<lambda>i. list_ex (\<lambda>p. starts_with p (ref_name (refs ! i))) ps) [0..<length refs]"
  proof (intro filter_cong refl)
    fix i
    assume "i \<in> set [0..<length refs]"
    then have "i < length refs" by simp
    then show "in_ranges ?rs i \<longleftrightarrow> list_ex (\<lambda>p. starts_with p (ref_name (refs ! i))) ps"
      using prefix_range_index [OF assms] by (auto simp: in_ranges_def list_ex_iff case_prod_beta)
  qed
  then have "merge_ranges refs [] 0 ?rs = filter (\<lambda>r. list_ex (\<lambda>p. starts_with p (ref_name r)) ps) refs"
    using merge_ranges_index [OF s le, of 0 "[]"] filter_nth [of refs "\<lambda>r. list_ex (\<lambda>p. starts_with p (ref_name r)) ps"] by simp
  with False show ?thesis by (simp add: selected_def)
qed (simp add: selected_def)

lemma search_ref_map_of:
  assumes "sorted_wrt (<) (map ref_name rs)"
  shows "(case search_ref n rs of Inr i \<Rightarrow> Some (ref_oid (rs ! i)) | Inl j \<Rightarrow> None) = map_of (map (\<lambda>r. (ref_name r, ref_oid r)) rs) n"
  using assms
proof (cases rule: search_split [where n = n])
  case (found xs r ys)
  then have "map_of (map (\<lambda>r. (ref_name r, ref_oid r)) xs) n = None" by (force simp: map_of_eq_None_iff)
  with found show ?thesis by (simp add: map_add_def)
next
  case (absent xs ys)
  then have "map_of (map (\<lambda>r. (ref_name r, ref_oid r)) rs) n = None" by (force simp: map_of_eq_None_iff)
  with absent show ?thesis by (simp add: map_add_def)
qed

text \<open>The listing a request stands for.\<close>

definition listing :: "ref_snapshot \<Rightarrow> ls_refs_args \<Rightarrow> ls_refs_line list" where
  "listing snap args =
     (let matches = (\<lambda>n. la_prefixes args = [] \<or> list_ex (\<lambda>p. starts_with p n) (la_prefixes args));
          target = snap_head_target snap
      in map (\<lambda>r. \<lparr>ll_name = ref_name r, ll_oid = ref_oid r, ll_peeled = ref_peeled r, ll_symref = None\<rparr>)
           (filter (\<lambda>r. ref_name r \<noteq> HEAD \<and> matches (ref_name r)) (snap_refs snap)) @
         (if matches HEAD then
            (case spec_get (spec_of snap) HEAD of
               Some oid \<Rightarrow> [head_line oid target]
             | None \<Rightarrow> if la_unborn args \<and> target \<noteq> [] then [head_line ''unborn'' target] else [])
          else []))"

lemma ls_refs_listing:
  assumes "snap_ok snap"
  shows "ls_refs snap args = listing snap args"
proof -
  have s: "sorted_wrt (<) (map ref_name (snap_refs snap))" using assms by (simp add: snap_ok_def)
  have "(if snap_head_target snap = [] then (if snap_head_oid snap = [] then None else Some (snap_head_oid snap))
      else (case search_ref (snap_head_target snap) (snap_refs snap) of
              Inr i \<Rightarrow> Some (ref_oid (snap_refs snap ! i)) | Inl _ \<Rightarrow> None)) = spec_get (spec_of snap) HEAD"
    using search_ref_map_of [OF s] by (simp add: spec_get_def spec_of_def)
  then show ?thesis
    unfolding ls_refs_def listing_def Let_def selected_exact [OF s] by (simp add: filter_filter conj_commute)
qed

text \<open>
  The listing of refs by binary search and merged ranges is the one a scan of all refs would give:
  every ref with one of the prefixes once and in order, and HEAD with the id the refs give it.
\<close>

theorem ls_refs_exact: "snap_ok snap \<Longrightarrow> ls_refs snap args = listing snap args"
  by (rule ls_refs_listing)

theorem ls_refs_exact_witness:
  "ls_refs \<lparr>snap_refs = [\<lparr>ref_name = ''refs/heads/a'', ref_oid = ''1'', ref_peeled = []\<rparr>,
      \<lparr>ref_name = ''refs/heads/b'', ref_oid = ''2'', ref_peeled = []\<rparr>, \<lparr>ref_name = ''refs/tags/v'', ref_oid = ''3'', ref_peeled = []\<rparr>],
      snap_head_target = ''refs/heads/b'', snap_head_oid = []\<rparr>
     (ls_refs_default\<lparr>la_prefixes := [''refs/heads/'', ''HEAD'', ''refs/heads/b'']\<rparr>) =
   [\<lparr>ll_name = ''refs/heads/a'', ll_oid = ''1'', ll_peeled = [], ll_symref = None\<rparr>,
    \<lparr>ll_name = ''refs/heads/b'', ll_oid = ''2'', ll_peeled = [], ll_symref = None\<rparr>,
    \<lparr>ll_name = ''HEAD'', ll_oid = ''2'', ll_peeled = [], ll_symref = Some ''refs/heads/b''\<rparr>]"
  (is "ls_refs ?s ?a = ?l")
proof -
  have "snap_ok ?s" by code_simp
  moreover have "listing ?s ?a = ?l" by code_simp
  ultimately show ?thesis using ls_refs_exact by simp
qed

section \<open>What a client sends and receives\<close>

text \<open>A text that the parsers read back from its line: well-formed, and no white space at its end.\<close>

definition clean_end :: "string \<Rightarrow> bool" where
  "clean_end s \<longleftrightarrow> utf8 s \<and> list_all (\<lambda>w. \<not> ends_with w s) white_space"

lemma trim_end_line: "clean_end s \<Longrightarrow> rust_trim_end (from_utf8_lossy (s @ nl)) = s"
proof -
  assume c: "clean_end s"
  then have "utf8 (s @ nl)" using utf8_append [of s nl] utf8_ascii [of nl] by (simp add: clean_end_def byte_def)
  then have l: "from_utf8_lossy (s @ nl) = s @ nl" by (simp add: utf8_def)
  have "find (\<lambda>w. starts_with w (CHR 0x0A # rev s)) (map rev white_space) = Some [CHR 0x0A]"
    by (simp add: white_space_def)
  then have "rust_trim_end (s @ nl) = rev (strip_while (map rev white_space) (length s) (rev s))"
    by (simp add: rust_trim_end_def)
  also have "strip_while (map rev white_space) (length s) (rev s) = rev s"
    using c by (intro strip_while_none) (auto simp: clean_end_def list_all_iff ends_with_rev)
  finally show ?thesis using l by simp
qed

lemma v2_turns_stop:
  "preamble_turn None s \<noteq> Go s'" "ls_refs_turn None t \<noteq> Go t'" "fetch_turn from_hex None u \<noteq> Go u'"
  by (simp_all add: preamble_turn_def ls_refs_turn_def fetch_turn_def)

context byte_reader
begin

lemma answer_ls_refs_bytes:
  assumes "healthy r"
  shows "answer_ls_refs it snap rd cmd r = answer_ls_refs it snap str_read cmd (rest r)"
  using assms v2_turns_stop(2)
  by (cases rule: loop_cases [where f = ls_refs_turn and r = r and s = "parse_ls_refs (it (v2_caps cmd)) cmd"])
    (simp_all add: answer_ls_refs_def read_ls_refs_args_def)

lemma answer_fetch_bytes:
  assumes "healthy r"
  shows "answer_fetch draining max_wants from_hex rd r = answer_fetch draining max_wants from_hex str_read (rest r)"
  using assms v2_turns_stop(3)
  by (cases rule: loop_cases [where f = "fetch_turn from_hex" and r = r and s = empty_request])
    (simp_all add: answer_fetch_def parse_fetch_request_def)

lemma upload_pack_v2_bytes:
  assumes "healthy r"
  shows "upload_pack_v2 draining max_wants it snap from_hex object_size rd r =
    upload_pack_v2 draining max_wants it snap from_hex object_size str_read (rest r)"
  using assms v2_turns_stop(1)
proof (cases rule: loop_cases [where f = preamble_turn and r = r and s = "(v2_default, False)"])
  case (ends s' r')
  obtain cmd saw where s': "s' = (cmd, saw)" by fastforce
  show ?thesis
    using ends s' answer_ls_refs_bytes [OF ends(2)] answer_fetch_bytes [OF ends(2), of draining max_wants from_hex]
    by (simp add: upload_pack_v2_def read_command_def)
qed (simp add: upload_pack_v2_def read_command_def)

end

text \<open>Loops over the lines of a section.\<close>

lemma preamble_loop:
  "list_all line_ok (map Data ds) \<Longrightarrow> l = Delim \<or> l = Flush \<Longrightarrow>
   line_loop str_read preamble_turn st (wire (map Data ds) @ pkt_bytes l @ t) = Some (Inr (fold preamble_line ds st, t))"
proof (induction ds arbitrary: st)
  case Nil
  then show ?case by (auto simp: preamble_turn_def line_ok_def simp del: pkt_bytes.simps)
qed (simp add: preamble_turn_def del: pkt_bytes.simps)

lemma ls_refs_loop:
  "list_all clean_end ts \<Longrightarrow> list_all line_ok (map (\<lambda>t. Data (t @ nl)) ts) \<Longrightarrow>
   line_loop str_read ls_refs_turn req (wire (map (\<lambda>t. Data (t @ nl)) ts) @ pkt_bytes Flush @ t) =
     Some (Inr (foldl parse_ls_refs_line req ts, t))"
proof (induction ts arbitrary: req)
  case Nil
  then show ?case by (simp add: ls_refs_turn_def line_ok_def del: pkt_bytes.simps)
qed (simp add: ls_refs_turn_def trim_end_line del: pkt_bytes.simps)

lemma fetch_loop:
  "list_all option_sent ts \<Longrightarrow> list_all line_ok (map (\<lambda>t. Data (t @ nl)) ts) \<Longrightarrow>
   line_loop str_read (fetch_turn from_hex) req (wire (map (\<lambda>t. Data (t @ nl)) ts) @ pkt_bytes Flush @ t) =
     Some (Inr (fold (fetch_line from_hex) ts req, t))"
proof (induction ts arbitrary: req)
  case Nil
  then show ?case by (simp add: fetch_turn_def line_ok_def del: pkt_bytes.simps)
next
  case (Cons x ts)
  have "utf8 (x @ nl)" using Cons.prems(1) utf8_append [of x nl] utf8_ascii [of nl] by (simp add: option_sent_def byte_def)
  then have "fetch_turn from_hex (Some (Data (x @ nl))) req = Go (fetch_line from_hex x req)"
    using Cons.prems(1) by (simp add: fetch_turn_def utf8_def option_sent_def trim_end_nl_one)
  with Cons show ?case by (simp del: pkt_bytes.simps)
qed

text \<open>A request of a client to list refs.\<close>

definition ls_refs_texts :: "ls_refs_args \<Rightarrow> string list" where
  "ls_refs_texts a = flag (la_peel a) ''peel'' @ flag (la_symrefs a) ''symrefs'' @ flag (la_unborn a) ''unborn'' @
     map (\<lambda>p. ''ref-prefix '' @ p) (la_prefixes a)"

definition ls_refs_lines :: "(string \<times> string) list \<Rightarrow> ls_refs_args \<Rightarrow> pkt_line list" where
  "ls_refs_lines kvs a = map Data ((''command=ls-refs'' @ nl) # map (\<lambda>(k, v). k @ ''='' @ v @ nl) kvs) @ [Delim] @
     map (\<lambda>t. Data (t @ nl)) (ls_refs_texts a) @ [Flush]"

text \<open>A capability line: neither a command nor a prefix, with a value.\<close>

definition cap_sent :: "string \<times> string \<Rightarrow> bool" where
  "cap_sent kv \<longleftrightarrow> (case kv of (k, v) \<Rightarrow> CHR ''='' \<notin> set k \<and> k \<noteq> ''command'' \<and> k \<noteq> ''ref-prefix'' \<and> v \<noteq> [] \<and> clean_end (k @ ''='' @ v))"

lemma starts_with_until: "starts_with (p @ [c]) (k @ c # v) \<Longrightarrow> c \<notin> set p \<Longrightarrow> c \<notin> set k \<Longrightarrow> p = k"
proof -
  assume "starts_with (p @ [c]) (k @ c # v)" and c: "c \<notin> set p" "c \<notin> set k"
  then obtain t where "k @ c # v = p @ c # t" by (auto simp: starts_with_iff)
  then show "p = k" using c by (metis cut_at(1))
qed

lemma preamble_cap:
  assumes "cap_sent (k, v)"
  shows "preamble_line (k @ ''='' @ v @ nl) (cmd, saw) = (cmd\<lparr>v2_caps := (v2_caps cmd)(k \<mapsto> v)\<rparr>, saw)"
proof -
  have c: "CHR ''='' \<notin> set k" "k \<noteq> ''command''" "clean_end (k @ ''='' @ v)" using assms by (simp_all add: cap_sent_def)
  have "rust_trim_end (from_utf8_lossy (k @ ''='' @ v @ nl)) = k @ CHR ''='' # v"
    using trim_end_line [OF c(3)] by simp
  moreover have "\<not> starts_with ''command='' (k @ CHR ''='' # v)"
    using starts_with_until [of "''command''" "CHR ''=''" k v] c by auto
  ultimately show ?thesis using c(1) by (simp add: preamble_line_def Let_def str_strip_prefix_def split_once_append)
qed

lemma preamble_caps:
  "list_all cap_sent kvs \<Longrightarrow> fold preamble_line (map (\<lambda>(k, v). k @ ''='' @ v @ nl) kvs) (cmd, saw) =
     (cmd\<lparr>v2_caps := fold (\<lambda>(k, v) m. m(k \<mapsto> v)) kvs (v2_caps cmd)\<rparr>, saw)"
  by (induction kvs arbitrary: cmd) (auto simp: preamble_cap simp del: append_Cons)

lemma caps_from: "fold (\<lambda>(k, v) m. m(k \<mapsto> v)) kvs m k = Some v \<Longrightarrow> (k, v) \<in> set kvs \<or> m k = Some v"
  by (induction kvs arbitrary: m) (fastforce split: if_splits)+

lemma preamble_command:
  "clean_end (''command='' @ n) \<Longrightarrow> preamble_line (''command='' @ n @ nl) (cmd, saw) = (cmd\<lparr>v2_name := n\<rparr>, True)"
  using trim_end_line [of "''command='' @ n"] by (simp add: preamble_line_def str_strip_prefix_def)

lemma ls_refs_texts_read: "foldl parse_ls_refs_line ls_refs_default (ls_refs_texts a) = a"
proof -
  have p: "foldl parse_ls_refs_line r (map (\<lambda>p. ''ref-prefix '' @ p) ps) = r\<lparr>la_prefixes := la_prefixes r @ ps\<rparr>" for r ps
    by (induction ps arbitrary: r) (simp_all add: parse_ls_refs_line_def str_strip_prefix_def)
  have f: "foldl parse_ls_refs_line r (flag b s) = (if b then parse_ls_refs_line r s else r)" for r b s
    by (simp add: flag_def)
  show ?thesis
    unfolding ls_refs_texts_def foldl_append p f
    by (cases a) (simp add: parse_ls_refs_line_def str_strip_prefix_def ls_refs_default_def)
qed

lemma upload_pack_ls_refs:
  assumes "read_command str_read s = Some (Inr (cmd, t))" "v2_name cmd = ''ls-refs''"
    "read_ls_refs_args str_read (parse_ls_refs (it (v2_caps cmd)) cmd) t = Some (Inr (a, t'))"
  shows "upload_pack_v2 draining max_wants it snap from_hex object_size str_read s =
    Some (Inr (Body (wire (map (\<lambda>l. Data (render a l)) (ls_refs snap a) @ [Flush]))))"
  using assms by (simp add: upload_pack_v2_def answer_ls_refs_def encode_data_fold encode_flush_def comp_def)

text \<open>
  C24: A request to list refs is served: however the body is cut, and in whatever order the capabilities
  are visited, the answer is a sequence of lines, one for each ref of the listing the arguments stand for,
  and a flush.
\<close>

theorem ls_refs_served:
  assumes "chunk_healthy cs" "chunk_rest cs = wire (ls_refs_lines kvs a) @ t"
    and "list_all line_ok (ls_refs_lines kvs a)" "list_all cap_sent kvs" "list_all clean_end (ls_refs_texts a)"
    and it: "\<forall>m k v. (k, v) \<in> set (it m) \<longrightarrow> m k = Some v"
    and "snap_ok snap" "\<forall>l \<in> set (listing snap a). length (render a l) < 65532"
  shows "\<exists>body. upload_pack_v2 draining max_wants it snap from_hex object_size chunk_read cs = Some (Inr (Body body)) \<and>
    all_lines str_read body = Some (Inr (map (\<lambda>l. Data (render a l)) (listing snap a) @ [Flush], []))"
proof -
  define t1 where "t1 = wire (map (\<lambda>t. Data (t @ nl)) (ls_refs_texts a)) @ pkt_bytes Flush @ t"
  define ds where "ds = (''command=ls-refs'' @ nl) # map (\<lambda>(k, v). k @ ''='' @ v @ nl) kvs"
  define m where "m = fold (\<lambda>(k, v) m. m(k \<mapsto> v)) kvs (\<lambda>k. None)"
  define cmd where "cmd = \<lparr>v2_name = ''ls-refs'', v2_caps = m, v2_args = []\<rparr>"
  have w: "chunk_rest cs = wire (map Data ds) @ pkt_bytes Delim @ t1"
    using assms(2) by (simp add: ls_refs_lines_def t1_def ds_def del: pkt_bytes.simps)
  have ok: "list_all line_ok (map Data ds)" "list_all line_ok (map (\<lambda>t. Data (t @ nl)) (ls_refs_texts a))"
    using assms(3) by (simp_all add: ls_refs_lines_def ds_def)
  have "clean_end ''command=ls-refs''" by code_simp
  then have "fold preamble_line ds (v2_default, False) = (cmd, True)"
    using preamble_command [of "''ls-refs''" v2_default False] preamble_caps [OF assms(4)]
    by (simp add: ds_def cmd_def m_def v2_default_def)
  then have r: "read_command str_read (chunk_rest cs) = Some (Inr (cmd, t1))"
    unfolding w read_command_def using preamble_loop [OF ok(1), of Delim "(v2_default, False)" t1] by simp
  have p: "parse_ls_refs (it (v2_caps cmd)) cmd = ls_refs_default"
  proof -
    have cap: "parse_ls_refs_cap r kv = r" if "kv \<in> set (it m)" for r kv
    proof -
      obtain k v where kv: "kv = (k, v)" by fastforce
      with that it have "m k = Some v" by blast
      then have "cap_sent (k, v)" using caps_from [of kvs "\<lambda>k. None" k v] assms(4) by (auto simp: m_def list_all_iff)
      then show ?thesis by (simp add: kv cap_sent_def parse_ls_refs_cap_def)
    qed
    have "set ks \<subseteq> set (it m) \<Longrightarrow> foldl parse_ls_refs_cap r ks = r" for ks r
      by (induction ks arbitrary: r) (simp_all add: cap)
    then show ?thesis by (simp add: parse_ls_refs_def cmd_def)
  qed
  have "read_ls_refs_args str_read ls_refs_default t1 = Some (Inr (a, t))"
    using ls_refs_loop [OF assms(5) ok(2), of ls_refs_default t] by (simp add: read_ls_refs_args_def t1_def ls_refs_texts_read)
  then have "upload_pack_v2 draining max_wants it snap from_hex object_size str_read (chunk_rest cs) =
      Some (Inr (Body (wire (map (\<lambda>l. Data (render a l)) (ls_refs snap a) @ [Flush]))))"
    using upload_pack_ls_refs [OF r, of it a t] p by (simp add: cmd_def)
  moreover have "all_lines str_read (wire (map (\<lambda>l. Data (render a l)) (listing snap a) @ [Flush])) =
      Some (Inr (map (\<lambda>l. Data (render a l)) (listing snap a) @ [Flush], []))"
    using assms(8) by (intro all_lines_wire) (simp add: list_all_iff line_ok_def)
  ultimately show ?thesis
    using body.upload_pack_v2_bytes [OF assms(1)] ls_refs_listing [OF assms(7)] by metis
qed

theorem ls_refs_served_witness:
  "\<exists>body. upload_pack_v2 False 0 (\<lambda>m. []) \<lparr>snap_refs = [\<lparr>ref_name = ''refs/heads/b'', ref_oid = ''2'', ref_peeled = []\<rparr>],
        snap_head_target = ''refs/heads/b'', snap_head_oid = []\<rparr> (\<lambda>s. Some s) (\<lambda>x. None) chunk_read
      [Inr (wire (ls_refs_lines [(''agent'', ''git/2.50'')] (ls_refs_default\<lparr>la_prefixes := [''refs/heads/'', ''HEAD''], la_symrefs := True\<rparr>)))] =
        Some (Inr (Body body)) \<and>
    all_lines str_read body = Some (Inr ([Data (''2 refs/heads/b'' @ nl), Data (''2 HEAD symref-target:refs/heads/b'' @ nl), Flush], []))"
proof -
  let ?a = "ls_refs_default\<lparr>la_prefixes := [''refs/heads/'', ''HEAD''], la_symrefs := True\<rparr>"
  let ?s = "\<lparr>snap_refs = [\<lparr>ref_name = ''refs/heads/b'', ref_oid = ''2'', ref_peeled = []\<rparr>],
        snap_head_target = ''refs/heads/b'', snap_head_oid = []\<rparr>"
  let ?k = "[(''agent'', ''git/2.50'')]"
  have h: "chunk_healthy [Inr (wire (ls_refs_lines ?k ?a))]" by (simp add: chunk_healthy_def)
  have r: "chunk_rest [Inr (wire (ls_refs_lines ?k ?a))] = wire (ls_refs_lines ?k ?a) @ []" by (simp add: chunk_rest_def)
  have 1: "list_all line_ok (ls_refs_lines ?k ?a)" by (simp add: ls_refs_lines_def line_ok_def ls_refs_texts_def flag_def ls_refs_default_def)
  have 2: "list_all cap_sent ?k" by code_simp
  have 3: "list_all clean_end (ls_refs_texts ?a)" by code_simp
  have 4: "\<forall>m k v. (k, v) \<in> set ((\<lambda>m. []) m) \<longrightarrow> m k = Some v" by simp
  have 5: "snap_ok ?s" by code_simp
  have l: "map (\<lambda>l. Data (render ?a l)) (listing ?s ?a) = [Data (''2 refs/heads/b'' @ nl), Data (''2 HEAD symref-target:refs/heads/b'' @ nl)]"
    by code_simp
  have "list_all (\<lambda>l. length (render ?a l) < 100) (listing ?s ?a)" by code_simp
  then have 6: "\<forall>l \<in> set (listing ?s ?a). length (render ?a l) < 65532" by (auto simp: list_all_iff)
  show ?thesis using ls_refs_served [OF h r 1 2 3 4 5 6, of False 0 "\<lambda>s. Some s" "\<lambda>x. None"] l by simp
qed

section \<open>Fetch requests\<close>

definition hex_ok :: "(string \<Rightarrow> 'o option) \<Rightarrow> ('o \<Rightarrow> string) \<Rightarrow> 'o \<Rightarrow> bool" where
  "hex_ok from_hex to_hex oid \<longleftrightarrow> from_hex (to_hex oid) = Some oid"

lemma parse_u32_str: "d < 2 ^ 32 \<Longrightarrow> parse_u32 (nat_str d) = Some d"
proof -
  assume d: "d < 2 ^ 32"
  obtain c t where s: "nat_str d = c # t" by (cases "nat_str d") auto
  have "is_digit c" using s nat_str_digits [of c d] by simp
  then have "c \<noteq> CHR ''+''" by (auto simp: is_digit_def)
  moreover have "list_all is_digit (nat_str d)" using nat_str_digits by (auto simp: list_all_iff)
  ultimately show ?thesis using s d digits_value_nat_str [of d] by (simp add: parse_u32_def)
qed

lemma parse_i64_str: "- (2 ^ 63) \<le> i \<Longrightarrow> i < 2 ^ 63 \<Longrightarrow> parse_i64 (int_str i) = Some i"
proof -
  assume i: "- (2 ^ 63) \<le> i" "i < 2 ^ 63"
  have g: "list_all is_digit (nat_str n)" for n using nat_str_digits by (auto simp: list_all_iff)
  show ?thesis
  proof (cases "i < 0")
    case True
    then show ?thesis using i g [of "nat (- i)"] digits_value_nat_str by (simp add: parse_i64_def int_str_def Let_def)
  next
    case False
    obtain c t where s: "nat_str (nat i) = c # t" by (cases "nat_str (nat i)") auto
    have "is_digit c" using s nat_str_digits [of c "nat i"] by simp
    then have "c \<noteq> CHR ''+''" "c \<noteq> CHR ''-''" by (auto simp: is_digit_def)
    then show ?thesis using False s i g [of "nat i"] digits_value_nat_str [of "nat i"]
      by (simp add: parse_i64_def int_str_def Let_def)
  qed
qed

text \<open>The lines of a request are read back field by field.\<close>

lemmas fetch_line_simps = fetch_line_def str_strip_prefix_def

lemma fetch_wants:
  "list_all (hex_ok from_hex to_hex) ws \<Longrightarrow>
   fold (fetch_line from_hex) (map (\<lambda>w. ''want '' @ to_hex w) ws) r = r\<lparr>wants := wants r @ ws\<rparr>"
  by (induction ws arbitrary: r) (simp_all add: fetch_line_simps hex_ok_def)

lemma fetch_haves:
  "list_all (hex_ok from_hex to_hex) ws \<Longrightarrow>
   fold (fetch_line from_hex) (map (\<lambda>w. ''have '' @ to_hex w) ws) r = r\<lparr>haves := haves r @ ws\<rparr>"
  by (induction ws arbitrary: r) (simp_all add: fetch_line_simps hex_ok_def)

lemma fetch_shallows:
  "list_all (hex_ok from_hex to_hex) ws \<Longrightarrow>
   fold (fetch_line from_hex) (map (\<lambda>w. ''shallow '' @ to_hex w) ws) r = r\<lparr>fr_shallow := fr_shallow r @ ws\<rparr>"
  by (induction ws arbitrary: r) (simp_all add: fetch_line_simps hex_ok_def)

lemma fetch_deepen_not:
  "fold (fetch_line from_hex) (map (\<lambda>n. ''deepen-not '' @ n) ns) r = r\<lparr>deepen_not := deepen_not r @ ns\<rparr>"
  by (induction ns arbitrary: r) (simp_all add: fetch_line_simps)

lemma fetch_want_refs:
  "fold (fetch_line from_hex) (map (\<lambda>n. ''want-ref '' @ n) ns) r = r\<lparr>want_refs := want_refs r @ ns\<rparr>"
  by (induction ns arbitrary: r) (simp_all add: fetch_line_simps)

lemma fetch_flags:
  "\<not> thin_pack r \<Longrightarrow> fold (fetch_line from_hex) (flag b ''thin-pack'') r = r\<lparr>thin_pack := b\<rparr>"
  "\<not> fr_ofs_delta r \<Longrightarrow> fold (fetch_line from_hex) (flag b ''ofs-delta'') r = r\<lparr>fr_ofs_delta := b\<rparr>"
  "\<not> no_progress r \<Longrightarrow> fold (fetch_line from_hex) (flag b ''no-progress'') r = r\<lparr>no_progress := b\<rparr>"
  "\<not> include_tag r \<Longrightarrow> fold (fetch_line from_hex) (flag b ''include-tag'') r = r\<lparr>include_tag := b\<rparr>"
  "\<not> sideband_all r \<Longrightarrow> fold (fetch_line from_hex) (flag b ''sideband-all'') r = r\<lparr>sideband_all := b\<rparr>"
  "\<not> wait_for_done r \<Longrightarrow> fold (fetch_line from_hex) (flag b ''wait-for-done'') r = r\<lparr>wait_for_done := b\<rparr>"
  "\<not> fr_done r \<Longrightarrow> fold (fetch_line from_hex) (flag b ''done'') r = r\<lparr>fr_done := b\<rparr>"
  by (cases r; simp add: flag_def fetch_line_simps)+

lemma fetch_options:
  "fr_filter r = None \<Longrightarrow> fold (fetch_line from_hex) (case f of Some x \<Rightarrow> [''filter '' @ x] | None \<Rightarrow> []) r = r\<lparr>fr_filter := f\<rparr>"
  "(case d of Some n \<Rightarrow> n < 2 ^ 32 | None \<Rightarrow> True) \<Longrightarrow> deepen r = None \<Longrightarrow>
   fold (fetch_line from_hex) (case d of Some n \<Rightarrow> [''deepen '' @ nat_str n] | None \<Rightarrow> []) r = r\<lparr>deepen := d\<rparr>"
  "(case ts of Some i \<Rightarrow> - (2 ^ 63) \<le> i \<and> i < 2 ^ 63 | None \<Rightarrow> True) \<Longrightarrow> deepen_since r = None \<Longrightarrow>
   fold (fetch_line from_hex) (case ts of Some i \<Rightarrow> [''deepen-since '' @ int_str i] | None \<Rightarrow> []) r = r\<lparr>deepen_since := ts\<rparr>"
  by (cases r; simp add: fetch_line_simps parse_u32_str parse_i64_str split: option.splits)+

definition request_sent :: "(string \<Rightarrow> 'o option) \<Rightarrow> ('o \<Rightarrow> string) \<Rightarrow> 'o upload_pack_request \<Rightarrow> bool" where
  "request_sent from_hex to_hex req \<longleftrightarrow>
     list_all (hex_ok from_hex to_hex) (wants req @ haves req @ fr_shallow req) \<and>
     (case deepen req of Some n \<Rightarrow> n < 2 ^ 32 | None \<Rightarrow> True) \<and>
     (case deepen_since req of Some i \<Rightarrow> - (2 ^ 63) \<le> i \<and> i < 2 ^ 63 | None \<Rightarrow> True) \<and>
     list_all (\<lambda>t. option_sent t \<and> length t < 65531) (fetch_texts to_hex req)"

lemma fetch_texts_read:
  assumes "request_sent from_hex to_hex req"
  shows "fold (fetch_line from_hex) (fetch_texts to_hex req) empty_request = req"
proof -
  have h: "list_all (hex_ok from_hex to_hex) (wants req)" "list_all (hex_ok from_hex to_hex) (haves req)"
    "list_all (hex_ok from_hex to_hex) (fr_shallow req)"
    "case deepen req of Some n \<Rightarrow> n < 2 ^ 32 | None \<Rightarrow> True"
    "case deepen_since req of Some i \<Rightarrow> - (2 ^ 63) \<le> i \<and> i < 2 ^ 63 | None \<Rightarrow> True"
    using assms by (simp_all add: request_sent_def)
  have e: "\<not> thin_pack empty_request" "\<not> fr_ofs_delta empty_request" "\<not> no_progress empty_request"
    "\<not> include_tag empty_request" "\<not> sideband_all empty_request" "\<not> wait_for_done empty_request"
    "\<not> fr_done empty_request" "fr_filter empty_request = None" "deepen empty_request = None" "deepen_since empty_request = None"
    "wants empty_request = []" "haves empty_request = []" "fr_shallow empty_request = []" "deepen_not empty_request = []"
    "want_refs empty_request = []"
    by (simp_all add: empty_request_def)
  have "fold (fetch_line from_hex) (fetch_texts to_hex req) empty_request = empty_request
      \<lparr>thin_pack := thin_pack req, fr_ofs_delta := fr_ofs_delta req, no_progress := no_progress req, include_tag := include_tag req,
       sideband_all := sideband_all req, wait_for_done := wait_for_done req, fr_filter := fr_filter req, wants := wants req,
       haves := haves req, fr_shallow := fr_shallow req, deepen := deepen req, deepen_since := deepen_since req,
       deepen_not := deepen_not req, want_refs := want_refs req, fr_done := fr_done req\<rparr>"
    unfolding fetch_texts_def fold_append comp_def
    by (simp add: fetch_flags fetch_options(1) fetch_options(2) [OF h(4)] fetch_options(3) [OF h(5)] fetch_wants [OF h(1)]
        fetch_haves [OF h(2)] fetch_shallows [OF h(3)] fetch_deepen_not fetch_want_refs e del: append_Cons)
  then show ?thesis by (cases req) (simp add: empty_request_def)
qed

text \<open>
  C26: A fetch request is what the client asked for: however the body is cut, the request the server
  builds for git, sent to the server, is read back as the same request, unless the process is stopping or
  the request wants more objects than the bound allows.
\<close>

theorem fetch_request_roundtrip:
  assumes "chunk_healthy cs" "chunk_rest cs = build_v2_fetch_request to_hex req format @ t"
    and "request_sent from_hex to_hex req"
  shows "upload_pack_v2 draining max_wants it snap from_hex object_size chunk_read cs =
    Some (Inr (if draining then Draining
               else if 0 < max_wants \<and> max_wants < length (wants req) then TooManyWants (length (wants req)) (sideband_all req)
               else Fetch req))"
proof -
  define t1 where "t1 = wire (map (\<lambda>t. Data (t @ nl)) (fetch_texts to_hex req)) @ pkt_bytes Flush @ t"
  let ?ds = "[''command=fetch'' @ nl, ''object-format='' @ format_str format @ nl]"
  have w: "chunk_rest cs = wire (map Data ?ds) @ pkt_bytes Delim @ t1"
    using assms(2)
    by (simp add: build_v2_fetch_request_def Let_def encode_data_fold t1_def encode_flush_def encode_delim_def comp_def encode_data_hex4)
  have f: "format_str format = ''sha1'' \<or> format_str format = ''sha256''" by (cases format) (simp_all add: format_str_def)
  have "cap_sent (''object-format'', ''sha1'')" "cap_sent (''object-format'', ''sha256'')" "clean_end (''command='' @ ''fetch'')"
    by (code_simp)+
  then have k: "cap_sent (''object-format'', format_str format)" "clean_end (''command='' @ ''fetch'')" using f by auto
  define cmd where "cmd = v2_default\<lparr>v2_name := ''fetch'', v2_caps := [''object-format'' \<mapsto> format_str format]\<rparr>"
  have "fold preamble_line ?ds (v2_default, False) = (cmd, True)"
    using preamble_command [OF k(2), of v2_default False] preamble_cap [OF k(1)] by (simp add: cmd_def v2_default_def)
  moreover have "list_all line_ok (map Data ?ds)" using f by (auto simp: line_ok_def)
  ultimately have r: "read_command str_read (chunk_rest cs) = Some (Inr (cmd, t1))"
    unfolding w read_command_def using preamble_loop [of ?ds Delim "(v2_default, False)" t1] by simp
  have "list_all option_sent (fetch_texts to_hex req)" "list_all line_ok (map (\<lambda>t. Data (t @ nl)) (fetch_texts to_hex req))"
    using assms(3) by (auto simp: request_sent_def list_all_iff line_ok_def)
  then have "parse_fetch_request from_hex str_read t1 = Some (Inr (req, t))"
    using fetch_loop [of "fetch_texts to_hex req" from_hex empty_request t] fetch_texts_read [OF assms(3)]
    by (simp add: parse_fetch_request_def t1_def)
  then have "upload_pack_v2 draining max_wants it snap from_hex object_size str_read (chunk_rest cs) =
      Some (Inr (if draining then Draining
                 else if 0 < max_wants \<and> max_wants < length (wants req) then TooManyWants (length (wants req)) (sideband_all req)
                 else Fetch req))"
    unfolding upload_pack_v2_def r by (simp add: cmd_def answer_fetch_def)
  then show ?thesis by (simp only: body.upload_pack_v2_bytes [OF assms(1)])
qed

theorem fetch_request_roundtrip_witness:
  "upload_pack_v2 False 0 (\<lambda>m. []) \<lparr>snap_refs = [], snap_head_target = [], snap_head_oid = []\<rparr> Some (\<lambda>x. None) chunk_read
     [Inr (build_v2_fetch_request (\<lambda>x. x) (empty_request\<lparr>wants := [replicate 40 CHR ''a''], fr_done := True, deepen := Some 3,
        fr_filter := Some ''blob:none''\<rparr>) Sha1)] =
   Some (Inr (Fetch (empty_request\<lparr>wants := [replicate 40 CHR ''a''], fr_done := True, deepen := Some 3, fr_filter := Some ''blob:none''\<rparr>)))"
proof -
  let ?q = "empty_request\<lparr>wants := [replicate 40 CHR ''a''], fr_done := True, deepen := Some 3, fr_filter := Some ''blob:none''\<rparr>"
  have h: "chunk_healthy [Inr (build_v2_fetch_request (\<lambda>x. x) ?q Sha1)]" by (simp add: chunk_healthy_def)
  have r: "chunk_rest [Inr (build_v2_fetch_request (\<lambda>x. x) ?q Sha1)] = build_v2_fetch_request (\<lambda>x. x) ?q Sha1 @ []"
    by (simp add: chunk_rest_def)
  have "list_all (\<lambda>t. option_sent t \<and> length t < 100) (fetch_texts (\<lambda>x. x) ?q)" by code_simp
  then have "list_all (\<lambda>t. option_sent t \<and> length t < 65531) (fetch_texts (\<lambda>x. x) ?q)" by (auto simp: list_all_iff)
  then have s: "request_sent Some (\<lambda>x. x) ?q" by (simp add: request_sent_def hex_ok_def empty_request_def)
  show ?thesis using fetch_request_roundtrip [OF h r s] by simp
qed

section \<open>Repeated capabilities\<close>

text \<open>
  The capabilities of a command are a map: of two lines with the same key only the last value is kept,
  and neither line is among the arguments.
\<close>

lemma repeated_cap_lost:
  assumes "cap_sent (k, v)" "cap_sent (k, w)"
  shows "fold preamble_line [k @ ''='' @ v @ nl, k @ ''='' @ w @ nl] (cmd, saw) = (cmd\<lparr>v2_caps := (v2_caps cmd)(k \<mapsto> w)\<rparr>, saw)"
  using preamble_cap [OF assms(1), of cmd saw] preamble_cap [OF assms(2), of "cmd\<lparr>v2_caps := (v2_caps cmd)(k \<mapsto> v)\<rparr>" saw]
  by simp

section \<open>The advertisement of version 0\<close>

text \<open>The lines of one ref, and of all: the first line carries the capabilities.\<close>

definition advert_lines :: "git_ref \<Rightarrow> string list" where
  "advert_lines r = (ref_oid r @ '' '' @ ref_name r @ nl) #
     (if ref_peeled r \<noteq> [] \<and> ref_peeled r \<noteq> ref_oid r then [ref_peeled r @ '' '' @ ref_name r @ ''^{}'' @ nl] else [])"

lemma advertise_loop_rest:
  "advertise_loop caps (False, out) rs = (False, out @ wire (map Data (concat (map advert_lines rs))))"
  by (induction rs arbitrary: out) (simp_all add: advert_lines_def Let_def encode_data_hex4)

text \<open>For a fetch with a HEAD that has an id: HEAD with the capabilities, then every ref with what it peels to.\<close>

lemma advertise_head_first:
  assumes "spec_get (spec_of snap) HEAD = Some oid" "oid \<noteq> []"
  shows "\<exists>caps. advertise_refs_v0 ver format snap UploadPack [] =
    wire (map Data ((oid @ '' HEAD'' @ [CHR 0x00] @ caps @ nl) # concat (map advert_lines (snap_refs snap))) @ [Flush])"
proof -
  have m: "map_option ref_oid (find (\<lambda>r. ref_name r = n) rs) = map_of (map (\<lambda>r. (ref_name r, ref_oid r)) rs) n" for n rs
    by (induction rs) auto
  have "(if snap_head_target snap = [] then snap_head_oid snap
      else (case find (\<lambda>r. ref_name r = snap_head_target snap) (snap_refs snap) of Some r \<Rightarrow> ref_oid r | None \<Rightarrow> [])) = oid"
    using assms(1) m [of "snap_head_target snap" "snap_refs snap"]
    by (auto simp: spec_get_def spec_of_def split: if_splits option.splits)
  then show ?thesis using assms(2)
    by (auto simp: advertise_refs_v0_def Let_def advertise_loop_rest encode_flush_def encode_data_hex4)
qed

end
