(* ===== verification/Git_Repo.thy ===== *)
theory Git_Repo
  imports Git_Receive Wal_Proto
begin

text \<open>
  Identity of repositories (\<^verbatim>\<open>crates/gitcask-git/src/repo_id.rs\<close>, \<^verbatim>\<open>crates/gitcask-server/src/repo.rs\<close>): the
  validation of owner and name, the prefix in the bucket, the local directory, printing and reading an id,
  and the path of a request.
\<close>

section \<open>Identity of a repository (repo\_id.rs)\<close>

record repo_id =
  ri_owner :: string
  ri_name :: string

definition part_byte :: "char \<Rightarrow> bool" where
  "part_byte b \<longleftrightarrow> is_digit b \<or> 0x41 \<le> byte b \<and> byte b \<le> 0x5A \<or> 0x61 \<le> byte b \<and> byte b \<le> 0x7A \<or>
     b = CHR ''.'' \<or> b = CHR ''_'' \<or> b = CHR ''-''"

abbreviation quote :: string where "quote \<equiv> [CHR 0x27]"

definition validate_part :: "string \<Rightarrow> string \<Rightarrow> (git_error, unit) result" where
  "validate_part s what =
     (if s = [] \<or> 100 < length s then Inl (InvalidInput (what @ '' must be 1..=100 chars''))
      else if s = ''..'' then Inl (InvalidInput (what @ '' may not be '' @ quote @ ''..'' @ quote))
      else if starts_with ''.'' s then Inl (InvalidInput (what @ '' may not start with '' @ quote @ ''.'' @ quote))
      else if \<not> list_all part_byte s then Inl (InvalidInput (what @ '' must be ASCII [A-Za-z0-9._-]''))
      else Inr ())"

definition repo_id_new :: "string \<Rightarrow> string \<Rightarrow> (git_error, repo_id) result" where
  "repo_id_new owner name =
     (case validate_part owner ''owner'' of
        Inl e \<Rightarrow> Inl e
      | Inr _ \<Rightarrow>
          (case validate_part name ''name'' of Inl e \<Rightarrow> Inl e | Inr _ \<Rightarrow> Inr \<lparr>ri_owner = owner, ri_name = name\<rparr>))"

definition store_prefix :: "repo_id \<Rightarrow> string" where
  "store_prefix i = repo_prefix (ri_owner i) (ri_name i)"

text \<open>A path is the list of its components below the root of the local copies.\<close>

definition local_dir :: "repo_id \<Rightarrow> string list" where
  "local_dir i = [ri_owner i, ri_name i @ ''.git'']"

definition strip_suffix :: "string \<Rightarrow> string \<Rightarrow> string option" where
  "strip_suffix p s = (if ends_with p s then Some (take (length s - length p) s) else None)"

definition repo_id_from_str :: "string \<Rightarrow> (git_error, repo_id) result" where
  "repo_id_from_str str =
     (let s = rust_trim str; s = or_default s (strip_suffix ''.git'' s)
      in case split_once (CHR ''/'') s of
           None \<Rightarrow> Inl (InvalidInput (''RepoId must be '' @ quote @ ''owner/name'' @ quote))
         | Some (owner, name) \<Rightarrow>
             if owner = [] \<or> name = [] then Inl (InvalidInput ''RepoId parts must be non-empty'')
             else repo_id_new owner name)"

definition repo_id_to_string :: "repo_id \<Rightarrow> string" where
  "repo_id_to_string i = ri_owner i @ ''/'' @ ri_name i"

text \<open>The path of a request, without the suffix of its repository (server, repo.rs).\<close>

definition normalized_path :: "string \<Rightarrow> string option" where
  "normalized_path path =
     (case str_strip_prefix ''/'' path of
        None \<Rightarrow> None
      | Some p \<Rightarrow>
          (case splitn 3 (CHR ''/'') p of
             owner # rp # rest \<Rightarrow>
               (case strip_suffix ''.git'' rp of
                  None \<Rightarrow> None
                | Some nm \<Rightarrow>
                    if owner = [] \<or> nm = [] then None
                    else Some (''/'' @ owner @ ''/'' @ nm @ (case rest of tail # _ \<Rightarrow> ''/'' @ tail | [] \<Rightarrow> [])))
           | _ \<Rightarrow> None))"

section \<open>Lemmas\<close>

definition repo_id_ok :: "repo_id \<Rightarrow> bool" where
  "repo_id_ok i \<longleftrightarrow> repo_id_new (ri_owner i) (ri_name i) = Inr i"

lemma validate_part_iff:
  "validate_part s what = Inr () \<longleftrightarrow> s \<noteq> [] \<and> length s \<le> 100 \<and> hd s \<noteq> CHR ''.'' \<and> list_all part_byte s"
  by (cases s) (auto simp: validate_part_def)

lemma repo_id_okD:
  assumes "repo_id_ok i"
  shows "validate_part (ri_owner i) ''owner'' = Inr ()" "validate_part (ri_name i) ''name'' = Inr ()"
  using assms by (auto simp: repo_id_ok_def repo_id_new_def split: sum.splits)

lemma part_byte_not: "\<not> part_byte CHR ''/''" "part_byte c \<Longrightarrow> byte c < 0x80"
proof -
  show "\<not> part_byte CHR ''/''" by code_simp
  show "part_byte c \<Longrightarrow> byte c < 0x80" by (auto simp: part_byte_def is_digit_def byte_def)
qed

lemma no_slash: "validate_part s what = Inr () \<Longrightarrow> CHR ''/'' \<notin> set s"
  using part_byte_not by (auto simp: validate_part_iff list_all_iff)

lemma cut_eq: "c \<notin> set a \<Longrightarrow> c \<notin> set a' \<Longrightarrow> a @ c # b = a' @ c # b' \<Longrightarrow> a = a' \<and> b = b'"
  by (metis cut_at append_same_eq list.inject same_append_eq)

lemma prefix_apart:
  assumes "repo_id_ok x" "repo_id_ok y"
  shows "starts_with (store_prefix x) (store_prefix y @ key) \<longleftrightarrow> x = y"
proof
  have s: "CHR ''/'' \<notin> set (ri_owner x)" "CHR ''/'' \<notin> set (ri_name x)" "CHR ''/'' \<notin> set (ri_owner y)" "CHR ''/'' \<notin> set (ri_name y)"
    using repo_id_okD [OF assms(1)] repo_id_okD [OF assms(2)] no_slash by blast+
  assume "starts_with (store_prefix x) (store_prefix y @ key)"
  then obtain t where "store_prefix y @ key = store_prefix x @ t" by (auto simp: starts_with_iff)
  then have e: "ri_owner y @ CHR ''/'' # ri_name y @ CHR ''/'' # key = ri_owner x @ CHR ''/'' # ri_name x @ CHR ''/'' # t"
    by (simp add: store_prefix_def repo_prefix_def)
  from cut_eq [OF s(3) s(1) e] have "ri_owner y = ri_owner x"
    and n: "ri_name y @ CHR ''/'' # key = ri_name x @ CHR ''/'' # t" by auto
  moreover from cut_eq [OF s(4) s(2) n] have "ri_name y = ri_name x" by blast
  ultimately show "x = y" by (cases x; cases y) simp
qed simp

text \<open>
  C27: Repositories are apart. No key below the prefix of one repository is below the prefix of another,
  and their local directories are different and stay two levels below the root.
\<close>

theorem repositories_apart:
  assumes "repo_id_ok x" "repo_id_ok y"
  shows "(\<forall>key. starts_with (store_prefix x) (store_prefix y @ key) \<longleftrightarrow> x = y) \<and>
    (local_dir x = local_dir y \<longleftrightarrow> x = y) \<and>
    (\<forall>d \<in> set (local_dir x). d \<noteq> [] \<and> d \<noteq> ''.'' \<and> d \<noteq> ''..'' \<and> CHR ''/'' \<notin> set d)"
proof -
  note vx = repo_id_okD [OF assms(1)]
  have s: "CHR ''/'' \<notin> set (ri_owner x)" "CHR ''/'' \<notin> set (ri_name x)" using vx no_slash by blast+
  have "local_dir x = local_dir y \<longleftrightarrow> x = y" by (cases x; cases y) (auto simp: local_dir_def)
  moreover have "ri_owner x \<noteq> [] \<and> hd (ri_owner x) \<noteq> CHR ''.''" using vx(1) by (simp add: validate_part_iff)
  then have "\<forall>d \<in> set (local_dir x). d \<noteq> [] \<and> d \<noteq> ''.'' \<and> d \<noteq> ''..'' \<and> CHR ''/'' \<notin> set d"
    using s by (auto simp: local_dir_def)
  ultimately show ?thesis using prefix_apart [OF assms] by blast
qed

theorem repositories_apart_witness:
  "\<not> starts_with (store_prefix \<lparr>ri_owner = ''acme'', ri_name = ''a''\<rparr>) (store_prefix \<lparr>ri_owner = ''acme'', ri_name = ''ab''\<rparr> @ ''manifest.pb'')"
proof -
  have "repo_id_ok \<lparr>ri_owner = ''acme'', ri_name = ''a''\<rparr>" "repo_id_ok \<lparr>ri_owner = ''acme'', ri_name = ''ab''\<rparr>" by (code_simp)+
  from repositories_apart [OF this] show ?thesis by simp
qed

lemma slashed_trimmed: "list_all (\<lambda>c. part_byte c \<or> c = CHR ''/'') s \<Longrightarrow> trimmed s"
proof -
  assume s: "list_all (\<lambda>c. part_byte c \<or> c = CHR ''/'') s"
  have w: "list_all (\<lambda>w. w \<noteq> [] \<and> \<not> (part_byte (hd w) \<or> hd w = CHR ''/'') \<and> \<not> (part_byte (last w) \<or> last w = CHR ''/'')) white_space"
    by code_simp
  show ?thesis unfolding trimmed_def list_all_iff
  proof (intro ballI conjI notI)
    fix x
    assume x: "x \<in> set white_space"
    {
      assume "starts_with x s"
      then obtain t where "s = x @ t" by (auto simp: starts_with_iff)
      then show False using s w x by (cases x) (auto simp: list_all_iff)
    next
      assume "ends_with x s"
      then obtain t where "s = t @ x" by (auto simp: ends_with_iff)
      then show False using s w x by (cases x rule: rev_cases) (auto simp: list_all_iff)
    }
  qed
qed

lemma ends_after_slash: "CHR ''/'' \<notin> set p \<Longrightarrow> ends_with p (a @ CHR ''/'' # b) \<longleftrightarrow> ends_with p b"
  by (auto simp: ends_with_iff append_eq_append_conv2 Cons_eq_append_conv)

text \<open>
  An id printed and read is the same id, unless its name ends with the suffix that reading removes.
\<close>

theorem repo_id_roundtrip:
  assumes "repo_id_ok i"
  shows "repo_id_from_str (repo_id_to_string i) = Inr i \<longleftrightarrow> \<not> ends_with ''.git'' (ri_name i)"
proof -
  note v = repo_id_okD [OF assms]
  let ?o = "ri_owner i" and ?n = "ri_name i"
  have o: "?o \<noteq> []" "CHR ''/'' \<notin> set ?o" using v(1) no_slash by (auto simp: validate_part_iff)
  have n: "?n \<noteq> []" "hd ?n \<noteq> CHR ''.''" using v(2) by (auto simp: validate_part_iff)
  have "list_all (\<lambda>c. part_byte c \<or> c = CHR ''/'') (repo_id_to_string i)"
    using v by (auto simp: validate_part_iff repo_id_to_string_def list_all_iff)
  then have t: "rust_trim (repo_id_to_string i) = ?o @ CHR ''/'' # ?n"
    using slashed_trimmed by (simp add: repo_id_to_string_def)
  show ?thesis
  proof (cases "ends_with ''.git'' ?n")
    case False
    then have "strip_suffix ''.git'' (?o @ CHR ''/'' # ?n) = None" using ends_after_slash [of "''.git''" ?o ?n] by (simp add: strip_suffix_def)
    with False t o n assms show ?thesis
      by (simp add: repo_id_from_str_def Let_def or_default_def split_once_append repo_id_ok_def)
  next
    case True
    then obtain m where m: "?n = m @ ''.git''" by (auto simp: ends_with_iff)
    then have "m \<noteq> []" using n(2) by auto
    have "strip_suffix ''.git'' (?o @ CHR ''/'' # ?n) = Some (?o @ CHR ''/'' # m)"
      using True ends_after_slash [of "''.git''" ?o ?n] m by (simp add: strip_suffix_def)
    then have "repo_id_from_str (repo_id_to_string i) = repo_id_new ?o m"
      using t o \<open>m \<noteq> []\<close> by (simp add: repo_id_from_str_def Let_def or_default_def split_once_append)
    moreover have "repo_id_new ?o m \<noteq> Inr i" using m by (auto simp: repo_id_new_def split: sum.splits dest: arg_cong [where f = ri_name])
    ultimately show ?thesis using True by simp
  qed
qed

theorem repo_id_roundtrip_witness:
  "repo_id_from_str (repo_id_to_string \<lparr>ri_owner = ''acme'', ri_name = ''web''\<rparr>) = Inr \<lparr>ri_owner = ''acme'', ri_name = ''web''\<rparr> \<and>
   repo_id_from_str (repo_id_to_string \<lparr>ri_owner = ''acme'', ri_name = ''web.git''\<rparr>) \<noteq> Inr \<lparr>ri_owner = ''acme'', ri_name = ''web.git''\<rparr>"
proof -
  have "repo_id_ok \<lparr>ri_owner = ''acme'', ri_name = ''web''\<rparr>" "repo_id_ok \<lparr>ri_owner = ''acme'', ri_name = ''web.git''\<rparr>" by (code_simp)+
  from this [THEN repo_id_roundtrip] show ?thesis by (simp add: ends_with_def)
qed

text \<open>A path with the suffix leads to the repository without it, and the rest of the path is untouched.\<close>

lemma normalized_path_exact:
  assumes "repo_id_ok i" "tail = [] \<or> hd tail = CHR ''/''"
  shows "normalized_path (''/'' @ ri_owner i @ ''/'' @ ri_name i @ ''.git'' @ tail) = Some (''/'' @ ri_owner i @ ''/'' @ ri_name i @ tail)"
proof -
  note v = repo_id_okD [OF assms(1)]
  have o: "ri_owner i \<noteq> []" "CHR ''/'' \<notin> set (ri_owner i)" using v(1) no_slash by (auto simp: validate_part_iff)
  have n: "ri_name i \<noteq> []" "CHR ''/'' \<notin> set (ri_name i @ ''.git'')" using v(2) no_slash by (auto simp: validate_part_iff)
  have x: "strip_suffix ''.git'' (ri_name i @ ''.git'') = Some (ri_name i)" by (auto simp: strip_suffix_def ends_with_iff)
  have "splitn 3 (CHR ''/'') (ri_owner i @ ''/'' @ ri_name i @ ''.git'' @ tail) =
      [ri_owner i, ri_name i @ ''.git''] @ (case tail of [] \<Rightarrow> [] | c # t \<Rightarrow> [t])"
    using o(2) n(2) assms(2) cut_at [OF n(2)] by (cases tail) (simp_all add: numeral_3_eq_3 cut_at)
  then show ?thesis using o n x assms(2)
    by (cases tail) (simp_all add: normalized_path_def str_strip_prefix_def)
qed

end
