(* ===== verification/Server_Auth.thy ===== *)
theory Server_Auth
  imports Git_Repo
begin

text \<open>
  Authentication and authorization of requests (\<^verbatim>\<open>crates/gitcask-server/src/auth.rs\<close>): scopes and their
  patterns, permissions, signed tokens and the keys that verify them, forwarded headers, the credential of
  a request, and the minting of tokens by the command line. Base64, JSON and Ed25519 are libraries: the
  record \<open>auth_lib\<close> has what the code uses of them. The client that asks the issuer about opaque tokens is
  in \<^verbatim>\<open>Server_Introspect\<close>.
\<close>

section \<open>Permissions and scopes (auth.rs)\<close>

datatype permission = Read | Write | Admin

fun perm_rank :: "permission \<Rightarrow> nat" where
  "perm_rank Read = 0"
| "perm_rank Write = 1"
| "perm_rank Admin = 2"

instantiation permission :: linorder
begin

definition less_eq_permission :: "permission \<Rightarrow> permission \<Rightarrow> bool" where
  "p \<le> q \<longleftrightarrow> perm_rank p \<le> perm_rank q"

definition less_permission :: "permission \<Rightarrow> permission \<Rightarrow> bool" where
  "p < q \<longleftrightarrow> perm_rank p < perm_rank q"

instance
proof
  fix p q :: permission
  show "p \<le> q \<Longrightarrow> q \<le> p \<Longrightarrow> p = q" by (cases p; cases q) (simp_all add: less_eq_permission_def)
qed (auto simp: less_eq_permission_def less_permission_def)

end

definition allows :: "permission \<Rightarrow> permission \<Rightarrow> bool" where
  "allows granted required \<longleftrightarrow> required \<le> granted"

text \<open>Why a scope is refused. The messages quote the text, the errors carry it.\<close>

datatype scope_error = UnknownPermission string | NoPermission string | NoPair string | InvalidScope string

definition permission_parse :: "string \<Rightarrow> (scope_error, permission) result" where
  "permission_parse v =
     (if v = ''read'' then Inr Read else if v = ''write'' then Inr Write else if v = ''admin'' then Inr Admin
      else Inl (UnknownPermission v))"

definition valid_component :: "string \<Rightarrow> bool \<Rightarrow> bool" where
  "valid_component v allow_glob \<longleftrightarrow>
     v \<noteq> [] \<and> length v \<le> 100 \<and> list_all (\<lambda>c. part_byte c \<or> allow_glob \<and> c = CHR ''*'') v"

text \<open>A repository as scopes see it: in lower case, without the suffix.\<close>

record repository =
  rp_owner :: string
  rp_name :: string

definition to_lower :: "string \<Rightarrow> string" where
  "to_lower s = map ascii_lower s"

definition repository_new :: "string \<Rightarrow> string \<Rightarrow> repository option" where
  "repository_new owner name =
     (if \<not> valid_component owner False \<or> \<not> valid_component name False then None
      else let name1 = to_lower name; name2 = or_default name1 (strip_suffix ''.git'' name1)
           in if name2 = [] then None else Some \<lparr>rp_owner = to_lower owner, rp_name = name2\<rparr>)"

fun str_find :: "string \<Rightarrow> string \<Rightarrow> nat option" where
  "str_find p [] = (if p = [] then Some 0 else None)"
| "str_find p (c # s) = (if starts_with p (c # s) then Some 0 else map_option Suc (str_find p s))"

text \<open>The loop over the parts of a pattern between its stars.\<close>

fun glob_loop :: "bool \<Rightarrow> bool \<Rightarrow> bool \<Rightarrow> string \<Rightarrow> string list \<Rightarrow> bool" where
  "glob_loop anchored_start anchored_end first remaining [] \<longleftrightarrow> \<not> anchored_end \<or> remaining = []"
| "glob_loop anchored_start anchored_end first remaining (part # parts) \<longleftrightarrow>
     (if first \<and> anchored_start then
        (case str_strip_prefix part remaining of
           None \<Rightarrow> False
         | Some rest \<Rightarrow> glob_loop anchored_start anchored_end False rest parts)
      else if parts = [] \<and> anchored_end then ends_with part remaining
      else
        (case str_find part remaining of
           None \<Rightarrow> False
         | Some pos \<Rightarrow> glob_loop anchored_start anchored_end False (drop (pos + length part) remaining) parts))"

definition glob_matches :: "string \<Rightarrow> string \<Rightarrow> bool" where
  "glob_matches pattern v =
     (if CHR ''*'' \<notin> set pattern then pattern = v
      else glob_loop (\<not> starts_with ''*'' pattern) (\<not> ends_with ''*'' pattern) True v
             (filter (\<lambda>p. p \<noteq> []) (split_on (CHR ''*'') pattern)))"

record scope =
  sc_owner :: string
  sc_pattern :: string
  sc_permission :: permission

definition rsplit_once :: "char \<Rightarrow> string \<Rightarrow> (string \<times> string) option" where
  "rsplit_once c s = map_option (\<lambda>(a, b). (rev b, rev a)) (split_once c (rev s))"

definition scope_parse :: "string \<Rightarrow> (scope_error, scope) result" where
  "scope_parse v =
     (case rsplit_once (CHR '':'') v of
        None \<Rightarrow> Inl (NoPermission v)
      | Some (rp, perm) \<Rightarrow>
          (case split_once (CHR ''/'') rp of
             None \<Rightarrow> Inl (NoPair v)
           | Some (owner, pattern) \<Rightarrow>
               if owner = [] \<or> pattern = [] \<or> CHR ''/'' \<in> set pattern \<or> CHR ''*'' \<in> set owner \<or>
                  \<not> valid_component owner False \<or> \<not> valid_component pattern True
               then Inl (InvalidScope v)
               else (case permission_parse perm of
                       Inl e \<Rightarrow> Inl e
                     | Inr p \<Rightarrow> Inr \<lparr>sc_owner = to_lower owner, sc_pattern = to_lower pattern, sc_permission = p\<rparr>)))"

definition grants :: "scope \<Rightarrow> repository \<Rightarrow> permission option" where
  "grants s r = (if sc_owner s = rp_owner r \<and> glob_matches (sc_pattern s) (rp_name r) then Some (sc_permission s) else None)"

fun parse_scopes :: "string list \<Rightarrow> (scope_error, scope list) result" where
  "parse_scopes [] = Inr []"
| "parse_scopes (v # vs) =
     (case scope_parse v of
        Inl e \<Rightarrow> Inl e
      | Inr s \<Rightarrow> (case parse_scopes vs of Inl e \<Rightarrow> Inl e | Inr ss \<Rightarrow> Inr (s # ss)))"

record principal =
  pr_name :: string
  pr_write :: bool
  pr_admin :: bool
  pr_anonymous :: bool
  pr_scopes :: "scope list option"

datatype auth_error = Unauthorized | Forbidden | Auth_NotFound | IntrospectionUnavailable

definition permission_for :: "scope list \<Rightarrow> repository \<Rightarrow> permission option" where
  "permission_for ss r = (case List.map_filter (\<lambda>s. grants s r) ss of [] \<Rightarrow> None | p # ps \<Rightarrow> Some (foldl max p ps))"

definition require_permission :: "principal \<Rightarrow> string \<Rightarrow> string \<Rightarrow> permission \<Rightarrow> (auth_error, principal) result" where
  "require_permission p owner rp required =
     (case pr_scopes p of
        Some ss \<Rightarrow>
          (case repository_new owner rp of
             None \<Rightarrow> Inl Auth_NotFound
           | Some r \<Rightarrow>
               (case permission_for ss r of
                  None \<Rightarrow> Inl Auth_NotFound
                | Some granted \<Rightarrow>
                    if allows granted required then Inr (p\<lparr>pr_write := allows granted Write, pr_admin := allows granted Admin\<rparr>)
                    else Inl Auth_NotFound))
      | None \<Rightarrow>
          (if (case required of Read \<Rightarrow> True | Write \<Rightarrow> pr_write p | Admin \<Rightarrow> pr_admin p) then Inr p else Inl Forbidden))"

section \<open>Patterns\<close>

text \<open>What a pattern means: a star stands for any text, every other character for itself.\<close>

fun glob :: "string \<Rightarrow> string \<Rightarrow> bool" where
  "glob [] v \<longleftrightarrow> v = []"
| "glob (c # p) [] \<longleftrightarrow> c = CHR ''*'' \<and> glob p []"
| "glob (c # p) (x # v) \<longleftrightarrow> (if c = CHR ''*'' then glob p (x # v) \<or> glob (c # p) v else c = x \<and> glob p v)"

lemma glob_star: "glob (CHR ''*'' # p) v \<longleftrightarrow> (\<exists>a b. v = a @ b \<and> glob p b)"
proof (induction v)
  case (Cons x v)
  have "(\<exists>a b. x # v = a @ b \<and> glob p b) \<longleftrightarrow> glob p (x # v) \<or> (\<exists>a b. v = a @ b \<and> glob p b)"
    by (auto simp: Cons_eq_append_conv)
  then show ?case using Cons by simp
qed simp

lemma glob_literal: "CHR ''*'' \<notin> set s \<Longrightarrow> glob (s @ p) v \<longleftrightarrow> (\<exists>b. v = s @ b \<and> glob p b)"
proof (induction s arbitrary: v)
  case (Cons c s)
  then show ?case by (cases v) auto
qed simp

lemma str_find_Some: "str_find p s = Some k \<Longrightarrow> \<exists>a b. s = a @ p @ b \<and> length a = k \<and> (\<forall>a' b'. s = a' @ p @ b' \<longrightarrow> k \<le> length a')"
proof (induction p s arbitrary: k rule: str_find.induct)
  case (2 p c s)
  show ?case
  proof (cases "starts_with p (c # s)")
    case True
    then show ?thesis using 2 by (auto simp: starts_with_iff intro: exI [of _ "[]"])
  next
    case False
    then obtain j where j: "str_find p s = Some j" "k = Suc j" using 2 by auto
    obtain a b where ab: "s = a @ p @ b" "length a = j" and m: "\<And>a' b'. s = a' @ p @ b' \<Longrightarrow> j \<le> length a'"
      using 2(1) [OF False j(1)] by blast
    have "k \<le> length a'" if "c # s = a' @ p @ b'" for a' b'
    proof (cases a')
      case Nil
      then show ?thesis using that False by (auto simp: starts_with_iff)
    next
      case (Cons y ys)
      then show ?thesis using that m j(2) by auto
    qed
    then show ?thesis using ab j(2) by (intro exI [of _ "c # a"] exI [of _ b]) auto
  qed
qed (auto split: if_splits)

lemma str_find_None: "str_find p s = None \<Longrightarrow> s \<noteq> a @ p @ b"
proof (induction p s arbitrary: a rule: str_find.induct)
  case (2 p c s)
  then show ?case by (cases a) (auto simp: starts_with_iff split: if_splits)
qed (auto split: if_splits)

text \<open>The leftmost occurrence will do: what a star accepts later in a text it accepts earlier.\<close>

lemma glob_star_suffix: "glob (CHR ''*'' # p) b \<Longrightarrow> glob (CHR ''*'' # p) (a @ b)"
  by (auto simp: glob_star) (metis append_assoc)

lemma glob_part:
  assumes "CHR ''*'' \<notin> set s"
  shows "glob (CHR ''*'' # s @ CHR ''*'' # p) v \<longleftrightarrow>
    (case str_find s v of None \<Rightarrow> False | Some k \<Rightarrow> glob (CHR ''*'' # p) (drop (k + length s) v))"
proof -
  have e: "glob (CHR ''*'' # s @ CHR ''*'' # p) v \<longleftrightarrow> (\<exists>a b. v = a @ s @ b \<and> glob (CHR ''*'' # p) b)"
    unfolding glob_star [of "s @ CHR ''*'' # p"] glob_literal [OF assms] by auto
  show ?thesis
  proof (cases "str_find s v")
    case None
    then show ?thesis using e str_find_None by auto
  next
    case (Some k)
    then obtain a b where ab: "v = a @ s @ b" "length a = k" and m: "\<And>a' b'. v = a' @ s @ b' \<Longrightarrow> k \<le> length a'"
      using str_find_Some by blast
    have "glob (CHR ''*'' # p) b" if "v = a' @ s @ b'" "glob (CHR ''*'' # p) b'" for a' b'
    proof -
      have "drop (length a' + length s) v = b'" by (simp add: that(1))
      moreover have "drop (k + length s) v = b" using ab by simp
      moreover have "length a' + length s = (length a' - k) + (k + length s)" using m [OF that(1)] by simp
      ultimately have "b' = drop (length a' - k) b" by (metis drop_drop)
      then show ?thesis using glob_star_suffix [of p b' "take (length a' - k) b"] that(2) by simp
    qed
    then show ?thesis using e ab Some by auto
  qed
qed

lemma glob_loop_first: "\<not> as \<Longrightarrow> glob_loop as ae f r ps = glob_loop as ae False r ps"
  by (cases ps) simp_all

lemma glob_stars: "glob (CHR ''*'' # CHR ''*'' # p) v = glob (CHR ''*'' # p) v"
  using glob_star [of p] glob_star [of "CHR ''*'' # p"] by (metis append.left_neutral append_assoc)

lemma glob_loop_tail:
  assumes "ss \<noteq> []" "\<forall>s \<in> set ss. CHR ''*'' \<notin> set s"
  shows "glob_loop as (last ss \<noteq> []) False v (filter (\<lambda>s. s \<noteq> []) ss) \<longleftrightarrow> glob (CHR ''*'' # join_with ''*'' ss) v"
  using assms
proof (induction ss arbitrary: v)
  case (Cons s ss)
  show ?case
  proof (cases "ss = []")
    case True
    have "glob (CHR ''*'' # s) v \<longleftrightarrow> ends_with s v"
      using glob_star [of s v] glob_literal [of s "[]"] Cons.prems by (auto simp: ends_with_iff)
    then show ?thesis using True by (auto simp: ends_with_iff)
  next
    case False
    then have j: "join_with ''*'' (s # ss) = s @ CHR ''*'' # join_with ''*'' ss" by (cases ss) simp_all
    have IH: "glob_loop as (last ss \<noteq> []) False v' (filter (\<lambda>s. s \<noteq> []) ss) = glob (CHR ''*'' # join_with ''*'' ss) v'" for v'
      using Cons.IH [OF False] Cons.prems by simp
    show ?thesis
    proof (cases "s = []")
      case True
      then show ?thesis using IH False j glob_stars by simp
    next
      case ne: False
      have "\<not> (filter (\<lambda>s. s \<noteq> []) ss = [] \<and> last ss \<noteq> [])" using False by (auto simp: filter_empty_conv)
      then have "glob_loop as (last ss \<noteq> []) False v (s # filter (\<lambda>s. s \<noteq> []) ss) \<longleftrightarrow>
          (case str_find s v of None \<Rightarrow> False
           | Some k \<Rightarrow> glob_loop as (last ss \<noteq> []) False (drop (k + length s) v) (filter (\<lambda>s. s \<noteq> []) ss))"
        by (simp only: glob_loop.simps if_False simp_thms)
      then show ?thesis using IH False ne j glob_part [of s] Cons.prems by (simp split: option.splits)
    qed
  qed
qed simp

lemma join_last: "ss \<noteq> [] \<Longrightarrow> \<exists>pre. join_with [c] (s # ss) = pre @ c # last ss"
proof (induction ss arbitrary: s)
  case (Cons t ss)
  show ?case
  proof (cases "ss = []")
    case False
    then obtain pre where "join_with [c] (t # ss) = pre @ c # last ss" using Cons.IH by blast
    then show ?thesis using False by (auto intro: exI [of _ "s @ c # pre"])
  qed auto
qed simp

text \<open>
  C22: The matcher of repository patterns, which looks for the parts between the stars one after the
  other and never goes back, accepts exactly what the pattern means: a star stands for any text.
\<close>

theorem glob_matches_exact: "glob_matches pattern v \<longleftrightarrow> glob pattern v"
proof (cases "CHR ''*'' \<in> set pattern")
  case False
  then show ?thesis using glob_literal [of pattern "[]"] by (auto simp: glob_matches_def)
next
  case True
  obtain s ss where s: "split_on (CHR ''*'') pattern = s # ss" by (cases "split_on (CHR ''*'') pattern") auto
  have p: "join_with ''*'' (s # ss) = pattern" using join_split_on [of "CHR ''*''" pattern] s by simp
  have star: "\<forall>t \<in> set (s # ss). CHR ''*'' \<notin> set t" using split_on_pieces [of _ "CHR ''*''" pattern] s by metis
  have ne: "ss \<noteq> []" using p star True by auto
  then have p': "pattern = s @ CHR ''*'' # join_with ''*'' ss" using p by (cases ss) auto
  have a: "starts_with ''*'' pattern \<longleftrightarrow> s = []" using p' star by (cases s) (auto simp: starts_with_iff)
  obtain pre where "pattern = pre @ CHR ''*'' # last ss" using join_last [OF ne, of "CHR ''*''" s] p by metis
  moreover have "CHR ''*'' \<notin> set (last ss)" using star ne by simp
  ultimately have e: "ends_with ''*'' pattern \<longleftrightarrow> last ss = []"
    by (cases "last ss" rule: rev_cases) (auto simp: ends_with_iff)
  have tail: "glob_loop as (last ss \<noteq> []) False v' (filter (\<lambda>s. s \<noteq> []) ss) \<longleftrightarrow> glob (CHR ''*'' # join_with ''*'' ss) v'" for as v'
    using glob_loop_tail [OF ne] star by simp
  show ?thesis
  proof (cases "s = []")
    case True
    then have "glob_matches pattern v = glob_loop False (last ss \<noteq> []) False v (filter (\<lambda>s. s \<noteq> []) ss)"
      using \<open>CHR ''*'' \<in> set pattern\<close> glob_loop_first [of False] by (simp add: glob_matches_def s a e)
    then show ?thesis using tail p' True by simp
  next
    case False
    have "glob pattern v \<longleftrightarrow> (\<exists>b. v = s @ b \<and> glob (CHR ''*'' # join_with ''*'' ss) b)"
      unfolding p' using star by (intro glob_literal) simp
    moreover have "glob_matches pattern v \<longleftrightarrow>
        (case str_strip_prefix s v of None \<Rightarrow> False | Some r \<Rightarrow> glob (CHR ''*'' # join_with ''*'' ss) r)"
      using \<open>CHR ''*'' \<in> set pattern\<close> False tail by (simp add: glob_matches_def s a e split: option.splits)
    ultimately show ?thesis by (auto simp: str_strip_prefix_def starts_with_iff)
  qed
qed

section \<open>What scopes grant\<close>

lemma max_list_le: "q \<le> foldl max p ps \<longleftrightarrow> q \<le> p \<or> (\<exists>x \<in> set ps. q \<le> x)" for q :: permission
  by (induction ps arbitrary: p) (auto simp: le_max_iff_disj)

lemma permission_for_le:
  "(\<exists>g. permission_for ss r = Some g \<and> q \<le> g) \<longleftrightarrow> (\<exists>s \<in> set ss. \<exists>p. grants s r = Some p \<and> q \<le> p)"
proof -
  let ?ps = "List.map_filter (\<lambda>s. grants s r) ss"
  have "(\<exists>g. permission_for ss r = Some g \<and> q \<le> g) \<longleftrightarrow> (\<exists>p \<in> set ?ps. q \<le> p)"
    by (cases ?ps) (simp_all add: permission_for_def max_list_le)
  also have "\<dots> \<longleftrightarrow> (\<exists>s \<in> set ss. \<exists>p. grants s r = Some p \<and> q \<le> p)" by (force simp: List.map_filter_def)
  finally show ?thesis .
qed

definition covers :: "scope \<Rightarrow> string \<Rightarrow> string \<Rightarrow> permission \<Rightarrow> bool" where
  "covers s owner rp required \<longleftrightarrow>
     (\<exists>r. repository_new owner rp = Some r \<and> sc_owner s = rp_owner r \<and> glob (sc_pattern s) (rp_name r) \<and> required \<le> sc_permission s)"

lemma require_scopes:
  assumes "pr_scopes p = Some ss"
  shows "require_permission p owner rp required =
    (if \<exists>s \<in> set ss. covers s owner rp required
     then Inr (p\<lparr>pr_write := \<exists>s \<in> set ss. covers s owner rp Write, pr_admin := \<exists>s \<in> set ss. covers s owner rp Admin\<rparr>)
     else Inl Auth_NotFound)"
proof (cases "repository_new owner rp")
  case None
  then show ?thesis using assms by (simp add: require_permission_def covers_def)
next
  case (Some r)
  have c: "(\<exists>s \<in> set ss. covers s owner rp q) \<longleftrightarrow> (\<exists>g. permission_for ss r = Some g \<and> q \<le> g)" for q
    unfolding permission_for_le using Some by (auto simp: covers_def grants_def glob_matches_exact)
  show ?thesis unfolding c using assms Some by (cases "permission_for ss r") (simp_all add: require_permission_def allows_def)
qed

section \<open>Tokens (auth.rs)\<close>

datatype audience = One string | Many "string list"

definition aud_contains :: "audience \<Rightarrow> string \<Rightarrow> bool" where
  "aud_contains a expected = (case a of One v \<Rightarrow> v = expected | Many vs \<Rightarrow> expected \<in> set vs)"

record claims =
  cl_iss :: string
  cl_sub :: string
  cl_scopes :: "string list"
  cl_exp :: nat
  cl_iat :: nat
  cl_jti :: string
  cl_aud :: "audience option"
  cl_nbf :: "nat option"

record jwt_header =
  jh_alg :: string
  jh_typ :: "string option"
  jh_kid :: "string option"

text \<open>
  What the libraries do: base64 without and with padding, the text of a header value, JSON, Ed25519.
  \<open>'k\<close> are keys, \<open>'s\<close> signatures.
\<close>

record ('k, 's) auth_lib =
  b64_url :: "string \<Rightarrow> string option"
  b64_std :: "string \<Rightarrow> string option"
  to_str :: "string \<Rightarrow> string option"
  header_json :: "string \<Rightarrow> jwt_header option"
  claims_json :: "string \<Rightarrow> claims option"
  signature_of :: "string \<Rightarrow> 's option"
  sig_ok :: "'k \<Rightarrow> string \<Rightarrow> 's \<Rightarrow> bool"
  key_of :: "string \<Rightarrow> 'k option"

record 's parsed_token =
  pt_header :: jwt_header
  pt_claims :: string
  pt_input :: string
  pt_signature :: 's

definition ensure :: "bool \<Rightarrow> string \<Rightarrow> (string, 'a) result \<Rightarrow> (string, 'a) result" where
  "ensure b msg r = (if b then r else Inl msg)"

definition context_of :: "'a option \<Rightarrow> string \<Rightarrow> ('a \<Rightarrow> (string, 'b) result) \<Rightarrow> (string, 'b) result" where
  "context_of x msg f = (case x of None \<Rightarrow> Inl msg | Some a \<Rightarrow> f a)"

definition parse_token :: "('k, 's) auth_lib \<Rightarrow> string \<Rightarrow> (string, 's parsed_token) result" where
  "parse_token lib token =
     ensure (length token \<le> 64 * 1024) ''JWT is too large''
       (case split_on (CHR ''.'') token of
          [h, c, g] \<Rightarrow>
            context_of (b64_url lib h) ''decoding JWT header'' (\<lambda>bytes.
            context_of (header_json lib bytes) ''parsing JWT header'' (\<lambda>header.
            ensure (jh_alg header = ''EdDSA'') ''JWT alg must be EdDSA''
            (ensure (jh_typ header = None \<or> jh_typ header = Some ''JWT'') ''unsupported JWT typ''
            (context_of (b64_url lib g) ''decoding JWT signature'' (\<lambda>sbytes.
             context_of (signature_of lib sbytes) ''invalid Ed25519 signature'' (\<lambda>sg.
               Inr \<lparr>pt_header = header, pt_claims = c, pt_input = h @ ''.'' @ c, pt_signature = sg\<rparr>))))))
        | _ \<Rightarrow> Inl ''JWT must have three segments'')"

definition sat_add :: "nat \<Rightarrow> nat \<Rightarrow> nat" where
  "sat_add a b = min (a + b) (2 ^ 64 - 1)"

definition token_principal :: "string \<Rightarrow> scope list \<Rightarrow> principal" where
  "token_principal name ss = \<lparr>pr_name = name, pr_write = False, pr_admin = False, pr_anonymous = False, pr_scopes = Some ss\<rparr>"

definition verify_token ::
  "('k, 's) auth_lib \<Rightarrow> nat \<Rightarrow> 'k \<Rightarrow> string \<Rightarrow> string option \<Rightarrow> nat \<Rightarrow> 's parsed_token \<Rightarrow> (string, principal) result" where
  "verify_token lib now key issuer audience leeway t =
     ensure (sig_ok lib key (pt_input t) (pt_signature t)) ''invalid JWT signature''
     (context_of (b64_url lib (pt_claims t)) ''decoding JWT claims'' (\<lambda>bytes.
      context_of (claims_json lib bytes) ''parsing JWT claims'' (\<lambda>cl.
      ensure (cl_iss cl = issuer) ''JWT issuer mismatch''
      (ensure (case audience of None \<Rightarrow> True | Some expected \<Rightarrow> (case cl_aud cl of None \<Rightarrow> False | Some a \<Rightarrow> aud_contains a expected))
         ''JWT audience mismatch''
      (ensure (cl_iat cl < cl_exp cl) ''invalid JWT times''
      (ensure (now < sat_add (cl_exp cl) leeway) ''JWT expired''
      (ensure (cl_iat cl \<le> sat_add now leeway) ''JWT issued in the future''
      (ensure (case cl_nbf cl of None \<Rightarrow> True | Some nb \<Rightarrow> nb \<le> sat_add now leeway) ''JWT is not active yet''
      (ensure (cl_sub cl \<noteq> [] \<and> cl_jti cl \<noteq> []) ''invalid JWT identity''
      (case parse_scopes (cl_scopes cl) of
         Inl _ \<Rightarrow> Inl ''invalid scope''
       | Inr ss \<Rightarrow> Inr (token_principal (cl_sub cl) ss)))))))))))"

text \<open>Keys: one, or the set the issuer publishes, fetched when a token names a key that is not known.\<close>

record jwk =
  jwk_kty :: string
  jwk_crv :: string
  jwk_x :: string
  jwk_kid :: "string option"
  jwk_alg :: "string option"
  jwk_use :: "string option"

definition nonempty :: "string option \<Rightarrow> string option" where
  "nonempty x = (case x of Some s \<Rightarrow> if s = [] then None else Some s | None \<Rightarrow> None)"

fun jwks_keys :: "('k, 's) auth_lib \<Rightarrow> (string \<times> 'k) list \<Rightarrow> jwk list \<Rightarrow> (string, (string \<times> 'k) list) result" where
  "jwks_keys lib keys [] = Inr keys"
| "jwks_keys lib keys (j # js) =
     (if jwk_kty j \<noteq> ''OKP'' \<or> jwk_crv j \<noteq> ''Ed25519'' then jwks_keys lib keys js
      else if (jwk_alg j \<noteq> None \<and> jwk_alg j \<noteq> Some ''EdDSA'') \<or> (jwk_use j \<noteq> None \<and> jwk_use j \<noteq> Some ''sig'') then jwks_keys lib keys js
      else (case nonempty (jwk_kid j) of
              None \<Rightarrow> Inl ''Ed25519 JWK has no kid''
            | Some kid \<Rightarrow>
                (case b64_url lib (jwk_x j) of
                   None \<Rightarrow> Inl ''decoding Ed25519 JWK x''
                 | Some bytes \<Rightarrow>
                     if length bytes \<noteq> 32 then Inl ''Ed25519 JWK x must be 32 bytes''
                     else (case key_of lib bytes of
                             None \<Rightarrow> Inl ''invalid Ed25519 JWK''
                           | Some k \<Rightarrow>
                               if map_of keys kid \<noteq> None then Inl ''duplicate JWKS kid''
                               else jwks_keys lib ((kid, k) # keys) js))))"

text \<open>\<open>fetched\<close> is what the endpoint answers: the set, or why there is none.\<close>

definition jwks_fetch :: "('k, 's) auth_lib \<Rightarrow> (string, jwk list) result \<Rightarrow> (string, (string \<times> 'k) list) result" where
  "jwks_fetch lib fetched =
     (case fetched of
        Inl e \<Rightarrow> Inl e
      | Inr js \<Rightarrow>
          (case jwks_keys lib [] js of
             Inl e \<Rightarrow> Inl e
           | Inr keys \<Rightarrow> if keys = [] then Inl ''JWKS contains no Ed25519 signing keys'' else Inr keys))"

definition jwks_key ::
  "('k, 's) auth_lib \<Rightarrow> (string, jwk list) result \<Rightarrow> string \<Rightarrow> (string \<times> 'k) list \<Rightarrow> 'k option \<times> (string \<times> 'k) list" where
  "jwks_key lib fetched kid cache =
     (case map_of cache kid of
        Some k \<Rightarrow> (Some k, cache)
      | None \<Rightarrow>
          (let cache' = (case jwks_fetch lib fetched of Inr keys \<Rightarrow> keys | Inl _ \<Rightarrow> cache)
           in (map_of cache' kid, cache')))"

datatype 'k verification_keys = Public 'k | Jwks "(string \<times> 'k) list"

record 'k jwt_verifier =
  jv_issuer :: string
  jv_audience :: "string option"
  jv_leeway :: nat
  jv_keys :: "'k verification_keys"

definition jwt_verify ::
  "('k, 's) auth_lib \<Rightarrow> (string, jwk list) result \<Rightarrow> nat \<Rightarrow> 'k jwt_verifier \<Rightarrow> string \<Rightarrow> (string, principal) result \<times> 'k jwt_verifier" where
  "jwt_verify lib fetched now v token =
     (case parse_token lib token of
        Inl e \<Rightarrow> (Inl e, v)
      | Inr t \<Rightarrow>
          (case jv_keys v of
             Public k \<Rightarrow> (verify_token lib now k (jv_issuer v) (jv_audience v) (jv_leeway v) t, v)
           | Jwks cache \<Rightarrow>
               (case nonempty (jh_kid (pt_header t)) of
                  None \<Rightarrow> (Inl ''JWKS token has no kid'', v)
                | Some kid \<Rightarrow>
                    (case jwks_key lib fetched kid cache of
                       (None, cache') \<Rightarrow> (Inl ''JWT kid is not in the JWKS'', v\<lparr>jv_keys := Jwks cache'\<rparr>)
                     | (Some k, cache') \<Rightarrow>
                         (verify_token lib now k (jv_issuer v) (jv_audience v) (jv_leeway v) t, v\<lparr>jv_keys := Jwks cache'\<rparr>)))))"

section \<open>Requests (auth.rs)\<close>

text \<open>
  Headers with their names in lower case, in order; a lookup gives the first. White space around a value
  does not count, and an empty value is none.
\<close>

type_synonym headers = "(string \<times> string) list"

definition PRINCIPAL_HEADER :: string where "PRINCIPAL_HEADER = ''x-gitcask-principal''"
definition WRITE_HEADER :: string where "WRITE_HEADER = ''x-gitcask-write''"
definition ADMIN_HEADER :: string where "ADMIN_HEADER = ''x-gitcask-admin''"
definition FORWARD_SECRET_HEADER :: string where "FORWARD_SECRET_HEADER = ''x-gitcask-forward-secret''"

definition header_value :: "('k, 's) auth_lib \<Rightarrow> headers \<Rightarrow> string \<Rightarrow> string option" where
  "header_value lib hs name = nonempty (map_option rust_trim (Option.bind (map_of hs name) (to_str lib)))"

definition authorization :: "('k, 's) auth_lib \<Rightarrow> headers \<Rightarrow> (string \<times> string) option" where
  "authorization lib hs =
     Option.bind (Option.bind (map_of hs ''authorization'') (to_str lib)) (\<lambda>v. split_once (CHR 0x20) (rust_trim v))"

definition bearer_credential :: "('k, 's) auth_lib \<Rightarrow> headers \<Rightarrow> string option" where
  "bearer_credential lib hs =
     (case authorization lib hs of
        None \<Rightarrow> None
      | Some (scheme, token) \<Rightarrow> if to_lower scheme = ''bearer'' \<and> rust_trim token \<noteq> [] then Some (rust_trim token) else None)"

definition client_credential :: "('k, 's) auth_lib \<Rightarrow> headers \<Rightarrow> string option" where
  "client_credential lib hs =
     (case bearer_credential lib hs of
        Some token \<Rightarrow> Some token
      | None \<Rightarrow>
          (case authorization lib hs of
             None \<Rightarrow> None
           | Some (scheme, encoded) \<Rightarrow>
               if to_lower scheme \<noteq> ''basic'' then None
               else (case b64_std lib (rust_trim encoded) of
                       None \<Rightarrow> None
                     | Some decoded \<Rightarrow>
                         if \<not> utf8 decoded then None
                         else (case split_once (CHR '':'') decoded of
                                 None \<Rightarrow> None
                               | Some (_, password) \<Rightarrow> if password \<noteq> [] then Some password else None))))"

definition forwarded :: "('k, 's) auth_lib \<Rightarrow> headers \<Rightarrow> string option \<Rightarrow> (auth_error, principal) result" where
  "forwarded lib hs secret =
     (if secret \<noteq> None \<and> header_value lib hs FORWARD_SECRET_HEADER \<noteq> secret then Inl Unauthorized
      else case header_value lib hs PRINCIPAL_HEADER of
             None \<Rightarrow> Inl Unauthorized
           | Some name \<Rightarrow>
               Inr \<lparr>pr_name = name, pr_write = header_value lib hs WRITE_HEADER = Some ''1'',
                    pr_admin = header_value lib hs ADMIN_HEADER = Some ''1'', pr_anonymous = False, pr_scopes = None\<rparr>)"

datatype 'k backend = NoAuth | Forwarded "string option" | Jwt "'k jwt_verifier" | Introspect "string option"

definition anon :: principal where
  "anon = \<lparr>pr_name = ''anon'', pr_write = True, pr_admin = True, pr_anonymous = True, pr_scopes = None\<rparr>"

text \<open>\<open>ask\<close> is the answer of the client that asks the issuer about a token.\<close>

definition authenticate ::
  "('k, 's) auth_lib \<Rightarrow> (string, jwk list) result \<Rightarrow> (string \<Rightarrow> (auth_error, principal) result) \<Rightarrow> nat \<Rightarrow> headers \<Rightarrow> 'k backend \<Rightarrow>
   (auth_error, principal) result \<times> 'k backend" where
  "authenticate lib fetched ask now hs be =
     (case be of
        NoAuth \<Rightarrow> (Inr anon, be)
      | Forwarded secret \<Rightarrow> (forwarded lib hs secret, be)
      | Jwt v \<Rightarrow>
          (case client_credential lib hs of
             None \<Rightarrow> (Inl Unauthorized, be)
           | Some credential \<Rightarrow>
               (case jwt_verify lib fetched now v credential of
                  (Inl e, v') \<Rightarrow> (Inl Unauthorized, Jwt v')
                | (Inr p, v') \<Rightarrow> (Inr p, Jwt v')))
      | Introspect secret \<Rightarrow>
          (if secret \<noteq> None \<and> FORWARD_SECRET_HEADER \<in> fst ` set hs then
             (if length (filter (\<lambda>h. fst h = FORWARD_SECRET_HEADER) hs) \<noteq> 1 then Inl Unauthorized
              else forwarded lib hs secret)
           else (case client_credential lib hs of None \<Rightarrow> Inl Unauthorized | Some credential \<Rightarrow> ask credential),
           be))"

definition auth_require ::
  "('k, 's) auth_lib \<Rightarrow> (string, jwk list) result \<Rightarrow> (string \<Rightarrow> (auth_error, principal) result) \<Rightarrow> nat \<Rightarrow> headers \<Rightarrow>
   string \<Rightarrow> string \<Rightarrow> permission \<Rightarrow> 'k backend \<Rightarrow> (auth_error, principal) result \<times> 'k backend" where
  "auth_require lib fetched ask now hs owner rp required be =
     (case authenticate lib fetched ask now hs be of
        (Inl e, be') \<Rightarrow> (Inl e, be')
      | (Inr p, be') \<Rightarrow> (require_permission p owner rp required, be'))"

text \<open>Minting, with the signer and the printers of the libraries. Times to live are in nanoseconds.\<close>

record 'p mint_lib =
  b64_url_enc :: "string \<Rightarrow> string"
  header_print :: "jwt_header \<Rightarrow> string"
  claims_print :: "claims \<Rightarrow> string"
  sign :: "'p \<Rightarrow> string \<Rightarrow> string"

definition token_header :: jwt_header where
  "token_header = \<lparr>jh_alg = ''EdDSA'', jh_typ = Some ''JWT'', jh_kid = None\<rparr>"

definition sign_claims :: "'p mint_lib \<Rightarrow> claims \<Rightarrow> 'p \<Rightarrow> jwt_header \<Rightarrow> string" where
  "sign_claims ml cl key header =
     (let input = b64_url_enc ml (header_print ml header) @ ''.'' @ b64_url_enc ml (claims_print ml cl)
      in input @ ''.'' @ b64_url_enc ml (sign ml key input))"

definition minted_claims :: "string \<Rightarrow> string option \<Rightarrow> string \<Rightarrow> string list \<Rightarrow> nat \<Rightarrow> nat \<Rightarrow> string \<Rightarrow> claims" where
  "minted_claims issuer audience name scopes ttl now jti =
     \<lparr>cl_iss = issuer, cl_sub = name, cl_scopes = scopes, cl_exp = now + ttl div 10 ^ 9, cl_iat = now, cl_jti = jti,
      cl_aud = map_option One audience, cl_nbf = None\<rparr>"

definition mint_token ::
  "'p mint_lib \<Rightarrow> 'p option \<Rightarrow> string \<Rightarrow> string option \<Rightarrow> string \<Rightarrow> string list \<Rightarrow> nat \<Rightarrow> nat \<Rightarrow> string \<Rightarrow> (string, string) result" where
  "mint_token ml key issuer audience name scopes ttl now jti =
     ensure (rust_trim issuer \<noteq> []) ''issuer may not be empty''
     (ensure (name \<noteq> []) ''principal may not be empty''
     (ensure (scopes \<noteq> []) ''at least one scope is required''
     (case parse_scopes scopes of
        Inl _ \<Rightarrow> Inl ''invalid scope''
      | Inr _ \<Rightarrow>
          ensure (ttl \<noteq> 0) ''ttl must be greater than zero''
          (ensure (now + ttl div 10 ^ 9 < 2 ^ 64) ''token expiration overflow''
          (context_of key ''parsing Ed25519 private key as PKCS#8 PEM'' (\<lambda>k.
             Inr (sign_claims ml (minted_claims issuer audience name scopes ttl now jti) k token_header)))))))"

section \<open>Access\<close>

lemma ensure_Inr [simp]: "ensure b msg r = Inr x \<longleftrightarrow> b \<and> r = Inr x"
  by (simp add: ensure_def)

lemma context_of_Inr [simp]: "context_of x msg f = Inr y \<longleftrightarrow> (\<exists>a. x = Some a \<and> f a = Inr y)"
  by (cases x) (simp_all add: context_of_def)

lemma ensure_True [simp]: "ensure True msg r = r" and context_of_Some [simp]: "context_of (Some a) msg f = f a"
  by (simp_all add: ensure_def context_of_def)

text \<open>A token in force: its claims, with what is checked of them.\<close>

definition in_force :: "nat \<Rightarrow> 'k jwt_verifier \<Rightarrow> claims \<Rightarrow> bool" where
  "in_force now v cl \<longleftrightarrow>
     cl_iss cl = jv_issuer v \<and> (\<forall>a. jv_audience v = Some a \<longrightarrow> (\<exists>b. cl_aud cl = Some b \<and> aud_contains b a)) \<and>
     cl_iat cl < cl_exp cl \<and> now < cl_exp cl + jv_leeway v \<and> cl_iat cl \<le> now + jv_leeway v \<and>
     (\<forall>nb. cl_nbf cl = Some nb \<longrightarrow> nb \<le> now + jv_leeway v) \<and> cl_sub cl \<noteq> [] \<and> cl_jti cl \<noteq> []"

lemma verify_token_sound:
  assumes "verify_token lib now key (jv_issuer v) (jv_audience v) (jv_leeway v) t = Inr p"
  obtains bytes cl ss where "sig_ok lib key (pt_input t) (pt_signature t)" "b64_url lib (pt_claims t) = Some bytes"
    "claims_json lib bytes = Some cl" "in_force now v cl" "parse_scopes (cl_scopes cl) = Inr ss" "p = token_principal (cl_sub cl) ss"
proof -
  obtain bytes cl where c: "b64_url lib (pt_claims t) = Some bytes" "claims_json lib bytes = Some cl"
    using assms by (auto simp: verify_token_def)
  obtain ss where ss: "parse_scopes (cl_scopes cl) = Inr ss"
    using assms c by (cases "parse_scopes (cl_scopes cl)") (auto simp: verify_token_def)
  have "in_force now v cl"
    using assms c by (auto simp: verify_token_def in_force_def sat_add_def split: option.splits)
  then show thesis using that c ss assms by (auto simp: verify_token_def)
qed

lemma parse_token_sound:
  assumes "parse_token lib token = Inr t"
  obtains h c g where "token = h @ ''.'' @ c @ ''.'' @ g" "pt_input t = h @ ''.'' @ c" "pt_claims t = c"
    "\<exists>bytes. b64_url lib h = Some bytes \<and> header_json lib bytes = Some (pt_header t)" "jh_alg (pt_header t) = ''EdDSA''"
    "\<exists>sbytes. b64_url lib g = Some sbytes \<and> signature_of lib sbytes = Some (pt_signature t)"
proof -
  obtain h c g where s: "split_on (CHR ''.'') token = [h, c, g]"
    using assms by (auto simp: parse_token_def split: list.splits)
  moreover have "token = h @ ''.'' @ c @ ''.'' @ g" using join_split_on [of "CHR ''.''" token] s by simp
  ultimately show thesis using that assms by (auto simp: parse_token_def)
qed

lemma parse_scopes_mem: "parse_scopes vs = Inr ss \<Longrightarrow> s \<in> set ss \<Longrightarrow> \<exists>v \<in> set vs. scope_parse v = Inr s"
  by (induction vs arbitrary: ss) (auto split: sum.splits)

text \<open>The keys a verifier may use: its own, or those the issuer publishes or has published.\<close>

definition trusted :: "('k, 's) auth_lib \<Rightarrow> (string, jwk list) result \<Rightarrow> 'k jwt_verifier \<Rightarrow> 'k \<Rightarrow> bool" where
  "trusted lib fetched v key =
     (case jv_keys v of
        Public k \<Rightarrow> key = k
      | Jwks cache \<Rightarrow> key \<in> snd ` set cache \<or> (\<exists>keys. jwks_fetch lib fetched = Inr keys \<and> key \<in> snd ` set keys))"

lemma jwks_key_trusted:
  "jwks_key lib fetched kid cache = (Some k, cache') \<Longrightarrow>
   k \<in> snd ` set cache \<or> (\<exists>keys. jwks_fetch lib fetched = Inr keys \<and> k \<in> snd ` set keys)"
  by (auto simp: jwks_key_def Let_def split: option.splits sum.splits dest!: map_of_SomeD intro: rev_image_eqI)

lemma jwt_verify_sound:
  assumes "jwt_verify lib fetched now v token = (Inr p, v')"
  obtains t key where "parse_token lib token = Inr t" "trusted lib fetched v key"
    "verify_token lib now key (jv_issuer v) (jv_audience v) (jv_leeway v) t = Inr p"
proof -
  obtain t where t: "parse_token lib token = Inr t" using assms by (auto simp: jwt_verify_def split: sum.splits)
  show thesis
  proof (cases "jv_keys v")
    case (Public k)
    then show thesis using that assms t by (auto simp: jwt_verify_def trusted_def)
  next
    case (Jwks cache)
    then obtain kid k cache' where "jwks_key lib fetched kid cache = (Some k, cache')"
      "verify_token lib now k (jv_issuer v) (jv_audience v) (jv_leeway v) t = Inr p"
      using assms t by (auto simp: jwt_verify_def split: option.splits prod.splits)
    then show thesis using that t Jwks jwks_key_trusted [of lib fetched kid cache k cache'] by (auto simp: trusted_def)
  qed
qed

text \<open>
  C20: With tokens, nothing is granted but what a signed token says. Whoever is let at a repository has
  presented a token of three segments whose signature a key of the issuer verifies over the first two, and
  whose claims are those of the issuer, for this audience, and in force at the time; one of its scopes,
  whose stars stand for any text, covers the repository with the permission required or a higher one.
\<close>

theorem jwt_access_sound:
  assumes "auth_require lib fetched ask now hs owner rp required (Jwt v) = (Inr q, be)"
  shows "\<exists>h c g sbytes sg key bytes cl sc s.
    client_credential lib hs = Some (h @ ''.'' @ c @ ''.'' @ g) \<and>
    b64_url lib g = Some sbytes \<and> signature_of lib sbytes = Some sg \<and>
    trusted lib fetched v key \<and> sig_ok lib key (h @ ''.'' @ c) sg \<and>
    b64_url lib c = Some bytes \<and> claims_json lib bytes = Some cl \<and> in_force now v cl \<and> pr_name q = cl_sub cl \<and>
    sc \<in> set (cl_scopes cl) \<and> scope_parse sc = Inr s \<and> covers s owner rp required"
proof -
  obtain token p v' where cr: "client_credential lib hs = Some token" and jv: "jwt_verify lib fetched now v token = (Inr p, v')"
    and rq: "require_permission p owner rp required = Inr q"
    using assms by (auto simp: auth_require_def authenticate_def split: option.splits prod.splits sum.splits)
  obtain t key where t: "parse_token lib token = Inr t" "trusted lib fetched v key"
    "verify_token lib now key (jv_issuer v) (jv_audience v) (jv_leeway v) t = Inr p" using jwt_verify_sound [OF jv] by blast
  obtain bytes cl ss where vt: "sig_ok lib key (pt_input t) (pt_signature t)" "b64_url lib (pt_claims t) = Some bytes"
    "claims_json lib bytes = Some cl" "in_force now v cl" "parse_scopes (cl_scopes cl) = Inr ss" "p = token_principal (cl_sub cl) ss"
    using verify_token_sound [OF t(3)] by metis
  obtain h c g sbytes where pt: "token = h @ ''.'' @ c @ ''.'' @ g" "pt_input t = h @ ''.'' @ c" "pt_claims t = c"
    "b64_url lib g = Some sbytes" "signature_of lib sbytes = Some (pt_signature t)" using parse_token_sound [OF t(1)] by metis
  have scp: "pr_scopes p = Some ss" using vt(6) by (simp add: token_principal_def)
  then obtain s where s: "s \<in> set ss" "covers s owner rp required" and q: "pr_name q = cl_sub cl"
    using rq vt(6) unfolding require_scopes [OF scp] by (auto simp: token_principal_def split: if_splits)
  then obtain sc where "sc \<in> set (cl_scopes cl)" "scope_parse sc = Inr s" using parse_scopes_mem [OF vt(5)] by blast
  then show ?thesis using cr pt vt t(2) s q by (intro exI conjI) auto
qed

text \<open>What the libraries promise of printing and signing.\<close>

definition token_codec_ok :: "('k, 's) auth_lib \<Rightarrow> 'p mint_lib \<Rightarrow> 'p \<Rightarrow> 'k \<Rightarrow> jwt_header \<Rightarrow> claims \<Rightarrow> bool" where
  "token_codec_ok lib ml sk pk header cl \<longleftrightarrow>
     (\<forall>x. b64_url lib (b64_url_enc ml x) = Some x \<and> CHR ''.'' \<notin> set (b64_url_enc ml x)) \<and>
     header_json lib (header_print ml header) = Some header \<and> claims_json lib (claims_print ml cl) = Some cl \<and>
     (\<forall>m. \<exists>sg. signature_of lib (sign ml sk m) = Some sg \<and> sig_ok lib pk m sg)"

lemma parse_signed:
  assumes "token_codec_ok lib ml sk pk header cl" "jh_alg header = ''EdDSA''" "jh_typ header = Some ''JWT''"
    and "length (sign_claims ml cl sk header) \<le> 64 * 1024"
  obtains t where "parse_token lib (sign_claims ml cl sk header) = Inr t" "pt_header t = header"
    "pt_claims t = b64_url_enc ml (claims_print ml cl)" "sig_ok lib pk (pt_input t) (pt_signature t)"
proof -
  define h where "h = b64_url_enc ml (header_print ml header)"
  define c where "c = b64_url_enc ml (claims_print ml cl)"
  define g where "g = b64_url_enc ml (sign ml sk (h @ ''.'' @ c))"
  obtain sg where sg: "signature_of lib (sign ml sk (h @ ''.'' @ c)) = Some sg" "sig_ok lib pk (h @ ''.'' @ c) sg"
    using assms(1) unfolding token_codec_ok_def by blast
  have tok: "sign_claims ml cl sk header = h @ CHR ''.'' # c @ CHR ''.'' # g" by (simp add: sign_claims_def h_def c_def g_def Let_def)
  have d: "CHR ''.'' \<notin> set h" "CHR ''.'' \<notin> set c" "CHR ''.'' \<notin> set g" "b64_url lib h = Some (header_print ml header)"
    "b64_url lib g = Some (sign ml sk (h @ ''.'' @ c))" "header_json lib (header_print ml header) = Some header"
    using assms(1) by (auto simp: token_codec_ok_def h_def c_def g_def)
  then have "split_on (CHR ''.'') (sign_claims ml cl sk header) = [h, c, g]" by (simp add: tok split_on_append)
  then have "parse_token lib (sign_claims ml cl sk header) =
      Inr \<lparr>pt_header = header, pt_claims = c, pt_input = h @ ''.'' @ c, pt_signature = sg\<rparr>"
    using d sg assms(2-4) by (simp add: parse_token_def)
  then show thesis using that sg c_def by fastforce
qed

text \<open>
  C31: A token the command line mints is accepted until it expires, unless its time to live is less than
  a second. For an issuer, a principal and scopes that are not empty, scopes that parse, a time to live
  (in nanoseconds) above zero that does not overflow the clock, and a key, minting always succeeds. A server with that
  issuer and audience and the public key accepts the token (of at most 64 KiB, which tokens are capped at)
  from the minting until the whole seconds of its time to live and the server's leeway have passed, for
  exactly the principal and scopes. No server, whatever its configuration and whenever asked, accepts it
  otherwise: never when the time to live was less than a second, although minting it succeeded, and never
  later; and none ever takes it for another principal or other scopes.
\<close>

theorem minted_token_accepted:
  assumes args: "rust_trim (jv_issuer v) \<noteq> []" "name \<noteq> []" "scopes \<noteq> []" "parse_scopes scopes = Inr ss" "0 < ttl" "now + ttl div 10 ^ 9 < 2 ^ 64"
    and codec: "token_codec_ok lib ml sk pk token_header (minted_claims (jv_issuer v) (jv_audience v) name scopes ttl now jti)"
    and v: "jv_keys v = Public pk" and jti: "jti \<noteq> []"
  shows "\<exists>token. mint_token ml (Some sk) (jv_issuer v) (jv_audience v) name scopes ttl now jti = Inr token \<and>
    (length token \<le> 64 * 1024 \<longrightarrow> 10 ^ 9 \<le> ttl \<longrightarrow>
      (\<forall>fetched now'. now \<le> now' \<and> now' < now + ttl div 10 ^ 9 + jv_leeway v \<and> now' < 2 ^ 64 - 1 \<longrightarrow>
         jwt_verify lib fetched now' v token = (Inr (token_principal name ss), v))) \<and>
    (\<forall>server fetched now' p server'. jwt_verify lib fetched now' server token = (Inr p, server') \<longrightarrow>
       10 ^ 9 \<le> ttl \<and> now' < now + ttl div 10 ^ 9 + jv_leeway server \<and> p = token_principal name ss)"
proof (intro exI conjI allI impI)
  define cl where "cl = minted_claims (jv_issuer v) (jv_audience v) name scopes ttl now jti"
  define token where "token = sign_claims ml cl sk token_header"
  have f: "cl_iss cl = jv_issuer v" "cl_aud cl = map_option One (jv_audience v)" "cl_exp cl = now + ttl div 10 ^ 9" "cl_iat cl = now"
    "cl_nbf cl = None" "cl_sub cl = name" "cl_jti cl = jti" "cl_scopes cl = scopes" by (simp_all add: cl_def minted_claims_def)
  note parsed = parse_signed [OF codec [folded cl_def]]
  show "mint_token ml (Some sk) (jv_issuer v) (jv_audience v) name scopes ttl now jti = Inr token"
    using args by (simp add: mint_token_def token_def cl_def)
  {
    fix fetched now'
    assume size: "length token \<le> 64 * 1024" and sec: "10 ^ 9 \<le> ttl"
      and time: "now \<le> now' \<and> now' < now + ttl div 10 ^ 9 + jv_leeway v \<and> now' < 2 ^ 64 - 1"
    obtain t where t: "parse_token lib token = Inr t" "pt_claims t = b64_url_enc ml (claims_print ml cl)" "sig_ok lib pk (pt_input t) (pt_signature t)"
      using parsed size unfolding token_def by (metis token_header_def jwt_header.select_convs(1,2))
    have js: "b64_url lib (pt_claims t) = Some (claims_print ml cl)" "claims_json lib (claims_print ml cl) = Some cl"
      using codec by (auto simp: t(2) token_codec_ok_def cl_def)
    have "0 < ttl div 10 ^ 9" using sec by (simp add: div_greater_zero_iff)
    then have "verify_token lib now' pk (jv_issuer v) (jv_audience v) (jv_leeway v) t = Inr (token_principal name ss)"
      unfolding verify_token_def using t(3) js args(2,4) jti time by (cases "jv_audience v") (auto simp: f sat_add_def aud_contains_def ensure_def)
    then show "jwt_verify lib fetched now' v token = (Inr (token_principal name ss), v)" using t(1) v by (simp add: jwt_verify_def)
  next
    fix server :: "'a jwt_verifier" and fetched now' p server'
    assume ok: "jwt_verify lib fetched now' server token = (Inr p, server')"
    obtain t key where t: "parse_token lib token = Inr t" "verify_token lib now' key (jv_issuer server) (jv_audience server) (jv_leeway server) t = Inr p"
      using jwt_verify_sound [OF ok] by blast
    obtain bytes cl' ss' where c: "b64_url lib (pt_claims t) = Some bytes" "claims_json lib bytes = Some cl'" "in_force now' server cl'"
      "parse_scopes (cl_scopes cl') = Inr ss'" "p = token_principal (cl_sub cl') ss'" using verify_token_sound [OF t(2)] by metis
    have "length token \<le> 64 * 1024" using t(1) by (auto simp: parse_token_def ensure_def split: if_splits)
    then have "pt_claims t = b64_url_enc ml (claims_print ml cl)"
      using parsed t(1) unfolding token_def by (metis token_header_def jwt_header.select_convs(1,2) sum.inject(2))
    then have "cl' = cl" using c(1,2) codec by (auto simp: token_codec_ok_def cl_def)
    moreover have "0 < ttl div 10 ^ 9 \<longleftrightarrow> 10 ^ 9 \<le> ttl" by (simp add: div_greater_zero_iff)
    ultimately show "10 ^ 9 \<le> ttl" "now' < now + ttl div 10 ^ 9 + jv_leeway server" "p = token_principal name ss"
      using c(3-5) args(4) by (auto simp: in_force_def f)
  }
qed

text \<open>A key that signs by repeating the text, base64 as two digits per byte, and one known header and set of claims.\<close>

fun hex_pairs :: "string \<Rightarrow> string" where
  "hex_pairs [] = []"
| "hex_pairs (c # s) = hex_digit (byte c div 16) # hex_digit (byte c mod 16) # hex_pairs s"

fun unhex_pairs :: "string \<Rightarrow> string option" where
  "unhex_pairs [] = Some []"
| "unhex_pairs (a # b # s) =
     (case (hex_value a, hex_value b, unhex_pairs s) of
        (Some x, Some y, Some t) \<Rightarrow> Some (char_of (16 * x + y) # t)
      | _ \<Rightarrow> None)"
| "unhex_pairs _ = None"

definition demo_claims :: claims where
  "demo_claims = minted_claims ''issuer'' None ''alice'' [''ACME/App-*:write''] (60 * 10 ^ 9) 1000 ''id''"

definition demo_lib :: "(nat, string) auth_lib" where
  "demo_lib = \<lparr>b64_url = unhex_pairs, b64_std = (\<lambda>s. None), to_str = Some, header_json = (\<lambda>s. if s = ''h'' then Some token_header else None),
     claims_json = (\<lambda>s. if s = ''c'' then Some demo_claims else None), signature_of = Some, sig_ok = (\<lambda>k m sg. k = 5 \<and> sg = m),
     key_of = (\<lambda>s. None)\<rparr>"

definition demo_mint :: "nat mint_lib" where
  "demo_mint = \<lparr>b64_url_enc = hex_pairs, header_print = (\<lambda>h. ''h''), claims_print = (\<lambda>c. ''c''), sign = (\<lambda>k m. m)\<rparr>"

definition demo_verifier :: "nat jwt_verifier" where
  "demo_verifier = \<lparr>jv_issuer = ''issuer'', jv_audience = None, jv_leeway = 0, jv_keys = Public 5\<rparr>"

definition demo_token :: string where
  "demo_token = sign_claims demo_mint demo_claims 5 token_header"

lemma unhex_pairs: "unhex_pairs (hex_pairs s) = Some s"
proof (induction s)
  case (Cons c s)
  have b: "byte c < 256" by (simp add: byte_def)
  then have "hex_value (hex_digit (byte c div 16)) = Some (byte c div 16)" "hex_value (hex_digit (byte c mod 16)) = Some (byte c mod 16)"
    by (simp_all add: hex_value_digit)
  moreover have "char_of (16 * (byte c div 16) + byte c mod 16) = c" by (simp add: byte_def)
  ultimately show ?case using Cons by simp
qed simp

lemma hex_pairs_dot: "CHR ''.'' \<notin> set (hex_pairs s)"
proof (induction s)
  case (Cons c s)
  have "byte c < 256" by (simp add: byte_def)
  then have "hex_value (hex_digit (byte c div 16)) \<noteq> None" "hex_value (hex_digit (byte c mod 16)) \<noteq> None"
    by (simp_all add: hex_value_digit)
  moreover have "hex_value (CHR ''.'') = None" by code_simp
  ultimately show ?case using Cons by auto
qed simp

declare hex_pairs.simps [simp del] unhex_pairs.simps [simp del] parse_scopes.simps [simp del]

definition demo_scopes :: "scope list" where
  "demo_scopes = [\<lparr>sc_owner = ''acme'', sc_pattern = ''app-*'', sc_permission = Write\<rparr>]"

lemma demo_parts:
  "parse_scopes [''ACME/App-*:write''] = Inr demo_scopes" "rust_trim ''issuer'' = ''issuer''"
  "hex_pairs ''h'' = ''68''" "hex_pairs ''c'' = ''63''" "hex_pairs ''68.63'' = ''36382e3633''"
  "unhex_pairs ''68'' = Some ''h''" "unhex_pairs ''63'' = Some ''c''" "unhex_pairs ''36382e3633'' = Some ''68.63''"
  "split_on (CHR ''.'') ''68.63.36382e3633'' = [''68'', ''63'', ''36382e3633'']"
  by code_simp+

lemma demo_token: "demo_token = ''68.63.36382e3633''"
  by (simp add: demo_token_def sign_claims_def demo_mint_def demo_parts)

lemma demo_verify:
  "jwt_verify demo_lib (Inl []) 1010 demo_verifier ''68.63.36382e3633'' = (Inr (token_principal ''alice'' demo_scopes), demo_verifier)"
  by (simp add: jwt_verify_def parse_token_def verify_token_def demo_lib_def demo_verifier_def demo_parts token_header_def
      demo_claims_def minted_claims_def sat_add_def)

theorem jwt_access_sound_witness:
  "\<exists>cl sc s. claims_json demo_lib ''c'' = Some cl \<and> in_force 1010 demo_verifier cl \<and>
    sc \<in> set (cl_scopes cl) \<and> scope_parse sc = Inr s \<and> covers s ''acme'' ''app-one'' Read"
proof -
  let ?hs = "[(''authorization'', ''Bearer 68.63.36382e3633'')]"
  have "authorization demo_lib ?hs = Some (''Bearer'', ''68.63.36382e3633'')"
    by (simp add: authorization_def demo_lib_def) code_simp
  moreover have "to_lower ''Bearer'' = ''bearer''" "rust_trim ''68.63.36382e3633'' = ''68.63.36382e3633''" by code_simp+
  ultimately have "client_credential demo_lib ?hs = Some ''68.63.36382e3633''" by (simp add: client_credential_def bearer_credential_def)
  moreover have "require_permission (token_principal ''alice'' demo_scopes) ''acme'' ''app-one'' Read =
      Inr ((token_principal ''alice'' demo_scopes)\<lparr>pr_write := True\<rparr>)" by code_simp
  ultimately have "auth_require demo_lib (Inl []) (\<lambda>t. Inl Unauthorized) 1010 ?hs ''acme'' ''app-one'' Read (Jwt demo_verifier) =
      (Inr ((token_principal ''alice'' demo_scopes)\<lparr>pr_write := True\<rparr>), Jwt demo_verifier)"
    by (simp add: auth_require_def authenticate_def demo_verify)
  from jwt_access_sound [OF this] show ?thesis by (auto simp: demo_lib_def split: if_splits)
qed

theorem minted_token_accepted_witness:
  "\<exists>token. mint_token demo_mint (Some 5) ''issuer'' None ''alice'' [''ACME/App-*:write''] (60 * 10 ^ 9) 1000 ''id'' = Inr token \<and>
    jwt_verify demo_lib (Inl []) 1010 demo_verifier token = (Inr (token_principal ''alice'' demo_scopes), demo_verifier)"
proof -
  have c: "token_codec_ok demo_lib demo_mint 5 5 token_header
      (minted_claims (jv_issuer demo_verifier) (jv_audience demo_verifier) ''alice'' [''ACME/App-*:write''] (60 * 10 ^ 9) 1000 ''id'')"
    unfolding token_codec_ok_def by (simp add: demo_lib_def demo_mint_def unhex_pairs hex_pairs_dot demo_claims_def demo_verifier_def)
  have v: "jv_issuer demo_verifier = ''issuer''" "jv_audience demo_verifier = None" "jv_leeway demo_verifier = 0" "jv_keys demo_verifier = Public 5"
    by (simp_all add: demo_verifier_def)
  have m: "mint_token demo_mint (Some 5) ''issuer'' None ''alice'' [''ACME/App-*:write''] (60 * 10 ^ 9) 1000 ''id'' = Inr demo_token"
    by (simp add: mint_token_def demo_parts demo_token_def demo_claims_def)
  have "length demo_token \<le> 64 * 1024" by (simp add: demo_token)
  then show ?thesis
    using minted_token_accepted [OF _ _ _ demo_parts(1) _ _ c v(4), unfolded v(1,2)] m by (simp add: v(3) demo_parts(2))
qed

text \<open>A scope that names one repository literally, and what it grants.\<close>

lemma part_byte_special: "part_byte c \<Longrightarrow> c \<noteq> CHR '':'' \<and> c \<noteq> CHR ''/'' \<and> c \<noteq> CHR ''*''"
proof -
  have "\<not> part_byte (CHR '':'')" "\<not> part_byte (CHR ''/'')" "\<not> part_byte (CHR ''*'')" by code_simp+
  then show "part_byte c \<Longrightarrow> c \<noteq> CHR '':'' \<and> c \<noteq> CHR ''/'' \<and> c \<noteq> CHR ''*''" by auto
qed

lemma repo_id_components:
  assumes "repo_id_ok x"
  shows "valid_component (ri_owner x) g" "valid_component (ri_name x) g" "\<forall>c \<in> set (ri_owner x) \<union> set (ri_name x). part_byte c"
  using repo_id_okD [OF assms] by (auto simp: valid_component_def validate_part_iff list_all_iff)

lemma literal_scope:
  assumes "repo_id_ok x"
  shows "scope_parse (ri_owner x @ ''/'' @ ri_name x @ '':admin'') = Inr \<lparr>sc_owner = to_lower (ri_owner x), sc_pattern = to_lower (ri_name x), sc_permission = Admin\<rparr>"
proof -
  note c = repo_id_components [OF assms]
  let ?rp = "ri_owner x @ CHR ''/'' # ri_name x"
  have free: "CHR ''/'' \<notin> set (ri_owner x)" "CHR ''/'' \<notin> set (ri_name x)" "CHR ''*'' \<notin> set (ri_owner x)" "ri_owner x \<noteq> []" "ri_name x \<noteq> []"
    using c part_byte_special by (auto simp: valid_component_def)
  have "split_once (CHR '':'') (rev (?rp @ '':admin'')) = Some (rev ''admin'', rev ?rp)"
    by (simp add: split_once_def)
  then have "rsplit_once (CHR '':'') (?rp @ '':admin'') = Some (?rp, ''admin'')" by (simp add: rsplit_once_def)
  moreover have "split_once (CHR ''/'') ?rp = Some (ri_owner x, ri_name x)" using free(1) by (rule split_once_append)
  ultimately show ?thesis using c(1,2) free by (simp add: scope_parse_def permission_parse_def)
qed

lemma lower_no_star: "repo_id_ok x \<Longrightarrow> CHR ''*'' \<notin> set (to_lower (ri_name x))"
proof -
  have "c = CHR ''*''" if "ascii_lower c = CHR ''*''" for c
  proof (rule ccontr)
    assume "c \<noteq> CHR ''*''"
    then have c: "char_of (byte c + 32) = CHR ''*''" "0x41 \<le> byte c" "byte c \<le> 0x5A" using that by (auto simp: ascii_lower_def split: if_splits)
    have "(of_char (char_of (byte c + 32) :: char) :: nat) = 42" unfolding c(1) by simp
    then show False using c(2,3) by simp
  qed
  then show "repo_id_ok x \<Longrightarrow> CHR ''*'' \<notin> set (to_lower (ri_name x))" using repo_id_components(3) part_byte_special by (force simp: to_lower_def)
qed

lemma repository_of_variant:
  assumes "repo_id_ok x" "repo_id_ok y" "to_lower (ri_owner y) = to_lower (ri_owner x)" "\<not> ends_with ''.git'' (to_lower (ri_name x))"
    and "to_lower (ri_name y) \<in> {to_lower (ri_name x), to_lower (ri_name x) @ ''.git''}"
  shows "repository_new (ri_owner x) (ri_name x) = repository_new (ri_owner y) (ri_name y)"
    "repository_new (ri_owner y) (ri_name y) = Some \<lparr>rp_owner = to_lower (ri_owner x), rp_name = to_lower (ri_name x)\<rparr>"
proof -
  have strip: "or_default (to_lower (ri_name z)) (strip_suffix ''.git'' (to_lower (ri_name z))) = to_lower (ri_name x)" if "z \<in> {x, y}" for z
    using that assms(4,5) by (auto simp: strip_suffix_def or_default_def ends_with_iff dest: sym)
  have "to_lower (ri_name x) \<noteq> []" using repo_id_components(2) [OF assms(1)] by (auto simp: valid_component_def to_lower_def)
  then show "repository_new (ri_owner y) (ri_name y) = Some \<lparr>rp_owner = to_lower (ri_owner x), rp_name = to_lower (ri_name x)\<rparr>"
    "repository_new (ri_owner x) (ri_name x) = repository_new (ri_owner y) (ri_name y)"
    using strip [of x] strip [of y] repo_id_components [OF assms(1)] repo_id_components [OF assms(2)] assms(3) by (simp_all add: repository_new_def Let_def)
qed



end
