(* ===== verification/Server_Introspect.thy ===== *)
theory Server_Introspect
  imports Server_Auth "HOL-Library.AList"
begin

text \<open>
  Opaque tokens (\<^verbatim>\<open>crates/gitcask-server/src/auth/introspect.rs\<close>): the answers of the issuer, the cache of
  answers with its deadlines and its bound, and the calls under way, which other requests about the same
  token join. \<open>ask_step\<close> interleaves the sections of any number of requests with the clock and with
  cancellations. The HTTP call is the environment: its response, or its failure, is chosen by the step.
\<close>

section \<open>The client (introspect.rs)\<close>

definition MAX_ENTRIES :: nat where "MAX_ENTRIES = 10000"

type_synonym auth_answer = "(auth_error, principal) result"

text \<open>
  An answer with its deadline; without one it is not cached. Times and lifetimes are in nanoseconds, and
  \<open>horizon\<close> bounds the times the clock can represent.
\<close>

record shared_answer =
  sa_answer :: auth_answer
  sa_expires :: "nat option"

definition shared_new :: "nat \<Rightarrow> nat \<Rightarrow> auth_answer \<Rightarrow> nat \<Rightarrow> shared_answer" where
  "shared_new horizon now answer ttl =
     \<lparr>sa_answer = answer, sa_expires = (if ttl = 0 then None else Some (if now + ttl < horizon then now + ttl else now))\<rparr>"

definition into_current :: "nat \<Rightarrow> shared_answer \<Rightarrow> auth_answer" where
  "into_current now s =
     (case sa_expires s of
        Some e \<Rightarrow> if e \<le> now then Inl IntrospectionUnavailable else sa_answer s
      | None \<Rightarrow> sa_answer s)"

text \<open>The state under the lock: cached answers by the digest of the token, their order, and the calls under way.\<close>

record introspect_state =
  is_cache :: "(string \<times> shared_answer) list"
  is_order :: "string list"
  is_flights :: "(string \<times> nat) list"

definition make_room :: "string \<Rightarrow> introspect_state \<Rightarrow> introspect_state" where
  "make_room key st =
     (let st1 = (if length (is_cache st) = MAX_ENTRIES then
                   (case is_order st of
                      [] \<Rightarrow> st
                    | oldest # rest \<Rightarrow> st\<lparr>is_order := rest, is_cache := AList.delete oldest (is_cache st)\<rparr>)
                 else st)
      in st1\<lparr>is_order := is_order st1 @ [key]\<rparr>)"

definition state_insert :: "nat \<Rightarrow> string \<Rightarrow> shared_answer \<Rightarrow> introspect_state \<Rightarrow> introspect_state" where
  "state_insert now key shared st =
     (case sa_expires shared of
        None \<Rightarrow> st
      | Some e \<Rightarrow>
          if e \<le> now then st
          else (let st1 = (if map_of (is_cache st) key = None then make_room key st else st)
                in st1\<lparr>is_cache := AList.update key shared (is_cache st1)\<rparr>))"

datatype lookup_result = Ready auth_answer | Wait nat | Fetch nat

text \<open>A lookup reads the clock once to find an answer and once more to hand it out. A new call gets a number.\<close>

definition introspect_lookup :: "nat \<Rightarrow> nat \<Rightarrow> string \<Rightarrow> nat \<Rightarrow> introspect_state \<Rightarrow> lookup_result \<times> introspect_state" where
  "introspect_lookup now now' key fresh st =
     (case Option.bind (map_of (is_cache st) key) (\<lambda>c. case sa_expires c of Some e \<Rightarrow> if now < e then Some c else None | None \<Rightarrow> None) of
        Some c \<Rightarrow> (Ready (into_current now' c), st)
      | None \<Rightarrow>
          (case map_of (is_flights st) key of
             Some f \<Rightarrow> (Wait f, st)
           | None \<Rightarrow>
               if length (is_flights st) = MAX_ENTRIES then (Ready (Inl IntrospectionUnavailable), st)
               else (Fetch fresh, st\<lparr>is_flights := (key, fresh) # is_flights st\<rparr>)))"

text \<open>What the issuer answers: a field is there and of its type, or there and not, or absent.\<close>

datatype 'a response_field = Valid 'a | Invalid | Missing

record introspection_response =
  ir_active :: bool
  ir_principal :: "string response_field"
  ir_scopes :: "string list response_field"
  ir_ttl :: "nat response_field"

record introspect_config =
  cache_ttl :: nat
  negative_cache_ttl :: nat

definition parse_response :: "nat \<Rightarrow> introspection_response \<Rightarrow> principal option \<times> nat" where
  "parse_response ttl_bound r =
     (if \<not> ir_active r then (None, 0)
      else let ttl = (case ir_ttl r of Missing \<Rightarrow> Some ttl_bound | Valid t \<Rightarrow> Some (min (t * 10 ^ 9) ttl_bound) | Invalid \<Rightarrow> None)
           in case (ir_principal r, ir_scopes r, ttl) of
                (Valid name, Valid scopes, Some t) \<Rightarrow>
                  if name \<noteq> [] then
                    (case parse_scopes scopes of
                       Inr ss \<Rightarrow> (Some (token_principal name ss), t)
                     | Inl _ \<Rightarrow> (None, 0))
                  else (None, 0)
              | _ \<Rightarrow> (None, 0))"

text \<open>The answer to a token, given the response or the failure of the call.\<close>

definition answer_of :: "introspect_config \<Rightarrow> (string, introspection_response) result \<Rightarrow> auth_answer \<times> nat" where
  "answer_of cfg response =
     (case response of
        Inl _ \<Rightarrow> (Inl IntrospectionUnavailable, 0)
      | Inr r \<Rightarrow>
          (case parse_response (cache_ttl cfg) r of
             (Some p, ttl) \<Rightarrow> (Inr p, ttl)
           | (None, _) \<Rightarrow> (Inl Unauthorized, negative_cache_ttl cfg)))"

definition end_flight :: "string \<Rightarrow> introspect_state \<Rightarrow> introspect_state" where
  "end_flight key st = st\<lparr>is_flights := AList.delete key (is_flights st)\<rparr>"

section \<open>Interleavings\<close>

text \<open>
  Requests ask about tokens, by their digests, at any time. The first to ask makes the call; the others
  wait for what it publishes. \<open>w_said\<close> has the responses of the issuer with the time they were taken over,
  \<open>w_given\<close> the answers requests were given. A call may be cancelled while it waits for the issuer.
\<close>

datatype leader = Asking | Inserted shared_answer | Published

record introspect_world =
  w_state :: introspect_state
  w_clock :: nat
  w_key :: "nat \<Rightarrow> string option"
  w_leader :: "nat \<Rightarrow> leader option"
  w_sent :: "nat \<Rightarrow> shared_answer option"
  w_waits :: "(string \<times> nat) list"
  w_said :: "(string \<times> (string, introspection_response) result \<times> nat) list"
  w_given :: "(string \<times> auth_answer \<times> nat) list"

definition world_new :: introspect_world where
  "world_new = \<lparr>w_state = \<lparr>is_cache = [], is_order = [], is_flights = []\<rparr>, w_clock = 0, w_key = (\<lambda>f. None), w_leader = (\<lambda>f. None),
     w_sent = (\<lambda>f. None), w_waits = [], w_said = [], w_given = []\<rparr>"

definition give :: "string \<Rightarrow> auth_answer \<Rightarrow> introspect_world \<Rightarrow> introspect_world" where
  "give key a w = w\<lparr>w_given := (key, a, w_clock w) # w_given w\<rparr>"

definition shared_of :: "introspect_config \<Rightarrow> nat \<Rightarrow> (string, introspection_response) result \<Rightarrow> nat \<Rightarrow> shared_answer" where
  "shared_of cfg horizon response now = (case answer_of cfg response of (a, ttl) \<Rightarrow> shared_new horizon now a ttl)"

definition unavailable :: shared_answer where
  "unavailable = \<lparr>sa_answer = Inl IntrospectionUnavailable, sa_expires = None\<rparr>"

inductive ask_step :: "introspect_config \<Rightarrow> nat \<Rightarrow> introspect_world \<Rightarrow> introspect_world \<Rightarrow> bool" for cfg horizon where
  tick: "ask_step cfg horizon w (w\<lparr>w_clock := w_clock w + d\<rparr>)"
| ready: "introspect_lookup (w_clock w) now' key f (w_state w) = (Ready a, st) \<Longrightarrow> w_clock w \<le> now' \<Longrightarrow>
    ask_step cfg horizon w (give key a (w\<lparr>w_clock := now'\<rparr>))"
| join: "introspect_lookup (w_clock w) now' key f (w_state w) = (Wait g, st) \<Longrightarrow>
    ask_step cfg horizon w (w\<lparr>w_waits := (key, g) # w_waits w\<rparr>)"
| fetch: "introspect_lookup (w_clock w) now' key f (w_state w) = (Fetch f, st) \<Longrightarrow> w_key w f = None \<Longrightarrow>
    ask_step cfg horizon w (w\<lparr>w_state := st, w_key := (w_key w)(f \<mapsto> key), w_leader := (w_leader w)(f \<mapsto> Asking)\<rparr>)"
| insert: "w_leader w f = Some Asking \<Longrightarrow> w_key w f = Some key \<Longrightarrow> shared = shared_of cfg horizon response (w_clock w) \<Longrightarrow>
    ask_step cfg horizon w (w\<lparr>w_state := state_insert (w_clock w) key shared (w_state w), w_leader := (w_leader w)(f \<mapsto> Inserted shared),
      w_said := (key, response, w_clock w) # w_said w\<rparr>)"
| publish: "w_leader w f = Some (Inserted shared) \<Longrightarrow> w_key w f = Some key \<Longrightarrow>
    ask_step cfg horizon w (give key (into_current (w_clock w) shared)
      (w\<lparr>w_leader := (w_leader w)(f \<mapsto> Published), w_sent := (w_sent w)(f \<mapsto> shared)\<rparr>))"
| finished: "w_leader w f = Some Published \<Longrightarrow> w_key w f = Some key \<Longrightarrow>
    ask_step cfg horizon w (w\<lparr>w_state := end_flight key (w_state w), w_leader := (w_leader w)(f := None)\<rparr>)"
| cancelled: "w_leader w f = Some Asking \<Longrightarrow> w_key w f = Some key \<Longrightarrow>
    ask_step cfg horizon w (w\<lparr>w_state := end_flight key (w_state w), w_leader := (w_leader w)(f := None),
      w_sent := (w_sent w)(f \<mapsto> unavailable)\<rparr>)"
| follow: "(key, f) \<in> set (w_waits w) \<Longrightarrow> w_sent w f = Some shared \<Longrightarrow>
    ask_step cfg horizon w (give key (into_current (w_clock w) shared) w)"

definition ask_reachable :: "introspect_config \<Rightarrow> nat \<Rightarrow> introspect_world \<Rightarrow> bool" where
  "ask_reachable cfg horizon w \<longleftrightarrow> (ask_step cfg horizon)\<^sup>*\<^sup>* world_new w"

section \<open>The invariant\<close>

definition state_ok :: "introspect_state \<Rightarrow> bool" where
  "state_ok st \<longleftrightarrow>
     distinct (map fst (is_cache st)) \<and> distinct (is_order st) \<and> set (is_order st) = fst ` set (is_cache st) \<and>
     length (is_cache st) \<le> MAX_ENTRIES \<and> distinct (map fst (is_flights st)) \<and> length (is_flights st) \<le> MAX_ENTRIES"

definition backed :: "introspect_config \<Rightarrow> nat \<Rightarrow> introspect_world \<Rightarrow> string \<Rightarrow> shared_answer \<Rightarrow> bool" where
  "backed cfg horizon w key s \<longleftrightarrow> s = unavailable \<or> (\<exists>response t. (key, response, t) \<in> set (w_said w) \<and> t \<le> w_clock w \<and> s = shared_of cfg horizon response t)"

text \<open>An answer that lets someone in, and where it came from.\<close>

definition justified :: "introspect_config \<Rightarrow> introspect_world \<Rightarrow> string \<Rightarrow> auth_answer \<Rightarrow> nat \<Rightarrow> bool" where
  "justified cfg w key a now \<longleftrightarrow>
     (\<forall>p. a = Inr p \<longrightarrow>
        (\<exists>response t ttl. (key, response, t) \<in> set (w_said w) \<and> answer_of cfg response = (Inr p, ttl) \<and> t \<le> now \<and> (ttl = 0 \<or> now < t + ttl)))"

definition world_ok :: "introspect_config \<Rightarrow> nat \<Rightarrow> introspect_world \<Rightarrow> bool" where
  "world_ok cfg horizon w \<longleftrightarrow>
     state_ok (w_state w) \<and>
     (\<forall>key s. map_of (is_cache (w_state w)) key = Some s \<longrightarrow> backed cfg horizon w key s) \<and>
     (\<forall>key f. map_of (is_flights (w_state w)) key = Some f \<longleftrightarrow> w_leader w f \<noteq> None \<and> w_key w f = Some key) \<and>
     (\<forall>f. w_leader w f \<noteq> None \<or> w_sent w f \<noteq> None \<longrightarrow> w_key w f \<noteq> None) \<and>
     (\<forall>f s key. w_leader w f = Some (Inserted s) \<and> w_key w f = Some key \<longrightarrow> backed cfg horizon w key s) \<and>
     (\<forall>f s key. w_sent w f = Some s \<and> w_key w f = Some key \<longrightarrow> backed cfg horizon w key s) \<and>
     (\<forall>key f. (key, f) \<in> set (w_waits w) \<longrightarrow> w_key w f = Some key) \<and>
     (\<forall>key a t. (key, a, t) \<in> set (w_given w) \<longrightarrow> justified cfg w key a t)"

lemma length_delete: "k \<in> fst ` set xs \<Longrightarrow> length (AList.delete k xs) < length xs"
  "length (AList.delete k xs) \<le> length xs"
  by (induction xs) auto

lemma delete_keys: "fst ` set (AList.delete k xs) = fst ` set xs - {k}"
  by (induction xs) auto

lemma make_room_ok:
  assumes "state_ok st" "map_of (is_cache st) key = None"
  shows "distinct (map fst (is_cache (make_room key st)))" "distinct (is_order (make_room key st))"
    "set (is_order (make_room key st)) = insert key (fst ` set (is_cache (make_room key st)))"
    "length (is_cache (make_room key st)) < MAX_ENTRIES" "key \<notin> fst ` set (is_cache (make_room key st))"
    "is_flights (make_room key st) = is_flights st"
    "map_of (is_cache (make_room key st)) k = Some s \<Longrightarrow> map_of (is_cache st) k = Some s"
proof -
  have k: "key \<notin> fst ` set (is_cache st)" using assms(2) by (simp add: map_of_eq_None_iff)
  note ok = assms(1) [unfolded state_ok_def]
  have "distinct (map fst (is_cache (make_room key st))) \<and> distinct (is_order (make_room key st)) \<and>
    set (is_order (make_room key st)) = insert key (fst ` set (is_cache (make_room key st))) \<and>
    length (is_cache (make_room key st)) < MAX_ENTRIES \<and> key \<notin> fst ` set (is_cache (make_room key st)) \<and>
    is_flights (make_room key st) = is_flights st \<and>
    (map_of (is_cache (make_room key st)) k = Some s \<longrightarrow> map_of (is_cache st) k = Some s)"
  proof (cases "length (is_cache st) = MAX_ENTRIES")
    case False
    then show ?thesis using ok k by (auto simp: make_room_def)
  next
    case True
    then have "is_cache st \<noteq> []" by (auto simp: MAX_ENTRIES_def)
    then have "is_order st \<noteq> []" using ok by auto
    then obtain q qs where q: "is_order st = q # qs" by (cases "is_order st") auto
    have qc: "q \<in> fst ` set (is_cache st)" "fst ` set (is_cache st) = insert q (set qs)" "q \<notin> set qs" "distinct qs" using ok q by auto
    have d: "fst ` set (AList.delete q (is_cache st)) = set qs" "distinct (map fst (AList.delete q (is_cache st)))"
      using qc ok by (auto simp: delete_keys distinct_delete)
    have "length (AList.delete q (is_cache st)) < length (is_cache st)"
      using qc(1) by (rule length_delete(1))
    moreover have "make_room key st = st\<lparr>is_order := qs @ [key], is_cache := AList.delete q (is_cache st)\<rparr>"
      using True q by (simp add: make_room_def)
    ultimately show ?thesis using d k qc True by (auto simp: delete_conv' split: if_splits)
  qed
  then show "distinct (map fst (is_cache (make_room key st)))" "distinct (is_order (make_room key st))"
    "set (is_order (make_room key st)) = insert key (fst ` set (is_cache (make_room key st)))"
    "length (is_cache (make_room key st)) < MAX_ENTRIES" "key \<notin> fst ` set (is_cache (make_room key st))"
    "is_flights (make_room key st) = is_flights st"
    "map_of (is_cache (make_room key st)) k = Some s \<Longrightarrow> map_of (is_cache st) k = Some s" by blast+
qed

lemma length_update: "length (AList.update k v xs) = (if k \<in> fst ` set xs then length xs else Suc (length xs))"
  by (induction xs) auto

lemma state_insert_ok:
  assumes "state_ok st"
  shows "state_ok (state_insert now key shared st)" "is_flights (state_insert now key shared st) = is_flights st"
    "map_of (is_cache (state_insert now key shared st)) k = Some s \<Longrightarrow> k = key \<and> s = shared \<or> map_of (is_cache st) k = Some s"
proof -
  note ok = assms [unfolded state_ok_def]
  have "state_ok (state_insert now key shared st) \<and> is_flights (state_insert now key shared st) = is_flights st \<and>
    (map_of (is_cache (state_insert now key shared st)) k = Some s \<longrightarrow> k = key \<and> s = shared \<or> map_of (is_cache st) k = Some s)"
  proof (cases "sa_expires shared = None \<or> the (sa_expires shared) \<le> now")
    case True
    then have "state_insert now key shared st = st" by (cases "sa_expires shared") (simp_all add: state_insert_def)
    then show ?thesis using assms by simp
  next
    case False
    then obtain e where e: "sa_expires shared = Some e" "\<not> e \<le> now" by auto
    show ?thesis
    proof (cases "map_of (is_cache st) key")
      case None
      note r = make_room_ok [OF assms None]
      have "state_insert now key shared st = (make_room key st)\<lparr>is_cache := AList.update key shared (is_cache (make_room key st))\<rparr>"
        using e None by (simp add: state_insert_def Let_def)
      then show ?thesis using r(1-6) r(7) [of k s] ok
        by (auto simp: state_ok_def distinct_update dom_update length_update update_conv' split: if_splits)
    next
      case (Some c)
      then have "key \<in> fst ` set (is_cache st)" by (force dest: map_of_SomeD)
      moreover have "state_insert now key shared st = st\<lparr>is_cache := AList.update key shared (is_cache st)\<rparr>"
        using e Some by (simp add: state_insert_def)
      ultimately show ?thesis using ok
        by (auto simp: state_ok_def distinct_update dom_update length_update update_conv' split: if_splits)
    qed
  qed
  then show "state_ok (state_insert now key shared st)" "is_flights (state_insert now key shared st) = is_flights st"
    "map_of (is_cache (state_insert now key shared st)) k = Some s \<Longrightarrow> k = key \<and> s = shared \<or> map_of (is_cache st) k = Some s" by blast+
qed

lemma backed_mono: "backed cfg horizon w key s \<Longrightarrow> set (w_said w) \<subseteq> set (w_said w') \<Longrightarrow> w_clock w \<le> w_clock w' \<Longrightarrow> backed cfg horizon w' key s"
  by (fastforce simp: backed_def)

lemma justified_mono: "justified cfg w key a t \<Longrightarrow> set (w_said w) \<subseteq> set (w_said w') \<Longrightarrow> justified cfg w' key a t"
  by (fastforce simp: justified_def)

lemma current_justified:
  assumes "backed cfg horizon w key s" "w_clock w \<le> now"
  shows "justified cfg w key (into_current now s) now"
proof (cases "s = unavailable")
  case False
  then obtain response t where r: "(key, response, t) \<in> set (w_said w)" "t \<le> w_clock w" "s = shared_of cfg horizon response t"
    using assms(1) by (auto simp: backed_def)
  obtain a ttl where a: "answer_of cfg response = (a, ttl)" by (cases "answer_of cfg response")
  have "ttl = 0 \<or> now < t + ttl" if "into_current now s = Inr p" for p
    using that r(3) a by (auto simp: shared_of_def shared_new_def into_current_def split: if_splits)
  moreover have "a = Inr p" if "into_current now s = Inr p" for p
    using that r(3) a by (auto simp: shared_of_def shared_new_def into_current_def split: if_splits)
  ultimately show ?thesis using r a assms(2) unfolding justified_def by (metis le_trans)
qed (simp add: justified_def unavailable_def into_current_def)

lemma world_okD:
  assumes "world_ok cfg horizon w"
  shows "state_ok (w_state w)" "map_of (is_cache (w_state w)) key = Some s \<Longrightarrow> backed cfg horizon w key s"
    "map_of (is_flights (w_state w)) key = Some f \<longleftrightarrow> w_leader w f \<noteq> None \<and> w_key w f = Some key"
    "w_leader w f \<noteq> None \<or> w_sent w f \<noteq> None \<Longrightarrow> w_key w f \<noteq> None"
    "w_leader w f = Some (Inserted s) \<Longrightarrow> w_key w f = Some key \<Longrightarrow> backed cfg horizon w key s"
    "w_sent w f = Some s \<Longrightarrow> w_key w f = Some key \<Longrightarrow> backed cfg horizon w key s"
    "(key, f) \<in> set (w_waits w) \<Longrightarrow> w_key w f = Some key" "(key, a, t) \<in> set (w_given w) \<Longrightarrow> justified cfg w key a t"
  using assms unfolding world_ok_def by blast+

lemma world_okI:
  assumes "state_ok (w_state w)" "\<And>key s. map_of (is_cache (w_state w)) key = Some s \<Longrightarrow> backed cfg horizon w key s"
    "\<And>key f. map_of (is_flights (w_state w)) key = Some f \<longleftrightarrow> w_leader w f \<noteq> None \<and> w_key w f = Some key"
    "\<And>f. w_leader w f \<noteq> None \<or> w_sent w f \<noteq> None \<Longrightarrow> w_key w f \<noteq> None"
    "\<And>f s key. w_leader w f = Some (Inserted s) \<Longrightarrow> w_key w f = Some key \<Longrightarrow> backed cfg horizon w key s"
    "\<And>f s key. w_sent w f = Some s \<Longrightarrow> w_key w f = Some key \<Longrightarrow> backed cfg horizon w key s"
    "\<And>key f. (key, f) \<in> set (w_waits w) \<Longrightarrow> w_key w f = Some key"
    "\<And>key a t. (key, a, t) \<in> set (w_given w) \<Longrightarrow> justified cfg w key a t"
  shows "world_ok cfg horizon w"
  unfolding world_ok_def using assms by blast

text \<open>Steps that only move the clock, add a waiter or give an answer.\<close>

lemma world_ok_grow:
  assumes w: "world_ok cfg horizon w" "w_state w' = w_state w" "w_key w' = w_key w" "w_leader w' = w_leader w" "w_sent w' = w_sent w"
    and m: "w_clock w \<le> w_clock w'" "w_said w' = w_said w"
    and wt: "\<And>key f. (key, f) \<in> set (w_waits w') \<Longrightarrow> (key, f) \<in> set (w_waits w) \<or> w_key w f = Some key"
    and gv: "\<And>key a t. (key, a, t) \<in> set (w_given w') \<Longrightarrow> (key, a, t) \<in> set (w_given w) \<or> justified cfg w key a t"
  shows "world_ok cfg horizon w'"
proof -
  have b: "backed cfg horizon w key s \<Longrightarrow> backed cfg horizon w' key s" for key s using backed_mono m by (metis order_refl)
  have j: "justified cfg w key a t \<Longrightarrow> justified cfg w' key a t" for key a t using justified_mono m(2) by (metis order_refl)
  show ?thesis
  proof (rule world_okI, unfold w(2-5))
    show "state_ok (w_state w)" by (rule world_okD(1) [OF w(1)])
    show "map_of (is_cache (w_state w)) key = Some s \<Longrightarrow> backed cfg horizon w' key s" for key s by (rule b) (rule world_okD(2) [OF w(1)])
    show "map_of (is_flights (w_state w)) key = Some f \<longleftrightarrow> w_leader w f \<noteq> None \<and> w_key w f = Some key" for key f by (rule world_okD(3) [OF w(1)])
    show "w_leader w f \<noteq> None \<or> w_sent w f \<noteq> None \<Longrightarrow> w_key w f \<noteq> None" for f by (rule world_okD(4) [OF w(1)])
    show "w_leader w f = Some (Inserted s) \<Longrightarrow> w_key w f = Some key \<Longrightarrow> backed cfg horizon w' key s" for f s key by (rule b) (rule world_okD(5) [OF w(1)])
    show "w_sent w f = Some s \<Longrightarrow> w_key w f = Some key \<Longrightarrow> backed cfg horizon w' key s" for f s key by (rule b) (rule world_okD(6) [OF w(1)])
    show "(key, f) \<in> set (w_waits w') \<Longrightarrow> w_key w f = Some key" for key f using wt world_okD(7) [OF w(1)] by blast
    show "(key, a, t) \<in> set (w_given w') \<Longrightarrow> justified cfg w' key a t" for key a t using gv j world_okD(8) [OF w(1)] by blast
  qed
qed

lemma lookup_cases:
  assumes "introspect_lookup now now' key f st = (r, st')"
  shows "(\<exists>c. map_of (is_cache st) key = Some c \<and> r = Ready (into_current now' c) \<and> st' = st) \<or>
    (\<exists>g. map_of (is_flights st) key = Some g \<and> r = Wait g \<and> st' = st) \<or>
    r = Ready (Inl IntrospectionUnavailable) \<and> st' = st \<or>
    map_of (is_flights st) key = None \<and> length (is_flights st) \<noteq> MAX_ENTRIES \<and> r = Fetch f \<and>
      st' = st\<lparr>is_flights := (key, f) # is_flights st\<rparr>"
  using assms by (auto simp: introspect_lookup_def Option.bind_eq_None_conv Option.bind_eq_Some_conv split: option.splits if_splits)

lemma flights_end:
  assumes w: "world_ok cfg horizon w" and f: "w_leader w f \<noteq> None" "w_key w f = Some key"
  shows "state_ok (end_flight key (w_state w))"
    "map_of (is_flights (end_flight key (w_state w))) k = Some g \<longleftrightarrow> ((w_leader w)(f := None)) g \<noteq> None \<and> w_key w g = Some k"
proof -
  show "state_ok (end_flight key (w_state w))"
    using world_okD(1) [OF w] length_delete(2) [of key "is_flights (w_state w)"]
    by (auto simp: state_ok_def end_flight_def distinct_delete)
  have "map_of (is_flights (w_state w)) key = Some f" using f by (simp add: world_okD(3) [OF w] del: map_of_eq_Some_iff)
  then have "g = f" if "w_leader w g \<noteq> None" "w_key w g = Some key" for g using world_okD(3) [OF w, of key g] that by simp
  moreover have "map_of (is_flights (end_flight key (w_state w))) k = (if k = key then None else map_of (is_flights (w_state w)) k)"
    by (simp add: end_flight_def delete_conv')
  ultimately show "map_of (is_flights (end_flight key (w_state w))) k = Some g \<longleftrightarrow> ((w_leader w)(f := None)) g \<noteq> None \<and> w_key w g = Some k"
    using world_okD(3) [OF w, of k g] f(2) by (cases "k = key"; cases "g = f") auto
qed

lemma world_ok_fetch:
  assumes w: "world_ok cfg horizon w" and l: "introspect_lookup (w_clock w) now' key f (w_state w) = (Fetch f, st)" and f: "w_key w f = None"
  shows "world_ok cfg horizon (w\<lparr>w_state := st, w_key := (w_key w)(f \<mapsto> key), w_leader := (w_leader w)(f \<mapsto> Asking)\<rparr>)" (is "world_ok _ _ ?w")
proof -
  note d = world_okD [OF w]
  have n: "map_of (is_flights (w_state w)) key = None" "length (is_flights (w_state w)) \<noteq> MAX_ENTRIES"
    and st: "st = (w_state w)\<lparr>is_flights := (key, f) # is_flights (w_state w)\<rparr>" using lookup_cases [OF l] by auto
  have b: "backed cfg horizon ?w k s = backed cfg horizon w k s" for k s by (simp add: backed_def)
  have j: "justified cfg ?w k a t = justified cfg w k a t" for k a t by (simp add: justified_def)
  have fn: "w_leader w f = None" "w_sent w f = None" using d(4) [of f] f by blast+
  show ?thesis
  proof (rule world_okI, goal_cases)
    case 1
    have "key \<notin> fst ` set (is_flights (w_state w))" using n(1) by (simp add: map_of_eq_None_iff)
    then show ?case using d(1) n(2) by (auto simp: state_ok_def st)
  next
    case (2 k s)
    then show ?case using d(2) [of k s] unfolding b by (simp add: st)
  next
    case (3 k g)
    have "w_leader w g \<noteq> None \<and> w_key w g = Some key \<longleftrightarrow> False" for g using d(3) [of key g] n(1) by simp
    then show ?case using d(3) [of k g] fn f n(1) by (auto simp: st simp del: map_of_eq_Some_iff)
  next
    case (4 g)
    then show ?case using d(4) [of g] by (auto split: if_splits)
  next
    case (5 g s k)
    then show ?case using d(5) [of g s k] by (auto simp: b split: if_splits)
  next
    case (6 g s k)
    then show ?case using d(6) [of g s k] fn by (auto simp: b split: if_splits)
  next
    case (7 k g)
    then show ?case using d(7) [of k g] f by auto
  next
    case (8 k a t)
    then show ?case using d(8) [of k a t] by (simp add: j)
  qed
qed

lemma world_ok_insert:
  assumes w: "world_ok cfg horizon w" and f: "w_leader w f = Some Asking" "w_key w f = Some key"
    and s: "shared = shared_of cfg horizon response (w_clock w)"
  shows "world_ok cfg horizon (w\<lparr>w_state := state_insert (w_clock w) key shared (w_state w), w_leader := (w_leader w)(f \<mapsto> Inserted shared),
      w_said := (key, response, w_clock w) # w_said w\<rparr>)" (is "world_ok _ _ ?w")
proof -
  note d = world_okD [OF w]
  note i = state_insert_ok [OF d(1), of "w_clock w" key shared]
  have b: "backed cfg horizon w k s \<Longrightarrow> backed cfg horizon ?w k s" for k s by (erule backed_mono) auto
  have bs: "backed cfg horizon ?w key shared" by (auto simp: backed_def s)
  have j: "justified cfg w k a t \<Longrightarrow> justified cfg ?w k a t" for k a t by (erule justified_mono) auto
  show ?thesis
  proof (rule world_okI, goal_cases)
    case 1
    then show ?case using i(1) by simp
  next
    case (2 k s)
    then show ?case using i(3) [of k s] b d(2) bs by auto
  next
    case (3 k g)
    then show ?case using d(3) [of k g] i(2) f by (auto simp del: map_of_eq_Some_iff)
  next
    case (4 g)
    then show ?case using d(4) [of g] f by (auto split: if_splits)
  next
    case (5 g s k)
    then show ?case using d(5) [of g s k] b bs f by (auto split: if_splits)
  next
    case (6 g s k)
    then show ?case using d(6) [of g s k] b by auto
  next
    case (7 k g)
    then show ?case using d(7) [of k g] by simp
  next
    case (8 k a t)
    then show ?case using d(8) [of k a t] j by simp
  qed
qed

text \<open>A call that publishes, ends or is cancelled.\<close>

lemma world_ok_flight:
  assumes w: "world_ok cfg horizon w" and f: "w_leader w f \<noteq> None" "w_key w f = Some key"
    and st: "state_ok st" "is_cache st = is_cache (w_state w)"
      "\<And>k g. map_of (is_flights st) k = Some g \<longleftrightarrow> ((w_leader w)(f := ph)) g \<noteq> None \<and> w_key w g = Some k"
    and ph: "\<And>s. ph \<noteq> Some (Inserted s)" and snt: "sent = w_sent w \<or> (\<exists>s. backed cfg horizon w key s \<and> sent = (w_sent w)(f \<mapsto> s))"
  shows "world_ok cfg horizon (w\<lparr>w_state := st, w_leader := (w_leader w)(f := ph), w_sent := sent\<rparr>)" (is "world_ok _ _ ?w")
proof -
  note d = world_okD [OF w]
  have b: "backed cfg horizon ?w k s = backed cfg horizon w k s" for k s by (simp add: backed_def)
  have j: "justified cfg ?w k a t = justified cfg w k a t" for k a t by (simp add: justified_def)
  show ?thesis
  proof (rule world_okI, goal_cases)
    case (2 k s)
    then show ?case using d(2) st(2) by (simp add: b)
  next
    case (3 k g)
    then show ?case using st(3) by simp
  next
    case (4 g)
    then show ?case using d(4) [of g] f snt by (auto split: if_splits)
  next
    case (5 g s k)
    then show ?case using d(5) [of g s k] ph by (auto simp: b split: if_splits)
  next
    case (6 g s k)
    then show ?case using d(6) [of g s k] snt f by (auto simp: b split: if_splits)
  next
    case (7 k g)
    then show ?case using d(7) [of k g] by simp
  next
    case (8 k a t)
    then show ?case using d(8) [of k a t] by (simp add: j)
  qed (use st(1) in simp)
qed

lemma world_ok_give:
  assumes "world_ok cfg horizon w" "backed cfg horizon w key s"
  shows "world_ok cfg horizon (give key (into_current (w_clock w) s) w)"
  using current_justified [OF assms(2) order_refl] by (intro world_ok_grow [OF assms(1)]) (auto simp: give_def)

lemma world_ok_step: "ask_step cfg horizon w w' \<Longrightarrow> world_ok cfg horizon w \<Longrightarrow> world_ok cfg horizon w'"
proof (induction rule: ask_step.induct)
  case (tick w d)
  then show ?case by (elim world_ok_grow) auto
next
  case (ready w now' key f a st)
  have "(\<exists>c. map_of (is_cache (w_state w)) key = Some c \<and> a = into_current now' c) \<or> a = Inl IntrospectionUnavailable"
    using lookup_cases [OF ready(1)] by auto
  then have "justified cfg w key a now'"
    using current_justified [OF world_okD(2) [OF ready(3)] ready(2)] by (auto simp: justified_def [of _ _ _ "Inl IntrospectionUnavailable"])
  then show ?case using ready(2) by (intro world_ok_grow [OF ready(3)]) (auto simp: give_def)
next
  case (join w now' key f g st)
  have "map_of (is_flights (w_state w)) key = Some g" using lookup_cases [OF join(1)] by auto
  then have "w_key w g = Some key" using world_okD(3) [OF join(2)] by blast
  then show ?case by (intro world_ok_grow [OF join(2)]) auto
next
  case (fetch w now' key f st)
  then show ?case by (intro world_ok_fetch)
next
  case (insert w f key shared response)
  then show ?case by (intro world_ok_insert)
next
  case (publish w f shared key)
  have s: "backed cfg horizon w key shared" by (rule world_okD(5) [OF publish(3,1,2)])
  let ?w = "w\<lparr>w_state := w_state w, w_leader := (w_leader w)(f := Some Published), w_sent := (w_sent w)(f \<mapsto> shared)\<rparr>"
  have "world_ok cfg horizon ?w"
    using publish s world_okD(1,3) [OF publish(3)] by (intro world_ok_flight [OF publish(3) _ publish(2)]) (auto simp del: map_of_eq_Some_iff)
  moreover have "backed cfg horizon ?w key shared" using s by (simp add: backed_def)
  ultimately have "world_ok cfg horizon (give key (into_current (w_clock ?w) shared) ?w)" by (rule world_ok_give)
  then show ?case by (simp add: give_def)
next
  case (finished w f key)
  have "world_ok cfg horizon (w\<lparr>w_state := end_flight key (w_state w), w_leader := (w_leader w)(f := None), w_sent := w_sent w\<rparr>)"
    using finished flights_end [OF finished(3) _ finished(2)]
    by (intro world_ok_flight [OF finished(3) _ finished(2)]) (auto simp: end_flight_def simp del: map_of_eq_Some_iff)
  then show ?case by simp
next
  case (cancelled w f key)
  have "backed cfg horizon w key unavailable" by (simp add: backed_def)
  then have "world_ok cfg horizon (w\<lparr>w_state := end_flight key (w_state w), w_leader := (w_leader w)(f := None), w_sent := (w_sent w)(f \<mapsto> unavailable)\<rparr>)"
    using cancelled flights_end [OF cancelled(3) _ cancelled(2)]
    by (intro world_ok_flight [OF cancelled(3) _ cancelled(2)]) (auto simp: end_flight_def simp del: map_of_eq_Some_iff)
  then show ?case by simp
next
  case (follow key f w shared)
  show ?case by (rule world_ok_give [OF follow(3) world_okD(6) [OF follow(3,2) world_okD(7) [OF follow(3,1)]]])
qed

lemma world_ok_new: "world_ok cfg horizon world_new"
  by (simp add: world_ok_def world_new_def state_ok_def)

lemma ask_reachable_ok: "ask_reachable cfg horizon w \<Longrightarrow> world_ok cfg horizon w"
  unfolding ask_reachable_def by (induction rule: rtranclp_induct) (use world_ok_new world_ok_step in blast)+

text \<open>Only answers with a deadline are cached.\<close>

lemma state_insert_expires:
  assumes "\<And>k s. map_of (is_cache st) k = Some s \<Longrightarrow> sa_expires s \<noteq> None" "state_ok st" "map_of (is_cache (state_insert now key shared st)) k = Some s"
  shows "sa_expires s \<noteq> None"
proof (cases "sa_expires shared")
  case None
  then show ?thesis using assms(1,3) by (simp add: state_insert_def)
next
  case (Some e)
  then show ?thesis using assms(1) state_insert_ok(3) [OF assms(2,3)] by auto
qed

lemma ask_step_cache:
  "ask_step cfg horizon w w' \<Longrightarrow> is_cache (w_state w') = is_cache (w_state w) \<or> (\<exists>key s. is_cache (w_state w') = is_cache (state_insert (w_clock w) key s (w_state w)))"
  by (induction rule: ask_step.induct) (auto simp: give_def end_flight_def introspect_lookup_def split: option.splits if_splits)

lemma ask_reachable_expires:
  "ask_reachable cfg horizon w \<Longrightarrow> map_of (is_cache (w_state w)) key = Some s \<Longrightarrow> sa_expires s \<noteq> None"
  unfolding ask_reachable_def
proof (induction arbitrary: key s rule: rtranclp_induct)
  case (step w w')
  have "state_ok (w_state w)" using ask_reachable_ok [of cfg horizon w] step.hyps(1) world_okD(1) by (auto simp: ask_reachable_def)
  then show ?case using ask_step_cache [OF step.hyps(2)] state_insert_expires step.IH step.prems by metis
qed (simp add: world_new_def)

text \<open>
  C21: Whatever the interleaving of requests, calls, cancellations and the clock, no opaque token lets anyone
  in but by a response of its issuer: whoever is given a principal for a token has it from a response to
  that very token that said the token is active and named the principal and its scopes, and that arrived
  before. The lifetime of a response is the number of seconds it gives, at most the configured one,
  which is also that of a response that gives none: the principal is given out before that lifetime, from
  the arrival, has ended, or else the lifetime is zero. An answer without a lifetime is never cached, so
  that it serves only those who waited for the call. There is at most one call about a token at a time, and
  both tables are bounded.
\<close>

theorem introspection_sound:
  assumes "ask_reachable cfg horizon w"
  shows "(\<forall>key p now. (key, Inr p, now) \<in> set (w_given w) \<longrightarrow>
      (\<exists>r t ttl. (key, Inr r, t) \<in> set (w_said w) \<and> ir_active r \<and> ir_principal r = Valid (pr_name p) \<and>
        (\<exists>scopes ss. ir_scopes r = Valid scopes \<and> parse_scopes scopes = Inr ss \<and> p = token_principal (pr_name p) ss) \<and>
        (ir_ttl r = Missing \<and> ttl = cache_ttl cfg \<or> (\<exists>seconds. ir_ttl r = Valid seconds \<and> ttl = min (seconds * 10 ^ 9) (cache_ttl cfg))) \<and>
        t \<le> now \<and> (ttl = 0 \<or> now < t + ttl))) \<and>
    (\<forall>key s. map_of (is_cache (w_state w)) key = Some s \<longrightarrow> sa_expires s \<noteq> None) \<and>
    (\<forall>f g. w_leader w f \<noteq> None \<and> w_leader w g \<noteq> None \<and> w_key w f = w_key w g \<longrightarrow> f = g) \<and>
    length (is_cache (w_state w)) \<le> MAX_ENTRIES \<and> length (is_flights (w_state w)) \<le> MAX_ENTRIES"
proof (intro conjI allI impI)
  have ok: "world_ok cfg horizon w" using assms by (rule ask_reachable_ok)
  note d = world_okD [OF ok]
  show "length (is_cache (w_state w)) \<le> MAX_ENTRIES" "length (is_flights (w_state w)) \<le> MAX_ENTRIES" using d(1) by (simp_all add: state_ok_def)
  show "sa_expires s \<noteq> None" if "map_of (is_cache (w_state w)) key = Some s" for key s using ask_reachable_expires [OF assms that] .
  {
    fix f g
    assume "w_leader w f \<noteq> None \<and> w_leader w g \<noteq> None \<and> w_key w f = w_key w g"
    moreover from this obtain key where "w_key w f = Some key" using d(4) [of f] by blast
    ultimately show "f = g" using d(3) [of key f] d(3) [of key g] by simp
  }
  fix key p now
  assume "(key, Inr p, now) \<in> set (w_given w)"
  then obtain response t ttl where r: "(key, response, t) \<in> set (w_said w)" "answer_of cfg response = (Inr p, ttl)" "t \<le> now" "ttl = 0 \<or> now < t + ttl"
    using d(8) unfolding justified_def by blast
  then obtain r where "response = Inr r" and pr: "parse_response (cache_ttl cfg) r = (Some p, ttl)"
    by (auto simp: answer_of_def split: sum.splits prod.splits option.splits)
  moreover have "ir_active r \<and> ir_principal r = Valid (pr_name p) \<and>
      (\<exists>scopes ss. ir_scopes r = Valid scopes \<and> parse_scopes scopes = Inr ss \<and> p = token_principal (pr_name p) ss) \<and>
      (ir_ttl r = Missing \<and> ttl = cache_ttl cfg \<or> (\<exists>seconds. ir_ttl r = Valid seconds \<and> ttl = min (seconds * 10 ^ 9) (cache_ttl cfg)))"
    using pr by (auto simp: parse_response_def Let_def token_principal_def split: if_splits response_field.splits sum.splits prod.splits option.splits)
  ultimately show "\<exists>r t ttl. (key, Inr r, t) \<in> set (w_said w) \<and> ir_active r \<and> ir_principal r = Valid (pr_name p) \<and>
        (\<exists>scopes ss. ir_scopes r = Valid scopes \<and> parse_scopes scopes = Inr ss \<and> p = token_principal (pr_name p) ss) \<and>
        (ir_ttl r = Missing \<and> ttl = cache_ttl cfg \<or> (\<exists>seconds. ir_ttl r = Valid seconds \<and> ttl = min (seconds * 10 ^ 9) (cache_ttl cfg))) \<and>
        t \<le> now \<and> (ttl = 0 \<or> now < t + ttl)"
    using r by blast
qed

text \<open>A request asks about a token, the issuer knows it, and the request is answered.\<close>

definition demo_cfg :: introspect_config where
  "demo_cfg = \<lparr>cache_ttl = 30, negative_cache_ttl = 3\<rparr>"

definition demo_response :: introspection_response where
  "demo_response = \<lparr>ir_active = True, ir_principal = Valid ''alice'', ir_scopes = Valid [], ir_ttl = Missing\<rparr>"

definition demo_shared :: shared_answer where
  "demo_shared = \<lparr>sa_answer = Inr (token_principal ''alice'' []), sa_expires = Some 30\<rparr>"

definition demo_asking :: introspect_world where
  "demo_asking = world_new\<lparr>w_state := \<lparr>is_cache = [], is_order = [], is_flights = [(''t'', 0)]\<rparr>, w_key := [0 \<mapsto> ''t''], w_leader := [0 \<mapsto> Asking]\<rparr>"

definition demo_inserted :: introspect_world where
  "demo_inserted = demo_asking\<lparr>w_state := state_insert 0 ''t'' demo_shared (w_state demo_asking), w_leader := (w_leader demo_asking)(0 \<mapsto> Inserted demo_shared),
     w_said := [(''t'', Inr demo_response, 0)]\<rparr>"

definition demo_answered :: introspect_world where
  "demo_answered = give ''t'' (into_current 0 demo_shared)
     (demo_inserted\<lparr>w_leader := (w_leader demo_inserted)(0 \<mapsto> Published), w_sent := (w_sent demo_inserted)(0 \<mapsto> demo_shared)\<rparr>)"

lemma demo_run: "ask_reachable demo_cfg 1000 demo_answered"
proof -
  have "ask_step demo_cfg 1000 world_new demo_asking"
    using ask_step.fetch [of world_new 0 "''t''" 0 "\<lparr>is_cache = [], is_order = [], is_flights = [(''t'', 0)]\<rparr>" demo_cfg 1000]
    by (simp add: demo_asking_def world_new_def introspect_lookup_def MAX_ENTRIES_def)
  moreover have "ask_step demo_cfg 1000 demo_asking demo_inserted"
    using ask_step.insert [of demo_asking 0 "''t''" demo_shared demo_cfg 1000 "Inr demo_response"]
    by (simp add: demo_inserted_def) (simp add: demo_asking_def world_new_def shared_of_def answer_of_def parse_response_def demo_response_def
        demo_cfg_def shared_new_def demo_shared_def parse_scopes.simps)
  moreover have "ask_step demo_cfg 1000 demo_inserted demo_answered"
  proof -
    have i: "w_leader demo_inserted 0 = Some (Inserted demo_shared)" "w_key demo_inserted 0 = Some ''t''" "w_clock demo_inserted = 0"
      by (simp_all add: demo_inserted_def demo_asking_def world_new_def)
    from ask_step.publish [OF i(1,2), of demo_cfg 1000] show ?thesis unfolding demo_answered_def i(3) .
  qed
  ultimately show ?thesis
    unfolding ask_reachable_def by (blast intro: rtranclp.rtrancl_into_rtrancl rtranclp.rtrancl_refl)
qed

theorem introspection_sound_witness:
  "(''t'', Inr (token_principal ''alice'' []), 0) \<in> set (w_given demo_answered) \<and>
   (\<exists>r t ttl. (''t'', Inr r, t) \<in> set (w_said demo_answered) \<and> ir_active r \<and>
      (ir_ttl r = Missing \<and> ttl = 30 \<or> (\<exists>seconds. ir_ttl r = Valid seconds \<and> ttl = min (seconds * 10 ^ 9) 30)) \<and> t \<le> 0 \<and> (ttl = 0 \<or> 0 < t + ttl))"
proof -
  have "(''t'', Inr (token_principal ''alice'' []), 0) \<in> set (w_given demo_answered)"
    by (simp add: demo_answered_def give_def into_current_def demo_shared_def demo_inserted_def demo_asking_def world_new_def)
  moreover have "cache_ttl demo_cfg = 30" by (simp add: demo_cfg_def)
  ultimately show ?thesis using introspection_sound [OF demo_run] by metis
qed

end
