(* ===== verification/Wal_Tasks.thy ===== *)
theory Wal_Tasks
  imports Gitcask_Prelude "HOL-Library.AList" "HOL-Library.Multiset"
begin

text \<open>
  The registry of background tasks (\<open>gitcask-wal/src/tasks.rs\<close>), the progress they report
  (\<open>progress.rs\<close>) and the record of waits for locks (\<open>lockwait.rs\<close>). Every operation is a definition;
  those that hold several locks in turn are also cut into their sections, and \<open>reg_step\<close> interleaves
  the sections of any number of callers. Shown: one task of a kind per repository, bounded histories,
  results that are there before the signal, and what a subscriber receives. Times, ids and host names
  are arguments. The spans, counters and log lines of the program are left out,
  and so is the suspension of a caller that waits: a waiter sees the flag of the state.
\<close>

section \<open>Progress (progress.rs)\<close>

text \<open>
  A progress bar. The percentage is the exact rational, rounded to a tenth, where the program has a
  double.
\<close>

record bar =
  bar_label :: string
  bar_done :: nat
  bar_total :: "nat option"
  bar_unit :: string
  bar_percent :: "rat option"

definition mk_bar :: "string \<Rightarrow> nat \<Rightarrow> nat option \<Rightarrow> string \<Rightarrow> bar" where
  "mk_bar label dn tot unit =
     \<lparr>bar_label = label, bar_done = dn, bar_total = tot, bar_unit = unit,
      bar_percent = (case tot of Some t \<Rightarrow> if 0 < t then Some (of_int \<lfloor>of_nat dn / of_nat t * 1000 + 1 / 2\<rfloor> / 10) else None
                     | None \<Rightarrow> None)\<rparr>"

text \<open>The record of a task. Only bars are stored as its latest progress.\<close>

record task_record =
  tr_id :: string
  tr_kind :: string
  tr_repo :: string
  tr_hostname :: string
  tr_started :: string
  tr_finished :: "string option"
  tr_elapsed_ms :: nat
  tr_ok :: "bool option"
  tr_summary :: string
  tr_progress :: "bar option"
  tr_log_tail :: "string list"
  tr_params :: "(string \<times> string) list"

datatype progress = Notice string | Progress bar | Task task_record

definition event_name :: "progress \<Rightarrow> string" where
  "event_name p = (case p of Notice _ \<Rightarrow> ''notice'' | Progress _ \<Rightarrow> ''progress'' | Task _ \<Rightarrow> ''task'')"

definition record_running :: "task_record \<Rightarrow> bool" where
  "record_running r \<longleftrightarrow> tr_ok r = None"

text \<open>The limiter of progress updates: the time of the last one, and whether one is due now.\<close>

definition throttle_tick :: "nat \<Rightarrow> bool \<Rightarrow> nat \<Rightarrow> nat option \<Rightarrow> bool \<times> nat option" where
  "throttle_tick min_interval force now lst =
     (if force \<or> (case lst of Some t \<Rightarrow> min_interval \<le> now - t | None \<Rightarrow> True) then (True, Some now) else (False, lst))"

section \<open>A task (tasks.rs)\<close>

definition KEEP_RECORDS :: nat where "KEEP_RECORDS = 30"
definition KEEP_RECORDS_TOTAL :: nat where "KEEP_RECORDS_TOTAL = 10000"
definition KEEP_LOG :: nat where "KEEP_LOG = 60"
definition REPLAY :: nat where "REPLAY = 200"
definition CHANNEL :: nat where "CHANNEL = 1024"

text \<open>
  A finished task: its record with a value, or a status with a message. \<open>'v\<close> is the type of the values.
\<close>

type_synonym 'v outcome = "(nat \<times> string, task_record \<times> 'v option) result"

text \<open>
  The state of a task. A broadcast channel is the list of what has been sent: a receiver gets what comes
  after its subscription, and of what it has not yet read the channel holds the latest only, up to its capacity. Whether the job can be interrupted is whether a handle to it is registered.
\<close>

record 'v task_state =
  ts_record :: task_record
  ts_replay :: "progress list"
  ts_sent :: "progress list"
  ts_outcome :: "'v outcome option"
  ts_done :: bool
  ts_abort :: bool

definition set_abort_handle :: "'v task_state \<Rightarrow> 'v task_state" where
  "set_abort_handle s = s\<lparr>ts_abort := True\<rparr>"

text \<open>Publishing: into the record, into the replay buffer, and to the subscribers.\<close>

definition publish_record :: "nat \<Rightarrow> progress \<Rightarrow> 'v task_state \<Rightarrow> 'v task_state" where
  "publish_record elapsed p s =
     (let rec = ts_record s;
          rec1 = (case p of
                    Notice txt \<Rightarrow>
                      (let tail = tr_log_tail rec @ [txt]
                       in rec\<lparr>tr_log_tail := if KEEP_LOG < length tail then tl tail else tail\<rparr>)
                  | Progress b \<Rightarrow> rec\<lparr>tr_progress := Some b\<rparr>
                  | Task _ \<Rightarrow> rec)
      in s\<lparr>ts_record := rec1\<lparr>tr_elapsed_ms := elapsed\<rparr>\<rparr>)"

definition same_bar :: "progress \<Rightarrow> progress \<Rightarrow> bool" where
  "same_bar p q = (case (p, q) of (Progress a, Progress b) \<Rightarrow> bar_label a = bar_label b | _ \<Rightarrow> False)"

text \<open>The buffer keeps the latest bar of a label, and no more than its bound.\<close>

definition push_replay :: "progress list \<Rightarrow> progress \<Rightarrow> progress list" where
  "push_replay replay p =
     (let kept = filter (\<lambda>q. \<not> same_bar p q) replay @ [p] in drop (length kept - REPLAY) kept)"

definition publish_replay :: "progress \<Rightarrow> 'v task_state \<Rightarrow> 'v task_state" where
  "publish_replay p s = s\<lparr>ts_replay := push_replay (ts_replay s) p\<rparr>"

definition publish_send :: "progress \<Rightarrow> 'v task_state \<Rightarrow> 'v task_state" where
  "publish_send p s = s\<lparr>ts_sent := ts_sent s @ [p]\<rparr>"

definition publish :: "nat \<Rightarrow> progress \<Rightarrow> 'v task_state \<Rightarrow> 'v task_state" where
  "publish elapsed p s = publish_send p (publish_replay p (publish_record elapsed p s))"

text \<open>Attaching: the replay so far, the position in the channel from which packets arrive, the outcome.\<close>

definition attach :: "'v task_state \<Rightarrow> progress list \<times> nat \<times> 'v outcome option" where
  "attach s = (ts_replay s, length (ts_sent s), ts_outcome s)"

text \<open>What a receiver that has read up to a position can still get: one that lags behind skips to the oldest packet held.\<close>

definition received :: "nat \<Rightarrow> 'v task_state \<Rightarrow> progress list" where
  "received pos s = drop (max pos (length (ts_sent s) - CHANNEL)) (ts_sent s)"

section \<open>The registry (tasks.rs)\<close>

record history =
  recent :: "string \<Rightarrow> string list option"
  by_id :: "string list"
  repo_order :: "string list"

text \<open>Shared states are found by their id in \<open>states\<close>.\<close>

record 'v tasks =
  states :: "string \<Rightarrow> 'v task_state option"
  running :: "((string \<times> string) \<times> string) list"
  history :: history

definition tasks_new :: "'v tasks" where
  "tasks_new = \<lparr>states = (\<lambda>i. None), running = [], history = \<lparr>recent = (\<lambda>r. None), by_id = [], repo_order = []\<rparr>\<rparr>"

definition new_record :: "string \<Rightarrow> string \<Rightarrow> string \<Rightarrow> string \<Rightarrow> string \<Rightarrow> (string \<times> string) list \<Rightarrow> task_record" where
  "new_record i kind rp host now params =
     \<lparr>tr_id = i, tr_kind = kind, tr_repo = rp, tr_hostname = host, tr_started = now, tr_finished = None, tr_elapsed_ms = 0,
      tr_ok = None, tr_summary = ''running'', tr_progress = None, tr_log_tail = [], tr_params = params\<rparr>"

definition new_state :: "task_record \<Rightarrow> 'v task_state" where
  "new_state rec = \<lparr>ts_record = rec, ts_replay = [], ts_sent = [], ts_outcome = None, ts_done = False, ts_abort = False\<rparr>"

datatype begin_result = Started string | AlreadyRunning string

text \<open>The section under the lock of the running tasks. The record carries a fresh id.\<close>

definition begin_lock :: "task_record \<Rightarrow> 'v tasks \<Rightarrow> begin_result \<times> 'v tasks" where
  "begin_lock rec t =
     (let key = (tr_repo rec, tr_kind rec)
      in case map_of (running t) key of
           Some existing \<Rightarrow> (AlreadyRunning existing, t)
         | None \<Rightarrow>
             (Started (tr_id rec),
              t\<lparr>states := (states t)(tr_id rec \<mapsto> new_state rec), running := AList.update key (tr_id rec) (running t)\<rparr>))"

text \<open>The section under the lock of the history: the newest record in, old ones out.\<close>

fun evict_loop :: "(string \<Rightarrow> string list option) \<Rightarrow> string list \<Rightarrow> string list \<Rightarrow> history" where
  "evict_loop rc ids [] = \<lparr>recent = rc, by_id = ids, repo_order = []\<rparr>"
| "evict_loop rc ids (oldest # order) =
     (if KEEP_RECORDS_TOTAL < length ids then
        (case rc oldest of
           Some olds \<Rightarrow> evict_loop (rc(oldest := None)) (foldl (\<lambda>ids x. removeAll x ids) ids olds) order
         | None \<Rightarrow> evict_loop rc ids order)
      else \<lparr>recent = rc, by_id = ids, repo_order = oldest # order\<rparr>)"

definition begin_history :: "string \<Rightarrow> string \<Rightarrow> history \<Rightarrow> history" where
  "begin_history rp i h =
     (let ids1 = (if i \<in> set (by_id h) then by_id h else by_id h @ [i]);
          order = removeAll rp (repo_order h) @ [rp];
          q = or_default [] (recent h rp) @ [i];
          (q1, ids2) = (if KEEP_RECORDS < length q then (tl q, removeAll (hd q) ids1) else (q, ids1))
      in evict_loop ((recent h)(rp \<mapsto> q1)) ids2 order)"

text \<open>The whole call. A task's start and end also go to the channel of its repository, if there is one.\<close>

definition send_to :: "progress \<Rightarrow> progress list option \<Rightarrow> progress list option" where
  "send_to p ch = map_option (\<lambda>sent. sent @ [p]) ch"

definition tasks_begin :: "task_record \<Rightarrow> progress list option \<Rightarrow> 'v tasks \<Rightarrow> begin_result \<times> progress list option \<times> 'v tasks" where
  "tasks_begin rec ch t =
     (case begin_lock rec t of
        (AlreadyRunning i, t1) \<Rightarrow> (AlreadyRunning i, ch, t1)
      | (Started i, t1) \<Rightarrow> (Started i, send_to (Task rec) ch, t1\<lparr>history := begin_history (tr_repo rec) i (history t1)\<rparr>))"

text \<open>Finishing, in the order of its sections.\<close>

definition upd_state :: "string \<Rightarrow> ('v task_state \<Rightarrow> 'v task_state) \<Rightarrow> 'v tasks \<Rightarrow> 'v tasks" where
  "upd_state i f t = t\<lparr>states := (states t)(i := map_option f (states t i))\<rparr>"

type_synonym 'v verdict = "(nat \<times> string, string \<times> 'v option) result"

definition finish_record :: "string \<Rightarrow> nat \<Rightarrow> 'v verdict \<Rightarrow> task_record \<Rightarrow> task_record" where
  "finish_record now elapsed v rec =
     (let rec1 = rec\<lparr>tr_finished := Some now, tr_elapsed_ms := elapsed\<rparr>
      in case v of
           Inr (summary, _) \<Rightarrow> rec1\<lparr>tr_ok := Some True, tr_summary := summary\<rparr>
         | Inl (_, msg) \<Rightarrow> rec1\<lparr>tr_ok := Some False, tr_summary := msg\<rparr>)"

definition finish_mark :: "string \<Rightarrow> string \<Rightarrow> nat \<Rightarrow> 'v verdict \<Rightarrow> 'v tasks \<Rightarrow> 'v tasks" where
  "finish_mark i now elapsed v t = upd_state i (\<lambda>s. s\<lparr>ts_record := finish_record now elapsed v (ts_record s)\<rparr>) t"

definition finish_unlock :: "task_record \<Rightarrow> 'v tasks \<Rightarrow> 'v tasks" where
  "finish_unlock rec t = t\<lparr>running := AList.delete (tr_repo rec, tr_kind rec) (running t)\<rparr>"

definition finish_outcome :: "string \<Rightarrow> task_record \<Rightarrow> 'v verdict \<Rightarrow> 'v tasks \<Rightarrow> 'v tasks" where
  "finish_outcome i rec v t =
     upd_state i (\<lambda>s. s\<lparr>ts_outcome := Some (case v of Inr (_, val) \<Rightarrow> Inr (rec, val) | Inl e \<Rightarrow> Inl e)\<rparr>) t"

definition finish_done :: "string \<Rightarrow> 'v tasks \<Rightarrow> 'v tasks" where
  "finish_done i t = upd_state i (\<lambda>s. s\<lparr>ts_done := True\<rparr>) t"

text \<open>The whole call, uninterrupted: the record at its first section is what the later ones use.\<close>

definition finish :: "string \<Rightarrow> string \<Rightarrow> nat \<Rightarrow> 'v verdict \<Rightarrow> progress list option \<Rightarrow> 'v tasks \<Rightarrow>
    task_record option \<times> progress list option \<times> 'v tasks" where
  "finish i now elapsed v ch t =
     (case states t i of
        None \<Rightarrow> (None, ch, t)
      | Some s \<Rightarrow>
          (let rec = finish_record now elapsed v (ts_record s);
               t1 = finish_done i (finish_outcome i rec v (finish_unlock rec (finish_mark i now elapsed v t)))
           in (Some rec, send_to (Task rec) ch, upd_state i (publish elapsed (Task rec)) t1)))"

text \<open>A reporter writes into a task, a channel, both or neither.\<close>

record reporter =
  rep_task :: "string option"
  rep_repo :: bool

definition reporter_send :: "nat \<Rightarrow> reporter \<Rightarrow> progress \<Rightarrow> progress list option \<Rightarrow> 'v tasks \<Rightarrow> progress list option \<times> 'v tasks" where
  "reporter_send elapsed r p ch t =
     (if rep_repo r then send_to p ch else ch, case rep_task r of Some i \<Rightarrow> upd_state i (publish elapsed p) t | None \<Rightarrow> t)"

text \<open>A handle dropped before it finished. The two flags of a shutdown.\<close>

record drain_flags =
  DRAINING :: bool
  SHUTTING_DOWN :: bool

definition begin_drain :: "drain_flags \<Rightarrow> drain_flags" where
  "begin_drain f = f\<lparr>DRAINING := True\<rparr>"

definition begin_shutdown :: "drain_flags \<Rightarrow> drain_flags" where
  "begin_shutdown f = f\<lparr>DRAINING := True, SHUTTING_DOWN := True\<rparr>"

definition shutting_down :: "drain_flags \<Rightarrow> bool" where
  "shutting_down f = SHUTTING_DOWN f"

definition draining :: "drain_flags \<Rightarrow> bool" where
  "draining f \<longleftrightarrow> DRAINING f \<or> shutting_down f"

definition INTERRUPTED :: string where
  "INTERRUPTED = ''interrupted: instance shut down; will be retried by the next pass''"

definition drop_verdict :: "drain_flags \<Rightarrow> 'v verdict" where
  "drop_verdict f = Inl (if draining f then (503, INTERRUPTED) else (500, ''task dropped before completion''))"

text \<open>Queries. The order of the running tasks is that of their start, where the program has that of a hash table.\<close>

definition tasks_get :: "string \<Rightarrow> 'v tasks \<Rightarrow> 'v task_state option" where
  "tasks_get i t = (if i \<in> set (by_id (history t)) then states t i else None)"

definition tasks_recent :: "string \<Rightarrow> 'v tasks \<Rightarrow> task_record list" where
  "tasks_recent rp t = map ts_record (List.map_filter (states t) (rev (or_default [] (recent (history t) rp))))"

definition tasks_running :: "string \<Rightarrow> 'v tasks \<Rightarrow> task_record list" where
  "tasks_running rp t = map ts_record (List.map_filter (states t) (map snd (filter (\<lambda>e. fst (fst e) = rp) (running t))))"

definition running_count :: "'v tasks \<Rightarrow> nat" where
  "running_count t = length (running t)"

definition running_all :: "'v tasks \<Rightarrow> task_record list" where
  "running_all t = map ts_record (List.map_filter (states t) (map snd (running t)))"

definition tasks_last :: "string \<Rightarrow> string \<Rightarrow> 'v tasks \<Rightarrow> task_record option" where
  "tasks_last rp kind t = find (\<lambda>r. tr_kind r = kind \<and> tr_ok r \<noteq> None) (tasks_recent rp t)"

definition interrupt_where :: "(string \<Rightarrow> bool) \<Rightarrow> 'v tasks \<Rightarrow> (string \<times> string) list" where
  "interrupt_where pred t =
     map (\<lambda>s. (tr_repo (ts_record s), tr_kind (ts_record s)))
       (filter (\<lambda>s. pred (tr_kind (ts_record s)) \<and> ts_abort s) (List.map_filter (states t) (map snd (running t))))"


section \<open>The history stays bounded\<close>

text \<open>
  The lists by repository and the index by id hold the same tasks, every task once, every list within
  its bound, and the order names the repositories that have a list.
\<close>

definition hist_parts_ok :: "(string \<Rightarrow> string list option) \<Rightarrow> string list \<Rightarrow> string list \<Rightarrow> bool" where
  "hist_parts_ok rc ids order \<longleftrightarrow>
     distinct order \<and> set order = dom rc \<and> distinct ids \<and> set ids = (\<Union>q \<in> ran rc. set q) \<and>
     (\<forall>r q. rc r = Some q \<longrightarrow> distinct q \<and> length q \<le> KEEP_RECORDS) \<and>
     (\<forall>r r' q q'. rc r = Some q \<longrightarrow> rc r' = Some q' \<longrightarrow> r \<noteq> r' \<longrightarrow> set q \<inter> set q' = {})"

definition hist_ok :: "history \<Rightarrow> bool" where
  "hist_ok h \<longleftrightarrow> hist_parts_ok (recent h) (by_id h) (repo_order h)"

lemma foldl_removeAll: "foldl (\<lambda>ids x. removeAll x ids) ids xs = filter (\<lambda>i. i \<notin> set xs) ids"
  by (induction xs arbitrary: ids) (auto simp: removeAll_filter_not_eq intro: filter_cong)

lemma hist_parts_drop:
  assumes "hist_parts_ok rc ids (r # order)" "rc r = Some q"
  shows "hist_parts_ok (rc(r := None)) (filter (\<lambda>i. i \<notin> set q) ids) order"
proof -
  have o: "distinct order" "r \<notin> set order" "insert r (set order) = dom rc" and i: "distinct ids" "set ids = (\<Union>q \<in> ran rc. set q)"
    and q: "\<forall>r q. rc r = Some q \<longrightarrow> distinct q \<and> length q \<le> KEEP_RECORDS"
    and d: "\<forall>r r' q q'. rc r = Some q \<longrightarrow> rc r' = Some q' \<longrightarrow> r \<noteq> r' \<longrightarrow> set q \<inter> set q' = {}"
    using assms(1) by (auto simp: hist_parts_ok_def)
  have "set (filter (\<lambda>i. i \<notin> set q) ids) = (\<Union>p \<in> ran (rc(r := None)). set p)"
  proof (intro set_eqI iffI)
    fix x
    assume "x \<in> set (filter (\<lambda>i. i \<notin> set q) ids)"
    then obtain r' p where p: "rc r' = Some p" "x \<in> set p" "x \<notin> set q" using i(2) by (auto simp: ran_def)
    then have "r' \<noteq> r" using assms(2) by auto
    with p show "x \<in> (\<Union>p \<in> ran (rc(r := None)). set p)" by (auto simp: ran_def intro!: exI [of _ p] exI [of _ r'])
  next
    fix x
    assume "x \<in> (\<Union>p \<in> ran (rc(r := None)). set p)"
    then obtain r' p where "r' \<noteq> r" "rc r' = Some p" "x \<in> set p" by (auto simp: ran_def split: if_splits)
    moreover from this have "x \<notin> set q" using d assms(2) by blast
    ultimately show "x \<in> set (filter (\<lambda>i. i \<notin> set q) ids)" using i(2) by (auto simp: ran_def)
  qed
  moreover have "set order = dom (rc(r := None))" using o by auto
  ultimately show ?thesis using o i q d unfolding hist_parts_ok_def by (auto split: if_splits)
qed

lemma evict_loop_ok:
  assumes "hist_parts_ok rc ids order"
  shows "hist_ok (evict_loop rc ids order)" "length (by_id (evict_loop rc ids order)) \<le> KEEP_RECORDS_TOTAL"
    and "order \<noteq> [] \<Longrightarrow> recent (evict_loop rc ids order) (last order) = rc (last order)"
proof -
  have "hist_ok (evict_loop rc ids order) \<and> length (by_id (evict_loop rc ids order)) \<le> KEEP_RECORDS_TOTAL \<and>
      (order \<noteq> [] \<longrightarrow> recent (evict_loop rc ids order) (last order) = rc (last order))"
    using assms
  proof (induction order arbitrary: rc ids)
    case Nil
    then have "dom rc = {}" by (auto simp: hist_parts_ok_def)
    then have "rc = Map.empty" by simp
    with Nil have "ids = []" by (simp add: hist_parts_ok_def)
    with Nil show ?case by (simp add: hist_ok_def)
  next
    case (Cons r order)
    show ?case
    proof (cases "KEEP_RECORDS_TOTAL < length ids")
      case True
      have "r \<in> dom rc" using Cons.prems by (auto simp: hist_parts_ok_def)
      then obtain q where q: "rc r = Some q" by blast
      have "order \<noteq> []"
      proof
        assume "order = []"
        then have "dom rc = {r}" using Cons.prems by (auto simp: hist_parts_ok_def)
        then have "\<And>a. a \<noteq> r \<Longrightarrow> rc a = None" by blast
        then have "ran rc = {q}" using q by (auto simp: ran_def) (metis option.distinct(1) option.inject)
        then have "set ids = set q" "distinct ids" "distinct q" "length q \<le> KEEP_RECORDS"
          using Cons.prems q by (auto simp: hist_parts_ok_def)
        then have "length ids \<le> KEEP_RECORDS" by (metis distinct_card)
        with True show False by (simp add: KEEP_RECORDS_def KEEP_RECORDS_TOTAL_def)
      qed
      moreover have "r \<noteq> last order" using Cons.prems \<open>order \<noteq> []\<close> by (auto simp: hist_parts_ok_def)
      ultimately show ?thesis
        using Cons.IH [OF hist_parts_drop [OF Cons.prems q]] True q by (simp add: foldl_removeAll fun_upd_def)
    qed (use Cons.prems in \<open>simp add: hist_ok_def\<close>)
  qed
  then show "hist_ok (evict_loop rc ids order)" "length (by_id (evict_loop rc ids order)) \<le> KEEP_RECORDS_TOTAL"
    "order \<noteq> [] \<Longrightarrow> recent (evict_loop rc ids order) (last order) = rc (last order)" by blast+
qed

text \<open>A new task enters a history that is in order: it stays in order and within its bounds, and has the new task.\<close>

definition others :: "(string \<Rightarrow> string list option) \<Rightarrow> string \<Rightarrow> string set" where
  "others rc rp = {x. \<exists>r p. r \<noteq> rp \<and> rc r = Some p \<and> x \<in> set p}"

lemma ran_upd: "(\<Union>p \<in> ran (rc(rp \<mapsto> q)). set p) = set q \<union> others rc rp"
  by (auto simp: ran_def others_def)

lemma ran_split: "(\<Union>p \<in> ran rc. set p) = set (or_default [] (rc rp)) \<union> others rc rp"
  by (auto simp: ran_def others_def or_default_def split: option.splits) (metis option.inject option.distinct(1))+

lemma hist_parts_upd:
  assumes "hist_parts_ok rc ids order" "distinct q" "length q \<le> KEEP_RECORDS" "distinct ids'"
    and "set ids' = set q \<union> others rc rp" "set q \<inter> others rc rp = {}"
  shows "hist_parts_ok (rc(rp \<mapsto> q)) ids' (removeAll rp order @ [rp])"
  unfolding hist_parts_ok_def ran_upd
proof (intro conjI allI impI)
  show "distinct (removeAll rp order @ [rp])" "set (removeAll rp order @ [rp]) = dom (rc(rp \<mapsto> q))"
    using assms(1) by (auto simp: hist_parts_ok_def distinct_removeAll)
  show "distinct ids'" "set ids' = set q \<union> others rc rp" by fact+
  fix r p
  assume p: "(rc(rp \<mapsto> q)) r = Some p"
  then show "distinct p" "length p \<le> KEEP_RECORDS"
    using assms(1-3) by (auto simp: hist_parts_ok_def split: if_splits)
  fix r' p'
  assume p': "(rc(rp \<mapsto> q)) r' = Some p'" "r \<noteq> r'"
  have d: "rc r = Some p \<Longrightarrow> rc r' = Some p' \<Longrightarrow> set p \<inter> set p' = {}"
    using assms(1) p'(2) by (auto simp: hist_parts_ok_def)
  have o: "rc x = Some y \<Longrightarrow> x \<noteq> rp \<Longrightarrow> set y \<subseteq> others rc rp" for x y by (auto simp: others_def)
  show "set p \<inter> set p' = {}"
    using p p' d o [of r p] o [of r' p'] assms(6) by (cases "r = rp"; cases "r' = rp") auto
qed

lemma hist_parts_enter:
  assumes h: "hist_parts_ok rc ids order" and i: "i \<notin> set ids" and q: "q = or_default [] (rc rp)"
  shows "length q < KEEP_RECORDS \<Longrightarrow> hist_parts_ok (rc(rp \<mapsto> q @ [i])) (ids @ [i]) (removeAll rp order @ [rp])"
    and "length q = KEEP_RECORDS \<Longrightarrow>
      hist_parts_ok (rc(rp \<mapsto> tl (q @ [i]))) (removeAll (hd (q @ [i])) (ids @ [i])) (removeAll rp order @ [rp])"
proof -
  have ids: "distinct ids" "set ids = set q \<union> others rc rp"
    using h ran_split [of rc rp] q by (auto simp: hist_parts_ok_def)
  have dq: "distinct q" using h q by (auto simp: hist_parts_ok_def or_default_def split: option.splits)
  have out: "set q \<inter> others rc rp = {}"
  proof (cases "rc rp")
    case (Some p)
    with q have "q = p" by (simp add: or_default_def)
    moreover have "set p \<inter> set p' = {}" if "rc r = Some p'" "r \<noteq> rp" for r p'
      using h Some that by (auto simp: hist_parts_ok_def)
    ultimately show ?thesis by (auto simp: others_def)
  qed (simp add: q or_default_def)
  show "hist_parts_ok (rc(rp \<mapsto> q @ [i])) (ids @ [i]) (removeAll rp order @ [rp])" if "length q < KEEP_RECORDS"
    using that i ids dq out by (intro hist_parts_upd [OF h]) auto
  assume len: "length q = KEEP_RECORDS"
  then obtain a b where ab: "q = a # b" by (cases q) (auto simp: KEEP_RECORDS_def)
  show "hist_parts_ok (rc(rp \<mapsto> tl (q @ [i]))) (removeAll (hd (q @ [i])) (ids @ [i])) (removeAll rp order @ [rp])"
    using len i ids dq out ab by (intro hist_parts_upd [OF h]) (auto simp: distinct_removeAll)
qed

lemma evict_loop_subset: "set (by_id (evict_loop rc ids order)) \<subseteq> set ids"
proof (induction rc ids order rule: evict_loop.induct)
  case (2 rc ids oldest order)
  then show ?case by (auto simp: foldl_removeAll fun_upd_def split: option.splits)
qed simp

lemma begin_history_ok:
  assumes "hist_ok h" "i \<notin> set (by_id h)"
  shows "hist_ok (begin_history rp i h)" "length (by_id (begin_history rp i h)) \<le> KEEP_RECORDS_TOTAL"
    "i \<in> set (by_id (begin_history rp i h))" "set (by_id (begin_history rp i h)) \<subseteq> insert i (set (by_id h))"
proof -
  define q where "q = or_default [] (recent h rp)"
  define big where "big \<longleftrightarrow> KEEP_RECORDS < length (q @ [i])"
  define q1 where "q1 = (if big then tl (q @ [i]) else q @ [i])"
  define ids where "ids = (if big then removeAll (hd (q @ [i])) (by_id h @ [i]) else by_id h @ [i])"
  define order where "order = removeAll rp (repo_order h) @ [rp]"
  have e: "begin_history rp i h = evict_loop ((recent h)(rp \<mapsto> q1)) ids order"
    using assms(2) by (simp add: begin_history_def q1_def ids_def big_def order_def Let_def q_def)
  have h: "hist_parts_ok (recent h) (by_id h) (repo_order h)" using assms(1) by (simp add: hist_ok_def)
  have "length q \<le> KEEP_RECORDS" using h by (auto simp: q_def or_default_def hist_parts_ok_def split: option.splits)
  then have ok: "hist_parts_ok ((recent h)(rp \<mapsto> q1)) ids order"
    using hist_parts_enter [OF h assms(2) q_def] by (auto simp: q1_def ids_def order_def big_def)
  show ok': "hist_ok (begin_history rp i h)" and "length (by_id (begin_history rp i h)) \<le> KEEP_RECORDS_TOTAL"
    unfolding e using evict_loop_ok [OF ok] by blast+
  have "recent (begin_history rp i h) rp = Some q1" using evict_loop_ok(3) [OF ok] by (simp add: e order_def)
  moreover have "i \<in> set q1" by (cases q) (auto simp: q1_def big_def KEEP_RECORDS_def)
  ultimately show "i \<in> set (by_id (begin_history rp i h))" using ok' by (auto simp: hist_ok_def hist_parts_ok_def ran_def)
  show "set (by_id (begin_history rp i h)) \<subseteq> insert i (set (by_id h))"
    unfolding e using evict_loop_subset [of "(recent h)(rp \<mapsto> q1)" ids order] by (auto simp: ids_def split: if_splits)
qed


section \<open>Interleavings\<close>

text \<open>
  Any number of callers begin, report to and finish tasks. Each holds a lock for one section at a time:
  a step is one section, and a handle remembers how far its call has come. A finishing call keeps
  the record it marked and the verdict.
\<close>

datatype 'v task_phase = Registering | Live | Marked task_record "'v verdict" | Unlocked task_record "'v verdict" | Resulted | Finished

record 'v registry =
  rg_tasks :: "'v tasks"
  rg_phase :: "string \<Rightarrow> 'v task_phase option"

definition registry_new :: "'v registry" where
  "registry_new = \<lparr>rg_tasks = tasks_new, rg_phase = (\<lambda>i. None)\<rparr>"

definition to_phase :: "string \<Rightarrow> 'v task_phase \<Rightarrow> 'v tasks \<Rightarrow> 'v registry \<Rightarrow> 'v registry" where
  "to_phase i p t w = w\<lparr>rg_tasks := t, rg_phase := (rg_phase w)(i \<mapsto> p)\<rparr>"

text \<open>Ids are universally unique: the id of a new record has not been used.\<close>

inductive reg_step :: "'v registry \<Rightarrow> 'v registry \<Rightarrow> bool" where
  start: "rec = new_record i kind rp host now params \<Longrightarrow> rg_phase w i = None \<Longrightarrow>
    begin_lock rec (rg_tasks w) = (Started i, t) \<Longrightarrow> reg_step w (to_phase i Registering t w)"
| register: "rg_phase w i = Some Registering \<Longrightarrow> states (rg_tasks w) i = Some s \<Longrightarrow>
    reg_step w (to_phase i Live
      ((rg_tasks w)\<lparr>history := begin_history (tr_repo (ts_record s)) i (history (rg_tasks w))\<rparr>) w)"
| report_record: "rg_phase w i = Some p \<Longrightarrow>
    reg_step w (w\<lparr>rg_tasks := upd_state i (publish_record e x) (rg_tasks w)\<rparr>)"
| report_replay: "rg_phase w i = Some p \<Longrightarrow> reg_step w (w\<lparr>rg_tasks := upd_state i (publish_replay x) (rg_tasks w)\<rparr>)"
| report_send: "rg_phase w i = Some p \<Longrightarrow> reg_step w (w\<lparr>rg_tasks := upd_state i (publish_send x) (rg_tasks w)\<rparr>)"
| abort_handle: "rg_phase w i = Some p \<Longrightarrow> reg_step w (w\<lparr>rg_tasks := upd_state i set_abort_handle (rg_tasks w)\<rparr>)"
| mark: "rg_phase w i = Some Live \<Longrightarrow> states (rg_tasks w) i = Some s \<Longrightarrow> rec = finish_record now e v (ts_record s) \<Longrightarrow>
    reg_step w (to_phase i (Marked rec v) (finish_mark i now e v (rg_tasks w)) w)"
| unlock: "rg_phase w i = Some (Marked rec v) \<Longrightarrow> reg_step w (to_phase i (Unlocked rec v) (finish_unlock rec (rg_tasks w)) w)"
| result: "rg_phase w i = Some (Unlocked rec v) \<Longrightarrow> reg_step w (to_phase i Resulted (finish_outcome i rec v (rg_tasks w)) w)"
| signal: "rg_phase w i = Some Resulted \<Longrightarrow> reg_step w (to_phase i Finished (finish_done i (rg_tasks w)) w)"

definition reg_reachable :: "'v registry \<Rightarrow> bool" where
  "reg_reachable w \<longleftrightarrow> reg_step\<^sup>*\<^sup>* registry_new w"

text \<open>A task holds its key from its start until it is taken off the running tasks.\<close>

definition task_holds :: "'v registry \<Rightarrow> string \<Rightarrow> bool" where
  "task_holds w i \<longleftrightarrow> (case rg_phase w i of Some Registering \<Rightarrow> True | Some Live \<Rightarrow> True | Some (Marked rec v) \<Rightarrow> True | _ \<Rightarrow> False)"

definition task_key :: "'v task_state \<Rightarrow> string \<times> string" where
  "task_key s = (tr_repo (ts_record s), tr_kind (ts_record s))"

definition phase_agrees :: "'v task_phase \<Rightarrow> 'v task_state \<Rightarrow> bool" where
  "phase_agrees p s =
     (case p of
        Registering \<Rightarrow> tr_ok (ts_record s) = None \<and> ts_outcome s = None \<and> \<not> ts_done s
      | Live \<Rightarrow> tr_ok (ts_record s) = None \<and> ts_outcome s = None \<and> \<not> ts_done s
      | Marked rec v \<Rightarrow> task_key s = (tr_repo rec, tr_kind rec) \<and> tr_ok (ts_record s) = Some (\<not> isl v) \<and> ts_outcome s = None \<and> \<not> ts_done s
      | Unlocked rec v \<Rightarrow> tr_ok (ts_record s) = Some (\<not> isl v) \<and> ts_outcome s = None \<and> \<not> ts_done s
      | Resulted \<Rightarrow> tr_ok (ts_record s) \<noteq> None \<and> ts_outcome s \<noteq> None \<and> \<not> ts_done s
      | Finished \<Rightarrow> tr_ok (ts_record s) \<noteq> None \<and> ts_outcome s \<noteq> None \<and> ts_done s)"

definition reg_ok :: "'v registry \<Rightarrow> bool" where
  "reg_ok w \<longleftrightarrow>
     (\<forall>i. (rg_phase w i = None) = (states (rg_tasks w) i = None)) \<and>
     (\<forall>i s p. states (rg_tasks w) i = Some s \<longrightarrow> rg_phase w i = Some p \<longrightarrow> tr_id (ts_record s) = i \<and> phase_agrees p s) \<and>
     (\<forall>k i. map_of (running (rg_tasks w)) k = Some i \<longleftrightarrow>
        task_holds w i \<and> (\<exists>s. states (rg_tasks w) i = Some s \<and> task_key s = k)) \<and>
     distinct (map fst (running (rg_tasks w))) \<and>
     hist_ok (history (rg_tasks w)) \<and> length (by_id (history (rg_tasks w))) \<le> KEEP_RECORDS_TOTAL \<and>
     (\<forall>i \<in> set (by_id (history (rg_tasks w))). rg_phase w i \<noteq> None \<and> rg_phase w i \<noteq> Some Registering)"

text \<open>A section that changes the state of one task but neither its id nor its key.\<close>

lemma reg_ok_upd_state:
  assumes w: "reg_ok w" and i: "rg_phase w i = Some p"
    and f: "\<And>s. states (rg_tasks w) i = Some s \<Longrightarrow> phase_agrees p s \<Longrightarrow>
      task_key (f s) = task_key s \<and> tr_id (ts_record (f s)) = tr_id (ts_record s) \<and> phase_agrees p' (f s)"
    and h: "task_holds w i = task_holds (w\<lparr>rg_phase := (rg_phase w)(i \<mapsto> p')\<rparr>) i" "p' \<noteq> Registering \<or> p = Registering"
  shows "reg_ok (to_phase i p' (upd_state i f (rg_tasks w)) w)"
proof -
  let ?w = "to_phase i p' (upd_state i f (rg_tasks w)) w"
  obtain s where s: "states (rg_tasks w) i = Some s" using w i unfolding reg_ok_def by (metis not_None_eq)
  have a: "tr_id (ts_record s) = i" "phase_agrees p s" using w s i by (auto simp: reg_ok_def)
  note fs = f [OF s a(2)]
  have hold: "task_holds ?w j = task_holds w j" for j using h(1) by (cases "j = i") (auto simp: task_holds_def to_phase_def)
  have st: "states (rg_tasks ?w) j = (if j = i then Some (f s) else states (rg_tasks w) j)" for j
    using s by (simp add: to_phase_def upd_state_def)
  have key: "(\<exists>x. states (rg_tasks ?w) j = Some x \<and> task_key x = k) = (\<exists>x. states (rg_tasks w) j = Some x \<and> task_key x = k)" for j k
    unfolding st using s fs by auto
  have ph: "rg_phase ?w j = (if j = i then Some p' else rg_phase w j)" for j by (simp add: to_phase_def)
  have rest: "running (rg_tasks ?w) = running (rg_tasks w)" "history (rg_tasks ?w) = history (rg_tasks w)"
    by (simp_all add: to_phase_def upd_state_def)
  show ?thesis
    unfolding reg_ok_def rest hold key
    using w i s fs a h(2) unfolding reg_ok_def by (auto simp: st ph split: if_splits)
qed


lemma to_phase_same: "rg_phase w i = Some p \<Longrightarrow> to_phase i p t w = w\<lparr>rg_tasks := t\<rparr>"
  by (simp add: to_phase_def fun_upd_idem)

lemma reg_ok_report:
  assumes "reg_ok w" "rg_phase w i = Some p"
    and "\<And>s. task_key (f s) = task_key s \<and> tr_id (ts_record (f s)) = tr_id (ts_record s) \<and> tr_ok (ts_record (f s)) = tr_ok (ts_record s) \<and>
      ts_outcome (f s) = ts_outcome s \<and> ts_done (f s) = ts_done s"
  shows "reg_ok (w\<lparr>rg_tasks := upd_state i f (rg_tasks w)\<rparr>)"
proof -
  have "reg_ok (to_phase i p (upd_state i f (rg_tasks w)) w)"
    using assms by (intro reg_ok_upd_state [OF assms(1,2)]) (auto simp: phase_agrees_def fun_upd_idem split: task_phase.splits)
  then show ?thesis using to_phase_same [OF assms(2)] by metis
qed

lemma publish_record_keeps:
  "task_key (publish_record e x s) = task_key s" "tr_id (ts_record (publish_record e x s)) = tr_id (ts_record s)"
  "tr_ok (ts_record (publish_record e x s)) = tr_ok (ts_record s)" "ts_outcome (publish_record e x s) = ts_outcome s"
  "ts_done (publish_record e x s) = ts_done s"
  by (simp_all add: publish_record_def task_key_def Let_def split: progress.splits)

lemma reg_ok_start:
  assumes w: "reg_ok w" and rec: "rec = new_record i kind rp host now params" and i: "rg_phase w i = None"
    and b: "begin_lock rec (rg_tasks w) = (Started i, t)"
  shows "reg_ok (to_phase i Registering t w)"
proof -
  let ?w = "to_phase i Registering t w"
  have n: "map_of (running (rg_tasks w)) (rp, kind) = None"
    and t: "t = (rg_tasks w)\<lparr>states := (states (rg_tasks w))(i \<mapsto> new_state rec),
      running := AList.update (rp, kind) i (running (rg_tasks w))\<rparr>"
    using b rec by (auto simp: begin_lock_def new_record_def Let_def split: option.splits)
  have st: "states (rg_tasks w) i = None" and h: "i \<notin> set (by_id (history (rg_tasks w)))"
    using w i unfolding reg_ok_def by blast+
  have k: "task_key (new_state rec) = (rp, kind)" "tr_id (ts_record (new_state rec)) = i" "phase_agrees Registering (new_state rec)"
    by (simp_all add: rec task_key_def new_state_def new_record_def phase_agrees_def)
  have ph: "rg_phase ?w j = (if j = i then Some Registering else rg_phase w j)" for j by (simp add: to_phase_def)
  have hold: "task_holds ?w j \<longleftrightarrow> j = i \<or> task_holds w j" for j by (simp add: task_holds_def ph)
  have s: "states (rg_tasks ?w) j = (if j = i then Some (new_state rec) else states (rg_tasks w) j)" for j
    by (simp add: to_phase_def t)
  have r: "map_of (running (rg_tasks ?w)) k = (if k = (rp, kind) then Some i else map_of (running (rg_tasks w)) k)" for k
    by (simp add: to_phase_def t update_conv')
  have run: "map_of (running (rg_tasks ?w)) k = Some j \<longleftrightarrow>
      task_holds ?w j \<and> (\<exists>x. states (rg_tasks ?w) j = Some x \<and> task_key x = k)" for k j
  proof -
    have old: "map_of (running (rg_tasks w)) k = Some j \<longleftrightarrow> task_holds w j \<and> (\<exists>x. states (rg_tasks w) j = Some x \<and> task_key x = k)"
      for k j using w unfolding reg_ok_def by blast
    show ?thesis unfolding r hold s using old [of k j] old [of "(rp, kind)" j] n st k(1) by auto
  qed
  have "distinct (map fst (running (rg_tasks ?w)))" using w by (simp add: to_phase_def t reg_ok_def distinct_update)
  moreover have "history (rg_tasks ?w) = history (rg_tasks w)" by (simp add: to_phase_def t)
  ultimately show ?thesis
    using w run h i k st unfolding reg_ok_def by (auto simp: s ph simp del: map_of_eq_Some_iff)
qed

lemma reg_ok_register:
  assumes w: "reg_ok w" and i: "rg_phase w i = Some Registering" "states (rg_tasks w) i = Some s"
  shows "reg_ok (to_phase i Live ((rg_tasks w)\<lparr>history := begin_history (tr_repo (ts_record s)) i (history (rg_tasks w))\<rparr>) w)"
    (is "reg_ok ?w")
proof -
  let ?h = "history (rg_tasks w)"
  have h: "hist_ok ?h" "i \<notin> set (by_id ?h)" using w i unfolding reg_ok_def by blast+
  note b = begin_history_ok [OF h, of "tr_repo (ts_record s)"]
  have ph: "rg_phase ?w j = (if j = i then Some Live else rg_phase w j)" for j by (simp add: to_phase_def)
  have hold: "task_holds ?w j = task_holds w j" for j using i by (simp add: task_holds_def ph)
  have "phase_agrees Registering s" and ti: "tr_id (ts_record s) = i" using w i unfolding reg_ok_def by blast+
  then have ag: "phase_agrees Live s" by (simp add: phase_agrees_def)
  have st: "states (rg_tasks ?w) = states (rg_tasks w)" "running (rg_tasks ?w) = running (rg_tasks w)"
    "history (rg_tasks ?w) = begin_history (tr_repo (ts_record s)) i ?h" by (simp_all add: to_phase_def)
  have ids: "\<forall>j \<in> set (by_id (begin_history (tr_repo (ts_record s)) i ?h)). rg_phase ?w j \<noteq> None \<and> rg_phase ?w j \<noteq> Some Registering"
  proof
    fix j
    assume "j \<in> set (by_id (begin_history (tr_repo (ts_record s)) i ?h))"
    then have "j = i \<or> j \<in> set (by_id ?h)" using b(4) by auto
    then show "rg_phase ?w j \<noteq> None \<and> rg_phase ?w j \<noteq> Some Registering"
      using w unfolding reg_ok_def by (auto simp: ph)
  qed
  show ?thesis
    unfolding reg_ok_def st hold using w b ids ag ti i unfolding reg_ok_def by (auto simp: ph simp del: map_of_eq_Some_iff split: if_splits)
qed

lemma reg_ok_unlock:
  assumes w: "reg_ok w" and i: "rg_phase w i = Some (Marked rec v)"
  shows "reg_ok (to_phase i (Unlocked rec v) (finish_unlock rec (rg_tasks w)) w)" (is "reg_ok ?w")
proof -
  obtain s where s: "states (rg_tasks w) i = Some s" using w i unfolding reg_ok_def by (metis not_None_eq)
  have "phase_agrees (Marked rec v) s" and ti: "tr_id (ts_record s) = i" using w s i unfolding reg_ok_def by blast+
  then have ag: "phase_agrees (Unlocked rec v) s" and tk: "task_key s = (tr_repo rec, tr_kind rec)" by (simp_all add: phase_agrees_def)
  have ph: "rg_phase ?w j = (if j = i then Some (Unlocked rec v) else rg_phase w j)" for j by (simp add: to_phase_def)
  have hold: "task_holds ?w j \<longleftrightarrow> j \<noteq> i \<and> task_holds w j" for j by (simp add: task_holds_def ph)
  have st: "states (rg_tasks ?w) = states (rg_tasks w)" "history (rg_tasks ?w) = history (rg_tasks w)"
    "running (rg_tasks ?w) = AList.delete (task_key s) (running (rg_tasks w))"
    using s tk by (simp_all add: to_phase_def finish_unlock_def)
  have old: "map_of (running (rg_tasks w)) k = Some j \<longleftrightarrow> task_holds w j \<and> (\<exists>x. states (rg_tasks w) j = Some x \<and> task_key x = k)"
    for k j using w unfolding reg_ok_def by blast
  have "map_of (running (rg_tasks w)) (task_key s) = Some i" using old [of "task_key s" i] i s by (simp add: task_holds_def)
  then have run: "map_of (running (rg_tasks ?w)) k = Some j \<longleftrightarrow>
      task_holds ?w j \<and> (\<exists>x. states (rg_tasks ?w) j = Some x \<and> task_key x = k)" for k j
    unfolding st hold delete_conv' using old [of k j] old [of "task_key s" j] s by auto
  show ?thesis
    using w run ag ti i s unfolding reg_ok_def by (auto simp: st ph distinct_delete simp del: map_of_eq_Some_iff split: if_splits)
qed

lemma reg_step_ok: "reg_step w w' \<Longrightarrow> reg_ok w \<Longrightarrow> reg_ok w'"
proof (induction rule: reg_step.induct)
  case (start rec i kind rp host now params w t)
  then show ?case using reg_ok_start by blast
next
  case (register w i s)
  then show ?case using reg_ok_register by blast
next
  case (report_record w i p e x)
  then show ?case by (intro reg_ok_report) (simp_all add: publish_record_keeps)
next
  case (report_replay w i p x)
  then show ?case by (intro reg_ok_report) (simp_all add: publish_replay_def task_key_def)
next
  case (report_send w i p x)
  then show ?case by (intro reg_ok_report) (simp_all add: publish_send_def task_key_def)
next
  case (abort_handle w i p)
  then show ?case by (intro reg_ok_report) (simp_all add: set_abort_handle_def task_key_def)
next
  case (mark w i s rec now e v)
  then show ?case unfolding finish_mark_def
    by (intro reg_ok_upd_state [where p = Live])
      (auto simp: phase_agrees_def finish_record_def task_key_def task_holds_def Let_def split: sum.splits prod.splits)
next
  case (unlock w i rec v)
  then show ?case using reg_ok_unlock by blast
next
  case (result w i rec v)
  then show ?case unfolding finish_outcome_def
    by (intro reg_ok_upd_state [where p = "Unlocked rec v"]) (auto simp: phase_agrees_def task_key_def task_holds_def)
next
  case (signal w i)
  then show ?case unfolding finish_done_def
    by (intro reg_ok_upd_state [where p = Resulted]) (auto simp: phase_agrees_def task_key_def task_holds_def)
qed

lemma reg_ok_new: "reg_ok registry_new"
  by (simp add: reg_ok_def registry_new_def tasks_new_def task_holds_def hist_ok_def hist_parts_ok_def)

lemma reachable_ok: "reg_reachable w \<Longrightarrow> reg_ok w"
  unfolding reg_reachable_def
  by (induction rule: rtranclp_induct) (use reg_ok_new reg_step_ok in blast)+


lemmas reachable_facts = reachable_ok [unfolded reg_ok_def]

lemma reachable_running:
  "reg_reachable w \<Longrightarrow> map_of (running (rg_tasks w)) k = Some i \<longleftrightarrow>
    task_holds w i \<and> (\<exists>s. states (rg_tasks w) i = Some s \<and> task_key s = k)"
  using reachable_facts by blast

lemma reachable_phase:
  "reg_reachable w \<Longrightarrow> states (rg_tasks w) i = Some s \<Longrightarrow> \<exists>p. rg_phase w i = Some p \<and> tr_id (ts_record s) = i \<and> phase_agrees p s"
  using reachable_facts [of w] by (metis option.exhaust option.distinct(1))

lemma holds_state: "reg_reachable w \<Longrightarrow> task_holds w i \<Longrightarrow> \<exists>s. states (rg_tasks w) i = Some s"
  using reachable_facts [of w] by (metis task_holds_def option.exhaust option.simps(4))

lemma holds_unique:
  assumes w: "reg_reachable w" and h: "task_holds w i" "task_holds w j"
    and k: "map_option task_key (states (rg_tasks w) i) = map_option task_key (states (rg_tasks w) j)"
  shows "i = j"
proof -
  obtain s s' where s: "states (rg_tasks w) i = Some s" "states (rg_tasks w) j = Some s'" using holds_state [OF w] h by blast
  then have "map_of (running (rg_tasks w)) (task_key s) = Some i" "map_of (running (rg_tasks w)) (task_key s) = Some j"
    using k h by (auto simp: reachable_running [OF w] simp del: map_of_eq_Some_iff)
  then show ?thesis by simp
qed

text \<open>
  C25: However many callers race, at most one task of a kind runs on a repository, from the moment it is
  started until it is taken off the running tasks. A caller is told that a task is already running
  exactly when one is, and it is told which.
\<close>

theorem single_flight:
  assumes "reg_reachable w"
  shows "(\<forall>rec i. fst (begin_lock rec (rg_tasks w)) = AlreadyRunning i \<longleftrightarrow>
      task_holds w i \<and> (\<exists>s. states (rg_tasks w) i = Some s \<and> task_key s = (tr_repo rec, tr_kind rec))) \<and>
    (\<forall>i j. task_holds w i \<and> task_holds w j \<and> map_option task_key (states (rg_tasks w) i) = map_option task_key (states (rg_tasks w) j) \<longrightarrow> i = j)"
proof (intro conjI allI impI)
  fix rec i
  show "fst (begin_lock rec (rg_tasks w)) = AlreadyRunning i \<longleftrightarrow>
      task_holds w i \<and> (\<exists>s. states (rg_tasks w) i = Some s \<and> task_key s = (tr_repo rec, tr_kind rec))"
    unfolding reachable_running [OF assms, symmetric] by (simp add: begin_lock_def Let_def split: option.splits)
qed (use holds_unique [OF assms] in blast)

text \<open>
  C28: The records of past tasks stay bounded: at most 10000 in all and 30 of a repository, whatever is
  begun and in whatever order. The index by id has exactly the tasks of the repositories' lists, each
  once, and a lookup by id gives the task with that id.
\<close>

theorem history_bounded:
  assumes "reg_reachable w"
  shows "length (by_id (history (rg_tasks w))) \<le> 10000 \<and>
    (\<forall>rp q. recent (history (rg_tasks w)) rp = Some q \<longrightarrow> length q \<le> 30 \<and> distinct q) \<and>
    (\<forall>i. i \<in> set (by_id (history (rg_tasks w))) \<longleftrightarrow> (\<exists>rp q. recent (history (rg_tasks w)) rp = Some q \<and> i \<in> set q)) \<and>
    (\<forall>i \<in> set (by_id (history (rg_tasks w))). \<exists>s. tasks_get i (rg_tasks w) = Some s \<and> tr_id (ts_record s) = i)"
proof -
  note f = reachable_facts [OF assms]
  have h: "hist_parts_ok (recent (history (rg_tasks w))) (by_id (history (rg_tasks w))) (repo_order (history (rg_tasks w)))"
    using f by (simp add: hist_ok_def)
  have "\<exists>s. tasks_get i (rg_tasks w) = Some s \<and> tr_id (ts_record s) = i" if i: "i \<in> set (by_id (history (rg_tasks w)))" for i
  proof -
    have "rg_phase w i \<noteq> None" using f i by blast
    then obtain s where s: "states (rg_tasks w) i = Some s" using f by (metis option.exhaust)
    then show ?thesis using i reachable_phase [OF assms s] by (auto simp: tasks_get_def)
  qed
  moreover have "length (by_id (history (rg_tasks w))) \<le> 10000" using f by (simp add: KEEP_RECORDS_TOTAL_def)
  moreover have "\<forall>rp q. recent (history (rg_tasks w)) rp = Some q \<longrightarrow> length q \<le> 30 \<and> distinct q"
    using h by (auto simp: hist_parts_ok_def KEEP_RECORDS_def)
  moreover have "\<forall>i. i \<in> set (by_id (history (rg_tasks w))) \<longleftrightarrow> (\<exists>rp q. recent (history (rg_tasks w)) rp = Some q \<and> i \<in> set q)"
    using h by (auto simp: hist_parts_ok_def ran_def)
  ultimately show ?thesis by blast
qed

text \<open>
  The signal that a task is done is not given before its result is there: whoever sees it finds an
  outcome, and a record that says whether the task succeeded. A task that is not marked as ended has
  neither, and still holds its place among the running tasks.
\<close>

theorem done_means_outcome:
  assumes w: "reg_reachable w" and s: "states (rg_tasks w) i = Some s"
  shows "(ts_done s \<longrightarrow> ts_outcome s \<noteq> None \<and> \<not> record_running (ts_record s) \<and> map_of (running (rg_tasks w)) (task_key s) \<noteq> Some i) \<and>
    (record_running (ts_record s) \<longrightarrow> ts_outcome s = None \<and> \<not> ts_done s \<and> map_of (running (rg_tasks w)) (task_key s) = Some i)"
proof -
  obtain p where p: "rg_phase w i = Some p" and ag: "phase_agrees p s" using reachable_phase [OF w s] by blast
  show ?thesis
    using p ag s by (cases p) (simp_all add: reachable_running [OF w] phase_agrees_def record_running_def task_holds_def del: map_of_eq_Some_iff)
qed

text \<open>A run: a task is begun on a repository, finds its place in the history, and comes to its end.\<close>

definition demo_record :: task_record where
  "demo_record = new_record ''1'' ''fsck'' ''a/b'' ''host'' ''t0'' []"

definition demo_live :: "nat registry" where
  "demo_live =
     (let w = to_phase ''1'' Registering (snd (begin_lock demo_record tasks_new)) registry_new
      in to_phase ''1'' Live ((rg_tasks w)\<lparr>history := begin_history ''a/b'' ''1'' (history (rg_tasks w))\<rparr>) w)"

definition demo_done :: "nat registry" where
  "demo_done =
     (let v = Inr (''clean'', Some 7); rec = finish_record ''t1'' 5 v demo_record;
          w1 = to_phase ''1'' (Marked rec v) (finish_mark ''1'' ''t1'' 5 v (rg_tasks demo_live)) demo_live;
          w2 = to_phase ''1'' (Unlocked rec v) (finish_unlock rec (rg_tasks w1)) w1;
          w3 = to_phase ''1'' Resulted (finish_outcome ''1'' rec v (rg_tasks w2)) w2
      in to_phase ''1'' Finished (finish_done ''1'' (rg_tasks w3)) w3)"

lemma reachable_step: "reg_reachable w \<Longrightarrow> reg_step w w' \<Longrightarrow> reg_reachable w'"
  unfolding reg_reachable_def by (rule rtranclp.rtrancl_into_rtrancl)

lemmas demo_simps = demo_record_def new_record_def begin_lock_def tasks_new_def registry_new_def to_phase_def new_state_def

lemma demo_live_reachable: "reg_reachable demo_live"
proof -
  let ?w = "to_phase ''1'' Registering (snd (begin_lock demo_record tasks_new)) registry_new :: nat registry"
  have "reg_step registry_new ?w" by (rule reg_step.start [where i = "''1''"], rule demo_record_def) (simp_all add: demo_simps)
  then have "reg_reachable ?w" by (auto simp: reg_reachable_def)
  moreover have "reg_step ?w demo_live"
    using reg_step.register [of ?w "''1''" "new_state demo_record"] by (simp add: demo_live_def Let_def) (simp add: demo_simps)
  ultimately show ?thesis by (rule reachable_step)
qed

lemma demo_live_state: "states (rg_tasks demo_live) ''1'' = Some (new_state demo_record)" "rg_phase demo_live ''1'' = Some Live"
  by (simp_all add: demo_live_def Let_def demo_simps)

lemma demo_done_reachable: "reg_reachable demo_done"
proof -
  define v :: "nat verdict" where "v = Inr (''clean'', Some 7)"
  define rec where "rec = finish_record ''t1'' 5 v demo_record"
  define w1 where "w1 = to_phase ''1'' (Marked rec v) (finish_mark ''1'' ''t1'' 5 v (rg_tasks demo_live)) demo_live"
  define w2 where "w2 = to_phase ''1'' (Unlocked rec v) (finish_unlock rec (rg_tasks w1)) w1"
  define w3 where "w3 = to_phase ''1'' Resulted (finish_outcome ''1'' rec v (rg_tasks w2)) w2"
  have "reg_step demo_live w1" unfolding w1_def
    by (rule reg_step.mark [OF demo_live_state(2,1)]) (simp add: rec_def new_state_def)
  then have "reg_reachable w1" using demo_live_reachable reachable_step by blast
  moreover have "reg_step w1 w2" unfolding w2_def by (rule reg_step.unlock) (simp add: w1_def to_phase_def)
  moreover have "reg_step w2 w3" unfolding w3_def by (rule reg_step.result) (simp add: w2_def to_phase_def)
  moreover have "reg_step w3 (to_phase ''1'' Finished (finish_done ''1'' (rg_tasks w3)) w3)"
    by (rule reg_step.signal) (simp add: w3_def to_phase_def)
  moreover have "demo_done = to_phase ''1'' Finished (finish_done ''1'' (rg_tasks w3)) w3"
    by (simp add: demo_done_def Let_def v_def rec_def w1_def w2_def w3_def)
  ultimately show ?thesis using reachable_step by simp blast
qed

theorem single_flight_witness:
  "reg_reachable demo_live \<and> fst (begin_lock (demo_record\<lparr>tr_id := ''2''\<rparr>) (rg_tasks demo_live)) = AlreadyRunning ''1''"
  using single_flight [OF demo_live_reachable] demo_live_reachable
  by (auto simp: task_holds_def demo_live_state task_key_def new_state_def)

theorem history_bounded_witness:
  "reg_reachable demo_live \<and> by_id (history (rg_tasks demo_live)) = [''1''] \<and>
   (\<exists>s. tasks_get ''1'' (rg_tasks demo_live) = Some s \<and> tr_id (ts_record s) = ''1'')"
proof -
  have "by_id (history (rg_tasks demo_live)) = [''1'']"
    by (simp add: demo_live_def Let_def demo_simps begin_history_def or_default_def KEEP_RECORDS_def KEEP_RECORDS_TOTAL_def)
  then show ?thesis using history_bounded [OF demo_live_reachable] demo_live_reachable by (metis list.set_intros(1))
qed

theorem done_means_outcome_witness:
  "\<exists>s. reg_reachable demo_done \<and> states (rg_tasks demo_done) ''1'' = Some s \<and> ts_done s \<and> ts_outcome s \<noteq> None"
proof -
  obtain s where s: "states (rg_tasks demo_done) ''1'' = Some s" "ts_done s"
    by (simp add: demo_done_def Let_def to_phase_def finish_done_def upd_state_def finish_outcome_def finish_unlock_def finish_mark_def demo_live_state)
  then show ?thesis using done_means_outcome [OF demo_done_reachable s(1)] demo_done_reachable by blast
qed

section \<open>Attaching to a task while it reports\<close>

text \<open>
  Publishing has two sections that a subscriber can see: into the buffer under its lock, then to the
  channel after the lock is released. An attach holds the lock of the buffer, so it falls between the
  sections of whatever is being published. A schedule is a sequence of sections in which a packet is sent
  after it has been buffered; \<open>pub_pending\<close> has the packets in between.
\<close>

datatype pub_event = Push progress | Send progress

definition pub_step :: "pub_event \<Rightarrow> 'v task_state \<Rightarrow> 'v task_state" where
  "pub_step e s = (case e of Push p \<Rightarrow> publish_replay p s | Send p \<Rightarrow> publish_send p s)"

fun pub_pending :: "progress multiset \<Rightarrow> pub_event list \<Rightarrow> progress multiset option" where
  "pub_pending m [] = Some m"
| "pub_pending m (Push p # es) = pub_pending (add_mset p m) es"
| "pub_pending m (Send p # es) = (if p \<in># m then pub_pending (m - {#p#}) es else None)"

fun pub_pushes :: "pub_event list \<Rightarrow> progress list" where
  "pub_pushes [] = []"
| "pub_pushes (Push p # es) = p # pub_pushes es"
| "pub_pushes (Send p # es) = pub_pushes es"

fun sends :: "pub_event list \<Rightarrow> progress list" where
  "sends [] = []"
| "sends (Push p # es) = sends es"
| "sends (Send p # es) = p # sends es"

lemma pending_append: "pub_pending m (es @ es') = Option.bind (pub_pending m es) (\<lambda>m'. pub_pending m' es')"
  by (induction m es rule: pub_pending.induct) auto

lemma pending_balance: "pub_pending m es = Some m' \<Longrightarrow> mset (sends es) + m' = m + mset (pub_pushes es)"
proof (induction m es rule: pub_pending.induct)
  case (3 m p es)
  then have p: "p \<in># m" and "mset (sends es) + m' = m - {#p#} + mset (pub_pushes es)" by (auto split: if_splits)
  moreover have "add_mset p (m - {#p#}) = m" using p by simp
  ultimately show ?case by (metis add_mset_add_single mset.simps(2) pub_pushes.simps(3) sends.simps(3) union_mset_add_mset_left)
qed auto

lemma fold_pub_step:
  "ts_sent (fold pub_step es s) = ts_sent s @ sends es"
  "ts_replay (fold pub_step es s) = foldl push_replay (ts_replay s) (pub_pushes es)"
  "ts_outcome (fold pub_step es s) = ts_outcome s"
  by (induction es arbitrary: s rule: pub_pushes.induct) (simp_all add: pub_step_def publish_send_def publish_replay_def)

text \<open>The packets but for the bars that a later bar of the same label replaces.\<close>

fun unsuperseded :: "progress list \<Rightarrow> progress list" where
  "unsuperseded [] = []"
| "unsuperseded (p # ps) = (if list_ex (\<lambda>q. same_bar q p) ps then unsuperseded ps else p # unsuperseded ps)"

lemma unsuperseded_snoc: "unsuperseded (ps @ [p]) = filter (\<lambda>q. \<not> same_bar p q) (unsuperseded ps) @ [p]"
  by (induction ps) auto

lemma unsuperseded_length: "length (unsuperseded ps) \<le> length ps"
  by (induction ps) auto

lemma suffix_filter: "suffix xs ys \<Longrightarrow> suffix (filter P xs) (filter P ys)"
  by (auto simp: suffix_def)

lemma suffix_last: "suffix xs ys \<Longrightarrow> length xs \<le> n \<Longrightarrow> suffix xs (drop (length ys - n) ys)"
  by (auto simp: suffix_def)

lemma replay_exact:
  "suffix (foldl push_replay [] ps) (unsuperseded ps)" "length (foldl push_replay [] ps) \<le> REPLAY"
  "suffix (unsuperseded (drop (length ps - REPLAY) ps)) (foldl push_replay [] ps)"
proof (induction ps rule: rev_induct)
  case (snoc p ps)
  let ?b = "foldl push_replay [] ps" and ?kept = "filter (\<lambda>q. \<not> same_bar p q) (foldl push_replay [] ps) @ [p]"
  have b: "foldl push_replay [] (ps @ [p]) = drop (length ?kept - REPLAY) ?kept" by (simp add: push_replay_def Let_def)
  {
    case 1
    have "suffix ?kept (unsuperseded (ps @ [p]))" unfolding unsuperseded_snoc using suffix_filter [OF snoc(1)] by simp
    then show ?case unfolding b using suffix_drop suffix_order.trans by blast
  next
    case 2
    then show ?case unfolding b by (simp add: REPLAY_def)
  next
    case 3
    define xs where "xs = drop (Suc (length ps) - REPLAY) ps"
    have "suffix (unsuperseded xs) (unsuperseded (drop (length ps - REPLAY) ps))"
    proof (cases "length ps < REPLAY")
      case False
      then have "xs = tl (drop (length ps - REPLAY) ps)" by (simp add: xs_def drop_Suc drop_tl Suc_diff_le)
      then show ?thesis by (cases "drop (length ps - REPLAY) ps") (auto simp: suffix_def)
    qed (simp add: xs_def)
    then have "suffix (unsuperseded xs) ?b" using snoc(3) suffix_order.trans by blast
    then have s: "suffix (unsuperseded (xs @ [p])) ?kept" unfolding unsuperseded_snoc using suffix_filter by simp
    have e: "drop (length (ps @ [p]) - REPLAY) (ps @ [p]) = xs @ [p]" by (simp add: xs_def REPLAY_def)
    have l: "length (unsuperseded (xs @ [p])) \<le> REPLAY"
      using unsuperseded_length [of "xs @ [p]"] by (simp add: xs_def REPLAY_def split: if_splits)
    show ?case unfolding b e by (rule suffix_last [OF s l])
  }
qed (simp_all add: REPLAY_def)



lemma push_replay_bounded: "length (push_replay replay p) \<le> REPLAY" "last (push_replay replay p) = p"
  by (simp_all add: push_replay_def Let_def REPLAY_def)

text \<open>A running task whose repository has begun as many later ones as are kept is no longer found.\<close>

lemma running_task_forgotten:
  assumes "reg_reachable w" "rg_phase w j = Some Registering" "states (rg_tasks w) j = Some s"
    and q: "recent (history (rg_tasks w)) (tr_repo (ts_record s)) = Some (i # q)" "length q + 1 = KEEP_RECORDS"
  shows "tasks_get i ((rg_tasks w)\<lparr>history := begin_history (tr_repo (ts_record s)) j (history (rg_tasks w))\<rparr>) = None"
proof -
  let ?h = "history (rg_tasks w)" and ?rp = "tr_repo (ts_record s)"
  note f = reachable_facts [OF assms(1)]
  have h: "hist_ok ?h" and j: "j \<notin> set (by_id ?h)" using f assms(2) by blast+
  have "i \<in> set (by_id ?h)" using h q(1) by (auto simp: hist_ok_def hist_parts_ok_def ran_def)
  then have "i \<noteq> j" using j by blast
  moreover have "begin_history ?rp j ?h =
      evict_loop ((recent ?h)(?rp \<mapsto> q @ [j])) (removeAll i (by_id ?h @ [j])) (removeAll ?rp (repo_order ?h) @ [?rp])"
    using j q by (simp add: begin_history_def or_default_def Let_def)
  ultimately have "i \<notin> set (by_id (begin_history ?rp j ?h))"
    using evict_loop_subset [of "(recent ?h)(?rp \<mapsto> q @ [j])" "removeAll i (by_id ?h @ [j])" "removeAll ?rp (repo_order ?h) @ [?rp]"]
    by auto
  then show ?thesis by (simp add: tasks_get_def)
qed

section \<open>Waits for locks (lockwait.rs)\<close>

text \<open>Per lock the longest wait and their number, per lock and repository the longest; in milliseconds.\<close>

record lock_stats =
  STATS :: "(string \<times> nat \<times> nat) list"
  PER_REPO :: "((string \<times> string) \<times> nat) list"

definition lock_record :: "string \<Rightarrow> string \<Rightarrow> nat \<Rightarrow> lock_stats \<Rightarrow> lock_stats" where
  "lock_record lock rp ms s =
     \<lparr>STATS = AList.update lock (case map_of (STATS s) lock of Some (m, n) \<Rightarrow> (max m ms, n + 1) | None \<Rightarrow> (ms, 1)) (STATS s),
      PER_REPO = AList.update (lock, rp) (case map_of (PER_REPO s) (lock, rp) of Some m \<Rightarrow> max m ms | None \<Rightarrow> ms) (PER_REPO s)\<rparr>"

definition snapshot_for :: "string \<Rightarrow> lock_stats \<Rightarrow> (string \<times> nat) list" where
  "snapshot_for rp s = map (\<lambda>((l, _), m). (l, m)) (filter (\<lambda>((_, r), _). r = rp) (PER_REPO s))"

definition max_wait_ms :: "lock_stats \<Rightarrow> nat" where
  "max_wait_ms s = foldr (\<lambda>(_, m, _). max m) (STATS s) 0"

text \<open>What is kept of a sequence of waits is its longest and its length.\<close>

definition record_all :: "(string \<times> string \<times> nat) list \<Rightarrow> lock_stats" where
  "record_all ws = foldl (\<lambda>s (l, r, ms). lock_record l r ms s) \<lparr>STATS = [], PER_REPO = []\<rparr> ws"

definition waits_of :: "string \<Rightarrow> (string \<times> string \<times> nat) list \<Rightarrow> nat list" where
  "waits_of l ws = map (snd \<circ> snd) (filter (\<lambda>x. fst x = l) ws)"

lemma lock_stats_exact:
  "map_of (STATS (record_all ws)) l = (if waits_of l ws = [] then None else Some (Max (set (waits_of l ws)), length (waits_of l ws)))"
proof (induction ws rule: rev_induct)
  case (snoc x ws)
  obtain k r ms where x: "x = (k, r, ms)" by (cases x)
  have "record_all (ws @ [x]) = lock_record k r ms (record_all ws)" by (simp add: record_all_def x)
  moreover have "waits_of l (ws @ [x]) = waits_of l ws @ (if k = l then [ms] else [])" by (simp add: waits_of_def x)
  ultimately show ?case using snoc
    by (cases "k = l"; cases "waits_of l ws = []") (auto simp: lock_record_def update_conv' max.commute)
qed (simp add: record_all_def waits_of_def)

end
