(* ===== verification/Spec2Isabelle.thy ===== *)
theory Spec2Isabelle
  imports Site_Checks Wal_Compact Git_Upload Server_Introspect Wal_Tasks
begin

text \<open>
  \<^bold>\<open>gitcask\<close>, a git server whose repositories live in an object store, and its web site.

  A repository is one manifest object, immutable log segments, packs and checkpoints under a prefix
  of a bucket; server instances keep disposable local copies. A push becomes a log entry: the
  publisher of an instance verifies it against the refs, writes a log segment under the next free
  number, uploads the packs, and commits by a compare-and-swap of the manifest. Readers compare the
  manifest's version, and replay the entries they have not applied. Clients speak git's protocol: a push
  is a list of commands and a pack, a fetch starts with a listing of refs. Background work runs as tasks
  that report their progress. The web site (a Next.js
  application in TypeScript) consists of documentation pages, a landing page with three interactive
  demonstrations, and a script that writes the documents for agents.

  \<^bold>\<open>Theories, from the bottom up.\<close>

  \<^item> \<^verbatim>\<open>Gitcask_Prelude\<close>: lists, options, strings, decimal numbers, results (\<open>Inl\<close> the error),
    and the collections of rewrite rules the other theories share. \<^verbatim>\<open>Btree\<close>: Rust's ordered map as a
    sorted association list.
  \<^item> \<^verbatim>\<open>Store\<close> (\<^verbatim>\<open>crates/gitcask-store/src/lib.rs\<close>, \<^verbatim>\<open>memory.rs\<close>): the store trait, the memory
    backend with its 64-bit version counter, prefixed stores. The locales \<open>cas_store\<close> and
    \<open>cas_history\<close> are the contract every client relies on; both backends are interpretations.
  \<^item> \<^verbatim>\<open>Coord\<close> (\<^verbatim>\<open>coord.rs\<close>): messages with versions, the read-modify-write loop, leases and the
    polling for one, with interference of other clients and lost responses as explicit arguments.
  \<^item> \<^verbatim>\<open>Git_Refs\<close> (\<^verbatim>\<open>crates/gitcask-git/src/refs.rs\<close>, \<^verbatim>\<open>error.rs\<close>): validation of
    updates, point lookups through the pending list, the cached refs, the packed and loose ref files,
    offline replay. \<open>refs_spec\<close> is the abstract state: a map from names to ids, and HEAD.
  \<^item> \<^verbatim>\<open>Git_Apply\<close> (\<^verbatim>\<open>refs.rs\<close>, \<open>apply_ref_txn\<close>): a transaction applied through git. The git program
    is the parameter \<open>update_ref\<close>; \<open>update_ref_ok\<close> states its documented effect on the files.
  \<^item> \<^verbatim>\<open>Git_Pkt\<close> (\<^verbatim>\<open>pkt.rs\<close>): pkt-lines and sidebands. A transport is a read function; the locale
    \<open>byte_reader\<close> says what readers promise, and its interpretations are a string and a body that
    arrives in chunks of any size, so that parsing does not depend on how the bytes are cut.
  \<^item> \<^verbatim>\<open>Git_Receive\<close> (\<^verbatim>\<open>receive.rs\<close>, \<^verbatim>\<open>crates/gitcask-server/src/smart.rs\<close>): a push on the wire, its report
    and its refusal. \<^verbatim>\<open>Git_Upload\<close> (\<^verbatim>\<open>pkt.rs\<close>, \<^verbatim>\<open>advertise.rs\<close>, \<^verbatim>\<open>types.rs\<close>, \<^verbatim>\<open>smart.rs\<close>): the commands of
    protocol version 2, listings by ranges of the sorted refs, fetch requests read and built, the
    advertisements. \<^verbatim>\<open>Git_Repo\<close> (\<^verbatim>\<open>repo_id.rs\<close>, server \<^verbatim>\<open>repo.rs\<close>): names of repositories, their
    prefixes, directories and routes.
  \<^item> \<^verbatim>\<open>Server_Auth\<close> (\<^verbatim>\<open>crates/gitcask-server/src/auth.rs\<close>): scopes and their patterns, signed tokens, the
    keys of the issuer, credentials, forwarded headers, the gates of the handlers, minting. Base64, JSON
    and Ed25519 are the parameter \<open>auth_lib\<close>. \<^verbatim>\<open>Server_Introspect\<close> (\<^verbatim>\<open>auth/introspect.rs\<close>): the client that
    asks the issuer about opaque tokens, its cache and its shared calls, as a machine.
  \<^item> \<^verbatim>\<open>Wal_Proto\<close> (\<^verbatim>\<open>crates/gitcask-proto\<close>): the messages as records, keys, the framing of entries.
  \<^item> \<^verbatim>\<open>Wal_Publish\<close> (\<^verbatim>\<open>crates/gitcask-wal/src/publish.rs\<close>): the pure functions of the publisher:
    verification of a batch, its entries, the new manifest, the responses.
  \<^item> \<^verbatim>\<open>Wal_Sync\<close> (\<^verbatim>\<open>sync.rs\<close>, \<^verbatim>\<open>handle.rs\<close>, \<^verbatim>\<open>state.rs\<close>, \<^verbatim>\<open>log_reader.rs\<close>): a handle, the freshness
    check, checkpoints' refs, replay, reading the log.
  \<^item> \<^verbatim>\<open>Wal_Writer\<close> (\<^verbatim>\<open>publish.rs\<close> \<open>process_batch\<close>, \<^verbatim>\<open>registry.rs\<close>): the publish protocol as a machine
    of any number of instances. One step is one request to the bucket or one section under the
    handle's lock; events are the choices of the environment (which instance moves, the clock, which
    request fails before or after its effect, crashes, cold opens with or without a cached copy). The
    machine is publishing alone: checkpoints, compaction and deletion are no events of it, which is the
    program with its three thresholds for automatic checkpoints at zero and no maintenance running.
  \<^item> \<^verbatim>\<open>Wal_Invariant\<close>, \<^verbatim>\<open>Wal_Handles\<close>, \<^verbatim>\<open>Wal_Safety\<close>: the invariant of that machine, the effect of single
    actions on it, and its consequences for runs. The locale \<open>publishers\<close> carries the assumptions on
    git; \<open>file_env\<close>, which rewrites the ref files itself, interprets it.
  \<^item> \<^verbatim>\<open>Wal_Checkpoint\<close> (\<^verbatim>\<open>checkpoint.rs\<close>): when a checkpoint is due, and folding the log into one, with
    other clients acting between its requests; and a checkpoint at the end of a run of publishers.
  \<^item> \<^verbatim>\<open>Wal_Packs\<close> (\<^verbatim>\<open>sync.rs\<close>, \<^verbatim>\<open>handle.rs\<close>, \<^verbatim>\<open>crates/gitcask-git/src/ingest.rs\<close>): striped downloads, packs and
    side files on the disk, reconciling them with the manifest, full syncs, re-materializing.
  \<^item> \<^verbatim>\<open>Wal_Compact\<close> (\<^verbatim>\<open>publish.rs\<close>): compaction, added packs and annotations, with what others may do before
    each request given as functions of the bucket that obey a law (\<open>orderly\<close>).
  \<^item> \<^verbatim>\<open>Wal_Tasks\<close> (\<^verbatim>\<open>tasks.rs\<close>, \<^verbatim>\<open>progress.rs\<close>, \<^verbatim>\<open>lockwait.rs\<close>): the registry of background tasks. One step
    is one section under a lock, of any of the callers that begin, report to or finish tasks.
  \<^item> \<^verbatim>\<open>Site_Dom\<close>, \<^verbatim>\<open>Site_Ui\<close>, \<^verbatim>\<open>Site_Content\<close>, \<^verbatim>\<open>Site_Docs\<close> (\<^verbatim>\<open>site/src/lib\<close>): rendered trees as values,
    the building blocks, content tables, the documentation frame and the chrome.
  \<^item> \<^verbatim>\<open>Pages_Start\<close>, \<^verbatim>\<open>Pages_Concepts\<close>, \<^verbatim>\<open>Pages_Reference\<close>, \<^verbatim>\<open>Pages_Operate\<close> (\<^verbatim>\<open>site/src/app/docs\<close>): the
    pages. \<^verbatim>\<open>Site_Checks\<close>: what holds of all of them.
  \<^item> \<^verbatim>\<open>Landing_Field\<close>, \<^verbatim>\<open>Landing_Cost\<close>, \<^verbatim>\<open>Landing_Demos\<close>, \<^verbatim>\<open>Landing\<close> (\<^verbatim>\<open>site/src/lib/components/landing\<close>):
    the animated field and the demonstrations as machines over their handlers and timers.
    \<^verbatim>\<open>Site_Llms\<close> (\<^verbatim>\<open>site/scripts/llms.mjs\<close>): the generator, over an explicit file map.

  \<^bold>\<open>What is shown.\<close> For the protocol: in every calm run of publishers the committed log is intact, serial and
  append-only, acknowledged pushes stay in it, a handle that holds the current version serves
  exactly its replay, and the checkpoint that ends such a run drops the log and keeps the replay. A run is calm
  when (1) no response to an applied manifest swap is lost, (2) git applies committed transactions
  locally, and (3) the updates of every batch are validated, have names the ref files can hold (no white space
  around them) and hexadecimal peeled ids, and do not point HEAD at itself or delete it. That (1) is needed is shown by a
  run in which an acknowledged push is lost, and for (3) it is shown that a validated name ending in a tab
  overwrites another branch when it is replayed, and that a HEAD pointing at itself is looked up for ever. For the layers below: compare-and-swap and
  version freshness of the stores, atomicity of \<open>cas_update\<close>, mutual exclusion of leases, exactness
  of sync, replay, local application, verification, responses and log reading against the abstract
  refs, checkpoints that leave the refs as they were (and a late one that does not), compactions as
  one atomic change of the pack set, complete and careful reconciling of the disk (and an interrupted
  installation that is not repaired), exact striped downloads, round trips of the file formats and the
  framing. For the wire: pushes, listings and fetch requests arrive as they were sent however the
  transport cuts them, listings by ranges are listings, multiplexed channels come apart again, reports
  are read as they were written (and reasons of several lines are not), repositories have disjoint
  prefixes and directories. For access: nothing is granted but by a token that a key of the issuer
  verifies and that is in force, or by a response of the issuer within its lifetime; patterns mean what
  they say; minted tokens are accepted until they expire (and those of less than a second never, though minting
  them succeeds), and scopes do not tell repositories apart that differ only in case, which the bucket does. For tasks: one of a kind per repository under any interleaving, bounded
  histories, what a subscriber receives. For the site: outlines, links, keys and tables of all pages,
  the generator's output, invariants of the interactive parts, arrival and rates of the animations.

  \<^bold>\<open>Bounds.\<close> Versions of the memory store are 64-bit words; sequence numbers are natural numbers that
  enter keys modulo two to the 64. The theorems on runs assume that the number of events times the
  batch size stays below that, which no run of the program reaches. Loops are recursive functions
  with termination proofs; the polling loop and the publishers of packs take the list of their turns, and
  lemmas say when the list is long enough. The loop over pkt-lines is a partial function, as the reader
  is a parameter; for the readers of \<open>byte_reader\<close> it is shown to return. Witnesses evaluate the model in the kernel.

  \<^bold>\<open>Coarser than the code.\<close> A sync reads the manifest in one step and applies it in a second one, which
  includes the reads of the (immutable) segments. Pack uploads, concurrent with the claim of the
  slot in the program, follow it in the model, and the check and the repeated PUT after a refused upload belong to its step.
  A fault concerns the first request of a step. Operations on a handle (\<open>apply_ref_txn\<close>, \<open>apply_ref_txns_offline\<close>,
  \<open>step_verifying\<close>) read the refs from the files, where the program keeps them in a cache with a list of
  pending transactions; that the cache's view means the files' refs with the pending ones applied is shown apart. A commit's
  local application and the saving of the state file are one section, without a crash between them. The
  read-modify-write loop's GET does not fail, and dropping a lease's guard deletes at once what the
  program deletes in a spawned task; epochs are unbounded. Writing a checkpoint always checks
  freshness, and the handle is not used by others meanwhile. Downloads do not compare object sizes. The rejection of a
  time that goes back does not print the times. The
  protobuf codec is a parameter or left implicit: buckets hold decoded objects. Times are numbers. Documents are trimmed
  of ASCII white space.

  \<^bold>\<open>Not modelled.\<close> The local commit graph, repository deletion and eviction; of the HTTP server,
  everything but the wire protocol and access: routing, caches of answers, narration, events, LFS,
  maintenance passes (with what they trigger: when checkpoints and compactions run); git subprocesses and pack ingestion; the S3 client; telemetry, configuration and
  the command line. They are glue over libraries, or state the refs and the log do not depend on. The
  vendored API viewer is third-party code. Of the site, the bundler's option objects.
\<close>

end
